(* ===== verification/Prelude.thy ===== *)
theory Prelude
  imports Main "HOL-Library.Multiset" "HOL-Library.Char_ord" "HOL-Library.List_Lexorder"
    "HOL-Library.Product_Lexorder" "HOL-Library.Option_ord"
begin

text \<open>
  Shared vocabulary of the development. Rust's \<open>Result<T, E>\<close> is a sum whose left side is the
  error; the question-mark operator is \<open>and_then\<close>, an early-return guard is \<open>require\<close> and a
  loop whose body may return early is \<open>try_fold\<close>. The orders on strings, pairs and options
  (\<open>Char_ord\<close>, \<open>List_Lexorder\<close>, \<open>Product_Lexorder\<close>, \<open>Option_ord\<close>) are the derived and
  built-in \<open>Ord\<close> instances of the Rust types: bytewise for \<open>str\<close>, lexicographic for tuples,
  \<open>None\<close> first for options. The locale \<open>checked_machine\<close> is the contract every fallible step
  function of the development meets, and lifts a one-step invariant to whole runs.
\<close>

section \<open>Results\<close>

type_synonym ('e, 'a) result = "'e + 'a"

named_theorems result_simps "inversion of results: when a chain of fallible steps succeeds"

definition and_then :: "('e, 'a) result \<Rightarrow> ('a \<Rightarrow> ('e, 'b) result) \<Rightarrow> ('e, 'b) result" where
  "and_then m f = (case m of Inl e \<Rightarrow> Inl e | Inr x \<Rightarrow> f x)"

definition require :: "bool \<Rightarrow> 'e \<Rightarrow> ('e, unit) result" where
  "require c e = (if c then Inr () else Inl e)"

definition ok_or :: "'a option \<Rightarrow> 'e \<Rightarrow> ('e, 'a) result" where
  "ok_or x e = (case x of None \<Rightarrow> Inl e | Some v \<Rightarrow> Inr v)"

definition or_else :: "'a option \<Rightarrow> 'a option \<Rightarrow> 'a option" where
  "or_else a b = (case a of None \<Rightarrow> b | Some _ \<Rightarrow> a)"

definition option_then :: "'a option \<Rightarrow> ('a \<Rightarrow> 'b option) \<Rightarrow> 'b option" where
  "option_then a f = (case a of None \<Rightarrow> None | Some x \<Rightarrow> f x)"

fun try_fold :: "('s \<Rightarrow> 'x \<Rightarrow> ('e, 's) result) \<Rightarrow> 's \<Rightarrow> 'x list \<Rightarrow> ('e, 's) result" where
  "try_fold f s [] = Inr s"
| "try_fold f s (x # xs) = and_then (f s x) (\<lambda>s'. try_fold f s' xs)"

definition for_each :: "('x \<Rightarrow> ('e, unit) result) \<Rightarrow> 'x list \<Rightarrow> ('e, unit) result" where
  "for_each f xs = try_fold (\<lambda>_ x. f x) () xs"

fun try_map :: "('x \<Rightarrow> ('e, 'y) result) \<Rightarrow> 'x list \<Rightarrow> ('e, 'y list) result" where
  "try_map f [] = Inr []"
| "try_map f (x # xs) = and_then (f x) (\<lambda>y. and_then (try_map f xs) (\<lambda>ys. Inr (y # ys)))"

lemma and_then_simps [simp]:
  "and_then (Inl e) f = Inl e"
  "and_then (Inr x) f = f x"
  by (simp_all add: and_then_def)

lemma and_then_Inr_iff [result_simps]:
  "and_then m f = Inr y \<longleftrightarrow> (\<exists>x. m = Inr x \<and> f x = Inr y)"
  by (cases m) auto

lemma and_then_Inl_iff:
  "and_then m f = Inl e \<longleftrightarrow> m = Inl e \<or> (\<exists>x. m = Inr x \<and> f x = Inl e)"
  by (cases m) auto

lemma and_then_unit_Inr: "and_then (m :: ('e, unit) result) f = Inr y \<longleftrightarrow> m = Inr () \<and> f () = Inr y"
  by (cases m) simp_all

lemma guard_Inr: "(if c then Inl e else m) = Inr y \<longleftrightarrow> \<not> c \<and> m = Inr y"
  by simp

lemma require_Inr_iff [simp]: "require c e = Inr u \<longleftrightarrow> c"
  by (cases u) (simp add: require_def)

lemma require_Inl_iff [simp]: "require c e = Inl e' \<longleftrightarrow> \<not> c \<and> e' = e"
  by (auto simp: require_def)

lemma require_True [simp]: "require True e = Inr ()"
  and require_False [simp]: "require False e = Inl e"
  by (simp_all add: require_def)

lemma ok_or_Inr_iff [simp]: "ok_or x e = Inr y \<longleftrightarrow> x = Some y"
  by (cases x) (auto simp: ok_or_def)

lemma ok_or_Inl_iff [simp]: "ok_or x e = Inl e' \<longleftrightarrow> x = None \<and> e' = e"
  by (cases x) (auto simp: ok_or_def)

lemma ok_or_simps [simp]: "ok_or None e = Inl e" "ok_or (Some v) e = Inr v"
  by (simp_all add: ok_or_def)

lemma and_then_cong [fundef_cong]:
  "m = m' \<Longrightarrow> (\<And>x. m' = Inr x \<Longrightarrow> f x = g x) \<Longrightarrow> and_then m f = and_then m' g"
  by (cases m') simp_all

lemma try_fold_append:
  "try_fold f s (xs @ ys) = and_then (try_fold f s xs) (\<lambda>s'. try_fold f s' ys)"
proof (induction xs arbitrary: s)
  case Nil
  then show ?case by simp
next
  case (Cons x xs)
  then show ?case by (cases "f s x") simp_all
qed

lemma try_fold_snoc:
  "try_fold f s (xs @ [x]) = and_then (try_fold f s xs) (\<lambda>s'. f s' x)"
  by (cases "try_fold f s xs"; simp add: try_fold_append) (rename_tac b, case_tac "f b x", simp_all)

lemma try_fold_invariant:
  assumes "\<And>s x s'. I s \<Longrightarrow> x \<in> set xs \<Longrightarrow> f s x = Inr s' \<Longrightarrow> I s'"
    and "I s" and "try_fold f s xs = Inr t"
  shows "I t"
  using assms
proof (induction xs arbitrary: s)
  case Nil
  then show ?case by simp
next
  case (Cons x xs)
  from Cons.prems(3) obtain s' where s': "f s x = Inr s'" "try_fold f s' xs = Inr t"
    by (auto simp: and_then_Inr_iff)
  show ?case
  proof (rule Cons.IH)
    show "I s'" by (rule Cons.prems(1) [OF Cons.prems(2) _ s'(1)]) simp
    show "try_fold f s' xs = Inr t" by (rule s'(2))
  qed (use Cons.prems(1) in auto)
qed

lemma try_fold_error:
  "(\<And>s x. f s x \<noteq> Inl e) \<Longrightarrow> try_fold f s xs \<noteq> Inl e"
  by (induction xs arbitrary: s) (auto simp: and_then_Inl_iff)

lemma for_each_Inr_iff [result_simps]:
  "for_each f xs = Inr u \<longleftrightarrow> (\<forall>x\<in>set xs. f x = Inr ())"
proof (induction xs)
  case Nil
  then show ?case by (simp add: for_each_def)
next
  case (Cons x xs)
  then show ?case by (cases "f x") (auto simp: for_each_def)
qed

lemma for_each_simps [simp]:
  "for_each f [] = Inr ()"
  "for_each f (x # xs) = and_then (f x) (\<lambda>_. for_each f xs)"
  by (simp_all add: for_each_def)

lemma try_map_Inr_iff [result_simps]:
  "try_map f xs = Inr ys \<longleftrightarrow> list_all2 (\<lambda>x y. f x = Inr y) xs ys"
proof (induction xs arbitrary: ys)
  case Nil
  then show ?case by auto
next
  case (Cons x xs)
  then show ?case by (auto simp: and_then_Inr_iff list_all2_Cons1)
qed

section \<open>Checked machines\<close>

locale checked_machine =
  fixes step :: "'s \<Rightarrow> 'x \<Rightarrow> ('e, 's) result"
    and inv :: "'s \<Rightarrow> bool"
  assumes step_inv: "inv s \<Longrightarrow> step s x = Inr t \<Longrightarrow> inv t"
begin

lemma run_inv: "inv s \<Longrightarrow> try_fold step s xs = Inr t \<Longrightarrow> inv t"
  by (rule try_fold_invariant [where I = inv and f = step]) (auto intro: step_inv)

lemma run_append_inv:
  "inv s \<Longrightarrow> try_fold step s (xs @ ys) = Inr t \<Longrightarrow>
     \<exists>m. try_fold step s xs = Inr m \<and> inv m \<and> try_fold step m ys = Inr t"
  by (auto simp: try_fold_append and_then_Inr_iff intro: run_inv)

end

section \<open>Lists, sorting and maps\<close>

lemma sort_key_perm_unique:
  assumes "mset xs = mset ys" and "inj_on f (set xs)"
  shows "sort_key f xs = sort_key f ys"
proof (rule sort_key_inj_key_eq)
  show "mset xs = mset (sort_key f ys)" by (simp add: assms(1))
  show "inj_on f (set xs)" by (rule assms(2))
  show "sorted (map f (sort_key f ys))" by simp
qed

lemma sort_key_eq_Nil [simp]: "sort_key f xs = [] \<longleftrightarrow> xs = []"
  by (metis length_0_conv length_sort)

lemma sorted_list_of_set_set [simp]: "set (sorted_list_of_set (set xs)) = set xs"
  by simp

lemma map_of_insert_new: "map_of ((k, v) # ps) = (map_of ps)(k \<mapsto> v)"
  by simp

end
