(* ===== verification/Rust_Text.thy ===== *)
theory Rust_Text
  imports Prelude
begin

text \<open>
  The parts of Rust's \<open>str\<close>, \<open>char\<close> and \<open>u8\<close> interfaces that the modelled code calls. A Rust
  string is its UTF-8 byte sequence, one \<open>char\<close> of HOL per byte, so \<open>len()\<close> is \<open>length\<close> and the
  bytewise \<open>Ord\<close> of \<open>str\<close> is the list order. Functions over Unicode scalar values
  (\<open>chars\<close>, \<open>trim\<close>, \<open>split\<close>) cut the bytes into scalar values first (\<open>utf8_units\<close>), which is
  exact for every valid UTF-8 sequence, the only kind a Rust string holds.
\<close>

abbreviation byte :: "char \<Rightarrow> nat" where
  "byte c \<equiv> of_char c"

abbreviation len :: "string \<Rightarrow> nat" where
  "len s \<equiv> length s"

section \<open>Machine sizes\<close>

text \<open>\<open>usize\<close> has 64 bits. \<open>saturating_add\<close> stops at the largest value.\<close>

definition usize_max :: nat where
  "usize_max = 2 ^ 64 - 1"

definition saturating_add :: "nat \<Rightarrow> nat \<Rightarrow> nat" where
  "saturating_add a b = min (a + b) usize_max"

lemma saturating_add_le: "saturating_add a b \<le> a + b"
  by (simp add: saturating_add_def)

lemma saturating_add_mono: "a \<le> usize_max \<Longrightarrow> a \<le> saturating_add a b"
  by (simp add: saturating_add_def)

section \<open>Bytes\<close>

definition is_ascii_digit :: "char \<Rightarrow> bool" where
  "is_ascii_digit c \<longleftrightarrow> 48 \<le> byte c \<and> byte c \<le> 57"

definition is_ascii_uppercase :: "char \<Rightarrow> bool" where
  "is_ascii_uppercase c \<longleftrightarrow> 65 \<le> byte c \<and> byte c \<le> 90"

definition is_ascii_lowercase :: "char \<Rightarrow> bool" where
  "is_ascii_lowercase c \<longleftrightarrow> 97 \<le> byte c \<and> byte c \<le> 122"

definition is_ascii_hexdigit :: "char \<Rightarrow> bool" where
  "is_ascii_hexdigit c \<longleftrightarrow>
     is_ascii_digit c \<or> (65 \<le> byte c \<and> byte c \<le> 70) \<or> (97 \<le> byte c \<and> byte c \<le> 102)"

definition is_ascii_alphanumeric :: "char \<Rightarrow> bool" where
  "is_ascii_alphanumeric c \<longleftrightarrow>
     is_ascii_digit c \<or> is_ascii_uppercase c \<or> is_ascii_lowercase c"

definition is_ascii_control :: "char \<Rightarrow> bool" where
  "is_ascii_control c \<longleftrightarrow> byte c < 32 \<or> byte c = 127"

definition is_ascii_whitespace :: "char \<Rightarrow> bool" where
  "is_ascii_whitespace c \<longleftrightarrow> byte c \<in> {9, 10, 12, 13, 32}"

definition to_ascii_lower_byte :: "char \<Rightarrow> char" where
  "to_ascii_lower_byte c = (if is_ascii_uppercase c then char_of (byte c + 32) else c)"

definition to_ascii_lowercase :: "string \<Rightarrow> string" where
  "to_ascii_lowercase s = map to_ascii_lower_byte s"

section \<open>Scalar values\<close>

definition utf8_width :: "char \<Rightarrow> nat" where
  "utf8_width c = (if byte c < 128 then 1 else if byte c < 224 then 2
                   else if byte c < 240 then 3 else 4)"

function utf8_units :: "string \<Rightarrow> string list" where
  "utf8_units [] = []"
| "utf8_units (c # s) =
     (c # take (utf8_width c - 1) s) # utf8_units (drop (utf8_width c - 1) s)"
  by pat_completeness auto
termination
  by (relation "measure length") auto

fun scalar :: "string \<Rightarrow> nat" where
  "scalar [a, b] = (byte a - 192) * 64 + (byte b - 128)"
| "scalar [a, b, c] = ((byte a - 224) * 64 + (byte b - 128)) * 64 + (byte c - 128)"
| "scalar [a, b, c, d] =
     (((byte a - 240) * 64 + (byte b - 128)) * 64 + (byte c - 128)) * 64 + (byte d - 128)"
| "scalar (a # _) = byte a"
| "scalar [] = 0"

definition is_control :: "string \<Rightarrow> bool" where
  "is_control u \<longleftrightarrow> scalar u < 32 \<or> (127 \<le> scalar u \<and> scalar u \<le> 159)"

definition is_whitespace :: "string \<Rightarrow> bool" where
  "is_whitespace u \<longleftrightarrow>
     (9 \<le> scalar u \<and> scalar u \<le> 13) \<or> scalar u \<in> {32, 133, 160, 5760} \<or>
     (8192 \<le> scalar u \<and> scalar u \<le> 8202) \<or> scalar u \<in> {8232, 8233, 8239, 8287, 12288}"

definition any_char :: "(string \<Rightarrow> bool) \<Rightarrow> string \<Rightarrow> bool" where
  "any_char P s \<longleftrightarrow> list_ex P (utf8_units s)"

definition trim_units :: "(string \<Rightarrow> bool) \<Rightarrow> string \<Rightarrow> string" where
  "trim_units P s = concat (rev (dropWhile P (rev (dropWhile P (utf8_units s)))))"

definition trim :: "string \<Rightarrow> string" where
  "trim s = trim_units is_whitespace s"

lemma utf8_width_bounds: "1 \<le> utf8_width c" "utf8_width c \<le> 4"
  by (simp_all add: utf8_width_def)

lemma concat_utf8_units: "concat (utf8_units s) = s"
  by (induction s rule: utf8_units.induct) simp_all

lemma utf8_units_take: "utf8_units (concat (take n (utf8_units s))) = take n (utf8_units s)"
proof (induction s arbitrary: n rule: utf8_units.induct)
  case 1
  show ?case by simp
next
  case (2 c s)
  show ?case
  proof (cases n)
    case 0
    then show ?thesis by simp
  next
    case (Suc k)
    show ?thesis
    proof (cases "utf8_width c - 1 \<le> length s")
      case True
      then show ?thesis using 2 [of k] by (simp add: Suc)
    next
      case False
      then show ?thesis by (simp add: Suc)
    qed
  qed
qed

lemma utf8_units_nonempty: "u \<in> set (utf8_units s) \<Longrightarrow> u \<noteq> []"
  by (induction s rule: utf8_units.induct) auto

lemma utf8_units_eq_Nil [simp]: "utf8_units s = [] \<longleftrightarrow> s = []"
  by (cases s) simp_all

lemma trim_empty_iff: "trim s = [] \<longleftrightarrow> list_all is_whitespace (utf8_units s)"
proof
  assume "list_all is_whitespace (utf8_units s)"
  then have d: "dropWhile is_whitespace (utf8_units s) = []"
    by (simp add: list_all_iff)
  show "trim s = []" by (simp only: trim_def trim_units_def d) simp
next
  assume empty: "trim s = []"
  let ?d = "dropWhile is_whitespace (utf8_units s)"
  show "list_all is_whitespace (utf8_units s)"
  proof (rule ccontr)
    assume "\<not> list_all is_whitespace (utf8_units s)"
    then obtain u us where d: "?d = u # us" and nw: "\<not> is_whitespace u"
      by (metis Ball_set dropWhile_eq_Nil_conv hd_dropWhile list.exhaust list.sel(1))
    have "u \<in> set (utf8_units s)"
      using d by (metis list.set_intros(1) set_dropWhileD)
    then have "u \<noteq> []" by (rule utf8_units_nonempty)
    moreover have "u \<in> set (dropWhile is_whitespace (rev ?d))"
      using nw by (simp add: d dropWhile_append3)
    ultimately show False
      using empty by (auto simp: trim_def trim_units_def)
  qed
qed

named_theorems text_eval "the definitions that evaluate a text check on a literal"

lemmas [text_eval] =
  is_ascii_digit_def is_ascii_uppercase_def is_ascii_lowercase_def is_ascii_hexdigit_def
  is_ascii_alphanumeric_def is_ascii_control_def is_ascii_whitespace_def
  to_ascii_lower_byte_def to_ascii_lowercase_def
  utf8_width_def is_control_def is_whitespace_def any_char_def trim_units_def trim_def

section \<open>Searching and splitting\<close>

fun starts_with :: "string \<Rightarrow> string \<Rightarrow> bool" where
  "starts_with s [] = True"
| "starts_with [] (p # ps) = False"
| "starts_with (c # s) (p # ps) = (c = p \<and> starts_with s ps)"

definition ends_with :: "string \<Rightarrow> string \<Rightarrow> bool" where
  "ends_with s p = starts_with (rev s) (rev p)"

fun find_str :: "string \<Rightarrow> string \<Rightarrow> nat option" where
  "find_str [] p = (if p = [] then Some 0 else None)"
| "find_str (c # s) p =
     (if starts_with (c # s) p then Some 0 else map_option Suc (find_str s p))"

definition contains_str :: "string \<Rightarrow> string \<Rightarrow> bool" where
  "contains_str s p \<longleftrightarrow> find_str s p \<noteq> None"

fun split_units :: "(string \<Rightarrow> bool) \<Rightarrow> string list \<Rightarrow> string list" where
  "split_units P [] = [[]]"
| "split_units P (u # us) =
     (if P u then [] # split_units P us
      else (case split_units P us of [] \<Rightarrow> [u] | w # ws \<Rightarrow> (u @ w) # ws))"

definition split_on :: "(string \<Rightarrow> bool) \<Rightarrow> string \<Rightarrow> string list" where
  "split_on P s = split_units P (utf8_units s)"

definition split_whitespace :: "string \<Rightarrow> string list" where
  "split_whitespace s = filter (\<lambda>w. w \<noteq> []) (split_on is_whitespace s)"

lemma starts_with_iff: "starts_with s p \<longleftrightarrow> (\<exists>t. s = p @ t)"
  by (induction s p rule: starts_with.induct) auto

lemma find_str_Some: "find_str s p = Some n \<Longrightarrow> \<exists>a b. s = a @ p @ b \<and> length a = n"
proof (induction s p arbitrary: n rule: find_str.induct)
  case (1 p)
  then show ?case by (auto split: if_splits)
next
  case (2 c s p)
  show ?case
  proof (cases "starts_with (c # s) p")
    case True
    then show ?thesis using "2.prems" by (auto simp: starts_with_iff)
  next
    case False
    then obtain m where "find_str s p = Some m" "n = Suc m"
      using "2.prems" by auto
    then obtain a b where "s = a @ p @ b" "length a = m"
      using "2.IH" False by blast
    then have "c # s = (c # a) @ p @ b" "length (c # a) = n"
      using \<open>n = Suc m\<close> by simp_all
    then show ?thesis by blast
  qed
qed

lemma find_str_None: "find_str (a @ p @ b) p \<noteq> None"
proof (induction a)
  case Nil
  have "starts_with (p @ b) p" by (simp add: starts_with_iff)
  then show ?case by (cases "p @ b") auto
next
  case (Cons c a)
  then show ?case by auto
qed

lemma contains_str_iff: "contains_str s p \<longleftrightarrow> (\<exists>a b. s = a @ p @ b)"
  unfolding contains_str_def using find_str_Some find_str_None by blast

lemmas [text_eval] = ends_with_def contains_str_def split_on_def split_whitespace_def

lemma split_units_nonempty [simp]: "split_units P us \<noteq> []"
  by (induction us) (auto split: list.splits)

section \<open>Pieces\<close>

text \<open>\<open>[&str]::join\<close>, \<open>[T]::split\<close>, a slice of a string, \<open>str::strip_prefix\<close> and \<open>Vec::dedup_by\<close>: of neighbours
  with one key the first stays.\<close>

fun join_str :: "string \<Rightarrow> string list \<Rightarrow> string" where
  "join_str sep [] = []"
| "join_str sep [w] = w"
| "join_str sep (w # ws) = w @ sep @ join_str sep ws"

fun split_list :: "('a \<Rightarrow> bool) \<Rightarrow> 'a list \<Rightarrow> 'a list list" where
  "split_list P [] = [[]]"
| "split_list P (x # xs) =
     (if P x then [] # split_list P xs
      else (case split_list P xs of [] \<Rightarrow> [[x]] | w # ws \<Rightarrow> (x # w) # ws))"

definition substr :: "nat \<Rightarrow> nat \<Rightarrow> string \<Rightarrow> string" where
  "substr a b s = take (b - a) (drop a s)"

definition strip_prefix :: "string \<Rightarrow> string \<Rightarrow> string option" where
  "strip_prefix p s = (if starts_with s p then Some (drop (length p) s) else None)"

fun dedup_by :: "('a \<Rightarrow> 'b) \<Rightarrow> 'a list \<Rightarrow> 'a list" where
  "dedup_by f [] = []"
| "dedup_by f [x] = [x]"
| "dedup_by f (x # y # xs) = (if f x = f y then dedup_by f (x # xs) else x # dedup_by f (y # xs))"

lemma split_list_avoids: "\<forall>w\<in>set (split_list P xs). \<forall>x\<in>set w. \<not> P x"
proof (induction xs)
  case (Cons x xs)
  then show ?case by (cases "split_list P xs") simp_all
qed simp

lemma split_list_joined:
  "\<forall>w\<in>set ws. c \<notin> set w \<Longrightarrow> ws \<noteq> [] \<Longrightarrow> split_list (\<lambda>x. x = c) (join_str [c] ws) = ws"
proof (induction "[c]" ws rule: join_str.induct)
  case 1
  then show ?case by simp
next
  case (2 x)
  then show ?case by (induction x) auto
next
  case (3 x y xs)
  have "split_list (\<lambda>x. x = c) (x @ [c] @ zs) = x # split_list (\<lambda>x. x = c) zs" for zs
    using 3(2) by (induction x) auto
  then show ?case using 3 by simp
qed

lemma dedup_by_subset: "set (dedup_by f xs) \<subseteq> set xs"
  by (induction f xs rule: dedup_by.induct) auto

lemma dedup_by_sorted:
  "sorted (map f xs) \<Longrightarrow> sorted (map f (dedup_by f xs)) \<and> distinct (map f (dedup_by f xs))"
proof (induction f xs rule: dedup_by.induct)
  case (3 f x y xs)
  show ?case
  proof (cases "f x = f y")
    case True
    then show ?thesis using 3 by simp
  next
    case False
    have ih: "sorted (map f (dedup_by f (y # xs)))" "distinct (map f (dedup_by f (y # xs)))"
      using 3(2) [OF False] 3(3) by simp_all
    have le: "f y \<le> f z" if "z \<in> set (dedup_by f (y # xs))" for z
      using that dedup_by_subset [of f "y # xs"] 3(3) by auto
    have "f x < f y" using False 3(3) by (auto simp: less_le)
    then have "f x < f z" if "z \<in> set (dedup_by f (y # xs))" for z using le [OF that] by simp
    then show ?thesis using ih False by (auto simp: less_le)
  qed
qed simp_all

section \<open>Numbers\<close>

text \<open>\<open>Ord::clamp\<close>, \<open>usize::to_string\<close> and \<open>str::parse::<usize>\<close>: digits after an optional plus sign,
  refused when empty or beyond 64 bits.\<close>

definition clamp :: "nat \<Rightarrow> nat \<Rightarrow> nat \<Rightarrow> nat" where
  "clamp lo hi n = (if n < lo then lo else if n > hi then hi else n)"

lemma clamp_le: "lo \<le> hi \<Longrightarrow> clamp lo hi n \<le> hi"
  by (simp add: clamp_def)

fun decimal :: "nat \<Rightarrow> string" where
  "decimal n = (if n < 10 then [char_of (48 + n)] else decimal (n div 10) @ [char_of (48 + n mod 10)])"

declare decimal.simps [simp del]

definition digit_value :: "char \<Rightarrow> nat" where
  "digit_value c = byte c - 48"

definition digits_value :: "string \<Rightarrow> nat" where
  "digits_value s = foldl (\<lambda>n c. 10 * n + digit_value c) 0 s"

definition parse_usize :: "string \<Rightarrow> nat option" where
  "parse_usize s =
     (let digits = (case s of [] \<Rightarrow> [] | c # cs \<Rightarrow> if c = CHR ''+'' then cs else s)
      in if digits = [] \<or> \<not> list_all is_ascii_digit digits \<or> digits_value digits > usize_max then None
         else Some (digits_value digits))"

lemma is_ascii_digit_char: "(n :: nat) < 10 \<Longrightarrow> is_ascii_digit (char_of (48 + n))"
  by (simp add: is_ascii_digit_def)

lemma decimal_digits: "list_all is_ascii_digit (decimal n) \<and> decimal n \<noteq> []"
  by (induction n rule: decimal.induct) (simp add: decimal.simps is_ascii_digit_char)

lemma digits_value_snoc: "digits_value (s @ [c]) = 10 * digits_value s + digit_value c"
  by (simp add: digits_value_def)

lemma digits_value_decimal: "digits_value (decimal n) = n"
proof (induction n rule: decimal.induct)
  case (1 n)
  have digit: "digit_value (char_of (48 + m)) = m" if "m < 10" for m :: nat
    using that by (simp add: digit_value_def)
  show ?case
  proof (cases "n < 10")
    case True
    then show ?thesis by (subst decimal.simps) (simp add: digits_value_def digit)
  next
    case False
    then have "decimal n = decimal (n div 10) @ [char_of (48 + n mod 10)]" by (subst decimal.simps) simp
    moreover have "digit_value (char_of (48 + n mod 10)) = n mod 10" by (rule digit) simp
    ultimately show ?thesis using 1 [OF False] by (simp only: digits_value_snoc mult_div_mod_eq)
  qed
qed

lemma parse_decimal:
  assumes "n \<le> usize_max"
  shows "parse_usize (decimal n) = Some n"
proof -
  obtain c cs where c: "decimal n = c # cs" using decimal_digits [of n] by (cases "decimal n") auto
  have "c \<noteq> CHR ''+''" using decimal_digits [of n] c by (auto simp: is_ascii_digit_def)
  moreover have "digits_value (c # cs) = n" "list_all is_ascii_digit (c # cs)"
    using digits_value_decimal [of n] decimal_digits [of n] by (simp_all add: c)
  ultimately show ?thesis using assms by (simp add: parse_usize_def c)
qed

section \<open>Valid UTF-8\<close>

definition is_continuation :: "char \<Rightarrow> bool" where
  "is_continuation c \<longleftrightarrow> 128 \<le> byte c \<and> byte c < 192"

fun valid_unit :: "string \<Rightarrow> bool" where
  "valid_unit [a] = (byte a < 128)"
| "valid_unit [a, b] = (194 \<le> byte a \<and> byte a < 224 \<and> is_continuation b)"
| "valid_unit [a, b, c] =
     (224 \<le> byte a \<and> byte a < 240 \<and> is_continuation b \<and> is_continuation c \<and>
      2048 \<le> scalar [a, b, c] \<and> \<not> (55296 \<le> scalar [a, b, c] \<and> scalar [a, b, c] < 57344))"
| "valid_unit [a, b, c, d] =
     (240 \<le> byte a \<and> is_continuation b \<and> is_continuation c \<and> is_continuation d \<and>
      65536 \<le> scalar [a, b, c, d] \<and> scalar [a, b, c, d] \<le> 1114111)"
| "valid_unit _ = False"

definition valid_utf8 :: "string \<Rightarrow> bool" where
  "valid_utf8 s \<longleftrightarrow> list_all valid_unit (utf8_units s)"

definition is_ascii :: "string \<Rightarrow> bool" where
  "is_ascii s \<longleftrightarrow> list_all (\<lambda>c. byte c < 128) s"

lemma utf8_units_ascii_append: "is_ascii a \<Longrightarrow> utf8_units (a @ b) = map (\<lambda>c. [c]) a @ utf8_units b"
  by (induction a) (simp_all add: is_ascii_def utf8_width_def)

lemma utf8_units_ascii: "is_ascii a \<Longrightarrow> utf8_units a = map (\<lambda>c. [c]) a"
  using utf8_units_ascii_append [of a "[]"] by simp

lemma valid_utf8_ascii: "is_ascii a \<Longrightarrow> valid_utf8 a"
  by (simp add: valid_utf8_def utf8_units_ascii) (simp add: is_ascii_def list_all_iff)

lemma is_ascii_append [simp]: "is_ascii (a @ b) \<longleftrightarrow> is_ascii a \<and> is_ascii b"
  by (simp add: is_ascii_def)

lemma split_units_part:
  "\<forall>u\<in>set us. \<not> P u \<Longrightarrow> split_units P us = [concat us]"
  by (induction us) auto

lemma split_units_parts:
  "\<forall>u\<in>set us. \<not> P u \<Longrightarrow> P s \<Longrightarrow> split_units P (us @ s # vs) = concat us # split_units P vs"
  by (induction us) auto

lemma split_units_first:
  "split_units P us = w # ws \<Longrightarrow>
     (ws = [] \<and> concat us = w) \<or>
     (\<exists>s rest. P s \<and> concat us = w @ s @ concat rest \<and> split_units P rest = ws)"
proof (induction us arbitrary: w)
  case (Cons u us)
  show ?case
  proof (cases "P u")
    case True
    then show ?thesis using Cons.prems by auto
  next
    case False
    obtain v where v: "split_units P us = v # ws" "w = u @ v"
      using Cons.prems False by (auto split: list.splits)
    from Cons.IH [OF v(1)] show ?thesis unfolding v(2) by auto
  qed
qed simp

lemma split_units_three:
  assumes "split_units P us = [a, b, c]"
  shows "\<exists>s t. P s \<and> P t \<and> concat us = a @ s @ b @ t @ c"
proof -
  obtain s rest where s: "P s" "concat us = a @ s @ concat rest" "split_units P rest = [b, c]"
    using split_units_first [OF assms] by auto
  then obtain t rest' where t: "P t" "concat rest = b @ t @ concat rest'" "split_units P rest' = [c]"
    using split_units_first [of P rest b "[c]"] by auto
  then have "concat rest' = c" using split_units_first [of P rest' c "[]"] by auto
  then show ?thesis using s t by auto
qed

end
