(* ===== verification/Contracts.thy ===== *)
theory Contracts
  imports Rust_Text
begin

text \<open>
  The data contract of business-rule archaeology
  (\<open>commands/business_rule_archaeology/contracts.rs\<close>): the enumerations shared by the
  lifecycle, job and identity components, the cited source span, the rule clause and the rule
  packet, and the three validators that guard publication. A field keeps its source name
  behind a short prefix for its struct; an enum variant keeps its name behind its enum's.
  The 64-bit counters are natural numbers: the validators only compare them.
\<close>

section \<open>Enumerations\<close>

datatype ArchaeologyCoverageState = Coverage_Complete | Coverage_Partial | Coverage_Unavailable

datatype ArchaeologyTrust =
  Trust_Extracted | Trust_Deterministic | Trust_ModelSynthesized | Trust_HumanConfirmed
| Trust_Unknown

datatype ArchaeologyConfidence =
  Confidence_High | Confidence_Medium | Confidence_Low | Confidence_Unavailable

datatype ArchaeologyRuleLifecycle =
  State_Candidate | State_ReviewNeeded | State_Accepted | State_Rejected | State_Superseded
| State_Conflicted | State_Unavailable

datatype ArchaeologyJobStage =
  Stage_Inventory | Stage_Parse | Stage_Link | Stage_Derive | Stage_Synthesize
| Stage_Validate | Stage_Publish | Stage_Cleanup | Stage_Idle

datatype ArchaeologyJobState =
  Job_Pending | Job_Running | Job_Paused | Job_Cancelling | Job_Completed | Job_Failed
| Job_Cancelled | Job_Unavailable

datatype ArchaeologyFactKind =
  Fact_Declaration | Fact_DataField | Fact_Constant | Fact_Predicate | Fact_Decision
| Fact_Calculation | Fact_Mutation | Fact_Call | Fact_InputOutput | Fact_Transaction
| Fact_ControlFlow | Fact_EntryPoint | Fact_Include | Fact_Unresolved

datatype ArchaeologyRuleKind =
  Rule_Validation | Rule_Calculation | Rule_Eligibility | Rule_Entitlement | Rule_Routing
| Rule_Mutation | Rule_Exception | Rule_Lifecycle | Rule_Transaction | Rule_Other

section \<open>Spans, clauses and packets\<close>

record ArchaeologyPosition =
  ps_byte :: nat
  ps_line :: nat
  ps_column :: nat

record ArchaeologySourceSpan =
  ss_span_id :: string
  ss_source_unit_id :: string
  ss_revision_sha :: string
  ss_start :: ArchaeologyPosition
  ss_end :: ArchaeologyPosition

record ArchaeologyCoverage =
  cov_state :: ArchaeologyCoverageState
  cov_parser_coverage :: ArchaeologyCoverageState
  cov_repository_coverage :: ArchaeologyCoverageState
  cov_temporal_coverage :: ArchaeologyCoverageState
  cov_discovered_source_units :: nat
  cov_indexed_source_units :: nat
  cov_discovered_bytes :: nat
  cov_indexed_bytes :: nat
  cov_reasons :: "string list"

record ArchaeologyRuleClause =
  cl_clause_id :: string
  cl_text :: string
  cl_trust :: ArchaeologyTrust
  cl_confidence :: ArchaeologyConfidence
  cl_supporting_fact_ids :: "string list"
  cl_contradicting_fact_ids :: "string list"
  cl_evidence_span_ids :: "string list"
  cl_caveats :: "string list"

record ArchaeologyRulePacket =
  rp_rule_id :: string
  rp_repository_id :: string
  rp_generation_id :: string
  rp_revision_sha :: string
  rp_kind :: ArchaeologyRuleKind
  rp_title :: string
  rp_domain_ids :: "string list"
  rp_lifecycle :: ArchaeologyRuleLifecycle
  rp_trust :: ArchaeologyTrust
  rp_confidence :: ArchaeologyConfidence
  rp_clauses :: "ArchaeologyRuleClause list"
  rp_dependency_rule_ids :: "string list"
  rp_conflict_rule_ids :: "string list"
  rp_alias_rule_ids :: "string list"
  rp_coverage :: ArchaeologyCoverage
  rp_parser_identity :: string
  rp_algorithm_identity :: string
  rp_synthesis_identity :: "string option"

record ArchaeologyJobStatus =
  js_schema_version :: nat
  js_job_id :: "string option"
  js_repository_id :: "string option"
  js_generation_id :: "string option"
  js_owner_id :: "string option"
  js_stage :: ArchaeologyJobStage
  js_state :: ArchaeologyJobState
  js_completed_units :: nat
  js_total_units :: "nat option"
  js_checkpoint_identity :: "string option"
  js_cancellation_requested :: bool
  js_coverage :: ArchaeologyCoverage
  js_updated_at :: "string option"
  js_errors :: "string list"

definition ARCHAEOLOGY_SCHEMA_VERSION :: nat where
  "ARCHAEOLOGY_SCHEMA_VERSION = 1"

definition ARCHAEOLOGY_STORAGE_SCHEMA_VERSION :: nat where
  "ARCHAEOLOGY_STORAGE_SCHEMA_VERSION = 2"

definition coverage_default :: ArchaeologyCoverage where
  "coverage_default =
     \<lparr>cov_state = Coverage_Unavailable, cov_parser_coverage = Coverage_Unavailable,
      cov_repository_coverage = Coverage_Unavailable,
      cov_temporal_coverage = Coverage_Unavailable,
      cov_discovered_source_units = 0, cov_indexed_source_units = 0,
      cov_discovered_bytes = 0, cov_indexed_bytes = 0, cov_reasons = []\<rparr>"

section \<open>Validators\<close>

datatype contract_error =
  SpanIdentityRequired | SpanOneBased | SpanEndPrecedesStart | RevisionShaRequired
| ClauseIdentityRequired | ClauseEvidenceRequired | PacketIdentityRequired
| PacketClauseRequired

definition lower_hex_byte :: "char \<Rightarrow> bool" where
  "lower_hex_byte c \<longleftrightarrow> is_ascii_hexdigit c \<and> \<not> is_ascii_uppercase c"

definition validate_revision_sha :: "string \<Rightarrow> (contract_error, unit) result" where
  "validate_revision_sha value =
     require ((len value = 40 \<or> len value = 64) \<and> list_all lower_hex_byte value)
       RevisionShaRequired"

definition source_span_validate :: "ArchaeologySourceSpan \<Rightarrow> (contract_error, unit) result" where
  "source_span_validate s =
     (if ss_span_id s = [] \<or> ss_source_unit_id s = [] then Inl SpanIdentityRequired
      else and_then (validate_revision_sha (ss_revision_sha s)) (\<lambda>_.
        if ps_line (ss_start s) = 0 \<or> ps_column (ss_start s) = 0
           \<or> ps_line (ss_end s) = 0 \<or> ps_column (ss_end s) = 0 then Inl SpanOneBased
        else if ps_byte (ss_end s) < ps_byte (ss_start s)
           \<or> (ps_line (ss_end s), ps_column (ss_end s))
               < (ps_line (ss_start s), ps_column (ss_start s)) then Inl SpanEndPrecedesStart
        else Inr ()))"

definition rule_clause_validate :: "ArchaeologyRuleClause \<Rightarrow> (contract_error, unit) result" where
  "rule_clause_validate c =
     (if cl_clause_id c = [] \<or> trim (cl_text c) = [] then Inl ClauseIdentityRequired
      else if cl_supporting_fact_ids c = [] \<or> cl_evidence_span_ids c = []
        then Inl ClauseEvidenceRequired
      else Inr ())"

definition rule_packet_validate :: "ArchaeologyRulePacket \<Rightarrow> (contract_error, unit) result" where
  "rule_packet_validate p =
     (if rp_rule_id p = [] \<or> rp_repository_id p = [] \<or> rp_generation_id p = []
        then Inl PacketIdentityRequired
      else and_then (validate_revision_sha (rp_revision_sha p)) (\<lambda>_.
        if rp_clauses p = [] then Inl PacketClauseRequired
        else for_each rule_clause_validate (rp_clauses p)))"

lemma validate_revision_sha_ok [result_simps]:
  "validate_revision_sha v = Inr u \<longleftrightarrow>
     (len v = 40 \<or> len v = 64) \<and> list_all lower_hex_byte v"
  by (simp add: validate_revision_sha_def)

lemma rule_clause_validate_ok [result_simps]:
  "rule_clause_validate c = Inr u \<longleftrightarrow>
     cl_clause_id c \<noteq> [] \<and> trim (cl_text c) \<noteq> [] \<and>
     cl_supporting_fact_ids c \<noteq> [] \<and> cl_evidence_span_ids c \<noteq> []"
  by (auto simp: rule_clause_validate_def)

lemma rule_packet_validate_ok [result_simps]:
  "rule_packet_validate p = Inr u \<longleftrightarrow>
     rp_rule_id p \<noteq> [] \<and> rp_repository_id p \<noteq> [] \<and> rp_generation_id p \<noteq> [] \<and>
     validate_revision_sha (rp_revision_sha p) = Inr () \<and> rp_clauses p \<noteq> [] \<and>
     (\<forall>c\<in>set (rp_clauses p). rule_clause_validate c = Inr ())"
  by (auto simp: rule_packet_validate_def and_then_Inr_iff for_each_Inr_iff)

lemma source_span_validate_ok [result_simps]:
  "source_span_validate s = Inr u \<longleftrightarrow>
     ss_span_id s \<noteq> [] \<and> ss_source_unit_id s \<noteq> [] \<and>
     validate_revision_sha (ss_revision_sha s) = Inr () \<and>
     1 \<le> ps_line (ss_start s) \<and> 1 \<le> ps_column (ss_start s) \<and>
     1 \<le> ps_line (ss_end s) \<and> 1 \<le> ps_column (ss_end s) \<and>
     ps_byte (ss_start s) \<le> ps_byte (ss_end s) \<and>
     (ps_line (ss_start s), ps_column (ss_start s)) \<le> (ps_line (ss_end s), ps_column (ss_end s))"
  by (cases u) (auto simp: source_span_validate_def and_then_Inr_iff not_less Suc_le_eq
      simp del: less_prod_simp less_eq_prod_simp)

end
