(* ===== verification/Lifecycle.thy ===== *)
theory Lifecycle
  imports Contracts
begin

text \<open>
  The append-only lifecycle of an archaeology rule
  (\<open>commands/business_rule_archaeology/lifecycle.rs\<close>): reviewer provenance, lifecycle actions
  and events, the projection of a complete event stream, the compare-and-swap gate for one
  append, and the compatibility of two rule snapshots. The sequence numbers (64-bit) are
  natural numbers: the code subtracts one only after it excluded zero, and adds one only to a
  stream length of at most ten thousand.
\<close>

section \<open>Bounds and text checks\<close>

definition MAX_LIFECYCLE_EVENTS_PER_RULE :: nat where
  "MAX_LIFECYCLE_EVENTS_PER_RULE = 10000"

definition MAX_LIFECYCLE_ID_BYTES :: nat where
  "MAX_LIFECYCLE_ID_BYTES = 256"

definition MAX_LIFECYCLE_REASON_BYTES :: nat where
  "MAX_LIFECYCLE_REASON_BYTES = 1024"

definition MAX_LIFECYCLE_ANNOTATION_BYTES :: nat where
  "MAX_LIFECYCLE_ANNOTATION_BYTES = 4096"

datatype lifecycle_error =
  TextRequired string | TextExceedsBound string | TextControlCharacters string
| HumanNamesAuthority | SupersedesItself | DecisionNotAllowed | ModelSupersedes
| SequenceNotOneBased | InconsistentCas
| StreamEmpty | EventBoundExceeded | StreamCrossesScope | SequenceGap | DuplicateEventId
| AnnotationBeforeCandidate | FirstMustCreateCandidate | CandidateOnlyStarts
| SupersededIsFinal | WouldNotChangeState | UnreachableAnnotate
| AppendCasFailed | AppendCrossesScope
| CompatCrossesRepository | CompatKindChanged | ExplicitSuccessorInvalid
| CompatContinuityChanged | ChangedRuleNeedsSuccessor

definition unsupported_control :: "string \<Rightarrow> bool" where
  "unsupported_control u \<longleftrightarrow>
     scalar u = 0 \<or> (is_control u \<and> scalar u \<noteq> 10 \<and> scalar u \<noteq> 13 \<and> scalar u \<noteq> 9)"

definition validate_text :: "string \<Rightarrow> string \<Rightarrow> nat \<Rightarrow> (lifecycle_error, unit) result" where
  "validate_text label value max_bytes =
     (if trim value = [] then Inl (TextRequired label)
      else if len value > max_bytes then Inl (TextExceedsBound label)
      else if any_char unsupported_control value then Inl (TextControlCharacters label)
      else Inr ())"

definition validate_id :: "string \<Rightarrow> string \<Rightarrow> (lifecycle_error, unit) result" where
  "validate_id label value = validate_text label value MAX_LIFECYCLE_ID_BYTES"

section \<open>Provenance, actions and events\<close>

datatype ArchaeologyReviewerKind =
  Reviewer_Human | Reviewer_DeterministicPolicy | Reviewer_Model

record ArchaeologyReviewerProvenance =
  rv_kind :: ArchaeologyReviewerKind
  rv_actor_id :: string
  rv_authority_id :: "string option"

definition provenance_validate ::
  "ArchaeologyReviewerProvenance \<Rightarrow> (lifecycle_error, unit) result" where
  "provenance_validate p =
     and_then (validate_id ''reviewer actor'' (rv_actor_id p)) (\<lambda>_.
       case rv_kind p of
         Reviewer_Human \<Rightarrow> require (rv_authority_id p = None) HumanNamesAuthority
       | _ \<Rightarrow> validate_id ''reviewer authority''
                (case rv_authority_id p of None \<Rightarrow> [] | Some a \<Rightarrow> a))"

definition can_decide :: "ArchaeologyReviewerProvenance \<Rightarrow> bool" where
  "can_decide p \<longleftrightarrow> rv_kind p = Reviewer_Human \<or> rv_kind p = Reviewer_DeterministicPolicy"

datatype ArchaeologyLifecycleAction =
  Act_Candidate
| Act_ReviewNeeded string
| Act_Accept
| Act_Reject string
| Act_Conflict string
| Act_Supersede string
| Act_Annotate string

definition action_validate ::
  "ArchaeologyLifecycleAction \<Rightarrow> string \<Rightarrow> ArchaeologyReviewerProvenance
     \<Rightarrow> (lifecycle_error, unit) result" where
  "action_validate a rule_id p =
     and_then
       (case a of
          Act_Candidate \<Rightarrow> Inr ()
        | Act_Accept \<Rightarrow> Inr ()
        | Act_ReviewNeeded reason \<Rightarrow>
            validate_text ''lifecycle reason'' reason MAX_LIFECYCLE_REASON_BYTES
        | Act_Reject reason \<Rightarrow>
            validate_text ''lifecycle reason'' reason MAX_LIFECYCLE_REASON_BYTES
        | Act_Conflict reason \<Rightarrow>
            validate_text ''lifecycle reason'' reason MAX_LIFECYCLE_REASON_BYTES
        | Act_Supersede successor \<Rightarrow>
            and_then (validate_id ''successor rule'' successor)
              (\<lambda>_. require (successor \<noteq> rule_id) SupersedesItself)
        | Act_Annotate annotation \<Rightarrow>
            validate_text ''lifecycle annotation'' annotation MAX_LIFECYCLE_ANNOTATION_BYTES)
       (\<lambda>_.
          if (case a of Act_Accept \<Rightarrow> True | Act_Reject _ \<Rightarrow> True | _ \<Rightarrow> False) \<and> \<not> can_decide p
            then Inl DecisionNotAllowed
          else if (case a of Act_Supersede _ \<Rightarrow> True | _ \<Rightarrow> False) \<and> rv_kind p = Reviewer_Model
            then Inl ModelSupersedes
          else Inr ())"

record ArchaeologyLifecycleEvent =
  le_event_id :: string
  le_repository_id :: string
  le_rule_id :: string
  le_sequence :: nat
  le_expected_previous_sequence :: nat
  le_provenance :: ArchaeologyReviewerProvenance
  le_action :: ArchaeologyLifecycleAction

definition event_validate_shape ::
  "ArchaeologyLifecycleEvent \<Rightarrow> (lifecycle_error, unit) result" where
  "event_validate_shape e =
     and_then (validate_id ''lifecycle event'' (le_event_id e)) (\<lambda>_.
     and_then (validate_id ''repository'' (le_repository_id e)) (\<lambda>_.
     and_then (validate_id ''rule'' (le_rule_id e)) (\<lambda>_.
       if le_sequence e = 0 then Inl SequenceNotOneBased
       else if le_expected_previous_sequence e \<noteq> le_sequence e - 1 then Inl InconsistentCas
       else and_then (provenance_validate (le_provenance e)) (\<lambda>_.
              action_validate (le_action e) (le_rule_id e) (le_provenance e)))))"

section \<open>The transition function\<close>

text \<open>
  Rust tries the arms in order. The last arm is the \<open>unreachable!()\<close> panic; it is the error
  \<open>UnreachableAnnotate\<close> here, so that its absence is a theorem and not an assumption.
\<close>

fun transition ::
  "ArchaeologyRuleLifecycle \<Rightarrow> ArchaeologyLifecycleAction
     \<Rightarrow> (lifecycle_error, ArchaeologyRuleLifecycle) result" where
  "transition State_Unavailable Act_Candidate = Inr State_Candidate"
| "transition State_Unavailable _ = Inl FirstMustCreateCandidate"
| "transition _ Act_Candidate = Inl CandidateOnlyStarts"
| "transition State_Superseded _ = Inl SupersededIsFinal"
| "transition State_ReviewNeeded (Act_ReviewNeeded _) = Inl WouldNotChangeState"
| "transition State_Accepted Act_Accept = Inl WouldNotChangeState"
| "transition State_Rejected (Act_Reject _) = Inl WouldNotChangeState"
| "transition State_Conflicted (Act_Conflict _) = Inl WouldNotChangeState"
| "transition _ (Act_ReviewNeeded _) = Inr State_ReviewNeeded"
| "transition _ Act_Accept = Inr State_Accepted"
| "transition _ (Act_Reject _) = Inr State_Rejected"
| "transition _ (Act_Conflict _) = Inr State_Conflicted"
| "transition _ (Act_Supersede _) = Inr State_Superseded"
| "transition _ (Act_Annotate _) = Inl UnreachableAnnotate"

section \<open>Projection of a stream\<close>

record ArchaeologyProjectedAnnotation =
  pa_event_id :: string
  pa_sequence :: nat
  pa_annotation :: string
  pa_provenance :: ArchaeologyReviewerProvenance

record ArchaeologyLifecycleProjection =
  lp_repository_id :: string
  lp_rule_id :: string
  lp_lifecycle :: ArchaeologyRuleLifecycle
  lp_last_sequence :: nat
  lp_last_state_event_id :: string
  lp_decision_provenance :: "ArchaeologyReviewerProvenance option"
  lp_successor_rule_id :: "string option"
  lp_annotations :: "ArchaeologyProjectedAnnotation list"

text \<open>The mutable locals of the loop in \<open>project_lifecycle\<close>; \<open>pl_offset\<close> is the enumeration index.\<close>

record projection_loop =
  pl_offset :: nat
  pl_event_ids :: "string set"
  pl_lifecycle :: ArchaeologyRuleLifecycle
  pl_last_state_event_id :: string
  pl_decision_provenance :: "ArchaeologyReviewerProvenance option"
  pl_successor_rule_id :: "string option"
  pl_annotations :: "ArchaeologyProjectedAnnotation list"

definition projection_start :: projection_loop where
  "projection_start =
     \<lparr>pl_offset = 0, pl_event_ids = {}, pl_lifecycle = State_Unavailable,
      pl_last_state_event_id = [], pl_decision_provenance = None,
      pl_successor_rule_id = None, pl_annotations = []\<rparr>"

definition record_annotation ::
  "projection_loop \<Rightarrow> ArchaeologyLifecycleEvent \<Rightarrow> string \<Rightarrow> projection_loop" where
  "record_annotation st e annotation =
     st\<lparr>pl_annotations := pl_annotations st @
          [\<lparr>pa_event_id = le_event_id e, pa_sequence = le_sequence e,
            pa_annotation = annotation, pa_provenance = le_provenance e\<rparr>]\<rparr>"

definition record_transition ::
  "projection_loop \<Rightarrow> ArchaeologyLifecycleEvent \<Rightarrow> ArchaeologyRuleLifecycle \<Rightarrow> projection_loop" where
  "record_transition st e next =
     st\<lparr>pl_lifecycle := next,
        pl_last_state_event_id := le_event_id e,
        pl_decision_provenance :=
          (case le_action e of
             Act_Accept \<Rightarrow> Some (le_provenance e)
           | Act_Reject _ \<Rightarrow> Some (le_provenance e)
           | _ \<Rightarrow> None),
        pl_successor_rule_id :=
          (case le_action e of Act_Supersede successor \<Rightarrow> Some successor | _ \<Rightarrow> None)\<rparr>"

definition project_action ::
  "projection_loop \<Rightarrow> ArchaeologyLifecycleEvent \<Rightarrow> (lifecycle_error, projection_loop) result" where
  "project_action st e =
     (case le_action e of
        Act_Annotate annotation \<Rightarrow>
          (if pl_lifecycle st = State_Unavailable then Inl AnnotationBeforeCandidate
           else Inr (record_annotation st e annotation))
      | action \<Rightarrow> and_then (transition (pl_lifecycle st) action)
                   (\<lambda>next. Inr (record_transition st e next)))"

definition project_event ::
  "string \<Rightarrow> string \<Rightarrow> projection_loop \<Rightarrow> ArchaeologyLifecycleEvent
     \<Rightarrow> (lifecycle_error, projection_loop) result" where
  "project_event repository_id rule_id st e =
     and_then (event_validate_shape e) (\<lambda>_.
       if le_repository_id e \<noteq> repository_id \<or> le_rule_id e \<noteq> rule_id
         then Inl StreamCrossesScope
       else if le_sequence e \<noteq> pl_offset st + 1 then Inl SequenceGap
       else if le_event_id e \<in> pl_event_ids st then Inl DuplicateEventId
       else project_action
              (st\<lparr>pl_offset := pl_offset st + 1,
                  pl_event_ids := insert (le_event_id e) (pl_event_ids st)\<rparr>) e)"

definition event_key :: "ArchaeologyLifecycleEvent \<Rightarrow> nat \<times> string" where
  "event_key e = (le_sequence e, le_event_id e)"

definition project_lifecycle ::
  "ArchaeologyLifecycleEvent list
     \<Rightarrow> (lifecycle_error, ArchaeologyLifecycleProjection) result" where
  "project_lifecycle events =
     (if events = [] then Inl StreamEmpty
      else if length events > MAX_LIFECYCLE_EVENTS_PER_RULE then Inl EventBoundExceeded
      else
        (let ordered = sort_key event_key events;
             repository_id = le_repository_id (hd ordered);
             rule_id = le_rule_id (hd ordered)
         in and_then (try_fold (project_event repository_id rule_id) projection_start ordered)
              (\<lambda>st. Inr
                \<lparr>lp_repository_id = repository_id, lp_rule_id = rule_id,
                 lp_lifecycle = pl_lifecycle st, lp_last_sequence = length events,
                 lp_last_state_event_id = pl_last_state_event_id st,
                 lp_decision_provenance = pl_decision_provenance st,
                 lp_successor_rule_id = pl_successor_rule_id st,
                 lp_annotations = pl_annotations st\<rparr>)))"

definition validate_lifecycle_append ::
  "ArchaeologyLifecycleEvent list \<Rightarrow> ArchaeologyLifecycleEvent
     \<Rightarrow> (lifecycle_error, ArchaeologyLifecycleProjection) result" where
  "validate_lifecycle_append existing candidate =
     (if length existing \<ge> MAX_LIFECYCLE_EVENTS_PER_RULE then Inl EventBoundExceeded
      else and_then (event_validate_shape candidate) (\<lambda>_.
        and_then (if existing = [] then Inr 0
                  else and_then (project_lifecycle existing) (\<lambda>p. Inr (lp_last_sequence p)))
        (\<lambda>expected_previous.
          if le_expected_previous_sequence candidate \<noteq> expected_previous
             \<or> le_sequence candidate \<noteq> expected_previous + 1 then Inl AppendCasFailed
          else if existing \<noteq> [] \<and>
               (le_repository_id candidate \<noteq> le_repository_id (hd existing)
                \<or> le_rule_id candidate \<noteq> le_rule_id (hd existing)) then Inl AppendCrossesScope
          else project_lifecycle (existing @ [candidate]))))"


section \<open>Compatibility of two snapshots of a rule\<close>

record ArchaeologyRuleSnapshotIdentity =
  si_repository_id :: string
  si_rule_id :: string
  si_rule_kind_identity :: string
  si_continuity_identity :: string
  si_evidence_identity :: string
  si_parser_compatibility_identity :: string
  si_contradiction_identity :: string
  si_description_identity :: string

definition snapshot_validate ::
  "ArchaeologyRuleSnapshotIdentity \<Rightarrow> (lifecycle_error, unit) result" where
  "snapshot_validate s =
     for_each (\<lambda>(label, value). validate_id label value)
       [(''repository'', si_repository_id s), (''rule'', si_rule_id s),
        (''rule kind'', si_rule_kind_identity s),
        (''rule continuity'', si_continuity_identity s),
        (''rule evidence'', si_evidence_identity s),
        (''parser compatibility'', si_parser_compatibility_identity s),
        (''rule contradiction'', si_contradiction_identity s),
        (''rule description'', si_description_identity s)]"

text \<open>The set of mismatches is a \<open>BTreeSet\<close>: listing it follows the declaration order.\<close>

datatype ArchaeologyCompatibilityMismatch =
  Mismatch_Evidence | Mismatch_Parser | Mismatch_Contradiction

datatype ArchaeologyCompatibilityOutcome =
  Compatible ArchaeologyRuleLifecycle bool
| Compat_ReviewNeeded "ArchaeologyCompatibilityMismatch list"
| Compat_Conflicted "ArchaeologyCompatibilityMismatch list"
| Compat_Superseded string string ArchaeologyRuleLifecycle ArchaeologyRuleLifecycle

definition mismatches ::
  "ArchaeologyRuleSnapshotIdentity \<Rightarrow> ArchaeologyRuleSnapshotIdentity
     \<Rightarrow> ArchaeologyCompatibilityMismatch list" where
  "mismatches p c =
     (if si_evidence_identity p \<noteq> si_evidence_identity c then [Mismatch_Evidence] else []) @
     (if si_parser_compatibility_identity p \<noteq> si_parser_compatibility_identity c
        then [Mismatch_Parser] else []) @
     (if si_contradiction_identity p \<noteq> si_contradiction_identity c
        then [Mismatch_Contradiction] else [])"

definition evaluate_snapshot_compatibility ::
  "ArchaeologyRuleSnapshotIdentity \<Rightarrow> ArchaeologyRuleSnapshotIdentity
     \<Rightarrow> ArchaeologyRuleLifecycle \<Rightarrow> string option
     \<Rightarrow> (lifecycle_error, ArchaeologyCompatibilityOutcome) result" where
  "evaluate_snapshot_compatibility previous current previous_lifecycle explicit =
     and_then (snapshot_validate previous) (\<lambda>_.
     and_then (snapshot_validate current) (\<lambda>_.
       if si_repository_id previous \<noteq> si_repository_id current then Inl CompatCrossesRepository
       else if si_rule_kind_identity previous \<noteq> si_rule_kind_identity current
         then Inl CompatKindChanged
       else (case explicit of
         Some successor \<Rightarrow>
           and_then (validate_id ''explicit successor rule'' successor) (\<lambda>_.
             if si_rule_id previous = si_rule_id current \<or> successor \<noteq> si_rule_id current
               then Inl ExplicitSuccessorInvalid
             else Inr (Compat_Superseded (si_rule_id previous) (si_rule_id current)
                         State_Superseded State_ReviewNeeded))
       | None \<Rightarrow>
           (if si_continuity_identity previous \<noteq> si_continuity_identity current
              then Inl CompatContinuityChanged
            else if si_rule_id previous \<noteq> si_rule_id current then Inl ChangedRuleNeedsSuccessor
            else
              (let reasons = mismatches previous current
               in if reasons = [] then
                    Inr (Compatible previous_lifecycle
                           (si_description_identity previous \<noteq> si_description_identity current))
                  else if previous_lifecycle = State_Accepted
                       \<and> Mismatch_Contradiction \<in> set reasons
                    then Inr (Compat_Conflicted reasons)
                  else Inr (Compat_ReviewNeeded reasons))))))"

section \<open>The rule state machine\<close>

text \<open>
  The contract of \<open>transition\<close>, stated as a step relation: a rule is created once, a
  superseded rule is final, no step leaves the state as it is. Annotations are not steps.
\<close>

inductive rule_step ::
  "ArchaeologyRuleLifecycle \<Rightarrow> ArchaeologyLifecycleAction \<Rightarrow> ArchaeologyRuleLifecycle \<Rightarrow> bool" where
  create: "rule_step State_Unavailable Act_Candidate State_Candidate"
| review: "s \<notin> {State_Unavailable, State_Superseded, State_ReviewNeeded} \<Longrightarrow>
     rule_step s (Act_ReviewNeeded r) State_ReviewNeeded"
| accept: "s \<notin> {State_Unavailable, State_Superseded, State_Accepted} \<Longrightarrow>
     rule_step s Act_Accept State_Accepted"
| reject: "s \<notin> {State_Unavailable, State_Superseded, State_Rejected} \<Longrightarrow>
     rule_step s (Act_Reject r) State_Rejected"
| conflict: "s \<notin> {State_Unavailable, State_Superseded, State_Conflicted} \<Longrightarrow>
     rule_step s (Act_Conflict r) State_Conflicted"
| supersede: "s \<notin> {State_Unavailable, State_Superseded} \<Longrightarrow>
     rule_step s (Act_Supersede succ) State_Superseded"

inductive_cases rule_step_from_superseded: "rule_step State_Superseded a t"
inductive_cases rule_step_from_unavailable: "rule_step State_Unavailable a t"
inductive_simps rule_step_accept_iff: "rule_step s Act_Accept t"

lemma rule_step_transition: "rule_step s a t \<Longrightarrow> transition s a = Inr t"
  by (cases s; cases a) (auto elim: rule_step.cases)

lemma transition_rule_step: "transition s a = Inr t \<Longrightarrow> rule_step s a t"
  by (cases s; cases a) (auto intro: rule_step.intros)

text \<open>The transition table of the code is exactly the rule state machine: a state change is
  accepted if and only if the step relation allows it.\<close>

theorem transition_iff_rule_step: "transition s a = Inr t \<longleftrightarrow> rule_step s a t"
  using rule_step_transition transition_rule_step by blast

lemma transition_changes: "transition s a = Inr t \<Longrightarrow> t \<noteq> s \<and> t \<noteq> State_Unavailable \<and> s \<noteq> State_Superseded"
  by (cases s; cases a) auto

lemma transition_target:
  "transition s a = Inr t \<Longrightarrow>
     (t = State_Accepted \<longleftrightarrow> a = Act_Accept) \<and>
     (t = State_Rejected \<longleftrightarrow> (\<exists>r. a = Act_Reject r)) \<and>
     (t = State_Superseded \<longleftrightarrow> (\<exists>x. a = Act_Supersede x))"
  by (cases s; cases a) auto

lemma transition_not_unreachable:
  "(\<And>x. a \<noteq> Act_Annotate x) \<Longrightarrow> transition s a \<noteq> Inl UnreachableAnnotate"
  by (cases s; cases a) auto

subsection \<open>Runs of the projection loop\<close>

lemma project_action_cases:
  assumes "project_action st e = Inr st'"
  shows "(\<exists>a. le_action e = Act_Annotate a \<and> pl_lifecycle st \<noteq> State_Unavailable \<and>
              st' = record_annotation st e a) \<or>
         (\<exists>t. (\<forall>a. le_action e \<noteq> Act_Annotate a) \<and>
              transition (pl_lifecycle st) (le_action e) = Inr t \<and>
              st' = record_transition st e t)"
  using assms
  by (cases "le_action e") (auto simp: project_action_def and_then_Inr_iff split: if_splits)

lemma project_action_frame:
  "project_action st e = Inr st' \<Longrightarrow>
     pl_offset st' = pl_offset st \<and> pl_event_ids st' = pl_event_ids st"
  by (drule project_action_cases) (auto simp: record_annotation_def record_transition_def)

lemma project_event_ok:
  "project_event r u st e = Inr st' \<longleftrightarrow>
     event_validate_shape e = Inr () \<and> le_repository_id e = r \<and> le_rule_id e = u \<and>
     le_sequence e = Suc (pl_offset st) \<and> le_event_id e \<notin> pl_event_ids st \<and>
     project_action (st\<lparr>pl_offset := Suc (pl_offset st),
                        pl_event_ids := insert (le_event_id e) (pl_event_ids st)\<rparr>) e = Inr st'"
  by (auto simp: project_event_def and_then_Inr_iff)

lemma project_run_shape:
  assumes "try_fold (project_event r u) st es = Inr st'"
  shows "map le_sequence es = [Suc (pl_offset st) ..< Suc (pl_offset st + length es)] \<and>
         pl_offset st' = pl_offset st + length es \<and>
         pl_event_ids st' = pl_event_ids st \<union> le_event_id ` set es \<and>
         distinct (map le_event_id es) \<and> le_event_id ` set es \<inter> pl_event_ids st = {} \<and>
         (\<forall>e\<in>set es. event_validate_shape e = Inr () \<and> le_repository_id e = r \<and> le_rule_id e = u)"
  using assms
proof (induction es arbitrary: st)
  case Nil
  then show ?case by simp
next
  case (Cons e es)
  then obtain m where step: "project_event r u st e = Inr m"
    and run: "try_fold (project_event r u) m es = Inr st'"
    by (auto simp: and_then_Inr_iff)
  from step have "project_action (st\<lparr>pl_offset := Suc (pl_offset st),
      pl_event_ids := insert (le_event_id e) (pl_event_ids st)\<rparr>) e = Inr m"
    by (simp add: project_event_ok)
  from project_action_frame [OF this] have m: "pl_offset m = Suc (pl_offset st)"
    "pl_event_ids m = insert (le_event_id e) (pl_event_ids st)"
    by simp_all
  have upt: "[Suc (pl_offset st)..<Suc (pl_offset st + length (e # es))]
      = Suc (pl_offset st) # [Suc (pl_offset m)..<Suc (pl_offset m + length es)]"
    by (simp add: m upt_conv_Cons del: upt_Suc)
  from step have e: "event_validate_shape e = Inr ()" "le_repository_id e = r" "le_rule_id e = u"
    "le_sequence e = Suc (pl_offset st)" "le_event_id e \<notin> pl_event_ids st"
    by (simp_all add: project_event_ok)
  from Cons.IH [OF run] show ?case
    unfolding upt by (auto simp: m e simp del: upt_Suc)
qed

subsection \<open>The invariant of the loop\<close>

definition loop_inv :: "string \<Rightarrow> projection_loop \<Rightarrow> bool" where
  "loop_inv rule_id st \<longleftrightarrow>
     (pl_lifecycle st = State_Unavailable \<longleftrightarrow> pl_offset st = 0) \<and>
     (pl_decision_provenance st \<noteq> None \<longleftrightarrow>
        pl_lifecycle st = State_Accepted \<or> pl_lifecycle st = State_Rejected) \<and>
     (\<forall>p. pl_decision_provenance st = Some p \<longrightarrow> can_decide p \<and> provenance_validate p = Inr ()) \<and>
     (pl_successor_rule_id st \<noteq> None \<longleftrightarrow> pl_lifecycle st = State_Superseded) \<and>
     (\<forall>x. pl_successor_rule_id st = Some x \<longrightarrow> x \<noteq> rule_id) \<and>
     sorted_wrt (<) (map pa_sequence (pl_annotations st)) \<and>
     (\<forall>a\<in>set (pl_annotations st). pa_sequence a \<le> pl_offset st)"

lemma event_shape_action:
  "event_validate_shape e = Inr () \<Longrightarrow>
     provenance_validate (le_provenance e) = Inr () \<and>
     (le_action e = Act_Accept \<longrightarrow> can_decide (le_provenance e)) \<and>
     (\<forall>r. le_action e = Act_Reject r \<longrightarrow> can_decide (le_provenance e)) \<and>
     (\<forall>x. le_action e = Act_Supersede x \<longrightarrow>
            x \<noteq> le_rule_id e \<and> rv_kind (le_provenance e) \<noteq> Reviewer_Model)"
  by (auto simp: event_validate_shape_def action_validate_def and_then_Inr_iff split: if_splits)

lemma loop_inv_start: "loop_inv rule_id projection_start"
  by (simp add: loop_inv_def projection_start_def)

lemma loop_inv_step:
  assumes inv: "loop_inv u st" and step: "project_event r u st e = Inr st'"
  shows "loop_inv u st'"
proof -
  let ?st = "st\<lparr>pl_offset := Suc (pl_offset st),
                pl_event_ids := insert (le_event_id e) (pl_event_ids st)\<rparr>"
  from step have shape: "event_validate_shape e = Inr ()" "le_rule_id e = u"
    "le_sequence e = Suc (pl_offset st)" and act: "project_action ?st e = Inr st'"
    by (auto simp: project_event_ok)
  note facts = event_shape_action [OF shape(1)]
  from project_action_cases [OF act] show ?thesis
  proof (elim disjE exE conjE)
    fix a
    assume "pl_lifecycle ?st \<noteq> State_Unavailable" "st' = record_annotation ?st e a"
    then show ?thesis
      using inv shape(3)
      by (auto simp: loop_inv_def record_annotation_def sorted_wrt_append le_Suc_eq
          intro: le_imp_less_Suc)
  next
    fix t
    assume "\<forall>a. le_action e \<noteq> Act_Annotate a"
      and tr: "transition (pl_lifecycle ?st) (le_action e) = Inr t"
      and st': "st' = record_transition ?st e t"
    from transition_target [OF tr] transition_changes [OF tr] show ?thesis
      using inv facts shape(2) unfolding st'
      by (auto simp: loop_inv_def record_transition_def le_Suc_eq
          split: ArchaeologyLifecycleAction.splits)
  qed
qed

interpretation projection: checked_machine "project_event r u" "loop_inv u" for r u
  by unfold_locales (rule loop_inv_step)
subsection \<open>Whole streams\<close>

abbreviation loop_of :: "ArchaeologyLifecycleEvent list \<Rightarrow> (lifecycle_error, projection_loop) result" where
  "loop_of es \<equiv> try_fold (project_event (le_repository_id (hd es)) (le_rule_id (hd es)))
                  projection_start es"

definition projection_of :: "ArchaeologyLifecycleEvent list \<Rightarrow> projection_loop \<Rightarrow> ArchaeologyLifecycleProjection" where
  "projection_of es st =
     \<lparr>lp_repository_id = le_repository_id (hd es), lp_rule_id = le_rule_id (hd es),
      lp_lifecycle = pl_lifecycle st, lp_last_sequence = length es,
      lp_last_state_event_id = pl_last_state_event_id st,
      lp_decision_provenance = pl_decision_provenance st,
      lp_successor_rule_id = pl_successor_rule_id st, lp_annotations = pl_annotations st\<rparr>"

lemma project_lifecycle_ok:
  "project_lifecycle es = Inr p \<longleftrightarrow>
     es \<noteq> [] \<and> length es \<le> MAX_LIFECYCLE_EVENTS_PER_RULE \<and>
     (\<exists>st. loop_of (sort_key event_key es) = Inr st \<and> p = projection_of (sort_key event_key es) st)"
  by (auto simp: project_lifecycle_def projection_of_def Let_def and_then_Inr_iff)

lemma loop_shape:
  assumes "loop_of es = Inr st"
  shows "map le_sequence es = [1..<Suc (length es)]" "distinct (map le_event_id es)"
    "\<And>e. e \<in> set es \<Longrightarrow> event_validate_shape e = Inr () \<and>
        le_repository_id e = le_repository_id (hd es) \<and> le_rule_id e = le_rule_id (hd es)"
    "pl_offset st = length es" "loop_inv (le_rule_id (hd es)) st"
  using project_run_shape [OF assms] projection.run_inv [OF loop_inv_start assms]
  by (auto simp: projection_start_def simp del: upt_Suc)

lemma loop_key_inj:
  assumes "loop_of es = Inr st"
  shows "inj_on event_key (set es)"
proof -
  have "distinct (map le_sequence es)"
    using loop_shape(1) [OF assms] by (simp del: upt_Suc)
  then have "inj_on le_sequence (set es)"
    by (simp add: distinct_map)
  then show ?thesis
    by (auto simp: inj_on_def event_key_def)
qed

lemma project_sorted_inj:
  assumes "project_lifecycle es = Inr p"
  shows "inj_on event_key (set es)"
  using assms loop_key_inj [of "sort_key event_key es"] by (auto simp: project_lifecycle_ok)

lemma loop_sorted:
  assumes "loop_of es = Inr st"
  shows "sort_key event_key es = es"
proof (rule sort_key_inj_key_eq [OF refl loop_key_inj [OF assms]])
  have seqs: "map le_sequence es = [1..<Suc (length es)]"
    by (rule loop_shape(1) [OF assms])
  have "le_sequence (es ! i) = Suc i" if "i < length es" for i
  proof -
    have "map le_sequence es ! i = [1..<Suc (length es)] ! i" by (simp only: seqs)
    then show ?thesis using that by (simp del: upt_Suc)
  qed
  then show "sorted (map event_key es)"
    by (auto simp: sorted_iff_nth_mono_less event_key_def less_eq_prod_def)
qed

text \<open>C7. Callers may supply the rows of a stream in any order: every permutation of a stream
  that projects gives the same projection.\<close>

theorem project_lifecycle_order_independent:
  assumes "project_lifecycle es = Inr p" and "mset es' = mset es"
  shows "project_lifecycle es' = Inr p"
proof -
  have "sort_key event_key es' = sort_key event_key es"
    using sort_key_perm_unique [OF assms(2) [symmetric] project_sorted_inj [OF assms(1)]] by simp
  moreover have "length es' = length es" using assms(2) by (rule mset_eq_length)
  moreover have "es' \<noteq> [] \<longleftrightarrow> es \<noteq> []"
    using assms(2) by auto
  ultimately show ?thesis using assms(1) by (simp add: project_lifecycle_ok)
qed

lemma project_lifecycle_shape:
  assumes "project_lifecycle es = Inr p"
  shows "sort (map le_sequence es) = [1..<Suc (length es)] \<and> distinct (map le_event_id es) \<and>
         lp_last_sequence p = length es \<and>
         (\<forall>e\<in>set es. event_validate_shape e = Inr () \<and>
            le_repository_id e = lp_repository_id p \<and> le_rule_id e = lp_rule_id p)"
proof -
  let ?o = "sort_key event_key es"
  from assms obtain st where st: "loop_of ?o = Inr st" "p = projection_of ?o st"
    by (auto simp: project_lifecycle_ok)
  have "sort (map le_sequence es) = map le_sequence ?o"
  proof (rule properties_for_sort)
    show "mset (map le_sequence ?o) = mset (map le_sequence es)" by simp
    show "sorted (map le_sequence ?o)"
      by (simp only: loop_shape(1) [OF st(1)]) (simp del: upt_Suc)
  qed
  moreover have "distinct (map le_event_id es)"
    using loop_shape(2) [OF st(1)] mset_eq_imp_distinct_iff [of "map le_event_id ?o" "map le_event_id es"]
    by simp
  ultimately show ?thesis
    using loop_shape(1,3) [OF st(1)] by (simp add: st(2) projection_of_def del: upt_Suc)
qed

text \<open>A stream is accepted only if its sequence numbers are exactly 1 to n without gap or
  duplicate, its event identities are distinct and all its events are well-formed events of one
  repository and one rule.\<close>

theorem project_lifecycle_stream_shape:
  assumes "project_lifecycle es = Inr p"
  shows "sort (map le_sequence es) = [1..<Suc (length es)] \<and> distinct (map le_event_id es) \<and>
         lp_last_sequence p = length es \<and>
         (\<forall>e\<in>set es. event_validate_shape e = Inr () \<and>
            le_repository_id e = lp_repository_id p \<and> le_rule_id e = lp_rule_id p)"
  using assms by (rule project_lifecycle_shape)

text \<open>C2. Only a human or a deterministic policy ever leaves a rule accepted or rejected, its
  validated provenance is the one recorded, and a successor is recorded exactly for a superseded
  rule and is never the rule itself.\<close>

theorem project_lifecycle_decision_safety:
  assumes "project_lifecycle es = Inr p"
  shows "lp_lifecycle p \<noteq> State_Unavailable \<and>
    ((\<exists>d. lp_decision_provenance p = Some d) \<longleftrightarrow>
        lp_lifecycle p \<in> {State_Accepted, State_Rejected}) \<and>
    (\<forall>d. lp_decision_provenance p = Some d \<longrightarrow>
        rv_kind d \<noteq> Reviewer_Model \<and> provenance_validate d = Inr ()) \<and>
    ((\<exists>x. lp_successor_rule_id p = Some x) \<longleftrightarrow> lp_lifecycle p = State_Superseded) \<and>
    lp_successor_rule_id p \<noteq> Some (lp_rule_id p)"
proof -
  let ?o = "sort_key event_key es"
  from assms obtain st where st: "loop_of ?o = Inr st" "p = projection_of ?o st" "es \<noteq> []"
    by (auto simp: project_lifecycle_ok)
  have "pl_offset st = length es" using loop_shape(4) [OF st(1)] by simp
  then show ?thesis
    using loop_shape(5) [OF st(1)] st(3)
    by (auto simp: st(2) projection_of_def loop_inv_def can_decide_def)
qed

subsection \<open>Appending one event\<close>

lemma sort_snoc_largest:
  assumes less: "\<And>e. e \<in> set xs \<Longrightarrow> le_sequence e < le_sequence c"
  shows "sort_key event_key (xs @ [c]) = sort_key event_key xs @ [c]"
proof (rule properties_for_sort_key)
  let ?o = "sort_key event_key xs"
  show "mset (?o @ [c]) = mset (xs @ [c])" by simp
  show "sorted (map event_key (?o @ [c]))"
    using less by (auto simp: sorted_append event_key_def less_eq_prod_def)
  show "filter (\<lambda>x. event_key k = event_key x) (?o @ [c])
      = filter (\<lambda>x. event_key k = event_key x) (xs @ [c])" if "k \<in> set (?o @ [c])" for k
    using sort_key_stable [of event_key "event_key k" xs] by (simp add: eq_commute)
qed

lemma loop_of_snoc:
  assumes "xs \<noteq> []"
  shows "loop_of (xs @ [c]) = and_then (loop_of xs)
     (\<lambda>m. project_event (le_repository_id (hd xs)) (le_rule_id (hd xs)) m c)"
  using assms by (simp add: try_fold_snoc)

lemma project_snoc:
  assumes less: "\<And>e. e \<in> set ex \<Longrightarrow> le_sequence e < le_sequence c" and ne: "ex \<noteq> []"
    and p: "project_lifecycle (ex @ [c]) = Inr q"
  shows "\<exists>m st. loop_of (sort_key event_key ex) = Inr m \<and>
     project_lifecycle ex = Inr (projection_of (sort_key event_key ex) m) \<and>
     project_event (le_repository_id (hd (sort_key event_key ex)))
       (le_rule_id (hd (sort_key event_key ex))) m c = Inr st \<and>
     q = projection_of (sort_key event_key ex @ [c]) st"
proof -
  let ?o = "sort_key event_key ex"
  have sorted: "sort_key event_key (ex @ [c]) = ?o @ [c]"
    by (rule sort_snoc_largest) (rule less)
  have "?o \<noteq> []" using ne by simp
  from p obtain st where st: "loop_of (?o @ [c]) = Inr st" "q = projection_of (?o @ [c]) st"
    and bound: "length ex < MAX_LIFECYCLE_EVENTS_PER_RULE"
    by (auto simp: project_lifecycle_ok sorted simp del: hd_append2)
  from st(1) obtain m where "loop_of ?o = Inr m"
    "project_event (le_repository_id (hd ?o)) (le_rule_id (hd ?o)) m c = Inr st"
    unfolding loop_of_snoc [OF \<open>?o \<noteq> []\<close>] and_then_Inr_iff by blast
  then show ?thesis
    using st(2) bound ne by (auto simp: project_lifecycle_ok)
qed

lemma append_sequences:
  assumes p: "project_lifecycle (ex @ [c]) = Inr q" and "le_sequence c = Suc (length ex)"
    and e: "e \<in> set ex"
  shows "le_sequence e < le_sequence c"
proof -
  have seqs: "sort (map le_sequence (ex @ [c])) = [1..<Suc (length (ex @ [c]))]"
    using project_lifecycle_shape [OF p] by blast
  have "distinct (map le_sequence (ex @ [c]))"
    using seqs by (metis distinct_sort distinct_upt)
  then have "le_sequence e \<noteq> le_sequence c"
    using e by (simp, metis imageI)
  moreover have "le_sequence e \<in> set (sort (map le_sequence (ex @ [c])))"
    using e by simp
  ultimately show ?thesis
    unfolding seqs using assms(2) by (simp del: upt_Suc)
qed

lemma validate_append_ok:
  "validate_lifecycle_append ex c = Inr q \<longleftrightarrow>
     length ex < MAX_LIFECYCLE_EVENTS_PER_RULE \<and> event_validate_shape c = Inr () \<and>
     (ex = [] \<or> (\<exists>p. project_lifecycle ex = Inr p)) \<and>
     le_expected_previous_sequence c = length ex \<and> le_sequence c = Suc (length ex) \<and>
     (ex = [] \<or> le_repository_id c = le_repository_id (hd ex) \<and> le_rule_id c = le_rule_id (hd ex)) \<and>
     project_lifecycle (ex @ [c]) = Inr q"
  by (cases "ex = []")
    (auto simp: validate_lifecycle_append_def and_then_Inr_iff not_le
      dest: project_lifecycle_shape split: if_splits)

text \<open>The compare-and-swap gate accepts an append exactly when the extended stream projects
  and the new event carries the next sequence number, and it then answers with the projection of
  the extended stream.\<close>

theorem validate_lifecycle_append_iff:
  "validate_lifecycle_append ex c = Inr q \<longleftrightarrow>
     project_lifecycle (ex @ [c]) = Inr q \<and> le_sequence c = Suc (length ex)"
proof
  assume "validate_lifecycle_append ex c = Inr q"
  then show "project_lifecycle (ex @ [c]) = Inr q \<and> le_sequence c = Suc (length ex)"
    by (simp add: validate_append_ok)
next
  assume r: "project_lifecycle (ex @ [c]) = Inr q \<and> le_sequence c = Suc (length ex)"
  then have shape: "\<forall>e\<in>set (ex @ [c]). event_validate_shape e = Inr () \<and>
      le_repository_id e = lp_repository_id q \<and> le_rule_id e = lp_rule_id q"
    using project_lifecycle_shape [of "ex @ [c]" q] by blast
  have bound: "length ex < MAX_LIFECYCLE_EVENTS_PER_RULE"
    using r by (simp add: project_lifecycle_ok)
  have "ex = [] \<or> (\<exists>p. project_lifecycle ex = Inr p)"
    using project_snoc [of ex c q] append_sequences [of ex c q] r by blast
  moreover have "le_expected_previous_sequence c = length ex"
    using shape r by (auto simp: event_validate_shape_def and_then_Inr_iff split: if_splits)
  moreover have "ex = [] \<or> le_repository_id c = le_repository_id (hd ex) \<and>
      le_rule_id c = le_rule_id (hd ex)"
    using shape by (cases ex) simp_all
  moreover have "event_validate_shape c = Inr ()" using shape by simp
  ultimately show "validate_lifecycle_append ex c = Inr q"
    using bound r unfolding validate_append_ok by blast
qed

definition extend_projection ::
  "ArchaeologyLifecycleProjection \<Rightarrow> ArchaeologyLifecycleEvent \<Rightarrow> ArchaeologyLifecycleProjection \<Rightarrow> bool" where
  "extend_projection p c q \<longleftrightarrow>
     (case le_action c of
        Act_Annotate a \<Rightarrow>
          q = p\<lparr>lp_last_sequence := Suc (lp_last_sequence p),
                lp_annotations := lp_annotations p @
                  [\<lparr>pa_event_id = le_event_id c, pa_sequence = le_sequence c,
                    pa_annotation = a, pa_provenance = le_provenance c\<rparr>]\<rparr>
      | action \<Rightarrow>
          rule_step (lp_lifecycle p) action (lp_lifecycle q) \<and>
          q = p\<lparr>lp_last_sequence := Suc (lp_last_sequence p),
                lp_lifecycle := lp_lifecycle q,
                lp_last_state_event_id := le_event_id c,
                lp_decision_provenance := lp_decision_provenance q,
                lp_successor_rule_id := lp_successor_rule_id q\<rparr>)"

lemma append_refines_step:
  assumes "project_lifecycle ex = Inr p" and "validate_lifecycle_append ex c = Inr q"
  shows "extend_projection p c q"
proof -
  let ?o = "sort_key event_key ex"
  have "ex \<noteq> []" using assms(1) by (simp add: project_lifecycle_ok)
  then have ne: "ex \<noteq> []" "?o \<noteq> []" by simp_all
  have q: "project_lifecycle (ex @ [c]) = Inr q" "le_sequence c = Suc (length ex)"
    using assms(2) by (simp_all add: validate_append_ok)
  obtain m st where m: "project_lifecycle ex = Inr (projection_of ?o m)"
    and ev: "project_event (le_repository_id (hd ?o)) (le_rule_id (hd ?o)) m c = Inr st"
    and qst: "q = projection_of (?o @ [c]) st"
    using project_snoc [OF append_sequences [OF q] ne(1) q(1)] by blast
  have p: "p = projection_of ?o m" using assms(1) m by simp
  from ev have "project_action (m\<lparr>pl_offset := Suc (pl_offset m),
      pl_event_ids := insert (le_event_id c) (pl_event_ids m)\<rparr>) c = Inr st"
    by (simp add: project_event_ok)
  from project_action_cases [OF this] show ?thesis
    using ne(2) unfolding p qst
    by (auto simp: extend_projection_def projection_of_def record_annotation_def
        record_transition_def
        dest!: transition_rule_step
        split: ArchaeologyLifecycleAction.splits)
qed

text \<open>C1. Replaying the whole stream after an append is the same as taking one step of the rule
  state machine from the previous projection: an annotation only extends the annotations, any
  other action moves the state along \<open>rule_step\<close> and keeps them.\<close>

theorem validate_lifecycle_append_refines_step:
  assumes "project_lifecycle ex = Inr p" and "validate_lifecycle_append ex c = Inr q"
  shows "extend_projection p c q"
  using assms by (rule append_refines_step)

text \<open>A superseded rule is final: whatever is appended to its stream is an annotation, and the
  rule stays superseded by the same successor.\<close>

theorem superseded_is_final:
  assumes "project_lifecycle ex = Inr p" and "lp_lifecycle p = State_Superseded"
    and "validate_lifecycle_append ex c = Inr q"
  shows "(\<exists>a. le_action c = Act_Annotate a) \<and> lp_lifecycle q = State_Superseded \<and>
         lp_successor_rule_id q = lp_successor_rule_id p"
  using append_refines_step [OF assms(1,3)] assms(2)
  by (auto simp: extend_projection_def elim: rule_step_from_superseded
      split: ArchaeologyLifecycleAction.splits)


lemma validators_not_unreachable:
  "event_validate_shape e \<noteq> Inl UnreachableAnnotate"
  by (auto simp: event_validate_shape_def provenance_validate_def action_validate_def
      validate_id_def validate_text_def and_then_Inl_iff
      split: if_splits ArchaeologyLifecycleAction.splits ArchaeologyReviewerKind.splits)

lemma project_event_not_unreachable: "project_event r u st e \<noteq> Inl UnreachableAnnotate"
  using validators_not_unreachable transition_not_unreachable
  by (auto simp: project_event_def project_action_def and_then_Inl_iff
      split: ArchaeologyLifecycleAction.splits if_splits)

text \<open>The \<open>unreachable!()\<close> arm of the transition table is never reached by a projection,
  whatever the stream.\<close>

theorem project_lifecycle_no_panic: "project_lifecycle es \<noteq> Inl UnreachableAnnotate"
  using try_fold_error [of "project_event r u" UnreachableAnnotate for r u] project_event_not_unreachable
  by (auto simp: project_lifecycle_def Let_def and_then_Inl_iff)


subsection \<open>Compatibility\<close>

text \<open>A prior decision survives a new snapshot unchanged only if both snapshots are valid, the
  repository, rule, kind and continuity are the same, no successor was named, and evidence, parser
  and contradictions did not drift; and drifted contradictions turn an accepted rule into a
  conflict, never into a mere review request.\<close>

theorem snapshot_compatibility_preserves_decisions:
  "(evaluate_snapshot_compatibility p c lc explicit = Inr (Compatible l d) \<longleftrightarrow>
      explicit = None \<and> snapshot_validate p = Inr () \<and> snapshot_validate c = Inr () \<and> l = lc \<and>
      (d \<longleftrightarrow> si_description_identity p \<noteq> si_description_identity c) \<and>
      c = p\<lparr>si_description_identity := si_description_identity c\<rparr>) \<and>
   (evaluate_snapshot_compatibility p c State_Accepted None = Inr (Compat_ReviewNeeded rs) \<longrightarrow>
      si_contradiction_identity p = si_contradiction_identity c \<and> rs = mismatches p c)"
  by (cases p; cases c; cases explicit)
    (auto simp: evaluate_snapshot_compatibility_def mismatches_def and_then_Inr_iff Let_def
      split: if_splits)

lemma mismatches_complete:
  "mismatches p c = [] \<longleftrightarrow>
     si_evidence_identity p = si_evidence_identity c \<and>
     si_parser_compatibility_identity p = si_parser_compatibility_identity c \<and>
     si_contradiction_identity p = si_contradiction_identity c"
  by (auto simp: mismatches_def)

lemmas lifecycle_eval =
  project_lifecycle_def project_event_def project_action_def record_annotation_def
  record_transition_def projection_start_def event_key_def event_validate_shape_def
  provenance_validate_def action_validate_def validate_id_def validate_text_def can_decide_def
  unsupported_control_def MAX_LIFECYCLE_EVENTS_PER_RULE_def MAX_LIFECYCLE_ID_BYTES_def
  MAX_LIFECYCLE_REASON_BYTES_def MAX_LIFECYCLE_ANNOTATION_BYTES_def

section \<open>Witnesses\<close>

text \<open>A stream of three events of one rule: it is created, accepted and superseded by a human.\<close>

definition sample_event :: "nat \<Rightarrow> ArchaeologyLifecycleAction \<Rightarrow> ArchaeologyLifecycleEvent" where
  "sample_event n a =
     \<lparr>le_event_id = replicate n CHR ''e'', le_repository_id = ''r'', le_rule_id = ''u'',
      le_sequence = n, le_expected_previous_sequence = n - 1,
      le_provenance = \<lparr>rv_kind = Reviewer_Human, rv_actor_id = ''h'', rv_authority_id = None\<rparr>,
      le_action = a\<rparr>"

abbreviation created :: ArchaeologyLifecycleEvent where
  "created \<equiv> sample_event 1 Act_Candidate"

abbreviation accepted :: ArchaeologyLifecycleEvent where
  "accepted \<equiv> sample_event 2 Act_Accept"

abbreviation superseded :: ArchaeologyLifecycleEvent where
  "superseded \<equiv> sample_event 2 (Act_Supersede ''v'')"

abbreviation annotated :: ArchaeologyLifecycleEvent where
  "annotated \<equiv> sample_event 3 (Act_Annotate ''n'')"

lemma sample_accepted: "\<exists>p. project_lifecycle [created, accepted] = Inr p"
  by (simp add: lifecycle_eval text_eval sample_event_def Let_def numeral_2_eq_2)

lemma sample_created: "\<exists>p. project_lifecycle [created] = Inr p"
  by (simp add: lifecycle_eval text_eval sample_event_def Let_def)

lemma sample_superseded:
  "\<exists>p. project_lifecycle [created, superseded] = Inr p \<and> lp_lifecycle p = State_Superseded"
  by (simp add: lifecycle_eval text_eval sample_event_def Let_def numeral_2_eq_2)

lemma sample_annotated: "\<exists>q. project_lifecycle [created, superseded, annotated] = Inr q"
  by (simp add: lifecycle_eval text_eval sample_event_def Let_def numeral_2_eq_2 numeral_3_eq_3)

lemma sample_append:
  "\<exists>q. validate_lifecycle_append [created] accepted = Inr q"
  "\<exists>q. validate_lifecycle_append [created, superseded] annotated = Inr q"
proof -
  have shape: "event_validate_shape accepted = Inr ()" "event_validate_shape annotated = Inr ()"
    by (simp_all add: lifecycle_eval text_eval sample_event_def numeral_2_eq_2 numeral_3_eq_3)
  have seq: "le_sequence (sample_event n a) = n" "le_expected_previous_sequence (sample_event n a) = n - 1"
    "le_repository_id (sample_event n a) = ''r''" "le_rule_id (sample_event n a) = ''u''" for n a
    by (simp_all add: sample_event_def)
  show "\<exists>q. validate_lifecycle_append [created] accepted = Inr q"
    using sample_created sample_accepted shape
    by (auto simp: validate_append_ok seq MAX_LIFECYCLE_EVENTS_PER_RULE_def)
  show "\<exists>q. validate_lifecycle_append [created, superseded] annotated = Inr q"
    using sample_superseded sample_annotated shape
    by (auto simp: validate_append_ok seq MAX_LIFECYCLE_EVENTS_PER_RULE_def)
qed

theorem project_lifecycle_order_independent_witness:
  "\<exists>p. project_lifecycle [created, accepted] = Inr p \<and> project_lifecycle [accepted, created] = Inr p"
proof -
  obtain p where p: "project_lifecycle [created, accepted] = Inr p" using sample_accepted by blast
  have "project_lifecycle [accepted, created] = Inr p"
    by (rule project_lifecycle_order_independent [OF p]) simp
  with p show ?thesis by blast
qed

theorem project_lifecycle_stream_shape_witness:
  "\<exists>p. project_lifecycle [accepted, created] = Inr p \<and> lp_last_sequence p = 2"
proof -
  have "\<exists>p. project_lifecycle [accepted, created] = Inr p"
    by (simp add: lifecycle_eval text_eval sample_event_def Let_def numeral_2_eq_2)
  then obtain p where p: "project_lifecycle [accepted, created] = Inr p" by blast
  then show ?thesis using project_lifecycle_stream_shape [OF p] by simp
qed

theorem project_lifecycle_decision_safety_witness:
  "\<exists>p. project_lifecycle [created, superseded] = Inr p \<and> lp_decision_provenance p = None \<and>
     (\<exists>x. lp_successor_rule_id p = Some x)"
proof -
  obtain p where p: "project_lifecycle [created, superseded] = Inr p"
    and superseded_state: "lp_lifecycle p = State_Superseded"
    using sample_superseded by blast
  show ?thesis
    using project_lifecycle_decision_safety [OF p] p superseded_state
    by (cases "lp_decision_provenance p") auto
qed

theorem validate_lifecycle_append_refines_step_witness:
  "\<exists>p q. project_lifecycle [created] = Inr p \<and> validate_lifecycle_append [created] accepted = Inr q \<and>
     rule_step (lp_lifecycle p) Act_Accept (lp_lifecycle q)"
proof -
  obtain p q where pq: "project_lifecycle [created] = Inr p"
    "validate_lifecycle_append [created] accepted = Inr q"
    using sample_created sample_append by blast
  show ?thesis
    using validate_lifecycle_append_refines_step [OF pq] pq
    by (auto simp: extend_projection_def sample_event_def)
qed

theorem superseded_is_final_witness:
  "\<exists>p q. project_lifecycle [created, superseded] = Inr p \<and>
     validate_lifecycle_append [created, superseded] annotated = Inr q \<and>
     lp_lifecycle q = State_Superseded \<and> lp_successor_rule_id q = lp_successor_rule_id p"
proof -
  obtain p q where p: "project_lifecycle [created, superseded] = Inr p" "lp_lifecycle p = State_Superseded"
    and q: "validate_lifecycle_append [created, superseded] annotated = Inr q"
    using sample_superseded sample_append by blast
  show ?thesis using superseded_is_final [OF p q] p q by blast
qed

definition sample_snapshot :: ArchaeologyRuleSnapshotIdentity where
  "sample_snapshot =
     \<lparr>si_repository_id = ''r'', si_rule_id = ''u'', si_rule_kind_identity = ''k'',
      si_continuity_identity = ''c'', si_evidence_identity = ''e'',
      si_parser_compatibility_identity = ''p'', si_contradiction_identity = ''x'',
      si_description_identity = ''d''\<rparr>"

theorem snapshot_compatibility_preserves_decisions_witness:
  "evaluate_snapshot_compatibility sample_snapshot (sample_snapshot\<lparr>si_evidence_identity := ''f''\<rparr>)
     State_Accepted None = Inr (Compat_ReviewNeeded [Mismatch_Evidence]) \<and>
   mismatches sample_snapshot (sample_snapshot\<lparr>si_evidence_identity := ''f''\<rparr>) = [Mismatch_Evidence]"
proof -
  have run: "evaluate_snapshot_compatibility sample_snapshot
      (sample_snapshot\<lparr>si_evidence_identity := ''f''\<rparr>) State_Accepted None =
      Inr (Compat_ReviewNeeded [Mismatch_Evidence])"
    by (simp add: evaluate_snapshot_compatibility_def snapshot_validate_def mismatches_def
        sample_snapshot_def lifecycle_eval text_eval)
  with snapshot_compatibility_preserves_decisions [of sample_snapshot
      "sample_snapshot\<lparr>si_evidence_identity := ''f''\<rparr>" State_Accepted None _ _ "[Mismatch_Evidence]"]
  show ?thesis by simp
qed

end
