(* ===== verification/Aliases.thy ===== *)
theory Aliases
  imports Lifecycle
begin

text \<open>
  Rule aliases of \<open>commands/business_rule_archaeology/lifecycle.rs\<close>: the shape of one alias, the
  validation of a complete alias set and of one append. The \<open>BTreeMap\<close> of targets is the list of
  its entries (the code never overwrites one: a second insertion is an error); walking its keys
  takes them sorted. The cycle walk is bounded by the keys it has not visited.
\<close>

section \<open>Definitions\<close>

definition MAX_ALIASES_PER_REPOSITORY :: nat where
  "MAX_ALIASES_PER_REPOSITORY = 100000"

datatype alias_error =
  Alias_Text lifecycle_error | AliasByModel | AliasCrossesScope | AliasesItself
| AliasBoundExceeded | AliasEventDuplicated | AliasSecondTarget | AliasCycle
| CanonicalIsAlias

definition lift_text :: "(lifecycle_error, unit) result \<Rightarrow> (alias_error, unit) result" where
  "lift_text r = (case r of Inl e \<Rightarrow> Inl (Alias_Text e) | Inr u \<Rightarrow> Inr u)"

record ArchaeologyRuleAlias =
  al_event_id :: string
  al_alias_repository_id :: string
  al_alias_rule_id :: string
  al_canonical_repository_id :: string
  al_canonical_rule_id :: string
  al_provenance :: ArchaeologyReviewerProvenance

definition alias_validate_shape :: "ArchaeologyRuleAlias \<Rightarrow> (alias_error, unit) result" where
  "alias_validate_shape a =
     and_then (lift_text (for_each (\<lambda>(label, value). validate_id label value)
       [(''alias event'', al_event_id a), (''alias repository'', al_alias_repository_id a),
        (''alias rule'', al_alias_rule_id a),
        (''canonical repository'', al_canonical_repository_id a),
        (''canonical rule'', al_canonical_rule_id a)])) (\<lambda>_.
     and_then (lift_text (provenance_validate (al_provenance a))) (\<lambda>_.
       if rv_kind (al_provenance a) = Reviewer_Model then Inl AliasByModel
       else if al_alias_repository_id a \<noteq> al_canonical_repository_id a
         then Inl AliasCrossesScope
       else if al_alias_rule_id a = al_canonical_rule_id a then Inl AliasesItself
       else Inr ()))"

type_synonym rule_key = "string \<times> string"

definition alias_key :: "ArchaeologyRuleAlias \<Rightarrow> rule_key" where
  "alias_key a = (al_alias_repository_id a, al_alias_rule_id a)"

definition canonical_key :: "ArchaeologyRuleAlias \<Rightarrow> rule_key" where
  "canonical_key a = (al_canonical_repository_id a, al_canonical_rule_id a)"

definition insert_alias ::
  "string set \<times> (rule_key \<times> rule_key) list \<Rightarrow> ArchaeologyRuleAlias
     \<Rightarrow> (alias_error, string set \<times> (rule_key \<times> rule_key) list) result" where
  "insert_alias acc a =
     (case acc of (event_ids, targets) \<Rightarrow>
        and_then (alias_validate_shape a) (\<lambda>_.
          if al_event_id a \<in> event_ids then Inl AliasEventDuplicated
          else if map_of targets (alias_key a) \<noteq> None then Inl AliasSecondTarget
          else Inr (insert (al_event_id a) event_ids,
                    (alias_key a, canonical_key a) # targets)))"

function alias_walk ::
  "(rule_key \<times> rule_key) list \<Rightarrow> rule_key set \<Rightarrow> rule_key \<Rightarrow> (alias_error, unit) result" where
  "alias_walk targets visited cursor =
     (case map_of targets cursor of
        None \<Rightarrow> Inr ()
      | Some nxt \<Rightarrow>
          (if cursor \<in> visited \<or> nxt \<in> insert cursor visited then Inl AliasCycle
           else alias_walk targets (insert cursor visited) nxt))"
  by pat_completeness auto
termination
proof (relation "measure (\<lambda>(targets, visited, cursor). card (fst ` set targets - visited))",
    goal_cases)
  case (2 targets visited cursor nxt)
  have "cursor \<in> fst ` set targets - visited"
    using 2 by (force dest!: map_of_SomeD)
  then have "card (fst ` set targets - insert cursor visited) < card (fst ` set targets - visited)"
    by (intro psubset_card_mono) auto
  then show ?case by simp
qed simp

declare alias_walk.simps [simp del]

definition validate_rule_aliases :: "ArchaeologyRuleAlias list \<Rightarrow> (alias_error, unit) result" where
  "validate_rule_aliases aliases =
     (if length aliases > MAX_ALIASES_PER_REPOSITORY then Inl AliasBoundExceeded
      else and_then (try_fold insert_alias ({}, []) aliases) (\<lambda>(_, targets).
        and_then (for_each (alias_walk targets {}) (sort (map fst targets))) (\<lambda>_.
          require (\<not> list_ex (\<lambda>t. map_of targets t \<noteq> None) (map snd targets))
            CanonicalIsAlias)))"

definition validate_rule_alias_append ::
  "ArchaeologyRuleAlias list \<Rightarrow> ArchaeologyRuleAlias \<Rightarrow> (alias_error, unit) result" where
  "validate_rule_alias_append existing candidate =
     (if length existing \<ge> MAX_ALIASES_PER_REPOSITORY then Inl AliasBoundExceeded
      else validate_rule_aliases (existing @ [candidate]))"

section \<open>Correctness\<close>

lemma insert_alias_run:
  assumes "try_fold insert_alias (ids, ts) as = Inr (ids', ts')"
  shows "ts' = rev (map (\<lambda>a. (alias_key a, canonical_key a)) as) @ ts \<and>
         ids' = ids \<union> al_event_id ` set as"
  using assms
  by (induction as arbitrary: ids ts)
    (auto simp: insert_alias_def and_then_Inr_iff split: if_splits)

lemma insert_alias_run_ok:
  "(\<exists>r. try_fold insert_alias (ids, ts) as = Inr r) \<longleftrightarrow>
     (\<forall>a\<in>set as. alias_validate_shape a = Inr ()) \<and>
     distinct (map al_event_id as) \<and> al_event_id ` set as \<inter> ids = {} \<and>
     distinct (map alias_key as) \<and> alias_key ` set as \<inter> fst ` set ts = {}"
proof (induction as arbitrary: ids ts)
  case Nil
  then show ?case by simp
next
  case (Cons a as)
  show ?case
  proof (cases "alias_validate_shape a = Inr () \<and> al_event_id a \<notin> ids \<and>
      alias_key a \<notin> fst ` set ts")
    case True
    then have "insert_alias (ids, ts) a =
        Inr (insert (al_event_id a) ids, (alias_key a, canonical_key a) # ts)"
      by (simp add: insert_alias_def map_of_eq_None_iff)
    with True Cons.IH [of "insert (al_event_id a) ids" "(alias_key a, canonical_key a) # ts"]
    show ?thesis by auto
  next
    case False
    then have "\<nexists>r. insert_alias (ids, ts) a = Inr r"
      by (auto simp: insert_alias_def and_then_Inr_iff map_of_eq_None_iff split: if_splits)
    with False show ?thesis by (auto simp: and_then_Inr_iff)
  qed
qed

text \<open>A walk over a set of stars takes one step and stops.\<close>

lemma alias_walk_star:
  assumes "\<And>t. t \<in> snd ` set targets \<Longrightarrow> t \<notin> fst ` set targets"
  shows "alias_walk targets {} cursor = Inr ()"
proof (cases "map_of targets cursor")
  case None
  then show ?thesis by (simp add: alias_walk.simps)
next
  case (Some nxt)
  then have entry: "(cursor, nxt) \<in> set targets" by (rule map_of_SomeD)
  then have "nxt \<notin> fst ` set targets" using assms by force
  moreover from this have "nxt \<noteq> cursor" using entry by force
  moreover from calculation have "map_of targets nxt = None" by (simp add: map_of_eq_None_iff)
  ultimately show ?thesis
    using Some by (simp add: alias_walk.simps [of targets _ cursor] alias_walk.simps [of targets _ nxt])
qed

lemma validate_rule_aliases_ok:
  "validate_rule_aliases as = Inr () \<longleftrightarrow>
     length as \<le> MAX_ALIASES_PER_REPOSITORY \<and>
     (\<forall>a\<in>set as. alias_validate_shape a = Inr ()) \<and>
     distinct (map al_event_id as) \<and> distinct (map alias_key as) \<and>
     canonical_key ` set as \<inter> alias_key ` set as = {}" (is "_ \<longleftrightarrow> ?spec")
proof
  assume "validate_rule_aliases as = Inr ()"
  then obtain ids ts where run: "try_fold insert_alias ({}, []) as = Inr (ids, ts)"
    and star: "\<not> list_ex (\<lambda>t. map_of ts t \<noteq> None) (map snd ts)"
    and bound: "length as \<le> MAX_ALIASES_PER_REPOSITORY"
    by (auto simp: validate_rule_aliases_def and_then_Inr_iff split: if_splits)
  have "ts = rev (map (\<lambda>a. (alias_key a, canonical_key a)) as)"
    using insert_alias_run [OF run] by simp
  with star have "canonical_key ` set as \<inter> alias_key ` set as = {}"
    by (force simp: list_ex_iff map_of_eq_None_iff)
  then show ?spec
    using bound run insert_alias_run_ok [of "{}" "[]" as] by auto
next
  assume spec: ?spec
  then obtain ids ts where run: "try_fold insert_alias ({}, []) as = Inr (ids, ts)"
    using insert_alias_run_ok [of "{}" "[]" as] by auto
  have ts: "ts = rev (map (\<lambda>a. (alias_key a, canonical_key a)) as)"
    using insert_alias_run [OF run] by simp
  then have star: "t \<notin> fst ` set ts" if "t \<in> snd ` set ts" for t
    using spec that by force
  then have "\<not> list_ex (\<lambda>t. map_of ts t \<noteq> None) (map snd ts)"
    by (auto simp: list_ex_iff map_of_eq_None_iff)
  moreover have "for_each (alias_walk ts {}) (sort (map fst ts)) = Inr ()"
    by (simp add: for_each_Inr_iff alias_walk_star [OF star])
  ultimately show "validate_rule_aliases as = Inr ()"
    using spec run by (simp add: validate_rule_aliases_def)
qed

text \<open>C8. A set of aliases is accepted exactly when it is bounded, every alias is well formed, event
  identities and alias keys are unique and no canonical rule is itself an alias; the explicit cycle
  walk therefore never rejects a set that the other checks accept.\<close>

theorem validate_rule_aliases_iff_stars:
  "validate_rule_aliases as = Inr () \<longleftrightarrow>
     length as \<le> MAX_ALIASES_PER_REPOSITORY \<and>
     (\<forall>a\<in>set as. alias_validate_shape a = Inr ()) \<and>
     distinct (map al_event_id as) \<and> distinct (map alias_key as) \<and>
     canonical_key ` set as \<inter> alias_key ` set as = {}"
  by (rule validate_rule_aliases_ok)

lemma validate_rule_alias_append_ok:
  "validate_rule_alias_append ex a = Inr () \<longleftrightarrow> validate_rule_aliases (ex @ [a]) = Inr ()"
  by (auto simp: validate_rule_alias_append_def validate_rule_aliases_ok)

section \<open>Witness\<close>

definition sample_alias :: "string \<Rightarrow> ArchaeologyRuleAlias" where
  "sample_alias u =
     \<lparr>al_event_id = u, al_alias_repository_id = ''r'', al_alias_rule_id = u,
      al_canonical_repository_id = ''r'', al_canonical_rule_id = ''c'',
      al_provenance = \<lparr>rv_kind = Reviewer_Human, rv_actor_id = ''h'', rv_authority_id = None\<rparr>\<rparr>"

theorem validate_rule_aliases_iff_stars_witness:
  "validate_rule_aliases [sample_alias ''a'', sample_alias ''b''] = Inr ()"
proof -
  have "alias_validate_shape (sample_alias ''a'') = Inr ()" "alias_validate_shape (sample_alias ''b'') = Inr ()"
    by (simp_all add: alias_validate_shape_def lift_text_def sample_alias_def lifecycle_eval text_eval)
  then show ?thesis
    unfolding validate_rule_aliases_iff_stars
    by (simp add: MAX_ALIASES_PER_REPOSITORY_def sample_alias_def alias_key_def canonical_key_def)
qed

end
