(* ===== verification/Identity.thy ===== *)
theory Identity
  imports Contracts "HOL-Library.Word"
begin

text \<open>
  Stable rule identities (\<open>commands/business_rule_archaeology/identity.rs\<close>): the validators of an
  identity input, its normalisation into sorted sets, and the length-framed byte stream each
  builder feeds to the hash. SHA-256 is a third-party crate: it is the parameter \<open>sha256\<close>, a map
  from the bytes fed to it to the digest bytes, and nothing is assumed of it. What the code
  controls is the preimage, and the theorems are about preimages: they determine the normalised
  input, they do not depend on the order or the repetition of facts, and different builders never
  share one.
\<close>

section \<open>Data\<close>

datatype identity_error =
  StableAnchorNotSupporting | DescriptionClauseBound | EvidenceSpanBound
| EvidenceContentHash | EvidenceSpanOrder | EvidenceDuplicateSpan | EvidenceDuplicateFact
| SemanticExpressionInvalid | FactBoundInvalid | RepositoryIdentityInvalid
| ComponentInvalid string | StableIdentityInvalid | DescriptionTextInvalid
| ByteBoundInvalid | CountExceedsBound | ByteCountOverflowed | ByteBoundExceeded
| FieldExceedsBound

record ArchaeologyIdentityLimits =
  il_max_facts :: nat
  il_max_spans_per_fact :: nat
  il_max_clauses :: nat
  il_max_identity_bytes :: nat
  il_max_text_bytes :: nat

definition identity_limits_default :: ArchaeologyIdentityLimits where
  "identity_limits_default =
     \<lparr>il_max_facts = 256, il_max_spans_per_fact = 256, il_max_clauses = 256,
      il_max_identity_bytes = 2 * 1024 * 1024, il_max_text_bytes = 4 * 1024\<rparr>"

type_synonym u64 = "64 word"

record ArchaeologyIdentitySpan =
  is_path_identity :: string
  is_content_hash :: string
  is_start_byte :: u64
  is_end_byte :: u64

record ArchaeologyIdentityFact =
  if_kind :: ArchaeologyFactKind
  if_semantic_expression :: string
  if_parser_identity :: string
  if_spans :: "ArchaeologyIdentitySpan list"

definition fact_kind_name :: "ArchaeologyFactKind \<Rightarrow> string" where
  "fact_kind_name kind = (case kind of
     Fact_Declaration \<Rightarrow> ''declaration''
   | Fact_DataField \<Rightarrow> ''data_field''
   | Fact_Constant \<Rightarrow> ''constant''
   | Fact_Predicate \<Rightarrow> ''predicate''
   | Fact_Decision \<Rightarrow> ''decision''
   | Fact_Calculation \<Rightarrow> ''calculation''
   | Fact_Mutation \<Rightarrow> ''mutation''
   | Fact_Call \<Rightarrow> ''call''
   | Fact_InputOutput \<Rightarrow> ''input_output''
   | Fact_Transaction \<Rightarrow> ''transaction''
   | Fact_ControlFlow \<Rightarrow> ''control_flow''
   | Fact_EntryPoint \<Rightarrow> ''entry_point''
   | Fact_Include \<Rightarrow> ''include''
   | Fact_Unresolved \<Rightarrow> ''unresolved'')"

definition rule_kind_name :: "ArchaeologyRuleKind \<Rightarrow> string" where
  "rule_kind_name kind = (case kind of
     Rule_Validation \<Rightarrow> ''validation''
   | Rule_Calculation \<Rightarrow> ''calculation''
   | Rule_Eligibility \<Rightarrow> ''eligibility''
   | Rule_Entitlement \<Rightarrow> ''entitlement''
   | Rule_Routing \<Rightarrow> ''routing''
   | Rule_Mutation \<Rightarrow> ''mutation''
   | Rule_Exception \<Rightarrow> ''exception''
   | Rule_Lifecycle \<Rightarrow> ''lifecycle''
   | Rule_Transaction \<Rightarrow> ''transaction''
   | Rule_Other \<Rightarrow> ''other'')"

section \<open>Validators\<close>

definition lower_hex :: "string \<Rightarrow> nat \<Rightarrow> bool" where
  "lower_hex value n \<longleftrightarrow> len value = n \<and> list_all lower_hex_byte value"

definition validate_component :: "string \<Rightarrow> string \<Rightarrow> (identity_error, unit) result" where
  "validate_component value name =
     (if value = [] \<or> len value > 256 \<or> any_char (\<lambda>u. scalar u = 0 \<or> is_control u) value
      then Inl (ComponentInvalid name) else Inr ())"

definition validate_repository :: "string \<Rightarrow> (identity_error, unit) result" where
  "validate_repository value =
     and_then (validate_component value ''repository identity'') (\<lambda>_.
       if any_char (\<lambda>u. scalar u = 47 \<or> scalar u = 92) value
       then Inl RepositoryIdentityInvalid else Inr ())"

definition validate_semantic_fact :: "ArchaeologyIdentityFact \<Rightarrow> (identity_error, unit) result" where
  "validate_semantic_fact f =
     (if \<not> starts_with (if_semantic_expression f) ''v1:sha256:''
         \<or> \<not> lower_hex (drop 10 (if_semantic_expression f)) 64
      then Inl SemanticExpressionInvalid else Inr ())"

definition validate_fact_count ::
  "ArchaeologyIdentityFact list \<Rightarrow> ArchaeologyIdentityLimits \<Rightarrow> bool
     \<Rightarrow> (identity_error, unit) result" where
  "validate_fact_count facts limits allow_empty =
     (if (\<not> allow_empty \<and> facts = []) \<or> length facts > il_max_facts limits
      then Inl FactBoundInvalid else Inr ())"

definition validate_digest_identity :: "string \<Rightarrow> (identity_error, unit) result" where
  "validate_digest_identity value =
     (if \<not> starts_with value ''sha256:'' \<or> \<not> lower_hex (drop 7 value) 64
      then Inl StableIdentityInvalid else Inr ())"

definition canonical_text :: "string \<Rightarrow> nat \<Rightarrow> (identity_error, string) result" where
  "canonical_text value max_bytes =
     (if value = [] \<or> len value > max_bytes
         \<or> any_char (\<lambda>u. scalar u = 0 \<or> (is_control u \<and> \<not> is_whitespace u)) value
      then Inl DescriptionTextInvalid
      else
        (let canonical = join_str '' '' (split_whitespace value)
         in if canonical = [] \<or> len canonical > max_bytes then Inl DescriptionTextInvalid
            else Inr canonical))"

section \<open>Normalisation\<close>

text \<open>
  \<open>NormalizedSpan\<close> and \<open>NormalizedEvidenceFact\<close> derive \<open>Ord\<close> field by field, which is the
  lexicographic order on tuples; listing a \<open>BTreeSet\<close> is \<open>sorted_list_of_set\<close>.
\<close>

type_synonym NormalizedSpan = "string \<times> string \<times> u64 \<times> u64"

type_synonym NormalizedEvidenceFact = "string \<times> string \<times> string \<times> NormalizedSpan list"

definition semantic_fact_key :: "ArchaeologyIdentityFact \<Rightarrow> string \<times> string" where
  "semantic_fact_key f = (fact_kind_name (if_kind f), if_semantic_expression f)"

definition normalized_semantic_facts ::
  "ArchaeologyIdentityFact list \<Rightarrow> (identity_error, (string \<times> string) set) result" where
  "normalized_semantic_facts facts =
     try_fold (\<lambda>acc f. and_then (validate_semantic_fact f)
                 (\<lambda>_. Inr (insert (semantic_fact_key f) acc))) {} facts"

definition span_key :: "ArchaeologyIdentitySpan \<Rightarrow> NormalizedSpan" where
  "span_key s = (is_path_identity s, is_content_hash s, is_start_byte s, is_end_byte s)"

definition insert_span ::
  "NormalizedSpan set \<Rightarrow> ArchaeologyIdentitySpan \<Rightarrow> (identity_error, NormalizedSpan set) result" where
  "insert_span acc s =
     and_then (validate_component (is_path_identity s) ''path identity'') (\<lambda>_.
       if \<not> lower_hex (is_content_hash s) 64 then Inl EvidenceContentHash
       else if is_end_byte s < is_start_byte s then Inl EvidenceSpanOrder
       else if span_key s \<in> acc then Inl EvidenceDuplicateSpan
       else Inr (insert (span_key s) acc))"

definition evidence_fact_key :: "ArchaeologyIdentityFact \<Rightarrow> NormalizedEvidenceFact" where
  "evidence_fact_key f =
     (fact_kind_name (if_kind f), if_semantic_expression f, if_parser_identity f,
      sorted_list_of_set (span_key ` set (if_spans f)))"

definition insert_evidence_fact ::
  "ArchaeologyIdentityLimits \<Rightarrow> NormalizedEvidenceFact set \<Rightarrow> ArchaeologyIdentityFact
     \<Rightarrow> (identity_error, NormalizedEvidenceFact set) result" where
  "insert_evidence_fact limits acc f =
     and_then (validate_semantic_fact f) (\<lambda>_.
     and_then (validate_component (if_parser_identity f) ''parser identity'') (\<lambda>_.
       if if_spans f = [] \<or> length (if_spans f) > il_max_spans_per_fact limits
         then Inl EvidenceSpanBound
       else and_then (try_fold insert_span {} (if_spans f)) (\<lambda>spans.
         (let key = (fact_kind_name (if_kind f), if_semantic_expression f,
                     if_parser_identity f, sorted_list_of_set spans)
          in if key \<in> acc then Inl EvidenceDuplicateFact else Inr (insert key acc)))))"

definition normalized_evidence_facts ::
  "ArchaeologyIdentityFact list \<Rightarrow> ArchaeologyIdentityLimits
     \<Rightarrow> (identity_error, NormalizedEvidenceFact set) result" where
  "normalized_evidence_facts facts limits = try_fold (insert_evidence_fact limits) {} facts"

section \<open>The framed digest\<close>

text \<open>\<open>usize\<close> has 64 bits (\<open>usize_max\<close>); \<open>to_be_bytes\<close> of a 64-bit number is eight big-endian bytes.\<close>

fun be_bytes :: "nat \<Rightarrow> nat \<Rightarrow> string" where
  "be_bytes 0 n = []"
| "be_bytes (Suc k) n = be_bytes k (n div 256) @ [char_of (n mod 256)]"

record IdentityDigest =
  dg_input :: string
  dg_bytes :: nat
  dg_max_bytes :: nat

definition digest_write :: "IdentityDigest \<Rightarrow> string \<Rightarrow> (identity_error, IdentityDigest) result" where
  "digest_write d value =
     (if dg_bytes d + 8 + len value > usize_max then Inl ByteCountOverflowed
      else if dg_bytes d + 8 + len value > dg_max_bytes d then Inl ByteBoundExceeded
      else Inr (d\<lparr>dg_input := dg_input d @ be_bytes 8 (len value) @ value,
                  dg_bytes := dg_bytes d + 8 + len value\<rparr>))"

definition digest_field :: "IdentityDigest \<Rightarrow> string \<Rightarrow> (identity_error, IdentityDigest) result" where
  "digest_field d value = digest_write d value"

definition digest_number :: "IdentityDigest \<Rightarrow> u64 \<Rightarrow> (identity_error, IdentityDigest) result" where
  "digest_number d value = digest_write d (be_bytes 8 (unat value))"

definition digest_count :: "IdentityDigest \<Rightarrow> nat \<Rightarrow> (identity_error, IdentityDigest) result" where
  "digest_count d value =
     (if value > usize_max then Inl CountExceedsBound
      else digest_number d (of_nat value))"

definition digest_new :: "string \<Rightarrow> nat \<Rightarrow> (identity_error, IdentityDigest) result" where
  "digest_new tag max_bytes =
     (if max_bytes = 0 then Inl ByteBoundInvalid
      else digest_field \<lparr>dg_input = [], dg_bytes = 0, dg_max_bytes = max_bytes\<rparr> tag)"

definition hex_digit :: "nat \<Rightarrow> char" where
  "hex_digit n = char_of (if n < 10 then 48 + n else 87 + n)"

definition hex :: "string \<Rightarrow> string" where
  "hex bytes = concat (map (\<lambda>b. [hex_digit (byte b div 16), hex_digit (byte b mod 16)]) bytes)"

definition digest_finish :: "(string \<Rightarrow> string) \<Rightarrow> IdentityDigest \<Rightarrow> string" where
  "digest_finish sha256 d = ''sha256:'' @ hex (sha256 (dg_input d))"


section \<open>The builders\<close>

definition STABLE_RULE_TAG :: string where
  "STABLE_RULE_TAG = ''archaeology-stable-rule:v1''"

definition EVIDENCE_TAG :: string where
  "EVIDENCE_TAG = ''archaeology-rule-evidence:v1''"

definition CONTRADICTION_TAG :: string where
  "CONTRADICTION_TAG = ''archaeology-rule-contradictions:v1''"

definition DESCRIPTION_TAG :: string where
  "DESCRIPTION_TAG = ''archaeology-rule-description:v1''"

definition CONTINUITY_TAG :: string where
  "CONTINUITY_TAG = ''archaeology-rule-continuity:v1''"

definition PARSER_COMPATIBILITY_TAG :: string where
  "PARSER_COMPATIBILITY_TAG = ''archaeology-rule-parser-compatibility:v1''"

definition digest_pairs ::
  "IdentityDigest \<Rightarrow> (string \<times> string) list \<Rightarrow> (identity_error, IdentityDigest) result" where
  "digest_pairs d ps =
     try_fold (\<lambda>d (kind, expr). and_then (digest_field d kind) (\<lambda>d. digest_field d expr)) d ps"

definition stable_rule_preimage ::
  "string \<Rightarrow> ArchaeologyRuleKind \<Rightarrow> ArchaeologyIdentityFact \<Rightarrow> ArchaeologyIdentityFact list
     \<Rightarrow> ArchaeologyIdentityLimits \<Rightarrow> (identity_error, IdentityDigest) result" where
  "stable_rule_preimage repository_id kind anchor supporting_facts limits =
     and_then (validate_repository repository_id) (\<lambda>_.
     and_then (validate_fact_count supporting_facts limits False) (\<lambda>_.
     and_then (validate_semantic_fact anchor) (\<lambda>_.
     and_then (normalized_semantic_facts supporting_facts) (\<lambda>supporting.
       if semantic_fact_key anchor \<notin> supporting then Inl StableAnchorNotSupporting
       else
         and_then (digest_new STABLE_RULE_TAG (il_max_identity_bytes limits)) (\<lambda>d.
         and_then (digest_field d repository_id) (\<lambda>d.
         and_then (digest_field d (rule_kind_name kind)) (\<lambda>d.
         and_then (digest_field d (fst (semantic_fact_key anchor))) (\<lambda>d.
         and_then (digest_field d (snd (semantic_fact_key anchor))) (\<lambda>d.
         and_then (digest_count d (card supporting)) (\<lambda>d.
           digest_pairs d (sorted_list_of_set supporting)))))))))))"

definition stable_rule_identity ::
  "(string \<Rightarrow> string) \<Rightarrow> string \<Rightarrow> ArchaeologyRuleKind \<Rightarrow> ArchaeologyIdentityFact
     \<Rightarrow> ArchaeologyIdentityFact list \<Rightarrow> ArchaeologyIdentityLimits
     \<Rightarrow> (identity_error, string) result" where
  "stable_rule_identity sha256 repository_id kind anchor supporting_facts limits =
     and_then (stable_rule_preimage repository_id kind anchor supporting_facts limits)
       (\<lambda>d. Inr (digest_finish sha256 d))"

definition digest_span ::
  "IdentityDigest \<Rightarrow> NormalizedSpan \<Rightarrow> (identity_error, IdentityDigest) result" where
  "digest_span d s =
     (case s of (path_identity, content_hash, start_byte, end_byte) \<Rightarrow>
        and_then (digest_field d path_identity) (\<lambda>d.
        and_then (digest_field d content_hash) (\<lambda>d.
        and_then (digest_number d start_byte) (\<lambda>d. digest_number d end_byte))))"

definition digest_evidence_fact ::
  "IdentityDigest \<Rightarrow> NormalizedEvidenceFact \<Rightarrow> (identity_error, IdentityDigest) result" where
  "digest_evidence_fact d f =
     (case f of (kind, expr, parser_identity, spans) \<Rightarrow>
        and_then (digest_field d kind) (\<lambda>d.
        and_then (digest_field d expr) (\<lambda>d.
        and_then (digest_field d parser_identity) (\<lambda>d.
        and_then (digest_count d (length spans)) (\<lambda>d. try_fold digest_span d spans)))))"

definition evidence_preimage ::
  "string \<Rightarrow> ArchaeologyIdentityFact list \<Rightarrow> ArchaeologyIdentityLimits
     \<Rightarrow> (identity_error, IdentityDigest) result" where
  "evidence_preimage repository_id supporting_facts limits =
     and_then (validate_repository repository_id) (\<lambda>_.
     and_then (validate_fact_count supporting_facts limits False) (\<lambda>_.
     and_then (normalized_evidence_facts supporting_facts limits) (\<lambda>facts.
     and_then (digest_new EVIDENCE_TAG (il_max_identity_bytes limits)) (\<lambda>d.
     and_then (digest_field d repository_id) (\<lambda>d.
     and_then (digest_count d (card facts)) (\<lambda>d.
       try_fold digest_evidence_fact d (sorted_list_of_set facts)))))))"

definition evidence_identity ::
  "(string \<Rightarrow> string) \<Rightarrow> string \<Rightarrow> ArchaeologyIdentityFact list \<Rightarrow> ArchaeologyIdentityLimits
     \<Rightarrow> (identity_error, string) result" where
  "evidence_identity sha256 repository_id supporting_facts limits =
     and_then (evidence_preimage repository_id supporting_facts limits)
       (\<lambda>d. Inr (digest_finish sha256 d))"

definition contradiction_preimage ::
  "string \<Rightarrow> ArchaeologyIdentityFact list \<Rightarrow> ArchaeologyIdentityLimits
     \<Rightarrow> (identity_error, IdentityDigest) result" where
  "contradiction_preimage repository_id contradicting_facts limits =
     and_then (validate_repository repository_id) (\<lambda>_.
     and_then (validate_fact_count contradicting_facts limits True) (\<lambda>_.
     and_then (normalized_semantic_facts contradicting_facts) (\<lambda>facts.
     and_then (digest_new CONTRADICTION_TAG (il_max_identity_bytes limits)) (\<lambda>d.
     and_then (digest_field d repository_id) (\<lambda>d.
     and_then (digest_field d (if facts = {} then ''empty-set:v1'' else ''facts:v1'')) (\<lambda>d.
     and_then (digest_count d (card facts)) (\<lambda>d.
       digest_pairs d (sorted_list_of_set facts))))))))"

definition contradiction_identity ::
  "(string \<Rightarrow> string) \<Rightarrow> string \<Rightarrow> ArchaeologyIdentityFact list \<Rightarrow> ArchaeologyIdentityLimits
     \<Rightarrow> (identity_error, string) result" where
  "contradiction_identity sha256 repository_id contradicting_facts limits =
     and_then (contradiction_preimage repository_id contradicting_facts limits)
       (\<lambda>d. Inr (digest_finish sha256 d))"

definition description_preimage ::
  "string \<Rightarrow> string \<Rightarrow> string list \<Rightarrow> string \<Rightarrow> ArchaeologyIdentityLimits
     \<Rightarrow> (identity_error, IdentityDigest) result" where
  "description_preimage repository_id title clauses description_source_identity limits =
     and_then (validate_repository repository_id) (\<lambda>_.
       if clauses = [] \<or> length clauses > il_max_clauses limits then Inl DescriptionClauseBound
       else
         and_then (validate_component description_source_identity ''description source identity'')
           (\<lambda>_.
         and_then (canonical_text title (il_max_text_bytes limits)) (\<lambda>title.
         and_then (try_map (\<lambda>c. canonical_text c (il_max_text_bytes limits)) clauses) (\<lambda>clauses.
         and_then (digest_new DESCRIPTION_TAG (il_max_identity_bytes limits)) (\<lambda>d.
         and_then (digest_field d repository_id) (\<lambda>d.
         and_then (digest_field d description_source_identity) (\<lambda>d.
         and_then (digest_field d title) (\<lambda>d.
         and_then (digest_count d (length clauses)) (\<lambda>d.
           try_fold digest_field d (sort clauses))))))))))"

definition description_identity ::
  "(string \<Rightarrow> string) \<Rightarrow> string \<Rightarrow> string \<Rightarrow> string list \<Rightarrow> string
     \<Rightarrow> ArchaeologyIdentityLimits \<Rightarrow> (identity_error, string) result" where
  "description_identity sha256 repository_id title clauses description_source_identity limits =
     and_then (description_preimage repository_id title clauses description_source_identity limits)
       (\<lambda>d. Inr (digest_finish sha256 d))"

definition continuity_preimage ::
  "string \<Rightarrow> string \<Rightarrow> ArchaeologyIdentityLimits \<Rightarrow> (identity_error, IdentityDigest) result" where
  "continuity_preimage repository_id stable_identity limits =
     and_then (validate_repository repository_id) (\<lambda>_.
     and_then (validate_digest_identity stable_identity) (\<lambda>_.
     and_then (digest_new CONTINUITY_TAG (il_max_identity_bytes limits)) (\<lambda>d.
     and_then (digest_field d repository_id) (\<lambda>d. digest_field d stable_identity))))"

definition continuity_identity ::
  "(string \<Rightarrow> string) \<Rightarrow> string \<Rightarrow> string \<Rightarrow> ArchaeologyIdentityLimits
     \<Rightarrow> (identity_error, string) result" where
  "continuity_identity sha256 repository_id stable_identity limits =
     and_then (continuity_preimage repository_id stable_identity limits)
       (\<lambda>d. Inr (digest_finish sha256 d))"

record ArchaeologyIdentityProvenance =
  ip_schema :: string
  ip_hash_algorithm :: string
  ip_stable_rule_version :: string
  ip_evidence_version :: string
  ip_contradiction_version :: string
  ip_description_version :: string
  ip_continuity_version :: string
  ip_parser_compatibility_version :: string

definition identity_provenance :: ArchaeologyIdentityProvenance where
  "identity_provenance =
     \<lparr>ip_schema = ''codevetter.archaeology-rule-identities.v1'', ip_hash_algorithm = ''sha256'',
      ip_stable_rule_version = STABLE_RULE_TAG, ip_evidence_version = EVIDENCE_TAG,
      ip_contradiction_version = CONTRADICTION_TAG, ip_description_version = DESCRIPTION_TAG,
      ip_continuity_version = CONTINUITY_TAG,
      ip_parser_compatibility_version = PARSER_COMPATIBILITY_TAG\<rparr>"

record ArchaeologyRuleIdentities =
  ri_stable_rule_identity :: string
  ri_evidence_identity :: string
  ri_contradiction_identity :: string
  ri_description_identity :: string
  ri_continuity_identity :: string
  ri_provenance :: ArchaeologyIdentityProvenance

record ArchaeologyRuleIdentityInput =
  ii_repository_id :: string
  ii_kind :: ArchaeologyRuleKind
  ii_anchor :: ArchaeologyIdentityFact
  ii_supporting_facts :: "ArchaeologyIdentityFact list"
  ii_contradicting_facts :: "ArchaeologyIdentityFact list"
  ii_title :: string
  ii_clauses :: "string list"
  ii_description_source_identity :: string

definition build_rule_identities ::
  "(string \<Rightarrow> string) \<Rightarrow> ArchaeologyRuleIdentityInput \<Rightarrow> ArchaeologyIdentityLimits
     \<Rightarrow> (identity_error, ArchaeologyRuleIdentities) result" where
  "build_rule_identities sha256 input limits =
     and_then (stable_rule_identity sha256 (ii_repository_id input) (ii_kind input)
                 (ii_anchor input) (ii_supporting_facts input) limits) (\<lambda>stable.
     and_then (evidence_identity sha256 (ii_repository_id input) (ii_supporting_facts input)
                 limits) (\<lambda>evidence.
     and_then (contradiction_identity sha256 (ii_repository_id input)
                 (ii_contradicting_facts input) limits) (\<lambda>contradiction.
     and_then (description_identity sha256 (ii_repository_id input) (ii_title input)
                 (ii_clauses input) (ii_description_source_identity input) limits) (\<lambda>description.
     and_then (continuity_identity sha256 (ii_repository_id input) stable limits) (\<lambda>continuity.
       Inr \<lparr>ri_stable_rule_identity = stable, ri_evidence_identity = evidence,
            ri_contradiction_identity = contradiction, ri_description_identity = description,
            ri_continuity_identity = continuity, ri_provenance = identity_provenance\<rparr>)))))"


section \<open>Framing\<close>

lemma length_be_bytes [simp]: "length (be_bytes k n) = k"
  by (induction k arbitrary: n) simp_all

lemma be_bytes_inj:
  "m < 256 ^ k \<Longrightarrow> n < 256 ^ k \<Longrightarrow> be_bytes k m = be_bytes k n \<Longrightarrow> m = n"
proof (induction k arbitrary: m n)
  case 0
  then show ?case by simp
next
  case (Suc k)
  from Suc.prems(3) have "be_bytes k (m div 256) = be_bytes k (n div 256)"
    and low: "(char_of (m mod 256) :: char) = char_of (n mod 256)"
    by simp_all
  moreover have "m div 256 < 256 ^ k" "n div 256 < 256 ^ k"
    using Suc.prems(1,2) by (simp_all add: less_mult_imp_div_less mult.commute)
  ultimately have "m div 256 = n div 256" using Suc.IH by blast
  moreover have "m mod 256 = n mod 256"
    using arg_cong [OF low, of "of_char :: char \<Rightarrow> nat"] by (simp add: of_char_of)
  ultimately show ?case by (metis div_mult_mod_eq)
qed

definition frame :: "string list \<Rightarrow> string" where
  "frame fs = concat (map (\<lambda>f. be_bytes 8 (len f) @ f) fs)"

lemma frame_simps [simp]:
  "frame [] = []" "frame (f # fs) = be_bytes 8 (len f) @ f @ frame fs"
  "frame (fs @ gs) = frame fs @ frame gs"
  by (simp_all add: frame_def)

lemma frame_eq_Nil [simp]: "frame fs = [] \<longleftrightarrow> fs = []" "[] = frame fs \<longleftrightarrow> fs = []"
proof -
  have "be_bytes 8 n \<noteq> []" for n by (metis length_be_bytes list.size(3) zero_neq_numeral)
  then show "frame fs = [] \<longleftrightarrow> fs = []" "[] = frame fs \<longleftrightarrow> fs = []" by (cases fs; simp)+
qed

lemma frame_inj:
  assumes "\<forall>f\<in>set fs. len f \<le> usize_max" "\<forall>g\<in>set gs. len g \<le> usize_max"
    and "frame fs = frame gs"
  shows "fs = gs"
  using assms
proof (induction fs arbitrary: gs)
  case Nil
  then show ?case by simp
next
  case (Cons f fs)
  have "gs \<noteq> []"
    using Cons.prems(3) frame_eq_Nil(1) [of "f # fs"] frame_eq_Nil(1) [of gs]
    by (simp only: list.simps not_False_eq_True)
  then obtain g gs' where gs: "gs = g # gs'" by (cases gs) simp_all
  have "be_bytes 8 (len f) @ (f @ frame fs) = be_bytes 8 (len g) @ (g @ frame gs')"
    using Cons.prems(3) by (simp add: gs)
  then have "be_bytes 8 (len f) = be_bytes 8 (len g) \<and> f @ frame fs = g @ frame gs'"
    by (subst (asm) append_eq_append_conv) (simp_all only: length_be_bytes simp_thms)
  then have bytes: "be_bytes 8 (len f) = be_bytes 8 (len g)"
    and rest: "f @ frame fs = g @ frame gs'" by blast+
  have "len f < 256 ^ 8" "len g < 256 ^ 8"
    using Cons.prems(1,2) by (auto simp: gs usize_max_def)
  then have "len f = len g" using be_bytes_inj bytes by blast
  with rest have "f = g" "frame fs = frame gs'" by simp_all
  moreover from this have "fs = gs'"
    using Cons.IH [of gs'] Cons.prems(1,2) by (simp add: gs)
  ultimately show ?case by (simp add: gs)
qed

section \<open>Writing fields\<close>

lemma and_then_assoc [simp]: "and_then (and_then m f) g = and_then m (\<lambda>x. and_then (f x) g)"
  by (cases m) simp_all

lemma digest_writes:
  assumes "try_fold digest_write d fs = Inr d'"
  shows "dg_input d' = dg_input d @ frame fs \<and> dg_bytes d' = dg_bytes d + length (frame fs) \<and>
     dg_max_bytes d' = dg_max_bytes d \<and> (\<forall>f\<in>set fs. len f \<le> usize_max) \<and>
     (fs \<noteq> [] \<longrightarrow> dg_bytes d' \<le> dg_max_bytes d)"
  using assms
proof (induction fs arbitrary: d)
  case Nil
  then show ?case by simp
next
  case (Cons f fs)
  then obtain m where m: "digest_write d f = Inr m" "try_fold digest_write m fs = Inr d'"
    by (auto simp: and_then_Inr_iff)
  with Cons.IH [OF m(2)] show ?case
    by (cases fs) (auto simp: digest_write_def split: if_splits)
qed

definition num_field :: "nat \<Rightarrow> string" where
  "num_field n = be_bytes 8 n"

lemma num_field_inj: "m \<le> usize_max \<Longrightarrow> n \<le> usize_max \<Longrightarrow> num_field m = num_field n \<Longrightarrow> m = n"
  using be_bytes_inj [of m 8 n] by (simp add: num_field_def usize_max_def)

lemma unat_le_usize_max [simp]: "unat (w :: u64) \<le> usize_max"
  using unsigned_less [of w, where ?'a = nat] by (simp add: usize_max_def)

lemma digest_field_eta: "digest_field = digest_write"
  by (intro ext) (simp add: digest_field_def)

lemma digest_number_write: "digest_number d w = digest_write d (num_field (unat w))"
  by (simp add: digest_number_def num_field_def)

lemma digest_count_write:
  "digest_count d n = (if n > usize_max then Inl CountExceedsBound
     else digest_write d (num_field n))"
proof -
  have "unat (of_nat n :: u64) = n" if "n \<le> usize_max"
    using that by (simp add: unat_of_nat usize_max_def)
  then show ?thesis by (simp add: digest_count_def digest_number_write)
qed

lemma digest_new_write:
  "digest_new tag m = Inr d \<longleftrightarrow>
     m \<noteq> 0 \<and> try_fold digest_write \<lparr>dg_input = [], dg_bytes = 0, dg_max_bytes = m\<rparr> [tag] = Inr d"
  by (auto simp: digest_new_def digest_field_def and_then_Inr_iff)

lemma digest_pairs_write:
  "digest_pairs d ps = try_fold digest_write d (concat (map (\<lambda>(k, e). [k, e]) ps))"
  by (induction ps arbitrary: d)
    (auto simp: digest_pairs_def digest_field_def split: prod.splits)

definition span_fields :: "NormalizedSpan \<Rightarrow> string list" where
  "span_fields s = (case s of (p, h, a, b) \<Rightarrow> [p, h, num_field (unat a), num_field (unat b)])"

lemma digest_spans_write:
  "try_fold digest_span d ss = try_fold digest_write d (concat (map span_fields ss))"
  by (induction ss arbitrary: d)
    (auto simp: digest_span_def span_fields_def digest_field_def digest_number_write)

definition evidence_fields :: "NormalizedEvidenceFact \<Rightarrow> string list" where
  "evidence_fields f = (case f of (k, e, p, ss) \<Rightarrow>
     [k, e, p, num_field (length ss)] @ concat (map span_fields ss))"

lemma evidence_fields_tuple:
  "evidence_fields (k, e, p, ss) =
     [k, e, p, num_field (length ss)] @ concat (map span_fields ss)"
  by (simp add: evidence_fields_def)

definition digest_start :: "nat \<Rightarrow> IdentityDigest" where
  "digest_start m = \<lparr>dg_input = [], dg_bytes = 0, dg_max_bytes = m\<rparr>"

lemma digest_new_start:
  "digest_new tag m = (if m = 0 then Inl ByteBoundInvalid else digest_write (digest_start m) tag)"
  by (simp add: digest_new_def digest_field_def digest_start_def)

lemma digest_evidence_write:
  "try_fold digest_evidence_fact d fs = Inr d' \<longleftrightarrow>
     (\<forall>f\<in>set fs. length (snd (snd (snd f))) \<le> usize_max) \<and>
     try_fold digest_write d (concat (map evidence_fields fs)) = Inr d'"
proof (induction fs arbitrary: d)
  case Nil
  then show ?case by simp
next
  case (Cons f fs)
  obtain k e p ss where f: "f = (k, e, p, ss)" by (cases f)
  show ?case
  proof (cases "length ss \<le> usize_max")
    case True
    then have "digest_evidence_fact d f = try_fold digest_write d (evidence_fields f)"
      by (simp add: digest_evidence_fact_def f evidence_fields_def digest_field_def
          digest_count_write digest_spans_write)
    with True show ?thesis
      by (simp add: Cons.IH and_then_Inr_iff try_fold_append f) blast
  next
    case False
    then have "\<nexists>m. digest_evidence_fact d f = Inr m"
      by (auto simp: digest_evidence_fact_def f digest_count_write and_then_Inr_iff)
    with False show ?thesis by (auto simp: and_then_Inr_iff f)
  qed
qed

section \<open>Normalisation\<close>

lemma normalized_semantic_run:
  "try_fold (\<lambda>acc f. and_then (validate_semantic_fact f)
      (\<lambda>_. Inr (insert (semantic_fact_key f) acc))) acc facts = Inr keys \<longleftrightarrow>
     (\<forall>f\<in>set facts. validate_semantic_fact f = Inr ()) \<and>
     keys = semantic_fact_key ` set facts \<union> acc"
  by (induction facts arbitrary: acc) (auto simp: and_then_Inr_iff)

lemma normalized_semantic_facts_ok:
  "normalized_semantic_facts facts = Inr keys \<longleftrightarrow>
     (\<forall>f\<in>set facts. validate_semantic_fact f = Inr ()) \<and> keys = semantic_fact_key ` set facts"
  by (simp add: normalized_semantic_facts_def normalized_semantic_run)

lemma insert_span_run:
  "try_fold insert_span acc ss = Inr keys \<Longrightarrow> keys = span_key ` set ss \<union> acc"
  by (induction ss arbitrary: acc) (auto simp: insert_span_def and_then_Inr_iff split: if_splits)

lemma insert_evidence_fact_ok:
  "insert_evidence_fact limits acc f = Inr acc' \<Longrightarrow>
     acc' = insert (evidence_fact_key f) acc \<and> if_spans f \<noteq> []"
  by (auto simp: insert_evidence_fact_def and_then_Inr_iff evidence_fact_key_def Let_def
      dest!: insert_span_run split: if_splits)

lemma normalized_evidence_run:
  "try_fold (insert_evidence_fact limits) acc facts = Inr keys \<Longrightarrow>
     keys = evidence_fact_key ` set facts \<union> acc"
proof (induction facts arbitrary: acc)
  case Nil
  then show ?case by simp
next
  case (Cons f facts)
  then obtain m where "insert_evidence_fact limits acc f = Inr m"
    "try_fold (insert_evidence_fact limits) m facts = Inr keys"
    by (auto simp: and_then_Inr_iff)
  with Cons.IH [of m] insert_evidence_fact_ok [of limits acc f m] show ?case by auto
qed

lemma normalized_evidence_facts_set:
  "normalized_evidence_facts facts limits = Inr keys \<Longrightarrow> keys = evidence_fact_key ` set facts"
  using normalized_evidence_run [of limits "{}" facts keys]
  by (simp add: normalized_evidence_facts_def)

section \<open>The fields each builder writes\<close>

definition pair_fields :: "(string \<times> string) list \<Rightarrow> string list" where
  "pair_fields ps = concat (map (\<lambda>(k, e). [k, e]) ps)"

definition stable_fields :: "string \<Rightarrow> ArchaeologyRuleKind \<Rightarrow> string \<times> string
     \<Rightarrow> (string \<times> string) set \<Rightarrow> string list" where
  "stable_fields r k a keys =
     [STABLE_RULE_TAG, r, rule_kind_name k, fst a, snd a, num_field (card keys)]
     @ pair_fields (sorted_list_of_set keys)"

definition evidence_stream :: "string \<Rightarrow> NormalizedEvidenceFact set \<Rightarrow> string list" where
  "evidence_stream r keys =
     [EVIDENCE_TAG, r, num_field (card keys)]
     @ concat (map evidence_fields (sorted_list_of_set keys))"

definition contradiction_fields :: "string \<Rightarrow> (string \<times> string) set \<Rightarrow> string list" where
  "contradiction_fields r keys =
     [CONTRADICTION_TAG, r, if keys = {} then ''empty-set:v1'' else ''facts:v1'',
      num_field (card keys)] @ pair_fields (sorted_list_of_set keys)"

definition description_fields :: "string \<Rightarrow> string \<Rightarrow> string \<Rightarrow> string list \<Rightarrow> string list" where
  "description_fields r source title clauses =
     [DESCRIPTION_TAG, r, source, title, num_field (length clauses)] @ sort clauses"

definition continuity_fields :: "string \<Rightarrow> string \<Rightarrow> string list" where
  "continuity_fields r sid = [CONTINUITY_TAG, r, sid]"

lemma stable_rule_preimage_ok:
  "stable_rule_preimage r k a s limits = Inr d \<longleftrightarrow>
     validate_repository r = Inr () \<and> validate_fact_count s limits False = Inr () \<and>
     validate_semantic_fact a = Inr () \<and> (\<forall>f\<in>set s. validate_semantic_fact f = Inr ()) \<and>
     semantic_fact_key a \<in> semantic_fact_key ` set s \<and> il_max_identity_bytes limits \<noteq> 0 \<and>
     card (semantic_fact_key ` set s) \<le> usize_max \<and>
     try_fold digest_write (digest_start (il_max_identity_bytes limits))
       (stable_fields r k (semantic_fact_key a) (semantic_fact_key ` set s)) = Inr d"
proof (cases "card (semantic_fact_key ` set s) \<le> usize_max")
  case True
  then show ?thesis
    by (auto simp: stable_rule_preimage_def and_then_Inr_iff normalized_semantic_facts_ok
        digest_new_start digest_field_def digest_count_write digest_pairs_write stable_fields_def
        pair_fields_def split: if_splits)
next
  case False
  then show ?thesis
    by (auto simp: stable_rule_preimage_def and_then_Inr_iff normalized_semantic_facts_ok
        digest_count_write split: if_splits)
qed

lemma evidence_preimage_ok:
  assumes "evidence_preimage r s limits = Inr d"
  shows "normalized_evidence_facts s limits = Inr (evidence_fact_key ` set s) \<and>
     validate_repository r = Inr () \<and> card (evidence_fact_key ` set s) \<le> usize_max \<and>
     (\<forall>f\<in>evidence_fact_key ` set s. length (snd (snd (snd f))) \<le> usize_max) \<and>
     try_fold digest_write (digest_start (il_max_identity_bytes limits))
       (evidence_stream r (evidence_fact_key ` set s)) = Inr d"
proof -
  obtain keys where keys: "normalized_evidence_facts s limits = Inr keys"
    using assms by (auto simp: evidence_preimage_def and_then_Inr_iff)
  then have eq: "keys = evidence_fact_key ` set s" by (rule normalized_evidence_facts_set)
  show ?thesis
    using assms keys unfolding eq
    by (auto simp: evidence_preimage_def and_then_Inr_iff digest_new_start digest_field_def
        digest_count_write digest_evidence_write evidence_stream_def split: if_splits)
qed

lemma contradiction_preimage_ok:
  assumes "contradiction_preimage r s limits = Inr d"
  shows "card (semantic_fact_key ` set s) \<le> usize_max \<and>
     try_fold digest_write (digest_start (il_max_identity_bytes limits))
       (contradiction_fields r (semantic_fact_key ` set s)) = Inr d"
  using assms
  by (auto simp: contradiction_preimage_def and_then_Inr_iff normalized_semantic_facts_ok
      digest_new_start digest_field_def digest_count_write digest_pairs_write
      contradiction_fields_def pair_fields_def split: if_splits)

lemma description_preimage_ok:
  assumes "description_preimage r title clauses source limits = Inr d"
  shows "\<exists>t cs. canonical_text title (il_max_text_bytes limits) = Inr t \<and>
     try_map (\<lambda>c. canonical_text c (il_max_text_bytes limits)) clauses = Inr cs \<and>
     length cs \<le> usize_max \<and>
     try_fold digest_write (digest_start (il_max_identity_bytes limits))
       (description_fields r source t cs) = Inr d"
  using assms
  by (auto simp: description_preimage_def and_then_Inr_iff digest_new_start digest_field_def
      digest_field_eta digest_count_write description_fields_def split: if_splits)

lemma continuity_preimage_ok:
  assumes "continuity_preimage r sid limits = Inr d"
  shows "try_fold digest_write (digest_start (il_max_identity_bytes limits))
       (continuity_fields r sid) = Inr d"
  using assms
  by (auto simp: continuity_preimage_def and_then_Inr_iff digest_new_start digest_field_def
      continuity_fields_def split: if_splits)

section \<open>What a preimage determines\<close>

lemma builder_run:
  assumes "try_fold digest_write (digest_start m) fs = Inr d"
  shows "dg_input d = frame fs" "dg_bytes d = length (dg_input d)"
    "\<forall>f\<in>set fs. len f \<le> usize_max" "fs \<noteq> [] \<longrightarrow> dg_bytes d \<le> m"
  using digest_writes [OF assms] by (auto simp: digest_start_def)

lemma same_input_fields:
  assumes "try_fold digest_write (digest_start m) fs = Inr d"
    "try_fold digest_write (digest_start n) gs = Inr e"
  shows "dg_input d = dg_input e \<longleftrightarrow> fs = gs"
  using builder_run [OF assms(1)] builder_run [OF assms(2)] frame_inj [of fs gs] by auto

lemma rule_kind_name_inj: "rule_kind_name k = rule_kind_name k' \<longleftrightarrow> k = k'"
  by (cases k; cases k') (simp_all add: rule_kind_name_def)

lemma fact_kind_name_inj: "fact_kind_name k = fact_kind_name k' \<longleftrightarrow> k = k'"
  by (cases k; cases k') (simp_all add: fact_kind_name_def)

lemma pair_fields_inj: "pair_fields ps = pair_fields qs \<longleftrightarrow> ps = qs"
  by (induction ps arbitrary: qs)
    (case_tac qs; auto simp: pair_fields_def split: prod.splits)+

lemma stable_fields_eq:
  assumes "card K \<le> usize_max" "card L \<le> usize_max" "finite K" "finite L"
  shows "stable_fields r k a K = stable_fields r' k' a' L \<longleftrightarrow>
     r = r' \<and> k = k' \<and> a = a' \<and> K = L"
  using assms sorted_list_of_set_inject [of K L]
  by (auto simp: stable_fields_def rule_kind_name_inj pair_fields_inj prod_eq_iff)

lemma num_field_unat: "num_field (unat a) = num_field (unat b) \<longleftrightarrow> a = (b :: u64)"
  using num_field_inj [of "unat a" "unat b"] by (auto simp: word_unat_eq_iff)

lemma span_fields_eq: "span_fields s = span_fields t \<longleftrightarrow> s = t"
  by (auto simp: span_fields_def num_field_unat split: prod.splits)

lemma length_span_fields [simp]: "length (span_fields s) = 4"
  by (simp add: span_fields_def split: prod.splits)

lemma concat_spans_inj:
  "length ss = length ts \<Longrightarrow>
   concat (map span_fields ss) @ xs = concat (map span_fields ts) @ ys \<longleftrightarrow> ss = ts \<and> xs = ys"
  by (induction ss ts rule: list_induct2) (auto simp: span_fields_eq)

lemma concat_evidence_inj:
  assumes "\<forall>f\<in>set fs. length (snd (snd (snd f))) \<le> usize_max"
    "\<forall>f\<in>set gs. length (snd (snd (snd f))) \<le> usize_max"
    "concat (map evidence_fields fs) = concat (map evidence_fields gs)"
  shows "fs = gs"
  using assms
proof (induction fs arbitrary: gs)
  case Nil
  then show ?case by (cases gs) (auto simp: evidence_fields_def split: prod.splits)
next
  case (Cons f fs)
  then obtain g gs' where gs: "gs = g # gs'"
    by (cases gs) (auto simp: evidence_fields_def split: prod.splits)
  obtain k e p ss where f: "f = (k, e, p, ss)" by (cases f)
  obtain k' e' p' ts where g: "g = (k', e', p', ts)" by (cases g)
  have eqs: "k = k'" "e = e'" "p = p'" "num_field (length ss) = num_field (length ts)"
    "concat (map span_fields ss) @ concat (map evidence_fields fs) =
     concat (map span_fields ts) @ concat (map evidence_fields gs')"
    using Cons.prems(3) by (simp_all add: gs f g evidence_fields_tuple)
  have "length ss = length ts"
    using Cons.prems(1,2) eqs(4) by (intro num_field_inj) (simp_all add: gs f g)
  with eqs(5) have "ss = ts" "concat (map evidence_fields fs) = concat (map evidence_fields gs')"
    by (simp_all add: concat_spans_inj)
  moreover have "fs = gs'" using Cons.IH [of gs'] Cons.prems(1,2) calculation(2) by (simp add: gs)
  ultimately show ?case using eqs by (simp add: gs f g)
qed

lemma evidence_stream_eq:
  assumes "card K \<le> usize_max" "card L \<le> usize_max" "finite K" "finite L"
    "\<forall>f\<in>K. length (snd (snd (snd f))) \<le> usize_max"
    "\<forall>f\<in>L. length (snd (snd (snd f))) \<le> usize_max"
  shows "evidence_stream r K = evidence_stream r' L \<longleftrightarrow> r = r' \<and> K = L"
  using assms sorted_list_of_set_inject [of K L]
    concat_evidence_inj [of "sorted_list_of_set K" "sorted_list_of_set L"]
  by (auto simp: evidence_stream_def)

section \<open>What an identity depends on\<close>

text \<open>C3. Two accepted stable-rule identities hash the same bytes if and only if the repository,
  the rule kind, the semantic key of the anchor and the set of semantic keys of the supporting facts
  are the same: the length-framed encoding is injective, so no two different rules share a preimage.\<close>

theorem stable_rule_preimage_iff:
  assumes "stable_rule_preimage r k a s limits = Inr d"
    "stable_rule_preimage r' k' a' s' limits' = Inr d'"
  shows "dg_input d = dg_input d' \<longleftrightarrow>
     r = r' \<and> k = k' \<and> semantic_fact_key a = semantic_fact_key a' \<and>
     semantic_fact_key ` set s = semantic_fact_key ` set s'"
proof -
  let ?K = "semantic_fact_key ` set s" and ?L = "semantic_fact_key ` set s'"
  note run = assms [unfolded stable_rule_preimage_ok]
  have "dg_input d = dg_input d' \<longleftrightarrow>
      stable_fields r k (semantic_fact_key a) ?K = stable_fields r' k' (semantic_fact_key a') ?L"
    by (rule same_input_fields) (use run in blast)+
  also have "\<dots> \<longleftrightarrow> r = r' \<and> k = k' \<and> semantic_fact_key a = semantic_fact_key a' \<and> ?K = ?L"
    by (rule stable_fields_eq) (use run in \<open>blast intro: finite_imageI finite_set\<close>)+
  finally show ?thesis .
qed

text \<open>Two accepted evidence identities hash the same bytes if and only if the repository and
  the set of normalised facts (kind, expression, parser and the sorted spans of each) are the same,
  whatever the order in which facts and spans were supplied.\<close>

theorem evidence_preimage_iff:
  assumes "evidence_preimage r s limits = Inr d" "evidence_preimage r' s' limits' = Inr d'"
  shows "dg_input d = dg_input d' \<longleftrightarrow>
     r = r' \<and> evidence_fact_key ` set s = evidence_fact_key ` set s'"
proof -
  let ?K = "evidence_fact_key ` set s" and ?L = "evidence_fact_key ` set s'"
  note run = evidence_preimage_ok [OF assms(1)] and run' = evidence_preimage_ok [OF assms(2)]
  have "dg_input d = dg_input d' \<longleftrightarrow> evidence_stream r ?K = evidence_stream r' ?L"
    by (rule same_input_fields) (use run run' in blast)+
  also have "\<dots> \<longleftrightarrow> r = r' \<and> ?K = ?L"
    by (rule evidence_stream_eq) (use run run' in \<open>blast intro: finite_imageI finite_set\<close>)+
  finally show ?thesis .
qed

lemma validated_semantic_fact_cong:
  "if_semantic_expression f = if_semantic_expression g \<Longrightarrow>
     validate_semantic_fact f = validate_semantic_fact g"
  by (simp add: validate_semantic_fact_def)

lemma semantic_facts_valid_cong:
  assumes "semantic_fact_key ` set s = semantic_fact_key ` set s'"
  shows "(\<forall>f\<in>set s. validate_semantic_fact f = Inr ()) \<longleftrightarrow>
     (\<forall>f\<in>set s'. validate_semantic_fact f = Inr ())"
proof -
  have "(\<forall>f\<in>set s. validate_semantic_fact f = Inr ()) \<longleftrightarrow>
     (\<forall>x\<in>semantic_fact_key ` set s.
        starts_with (snd x) ''v1:sha256:'' \<and> lower_hex (drop 10 (snd x)) 64)" for s
    by (auto simp: validate_semantic_fact_def semantic_fact_key_def)
  with assms show ?thesis by metis
qed

lemma validate_semantic_fact_error: "validate_semantic_fact f = Inl e \<Longrightarrow> e = SemanticExpressionInvalid"
  by (simp add: validate_semantic_fact_def split: if_splits)

lemma normalized_semantic_run_error:
  "try_fold (\<lambda>acc f. and_then (validate_semantic_fact f)
      (\<lambda>_. Inr (insert (semantic_fact_key f) acc))) acc facts = Inl e \<Longrightarrow>
    e = SemanticExpressionInvalid"
  by (induction facts arbitrary: acc)
    (auto simp: and_then_Inl_iff dest: validate_semantic_fact_error)

lemma normalized_semantic_facts_cong:
  assumes "semantic_fact_key ` set s = semantic_fact_key ` set s'"
  shows "normalized_semantic_facts s = normalized_semantic_facts s'"
proof (cases "normalized_semantic_facts s")
  case (Inr keys)
  then have "normalized_semantic_facts s' = Inr keys"
    using assms semantic_facts_valid_cong [OF assms] by (simp add: normalized_semantic_facts_ok)
  with Inr show ?thesis by simp
next
  case (Inl e)
  have "normalized_semantic_facts s' \<noteq> Inr keys" for keys
  proof
    assume "normalized_semantic_facts s' = Inr keys"
    then have "normalized_semantic_facts s = Inr (semantic_fact_key ` set s)"
      using semantic_facts_valid_cong [OF assms] by (simp add: normalized_semantic_facts_ok)
    with Inl show False by simp
  qed
  then obtain e' where e': "normalized_semantic_facts s' = Inl e'"
    by (cases "normalized_semantic_facts s'") auto
  have "e = SemanticExpressionInvalid" "e' = SemanticExpressionInvalid"
    by (rule normalized_semantic_run_error, rule Inl [unfolded normalized_semantic_facts_def],
        rule normalized_semantic_run_error, rule e' [unfolded normalized_semantic_facts_def])
  with Inl e' show ?thesis by simp
qed

text \<open>A stable rule identity depends only on the semantic keys: facts may be reordered,
  repeated, re-parsed by another parser or moved to other spans, and the outcome, errors included,
  stays the same.\<close>

theorem stable_rule_identity_semantic_only:
  assumes "semantic_fact_key a = semantic_fact_key a'"
    "semantic_fact_key ` set s = semantic_fact_key ` set s'"
    "length s \<le> il_max_facts limits" "length s' \<le> il_max_facts limits"
  shows "stable_rule_identity sha256 r k a s limits = stable_rule_identity sha256 r k a' s' limits"
proof -
  have "validate_fact_count s limits False = validate_fact_count s' limits False"
    using assms(2-4) by (auto simp: validate_fact_count_def)
  moreover have "validate_semantic_fact a = validate_semantic_fact a'"
    using assms(1) by (intro validated_semantic_fact_cong) (simp add: semantic_fact_key_def)
  ultimately show ?thesis
    using assms(1) normalized_semantic_facts_cong [OF assms(2)]
    by (simp add: stable_rule_identity_def stable_rule_preimage_def cong: if_cong)
qed

lemmas identity_tags = STABLE_RULE_TAG_def EVIDENCE_TAG_def CONTRADICTION_TAG_def
  DESCRIPTION_TAG_def CONTINUITY_TAG_def

lemmas builder_fields = stable_fields_def evidence_stream_def contradiction_fields_def
  description_fields_def continuity_fields_def

lemma preimage_streams:
  "stable_rule_preimage r k a s limits = Inr d \<Longrightarrow>
     \<exists>fs. try_fold digest_write (digest_start (il_max_identity_bytes limits))
       (STABLE_RULE_TAG # fs) = Inr d"
  "evidence_preimage r s limits = Inr d \<Longrightarrow>
     \<exists>fs. try_fold digest_write (digest_start (il_max_identity_bytes limits))
       (EVIDENCE_TAG # fs) = Inr d"
  "contradiction_preimage r s limits = Inr d \<Longrightarrow>
     \<exists>fs. try_fold digest_write (digest_start (il_max_identity_bytes limits))
       (CONTRADICTION_TAG # fs) = Inr d"
  "description_preimage r title clauses source limits = Inr d \<Longrightarrow>
     \<exists>fs. try_fold digest_write (digest_start (il_max_identity_bytes limits))
       (DESCRIPTION_TAG # fs) = Inr d"
  "continuity_preimage r sid limits = Inr d \<Longrightarrow>
     \<exists>fs. try_fold digest_write (digest_start (il_max_identity_bytes limits))
       (CONTINUITY_TAG # fs) = Inr d"
proof -
  show "stable_rule_preimage r k a s limits = Inr d \<Longrightarrow>
     \<exists>fs. try_fold digest_write (digest_start (il_max_identity_bytes limits))
       (STABLE_RULE_TAG # fs) = Inr d"
    unfolding stable_rule_preimage_ok stable_fields_def append_Cons by blast
  show "evidence_preimage r s limits = Inr d \<Longrightarrow>
     \<exists>fs. try_fold digest_write (digest_start (il_max_identity_bytes limits))
       (EVIDENCE_TAG # fs) = Inr d"
    by (drule evidence_preimage_ok, unfold evidence_stream_def append_Cons) blast
  show "contradiction_preimage r s limits = Inr d \<Longrightarrow>
     \<exists>fs. try_fold digest_write (digest_start (il_max_identity_bytes limits))
       (CONTRADICTION_TAG # fs) = Inr d"
    by (drule contradiction_preimage_ok, unfold contradiction_fields_def append_Cons) blast
  show "description_preimage r title clauses source limits = Inr d \<Longrightarrow>
     \<exists>fs. try_fold digest_write (digest_start (il_max_identity_bytes limits))
       (DESCRIPTION_TAG # fs) = Inr d"
    by (drule description_preimage_ok, unfold description_fields_def append_Cons) blast
  show "continuity_preimage r sid limits = Inr d \<Longrightarrow>
     \<exists>fs. try_fold digest_write (digest_start (il_max_identity_bytes limits))
       (CONTINUITY_TAG # fs) = Inr d"
    by (drule continuity_preimage_ok, unfold continuity_fields_def) blast
qed

text \<open>The five identities of a rule never share a preimage, and no builder feeds the hash more
  bytes than the configured bound, which is exactly what its byte counter says.\<close>

theorem preimages_separated_and_bounded:
  assumes "stable_rule_preimage r1 k a s1 limits = Inr d1"
    "evidence_preimage r2 s2 limits = Inr d2"
    "contradiction_preimage r3 s3 limits = Inr d3"
    "description_preimage r4 title clauses source limits = Inr d4"
    "continuity_preimage r5 sid limits = Inr d5"
  shows "distinct (map dg_input [d1, d2, d3, d4, d5]) \<and>
     (\<forall>d\<in>{d1, d2, d3, d4, d5}.
        length (dg_input d) = dg_bytes d \<and> dg_bytes d \<le> il_max_identity_bytes limits)"
proof -
  obtain f1 f2 f3 f4 f5 where runs:
    "try_fold digest_write (digest_start (il_max_identity_bytes limits)) (STABLE_RULE_TAG # f1) = Inr d1"
    "try_fold digest_write (digest_start (il_max_identity_bytes limits)) (EVIDENCE_TAG # f2) = Inr d2"
    "try_fold digest_write (digest_start (il_max_identity_bytes limits)) (CONTRADICTION_TAG # f3) = Inr d3"
    "try_fold digest_write (digest_start (il_max_identity_bytes limits)) (DESCRIPTION_TAG # f4) = Inr d4"
    "try_fold digest_write (digest_start (il_max_identity_bytes limits)) (CONTINUITY_TAG # f5) = Inr d5"
    using assms preimage_streams by meson
  have "\<And>m f fs d. try_fold digest_write (digest_start m) (f # fs) = Inr d \<Longrightarrow>
      length (dg_input d) = dg_bytes d \<and> dg_bytes d \<le> m"
    using builder_run(2,4) by fastforce
  with runs have "\<forall>d\<in>{d1, d2, d3, d4, d5}.
      length (dg_input d) = dg_bytes d \<and> dg_bytes d \<le> il_max_identity_bytes limits"
    by blast
  moreover have "distinct (map dg_input [d1, d2, d3, d4, d5])"
    using runs(1,2,3,4,5) [THEN same_input_fields]
    by (simp only: list.map distinct.simps list.set insert_iff empty_iff runs
        same_input_fields [OF runs(1) runs(2)] same_input_fields [OF runs(1) runs(3)]
        same_input_fields [OF runs(1) runs(4)] same_input_fields [OF runs(1) runs(5)]
        same_input_fields [OF runs(2) runs(3)] same_input_fields [OF runs(2) runs(4)]
        same_input_fields [OF runs(2) runs(5)] same_input_fields [OF runs(3) runs(4)]
        same_input_fields [OF runs(3) runs(5)] same_input_fields [OF runs(4) runs(5)])
      (simp add: identity_tags)
  ultimately show ?thesis by blast
qed

lemma lower_hex_digit: "n < 16 \<Longrightarrow> lower_hex_byte (hex_digit n)"
  by (cases "n < 10") (auto simp: hex_digit_def lower_hex_byte_def is_ascii_hexdigit_def is_ascii_uppercase_def
        is_ascii_digit_def of_char_of)

lemma lower_hex_hex: "length bs = 32 \<Longrightarrow> lower_hex (hex bs) 64"
proof -
  have "byte b div 16 < 16" for b :: char
    using mod_less_divisor [of 256 "byte b"] by (simp add: less_mult_imp_div_less)
  then have "list_all lower_hex_byte (hex bs)" for bs
    by (induction bs) (auto simp: hex_def intro: lower_hex_digit)
  moreover have "length (hex bs) = 2 * length bs" for bs by (induction bs) (simp_all add: hex_def)
  ultimately show "length bs = 32 \<Longrightarrow> lower_hex (hex bs) 64" by (simp add: lower_hex_def)
qed

lemma stable_identity_is_digest:
  assumes "\<forall>x. length (sha256 x) = 32" "stable_rule_identity sha256 r k a s limits = Inr sid"
  shows "validate_digest_identity sid = Inr () \<and> validate_repository r = Inr ()"
  using assms lower_hex_hex
  by (auto simp: stable_rule_identity_def and_then_Inr_iff digest_finish_def
      validate_digest_identity_def stable_rule_preimage_ok)

lemma digest_writes_fit:
  assumes "dg_bytes d + length (frame fs) \<le> dg_max_bytes d"
    "dg_bytes d + length (frame fs) \<le> usize_max"
  shows "\<exists>d'. try_fold digest_write d fs = Inr d'"
  using assms
proof (induction fs arbitrary: d)
  case Nil
  then show ?case by simp
next
  case (Cons f fs)
  then show ?case by (simp add: digest_write_def)
qed

lemma semantic_expression_length:
  "validate_semantic_fact a = Inr () \<Longrightarrow> length (if_semantic_expression a) = 74"
  by (auto simp: validate_semantic_fact_def lower_hex_def starts_with_iff split: if_splits)

lemma digest_writes_fit_iff:
  assumes "try_fold digest_write (digest_start m) fs = Inr d" "fs \<noteq> []"
  shows "length (frame fs) \<le> m \<and> length (frame fs) \<le> usize_max"
  using assms
proof -
  have "\<And>d fs. try_fold digest_write d fs = Inr d' \<Longrightarrow> dg_bytes d \<le> usize_max \<Longrightarrow> dg_bytes d' \<le> usize_max" for d'
  proof -
    fix d fs assume r: "try_fold digest_write d fs = Inr d'" "dg_bytes d \<le> usize_max"
    show "dg_bytes d' \<le> usize_max"
      by (rule try_fold_invariant [where I = "\<lambda>d. dg_bytes d \<le> usize_max", OF _ r(2,1)])
        (auto simp: digest_write_def split: if_splits)
  qed
  from this [OF assms(1)] have "dg_bytes d \<le> usize_max" by (simp add: digest_start_def)
  with builder_run [OF assms(1)] assms(2) show ?thesis by simp
qed

text \<open>The continuity identity of a rule whose stable identity was built always exists: the
  digest it re-validates has the shape it asks for, and its shorter stream fits the byte bound that
  the stable identity fitted. The hash is only assumed to return 32 bytes.\<close>

theorem continuity_identity_total:
  assumes "\<forall>x. length (sha256 x) = 32" "stable_rule_identity sha256 r k a s limits = Inr sid"
  shows "\<exists>c. continuity_identity sha256 r sid limits = Inr c"
proof -
  obtain d where d: "stable_rule_preimage r k a s limits = Inr d"
    using assms(2) by (auto simp: stable_rule_identity_def and_then_Inr_iff)
  note run = d [unfolded stable_rule_preimage_ok]
  let ?m = "il_max_identity_bytes limits"
  let ?fs = "stable_fields r k (semantic_fact_key a) (semantic_fact_key ` set s)"
  have ok: "validate_digest_identity sid = Inr ()" "validate_repository r = Inr ()"
    using stable_identity_is_digest [OF assms] by blast+
  have "length sid = 71"
    using ok(1) by (auto simp: validate_digest_identity_def lower_hex_def starts_with_iff split: if_splits)
  moreover have "length (if_semantic_expression a) = 74"
    using run by (intro semantic_expression_length) blast
  ultimately have "length (frame (continuity_fields r sid)) \<le> length (frame ?fs)"
    by (simp add: continuity_fields_def stable_fields_def identity_tags semantic_fact_key_def
        num_field_def)
  moreover have "length (frame ?fs) \<le> ?m \<and> length (frame ?fs) \<le> usize_max"
    by (rule digest_writes_fit_iff) (use run in \<open>auto simp: stable_fields_def\<close>)
  ultimately obtain d' where
    "try_fold digest_write (digest_start ?m) (continuity_fields r sid) = Inr d'"
    using digest_writes_fit [of "digest_start ?m" "continuity_fields r sid"]
    by (auto simp: digest_start_def)
  moreover have "?m \<noteq> 0" using run by blast
  ultimately show ?thesis
    using ok by (auto simp: continuity_identity_def continuity_preimage_def digest_new_start
        digest_field_eta continuity_fields_def
        and_then_Inr_iff)
qed

section \<open>Witnesses\<close>

text \<open>One small fact whose expression and content hash are sixty-four equal digits.\<close>

definition sample_fact :: "char \<Rightarrow> ArchaeologyIdentityFact" where
  "sample_fact c = \<lparr>if_kind = Fact_Predicate, if_semantic_expression = ''v1:sha256:'' @ replicate 64 c,
     if_parser_identity = ''p'',
     if_spans = [\<lparr>is_path_identity = ''x'', is_content_hash = replicate 64 CHR ''a'',
       is_start_byte = 1, is_end_byte = 2\<rparr>]\<rparr>"

lemma sample_fact_valid [simp]:
  "validate_semantic_fact (sample_fact CHR ''a'') = Inr ()"
  "semantic_fact_key (sample_fact c) = (''predicate'', ''v1:sha256:'' @ replicate 64 c)"
  "evidence_fact_key (sample_fact c) =
     (''predicate'', ''v1:sha256:'' @ replicate 64 c, ''p'', [(''x'', replicate 64 CHR ''a'', 1, 2)])"
  by (simp_all add: sample_fact_def validate_semantic_fact_def lower_hex_def list_all_iff
      lower_hex_byte_def text_eval semantic_fact_key_def fact_kind_name_def evidence_fact_key_def
      span_key_def)

lemmas identity_eval = text_eval and_then_Inr_iff digest_new_def digest_field_def digest_write_def
  digest_count_def digest_number_def usize_max_def identity_tags identity_limits_default_def
  validate_repository_def validate_component_def validate_fact_count_def 

lemma sample_stable:
  "\<exists>d. stable_rule_preimage ''r'' Rule_Validation (sample_fact CHR ''a'') [sample_fact CHR ''a'']
     identity_limits_default = Inr d"
  by (simp add: stable_rule_preimage_def normalized_semantic_facts_def identity_eval
      rule_kind_name_def digest_pairs_def)

lemma sample_evidence:
  "r \<in> {CHR ''r'', CHR ''s''} \<Longrightarrow> \<exists>d. evidence_preimage [r] [sample_fact CHR ''a''] identity_limits_default = Inr d"
proof -
  have "normalized_evidence_facts [sample_fact CHR ''a''] identity_limits_default =
      Inr {(''predicate'', ''v1:sha256:'' @ replicate 64 CHR ''a'', ''p'', [(''x'', replicate 64 CHR ''a'', 1, 2)])}"
    using sample_fact_valid(1)
    by (simp add: normalized_evidence_facts_def insert_evidence_fact_def sample_fact_def insert_span_def
        lower_hex_def list_all_iff lower_hex_byte_def fact_kind_name_def span_key_def identity_eval)
  then show "r \<in> {CHR ''r'', CHR ''s''} \<Longrightarrow> \<exists>d. evidence_preimage [r] [sample_fact CHR ''a''] identity_limits_default = Inr d"
    by (elim insertE emptyE) (simp_all add: evidence_preimage_def digest_evidence_fact_def digest_span_def identity_eval)
qed

lemma sample_contradiction:
  "\<exists>d. contradiction_preimage ''r'' [] identity_limits_default = Inr d"
  by (simp add: contradiction_preimage_def normalized_semantic_facts_def identity_eval digest_pairs_def)

lemma sample_description:
  "\<exists>d. description_preimage ''r'' ''a b'' [''c''] ''s'' identity_limits_default = Inr d"
  by (simp add: description_preimage_def canonical_text_def identity_eval)

lemma sample_continuity:
  "\<exists>d. continuity_preimage ''r'' (''sha256:'' @ replicate 64 CHR ''a'') identity_limits_default = Inr d"
  by (simp add: continuity_preimage_def validate_digest_identity_def lower_hex_def list_all_iff lower_hex_byte_def identity_eval)

theorem stable_rule_preimage_iff_witness:
  "\<exists>d d'. stable_rule_preimage ''r'' Rule_Validation (sample_fact CHR ''a'') [sample_fact CHR ''a'']
      identity_limits_default = Inr d \<and>
    stable_rule_preimage ''r'' Rule_Validation (sample_fact CHR ''a'')
      [sample_fact CHR ''a'', sample_fact CHR ''a''] identity_limits_default = Inr d' \<and>
    dg_input d = dg_input d'"
proof -
  have "\<exists>d. stable_rule_preimage ''r'' Rule_Validation (sample_fact CHR ''a'')
      [sample_fact CHR ''a'', sample_fact CHR ''a''] identity_limits_default = Inr d"
    by (simp add: stable_rule_preimage_def normalized_semantic_facts_def identity_eval
      rule_kind_name_def digest_pairs_def)
  with sample_stable obtain d d' where
    "stable_rule_preimage ''r'' Rule_Validation (sample_fact CHR ''a'') [sample_fact CHR ''a'']
      identity_limits_default = Inr d"
    "stable_rule_preimage ''r'' Rule_Validation (sample_fact CHR ''a'')
      [sample_fact CHR ''a'', sample_fact CHR ''a''] identity_limits_default = Inr d'" by blast
  with stable_rule_preimage_iff [OF this] show ?thesis by auto
qed

theorem evidence_preimage_iff_witness:
  "\<exists>d d'. evidence_preimage ''r'' [sample_fact CHR ''a''] identity_limits_default = Inr d \<and>
    evidence_preimage ''s'' [sample_fact CHR ''a''] identity_limits_default = Inr d' \<and>
    dg_input d \<noteq> dg_input d'"
proof -
  obtain d d' where "evidence_preimage ''r'' [sample_fact CHR ''a''] identity_limits_default = Inr d"
    "evidence_preimage ''s'' [sample_fact CHR ''a''] identity_limits_default = Inr d'"
    using sample_evidence [of "CHR ''r''"] sample_evidence [of "CHR ''s''"] by auto
  with evidence_preimage_iff [OF this] show ?thesis by auto
qed

theorem stable_rule_identity_semantic_only_witness:
  "stable_rule_identity (\<lambda>x. x) ''r'' Rule_Routing (sample_fact CHR ''a'')
     [sample_fact CHR ''a'', sample_fact CHR ''b''] identity_limits_default =
   stable_rule_identity (\<lambda>x. x) ''r'' Rule_Routing ((sample_fact CHR ''a'')\<lparr>if_parser_identity := ''q''\<rparr>)
     [sample_fact CHR ''b'', sample_fact CHR ''a'', sample_fact CHR ''b''] identity_limits_default"
  by (rule stable_rule_identity_semantic_only)
    (auto simp: identity_limits_default_def semantic_fact_key_def sample_fact_def)

theorem preimages_separated_and_bounded_witness:
  "\<exists>d1 d2 d3 d4 d5.
    stable_rule_preimage ''r'' Rule_Validation (sample_fact CHR ''a'') [sample_fact CHR ''a'']
      identity_limits_default = Inr d1 \<and>
    evidence_preimage ''r'' [sample_fact CHR ''a''] identity_limits_default = Inr d2 \<and>
    contradiction_preimage ''r'' [] identity_limits_default = Inr d3 \<and>
    description_preimage ''r'' ''a b'' [''c''] ''s'' identity_limits_default = Inr d4 \<and>
    continuity_preimage ''r'' (''sha256:'' @ replicate 64 CHR ''a'') identity_limits_default = Inr d5 \<and>
    distinct (map dg_input [d1, d2, d3, d4, d5])"
proof -
  obtain d1 d2 d3 d4 d5 where
    "stable_rule_preimage ''r'' Rule_Validation (sample_fact CHR ''a'') [sample_fact CHR ''a'']
      identity_limits_default = Inr d1"
    "evidence_preimage ''r'' [sample_fact CHR ''a''] identity_limits_default = Inr d2"
    "contradiction_preimage ''r'' [] identity_limits_default = Inr d3"
    "description_preimage ''r'' ''a b'' [''c''] ''s'' identity_limits_default = Inr d4"
    "continuity_preimage ''r'' (''sha256:'' @ replicate 64 CHR ''a'') identity_limits_default = Inr d5"
    using sample_stable sample_evidence [of "CHR ''r''"] sample_contradiction sample_description sample_continuity
    by auto
  with preimages_separated_and_bounded [OF this] show ?thesis by blast
qed

theorem continuity_identity_total_witness:
  "\<exists>sid c. stable_rule_identity (\<lambda>x. replicate 32 CHR ''x'') ''r'' Rule_Validation
      (sample_fact CHR ''a'') [sample_fact CHR ''a''] identity_limits_default = Inr sid \<and>
    continuity_identity (\<lambda>x. replicate 32 CHR ''x'') ''r'' sid identity_limits_default = Inr c"
proof -
  obtain sid where sid: "stable_rule_identity (\<lambda>x. replicate 32 CHR ''x'') ''r'' Rule_Validation
      (sample_fact CHR ''a'') [sample_fact CHR ''a''] identity_limits_default = Inr sid"
    using sample_stable by (auto simp: stable_rule_identity_def)
  have "\<exists>c. continuity_identity (\<lambda>x. replicate 32 CHR ''x'') ''r'' sid identity_limits_default = Inr c"
    by (rule continuity_identity_total [OF _ sid]) simp
  with sid show ?thesis by blast
qed

end
