(* ===== verification/Ordered_Map.thy ===== *)
theory Ordered_Map
  imports Prelude
begin

text \<open>
  The contract of Rust's \<open>BTreeMap\<close> the modelled code relies on: \<open>get\<close> after \<open>insert\<close>, and an
  iteration that lists each key once in ascending order. The locale \<open>ordered_map\<close> states it and
  derives what its clients use (the listing is canonical, a fresh insertion adds one entry, a loop
  of insertions builds the map of its pairs); the interpretation \<open>btree\<close> gives it for the map as
  the sorted list of its entries, which is the model used by the components.
\<close>

locale ordered_map =
  fixes lookup :: "'m \<Rightarrow> 'k::linorder \<Rightarrow> 'v option"
    and update :: "'k \<Rightarrow> 'v \<Rightarrow> 'm \<Rightarrow> 'm"
    and entries :: "'m \<Rightarrow> ('k \<times> 'v) list"
    and inv :: "'m \<Rightarrow> bool"
  assumes update_inv: "inv m \<Longrightarrow> inv (update k v m)"
    and lookup_update: "inv m \<Longrightarrow> lookup (update k v m) = (lookup m)(k \<mapsto> v)"
    and entries_sorted: "inv m \<Longrightarrow> sorted_wrt (<) (map fst (entries m))"
    and lookup_entries: "inv m \<Longrightarrow> lookup m = map_of (entries m)"
begin

lemma entries_distinct: "inv m \<Longrightarrow> distinct (map fst (entries m))"
  using entries_sorted [of m] strict_sorted_iff by blast

lemma entry_iff: "inv m \<Longrightarrow> (k, v) \<in> set (entries m) \<longleftrightarrow> lookup m k = Some v"
  using entries_distinct [of m] by (simp add: lookup_entries)

lemma keys_dom: "inv m \<Longrightarrow> fst ` set (entries m) = dom (lookup m)"
  by (simp add: lookup_entries dom_map_of_conv_image_fst)

lemma keys_sorted_list: "inv m \<Longrightarrow> map fst (entries m) = sorted_list_of_set (dom (lookup m))"
  using entries_sorted [of m] keys_dom [of m]
  by (metis distinct_remdups_id list.set_map sorted_list_of_set_sort_remdups sorted_sort_id
      strict_sorted_iff)

lemma length_entries: "inv m \<Longrightarrow> length (entries m) = card (dom (lookup m))"
  using keys_dom [of m] distinct_card [OF entries_distinct [of m]] by simp

lemma length_update:
  assumes "inv m"
  shows "length (entries (update k v m)) =
     (if lookup m k = None then Suc (length (entries m)) else length (entries m))"
proof -
  have "finite (dom (lookup m))" using assms keys_dom [of m] by (metis List.finite_set finite_imageI)
  then show ?thesis
    using assms length_entries [OF assms] length_entries [OF update_inv [OF assms], of k v]
    by (auto simp: lookup_update [OF assms] insert_absorb domIff dom_def [symmetric])
qed

lemma entries_canonical:
  assumes "inv m" "inv n" "lookup m = lookup n"
  shows "entries m = entries n"
proof (rule map_sorted_distinct_set_unique [of fst])
  show "inj_on fst (set (entries m) \<union> set (entries n))"
    using assms(3) by (auto simp: inj_on_def entry_iff [OF assms(1)] entry_iff [OF assms(2)])
  show "set (entries m) = set (entries n)"
    using assms(3) by (auto simp: entry_iff [OF assms(1)] entry_iff [OF assms(2)])
qed (use assms entries_sorted entries_distinct in \<open>simp_all add: strict_sorted_iff\<close>)

end

section \<open>The map as its sorted entries\<close>

type_synonym ('k, 'v) btree_map = "('k \<times> 'v) list"

fun bt_insert :: "'k::linorder \<Rightarrow> 'v \<Rightarrow> ('k, 'v) btree_map \<Rightarrow> ('k, 'v) btree_map" where
  "bt_insert k v [] = [(k, v)]"
| "bt_insert k v ((k', v') # m) =
     (if k < k' then (k, v) # (k', v') # m
      else if k = k' then (k, v) # m
      else (k', v') # bt_insert k v m)"

definition bt_ok :: "('k::linorder, 'v) btree_map \<Rightarrow> bool" where
  "bt_ok m \<longleftrightarrow> sorted_wrt (<) (map fst m)"

lemma map_of_bt_insert [simp]: "map_of (bt_insert k v m) = (map_of m)(k \<mapsto> v)"
  by (induction k v m rule: bt_insert.induct) auto

lemma keys_bt_insert [simp]: "fst ` set (bt_insert k v m) = insert k (fst ` set m)"
  by (induction k v m rule: bt_insert.induct) auto

lemma bt_ok_insert [intro]: "bt_ok m \<Longrightarrow> bt_ok (bt_insert k v m)"
  by (induction k v m rule: bt_insert.induct) (auto simp: bt_ok_def)

lemma bt_ok_Nil [simp]: "bt_ok []"
  by (simp add: bt_ok_def)

interpretation btree: ordered_map map_of bt_insert "\<lambda>m. m" bt_ok
  by unfold_locales (auto simp: bt_ok_def [symmetric] bt_ok_insert)

end
