(* ===== verification/Invalidation.thy ===== *)
theory Invalidation
  imports Contracts Ordered_Map
begin

text \<open>
  Incremental refresh planning (\<open>commands/business_rule_archaeology/invalidation.rs\<close>): the
  bounded reverse-dependency closure of the changed paths and the classification of generation
  input drift. The cancellation flag is shared with other threads, so it is the parameter
  \<open>cancel\<close>: the answer the flag gives at the n-th poll; the state counts the polls. The worklist
  loop is a total function, its measure is the total depth that is still to be gained plus the
  length of the queue.
\<close>

section \<open>Data and limits\<close>

datatype ArchaeologySourceDependencyKind =
  Dep_Include | Dep_Copybook | Dep_Macro | Dep_Symbol | Dep_Call | Dep_Data | Dep_Rule

fun dep_rank :: "ArchaeologySourceDependencyKind \<Rightarrow> nat" where
  "dep_rank Dep_Include = 0"
| "dep_rank Dep_Copybook = 1"
| "dep_rank Dep_Macro = 2"
| "dep_rank Dep_Symbol = 3"
| "dep_rank Dep_Call = 4"
| "dep_rank Dep_Data = 5"
| "dep_rank Dep_Rule = 6"

lemma dep_rank_inj: "dep_rank a = dep_rank b \<longleftrightarrow> a = b"
  by (cases a; cases b) simp_all

text \<open>The derived \<open>Ord\<close> of a field-less enum is its declaration order.\<close>

instantiation ArchaeologySourceDependencyKind :: linorder
begin

definition less_eq_ArchaeologySourceDependencyKind ::
  "ArchaeologySourceDependencyKind \<Rightarrow> ArchaeologySourceDependencyKind \<Rightarrow> bool" where
  "less_eq_ArchaeologySourceDependencyKind a b \<longleftrightarrow> dep_rank a \<le> dep_rank b"

definition less_ArchaeologySourceDependencyKind ::
  "ArchaeologySourceDependencyKind \<Rightarrow> ArchaeologySourceDependencyKind \<Rightarrow> bool" where
  "less_ArchaeologySourceDependencyKind a b \<longleftrightarrow> dep_rank a < dep_rank b"

instance
  by standard (auto simp: less_eq_ArchaeologySourceDependencyKind_def
      less_ArchaeologySourceDependencyKind_def dep_rank_inj)

end

record ArchaeologySourceDependency =
  sd_dependent_path_identity :: string
  sd_prerequisite_path_identity :: string
  sd_kind :: ArchaeologySourceDependencyKind

record ArchaeologyInvalidationLimits =
  iv_max_seed_paths :: nat
  iv_max_dependencies :: nat
  iv_max_invalidated_paths :: nat
  iv_max_depth :: nat
  iv_max_identity_bytes :: nat
  iv_max_input_bytes :: nat
  iv_max_output_bytes :: nat

definition invalidation_limits_default :: ArchaeologyInvalidationLimits where
  "invalidation_limits_default =
     \<lparr>iv_max_seed_paths = 250000, iv_max_dependencies = 1000000,
      iv_max_invalidated_paths = 250000, iv_max_depth = 256, iv_max_identity_bytes = 256,
      iv_max_input_bytes = 256 * 1024 * 1024, iv_max_output_bytes = 64 * 1024 * 1024\<rparr>"

record ArchaeologyInvalidatedPath =
  ip_path_identity :: string
  ip_depth :: nat
  ip_via :: "ArchaeologySourceDependencyKind list"

datatype invalidation_error =
  Invalidation_Cancelled | LimitsInvalid | IdentityInvalid string | ByteBound
| SeedBound | DependencyBound | SeedDuplicated | SelfDependency | DependencyDuplicated
| PathBound | QueueInconsistent | DepthOverflow | DepthBound
| HeadInvalid | InputScopeInvalid | InputDuplicated | ParserLostScope | SynthesisLostScope

section \<open>Guards\<close>

definition poll :: "(nat \<Rightarrow> bool) \<Rightarrow> nat \<Rightarrow> (invalidation_error, nat) result" where
  "poll cancel n = (if cancel n then Inl Invalidation_Cancelled else Inr (Suc n))"

definition validate_limits :: "ArchaeologyInvalidationLimits \<Rightarrow> (invalidation_error, unit) result" where
  "validate_limits l =
     (if iv_max_seed_paths l = 0 \<or> iv_max_dependencies l = 0 \<or> iv_max_invalidated_paths l = 0
         \<or> iv_max_identity_bytes l = 0 \<or> iv_max_input_bytes l = 0 \<or> iv_max_output_bytes l = 0
      then Inl LimitsInvalid else Inr ())"

definition validate_identity :: "string \<Rightarrow> nat \<Rightarrow> string \<Rightarrow> (invalidation_error, unit) result" where
  "validate_identity value max_bytes label =
     (if value = [] \<or> len value > max_bytes
         \<or> list_ex (\<lambda>b. is_ascii_control b \<or> is_ascii_whitespace b) value
      then Inl (IdentityInvalid label) else Inr ())"

definition add_bounded :: "nat \<Rightarrow> nat \<Rightarrow> nat \<Rightarrow> (invalidation_error, nat) result" where
  "add_bounded acc value limit =
     (let acc = saturating_add acc value
      in if acc > limit then Inl ByteBound else Inr acc)"

definition is_exact_revision :: "string \<Rightarrow> bool" where
  "is_exact_revision value \<longleftrightarrow>
     (len value = 40 \<or> len value = 64) \<and>
     list_all (\<lambda>b. is_ascii_digit b \<or> (97 \<le> byte b \<and> byte b \<le> 102)) value"

section \<open>Reverse dependency closure\<close>

text \<open>The locals of the validation loops: polls, input bytes, and the sets built so far.\<close>

record closure_input =
  ci_polls :: nat
  ci_input_bytes :: nat
  ci_seeds :: "string set"
  ci_unique_edges :: "(string \<times> string \<times> ArchaeologySourceDependencyKind) set"
  ci_reverse :: "(string, ArchaeologySourceDependency list) btree_map"

definition closure_seed ::
  "(nat \<Rightarrow> bool) \<Rightarrow> ArchaeologyInvalidationLimits \<Rightarrow> closure_input \<Rightarrow> string
     \<Rightarrow> (invalidation_error, closure_input) result" where
  "closure_seed cancel l st path =
     and_then (poll cancel (ci_polls st)) (\<lambda>n.
     and_then (validate_identity path (iv_max_identity_bytes l) ''seed path'') (\<lambda>_.
     and_then (add_bounded (ci_input_bytes st) (len path) (iv_max_input_bytes l)) (\<lambda>bytes.
       if path \<in> ci_seeds st then Inl SeedDuplicated
       else Inr (st\<lparr>ci_polls := n, ci_input_bytes := bytes,
                    ci_seeds := insert path (ci_seeds st)\<rparr>))))"

definition edge_key ::
  "ArchaeologySourceDependency \<Rightarrow> string \<times> string \<times> ArchaeologySourceDependencyKind" where
  "edge_key d = (sd_dependent_path_identity d, sd_prerequisite_path_identity d, sd_kind d)"

definition push_reverse ::
  "(string, ArchaeologySourceDependency list) btree_map \<Rightarrow> ArchaeologySourceDependency
     \<Rightarrow> (string, ArchaeologySourceDependency list) btree_map" where
  "push_reverse m d =
     bt_insert (sd_prerequisite_path_identity d)
       ((case map_of m (sd_prerequisite_path_identity d) of None \<Rightarrow> [] | Some es \<Rightarrow> es) @ [d]) m"

definition closure_dependency ::
  "(nat \<Rightarrow> bool) \<Rightarrow> ArchaeologyInvalidationLimits \<Rightarrow> closure_input \<Rightarrow> ArchaeologySourceDependency
     \<Rightarrow> (invalidation_error, closure_input) result" where
  "closure_dependency cancel l st d =
     and_then (poll cancel (ci_polls st)) (\<lambda>n.
     and_then (validate_identity (sd_dependent_path_identity d) (iv_max_identity_bytes l)
                 ''dependent path'') (\<lambda>_.
     and_then (validate_identity (sd_prerequisite_path_identity d) (iv_max_identity_bytes l)
                 ''prerequisite path'') (\<lambda>_.
       if sd_dependent_path_identity d = sd_prerequisite_path_identity d then Inl SelfDependency
       else and_then (add_bounded (ci_input_bytes st)
              (saturating_add (saturating_add (len (sd_dependent_path_identity d))
                 (len (sd_prerequisite_path_identity d))) 16) (iv_max_input_bytes l)) (\<lambda>bytes.
         if edge_key d \<in> ci_unique_edges st then Inl DependencyDuplicated
         else Inr (st\<lparr>ci_polls := n, ci_input_bytes := bytes,
                      ci_unique_edges := insert (edge_key d) (ci_unique_edges st),
                      ci_reverse := push_reverse (ci_reverse st) d\<rparr>)))))"

definition edge_order ::
  "ArchaeologySourceDependency \<Rightarrow> string \<times> ArchaeologySourceDependencyKind \<times> string" where
  "edge_order d = (sd_dependent_path_identity d, sd_kind d, sd_prerequisite_path_identity d)"

definition sort_edges ::
  "(string, ArchaeologySourceDependency list) btree_map
     \<Rightarrow> (string, ArchaeologySourceDependency list) btree_map" where
  "sort_edges m = map (\<lambda>(p, es). (p, sort_key edge_order es)) m"

type_synonym discovered_map =
  "(string, nat \<times> ArchaeologySourceDependencyKind set) btree_map"

record closure_state =
  cs_polls :: nat
  cs_output_bytes :: nat
  cs_discovered :: discovered_map
  cs_queue :: "string list"

definition start_seed ::
  "ArchaeologyInvalidationLimits \<Rightarrow> closure_state \<Rightarrow> string
     \<Rightarrow> (invalidation_error, closure_state) result" where
  "start_seed l st seed =
     and_then (add_bounded (cs_output_bytes st) (len seed + 16) (iv_max_output_bytes l)) (\<lambda>bytes.
       Inr (st\<lparr>cs_output_bytes := bytes,
               cs_discovered := bt_insert seed (0, {}) (cs_discovered st),
               cs_queue := cs_queue st @ [seed]\<rparr>))"

definition relax_known ::
  "ArchaeologyInvalidationLimits \<Rightarrow> closure_state \<Rightarrow> string \<Rightarrow> ArchaeologySourceDependencyKind
     \<Rightarrow> nat \<Rightarrow> nat \<Rightarrow> ArchaeologySourceDependencyKind set
     \<Rightarrow> (invalidation_error, closure_state) result" where
  "relax_known l st dependent kind next_depth known_depth kinds =
     and_then (if known_depth \<noteq> 0 \<and> kind \<notin> kinds
               then add_bounded (cs_output_bytes st) 16 (iv_max_output_bytes l)
               else Inr (cs_output_bytes st)) (\<lambda>bytes.
       (let kinds = (if known_depth \<noteq> 0 then insert kind kinds else kinds)
        in if next_depth < known_depth
           then Inr (st\<lparr>cs_output_bytes := bytes,
                        cs_discovered := bt_insert dependent (next_depth, kinds) (cs_discovered st),
                        cs_queue := cs_queue st @ [dependent]\<rparr>)
           else Inr (st\<lparr>cs_output_bytes := bytes,
                        cs_discovered := bt_insert dependent (known_depth, kinds) (cs_discovered st)\<rparr>)))"

definition relax_new ::
  "ArchaeologyInvalidationLimits \<Rightarrow> closure_state \<Rightarrow> string \<Rightarrow> ArchaeologySourceDependencyKind
     \<Rightarrow> nat \<Rightarrow> (invalidation_error, closure_state) result" where
  "relax_new l st dependent kind next_depth =
     (if length (cs_discovered st) = iv_max_invalidated_paths l then Inl PathBound
      else and_then (add_bounded (cs_output_bytes st) (len dependent + 24) (iv_max_output_bytes l))
        (\<lambda>bytes. Inr (st\<lparr>cs_output_bytes := bytes,
                         cs_discovered := bt_insert dependent (next_depth, {kind}) (cs_discovered st),
                         cs_queue := cs_queue st @ [dependent]\<rparr>)))"

definition relax_dependency ::
  "(nat \<Rightarrow> bool) \<Rightarrow> ArchaeologyInvalidationLimits \<Rightarrow> nat \<Rightarrow> closure_state
     \<Rightarrow> ArchaeologySourceDependency \<Rightarrow> (invalidation_error, closure_state) result" where
  "relax_dependency cancel l depth st d =
     and_then (poll cancel (cs_polls st)) (\<lambda>n.
       (let st = st\<lparr>cs_polls := n\<rparr>; dependent = sd_dependent_path_identity d
        in if depth + 1 > usize_max then Inl DepthOverflow
           else if depth + 1 > iv_max_depth l \<and> map_of (cs_discovered st) dependent = None
             then Inl DepthBound
           else (case map_of (cs_discovered st) dependent of
                   Some (known_depth, kinds) \<Rightarrow>
                     relax_known l st dependent (sd_kind d) (depth + 1) known_depth kinds
                 | None \<Rightarrow> relax_new l st dependent (sd_kind d) (depth + 1))))"

definition edges_of ::
  "(string, ArchaeologySourceDependency list) btree_map \<Rightarrow> string
     \<Rightarrow> ArchaeologySourceDependency list" where
  "edges_of m p = (case map_of m p of None \<Rightarrow> [] | Some es \<Rightarrow> es)"

definition dependents :: "(string, ArchaeologySourceDependency list) btree_map \<Rightarrow> string set" where
  "dependents m = sd_dependent_path_identity ` (\<Union>es\<in>snd ` set m. set es)"

definition remaining_depth :: "ArchaeologyInvalidationLimits \<Rightarrow> string set \<Rightarrow> discovered_map \<Rightarrow> nat" where
  "remaining_depth l U m =
     (\<Sum>t\<in>U. case map_of m t of None \<Rightarrow> Suc (iv_max_depth l) | Some (k, _) \<Rightarrow> k)"

definition relaxed ::
  "ArchaeologyInvalidationLimits \<Rightarrow> nat \<Rightarrow> closure_state \<Rightarrow> ArchaeologySourceDependency
     \<Rightarrow> closure_state \<Rightarrow> nat \<Rightarrow> ArchaeologySourceDependencyKind set \<Rightarrow> bool" where
  "relaxed l depth st d st' k' K' \<longleftrightarrow>
     cs_discovered st' = bt_insert (sd_dependent_path_identity d) (k', K') (cs_discovered st) \<and>
     (case map_of (cs_discovered st) (sd_dependent_path_identity d) of
        None \<Rightarrow> k' = Suc depth \<and> k' \<le> iv_max_depth l \<and> K' = {sd_kind d} \<and>
          length (cs_discovered st) \<noteq> iv_max_invalidated_paths l \<and>
          cs_queue st' = cs_queue st @ [sd_dependent_path_identity d]
      | Some (k, K) \<Rightarrow> K' = (if k \<noteq> 0 then insert (sd_kind d) K else K) \<and>
          (if Suc depth < k
           then k' = Suc depth \<and> cs_queue st' = cs_queue st @ [sd_dependent_path_identity d]
           else k' = k \<and> cs_queue st' = cs_queue st))"

lemma relax_dependency_relaxed:
  assumes "relax_dependency cancel l depth st d = Inr st'"
  shows "\<exists>k' K'. relaxed l depth st d st' k' K'"
proof (cases "map_of (cs_discovered st) (sd_dependent_path_identity d)")
  case None
  then show ?thesis using assms
    by (auto simp: relax_dependency_def relax_new_def relaxed_def Let_def and_then_Inr_iff
        split: if_splits)
next
  case (Some a)
  obtain k K where a: "a = (k, K)" by (cases a)
  obtain n where "relax_known l (st\<lparr>cs_polls := n\<rparr>) (sd_dependent_path_identity d) (sd_kind d)
      (depth + 1) k K = Inr st'"
    using assms Some unfolding a
    by (auto simp: relax_dependency_def Let_def and_then_Inr_iff split: if_splits)
  then show ?thesis
    using Some unfolding a
    by (cases "Suc depth < k") (auto simp: relax_known_def relaxed_def Let_def and_then_Inr_iff)
qed

lemma remaining_depth_update:
  assumes "finite U" "t \<in> U"
  shows "remaining_depth l U (bt_insert t (k, K) m) +
      (case map_of m t of None \<Rightarrow> Suc (iv_max_depth l) | Some (k, _) \<Rightarrow> k) = remaining_depth l U m + k"
proof -
  let ?w = "\<lambda>m t. case map_of m t of None \<Rightarrow> Suc (iv_max_depth l) | Some (k, _) \<Rightarrow> k"
  have "(\<Sum>x\<in>U - {t}. ?w (bt_insert t (k, K) m) x) = (\<Sum>x\<in>U - {t}. ?w m x)"
    by (rule sum.cong) auto
  then show ?thesis
    unfolding remaining_depth_def sum.remove [OF assms, of "?w m"]
      sum.remove [OF assms, of "?w (bt_insert t (k, K) m)"]
    by simp
qed

lemma relax_decreases:
  assumes "relax_dependency cancel l depth st d = Inr st'" "finite U"
    "sd_dependent_path_identity d \<in> U"
  shows "remaining_depth l U (cs_discovered st') + length (cs_queue st')
     \<le> remaining_depth l U (cs_discovered st) + length (cs_queue st)"
proof -
  obtain k' K' where r: "relaxed l depth st d st' k' K'"
    using relax_dependency_relaxed [OF assms(1)] by blast
  show ?thesis
    using r remaining_depth_update [OF assms(2,3), of l k' K' "cs_discovered st"]
    by (auto simp: relaxed_def split: option.splits if_splits)
qed

lemma relax_all_decreases:
  assumes "try_fold (relax_dependency cancel l depth) st es = Inr st'" "finite U"
    "sd_dependent_path_identity ` set es \<subseteq> U"
  shows "remaining_depth l U (cs_discovered st') + length (cs_queue st')
     \<le> remaining_depth l U (cs_discovered st) + length (cs_queue st)"
  using assms(1,3)
proof (induction es arbitrary: st)
  case Nil
  then show ?case by simp
next
  case (Cons d es)
  then obtain m where m: "relax_dependency cancel l depth st d = Inr m"
    "try_fold (relax_dependency cancel l depth) m es = Inr st'"
    by (auto simp: and_then_Inr_iff)
  have "remaining_depth l U (cs_discovered m) + length (cs_queue m)
      \<le> remaining_depth l U (cs_discovered st) + length (cs_queue st)"
    using Cons.prems(2) by (intro relax_decreases [OF m(1) assms(2)]) simp
  moreover have "remaining_depth l U (cs_discovered st') + length (cs_queue st')
      \<le> remaining_depth l U (cs_discovered m) + length (cs_queue m)"
    using Cons.prems(2) by (intro Cons.IH [OF m(2)]) simp
  ultimately show ?case by linarith
qed

lemma finite_dependents [simp]: "finite (dependents m)"
  unfolding dependents_def by (intro finite_imageI finite_UN_I) simp_all

lemma edges_of_dependents: "sd_dependent_path_identity ` set (edges_of m p) \<subseteq> dependents m"
proof (cases "map_of m p")
  case None
  then show ?thesis by (simp add: edges_of_def)
next
  case (Some es)
  then have "es \<in> snd ` set m" by (metis map_of_SomeD snd_conv image_eqI)
  then have "set es \<subseteq> (\<Union>es\<in>snd ` set m. set es)" by blast
  then show ?thesis unfolding dependents_def edges_of_def Some by (simp only: option.case) (rule image_mono)
qed

function closure_loop ::
  "(nat \<Rightarrow> bool) \<Rightarrow> ArchaeologyInvalidationLimits
     \<Rightarrow> (string, ArchaeologySourceDependency list) btree_map \<Rightarrow> closure_state
     \<Rightarrow> (invalidation_error, closure_state) result" where
  "closure_loop cancel l reverse st =
     (case cs_queue st of
        [] \<Rightarrow> Inr st
      | prerequisite # queue \<Rightarrow>
          and_then (poll cancel (cs_polls st)) (\<lambda>n.
          and_then (ok_or (map_of (cs_discovered st) prerequisite) QueueInconsistent) (\<lambda>entry.
          and_then (try_fold (relax_dependency cancel l (fst entry))
                      (st\<lparr>cs_polls := n, cs_queue := queue\<rparr>) (edges_of reverse prerequisite))
            (closure_loop cancel l reverse))))"
  by pat_completeness auto
termination
proof (relation "measure (\<lambda>(cancel, l, reverse, st).
      remaining_depth l (dependents reverse) (cs_discovered st) + length (cs_queue st))",
    goal_cases)
  case (2 cancel l reverse st p queue n entry st')
  show ?case
    using relax_all_decreases [OF 2(4) finite_dependents edges_of_dependents] 2(1) by simp
qed simp

declare closure_loop.simps [simp del]

text \<open>\<open>for seed in seeds\<close> takes the \<open>BTreeSet\<close> in ascending order.\<close>

definition reverse_dependency_closure ::
  "string list \<Rightarrow> ArchaeologySourceDependency list \<Rightarrow> (nat \<Rightarrow> bool)
     \<Rightarrow> ArchaeologyInvalidationLimits
     \<Rightarrow> (invalidation_error, ArchaeologyInvalidatedPath list) result" where
  "reverse_dependency_closure seed_paths dependencies cancel l =
     and_then (poll cancel 0) (\<lambda>n.
     and_then (validate_limits l) (\<lambda>_.
       if length seed_paths > iv_max_seed_paths l then Inl SeedBound
       else if length dependencies > iv_max_dependencies l then Inl DependencyBound
       else
         and_then (try_fold (closure_seed cancel l)
             \<lparr>ci_polls = n, ci_input_bytes = 0, ci_seeds = {}, ci_unique_edges = {},
              ci_reverse = []\<rparr> seed_paths) (\<lambda>inp.
         and_then (try_fold (closure_dependency cancel l) inp dependencies) (\<lambda>inp.
           if card (ci_seeds inp) > iv_max_invalidated_paths l then Inl PathBound
           else
             and_then (try_fold (start_seed l)
                 \<lparr>cs_polls = ci_polls inp, cs_output_bytes = 0, cs_discovered = [], cs_queue = []\<rparr>
                 (sorted_list_of_set (ci_seeds inp))) (\<lambda>st.
             and_then (closure_loop cancel l (sort_edges (ci_reverse inp)) st) (\<lambda>st.
             and_then (poll cancel (cs_polls st)) (\<lambda>_.
               Inr (map (\<lambda>(p, depth, via).
                     \<lparr>ip_path_identity = p, ip_depth = depth, ip_via = sorted_list_of_set via\<rparr>)
                   (cs_discovered st)))))))))"

section \<open>Input drift\<close>

datatype ArchaeologyGenerationInputKind =
  Input_Head | Input_Ignore | Input_Config | Input_Parser | Input_Schema | Input_Algorithm
| Input_SynthesisPolicy

fun input_rank :: "ArchaeologyGenerationInputKind \<Rightarrow> nat" where
  "input_rank Input_Head = 0"
| "input_rank Input_Ignore = 1"
| "input_rank Input_Config = 2"
| "input_rank Input_Parser = 3"
| "input_rank Input_Schema = 4"
| "input_rank Input_Algorithm = 5"
| "input_rank Input_SynthesisPolicy = 6"

lemma input_rank_inj: "input_rank a = input_rank b \<longleftrightarrow> a = b"
  by (cases a; cases b) simp_all

instantiation ArchaeologyGenerationInputKind :: linorder
begin

definition less_eq_ArchaeologyGenerationInputKind ::
  "ArchaeologyGenerationInputKind \<Rightarrow> ArchaeologyGenerationInputKind \<Rightarrow> bool" where
  "less_eq_ArchaeologyGenerationInputKind a b \<longleftrightarrow> input_rank a \<le> input_rank b"

definition less_ArchaeologyGenerationInputKind ::
  "ArchaeologyGenerationInputKind \<Rightarrow> ArchaeologyGenerationInputKind \<Rightarrow> bool" where
  "less_ArchaeologyGenerationInputKind a b \<longleftrightarrow> input_rank a < input_rank b"

instance
  by standard (auto simp: less_eq_ArchaeologyGenerationInputKind_def
      less_ArchaeologyGenerationInputKind_def input_rank_inj)

end

record ArchaeologyGenerationInput =
  gi_kind :: ArchaeologyGenerationInputKind
  gi_scope :: "string option"
  gi_identity :: string

datatype ArchaeologyInputInvalidationMode =
  Mode_NoOp | Mode_SynthesisOnly | Mode_Scoped | Mode_GlobalRebuild

record ArchaeologyInputDecision =
  id_mode :: ArchaeologyInputInvalidationMode
  id_changed_kinds :: "ArchaeologyGenerationInputKind list"
  id_parser_scopes :: "string list"
  id_synthesis_policy_scopes :: "string list"

type_synonym input_key = "ArchaeologyGenerationInputKind \<times> string option"

definition insert_input ::
  "(input_key, string) btree_map \<Rightarrow> ArchaeologyGenerationInput
     \<Rightarrow> (invalidation_error, (input_key, string) btree_map) result" where
  "insert_input m i =
     and_then (validate_identity (gi_identity i) 256 ''generation input'') (\<lambda>_.
       if gi_kind i = Input_Head \<and> \<not> is_exact_revision (gi_identity i) then Inl HeadInvalid
       else if (gi_kind i = Input_Parser \<or> gi_kind i = Input_SynthesisPolicy)
               \<noteq> (gi_scope i \<noteq> None) then Inl InputScopeInvalid
       else and_then (case gi_scope i of None \<Rightarrow> Inr ()
                      | Some scope \<Rightarrow> validate_identity scope 256 ''generation input scope'') (\<lambda>_.
         if map_of m (gi_kind i, gi_scope i) \<noteq> None then Inl InputDuplicated
         else Inr (bt_insert (gi_kind i, gi_scope i) (gi_identity i) m)))"

definition input_map ::
  "ArchaeologyGenerationInput list
     \<Rightarrow> (invalidation_error, (input_key, string) btree_map) result" where
  "input_map inputs = try_fold insert_input [] inputs"

record drift =
  dr_changed_kinds :: "ArchaeologyGenerationInputKind set"
  dr_parser_scopes :: "string set"
  dr_synthesis_scopes :: "string set"
  dr_global :: bool
  dr_scoped :: bool
  dr_synthesis_only :: bool

definition classify_key ::
  "(input_key, string) btree_map \<Rightarrow> (input_key, string) btree_map \<Rightarrow> drift \<Rightarrow> input_key
     \<Rightarrow> (invalidation_error, drift) result" where
  "classify_key previous current dr key =
     (if map_of previous key = map_of current key then Inr dr
      else
        (let dr = dr\<lparr>dr_changed_kinds := insert (fst key) (dr_changed_kinds dr)\<rparr>
         in case fst key of
              Input_Head \<Rightarrow> Inr (dr\<lparr>dr_scoped := True\<rparr>)
            | Input_Parser \<Rightarrow>
                and_then (ok_or (snd key) ParserLostScope) (\<lambda>scope.
                  (let dr = dr\<lparr>dr_parser_scopes := insert scope (dr_parser_scopes dr)\<rparr>
                   in if scope = ''global'' then Inr (dr\<lparr>dr_global := True\<rparr>)
                      else Inr (dr\<lparr>dr_scoped := True\<rparr>)))
            | Input_SynthesisPolicy \<Rightarrow>
                (let dr = dr\<lparr>dr_synthesis_only := True\<rparr>
                 in and_then (ok_or (snd key) SynthesisLostScope) (\<lambda>scope.
                      Inr (dr\<lparr>dr_synthesis_scopes := insert scope (dr_synthesis_scopes dr)\<rparr>)))
            | _ \<Rightarrow> Inr (dr\<lparr>dr_global := True\<rparr>)))"

definition classify_generation_input_changes ::
  "ArchaeologyGenerationInput list \<Rightarrow> ArchaeologyGenerationInput list
     \<Rightarrow> (invalidation_error, ArchaeologyInputDecision) result" where
  "classify_generation_input_changes previous current =
     and_then (input_map previous) (\<lambda>previous.
     and_then (input_map current) (\<lambda>current.
     and_then (try_fold (classify_key previous current)
         \<lparr>dr_changed_kinds = {}, dr_parser_scopes = {}, dr_synthesis_scopes = {},
          dr_global = False, dr_scoped = False, dr_synthesis_only = False\<rparr>
         (sorted_list_of_set (set (map fst previous @ map fst current)))) (\<lambda>dr.
       Inr \<lparr>id_mode =
              (if dr_global dr then Mode_GlobalRebuild
               else if dr_scoped dr then Mode_Scoped
               else if dr_synthesis_only dr then Mode_SynthesisOnly
               else Mode_NoOp),
            id_changed_kinds = sorted_list_of_set (dr_changed_kinds dr),
            id_parser_scopes = sorted_list_of_set (dr_parser_scopes dr),
            id_synthesis_policy_scopes = sorted_list_of_set (dr_synthesis_scopes dr)\<rparr>)))"

section \<open>The closure, abstractly\<close>

text \<open>
  \<open>reached deps S n p\<close>: the path p depends on a seed of S through n dependencies. The abstract
  closure lists the reached paths in order, each with the least such n and with the kinds of the
  dependencies that pull it in.
\<close>

inductive reached ::
  "ArchaeologySourceDependency list \<Rightarrow> string set \<Rightarrow> nat \<Rightarrow> string \<Rightarrow> bool"
  for deps :: "ArchaeologySourceDependency list" and S :: "string set" where
  seed: "p \<in> S \<Longrightarrow> reached deps S 0 p"
| hop: "reached deps S n (sd_prerequisite_path_identity d) \<Longrightarrow> d \<in> set deps \<Longrightarrow>
     reached deps S (Suc n) (sd_dependent_path_identity d)"

inductive_simps reached_0 [simp]: "reached deps S 0 p"

definition hop_distance :: "ArchaeologySourceDependency list \<Rightarrow> string set \<Rightarrow> string \<Rightarrow> nat" where
  "hop_distance deps S p = (LEAST n. reached deps S n p)"

definition closure_paths :: "ArchaeologySourceDependency list \<Rightarrow> string set \<Rightarrow> string set" where
  "closure_paths deps S = {p. \<exists>n. reached deps S n p}"

definition incoming_kinds ::
  "ArchaeologySourceDependency list \<Rightarrow> string set \<Rightarrow> string
     \<Rightarrow> ArchaeologySourceDependencyKind set" where
  "incoming_kinds deps P p =
     sd_kind ` {d \<in> set deps. sd_dependent_path_identity d = p \<and> sd_prerequisite_path_identity d \<in> P}"

definition closure_spec ::
  "ArchaeologySourceDependency list \<Rightarrow> string set \<Rightarrow> ArchaeologyInvalidatedPath list" where
  "closure_spec deps S =
     map (\<lambda>p. \<lparr>ip_path_identity = p, ip_depth = hop_distance deps S p,
               ip_via = (if p \<in> S then []
                 else sorted_list_of_set (incoming_kinds deps (closure_paths deps S) p))\<rparr>)
       (sorted_list_of_set (closure_paths deps S))"

section \<open>The reverse index\<close>

definition build_reverse ::
  "ArchaeologySourceDependency list \<Rightarrow> (string, ArchaeologySourceDependency list) btree_map" where
  "build_reverse deps = foldl push_reverse [] deps"

lemma edges_of_push:
  "edges_of (push_reverse m d) p =
     (if p = sd_prerequisite_path_identity d then edges_of m p @ [d] else edges_of m p)"
  by (auto simp: edges_of_def push_reverse_def split: option.splits)

lemma edges_of_build:
  "edges_of (foldl push_reverse m deps) p =
     edges_of m p @ filter (\<lambda>d. sd_prerequisite_path_identity d = p) deps"
  by (induction deps arbitrary: m) (auto simp: edges_of_push)

lemma edges_of_sort: "edges_of (sort_edges m) p = sort_key edge_order (edges_of m p)"
proof -
  have "map_of (sort_edges m) p = map_option (sort_key edge_order) (map_of m p)"
    unfolding sort_edges_def by (induction m) auto
  then show ?thesis by (simp add: edges_of_def split: option.splits)
qed

locale reverse_index =
  fixes reverse :: "(string, ArchaeologySourceDependency list) btree_map"
    and deps :: "ArchaeologySourceDependency list"
  assumes edges: "set (edges_of reverse p) = {d \<in> set deps. sd_prerequisite_path_identity d = p}"

interpretation built: reverse_index "sort_edges (build_reverse deps)" deps for deps
proof
  have empty: "edges_of [] p = []" for p by (simp add: edges_of_def)
  show "set (edges_of (sort_edges (build_reverse deps)) p)
      = {d \<in> set deps. sd_prerequisite_path_identity d = p}" for p
    by (auto simp: edges_of_sort build_reverse_def edges_of_build empty)
qed

section \<open>The invariant of the worklist\<close>

definition closure_inv ::
  "ArchaeologyInvalidationLimits \<Rightarrow> ArchaeologySourceDependency list \<Rightarrow> string set
     \<Rightarrow> closure_state \<Rightarrow> bool" where
  "closure_inv l deps S st \<longleftrightarrow>
     bt_ok (cs_discovered st) \<and> S \<subseteq> dom (map_of (cs_discovered st)) \<and>
     set (cs_queue st) \<subseteq> dom (map_of (cs_discovered st)) \<and>
     length (cs_discovered st) \<le> iv_max_invalidated_paths l \<and>
     (\<forall>p k K. map_of (cs_discovered st) p = Some (k, K) \<longrightarrow>
        reached deps S k p \<and> k \<le> iv_max_depth l \<and> (p \<in> S \<longrightarrow> k = 0) \<and> (k = 0 \<longrightarrow> K = {}) \<and>
        K \<subseteq> incoming_kinds deps (dom (map_of (cs_discovered st))) p)"

definition edge_done :: "discovered_map \<Rightarrow> ArchaeologySourceDependency \<Rightarrow> bool" where
  "edge_done m d \<longleftrightarrow>
     (\<exists>kp Kp k K. map_of m (sd_prerequisite_path_identity d) = Some (kp, Kp) \<and>
        map_of m (sd_dependent_path_identity d) = Some (k, K) \<and> k \<le> Suc kp \<and>
        (k \<noteq> 0 \<longrightarrow> sd_kind d \<in> K))"

lemma incoming_kinds_mono: "P \<subseteq> Q \<Longrightarrow> incoming_kinds deps P p \<subseteq> incoming_kinds deps Q p"
  by (auto simp: incoming_kinds_def)

lemma incoming_kindsI:
  "d \<in> set deps \<Longrightarrow> sd_prerequisite_path_identity d \<in> P \<Longrightarrow>
     sd_kind d \<in> incoming_kinds deps P (sd_dependent_path_identity d)"
  by (auto simp: incoming_kinds_def)

lemma closure_inv_insert:
  assumes inv: "closure_inv l deps S st"
    and st': "cs_discovered st' = bt_insert t (k, K) (cs_discovered st)"
    and len: "map_of (cs_discovered st) t = None \<Longrightarrow>
      length (cs_discovered st) < iv_max_invalidated_paths l"
    and q: "set (cs_queue st') \<subseteq> insert t (set (cs_queue st))"
    and entry: "reached deps S k t" "k \<le> iv_max_depth l" "t \<in> S \<Longrightarrow> k = 0" "k = 0 \<Longrightarrow> K = {}"
      "K \<subseteq> incoming_kinds deps (insert t (dom (map_of (cs_discovered st)))) t"
  shows "closure_inv l deps S st'"
proof -
  have "length (cs_discovered st') \<le> iv_max_invalidated_paths l"
    using inv len btree.length_update [of "cs_discovered st" t "(k, K)"]
    by (auto simp: st' closure_inv_def split: if_splits)
  moreover have "incoming_kinds deps (dom (map_of (cs_discovered st))) p
      \<subseteq> incoming_kinds deps (insert t (dom (map_of (cs_discovered st)))) p" for p
    by (rule incoming_kinds_mono) auto
  ultimately show ?thesis
    using inv q entry unfolding closure_inv_def st'
    by (simp add: bt_ok_insert) blast
qed

lemma relax_step:
  assumes inv: "closure_inv l deps S st"
    and p: "map_of (cs_discovered st) (sd_prerequisite_path_identity d) = Some (k, Kp)"
    and d: "d \<in> set deps" "sd_dependent_path_identity d \<noteq> sd_prerequisite_path_identity d"
    and run: "relax_dependency cancel l k st d = Inr st'"
  shows "closure_inv l deps S st'"
    and "map_of (cs_discovered st') (sd_prerequisite_path_identity d) = Some (k, Kp)"
    and "edge_done (cs_discovered st') d"
    and "\<And>e. edge_done (cs_discovered st) e \<Longrightarrow>
      sd_prerequisite_path_identity e \<noteq> sd_dependent_path_identity d \<or>
      sd_prerequisite_path_identity e \<notin> set (cs_queue st') \<Longrightarrow> edge_done (cs_discovered st') e"
    and "set (cs_queue st) \<subseteq> set (cs_queue st')"
    and "dom (map_of (cs_discovered st')) - set (cs_queue st') \<subseteq>
      dom (map_of (cs_discovered st)) - set (cs_queue st)"
proof -
  let ?m = "cs_discovered st" and ?t = "sd_dependent_path_identity d"
  obtain k' K' where r: "relaxed l k st d st' k' K'"
    using relax_dependency_relaxed [OF run] by blast
  have m': "cs_discovered st' = bt_insert ?t (k', K') ?m" using r by (simp add: relaxed_def)
  have kp: "reached deps S k (sd_prerequisite_path_identity d)"
    using inv p by (auto simp: closure_inv_def)
  then have step: "reached deps S (Suc k) ?t" using d(1) by (rule reached.hop)
  have kind: "sd_kind d \<in> incoming_kinds deps (insert ?t (dom (map_of ?m))) ?t"
    using d(1) p by (intro incoming_kindsI) auto
  have cases: "(map_of ?m ?t = None \<and> k' = Suc k \<and> k' \<le> iv_max_depth l \<and> K' = {sd_kind d} \<and>
        length ?m \<noteq> iv_max_invalidated_paths l \<and> cs_queue st' = cs_queue st @ [?t]) \<or>
      (\<exists>k0 K0. map_of ?m ?t = Some (k0, K0) \<and> K' = (if k0 \<noteq> 0 then insert (sd_kind d) K0 else K0) \<and>
        ((Suc k < k0 \<and> k' = Suc k \<and> cs_queue st' = cs_queue st @ [?t]) \<or>
         (\<not> Suc k < k0 \<and> k' = k0 \<and> cs_queue st' = cs_queue st)))"
    using r by (auto simp: relaxed_def split: option.splits if_splits)
  show "closure_inv l deps S st'"
  proof (rule closure_inv_insert [OF inv m'])
    show "map_of ?m ?t = None \<Longrightarrow> length ?m < iv_max_invalidated_paths l"
      using cases inv by (auto simp: closure_inv_def le_less)
    show "set (cs_queue st') \<subseteq> insert ?t (set (cs_queue st))" using cases by auto
    show "reached deps S k' ?t" using cases step inv by (auto simp: closure_inv_def)
    show "k' \<le> iv_max_depth l" using cases inv by (fastforce simp: closure_inv_def)
    show "?t \<in> S \<Longrightarrow> k' = 0" using cases inv by (fastforce simp: closure_inv_def)
    show "k' = 0 \<Longrightarrow> K' = {}" using cases inv by (fastforce simp: closure_inv_def)
    have "\<And>k0 K0. map_of ?m ?t = Some (k0, K0) \<Longrightarrow>
        K0 \<subseteq> incoming_kinds deps (insert ?t (dom (map_of ?m))) ?t"
      using inv incoming_kinds_mono [of "dom (map_of ?m)" "insert ?t (dom (map_of ?m))" deps ?t]
      unfolding closure_inv_def by blast
    then show "K' \<subseteq> incoming_kinds deps (insert ?t (dom (map_of ?m))) ?t"
      using cases kind by (auto split: if_splits)
  qed
  show "map_of (cs_discovered st') (sd_prerequisite_path_identity d) = Some (k, Kp)"
    using p d(2) by (simp add: m')
  show "edge_done (cs_discovered st') d"
    using p d(2) cases by (auto simp: m' edge_done_def)
  show "set (cs_queue st) \<subseteq> set (cs_queue st')" using cases by auto
  show "dom (map_of (cs_discovered st')) - set (cs_queue st') \<subseteq> dom (map_of ?m) - set (cs_queue st)"
    using cases by (auto simp: m')
  fix e
  assume "edge_done ?m e" "sd_prerequisite_path_identity e \<noteq> ?t \<or>
      sd_prerequisite_path_identity e \<notin> set (cs_queue st')"
  then show "edge_done (cs_discovered st') e"
    using cases by (auto simp: m' edge_done_def)
qed

definition settled ::
  "ArchaeologySourceDependency list \<Rightarrow> closure_state \<Rightarrow> string set \<Rightarrow> bool" where
  "settled deps st P \<longleftrightarrow>
     (\<forall>d\<in>set deps. sd_prerequisite_path_identity d \<in>
        dom (map_of (cs_discovered st)) - set (cs_queue st) - P \<longrightarrow> edge_done (cs_discovered st) d)"

lemma relax_all_run:
  assumes "closure_inv l deps S st" "settled deps st {p}"
    and "map_of (cs_discovered st) p = Some (k, Kp)"
    and "\<forall>d\<in>set es. d \<in> set deps \<and> sd_prerequisite_path_identity d = p \<and>
      sd_dependent_path_identity d \<noteq> p"
    and "\<forall>d\<in>D. sd_prerequisite_path_identity d = p \<and> edge_done (cs_discovered st) d"
    and "try_fold (relax_dependency cancel l k) st es = Inr st'"
  shows "closure_inv l deps S st' \<and> settled deps st' {p} \<and>
    (\<forall>d\<in>D \<union> set es. edge_done (cs_discovered st') d)"
  using assms
proof (induction es arbitrary: st D)
  case Nil
  then show ?case by simp
next
  case (Cons d es)
  obtain m where m: "relax_dependency cancel l k st d = Inr m"
    "try_fold (relax_dependency cancel l k) m es = Inr st'"
    using Cons.prems(6) by (auto simp: and_then_Inr_iff)
  have d: "d \<in> set deps" "sd_prerequisite_path_identity d = p" "sd_dependent_path_identity d \<noteq> p"
    using Cons.prems(4) by auto
  note step = relax_step [OF Cons.prems(1) _ d(1) _ m(1), unfolded d(2), OF Cons.prems(3) d(3)]
  have "closure_inv l deps S st' \<and> settled deps st' {p} \<and>
      (\<forall>d\<in>insert d D \<union> set es. edge_done (cs_discovered st') d)"
  proof (rule Cons.IH [OF step(1) _ step(2)])
    show "settled deps m {p}"
      unfolding settled_def
    proof (intro ballI impI)
      fix e
      assume e: "e \<in> set deps"
        "sd_prerequisite_path_identity e \<in> dom (map_of (cs_discovered m)) - set (cs_queue m) - {p}"
      then have "sd_prerequisite_path_identity e \<in>
          dom (map_of (cs_discovered st)) - set (cs_queue st) - {p}"
        using step(6) by blast
      with Cons.prems(2) e(1) have "edge_done (cs_discovered st) e" by (simp add: settled_def)
      with e(2) show "edge_done (cs_discovered m) e" by (intro step(4)) auto
    qed
    show "\<forall>d\<in>insert d D. sd_prerequisite_path_identity d = p \<and> edge_done (cs_discovered m) d"
      using Cons.prems(5) d step(3,4) by auto
  qed (use Cons.prems(4) m(2) in simp_all)
  then show ?case by auto
qed

context reverse_index
begin

lemma loop_step:
  assumes "closure_inv l deps S st" "settled deps st {}" "cs_queue st = p # queue"
    and "map_of (cs_discovered st) p = Some (k, Kp)"
    and "\<forall>d\<in>set deps. sd_dependent_path_identity d \<noteq> sd_prerequisite_path_identity d"
    and "try_fold (relax_dependency cancel l k) (st\<lparr>cs_polls := n, cs_queue := queue\<rparr>)
      (edges_of reverse p) = Inr st'"
  shows "closure_inv l deps S st' \<and> settled deps st' {}"
proof -
  let ?st = "st\<lparr>cs_polls := n, cs_queue := queue\<rparr>"
  have "closure_inv l deps S st' \<and> settled deps st' {p} \<and>
      (\<forall>d\<in>{} \<union> set (edges_of reverse p). edge_done (cs_discovered st') d)"
  proof (rule relax_all_run)
    show "closure_inv l deps S ?st" using assms(1,3) by (simp add: closure_inv_def)
    show "settled deps ?st {p}" using assms(2,3) by (auto simp: settled_def)
    show "\<forall>d\<in>set (edges_of reverse p). d \<in> set deps \<and> sd_prerequisite_path_identity d = p \<and>
      sd_dependent_path_identity d \<noteq> p"
      using assms(5) by (auto simp: edges)
  qed (use assms(4,6) in simp_all)
  moreover from this have "settled deps st' {}"
    unfolding settled_def using edges [of p] by blast
  ultimately show ?thesis by blast
qed

lemma loop_correct:
  assumes "\<forall>d\<in>set deps. sd_dependent_path_identity d \<noteq> sd_prerequisite_path_identity d"
    and "closure_loop cancel l reverse st = Inr st'"
    and "closure_inv l deps S st" "settled deps st {}"
  shows "closure_inv l deps S st' \<and> settled deps st' {} \<and> cs_queue st' = []"
  using assms(2-)
proof (induction st rule: measure_induct_rule
    [of "\<lambda>st. remaining_depth l (dependents reverse) (cs_discovered st) + length (cs_queue st)"])
  case (less st)
  show ?case
  proof (cases "cs_queue st")
    case Nil
    then show ?thesis using less.prems by (simp add: closure_loop.simps [of cancel l reverse st])
  next
    case (Cons p queue)
    then obtain n k Kp m where m: "map_of (cs_discovered st) p = Some (k, Kp)"
      "try_fold (relax_dependency cancel l k) (st\<lparr>cs_polls := n, cs_queue := queue\<rparr>)
         (edges_of reverse p) = Inr m"
      "closure_loop cancel l reverse m = Inr st'"
      using less.prems(1) by (auto simp: closure_loop.simps [of cancel l reverse st] and_then_Inr_iff)
    have "remaining_depth l (dependents reverse) (cs_discovered m) + length (cs_queue m)
        < remaining_depth l (dependents reverse) (cs_discovered st) + length (cs_queue st)"
      using relax_all_decreases [OF m(2) finite_dependents edges_of_dependents] Cons by simp
    then show ?thesis
      using less.IH [OF _ m(3)] loop_step [OF less.prems(2,3) Cons m(1) assms(1) m(2)] by blast
  qed
qed

end

lemma settled_closure:
  assumes inv: "closure_inv l deps S st" and "settled deps st {}" "cs_queue st = []"
  shows "reached deps S n p \<Longrightarrow> \<exists>k K. map_of (cs_discovered st) p = Some (k, K) \<and> k \<le> n"
proof (induction rule: reached.induct)
  case (seed p)
  then show ?case using inv by (fastforce simp: closure_inv_def)
next
  case (hop n d)
  then have "edge_done (cs_discovered st) d"
    using assms(2,3) by (auto simp: settled_def)
  with hop.IH show ?case by (auto simp: edge_done_def)
qed

lemma settled_spec:
  assumes inv: "closure_inv l deps S st" and set: "settled deps st {}" "cs_queue st = []"
  shows "map (\<lambda>(p, depth, via).
           \<lparr>ip_path_identity = p, ip_depth = depth, ip_via = sorted_list_of_set via\<rparr>)
         (cs_discovered st) = closure_spec deps S"
proof -
  let ?m = "cs_discovered st"
  have ok: "bt_ok ?m" using inv by (simp add: closure_inv_def)
  have dom: "dom (map_of ?m) = closure_paths deps S"
    using settled_closure [OF assms] inv by (fastforce simp: closure_paths_def closure_inv_def)
  have entry: "k = hop_distance deps S p \<and>
      K = (if p \<in> S then {} else incoming_kinds deps (closure_paths deps S) p)"
    if "map_of ?m p = Some (k, K)" for p k K
  proof
    have r: "reached deps S k p" and seeds: "p \<in> S \<longrightarrow> k = 0" "k = 0 \<longrightarrow> K = {}"
      and sub: "K \<subseteq> incoming_kinds deps (dom (map_of ?m)) p"
      using inv that by (simp_all add: closure_inv_def)
    have "k \<le> n" if "reached deps S n p" for n
      using settled_closure [OF assms that] \<open>map_of ?m p = Some (k, K)\<close> by simp
    with r show "k = hop_distance deps S p"
      unfolding hop_distance_def by (metis Least_equality)
    show "K = (if p \<in> S then {} else incoming_kinds deps (closure_paths deps S) p)"
    proof (cases "p \<in> S")
      case False
      with r have "k \<noteq> 0" by (auto simp: reached.simps [of deps S k p])
      have "incoming_kinds deps (dom (map_of ?m)) p \<subseteq> K"
      proof
        fix x
        assume "x \<in> incoming_kinds deps (dom (map_of ?m)) p"
        then obtain d where d: "d \<in> set deps" "sd_dependent_path_identity d = p" "x = sd_kind d"
          "sd_prerequisite_path_identity d \<in> dom (map_of ?m)"
          unfolding incoming_kinds_def by blast
        then have "edge_done ?m d" using set unfolding settled_def by simp
        then show "x \<in> K" using d \<open>k \<noteq> 0\<close> that by (auto simp: edge_done_def)
      qed
      with sub False show ?thesis by (simp add: dom)
    qed (use seeds in simp)
  qed
  have keys: "map fst ?m = sorted_list_of_set (closure_paths deps S)"
    using btree.keys_sorted_list [OF ok] by (simp add: dom)
  have "sorted_list_of_set (if b then {} else A) = (if b then [] else sorted_list_of_set A)"
    for b and A :: "ArchaeologySourceDependencyKind set" by simp
  then have "map (\<lambda>(p, depth, via).
        \<lparr>ip_path_identity = p, ip_depth = depth, ip_via = sorted_list_of_set via\<rparr>) ?m =
      map (\<lambda>p. \<lparr>ip_path_identity = p, ip_depth = hop_distance deps S p,
        ip_via = (if p \<in> S then []
          else sorted_list_of_set (incoming_kinds deps (closure_paths deps S) p))\<rparr>) (map fst ?m)"
    using entry btree.entry_iff [OF ok] by (auto split: if_splits) (metis sorted_list_of_set_empty)+
  then show ?thesis by (simp only: keys closure_spec_def)
qed

section \<open>The validation loops\<close>

lemma seed_run:
  assumes "try_fold (closure_seed cancel l) st seeds = Inr st'"
  shows "ci_seeds st' = ci_seeds st \<union> set seeds \<and> ci_reverse st' = ci_reverse st"
  using assms
  by (induction seeds arbitrary: st) (auto simp: closure_seed_def and_then_Inr_iff split: if_splits)

lemma dependency_run:
  assumes "try_fold (closure_dependency cancel l) st deps = Inr st'"
  shows "ci_seeds st' = ci_seeds st \<and> ci_reverse st' = foldl push_reverse (ci_reverse st) deps \<and>
    (\<forall>d\<in>set deps. sd_dependent_path_identity d \<noteq> sd_prerequisite_path_identity d)"
  using assms
  by (induction deps arbitrary: st)
    (auto simp: closure_dependency_def and_then_Inr_iff split: if_splits)

lemma start_run:
  assumes "try_fold (start_seed l) st seeds = Inr st'" "bt_ok (cs_discovered st)"
  shows "bt_ok (cs_discovered st') \<and>
    map_of (cs_discovered st') = (\<lambda>p. if p \<in> set seeds then Some (0, {}) else map_of (cs_discovered st) p) \<and>
    set (cs_queue st') = set (cs_queue st) \<union> set seeds"
  using assms
proof (induction seeds arbitrary: st)
  case Nil
  then show ?case by simp
next
  case (Cons s seeds)
  then obtain m where m: "start_seed l st s = Inr m" "try_fold (start_seed l) m seeds = Inr st'"
    by (auto simp: and_then_Inr_iff)
  then have "cs_discovered m = bt_insert s (0, {}) (cs_discovered st)"
    "cs_queue m = cs_queue st @ [s]"
    by (auto simp: start_seed_def and_then_Inr_iff)
  with Cons.IH [OF m(2)] Cons.prems(2) show ?case by (auto simp: bt_ok_insert fun_eq_iff)
qed

lemma closure_ok:
  assumes "reverse_dependency_closure seeds deps cancel l = Inr out"
  shows "\<exists>st. closure_inv l deps (set seeds) st \<and> settled deps st {} \<and> cs_queue st = [] \<and>
    out = map (\<lambda>(p, depth, via).
           \<lparr>ip_path_identity = p, ip_depth = depth, ip_via = sorted_list_of_set via\<rparr>)
         (cs_discovered st)"
proof -
  obtain n i0 i st0 st where runs:
    "try_fold (closure_seed cancel l) \<lparr>ci_polls = n, ci_input_bytes = 0, ci_seeds = {},
       ci_unique_edges = {}, ci_reverse = []\<rparr> seeds = Inr i0"
    "try_fold (closure_dependency cancel l) i0 deps = Inr i"
    "card (ci_seeds i) \<le> iv_max_invalidated_paths l"
    "try_fold (start_seed l) \<lparr>cs_polls = ci_polls i, cs_output_bytes = 0, cs_discovered = [],
       cs_queue = []\<rparr> (sorted_list_of_set (ci_seeds i)) = Inr st0"
    "closure_loop cancel l (sort_edges (ci_reverse i)) st0 = Inr st"
    "out = map (\<lambda>(p, depth, via).
           \<lparr>ip_path_identity = p, ip_depth = depth, ip_via = sorted_list_of_set via\<rparr>)
         (cs_discovered st)"
    using assms by (auto simp: reverse_dependency_closure_def and_then_Inr_iff not_less split: if_splits)
  have i: "ci_seeds i = set seeds" "ci_reverse i = build_reverse deps"
    "\<forall>d\<in>set deps. sd_dependent_path_identity d \<noteq> sd_prerequisite_path_identity d"
    using seed_run [OF runs(1)] dependency_run [OF runs(2)] by (simp_all add: build_reverse_def)
  have st0: "bt_ok (cs_discovered st0)"
    "map_of (cs_discovered st0) = (\<lambda>p. if p \<in> set seeds then Some (0, {}) else None)"
    "set (cs_queue st0) = set seeds"
    using start_run [OF runs(4)] by (simp_all add: i fun_eq_iff)
  have dom: "dom (map_of (cs_discovered st0)) = set seeds"
    unfolding st0(2) by (auto simp: dom_def)
  have "closure_inv l deps (set seeds) st0"
    using st0 runs(3) btree.length_entries [OF st0(1)] unfolding closure_inv_def dom
    by (auto simp: i split: if_splits)
  moreover have "settled deps st0 {}" unfolding settled_def dom st0(3) by simp
  ultimately show ?thesis
    using built.loop_correct [OF i(3) runs(5) [unfolded i(2)]] runs(6) by blast
qed

text \<open>C4. A closure that is returned is the whole closure: exactly the paths that depend on a
  seed through some chain of dependencies, each listed once in order, with its least number of hops
  and with all kinds of the dependencies that pull it in; no bound, no cycle and no repeated visit
  ever leaves a partial answer.\<close>

theorem reverse_dependency_closure_exact:
  assumes "reverse_dependency_closure seeds deps cancel l = Inr out"
  shows "out = closure_spec deps (set seeds)"
  using closure_ok [OF assms] settled_spec by blast

text \<open>The closure respects its limits: no more paths and no more hops than configured.\<close>

theorem reverse_dependency_closure_bounded:
  assumes "reverse_dependency_closure seeds deps cancel l = Inr out"
  shows "length out \<le> iv_max_invalidated_paths l \<and> (\<forall>p\<in>set out. ip_depth p \<le> iv_max_depth l)"
proof -
  obtain st where st: "closure_inv l deps (set seeds) st"
    "out = map (\<lambda>(p, depth, via).
           \<lparr>ip_path_identity = p, ip_depth = depth, ip_via = sorted_list_of_set via\<rparr>)
         (cs_discovered st)"
    using closure_ok [OF assms] by blast
  then have ok: "bt_ok (cs_discovered st)" by (simp add: closure_inv_def)
  show ?thesis
    using st btree.entry_iff [OF ok] by (auto simp: closure_inv_def)
qed

section \<open>Input drift, abstractly\<close>

definition drifted :: "(input_key, string) btree_map \<Rightarrow> (input_key, string) btree_map \<Rightarrow> input_key set" where
  "drifted p c = {key. map_of p key \<noteq> map_of c key}"

definition drift_decision ::
  "(input_key, string) btree_map \<Rightarrow> (input_key, string) btree_map \<Rightarrow> ArchaeologyInputDecision" where
  "drift_decision p c =
     \<lparr>id_mode =
        (if (Input_Parser, Some ''global'') \<in> drifted p c \<or>
            fst ` drifted p c \<inter> {Input_Ignore, Input_Config, Input_Schema, Input_Algorithm} \<noteq> {}
           then Mode_GlobalRebuild
         else if fst ` drifted p c \<inter> {Input_Head, Input_Parser} \<noteq> {} then Mode_Scoped
         else if drifted p c \<noteq> {} then Mode_SynthesisOnly
         else Mode_NoOp),
      id_changed_kinds = sorted_list_of_set (fst ` drifted p c),
      id_parser_scopes = sorted_list_of_set {s. (Input_Parser, Some s) \<in> drifted p c},
      id_synthesis_policy_scopes =
        sorted_list_of_set {s. (Input_SynthesisPolicy, Some s) \<in> drifted p c}\<rparr>"

definition well_scoped :: "input_key \<Rightarrow> bool" where
  "well_scoped key \<longleftrightarrow>
     (fst key = Input_Parser \<or> fst key = Input_SynthesisPolicy \<longleftrightarrow> snd key \<noteq> None)"

lemma insert_input_ok:
  assumes "insert_input m i = Inr m'"
  shows "m' = bt_insert (gi_kind i, gi_scope i) (gi_identity i) m \<and>
    well_scoped (gi_kind i, gi_scope i) \<and> (gi_kind i, gi_scope i) \<notin> dom (map_of m)"
  using assms by (auto simp: insert_input_def and_then_Inr_iff well_scoped_def split: if_splits)

lemma input_map_run:
  assumes "try_fold insert_input m is = Inr m'" "\<forall>key\<in>dom (map_of m). well_scoped key"
  shows "\<forall>key\<in>dom (map_of m'). well_scoped key"
  using assms
proof (induction "is" arbitrary: m)
  case Nil
  then show ?case by simp
next
  case (Cons i "is")
  then obtain n where n: "insert_input m i = Inr n" "try_fold insert_input n is = Inr m'"
    by (auto simp: and_then_Inr_iff)
  have "\<forall>key\<in>dom (map_of n). well_scoped key"
    using insert_input_ok [OF n(1)] Cons.prems(2) by simp
  then show ?case by (rule Cons.IH [OF n(2)])
qed

lemma input_map_scoped:
  "input_map is = Inr m \<Longrightarrow> key \<in> dom (map_of m) \<Longrightarrow> well_scoped key"
  unfolding input_map_def using input_map_run [of "[]" "is" m] by simp

definition drift_effect :: "(input_key \<Rightarrow> bool) \<Rightarrow> drift \<Rightarrow> input_key \<Rightarrow> drift" where
  "drift_effect changed dr key =
     (if \<not> changed key then dr
      else
        \<lparr>dr_changed_kinds = insert (fst key) (dr_changed_kinds dr),
         dr_parser_scopes = {s. key = (Input_Parser, Some s)} \<union> dr_parser_scopes dr,
         dr_synthesis_scopes = {s. key = (Input_SynthesisPolicy, Some s)} \<union> dr_synthesis_scopes dr,
         dr_global = (dr_global dr \<or> key = (Input_Parser, Some ''global'') \<or>
           fst key \<in> {Input_Ignore, Input_Config, Input_Schema, Input_Algorithm}),
         dr_scoped = (dr_scoped dr \<or> fst key = Input_Head \<or>
           (fst key = Input_Parser \<and> key \<noteq> (Input_Parser, Some ''global''))),
         dr_synthesis_only = (dr_synthesis_only dr \<or> fst key = Input_SynthesisPolicy)\<rparr>)"

lemma classify_key_ok:
  assumes "well_scoped key"
  shows "classify_key p c dr key = Inr (drift_effect (\<lambda>k. map_of p k \<noteq> map_of c k) dr key)"
proof -
  obtain kind scope where key: "key = (kind, scope)" by (cases key)
  show ?thesis
    using assms unfolding key
    by (cases dr; cases kind; cases scope)
      (simp_all add: classify_key_def drift_effect_def well_scoped_def Let_def)
qed

lemma classify_run:
  assumes "\<forall>key\<in>set keys. well_scoped key"
  shows "try_fold (classify_key p c) dr keys =
    Inr (foldl (drift_effect (\<lambda>k. map_of p k \<noteq> map_of c k)) dr keys)"
  using assms by (induction keys arbitrary: dr) (simp_all add: classify_key_ok)

lemma drift_effects:
  fixes ch keys dr
  defines "D \<equiv> set (filter ch keys)" and "r \<equiv> foldl (drift_effect ch) dr keys"
  shows "dr_changed_kinds r = fst ` D \<union> dr_changed_kinds dr"
    and "dr_parser_scopes r = {s. (Input_Parser, Some s) \<in> D} \<union> dr_parser_scopes dr"
    and "dr_synthesis_scopes r = {s. (Input_SynthesisPolicy, Some s) \<in> D} \<union> dr_synthesis_scopes dr"
    and "dr_global r \<longleftrightarrow> (\<exists>k\<in>D. k = (Input_Parser, Some ''global'') \<or>
       fst k \<in> {Input_Ignore, Input_Config, Input_Schema, Input_Algorithm}) \<or> dr_global dr"
    and "dr_scoped r \<longleftrightarrow> (\<exists>k\<in>D. fst k = Input_Head \<or>
       (fst k = Input_Parser \<and> k \<noteq> (Input_Parser, Some ''global''))) \<or> dr_scoped dr"
    and "dr_synthesis_only r \<longleftrightarrow> (\<exists>k\<in>D. fst k = Input_SynthesisPolicy) \<or> dr_synthesis_only dr"
  unfolding D_def r_def
  subgoal by (induction keys arbitrary: dr) (simp_all add: drift_effect_def)
  subgoal by (induction keys arbitrary: dr) (simp_all add: drift_effect_def, blast)
  subgoal by (induction keys arbitrary: dr) (simp_all add: drift_effect_def, blast)
  subgoal by (induction keys arbitrary: dr) (simp_all add: drift_effect_def, blast)
  subgoal by (induction keys arbitrary: dr) (simp_all add: drift_effect_def, blast)
  subgoal by (induction keys arbitrary: dr) (simp_all add: drift_effect_def, blast)
  done

lemma drifted_listed:
  "set (filter (\<lambda>k. map_of p k \<noteq> map_of c k) (sorted_list_of_set (set (map fst p @ map fst c)))) =
     drifted p c"
proof -
  have "k \<in> set (map fst p @ map fst c)" if "map_of p k \<noteq> map_of c k" for k
  proof (rule ccontr)
    assume "\<not> ?thesis"
    then have "map_of p k = None" "map_of c k = None" by (simp_all add: map_of_eq_None_iff)
    with that show False by simp
  qed
  then show ?thesis by (auto simp: drifted_def)
qed

lemma classified_mode:
  "(if (\<exists>k\<in>D. k = (Input_Parser, Some ''global'') \<or>
         fst k \<in> {Input_Ignore, Input_Config, Input_Schema, Input_Algorithm}) then Mode_GlobalRebuild
    else if (\<exists>k\<in>D. fst k = Input_Head \<or>
       (fst k = Input_Parser \<and> k \<noteq> (Input_Parser, Some ''global''))) then Mode_Scoped
    else if (\<exists>k\<in>D. fst k = Input_SynthesisPolicy) then Mode_SynthesisOnly else Mode_NoOp) =
   (if (Input_Parser, Some ''global'') \<in> D \<or>
       fst ` D \<inter> {Input_Ignore, Input_Config, Input_Schema, Input_Algorithm} \<noteq> {}
      then Mode_GlobalRebuild
    else if fst ` D \<inter> {Input_Head, Input_Parser} \<noteq> {} then Mode_Scoped
    else if D \<noteq> {} then Mode_SynthesisOnly else Mode_NoOp)" (is "?l = ?r")
proof -
  have kinds: "fst k \<in> {Input_Ignore, Input_Config, Input_Schema, Input_Algorithm} \<or>
      fst k \<in> {Input_Head, Input_Parser} \<or> fst k = Input_SynthesisPolicy" for k :: input_key
    by (cases "fst k") simp_all
  have "(\<exists>k\<in>D. k = (Input_Parser, Some ''global'') \<or>
        fst k \<in> {Input_Ignore, Input_Config, Input_Schema, Input_Algorithm}) \<longleftrightarrow>
      (Input_Parser, Some ''global'') \<in> D \<or>
        fst ` D \<inter> {Input_Ignore, Input_Config, Input_Schema, Input_Algorithm} \<noteq> {}"
    by blast
  moreover have "(\<exists>k\<in>D. fst k = Input_Head \<or>
       (fst k = Input_Parser \<and> k \<noteq> (Input_Parser, Some ''global''))) \<longleftrightarrow>
      fst ` D \<inter> {Input_Head, Input_Parser} \<noteq> {}" if none: "(Input_Parser, Some ''global'') \<notin> D"
  proof -
    have "k \<noteq> (Input_Parser, Some ''global'')" if "k \<in> D" for k using none that by blast
    then have "(\<exists>k\<in>D. fst k = Input_Head \<or>
        (fst k = Input_Parser \<and> k \<noteq> (Input_Parser, Some ''global''))) \<longleftrightarrow>
      (\<exists>k\<in>D. fst k = Input_Head \<or> fst k = Input_Parser)" by blast
    then show ?thesis by blast
  qed
  moreover have "(\<exists>k\<in>D. fst k = Input_SynthesisPolicy) \<longleftrightarrow> D \<noteq> {}"
    if "fst ` D \<inter> {Input_Ignore, Input_Config, Input_Schema, Input_Algorithm} = {}"
      "fst ` D \<inter> {Input_Head, Input_Parser} = {}"
    using that kinds by blast
  ultimately show ?thesis
    by (cases "(Input_Parser, Some ''global'') \<in> D";
        cases "fst ` D \<inter> {Input_Ignore, Input_Config, Input_Schema, Input_Algorithm} = {}";
        cases "fst ` D \<inter> {Input_Head, Input_Parser} = {}")
      (simp_all only: simp_thms if_True if_False)
qed

text \<open>C5. Drift classification is total on valid inputs and decided by the set of keys whose
  identities differ: a changed ignore, config, schema, algorithm or global parser identity rebuilds
  everything, otherwise a changed head or scoped parser is scoped, otherwise any change is
  synthesis-only, and no change is a no-op; the internal lost-scope errors never occur.\<close>

theorem classify_generation_input_changes_eq:
  "classify_generation_input_changes previous current =
     and_then (input_map previous) (\<lambda>p. and_then (input_map current) (\<lambda>c. Inr (drift_decision p c)))"
proof (cases "\<exists>p c. input_map previous = Inr p \<and> input_map current = Inr c")
  case True
  then obtain p c where pc: "input_map previous = Inr p" "input_map current = Inr c" by blast
  let ?keys = "sorted_list_of_set (set (map fst p @ map fst c))"
  have "\<forall>key\<in>set ?keys. well_scoped key"
  proof
    fix key
    assume "key \<in> set ?keys"
    then have "key \<in> dom (map_of p) \<or> key \<in> dom (map_of c)"
      by (simp add: dom_map_of_conv_image_fst)
    then show "well_scoped key" using input_map_scoped [OF pc(1)] input_map_scoped [OF pc(2)] by blast
  qed
  note run = classify_run [OF this, of p c]
  show ?thesis
    unfolding classify_generation_input_changes_def pc and_then_simps run drift_decision_def
      drift_effects drifted_listed drift.select_convs Un_empty_right simp_thms
    by (subst classified_mode) (rule refl)
next
  case False
  then show ?thesis
    by (cases "input_map previous"; cases "input_map current")
      (auto simp: classify_generation_input_changes_def)
qed

lemma exact_revision_byte: "is_ascii_digit b \<or> (97 \<le> byte b \<and> byte b \<le> 102) \<longleftrightarrow> lower_hex_byte b"
  by (auto simp: lower_hex_byte_def is_ascii_hexdigit_def is_ascii_uppercase_def is_ascii_digit_def)

text \<open>The revision check of the planner and the one of the contracts accept the same strings.\<close>

theorem is_exact_revision_iff_contract:
  "is_exact_revision value \<longleftrightarrow> validate_revision_sha value = Inr ()"
  by (simp add: is_exact_revision_def validate_revision_sha_ok exact_revision_byte)

section \<open>Witnesses\<close>

definition sample_dependency :: "string \<Rightarrow> string \<Rightarrow> ArchaeologySourceDependency" where
  "sample_dependency d p =
     \<lparr>sd_dependent_path_identity = d, sd_prerequisite_path_identity = p, sd_kind = Dep_Call\<rparr>"

lemma sample_closure:
  "\<exists>out. reverse_dependency_closure [''a''] [sample_dependency ''b'' ''a'', sample_dependency ''a'' ''b'']
     (\<lambda>n. False) invalidation_limits_default = Inr out"
  by (simp add: reverse_dependency_closure_def poll_def validate_limits_def invalidation_limits_default_def
      closure_seed_def validate_identity_def add_bounded_def saturating_add_def usize_max_def
      closure_dependency_def sample_dependency_def edge_key_def push_reverse_def sort_edges_def
      start_seed_def closure_loop.simps edges_of_def relax_dependency_def relax_known_def relax_new_def
      text_eval Let_def)

theorem reverse_dependency_closure_exact_witness:
  "\<exists>out. reverse_dependency_closure [''a''] [sample_dependency ''b'' ''a'', sample_dependency ''a'' ''b'']
     (\<lambda>n. False) invalidation_limits_default = Inr out \<and>
     out = closure_spec [sample_dependency ''b'' ''a'', sample_dependency ''a'' ''b''] {''a''}"
  using sample_closure reverse_dependency_closure_exact
  by (metis empty_set list.simps(15))

theorem reverse_dependency_closure_bounded_witness:
  "\<exists>out. reverse_dependency_closure [''a''] [sample_dependency ''b'' ''a'', sample_dependency ''a'' ''b'']
     (\<lambda>n. False) invalidation_limits_default = Inr out \<and>
     length out \<le> 250000"
proof -
  obtain out where out: "reverse_dependency_closure [''a'']
      [sample_dependency ''b'' ''a'', sample_dependency ''a'' ''b''] (\<lambda>n. False)
      invalidation_limits_default = Inr out"
    using sample_closure by blast
  from reverse_dependency_closure_bounded [OF this] out show ?thesis
    by (auto simp: invalidation_limits_default_def)
qed

end
