(* ===== verification/Graph_Import.thy ===== *)
theory Graph_Import
  imports Rust_Text
begin

text \<open>
  The repository graph and the import of an external graph file
  (\<open>commands/unpack_types.rs\<close>, \<open>commands/graph_trust.rs\<close>). The JSON library is third-party: the
  parsed document is its documented \<open>Value\<close> type, whose numbers are a type parameter read through
  two parameters, \<open>num_text\<close> (the number printed) and \<open>num_u64\<close> (its value when it is an unsigned
  64-bit integer), and the parser itself is the parameter \<open>parse\<close>. An object is the list of its
  members, one per key, as the library stores them.
\<close>

section \<open>The graph\<close>

record RepoGraphSourceLocation =
  gl_path :: string
  gl_line :: "nat option"
  gl_column :: "nat option"

record RepoGraphNode =
  gn_id :: string
  gn_kind :: string
  gn_label :: string
  gn_path :: "string option"
  gn_detail :: "string option"
  gn_sources :: "string list"
  gn_source_location :: "RepoGraphSourceLocation option"
  gn_community :: "string option"

record RepoGraphEdge =
  ge_from :: string
  ge_to :: string
  ge_kind :: string
  ge_evidence :: string
  ge_sources :: "string list"
  ge_trust :: string
  ge_origin :: string
  ge_confidence_label :: "string option"

record RepoGraph =
  rg_schema_version :: int
  rg_nodes :: "RepoGraphNode list"
  rg_edges :: "RepoGraphEdge list"
  rg_truncated :: bool

definition default_repo_graph :: RepoGraph where
  "default_repo_graph =
     \<lparr>rg_schema_version = 1, rg_nodes = [], rg_edges = [], rg_truncated = False\<rparr>"

definition MAX_GRAPH_IMPORT_BYTES :: nat where
  "MAX_GRAPH_IMPORT_BYTES = 5 * 1024 * 1024"

definition MAX_GRAPH_IMPORT_NODES :: nat where
  "MAX_GRAPH_IMPORT_NODES = 5000"

definition MAX_GRAPH_IMPORT_EDGES :: nat where
  "MAX_GRAPH_IMPORT_EDGES = 10000"

section \<open>JSON values\<close>

datatype 'n json =
  JNull | JBool bool | JNumber 'n | JString string | JArray "'n json list"
| JObject "(string \<times> 'n json) list"

definition json_get :: "'n json \<Rightarrow> string \<Rightarrow> 'n json option" where
  "json_get v key = (case v of JObject members \<Rightarrow> map_of members key | _ \<Rightarrow> None)"

definition json_array :: "'n json \<Rightarrow> 'n json list option" where
  "json_array v = (case v of JArray items \<Rightarrow> Some items | _ \<Rightarrow> None)"

definition json_str :: "'n json \<Rightarrow> string option" where
  "json_str v = (case v of JString s \<Rightarrow> Some s | _ \<Rightarrow> None)"

definition json_u64 :: "('n \<Rightarrow> nat option) \<Rightarrow> 'n json \<Rightarrow> nat option" where
  "json_u64 num_u64 v = (case v of JNumber n \<Rightarrow> num_u64 n | _ \<Rightarrow> None)"

definition bounded_text :: "string \<Rightarrow> nat \<Rightarrow> string" where
  "bounded_text value n = concat (take n (utf8_units value))"

definition value_string :: "('n \<Rightarrow> string) \<Rightarrow> 'n json option \<Rightarrow> string option" where
  "value_string num_text v =
     (case v of
        Some (JString s) \<Rightarrow> Some s
      | Some (JNumber n) \<Rightarrow> Some (num_text n)
      | Some (JBool b) \<Rightarrow> Some (if b then ''true'' else ''false'')
      | _ \<Rightarrow> None)"

fun find_map :: "('a \<Rightarrow> 'b option) \<Rightarrow> 'a list \<Rightarrow> 'b option" where
  "find_map f [] = None"
| "find_map f (x # xs) = (case f x of Some y \<Rightarrow> Some y | None \<Rightarrow> find_map f xs)"

definition first_string :: "('n \<Rightarrow> string) \<Rightarrow> 'n json \<Rightarrow> string list \<Rightarrow> string option" where
  "first_string num_text value keys =
     option_then (find_map (\<lambda>key. value_string num_text (json_get value key)) keys)
       (\<lambda>s. if trim s \<noteq> [] then Some s else None)"

definition endpoint_id :: "('n \<Rightarrow> string) \<Rightarrow> 'n json option \<Rightarrow> string option" where
  "endpoint_id num_text v =
     (case v of
        Some (JObject members) \<Rightarrow> first_string num_text (JObject members) [''id'', ''key'']
      | other \<Rightarrow> value_string num_text other)"

definition location_of ::
  "('n \<Rightarrow> nat option) \<Rightarrow> 'n json \<Rightarrow> string \<Rightarrow> RepoGraphSourceLocation" where
  "location_of num_u64 v path =
     \<lparr>gl_path = bounded_text path 1024,
      gl_line = option_then (json_get v ''line'') (json_u64 num_u64),
      gl_column = option_then (json_get v ''column'') (json_u64 num_u64)\<rparr>"

definition parse_location ::
  "('n \<Rightarrow> string) \<Rightarrow> ('n \<Rightarrow> nat option) \<Rightarrow> 'n json \<Rightarrow> RepoGraphSourceLocation option" where
  "parse_location num_text num_u64 value =
     (let fallback = option_then (first_string num_text value [''source_file'', ''file''])
            (\<lambda>path. Some (location_of num_u64 value path))
      in case or_else (json_get value ''source_location'') (json_get value ''location'') of
           Some (JString path) \<Rightarrow>
             (if trim path \<noteq> []
              then Some \<lparr>gl_path = bounded_text path 1024, gl_line = None, gl_column = None\<rparr>
              else fallback)
         | Some (JObject members) \<Rightarrow>
             option_then (first_string num_text (JObject members) [''path'', ''file'', ''source_file''])
               (\<lambda>path. Some (location_of num_u64 (JObject members) path))
         | _ \<Rightarrow> fallback)"

definition imported_trust :: "string option \<Rightarrow> string" where
  "imported_trust confidence =
     (let c = to_ascii_lowercase (trim (case confidence of None \<Rightarrow> [] | Some c \<Rightarrow> c))
      in if c \<in> {''extracted'', ''high'', ''certain'', ''verified''} then ''extracted''
         else if c \<in> {''inferred'', ''medium'', ''moderate'', ''likely''} then ''inferred''
         else ''ambiguous'')"

section \<open>Import\<close>

datatype import_error =
  GraphTooLarge nat | GraphMalformed | NodesExpected | EdgesExpected
| TooManyNodes nat | TooManyEdges nat | NodeWithoutId nat | DuplicateNodeId string
| WithoutSource nat | WithoutTarget nat | MissingEndpoint nat string string

definition import_node ::
  "('n \<Rightarrow> string) \<Rightarrow> ('n \<Rightarrow> nat option) \<Rightarrow> string set \<times> RepoGraphNode list \<Rightarrow> nat \<times> 'n json
     \<Rightarrow> (import_error, string set \<times> RepoGraphNode list) result" where
  "import_node num_text num_u64 acc entry =
     (case acc of (ids, nodes) \<Rightarrow> case entry of (index, raw) \<Rightarrow>
        and_then (ok_or (first_string num_text raw [''id'', ''key'']) (NodeWithoutId (index + 1)))
          (\<lambda>raw_id.
            (let id = bounded_text raw_id 512
             in if id \<in> ids then Inl (DuplicateNodeId id)
                else
                  (let label = (case first_string num_text raw [''label'', ''name'', ''title''] of
                                  None \<Rightarrow> id | Some l \<Rightarrow> l);
                       path = first_string num_text raw [''path'', ''source_file'', ''file''];
                       location = parse_location num_text num_u64 raw
                   in Inr (insert id ids,
                        nodes @
                          [\<lparr>gn_id = id,
                            gn_kind = bounded_text
                              (case first_string num_text raw [''kind'', ''type''] of
                                 None \<Rightarrow> ''concept'' | Some k \<Rightarrow> k) 128,
                            gn_label = bounded_text label 1024,
                            gn_path = map_option (\<lambda>p. bounded_text p 1024) path,
                            gn_detail = map_option (\<lambda>d. bounded_text d 2048)
                              (first_string num_text raw [''detail'', ''description'']),
                            gn_sources = (case location of
                                Some l \<Rightarrow> [gl_path l]
                              | None \<Rightarrow> (case path of Some p \<Rightarrow> [p] | None \<Rightarrow> [])),
                            gn_source_location = location,
                            gn_community = map_option (\<lambda>c. bounded_text c 256)
                              (first_string num_text raw [''community'', ''community_id'', ''cluster''])\<rparr>])))))"

definition location_source :: "RepoGraphSourceLocation \<Rightarrow> string" where
  "location_source l =
     (case (gl_line l, gl_column l) of
        (Some line, Some column) \<Rightarrow> gl_path l @ ''#L'' @ decimal line @ '':C'' @ decimal column
      | (Some line, None) \<Rightarrow> gl_path l @ ''#L'' @ decimal line
      | _ \<Rightarrow> gl_path l)"

definition import_edge ::
  "('n \<Rightarrow> string) \<Rightarrow> ('n \<Rightarrow> nat option) \<Rightarrow> string set \<Rightarrow> RepoGraphEdge list \<Rightarrow> nat \<times> 'n json
     \<Rightarrow> (import_error, RepoGraphEdge list) result" where
  "import_edge num_text num_u64 ids edges entry =
     (case entry of (index, raw) \<Rightarrow>
        and_then (ok_or (endpoint_id num_text (or_else (json_get raw ''source'') (json_get raw ''from'')))
                    (WithoutSource (index + 1))) (\<lambda>raw_from.
        and_then (ok_or (endpoint_id num_text (or_else (json_get raw ''target'') (json_get raw ''to'')))
                    (WithoutTarget (index + 1))) (\<lambda>raw_to.
          (let from = bounded_text raw_from 512; to = bounded_text raw_to 512
           in if from \<notin> ids \<or> to \<notin> ids then Inl (MissingEndpoint (index + 1) from to)
              else
                (let kind = (case first_string num_text raw [''relation'', ''kind'', ''type''] of
                               None \<Rightarrow> ''related_to'' | Some k \<Rightarrow> k);
                     confidence = first_string num_text raw [''confidence'', ''trust''];
                     sources =
                       (case parse_location num_text num_u64 raw of
                          None \<Rightarrow> [] | Some l \<Rightarrow> [location_source l]) @
                       (case json_get raw ''sources'' of
                          Some (JArray extra) \<Rightarrow> List.map_filter json_str extra
                        | _ \<Rightarrow> []);
                     evidence = (case first_string num_text raw [''evidence'', ''description''] of
                                   None \<Rightarrow> ''Imported relationship `'' @ kind @ ''`''
                                 | Some e \<Rightarrow> e)
                 in Inr (edges @
                      [\<lparr>ge_from = from, ge_to = to, ge_kind = bounded_text kind 256,
                        ge_evidence = bounded_text evidence 2048,
                        ge_sources = map (\<lambda>s. bounded_text s 1024) (remdups_adj (sort sources)),
                        ge_trust = imported_trust confidence, ge_origin = ''imported'',
                        ge_confidence_label = map_option (\<lambda>c. bounded_text c 128) confidence\<rparr>]))))))"

definition normalize_external_graph_json ::
  "(string \<Rightarrow> 'n json option) \<Rightarrow> ('n \<Rightarrow> string) \<Rightarrow> ('n \<Rightarrow> nat option) \<Rightarrow> string
     \<Rightarrow> (import_error, RepoGraph) result" where
  "normalize_external_graph_json parse num_text num_u64 bytes =
     (if len bytes > MAX_GRAPH_IMPORT_BYTES then Inl (GraphTooLarge (len bytes))
      else
        and_then (ok_or (parse bytes) GraphMalformed) (\<lambda>root.
        and_then (ok_or (option_then (json_get root ''nodes'') json_array) NodesExpected) (\<lambda>nodes_raw.
        and_then (ok_or (option_then (or_else (json_get root ''links'') (json_get root ''edges'')) json_array)
                    EdgesExpected) (\<lambda>edges_raw.
          if length nodes_raw > MAX_GRAPH_IMPORT_NODES then Inl (TooManyNodes (length nodes_raw))
          else if length edges_raw > MAX_GRAPH_IMPORT_EDGES then Inl (TooManyEdges (length edges_raw))
          else
            and_then (try_fold (import_node num_text num_u64) ({}, []) (List.enumerate 0 nodes_raw))
              (\<lambda>(ids, nodes).
            and_then (try_fold (import_edge num_text num_u64 ids) [] (List.enumerate 0 edges_raw))
              (\<lambda>edges.
                Inr \<lparr>rg_schema_version = 2, rg_nodes = nodes, rg_edges = edges,
                     rg_truncated = False\<rparr>))))))"

section \<open>What an imported graph is\<close>

text \<open>At most n characters, that is Unicode scalar values.\<close>

definition text_within :: "nat \<Rightarrow> string \<Rightarrow> bool" where
  "text_within n s \<longleftrightarrow> length (utf8_units s) \<le> n"

lemma bounded_text_within [simp]: "text_within n (bounded_text t n)"
  by (simp add: text_within_def bounded_text_def utf8_units_take)

definition imported_node :: "RepoGraphNode \<Rightarrow> bool" where
  "imported_node v \<longleftrightarrow>
     text_within 512 (gn_id v) \<and> text_within 128 (gn_kind v) \<and> text_within 1024 (gn_label v) \<and>
     (\<forall>p. gn_path v = Some p \<longrightarrow> text_within 1024 p) \<and>
     (\<forall>d. gn_detail v = Some d \<longrightarrow> text_within 2048 d) \<and>
     (\<forall>c. gn_community v = Some c \<longrightarrow> text_within 256 c) \<and>
     (case gn_source_location v of
        Some l \<Rightarrow> text_within 1024 (gl_path l) \<and> gn_sources v = [gl_path l]
      | None \<Rightarrow> (case gn_path v of None \<Rightarrow> gn_sources v = []
          | Some path \<Rightarrow> \<exists>whole. gn_sources v = [whole] \<and> path = bounded_text whole 1024))"

definition imported_edge :: "string set \<Rightarrow> RepoGraphEdge \<Rightarrow> bool" where
  "imported_edge ids e \<longleftrightarrow>
     ge_from e \<in> ids \<and> ge_to e \<in> ids \<and> ge_origin e = ''imported'' \<and>
     ge_trust e \<in> {''extracted'', ''inferred'', ''ambiguous''} \<and>
     text_within 256 (ge_kind e) \<and> text_within 2048 (ge_evidence e) \<and>
     (\<forall>s\<in>set (ge_sources e). text_within 1024 s) \<and>
     (\<forall>c. ge_confidence_label e = Some c \<longrightarrow> text_within 128 c)"

lemma parse_location_within: "parse_location num_text num_u64 raw = Some l \<Longrightarrow> text_within 1024 (gl_path l)"
  by (auto simp: parse_location_def location_of_def option_then_def Let_def split: option.splits json.splits if_splits)

lemma import_node_ok:
  assumes "import_node num_text num_u64 (ids, nodes) entry = Inr (ids', nodes')"
  shows "\<exists>v. nodes' = nodes @ [v] \<and> ids' = insert (gn_id v) ids \<and> gn_id v \<notin> ids \<and> imported_node v"
  using assms
  by (cases entry; cases "parse_location num_text num_u64 (snd entry)";
      cases "first_string num_text (snd entry) [''path'', ''source_file'', ''file'']")
    (auto simp: import_node_def and_then_Inr_iff Let_def imported_node_def parse_location_within split: if_splits)

lemma import_nodes_ok:
  assumes "try_fold (import_node num_text num_u64) (ids, nodes) entries = Inr (ids', nodes')"
    "ids = gn_id ` set nodes" "distinct (map gn_id nodes)" "\<forall>v\<in>set nodes. imported_node v"
  shows "ids' = gn_id ` set nodes' \<and> distinct (map gn_id nodes') \<and>
    (\<forall>v\<in>set nodes'. imported_node v) \<and> length nodes' = length nodes + length entries"
  using assms
proof (induction entries arbitrary: ids nodes)
  case Nil
  then show ?case by auto
next
  case (Cons entry entries)
  then obtain ids1 nodes1 where s: "import_node num_text num_u64 (ids, nodes) entry = Inr (ids1, nodes1)"
    "try_fold (import_node num_text num_u64) (ids1, nodes1) entries = Inr (ids', nodes')"
    by (auto simp: and_then_Inr_iff)
  obtain v where v: "nodes1 = nodes @ [v]" "ids1 = insert (gn_id v) ids" "gn_id v \<notin> ids"
    "imported_node v"
    using import_node_ok [OF s(1)] by blast
  have "ids' = gn_id ` set nodes' \<and> distinct (map gn_id nodes') \<and>
      (\<forall>v\<in>set nodes'. imported_node v) \<and> length nodes' = length nodes1 + length entries"
    using Cons.prems(2-4) v by (intro Cons.IH [OF s(2)]) auto
  then show ?case by (simp add: v)
qed

lemma imported_trust_values: "imported_trust c \<in> {''extracted'', ''inferred'', ''ambiguous''}"
  by (simp add: imported_trust_def Let_def)

lemma import_edge_ok:
  assumes "import_edge num_text num_u64 ids edges entry = Inr edges'"
  shows "\<exists>e. edges' = edges @ [e] \<and> imported_edge ids e"
  using assms imported_trust_values
  by (cases entry)
    (auto simp: import_edge_def and_then_Inr_iff Let_def imported_edge_def split: if_splits)

lemma import_edges_ok:
  assumes "try_fold (import_edge num_text num_u64 ids) edges entries = Inr edges'"
    "\<forall>e\<in>set edges. imported_edge ids e"
  shows "(\<forall>e\<in>set edges'. imported_edge ids e) \<and> length edges' = length edges + length entries"
  using assms
proof (induction entries arbitrary: edges)
  case Nil
  then show ?case by simp
next
  case (Cons entry entries)
  then obtain m where m: "import_edge num_text num_u64 ids edges entry = Inr m"
    "try_fold (import_edge num_text num_u64 ids) m entries = Inr edges'"
    by (auto simp: and_then_Inr_iff)
  with import_edge_ok [OF m(1)] Cons.IH [OF m(2)] Cons.prems(2) show ?case by auto
qed

definition well_formed_import :: "RepoGraph \<Rightarrow> bool" where
  "well_formed_import g \<longleftrightarrow>
     rg_schema_version g = 2 \<and> distinct (map gn_id (rg_nodes g)) \<and>
     length (rg_nodes g) \<le> MAX_GRAPH_IMPORT_NODES \<and> length (rg_edges g) \<le> MAX_GRAPH_IMPORT_EDGES \<and>
     (\<forall>v\<in>set (rg_nodes g). imported_node v) \<and>
     (\<forall>e\<in>set (rg_edges g). imported_edge (gn_id ` set (rg_nodes g)) e)"

lemma normalize_well_formed:
  assumes "normalize_external_graph_json parse num_text num_u64 bytes = Inr g"
  shows "well_formed_import g"
proof -
  obtain nodes_raw edges_raw ids nodes edges where r:
    "try_fold (import_node num_text num_u64) ({}, []) (List.enumerate 0 nodes_raw) = Inr (ids, nodes)"
    "try_fold (import_edge num_text num_u64 ids) [] (List.enumerate 0 edges_raw) = Inr edges"
    "length nodes_raw \<le> MAX_GRAPH_IMPORT_NODES" "length edges_raw \<le> MAX_GRAPH_IMPORT_EDGES"
    "g = \<lparr>rg_schema_version = 2, rg_nodes = nodes, rg_edges = edges, rg_truncated = False\<rparr>"
    using assms
    by (auto simp: normalize_external_graph_json_def and_then_Inr_iff not_less split: if_splits)
  show ?thesis
    using import_nodes_ok [OF r(1)] import_edges_ok [OF r(2)] r(3-5)
    by (simp add: well_formed_import_def)
qed

text \<open>
  The one text that is stored whole: a node with a path and no location keeps that path as its source, however
  long it is, where the sources of a relationship are cut.
\<close>

lemma node_source_is_not_cut:
  assumes "path \<noteq> []" "trim path \<noteq> []"
  shows "import_node num_text num_u64 ({}, []) (0, JObject [(''id'', JString ''n''), (''path'', JString path)]) =
    Inr ({''n''}, [\<lparr>gn_id = ''n'', gn_kind = ''concept'', gn_label = ''n'', gn_path = Some (bounded_text path 1024),
      gn_detail = None, gn_sources = [path], gn_source_location = None, gn_community = None\<rparr>])"
  using assms
  by (simp add: import_node_def first_string_def value_string_def json_get_def option_then_def parse_location_def
      or_else_def bounded_text_def text_eval Let_def)


end
