(* ===== verification/Graph_Path.thy ===== *)
theory Graph_Path
  imports Graph_Import Ordered_Map
begin

text \<open>
  Endpoint resolution and bounded path tracing on a repository graph
  (\<open>commands/graph_trust.rs\<close>). The binary heap of reversed keys is a priority queue: the locale
  \<open>min_queue\<close> is its contract and the sorted list of its elements its model. Costs are \<open>u32\<close> and
  hop counts \<open>usize\<close> in the code; they are natural numbers here, because a search costs at most
  eight per hop and takes at most sixteen hops, which is proved. The search loop ends because
  every iteration either counts a visited node, of which there are at most the configured number,
  or drops a stale heap entry.
\<close>

section \<open>Priority queues\<close>

locale min_queue =
  fixes push :: "'a::linorder \<Rightarrow> 'q \<Rightarrow> 'q"
    and pop :: "'q \<Rightarrow> ('a \<times> 'q) option"
    and elements :: "'q \<Rightarrow> 'a multiset"
    and inv :: "'q \<Rightarrow> bool"
  assumes push_inv: "inv q \<Longrightarrow> inv (push x q)"
    and push_elements: "inv q \<Longrightarrow> elements (push x q) = add_mset x (elements q)"
    and pop_None: "inv q \<Longrightarrow> pop q = None \<longleftrightarrow> elements q = {#}"
    and pop_Some: "inv q \<Longrightarrow> pop q = Some (x, r) \<Longrightarrow>
      inv r \<and> elements q = add_mset x (elements r) \<and> (\<forall>y\<in>#elements r. x \<le> y)"
begin

lemma pop_members:
  "inv q \<Longrightarrow> pop q = Some (x, r) \<Longrightarrow> set_mset (elements q) = insert x (set_mset (elements r))"
  using pop_Some [of q x r] by simp

lemma pop_least: "inv q \<Longrightarrow> pop q = Some (x, r) \<Longrightarrow> y \<in># elements q \<Longrightarrow> x \<le> y"
  using pop_Some [of q x r] by auto

end

fun heap_pop :: "'a list \<Rightarrow> ('a \<times> 'a list) option" where
  "heap_pop [] = None"
| "heap_pop (x # h) = Some (x, h)"

definition heap_push :: "'a::linorder \<Rightarrow> 'a list \<Rightarrow> 'a list" where
  "heap_push x h = insort x h"

lemma heap_pop_Some: "heap_pop h = Some (x, r) \<longleftrightarrow> h = x # r"
  by (cases h) auto

interpretation heap: min_queue heap_push heap_pop mset sorted
proof
  show "sorted q \<Longrightarrow> sorted (heap_push x q)" for q :: "'a::linorder list" and x
    by (simp add: heap_push_def sorted_insort)
  show "mset (heap_push x q) = add_mset x (mset q)" if "sorted q" for q :: "'a::linorder list" and x
    by (simp add: heap_push_def)
  show "sorted q \<Longrightarrow> (heap_pop q = None) = (mset q = {#})" for q :: "'a::linorder list"
    by (cases q) simp_all
  show "sorted q \<Longrightarrow> heap_pop q = Some (x, r) \<Longrightarrow>
      sorted r \<and> mset q = add_mset x (mset r) \<and> (\<forall>y\<in>#mset r. x \<le> y)" for q r :: "'a::linorder list" and x
    by (simp add: heap_pop_Some)
qed

section \<open>Endpoints\<close>

record GraphEndpointCandidate =
  ec_id :: string
  ec_label :: string
  ec_kind :: string
  ec_path :: "string option"
  ec_score :: nat

datatype GraphEndpointStatus = Endpoint_Resolved | Endpoint_Ambiguous | Endpoint_NotFound

record GraphEndpointResolution =
  er_query :: string
  er_status :: GraphEndpointStatus
  er_selected :: "GraphEndpointCandidate option"
  er_candidates :: "GraphEndpointCandidate list"

definition tokens :: "string \<Rightarrow> string set" where
  "tokens value =
     to_ascii_lowercase ` set (filter (\<lambda>part. len part > 1)
       (split_on (\<lambda>u. \<not> (case u of [c] \<Rightarrow> is_ascii_alphanumeric c | _ \<Rightarrow> False)) value))"

definition endpoint_candidate :: "RepoGraphNode \<Rightarrow> nat \<Rightarrow> GraphEndpointCandidate" where
  "endpoint_candidate node score =
     \<lparr>ec_id = gn_id node, ec_label = gn_label node, ec_kind = gn_kind node,
      ec_path = gn_path node, ec_score = score\<rparr>"

definition endpoint_score :: "string \<Rightarrow> RepoGraphNode \<Rightarrow> nat option" where
  "endpoint_score query node =
     (let lower = to_ascii_lowercase query;
          id = to_ascii_lowercase (gn_id node);
          path = to_ascii_lowercase (case gn_path node of None \<Rightarrow> [] | Some p \<Rightarrow> p);
          label = to_ascii_lowercase (gn_label node)
      in if id = lower then Some 400
         else if path \<noteq> [] \<and> path = lower then Some 300
         else if label = lower then Some 200
         else
           (let common = card (tokens query \<inter>
                  tokens (gn_id node @ '' '' @ gn_label node @ '' '' @ path))
            in if common = 0 then None else Some (50 + common * 10)))"

definition rank_candidates :: "RepoGraphNode list \<Rightarrow> string \<Rightarrow> GraphEndpointCandidate list" where
  "rank_candidates nodes query =
     take 6 (sort_key (\<lambda>c. (- int (ec_score c), ec_id c))
       (List.map_filter (\<lambda>node. map_option (endpoint_candidate node) (endpoint_score query node)) nodes))"

definition ambiguous_ranking :: "GraphEndpointCandidate list \<Rightarrow> bool" where
  "ambiguous_ranking ranked =
     (case ranked of
        first # second # _ \<Rightarrow>
          ec_score second = ec_score first \<or>
          (ec_score first < 200 \<and> ec_score first - ec_score second \<le> 10)
      | _ \<Rightarrow> False)"

definition resolve_graph_endpoint ::
  "RepoGraph \<Rightarrow> string \<Rightarrow> string option \<Rightarrow> GraphEndpointResolution" where
  "resolve_graph_endpoint graph query selected_id =
     (let query = trim query in
      case option_then selected_id (\<lambda>id. List.find (\<lambda>node. gn_id node = id) (rg_nodes graph)) of
        Some node \<Rightarrow>
          \<lparr>er_query = query, er_status = Endpoint_Resolved,
           er_selected = Some (endpoint_candidate node 1000),
           er_candidates = [endpoint_candidate node 1000]\<rparr>
      | None \<Rightarrow>
          (if query = [] then
             \<lparr>er_query = [], er_status = Endpoint_NotFound, er_selected = None, er_candidates = []\<rparr>
           else
             (case rank_candidates (rg_nodes graph) query of
                [] \<Rightarrow> \<lparr>er_query = query, er_status = Endpoint_NotFound, er_selected = None,
                       er_candidates = []\<rparr>
              | first # rest \<Rightarrow>
                  (let ranked = first # rest; ambiguous = ambiguous_ranking ranked
                   in \<lparr>er_query = query,
                       er_status = (if ambiguous then Endpoint_Ambiguous else Endpoint_Resolved),
                       er_selected = (if ambiguous then None else Some first),
                       er_candidates = ranked\<rparr>))))"

section \<open>Path search\<close>

definition edge_weight :: "RepoGraphEdge \<Rightarrow> nat" where
  "edge_weight e =
     (if ge_trust e = ''extracted'' then 1
      else if ge_trust e = ''inferred'' then 4
      else if ge_trust e = ''legacy'' then 6
      else 8)"

text \<open>A neighbour: the index of the edge, the other endpoint, whether the edge is followed forward.\<close>

type_synonym neighbor = "nat \<times> string \<times> bool"

definition node_by_id :: "RepoGraph \<Rightarrow> string \<Rightarrow> RepoGraphNode option" where
  "node_by_id graph = map_of (rev (map (\<lambda>node. (gn_id node, node)) (rg_nodes graph)))"

definition push_neighbor ::
  "string \<Rightarrow> neighbor \<Rightarrow> (string \<Rightarrow> neighbor list) \<Rightarrow> (string \<Rightarrow> neighbor list)" where
  "push_neighbor key n adjacency = adjacency(key := adjacency key @ [n])"

definition add_edge ::
  "RepoGraph \<Rightarrow> (string \<Rightarrow> neighbor list) \<Rightarrow> nat \<times> RepoGraphEdge \<Rightarrow> (string \<Rightarrow> neighbor list)" where
  "add_edge graph adjacency entry =
     (case entry of (index, edge) \<Rightarrow>
        if node_by_id graph (ge_from edge) \<noteq> None \<and> node_by_id graph (ge_to edge) \<noteq> None
        then push_neighbor (ge_to edge) (index, ge_from edge, False)
               (push_neighbor (ge_from edge) (index, ge_to edge, True) adjacency)
        else adjacency)"

definition adjacency_of :: "RepoGraph \<Rightarrow> string \<Rightarrow> neighbor list" where
  "adjacency_of graph key =
     sort_key (\<lambda>n. (fst (snd n), fst n))
       (foldl (add_edge graph) (\<lambda>_. []) (List.enumerate 0 (rg_edges graph)) key)"

type_synonym search_key = "nat \<times> nat \<times> string"

record path_search =
  se_heap :: "search_key list"
  se_best :: "string \<Rightarrow> (nat \<times> nat) option"
  se_previous :: "string \<Rightarrow> (string \<times> nat \<times> bool) option"
  se_visited :: nat
  se_truncated :: bool
  se_reached_target :: bool

definition relax_neighbor ::
  "RepoGraph \<Rightarrow> string \<Rightarrow> nat \<Rightarrow> nat \<Rightarrow> path_search \<Rightarrow> neighbor \<Rightarrow> path_search" where
  "relax_neighbor graph current cost hops st n =
     (case n of (edge_index, next_id, forward) \<Rightarrow>
        (let next_cost = cost + edge_weight (rg_edges graph ! edge_index); next_hops = hops + 1
         in if (case se_best st next_id of None \<Rightarrow> True | Some v \<Rightarrow> (next_cost, next_hops) < v)
            then st\<lparr>se_best := (se_best st)(next_id \<mapsto> (next_cost, next_hops)),
                    se_previous := (se_previous st)(next_id \<mapsto> (current, edge_index, forward)),
                    se_heap := heap_push (next_cost, next_hops, next_id) (se_heap st)\<rparr>
            else st))"

function search_loop ::
  "RepoGraph \<Rightarrow> string \<Rightarrow> nat \<Rightarrow> nat \<Rightarrow> path_search \<Rightarrow> path_search" where
  "search_loop graph target_id max_hops max_visited st =
     (case heap_pop (se_heap st) of
        None \<Rightarrow> st
      | Some ((cost, hops, current), h) \<Rightarrow>
          (if (case se_best st current of None \<Rightarrow> False | Some v \<Rightarrow> v < (cost, hops))
           then search_loop graph target_id max_hops max_visited (st\<lparr>se_heap := h\<rparr>)
           else if se_visited st + 1 > max_visited
             then st\<lparr>se_heap := h, se_visited := se_visited st + 1, se_truncated := True\<rparr>
           else if current = target_id
             then st\<lparr>se_heap := h, se_visited := se_visited st + 1, se_reached_target := True\<rparr>
           else if hops \<ge> max_hops
             then search_loop graph target_id max_hops max_visited
                    (st\<lparr>se_heap := h, se_visited := se_visited st + 1, se_truncated := True\<rparr>)
           else search_loop graph target_id max_hops max_visited
                  (foldl (relax_neighbor graph current cost hops)
                     (st\<lparr>se_heap := h, se_visited := se_visited st + 1\<rparr>)
                     (adjacency_of graph current))))"
  by pat_completeness auto

lemma relax_neighbor_visited [simp]:
  "se_visited (relax_neighbor graph current cost hops st n) = se_visited st"
  by (cases n) (simp add: relax_neighbor_def Let_def)

lemma relax_all_visited [simp]:
  "se_visited (foldl (relax_neighbor graph current cost hops) st ns) = se_visited st"
  by (induction ns arbitrary: st) simp_all

termination search_loop
  by (relation "measures [\<lambda>(graph, target_id, max_hops, max_visited, st). max_visited - se_visited st,
        \<lambda>(graph, target_id, max_hops, max_visited, st). length (se_heap st)]")
    (auto simp: heap_pop_Some)

declare search_loop.simps [simp del]

definition search_start :: "string \<Rightarrow> path_search" where
  "search_start source_id =
     \<lparr>se_heap = heap_push (0, 0, source_id) [], se_best = [source_id \<mapsto> (0, 0)],
      se_previous = (\<lambda>_. None), se_visited = 0, se_truncated = False, se_reached_target = False\<rparr>"

text \<open>
  The walk back along \<open>previous\<close>. The \<open>while\<close> loop has no bound in the code: \<open>None\<close> is a walk that
  does not end within the given fuel, and that this never happens is proved.
\<close>

fun path_chain ::
  "nat \<Rightarrow> (string \<Rightarrow> (string \<times> nat \<times> bool) option) \<Rightarrow> string \<Rightarrow> string
     \<Rightarrow> (string \<times> string \<times> nat \<times> bool) list \<Rightarrow> (string \<times> string \<times> nat \<times> bool) list option" where
  "path_chain fuel previous source_id cursor chain =
     (if cursor = source_id then Some chain
      else (case previous cursor of
              None \<Rightarrow> Some chain
            | Some (prior, edge_index, forward) \<Rightarrow>
                (case fuel of
                   0 \<Rightarrow> None
                 | Suc fuel \<Rightarrow> path_chain fuel previous source_id prior
                     ((prior, cursor, edge_index, forward) # chain))))"

record GraphPathHop =
  ph_from :: RepoGraphNode
  ph_to :: RepoGraphNode
  ph_kind :: string
  ph_trust :: string
  ph_origin :: string
  ph_confidence_label :: "string option"
  ph_evidence :: string
  ph_sources :: "string list"
  ph_follows_stored_direction :: bool

record GraphPathBounds =
  pb_max_hops :: nat
  pb_max_visited_nodes :: nat
  pb_visited_nodes :: nat
  pb_truncated :: bool

datatype path_message =
  SelectDecisiveEndpoints | SameNode | NoBoundedPath nat | UncertainPath | SourceBackedPath

record GraphPathResult =
  pr_source :: GraphEndpointResolution
  pr_target :: GraphEndpointResolution
  pr_hops :: "GraphPathHop list"
  pr_found :: bool
  pr_trust_summary :: string
  pr_requires_verification :: bool
  pr_message :: path_message
  pr_bounds :: GraphPathBounds

definition path_hop :: "RepoGraph \<Rightarrow> string \<times> string \<times> nat \<times> bool \<Rightarrow> GraphPathHop option" where
  "path_hop graph entry =
     (case entry of (from_id, to_id, edge_index, forward) \<Rightarrow>
        option_then (if edge_index < length (rg_edges graph) then Some (rg_edges graph ! edge_index) else None)
          (\<lambda>edge. option_then (node_by_id graph from_id) (\<lambda>from.
             option_then (node_by_id graph to_id) (\<lambda>to.
               Some \<lparr>ph_from = from, ph_to = to, ph_kind = ge_kind edge, ph_trust = ge_trust edge,
                     ph_origin = ge_origin edge, ph_confidence_label = ge_confidence_label edge,
                     ph_evidence = ge_evidence edge, ph_sources = ge_sources edge,
                     ph_follows_stored_direction = forward\<rparr>))))"

definition empty_path ::
  "GraphEndpointResolution \<Rightarrow> GraphEndpointResolution \<Rightarrow> nat \<Rightarrow> nat \<Rightarrow> path_message \<Rightarrow> GraphPathResult" where
  "empty_path source target max_hops max_visited message =
     \<lparr>pr_source = source, pr_target = target, pr_hops = [], pr_found = False,
      pr_trust_summary = ''none'', pr_requires_verification = False, pr_message = message,
      pr_bounds = \<lparr>pb_max_hops = max_hops, pb_max_visited_nodes = max_visited,
                   pb_visited_nodes = 0, pb_truncated = False\<rparr>\<rparr>"

definition needs_verification :: "GraphPathHop list \<Rightarrow> bool" where
  "needs_verification hops \<longleftrightarrow>
     list_ex (\<lambda>hop. ph_trust hop \<noteq> ''extracted'' \<or> ph_origin hop \<noteq> ''codevetter'') hops"

text \<open>\<open>trace_between\<close> is \<open>trace_graph_path\<close> after both endpoints resolved.\<close>

definition trace_between ::
  "RepoGraph \<Rightarrow> GraphEndpointResolution \<Rightarrow> GraphEndpointResolution \<Rightarrow> string \<Rightarrow> string
     \<Rightarrow> nat \<Rightarrow> nat \<Rightarrow> GraphPathResult option" where
  "trace_between graph source target source_id target_id max_hops max_visited =
     (if source_id = target_id
      then Some ((empty_path source target max_hops max_visited SameNode)
                   \<lparr>pr_found := True, pr_trust_summary := ''same_node''\<rparr>)
      else
        (let st = search_loop graph target_id max_hops max_visited (search_start source_id);
             bounds = \<lparr>pb_max_hops = max_hops, pb_max_visited_nodes = max_visited,
                       pb_visited_nodes = min (se_visited st) max_visited,
                       pb_truncated = se_truncated st\<rparr>
         in if \<not> se_reached_target st
            then Some ((empty_path source target max_hops max_visited (NoBoundedPath max_hops))
                         \<lparr>pr_bounds := bounds\<rparr>)
            else
              (case path_chain max_hops (se_previous st) source_id target_id [] of
                 None \<Rightarrow> None
               | Some chain \<Rightarrow>
                   (let hops = List.map_filter (path_hop graph) chain
                    in Some \<lparr>pr_source = source, pr_target = target, pr_hops = hops, pr_found = True,
                         pr_trust_summary =
                           (if needs_verification hops then ''navigation_lead'' else ''source_backed''),
                         pr_requires_verification = needs_verification hops,
                         pr_message =
                           (if needs_verification hops then UncertainPath else SourceBackedPath),
                         pr_bounds = bounds\<rparr>))))"

definition trace_graph_path ::
  "RepoGraph \<Rightarrow> string \<Rightarrow> string \<Rightarrow> string option \<Rightarrow> string option \<Rightarrow> nat \<Rightarrow> nat
     \<Rightarrow> GraphPathResult option" where
  "trace_graph_path graph source_query target_query source_id target_id max_hops max_visited_nodes =
     (let max_hops = clamp 1 16 max_hops;
          max_visited = clamp 1 20000 max_visited_nodes;
          source = resolve_graph_endpoint graph source_query source_id;
          target = resolve_graph_endpoint graph target_query target_id
      in if er_status source \<noteq> Endpoint_Resolved \<or> er_status target \<noteq> Endpoint_Resolved
         then Some (empty_path source target max_hops max_visited SelectDecisiveEndpoints)
         else option_then (er_selected source) (\<lambda>s. option_then (er_selected target) (\<lambda>t.
                trace_between graph source target (ec_id s) (ec_id t) max_hops max_visited)))"

datatype query_error = GraphExceedsQueryBounds

definition trace_repo_graph_path ::
  "RepoGraph \<Rightarrow> string \<Rightarrow> string \<Rightarrow> string option \<Rightarrow> string option \<Rightarrow> nat option \<Rightarrow> nat option
     \<Rightarrow> (query_error, GraphPathResult option) result" where
  "trace_repo_graph_path graph source_query target_query source_id target_id max_hops max_visited_nodes =
     (if length (rg_nodes graph) > MAX_GRAPH_IMPORT_NODES
         \<or> length (rg_edges graph) > MAX_GRAPH_IMPORT_EDGES then Inl GraphExceedsQueryBounds
      else Inr (trace_graph_path graph source_query target_query source_id target_id
             (case max_hops of None \<Rightarrow> 8 | Some n \<Rightarrow> n)
             (case max_visited_nodes of None \<Rightarrow> 5000 | Some n \<Rightarrow> n)))"

section \<open>Walks\<close>

definition neighbors :: "RepoGraph \<Rightarrow> string \<Rightarrow> neighbor set" where
  "neighbors graph u =
     {(i, v, f). i < length (rg_edges graph) \<and>
        node_by_id graph (ge_from (rg_edges graph ! i)) \<noteq> None \<and>
        node_by_id graph (ge_to (rg_edges graph ! i)) \<noteq> None \<and>
        (if f then ge_from (rg_edges graph ! i) = u \<and> ge_to (rg_edges graph ! i) = v
         else ge_to (rg_edges graph ! i) = u \<and> ge_from (rg_edges graph ! i) = v)}"

definition edge_neighbors :: "RepoGraph \<Rightarrow> string \<Rightarrow> nat \<times> RepoGraphEdge \<Rightarrow> neighbor set" where
  "edge_neighbors graph u entry =
     (case entry of (i, e) \<Rightarrow>
        if node_by_id graph (ge_from e) \<noteq> None \<and> node_by_id graph (ge_to e) \<noteq> None
        then (if ge_from e = u then {(i, ge_to e, True)} else {}) \<union>
             (if ge_to e = u then {(i, ge_from e, False)} else {})
        else {})"

lemma add_edge_set: "set (add_edge graph adj entry u) = set (adj u) \<union> edge_neighbors graph u entry"
  by (cases entry) (auto simp: add_edge_def push_neighbor_def edge_neighbors_def)

lemma add_edges_set:
  "set (foldl (add_edge graph) adj es u) = set (adj u) \<union> (\<Union>entry\<in>set es. edge_neighbors graph u entry)"
proof (induction es arbitrary: adj)
  case Nil
  then show ?case by simp
next
  case (Cons x es)
  show ?case by (simp only: foldl_Cons Cons.IH add_edge_set list.set UN_insert Un_assoc)
qed

lemma edge_neighbors_iff:
  "(i, v, f) \<in> edge_neighbors graph u (j, e) \<longleftrightarrow>
     j = i \<and> node_by_id graph (ge_from e) \<noteq> None \<and> node_by_id graph (ge_to e) \<noteq> None \<and>
     (if f then ge_from e = u \<and> ge_to e = v else ge_to e = u \<and> ge_from e = v)"
  by (auto simp: edge_neighbors_def)

lemma adjacency_neighbors: "set (adjacency_of graph u) = neighbors graph u"
proof -
  have "(i, v, f) \<in> set (adjacency_of graph u) \<longleftrightarrow> (i, v, f) \<in> neighbors graph u" for i v f
    by (auto simp: adjacency_of_def add_edges_set Bex_def split_paired_Ex edge_neighbors_iff neighbors_def
        in_set_enumerate_eq)
  then show ?thesis by auto
qed

inductive walk :: "RepoGraph \<Rightarrow> string \<Rightarrow> nat \<Rightarrow> nat \<Rightarrow> string \<Rightarrow> bool"
  for graph :: RepoGraph and s :: string where
  here: "walk graph s 0 0 s"
| step: "walk graph s c h u \<Longrightarrow> (i, v, f) \<in> neighbors graph u \<Longrightarrow>
     walk graph s (c + edge_weight (rg_edges graph ! i)) (Suc h) v"

lemma edge_weight_bounds: "1 \<le> edge_weight e" "edge_weight e \<le> 8"
  by (simp_all add: edge_weight_def)

section \<open>The invariant of the search\<close>

text \<open>
  \<open>C\<close> are the nodes expanded so far and \<open>K\<close> is the key popped last. Every other node that was
  seen waits in the heap with its best key; nothing in the heap is below \<open>K\<close>, no best key of an
  expanded node is above it, so an expanded node is never improved.
\<close>

definition expanded ::
  "RepoGraph \<Rightarrow> nat \<Rightarrow> path_search \<Rightarrow> neighbor set \<Rightarrow> nat \<times> nat \<Rightarrow> bool" where
  "expanded graph H st ns key \<longleftrightarrow>
     (if H \<le> snd key then se_truncated st
      else \<forall>(i, x, f)\<in>ns. \<exists>b. se_best st x = Some b \<and>
             b \<le> (fst key + edge_weight (rg_edges graph ! i), Suc (snd key)))"

definition search_inv ::
  "RepoGraph \<Rightarrow> string \<Rightarrow> nat \<Rightarrow> string set \<Rightarrow> nat \<times> nat \<Rightarrow> path_search \<Rightarrow> bool" where
  "search_inv graph s H C K st \<longleftrightarrow>
     sorted (se_heap st) \<and> se_best st s = Some (0, 0) \<and>
     (\<forall>v c h. se_best st v = Some (c, h) \<longrightarrow> walk graph s c h v \<and> h \<le> H \<and> c \<le> 8 * h) \<and>
     (\<forall>v\<in>C. \<exists>b. se_best st v = Some b \<and> b \<le> K) \<and>
     (\<forall>v c h. se_best st v = Some (c, h) \<longrightarrow> v \<notin> C \<longrightarrow> (c, h, v) \<in> set (se_heap st)) \<and>
     (\<forall>(c, h, v)\<in>set (se_heap st). K \<le> (c, h) \<and> (\<exists>b. se_best st v = Some b \<and> b \<le> (c, h))) \<and>
     (\<forall>v c h. se_best st v = Some (c, h) \<longrightarrow> v \<noteq> s \<longrightarrow>
        (\<exists>u i f cu hu. se_previous st v = Some (u, i, f) \<and> u \<in> C \<and> se_best st u = Some (cu, hu) \<and>
           (i, v, f) \<in> neighbors graph u \<and> c = cu + edge_weight (rg_edges graph ! i) \<and> h = Suc hu))"

definition all_expanded :: "RepoGraph \<Rightarrow> nat \<Rightarrow> string set \<Rightarrow> path_search \<Rightarrow> bool" where
  "all_expanded graph H C st \<longleftrightarrow>
     (\<forall>v\<in>C. \<forall>b. se_best st v = Some b \<longrightarrow> expanded graph H st (neighbors graph v) b)"

lemma search_inv_prev:
  assumes "search_inv graph s H C K st"
  shows "\<forall>v c h. se_best st v = Some (c, h) \<longrightarrow> v \<noteq> s \<longrightarrow>
        (\<exists>u i f cu hu. se_previous st v = Some (u, i, f) \<and> u \<in> C \<and> se_best st u = Some (cu, hu) \<and>
           (i, v, f) \<in> neighbors graph u \<and> c = cu + edge_weight (rg_edges graph ! i) \<and> h = Suc hu)"
  using assms unfolding search_inv_def by (elim conjE)

lemma search_inv_start: "search_inv graph s H {} (0, 0) (search_start s)"
  by (auto simp: search_inv_def search_start_def heap_push_def walk.here)

lemma relax_neighbor_cases:
  obtains (unchanged) b where "relax_neighbor graph u cost hops st (i, x, f) = st"
      "se_best st x = Some b" "b \<le> (cost + edge_weight (rg_edges graph ! i), Suc hops)"
  | (improved) "relax_neighbor graph u cost hops st (i, x, f) =
      st\<lparr>se_best := (se_best st)(x \<mapsto> (cost + edge_weight (rg_edges graph ! i), Suc hops)),
         se_previous := (se_previous st)(x \<mapsto> (u, i, f)),
         se_heap := heap_push (cost + edge_weight (rg_edges graph ! i), Suc hops, x) (se_heap st)\<rparr>"
      "\<And>b. se_best st x = Some b \<Longrightarrow> (cost + edge_weight (rg_edges graph ! i), Suc hops) < b"
proof (cases "case se_best st x of None \<Rightarrow> True
    | Some v \<Rightarrow> (cost + edge_weight (rg_edges graph ! i), Suc hops) < v")
  case True
  then show ?thesis
    by (intro improved) (auto simp: relax_neighbor_def Let_def split: option.splits)
next
  case False
  then obtain b where "se_best st x = Some b"
    "\<not> (cost + edge_weight (rg_edges graph ! i), Suc hops) < b"
    by (auto split: option.splits)
  then show ?thesis
    by (intro unchanged [of b]) (simp_all add: relax_neighbor_def Let_def not_less
        del: less_prod_simp less_eq_prod_simp)
qed

lemma relax_neighbor_step:
  assumes inv: "search_inv graph s H C K st"
    and u: "u \<in> C" "se_best st u = Some (cost, hops)" "K = (cost, hops)" "hops < H"
    and n: "(i, x, f) \<in> neighbors graph u"
    and st': "st' = relax_neighbor graph u cost hops st (i, x, f)"
  shows "search_inv graph s H C K st'"
    and "\<forall>v\<in>C. se_best st' v = se_best st v"
    and "\<And>v b. se_best st v = Some b \<Longrightarrow> \<exists>b'. se_best st' v = Some b' \<and> b' \<le> b"
    and "\<exists>b. se_best st' x = Some b \<and> b \<le> (cost + edge_weight (rg_edges graph ! i), Suc hops)"
    and "se_truncated st' = se_truncated st" "se_reached_target st' = se_reached_target st"
proof -
  let ?k = "(cost + edge_weight (rg_edges graph ! i), Suc hops)"
  have "search_inv graph s H C K st' \<and> (\<forall>v\<in>C. se_best st' v = se_best st v) \<and>
     (\<forall>v b. se_best st v = Some b \<longrightarrow> (\<exists>b'. se_best st' v = Some b' \<and> b' \<le> b)) \<and>
     (\<exists>b. se_best st' x = Some b \<and> b \<le> ?k) \<and>
     se_truncated st' = se_truncated st \<and> se_reached_target st' = se_reached_target st"
  proof (cases rule: relax_neighbor_cases [of graph u cost hops st i x f])
    case (unchanged b)
    then show ?thesis using inv unfolding st' by auto
  next
    case improved
    have walk: "walk graph s (fst ?k) (snd ?k) x"
      using inv u(2) n unfolding search_inv_def by (auto intro: walk.step)
    have up: "K \<le> ?k" using edge_weight_bounds(1) by (simp add: u(3))
    have fresh: "x \<notin> C"
    proof
      assume "x \<in> C"
      then obtain b where "se_best st x = Some b" "b \<le> K" using inv by (auto simp: search_inv_def)
      with improved(2) up show False by (meson less_le_not_le order_trans)
    qed
    have notsource: "x \<noteq> s"
      using improved(2) [of "(0, 0)"] inv by (auto simp: search_inv_def)
    have cost: "cost \<le> 8 * hops" using inv u(2) by (auto simp: search_inv_def)
    have s1: "sorted (se_heap st')"
      using inv unfolding st' improved(1) by (auto simp: search_inv_def intro: heap.push_inv)
    have members: "set (se_heap st') = insert (fst ?k, snd ?k, x) (set (se_heap st))"
      unfolding st' improved(1) by (simp add: heap_push_def set_insort_key)
    have best: "se_best st' = (se_best st)(x \<mapsto> ?k)"
      and prev: "se_previous st' = (se_previous st)(x \<mapsto> (u, i, f))"
      unfolding st' improved(1) by simp_all
    have "search_inv graph s H C K st'"
      unfolding search_inv_def
    proof (intro conjI)
      show "sorted (se_heap st')" by (rule s1)
      show "se_best st' s = Some (0, 0)" using inv notsource by (simp add: best search_inv_def)
      show "\<forall>v c h. se_best st' v = Some (c, h) \<longrightarrow> walk graph s c h v \<and> h \<le> H \<and> c \<le> 8 * h"
        using inv walk u(4) cost edge_weight_bounds(2) [of "rg_edges graph ! i"]
        by (auto simp: best search_inv_def)
      show "\<forall>v\<in>C. \<exists>b. se_best st' v = Some b \<and> b \<le> K"
        using inv fresh by (auto simp: best search_inv_def)
      show "\<forall>v c h. se_best st' v = Some (c, h) \<longrightarrow> v \<notin> C \<longrightarrow> (c, h, v) \<in> set (se_heap st')"
        using inv unfolding members by (auto simp: best search_inv_def)
      show "\<forall>(c, h, v)\<in>set (se_heap st'). K \<le> (c, h) \<and> (\<exists>b. se_best st' v = Some b \<and> b \<le> (c, h))"
      proof (clarify, intro conjI)
        fix c h v
        assume "(c, h, v) \<in> set (se_heap st')"
        then consider "(c, h) = ?k" "v = x" | "(c, h, v) \<in> set (se_heap st)"
          unfolding members by auto
        then show "K \<le> (c, h)" using up inv by cases (auto simp: search_inv_def)
        from \<open>(c, h, v) \<in> set (se_heap st')\<close>
        consider "(c, h) = ?k" "v = x" | b where "se_best st v = Some b" "b \<le> (c, h)"
          unfolding members using inv by (auto simp: search_inv_def)
        then show "\<exists>b. se_best st' v = Some b \<and> b \<le> (c, h)"
        proof cases
          case (2 b)
          then show ?thesis using improved(2) [of b] unfolding best
            by (cases "v = x") (auto simp del: less_prod_simp less_eq_prod_simp)
        qed (simp add: best del: less_prod_simp)
      qed
      show "\<forall>v c h. se_best st' v = Some (c, h) \<longrightarrow> v \<noteq> s \<longrightarrow>
        (\<exists>u i f cu hu. se_previous st' v = Some (u, i, f) \<and> u \<in> C \<and> se_best st' u = Some (cu, hu) \<and>
           (i, v, f) \<in> neighbors graph u \<and> c = cu + edge_weight (rg_edges graph ! i) \<and> h = Suc hu)"
      proof (intro allI impI)
        fix v c h
        assume v: "se_best st' v = Some (c, h)" "v \<noteq> s"
        have keep: "se_best st' y = se_best st y" if "y \<in> C" for y
          using that fresh by (auto simp: best)
        show "\<exists>u i f cu hu. se_previous st' v = Some (u, i, f) \<and> u \<in> C \<and> se_best st' u = Some (cu, hu) \<and>
           (i, v, f) \<in> neighbors graph u \<and> c = cu + edge_weight (rg_edges graph ! i) \<and> h = Suc hu"
        proof (cases "v = x")
          case True
          then show ?thesis using v u n keep [OF u(1)] by (auto simp: best prev)
        next
          case False
          then have "se_best st v = Some (c, h)" "se_previous st' v = se_previous st v"
            using v(1) by (simp_all add: best prev)
          then obtain y j g cu hu where old: "se_previous st' v = Some (y, j, g)" "y \<in> C"
            "se_best st y = Some (cu, hu)" "(j, v, g) \<in> neighbors graph y"
            "c = cu + edge_weight (rg_edges graph ! j)" "h = Suc hu"
            using search_inv_prev [OF inv, rule_format, OF _ v(2)] by metis
          from keep [OF old(2)] old(3) have "se_best st' y = Some (cu, hu)" by simp
          with old show ?thesis by blast
        qed
      qed
    qed
    moreover have "\<forall>v b. se_best st v = Some b \<longrightarrow> (\<exists>b'. se_best st' v = Some b' \<and> b' \<le> b)"
      using improved(2) by (auto simp: best simp del: less_prod_simp less_eq_prod_simp intro: less_imp_le)
    moreover have "se_truncated st' = se_truncated st" "se_reached_target st' = se_reached_target st"
      unfolding st' improved(1) by simp_all
    ultimately show ?thesis using fresh by (auto simp: best simp del: less_eq_prod_simp)
  qed
  then show "search_inv graph s H C K st'"
    and "\<forall>v\<in>C. se_best st' v = se_best st v"
    and "\<And>v b. se_best st v = Some b \<Longrightarrow> \<exists>b'. se_best st' v = Some b' \<and> b' \<le> b"
    and "\<exists>b. se_best st' x = Some b \<and> b \<le> ?k"
    and "se_truncated st' = se_truncated st" "se_reached_target st' = se_reached_target st"
    by blast+
qed

lemma expanded_mono:
  assumes "expanded graph H st ns key"
    and "\<And>v b. se_best st v = Some b \<Longrightarrow> \<exists>b'. se_best st' v = Some b' \<and> b' \<le> b"
    and "se_truncated st \<Longrightarrow> se_truncated st'"
  shows "expanded graph H st' ns key"
proof -
  have le: "\<exists>b. se_best st' x = Some b \<and> b \<le> k" if "\<exists>b. se_best st x = Some b \<and> b \<le> k" for x k
    using that assms(2) order_trans by (metis (no_types))
  show ?thesis
  proof (cases "H \<le> snd key")
    case True
    then show ?thesis using assms(1,3) by (simp add: expanded_def)
  next
    case False
    have "\<exists>b. se_best st' x = Some b \<and> b \<le> (fst key + edge_weight (rg_edges graph ! i), Suc (snd key))"
      if "(i, x, f) \<in> ns" for i x f
      using assms(1) that False by (intro le) (auto simp: expanded_def simp del: less_eq_prod_simp)
    with False show ?thesis by (auto simp: expanded_def simp del: less_eq_prod_simp)
  qed
qed

lemma relax_run:
  assumes "search_inv graph s H C K st" "u \<in> C" "se_best st u = Some (cost, hops)"
    "K = (cost, hops)" "hops < H" "set ns \<subseteq> neighbors graph u"
    "st' = foldl (relax_neighbor graph u cost hops) st ns"
  shows "search_inv graph s H C K st' \<and> (\<forall>v\<in>C. se_best st' v = se_best st v) \<and>
     (\<forall>v b. se_best st v = Some b \<longrightarrow> (\<exists>b'. se_best st' v = Some b' \<and> b' \<le> b)) \<and>
     expanded graph H st' (set ns) (cost, hops) \<and>
     se_truncated st' = se_truncated st \<and> se_reached_target st' = se_reached_target st"
  using assms
proof (induction ns arbitrary: st)
  case Nil
  then show ?case by (auto simp: expanded_def)
next
  case (Cons n ns)
  obtain i x f where n: "n = (i, x, f)" by (cases n)
  let ?m = "relax_neighbor graph u cost hops st (i, x, f)"
  have nb: "(i, x, f) \<in> neighbors graph u" using Cons.prems(6) by (simp add: n)
  note step = relax_neighbor_step [OF Cons.prems(1-5) nb refl]
  have best: "se_best ?m u = Some (cost, hops)" using step(2) Cons.prems(2,3) by simp
  have ih: "search_inv graph s H C K st' \<and> (\<forall>v\<in>C. se_best st' v = se_best ?m v) \<and>
     (\<forall>v b. se_best ?m v = Some b \<longrightarrow> (\<exists>b'. se_best st' v = Some b' \<and> b' \<le> b)) \<and>
     expanded graph H st' (set ns) (cost, hops) \<and>
     se_truncated st' = se_truncated ?m \<and> se_reached_target st' = se_reached_target ?m"
    using Cons.prems(6,7) by (intro Cons.IH [OF step(1) Cons.prems(2) best Cons.prems(4,5)]) (simp_all add: n)
  have mono: "\<exists>b'. se_best st' v = Some b' \<and> b' \<le> b" if vb: "se_best st v = Some b" for v b
  proof -
    obtain b1 where "se_best ?m v = Some b1" "b1 \<le> b" using step(3) [OF vb] by blast
    moreover from this ih obtain b2 where "se_best st' v = Some b2" "b2 \<le> b1" by blast
    ultimately show ?thesis using order_trans by blast
  qed
  have "\<exists>b. se_best st' x = Some b \<and> b \<le> (cost + edge_weight (rg_edges graph ! i), Suc hops)"
  proof -
    obtain b1 where "se_best ?m x = Some b1"
      "b1 \<le> (cost + edge_weight (rg_edges graph ! i), Suc hops)" using step(4) by blast
    moreover from this ih obtain b2 where "se_best st' x = Some b2" "b2 \<le> b1" by blast
    ultimately show ?thesis using order_trans by blast
  qed
  then have "expanded graph H st' (set (n # ns)) (cost, hops)"
    using ih Cons.prems(5) by (auto simp: expanded_def n simp del: less_eq_prod_simp)
  then show ?case using ih step(2,5,6) mono by simp
qed

lemma search_inv_pop:
  assumes inv: "search_inv graph s H C K st" and pop: "heap_pop (se_heap st) = Some ((c, h, v), r)"
  shows "K \<le> (c, h)" "\<exists>b. se_best st v = Some b \<and> b \<le> (c, h)"
    "(c', h', x) \<in> set (se_heap st) \<Longrightarrow> (c, h) \<le> (c', h')"
    "sorted r" "set (se_heap st) = insert (c, h, v) (set r)"
proof -
  have ok: "sorted (se_heap st)" using inv by (simp add: search_inv_def)
  show "K \<le> (c, h)" "\<exists>b. se_best st v = Some b \<and> b \<le> (c, h)"
    using inv pop by (auto simp: search_inv_def heap_pop_Some)
  show "sorted r" "set (se_heap st) = insert (c, h, v) (set r)"
    using ok pop by (auto simp: heap_pop_Some)
  show "(c, h) \<le> (c', h')" if "(c', h', x) \<in> set (se_heap st)"
    using heap.pop_least [OF ok pop, of "(c', h', x)"] that by auto
qed

text \<open>What the search knows when it stops.\<close>

definition search_done :: "RepoGraph \<Rightarrow> string \<Rightarrow> string \<Rightarrow> nat \<Rightarrow> path_search \<Rightarrow> bool" where
  "search_done graph s T H st \<longleftrightarrow>
     (\<exists>C K. search_inv graph s H C K st \<and>
        (if se_reached_target st
         then (\<exists>b. se_best st T = Some b \<and>
            (\<not> se_truncated st \<longrightarrow> (\<forall>c h. walk graph s c h T \<longrightarrow> b \<le> (c, h))))
         else \<not> se_truncated st \<longrightarrow> (\<forall>c h. \<not> walk graph s c h T)))"

lemma lex_step: "(a, b) \<le> (c, d) \<Longrightarrow> (a + w, Suc b) \<le> (c + w, Suc (d::nat))" for a c w :: nat
  by auto

text \<open>Every walk ends in an expanded node that is at least as good, or passes the heap.\<close>

lemma walk_frontier:
  assumes inv: "search_inv graph s H C K st" and all: "all_expanded graph H C st"
    and trunc: "\<not> se_truncated st"
    and heap: "\<And>c h v. (c, h, v) \<in> set (se_heap st) \<Longrightarrow> F \<le> (c, h)"
  shows "walk graph s c h v \<Longrightarrow>
    (v \<in> C \<and> (\<exists>b. se_best st v = Some b \<and> b \<le> (c, h))) \<or> (set (se_heap st) \<noteq> {} \<and> F \<le> (c, h))"
proof (induction rule: walk.induct)
  case here
  show ?case
  proof (cases "s \<in> C")
    case False
    then have "(0, 0, s) \<in> set (se_heap st)" using inv by (auto simp: search_inv_def)
    from heap [OF this] this show ?thesis by auto
  qed (use inv in \<open>simp add: search_inv_def\<close>)
next
  case (step c h u i v f)
  let ?k = "(c + edge_weight (rg_edges graph ! i), Suc h)"
  have up: "(c, h) \<le> ?k" by simp
  show ?case
  proof (cases "set (se_heap st) \<noteq> {} \<and> F \<le> (c, h)")
    case True
    then show ?thesis using order_trans [OF _ up] by blast
  next
    case False
    with step.IH obtain cu hu where u: "u \<in> C" "se_best st u = Some (cu, hu)" "(cu, hu) \<le> (c, h)"
      by (cases "se_best st u") auto
    then have "expanded graph H st (neighbors graph u) (cu, hu)"
      using all by (simp add: all_expanded_def)
    with trunc step.hyps(2) obtain b where b: "se_best st v = Some b"
      "b \<le> (cu + edge_weight (rg_edges graph ! i), Suc hu)"
      by (fastforce simp: expanded_def simp del: less_eq_prod_simp split: if_splits)
    have le: "b \<le> ?k" using b(2) lex_step [OF u(3)] order_trans by blast
    show ?thesis
    proof (cases "v \<in> C")
      case False
      then have "(fst b, snd b, v) \<in> set (se_heap st)"
        using inv b(1) unfolding search_inv_def by (metis prod.collapse)
      then have "F \<le> b" "set (se_heap st) \<noteq> {}" using heap by fastforce+
      then show ?thesis using le order_trans by blast
    qed (use b(1) le in blast)
  qed
qed

lemma search_inv_cong:
  "se_heap st' = se_heap st \<Longrightarrow> se_best st' = se_best st \<Longrightarrow> se_previous st' = se_previous st \<Longrightarrow>
     search_inv graph s H C K st' = search_inv graph s H C K st"
  by (simp add: search_inv_def)

lemma all_expanded_cong:
  "se_best st' = se_best st \<Longrightarrow> se_truncated st' = se_truncated st \<Longrightarrow>
     all_expanded graph H C st' = all_expanded graph H C st"
  by (simp only: all_expanded_def expanded_def)

lemma pop_stale:
  assumes inv: "search_inv graph s H C K st" and pop: "heap_pop (se_heap st) = Some ((c, h, v), r)"
    and stale: "se_best st v = Some b" "b < (c, h)"
  shows "search_inv graph s H C K (st\<lparr>se_heap := r\<rparr>)"
proof -
  note heap = search_inv_pop [OF inv pop]
  have "(c', h', x) \<in> set r" if "se_best st x = Some (c', h')" "x \<notin> C" for c' h' x
  proof -
    have "(c', h', x) \<in> set (se_heap st)" using inv that unfolding search_inv_def by blast
    moreover have "(c', h', x) \<noteq> (c, h, v)" using that stale by auto
    ultimately show ?thesis using heap(5) by blast
  qed
  moreover have "set r \<subseteq> set (se_heap st)" using heap(5) by blast
  ultimately show ?thesis
    using inv heap(4) unfolding search_inv_def by (simp del: less_eq_prod_simp) blast
qed

lemma pop_fresh:
  assumes inv: "search_inv graph s H C K st" and pop: "heap_pop (se_heap st) = Some ((c, h, v), r)"
    and fresh: "\<not> (case se_best st v of None \<Rightarrow> False | Some b \<Rightarrow> b < (c, h))"
  shows "se_best st v = Some (c, h)"
    and "search_inv graph s H (insert v C) (c, h) (st\<lparr>se_heap := r\<rparr>)"
proof -
  note heap = search_inv_pop [OF inv pop]
  obtain b where "se_best st v = Some b" "b \<le> (c, h)" using heap(2) by blast
  with fresh show best: "se_best st v = Some (c, h)" by (simp add: order.order_iff_strict)
  let ?st = "st\<lparr>se_heap := r\<rparr>"
  show "search_inv graph s H (insert v C) (c, h) ?st"
    unfolding search_inv_def
  proof (intro conjI)
    show "sorted (se_heap ?st)" using heap(4) by simp
    show "se_best ?st s = Some (0, 0)"
      "\<forall>v c h. se_best ?st v = Some (c, h) \<longrightarrow> walk graph s c h v \<and> h \<le> H \<and> c \<le> 8 * h"
      using inv by (simp_all add: search_inv_def)
    have "\<exists>b. se_best st x = Some b \<and> b \<le> (c, h)" if "x \<in> C" for x
      using inv that heap(1) order_trans unfolding search_inv_def by blast
    then show "\<forall>x\<in>insert v C. \<exists>b. se_best ?st x = Some b \<and> b \<le> (c, h)"
      using best by (auto simp del: less_eq_prod_simp)
    have "(c', h', x) \<in> set r" if "se_best st x = Some (c', h')" "x \<notin> insert v C" for c' h' x
    proof -
      have "(c', h', x) \<in> set (se_heap st)" using inv that unfolding search_inv_def by blast
      then show ?thesis using heap(5) that(2) by simp
    qed
    then show "\<forall>x c' h'. se_best ?st x = Some (c', h') \<longrightarrow> x \<notin> insert v C \<longrightarrow> (c', h', x) \<in> set (se_heap ?st)"
      by simp
    have "(c, h) \<le> (c', h')" "\<exists>b. se_best st x = Some b \<and> b \<le> (c', h')" if "(c', h', x) \<in> set r" for c' h' x
    proof -
      have "(c', h', x) \<in> set (se_heap st)" using that heap(5) by blast
      then show "(c, h) \<le> (c', h')" "\<exists>b. se_best st x = Some b \<and> b \<le> (c', h')"
        using heap(3) inv unfolding search_inv_def by blast+
    qed
    then show "\<forall>(c', h', x)\<in>set (se_heap ?st). (c, h) \<le> (c', h') \<and> (\<exists>b. se_best ?st x = Some b \<and> b \<le> (c', h'))"
      by (simp del: less_eq_prod_simp) blast
    show "\<forall>x c h. se_best ?st x = Some (c, h) \<longrightarrow> x \<noteq> s \<longrightarrow>
        (\<exists>u i f cu hu. se_previous ?st x = Some (u, i, f) \<and> u \<in> insert v C \<and> se_best ?st u = Some (cu, hu) \<and>
           (i, x, f) \<in> neighbors graph u \<and> c = cu + edge_weight (rg_edges graph ! i) \<and> h = Suc hu)"
    proof (intro allI impI)
      fix x c h
      assume "se_best ?st x = Some (c, h)" "x \<noteq> s"
      then have "se_best st x = Some (c, h)" by simp
      from search_inv_prev [OF inv, rule_format, OF this \<open>x \<noteq> s\<close>] obtain u i f cu hu where
        "se_previous st x = Some (u, i, f)" "u \<in> C" "se_best st u = Some (cu, hu)"
        "(i, x, f) \<in> neighbors graph u" "c = cu + edge_weight (rg_edges graph ! i)" "h = Suc hu"
        by blast
      then show "\<exists>u i f cu hu. se_previous ?st x = Some (u, i, f) \<and> u \<in> insert v C \<and>
          se_best ?st u = Some (cu, hu) \<and> (i, x, f) \<in> neighbors graph u \<and>
          c = cu + edge_weight (rg_edges graph ! i) \<and> h = Suc hu"
        by (intro exI [of _ u] exI [of _ i] exI [of _ f] exI [of _ cu] exI [of _ hu]) simp
    qed
  qed
qed

lemma all_expanded_insert:
  assumes "all_expanded graph H C st" "se_best st' v = Some key"
    and "expanded graph H st' (neighbors graph v) key"
    and "\<And>x. x \<in> C \<Longrightarrow> se_best st' x = se_best st x"
    and "\<And>x b. se_best st x = Some b \<Longrightarrow> \<exists>b'. se_best st' x = Some b' \<and> b' \<le> b"
    and "se_truncated st \<Longrightarrow> se_truncated st'"
  shows "all_expanded graph H (insert v C) st'"
  unfolding all_expanded_def
proof (intro ballI allI impI)
  fix x b
  assume x: "x \<in> insert v C" "se_best st' x = Some b"
  show "expanded graph H st' (neighbors graph x) b"
  proof (cases "x = v")
    case True
    then show ?thesis using assms(2,3) x(2) by simp
  next
    case False
    then have "se_best st x = Some b" "x \<in> C" using x assms(4) by auto
    then have "expanded graph H st (neighbors graph x) b" using assms(1) unfolding all_expanded_def by blast
    then show ?thesis by (rule expanded_mono [OF _ assms(5,6)])
  qed
qed

lemma search_loop_done:
  assumes "search_inv graph s H C K st" "all_expanded graph H C st" "T \<notin> C" "\<not> se_reached_target st"
  shows "search_done graph s T H (search_loop graph T H M st)"
  using assms
proof (induction graph T H M st arbitrary: C K rule: search_loop.induct)
  case (1 graph T H M st)
  note inv = "1.prems"(1) and all = "1.prems"(2) and notin = "1.prems"(3) and running = "1.prems"(4)
  show ?case
  proof (cases "heap_pop (se_heap st)")
    case None
    then have empty: "se_heap st = []" by (cases "se_heap st") simp_all
    have "search_done graph s T H st"
    proof -
      have "\<not> walk graph s c h T" if "\<not> se_truncated st" for c h
        using walk_frontier [OF inv all that, of "(0, 0)" c h T] notin empty by auto
      then show ?thesis using inv running unfolding search_done_def
        by (intro exI [of _ C] exI [of _ K]) simp
    qed
    then show ?thesis using None by (simp add: search_loop.simps [of graph T H M st])
  next
    case (Some top)
    obtain cost hops v r where top: "top = ((cost, hops, v), r)" by (cases top) auto
    have pop: "heap_pop (se_heap st) = Some ((cost, hops, v), r)" using Some top by simp
    note heap = search_inv_pop [OF inv pop]
    show ?thesis
    proof (cases "case se_best st v of None \<Rightarrow> False | Some b \<Rightarrow> b < (cost, hops)")
      case True
      then obtain b where b: "se_best st v = Some b" "b < (cost, hops)" by (auto split: option.splits)
      have "search_done graph s T H (search_loop graph T H M (st\<lparr>se_heap := r\<rparr>))"
      proof (rule "1.IH"(1) [OF pop refl refl refl True pop_stale [OF inv pop b]])
        show "all_expanded graph H C (st\<lparr>se_heap := r\<rparr>)"
          using all by (subst all_expanded_cong [of _ st]) simp_all
      qed (use notin running in simp_all)
      then show ?thesis using pop True by (simp add: search_loop.simps [of graph T H M st])
    next
      case False
      note fresh = pop_fresh [OF inv pop False]
      note unfold = search_loop.simps [of graph T H M st]
      consider (full) "M < se_visited st + 1" | (target) "\<not> M < se_visited st + 1" "v = T"
        | (deep) "\<not> M < se_visited st + 1" "v \<noteq> T" "H \<le> hops"
        | (expand) "\<not> M < se_visited st + 1" "v \<noteq> T" "\<not> H \<le> hops"
        by blast
      then show ?thesis
      proof cases
        case full
        let ?st = "st\<lparr>se_heap := r, se_visited := se_visited st + 1, se_truncated := True\<rparr>"
        have "search_inv graph s H (insert v C) (cost, hops) ?st"
          using fresh(2) by (subst search_inv_cong [of _ "st\<lparr>se_heap := r\<rparr>"]) simp_all
        then have "search_done graph s T H ?st" using running unfolding search_done_def
          by (intro exI [of _ "insert v C"] exI [of _ "(cost, hops)"]) simp
        then show ?thesis using pop False full by (simp add: unfold)
      next
        case target
        let ?st = "st\<lparr>se_heap := r, se_visited := se_visited st + 1, se_reached_target := True\<rparr>"
        have "search_inv graph s H (insert v C) (cost, hops) ?st"
          using fresh(2) by (subst search_inv_cong [of _ "st\<lparr>se_heap := r\<rparr>"]) simp_all
        moreover have "(cost, hops) \<le> (c, h)" if "walk graph s c h T" "\<not> se_truncated st" for c h
        proof -
          have "(T \<in> C \<and> (\<exists>b. se_best st T = Some b \<and> b \<le> (c, h))) \<or>
              (set (se_heap st) \<noteq> {} \<and> (cost, hops) \<le> (c, h))"
            by (rule walk_frontier [OF inv all that(2) _ that(1)]) (rule heap(3))
          with notin show ?thesis by blast
        qed
        ultimately have "search_done graph s T H ?st"
          using fresh(1) target(2) unfolding search_done_def
          by (intro exI [of _ "insert v C"] exI [of _ "(cost, hops)"]) (simp del: less_eq_prod_simp)
        then show ?thesis using pop False target by (simp add: unfold)
      next
        case deep
        let ?st = "st\<lparr>se_heap := r, se_visited := se_visited st + 1, se_truncated := True\<rparr>"
        have "search_done graph s T H (search_loop graph T H M ?st)"
        proof (rule "1.IH"(2) [OF pop refl refl refl False deep])
          show "search_inv graph s H (insert v C) (cost, hops) ?st"
            using fresh(2) by (subst search_inv_cong [of _ "st\<lparr>se_heap := r\<rparr>"]) simp_all
          show "all_expanded graph H (insert v C) ?st"
            by (rule all_expanded_insert [OF all, of _ _ "(cost, hops)"])
              (use fresh(1) deep(3) in \<open>simp_all add: expanded_def\<close>)
        qed (use notin running deep(2) in simp_all)
        then show ?thesis using pop False deep by (simp add: unfold)
      next
        case expand
        let ?st = "st\<lparr>se_heap := r, se_visited := se_visited st + 1\<rparr>"
        let ?st' = "foldl (relax_neighbor graph v cost hops) ?st (adjacency_of graph v)"
        have "search_inv graph s H (insert v C) (cost, hops) ?st"
          using fresh(2) by (subst search_inv_cong [of _ "st\<lparr>se_heap := r\<rparr>"]) simp_all
        then have run: "search_inv graph s H (insert v C) (cost, hops) ?st' \<and>
          (\<forall>x\<in>insert v C. se_best ?st' x = se_best ?st x) \<and>
          (\<forall>x b. se_best ?st x = Some b \<longrightarrow> (\<exists>b'. se_best ?st' x = Some b' \<and> b' \<le> b)) \<and>
          expanded graph H ?st' (set (adjacency_of graph v)) (cost, hops) \<and>
          se_truncated ?st' = se_truncated ?st \<and> se_reached_target ?st' = se_reached_target ?st"
          using expand(3) fresh(1)
          by (intro relax_run [OF _ _ _ refl _ _ refl]) (simp_all add: adjacency_neighbors)
        have "search_done graph s T H (search_loop graph T H M ?st')"
        proof (rule "1.IH"(3) [OF pop refl refl refl False expand(1) expand(2) expand(3)])
          show "search_inv graph s H (insert v C) (cost, hops) ?st'" using run by blast
          show "all_expanded graph H (insert v C) ?st'"
          proof (rule all_expanded_insert [OF all, of _ _ "(cost, hops)"])
            show "se_best ?st' v = Some (cost, hops)" using run fresh(1) by simp
            show "expanded graph H ?st' (neighbors graph v) (cost, hops)"
              using run by (simp add: adjacency_neighbors)
            show "\<And>x. x \<in> C \<Longrightarrow> se_best ?st' x = se_best st x" using run by simp
            show "\<exists>b'. se_best ?st' x = Some b' \<and> b' \<le> b" if "se_best st x = Some b" for x b
            proof -
              have "se_best ?st x = Some b" using that by simp
              with run show ?thesis by blast
            qed
            show "se_truncated st \<Longrightarrow> se_truncated ?st'" using run by simp
          qed
          show "T \<notin> insert v C" using notin expand(2) by simp
          show "\<not> se_reached_target ?st'" using run running by simp
        qed
        then show ?thesis using pop False expand by (simp add: unfold)
      qed
    qed
  qed
qed

section \<open>Paths in the graph\<close>

definition trust_weight :: "string \<Rightarrow> nat" where
  "trust_weight t =
     (if t = ''extracted'' then 1 else if t = ''inferred'' then 4 else if t = ''legacy'' then 6 else 8)"

lemma edge_weight_trust: "edge_weight e = trust_weight (ge_trust e)"
  by (simp add: edge_weight_def trust_weight_def)

definition path_cost :: "GraphPathHop list \<Rightarrow> nat" where
  "path_cost hops = sum_list (map (\<lambda>p. trust_weight (ph_trust p)) hops)"

definition stored_hop :: "RepoGraph \<Rightarrow> GraphPathHop \<Rightarrow> bool" where
  "stored_hop graph p \<longleftrightarrow>
     node_by_id graph (gn_id (ph_from p)) = Some (ph_from p) \<and>
     node_by_id graph (gn_id (ph_to p)) = Some (ph_to p) \<and>
     (\<exists>e\<in>set (rg_edges graph).
        ph_kind p = ge_kind e \<and> ph_trust p = ge_trust e \<and> ph_origin p = ge_origin e \<and>
        ph_confidence_label p = ge_confidence_label e \<and> ph_evidence p = ge_evidence e \<and>
        ph_sources p = ge_sources e \<and>
        (if ph_follows_stored_direction p
         then ge_from e = gn_id (ph_from p) \<and> ge_to e = gn_id (ph_to p)
         else ge_to e = gn_id (ph_from p) \<and> ge_from e = gn_id (ph_to p)))"

fun hops_from :: "RepoGraph \<Rightarrow> string \<Rightarrow> GraphPathHop list \<Rightarrow> string \<Rightarrow> bool" where
  "hops_from graph u [] v \<longleftrightarrow> u = v"
| "hops_from graph u (p # ps) v \<longleftrightarrow>
     gn_id (ph_from p) = u \<and> stored_hop graph p \<and> hops_from graph (gn_id (ph_to p)) ps v"

lemma node_by_id_Some: "node_by_id graph x = Some n \<Longrightarrow> gn_id n = x \<and> n \<in> set (rg_nodes graph)"
  by (auto simp: node_by_id_def dest!: map_of_SomeD)

lemma stored_hop_neighbor:
  assumes "stored_hop graph p"
  shows "\<exists>i f. (i, gn_id (ph_to p), f) \<in> neighbors graph (gn_id (ph_from p)) \<and>
     edge_weight (rg_edges graph ! i) = trust_weight (ph_trust p)"
proof -
  obtain e where e: "e \<in> set (rg_edges graph)" "ph_trust p = ge_trust e"
    "if ph_follows_stored_direction p
     then ge_from e = gn_id (ph_from p) \<and> ge_to e = gn_id (ph_to p)
     else ge_to e = gn_id (ph_from p) \<and> ge_from e = gn_id (ph_to p)"
    using assms unfolding stored_hop_def by blast
  then obtain i where i: "i < length (rg_edges graph)" "rg_edges graph ! i = e"
    by (auto simp: in_set_conv_nth)
  have "(i, gn_id (ph_to p), ph_follows_stored_direction p) \<in> neighbors graph (gn_id (ph_from p))"
    using assms e(3) i by (auto simp: neighbors_def stored_hop_def split: if_splits)
  then show ?thesis using i(2) e(2) by (auto simp: edge_weight_trust)
qed

lemma hops_from_walk:
  "hops_from graph u ps v \<Longrightarrow> walk graph s c h u \<Longrightarrow>
     walk graph s (c + path_cost ps) (h + length ps) v"
proof (induction ps arbitrary: u c h)
  case Nil
  then show ?case by (simp add: path_cost_def)
next
  case (Cons p ps)
  then obtain i f where "(i, gn_id (ph_to p), f) \<in> neighbors graph u"
    "edge_weight (rg_edges graph ! i) = trust_weight (ph_trust p)"
    using stored_hop_neighbor [of graph p] by auto
  from walk.step [OF Cons.prems(2) this(1)] this(2)
  have "walk graph s (c + trust_weight (ph_trust p)) (Suc h) (gn_id (ph_to p))" by simp
  from Cons.IH [OF _ this] Cons.prems(1) show ?case by (simp add: path_cost_def add.assoc)
qed

fun chain_from :: "RepoGraph \<Rightarrow> string \<Rightarrow> (string \<times> string \<times> nat \<times> bool) list \<Rightarrow> string \<Rightarrow> bool" where
  "chain_from graph u [] v \<longleftrightarrow> u = v"
| "chain_from graph u ((a, b, i, f) # r) v \<longleftrightarrow>
     a = u \<and> (i, b, f) \<in> neighbors graph u \<and> chain_from graph b r v"

lemma chain_from_snoc:
  "chain_from graph u (r @ [(a, b, i, f)]) v \<longleftrightarrow>
     chain_from graph u r a \<and> (i, b, f) \<in> neighbors graph a \<and> b = v"
  by (induction graph u r a rule: chain_from.induct) auto

declare path_chain.simps [simp del]

lemma path_chain_ok:
  assumes inv: "search_inv graph s H C K st"
  shows "se_best st v = Some (c, h) \<Longrightarrow> h \<le> fuel \<Longrightarrow>
    \<exists>pre. path_chain fuel (se_previous st) s v chain = Some (pre @ chain) \<and>
      chain_from graph s pre v \<and> length pre = h \<and>
      sum_list (map (\<lambda>(a, b, i, f). edge_weight (rg_edges graph ! i)) pre) = c"
proof (induction h arbitrary: v c fuel chain)
  case 0
  have "v = s"
  proof (rule ccontr)
    assume "v \<noteq> s"
    from search_inv_prev [OF inv, rule_format, OF 0(1) this] show False by auto
  qed
  moreover from this have "c = 0" using 0(1) inv by (simp add: search_inv_def)
  ultimately show ?case by (simp add: path_chain.simps [of fuel])
next
  case (Suc h)
  have "v \<noteq> s" using Suc.prems(1) inv by (auto simp: search_inv_def)
  from search_inv_prev [OF inv, rule_format, OF Suc.prems(1) this] obtain u i f cu where
    p: "se_previous st v = Some (u, i, f)" "se_best st u = Some (cu, h)"
      "(i, v, f) \<in> neighbors graph u" "c = cu + edge_weight (rg_edges graph ! i)" by auto
  obtain fuel' where fuel: "fuel = Suc fuel'" "h \<le> fuel'" using Suc.prems(2) by (cases fuel) auto
  obtain pre where pre: "path_chain fuel' (se_previous st) s u ((u, v, i, f) # chain)
      = Some (pre @ (u, v, i, f) # chain)" "chain_from graph s pre u" "length pre = h"
      "sum_list (map (\<lambda>(a, b, i, f). edge_weight (rg_edges graph ! i)) pre) = cu"
    using Suc.IH [OF p(2) fuel(2)] by blast
  have "path_chain fuel (se_previous st) s v chain = Some ((pre @ [(u, v, i, f)]) @ chain)"
    using pre(1) p(1) \<open>v \<noteq> s\<close> by (simp add: path_chain.simps [of "Suc fuel'"] fuel(1))
  moreover have "chain_from graph s (pre @ [(u, v, i, f)]) v"
    using pre(2) p(3) by (simp add: chain_from_snoc)
  moreover have "length (pre @ [(u, v, i, f)]) = Suc h" using pre(3) by simp
  moreover have "sum_list (map (\<lambda>(a, b, i, f). edge_weight (rg_edges graph ! i)) (pre @ [(u, v, i, f)])) = c"
    using pre(4) p(4) by simp
  ultimately show ?case by blast
qed

lemma chain_hops:
  assumes "chain_from graph u chain v"
  shows "hops_from graph u (List.map_filter (path_hop graph) chain) v \<and>
    length (List.map_filter (path_hop graph) chain) = length chain \<and>
    path_cost (List.map_filter (path_hop graph) chain) =
      sum_list (map (\<lambda>(a, b, i, f). edge_weight (rg_edges graph ! i)) chain)"
  using assms
proof (induction graph u chain v rule: chain_from.induct)
  case (1 graph u v)
  then show ?case by (simp add: List.map_filter_simps path_cost_def)
next
  case (2 graph u a b i f r v)
  then have n: "(i, b, f) \<in> neighbors graph u" and a: "a = u" and r: "chain_from graph b r v" by simp_all
  then obtain x y where nodes: "node_by_id graph u = Some x" "node_by_id graph b = Some y"
    by (auto simp: neighbors_def split: if_splits)
  let ?e = "rg_edges graph ! i"
  let ?p = "\<lparr>ph_from = x, ph_to = y, ph_kind = ge_kind ?e, ph_trust = ge_trust ?e,
     ph_origin = ge_origin ?e, ph_confidence_label = ge_confidence_label ?e,
     ph_evidence = ge_evidence ?e, ph_sources = ge_sources ?e, ph_follows_stored_direction = f\<rparr>"
  have i: "i < length (rg_edges graph)" using n by (simp add: neighbors_def)
  then have hop: "path_hop graph (a, b, i, f) = Some ?p"
    using nodes by (simp add: path_hop_def option_then_def a)
  have ids: "gn_id x = u" "gn_id y = b" using nodes node_by_id_Some by blast+
  have "stored_hop graph ?p"
    using i n nodes ids unfolding stored_hop_def
    by (auto simp: neighbors_def split: if_splits intro!: bexI [of _ ?e])
  then show ?case
    using "2.IH" [OF r] ids
    by (simp add: List.map_filter_simps hop path_cost_def edge_weight_trust)
qed

lemma search_start_done: "s \<noteq> T \<Longrightarrow> search_done graph s T H (search_loop graph T H M (search_start s))"
  by (rule search_loop_done [OF search_inv_start])
    (simp_all add: all_expanded_def search_start_def)

lemma trace_between_spec:
  assumes "s \<noteq> T"
  shows "\<exists>r. trace_between graph source target s T H M = Some r \<and>
    pb_max_hops (pr_bounds r) = H \<and> pb_max_visited_nodes (pr_bounds r) = M \<and> 
    (pr_requires_verification r \<longleftrightarrow> needs_verification (pr_hops r)) \<and>
    (if pr_found r
     then hops_from graph s (pr_hops r) T \<and> length (pr_hops r) \<le> H \<and>
       path_cost (pr_hops r) \<le> 8 * length (pr_hops r) \<and>
       (\<not> pb_truncated (pr_bounds r) \<longrightarrow> (\<forall>ps. hops_from graph s ps T \<longrightarrow>
          (path_cost (pr_hops r), length (pr_hops r)) \<le> (path_cost ps, length ps)))
     else pr_hops r = [] \<and>
       (\<not> pb_truncated (pr_bounds r) \<longrightarrow> (\<forall>ps. \<not> hops_from graph s ps T)))"
proof -
  let ?st = "search_loop graph T H M (search_start s)"
  obtain C K where inv: "search_inv graph s H C K ?st"
    and fin: "if se_reached_target ?st
         then (\<exists>b. se_best ?st T = Some b \<and>
            (\<not> se_truncated ?st \<longrightarrow> (\<forall>c h. walk graph s c h T \<longrightarrow> b \<le> (c, h))))
         else \<not> se_truncated ?st \<longrightarrow> (\<forall>c h. \<not> walk graph s c h T)"
    using search_start_done [OF assms] unfolding search_done_def by blast
  have walks: "walk graph s (path_cost ps) (length ps) T" if "hops_from graph s ps T" for ps
    using hops_from_walk [OF that walk.here] by simp
  show ?thesis
  proof (cases "se_reached_target ?st")
    case False
    then show ?thesis
      using assms fin walks
      by (auto simp: trace_between_def Let_def empty_path_def needs_verification_def)
  next
    case True
    with fin obtain c h where best: "se_best ?st T = Some (c, h)"
      and least: "\<not> se_truncated ?st \<Longrightarrow> walk graph s c' h' T \<Longrightarrow> (c, h) \<le> (c', h')" for c' h'
      by fastforce
    have bounds: "h \<le> H" "c \<le> 8 * h" using inv best by (auto simp: search_inv_def)
    obtain chain where chain: "path_chain H (se_previous ?st) s T [] = Some chain"
      "chain_from graph s chain T" "length chain = h"
      "sum_list (map (\<lambda>(a, b, i, f). edge_weight (rg_edges graph ! i)) chain) = c"
      using path_chain_ok [OF inv best bounds(1), of "[]"] by auto
    note hops = chain_hops [OF chain(2), unfolded chain(3,4)]
    show ?thesis
      using assms True chain(1) hops bounds least walks
      by (simp add: trace_between_def Let_def del: less_eq_prod_simp)
  qed
qed

section \<open>Endpoint resolution\<close>

lemma ranked_candidates:
  "set (List.map_filter (\<lambda>node. map_option (endpoint_candidate node) (endpoint_score q node)) nodes) =
     {c. \<exists>node\<in>set nodes. \<exists>s. endpoint_score q node = Some s \<and> c = endpoint_candidate node s}"
proof (induction nodes)
  case Nil
  then show ?case by (simp add: List.map_filter_simps)
next
  case (Cons n nodes)
  then show ?case
    by (cases "endpoint_score q n") (auto simp: List.map_filter_simps)
qed

lemma candidate_ids_distinct:
  "distinct (map gn_id nodes) \<Longrightarrow> distinct (map ec_id
     (List.map_filter (\<lambda>node. map_option (endpoint_candidate node) (endpoint_score q node)) nodes))"
proof (induction nodes)
  case Nil
  then show ?case by (simp add: List.map_filter_simps)
next
  case (Cons n nodes)
  show ?case
  proof (cases "endpoint_score q n")
    case None
    then show ?thesis using Cons by (simp add: List.map_filter_simps)
  next
    case (Some s)
    have "gn_id n \<notin> ec_id ` set (List.map_filter
        (\<lambda>node. map_option (endpoint_candidate node) (endpoint_score q node)) nodes)"
      using Cons.prems by (auto simp: ranked_candidates endpoint_candidate_def)
    then show ?thesis
      using Cons Some by (simp add: List.map_filter_simps endpoint_candidate_def [of n])
  qed
qed

lemma rank_candidates_members:
  "c \<in> set (rank_candidates nodes q) \<Longrightarrow>
     \<exists>node\<in>set nodes. \<exists>s. endpoint_score q node = Some s \<and> c = endpoint_candidate node s"
  unfolding rank_candidates_def by (drule in_set_takeD) (simp add: ranked_candidates)

lemma resolve_selected:
  assumes "er_status (resolve_graph_endpoint graph q selected) = Endpoint_Resolved"
  shows "\<exists>c. er_selected (resolve_graph_endpoint graph q selected) = Some c \<and>
     (\<exists>node\<in>set (rg_nodes graph). c = endpoint_candidate node (ec_score c))"
proof (cases "option_then selected (\<lambda>id. List.find (\<lambda>node. gn_id node = id) (rg_nodes graph))")
  case (Some node)
  then have "node \<in> set (rg_nodes graph)"
    by (auto simp: option_then_def find_Some_iff split: option.splits)
  then show ?thesis using Some by (auto simp: resolve_graph_endpoint_def endpoint_candidate_def)
next
  case None
  then obtain c rest where r: "rank_candidates (rg_nodes graph) (trim q) = c # rest"
    "er_selected (resolve_graph_endpoint graph q selected) = Some c"
    using assms by (auto simp: resolve_graph_endpoint_def Let_def split: if_splits list.splits)
  then obtain node s where "node \<in> set (rg_nodes graph)" "c = endpoint_candidate node s"
    using rank_candidates_members [of c "rg_nodes graph" "trim q"] by auto
  then show ?thesis using r(2) by (auto simp: endpoint_candidate_def)
qed

lemma endpoint_score_bound:
  assumes "endpoint_score q node = Some s" "finite (tokens q)" "card (tokens q) \<le> 34"
    "to_ascii_lowercase (gn_id node) \<noteq> to_ascii_lowercase q"
  shows "s < 400"
proof -
  have "card (tokens q \<inter> X) \<le> 34" for X
    using assms(2,3) card_mono [of "tokens q" "tokens q \<inter> X"] by simp
  note this [of "tokens (gn_id node @ '' '' @ gn_label node @ '' '' @
     to_ascii_lowercase (case gn_path node of None \<Rightarrow> [] | Some p \<Rightarrow> p))"]
  then show ?thesis
    using assms(1,4) by (auto simp: endpoint_score_def Let_def split: if_splits)
qed

lemma sort_key_head:
  assumes "distinct (map ec_id xs)" "x \<in> set xs" "\<And>y. y \<in> set xs \<Longrightarrow> y \<noteq> x \<Longrightarrow> f x < f y"
  shows "\<exists>ys. sort_key f xs = x # ys \<and> (\<forall>y\<in>set ys. f x < f y)"
proof -
  obtain z ys where zs: "sort_key f xs = z # ys" using assms(2) by (cases "sort_key f xs") auto
  have dist: "distinct (sort_key f xs)" using assms(1) by (simp add: distinct_map)
  have mem: "set xs = insert z (set ys)" using zs by (metis list.set(2) set_sort)
  have "sorted (map f (z # ys))" using zs by (metis sorted_sort_key)
  then have "f z \<le> f x" using assms(2) mem by auto
  then have "z = x" using assms(2,3) mem by (metis insertI1 leD)
  moreover have "f x < f y" if "y \<in> set ys" for y
    using dist mem that assms(3) [of y] zs \<open>z = x\<close> by auto
  ultimately show ?thesis using zs by blast
qed

text \<open>A query that names exactly one node by its identity resolves to that node, provided the
  query has at most 34 words: from 35 shared words on the word overlap of another node scores as
  high as the exact match.\<close>

theorem resolve_exact_identity:
  assumes "node \<in> set (rg_nodes graph)" "distinct (map gn_id (rg_nodes graph))"
    and "\<forall>m\<in>set (rg_nodes graph). to_ascii_lowercase (gn_id m) = to_ascii_lowercase (trim q) \<longleftrightarrow> m = node"
    and "trim q \<noteq> []" "card (tokens (trim q)) \<le> 34"
  shows "er_status (resolve_graph_endpoint graph q None) = Endpoint_Resolved \<and>
     er_selected (resolve_graph_endpoint graph q None) = Some (endpoint_candidate node 400)"
proof -
  let ?q = "trim q" and ?f = "\<lambda>c. (- int (ec_score c), ec_id c)"
  let ?xs = "List.map_filter (\<lambda>node. map_option (endpoint_candidate node) (endpoint_score ?q node))
    (rg_nodes graph)"
  let ?x = "endpoint_candidate node 400"
  have score: "endpoint_score ?q node = Some 400"
    using assms(1,3) by (simp add: endpoint_score_def Let_def)
  have x: "?x \<in> set ?xs" unfolding ranked_candidates using assms(1) score by blast
  have low: "ec_score y < 400" if y: "y \<in> set ?xs" "y \<noteq> ?x" for y
  proof -
    obtain m s where m: "m \<in> set (rg_nodes graph)" "endpoint_score ?q m = Some s"
      "y = endpoint_candidate m s"
      using y(1) unfolding ranked_candidates by blast
    with y(2) score have "m \<noteq> node" by auto
    then have "to_ascii_lowercase (gn_id m) \<noteq> to_ascii_lowercase ?q" using assms(3) m(1) by blast
    moreover have "finite (tokens ?q)" by (simp add: tokens_def)
    ultimately have "s < 400" using endpoint_score_bound [OF m(2)] assms(5) by blast
    then show ?thesis by (simp add: m(3) endpoint_candidate_def)
  qed
  have first: "?f ?x < ?f y" if "y \<in> set ?xs" "y \<noteq> ?x" for y
    using low [OF that] by (simp add: endpoint_candidate_def)
  obtain ys where ys: "sort_key ?f ?xs = ?x # ys" "\<forall>y\<in>set ys. ?f ?x < ?f y"
    using sort_key_head [of ?xs ?x ?f, OF candidate_ids_distinct [OF assms(2)] x first] by blast
  then have ranked: "rank_candidates (rg_nodes graph) ?q = ?x # take 5 ys"
    by (simp add: rank_candidates_def)
  have rest: "ec_score y < 400" if "y \<in> set (take 5 ys)" for y
  proof -
    have y: "y \<in> set ys" using that by (rule in_set_takeD)
    have "set ?xs = insert ?x (set ys)"
      using arg_cong [OF ys(1), of set] by (simp only: set_sort list.set)
    with y have "y \<in> set ?xs" by blast
    moreover have "y \<noteq> ?x" using ys(2) y by blast
    ultimately show ?thesis by (rule low)
  qed
  have "\<not> ambiguous_ranking (?x # take 5 ys)"
  proof (cases "take 5 ys")
    case (Cons y zs)
    then have "ec_score y < 400" by (intro rest) simp
    then show ?thesis by (simp add: Cons ambiguous_ranking_def endpoint_candidate_def)
  qed (simp add: ambiguous_ranking_def)
  then show ?thesis
    using assms(4) ranked by (simp add: resolve_graph_endpoint_def option_then_def Let_def)
qed

section \<open>Traces\<close>

lemma trace_cases:
  obtains (unresolved) "trace_graph_path graph sq tq sid tid mh mv =
      Some (empty_path (resolve_graph_endpoint graph sq sid) (resolve_graph_endpoint graph tq tid)
        (clamp 1 16 mh) (clamp 1 20000 mv) SelectDecisiveEndpoints)"
      "er_status (resolve_graph_endpoint graph sq sid) \<noteq> Endpoint_Resolved \<or>
       er_status (resolve_graph_endpoint graph tq tid) \<noteq> Endpoint_Resolved"
  | (resolved) s t where "er_selected (resolve_graph_endpoint graph sq sid) = Some s"
      "er_selected (resolve_graph_endpoint graph tq tid) = Some t"
      "trace_graph_path graph sq tq sid tid mh mv = trace_between graph
         (resolve_graph_endpoint graph sq sid) (resolve_graph_endpoint graph tq tid)
         (ec_id s) (ec_id t) (clamp 1 16 mh) (clamp 1 20000 mv)"
proof (cases "er_status (resolve_graph_endpoint graph sq sid) \<noteq> Endpoint_Resolved \<or>
       er_status (resolve_graph_endpoint graph tq tid) \<noteq> Endpoint_Resolved")
  case True
  then show ?thesis by (intro unresolved) (auto simp: trace_graph_path_def Let_def)
next
  case False
  then obtain s t where "er_selected (resolve_graph_endpoint graph sq sid) = Some s"
      "er_selected (resolve_graph_endpoint graph tq tid) = Some t"
    using resolve_selected by blast
  then show ?thesis
    using False by (intro resolved [of s t]) (simp_all add: trace_graph_path_def Let_def option_then_def)
qed

lemma trace_between_source:
  "trace_between graph source target s t H M = Some r \<Longrightarrow> pr_source r = source \<and> pr_target r = target"
  by (auto simp: trace_between_def empty_path_def Let_def split: if_splits option.splits)

lemma trace_same:
  "trace_between graph source target s s H M = Some r \<Longrightarrow> pr_message r = SameNode"
  by (auto simp: trace_between_def empty_path_def)

text \<open>A trace always returns (the walk back along the predecessors ends), and a path it reports
  is a path of the graph: it leads from the selected source to the selected target over stored edges
  with their stored attributes, within the clamped hop bound of at most sixteen hops, so no 32-bit
  cost ever overflows.\<close>

theorem trace_graph_path_sound:
  "\<exists>r. trace_graph_path graph sq tq sid tid mh mv = Some r \<and>
     (pr_found r \<and> pr_message r \<noteq> SameNode \<longrightarrow>
       (\<exists>s t. er_selected (pr_source r) = Some s \<and> er_selected (pr_target r) = Some t \<and>
          pr_hops r \<noteq> [] \<and> hops_from graph (ec_id s) (pr_hops r) (ec_id t) \<and>
          length (pr_hops r) \<le> clamp 1 16 mh \<and> path_cost (pr_hops r) \<le> 128))"
proof (cases rule: trace_cases [of graph sq tq sid tid mh mv])
  case unresolved
  then show ?thesis by (simp add: empty_path_def)
next
  case (resolved s t)
  show ?thesis
  proof (cases "ec_id s = ec_id t")
    case True
    then show ?thesis using resolved(3) by (simp add: trace_between_def empty_path_def)
  next
    case False
    from trace_between_spec [OF this] resolved(3) obtain r where
      r: "trace_graph_path graph sq tq sid tid mh mv = Some r" and
      ok: "pr_found r \<Longrightarrow> hops_from graph (ec_id s) (pr_hops r) (ec_id t) \<and>
        length (pr_hops r) \<le> clamp 1 16 mh \<and> path_cost (pr_hops r) \<le> 8 * length (pr_hops r)"
      by fastforce
    have ends: "pr_source r = resolve_graph_endpoint graph sq sid"
      "pr_target r = resolve_graph_endpoint graph tq tid"
      using trace_between_source r resolved(3) by metis+
    have "pr_hops r \<noteq> []" "path_cost (pr_hops r) \<le> 128" if "pr_found r"
      using ok [OF that] False clamp_le [of 1 16 mh] by auto
    then show ?thesis using r ok resolved(1,2) ends by auto
  qed
qed

text \<open>C6. An answer that is not marked truncated is exact: the hops of a path that was found lead over
  stored edges from the selected source to the selected target, within the clamped hop bound, and no
  path of the graph is cheaper, or as cheap and shorter; and if none was found, then there are no
  hops and no path exists, of any length.\<close>

theorem trace_untruncated_exact:
  assumes "trace_graph_path graph sq tq sid tid mh mv = Some r" "\<not> pb_truncated (pr_bounds r)"
    and "er_selected (pr_source r) = Some s" "er_selected (pr_target r) = Some t"
    and "pr_message r \<noteq> SelectDecisiveEndpoints" "pr_message r \<noteq> SameNode"
  shows "if pr_found r
    then hops_from graph (ec_id s) (pr_hops r) (ec_id t) \<and> pr_hops r \<noteq> [] \<and>
      length (pr_hops r) \<le> clamp 1 16 mh \<and>
      (\<forall>ps. hops_from graph (ec_id s) ps (ec_id t) \<longrightarrow>
        (path_cost (pr_hops r), length (pr_hops r)) \<le> (path_cost ps, length ps))
    else pr_hops r = [] \<and> (\<forall>ps. \<not> hops_from graph (ec_id s) ps (ec_id t))"
proof (cases rule: trace_cases [of graph sq tq sid tid mh mv])
  case unresolved
  then show ?thesis using assms by (simp add: empty_path_def)
next
  case (resolved s' t')
  then have run: "trace_between graph (resolve_graph_endpoint graph sq sid)
      (resolve_graph_endpoint graph tq tid) (ec_id s') (ec_id t') (clamp 1 16 mh) (clamp 1 20000 mv) = Some r"
    using assms(1) by simp
  then have "s' = s" "t' = t" using trace_between_source [OF run] assms(3,4) resolved(1,2) by simp_all
  moreover have "ec_id s' \<noteq> ec_id t'" using run trace_same assms(6) by metis
  ultimately show ?thesis
    using trace_between_spec [of "ec_id s" "ec_id t" graph "resolve_graph_endpoint graph sq sid"
        "resolve_graph_endpoint graph tq tid" "clamp 1 16 mh" "clamp 1 20000 mv"] run assms(2)
    by (auto simp del: less_eq_prod_simp split: if_splits)
qed

lemma imported_hop_unverified:
  assumes "well_formed_import graph" "stored_hop graph p"
  shows "ph_origin p \<noteq> ''codevetter''"
proof -
  obtain e where "e \<in> set (rg_edges graph)" "ph_origin p = ge_origin e"
    using assms(2) unfolding stored_hop_def by blast
  then show ?thesis using assms(1) by (auto simp: well_formed_import_def imported_edge_def)
qed

text \<open>No path over an imported graph is ever reported as source-backed, whatever trust the
  imported file claims for its relationships.\<close>

theorem imported_paths_need_verification:
  assumes "normalize_external_graph_json parse num_text num_u64 bytes = Inr graph"
    and "trace_graph_path graph sq tq sid tid mh mv = Some r"
    and "pr_found r" "pr_message r \<noteq> SameNode"
  shows "pr_requires_verification r \<and> pr_trust_summary r = ''navigation_lead''"
proof (cases rule: trace_cases [of graph sq tq sid tid mh mv])
  case unresolved
  then show ?thesis using assms by (simp add: empty_path_def)
next
  case (resolved s t)
  let ?T = "trace_between graph (resolve_graph_endpoint graph sq sid) (resolve_graph_endpoint graph tq tid)
    (ec_id s) (ec_id t) (clamp 1 16 mh) (clamp 1 20000 mv)"
  have run: "?T = Some r" using assms(2) resolved(3) by simp
  have ne: "ec_id s \<noteq> ec_id t" using run trace_same assms(4) by metis
  have hops: "hops_from graph (ec_id s) (pr_hops r) (ec_id t)"
    and need: "pr_requires_verification r \<longleftrightarrow> needs_verification (pr_hops r)"
    using trace_between_spec [OF ne] run assms(3) by (metis (no_types, lifting) option.inject)+
  have imported: "well_formed_import graph" by (rule normalize_well_formed [OF assms(1)])
  obtain p ps where p: "pr_hops r = p # ps" using hops ne by (cases "pr_hops r") auto
  have "needs_verification (pr_hops r)"
    using hops imported_hop_unverified [OF imported] by (simp add: p needs_verification_def)
  then show ?thesis
    using need run ne assms(3) by (auto simp: trace_between_def Let_def empty_path_def split: if_splits option.splits)
qed

section \<open>Concrete graphs\<close>

definition plain_node :: "string \<Rightarrow> RepoGraphNode" where
  "plain_node x =
     \<lparr>gn_id = x, gn_kind = ''file'', gn_label = x, gn_path = None, gn_detail = None, gn_sources = [],
      gn_source_location = None, gn_community = None\<rparr>"

definition plain_edge :: "string \<Rightarrow> string \<Rightarrow> string \<Rightarrow> RepoGraphEdge" where
  "plain_edge a b t =
     \<lparr>ge_from = a, ge_to = b, ge_kind = ''calls'', ge_evidence = [], ge_sources = [], ge_trust = t,
      ge_origin = ''codevetter'', ge_confidence_label = None\<rparr>"

definition small_graph :: RepoGraph where
  "small_graph =
     \<lparr>rg_schema_version = 2, rg_nodes = [plain_node ''s'', plain_node ''t''],
      rg_edges = [plain_edge ''s'' ''t'' ''extracted''], rg_truncated = False\<rparr>"

text \<open>From s to t there is the direct way over b in two hops, but b is cheaper to reach over a.\<close>

definition detour_graph :: RepoGraph where
  "detour_graph =
     \<lparr>rg_schema_version = 2,
      rg_nodes = [plain_node ''s'', plain_node ''a'', plain_node ''b'', plain_node ''t''],
      rg_edges = [plain_edge ''s'' ''a'' ''extracted'', plain_edge ''a'' ''b'' ''extracted'',
                  plain_edge ''s'' ''b'' ''ambiguous'', plain_edge ''b'' ''t'' ''extracted''],
      rg_truncated = False\<rparr>"

lemmas trace_eval =
  trace_graph_path_def resolve_graph_endpoint_def option_then_def trace_between_def search_start_def
  search_loop.simps relax_neighbor_def adjacency_of_def add_edge_def push_neighbor_def node_by_id_def
  heap_push_def edge_weight_def endpoint_candidate_def clamp_def plain_node_def plain_edge_def
  empty_path_def path_chain.simps path_hop_def List.map_filter_simps

lemma small_trace:
  "\<exists>r. trace_graph_path small_graph ''s'' ''t'' (Some ''s'') (Some ''t'') 4 100 = Some r \<and>
     pr_found r \<and> pr_message r = SourceBackedPath \<and> \<not> pb_truncated (pr_bounds r) \<and>
     map_option ec_id (er_selected (pr_source r)) = Some ''s'' \<and>
     map_option ec_id (er_selected (pr_target r)) = Some ''t'' \<and> length (pr_hops r) = 1"
  by (simp add: small_graph_def trace_eval needs_verification_def Let_def)

lemma detour_trace:
  "\<exists>r. trace_graph_path detour_graph ''s'' ''t'' (Some ''s'') (Some ''t'') 2 100 = Some r \<and>
     \<not> pr_found r \<and> pr_message r = NoBoundedPath 2 \<and> pb_truncated (pr_bounds r)"
  by (simp add: detour_graph_def trace_eval Let_def)

lemma detour_path: "\<exists>ps. hops_from detour_graph ''s'' ps ''t'' \<and> length ps = 2"
proof -
  have n: "node_by_id detour_graph x = Some (plain_node x)" if "x \<in> {''s'', ''a'', ''b'', ''t''}" for x
    using that by (auto simp: node_by_id_def detour_graph_def plain_node_def)
  have id: "gn_id (plain_node x) = x" for x by (simp add: plain_node_def)
  define hop where "hop = (\<lambda>a b (e :: RepoGraphEdge). \<lparr>ph_from = plain_node a, ph_to = plain_node b, ph_kind = ge_kind e,
    ph_trust = ge_trust e, ph_origin = ge_origin e, ph_confidence_label = ge_confidence_label e,
    ph_evidence = ge_evidence e, ph_sources = ge_sources e, ph_follows_stored_direction = True\<rparr>)"
  have "stored_hop detour_graph (hop ''s'' ''b'' (plain_edge ''s'' ''b'' ''ambiguous''))"
    "stored_hop detour_graph (hop ''b'' ''t'' (plain_edge ''b'' ''t'' ''extracted''))"
    using n by (auto simp: stored_hop_def hop_def id detour_graph_def plain_edge_def)
  then have "hops_from detour_graph ''s'' [hop ''s'' ''b'' (plain_edge ''s'' ''b'' ''ambiguous''),
      hop ''b'' ''t'' (plain_edge ''b'' ''t'' ''extracted'')] ''t''"
    by (simp add: hop_def id)
  then show ?thesis by (metis length_Cons list.size(3) numeral_2_eq_2)
qed

text \<open>The hop bound makes the search incomplete: with a bound of two hops the trace reports
  that no bounded path was found although a path of two hops exists, because the cheapest way to an
  intermediate node uses up the hops and its shorter, costlier way was discarded.\<close>

theorem trace_misses_bounded_path:
  "\<exists>r. trace_graph_path detour_graph ''s'' ''t'' (Some ''s'') (Some ''t'') 2 100 = Some r \<and>
     \<not> pr_found r \<and> pr_message r = NoBoundedPath 2 \<and>
     (\<exists>ps. hops_from detour_graph ''s'' ps ''t'' \<and> length ps = 2)"
  using detour_trace detour_path by blast

section \<open>Witnesses\<close>

theorem trace_graph_path_sound_witness:
  "\<exists>r (s :: GraphEndpointCandidate) (t :: GraphEndpointCandidate).
     trace_graph_path small_graph ''s'' ''t'' (Some ''s'') (Some ''t'') 4 100 = Some r \<and>
     hops_from small_graph (ec_id s) (pr_hops r) (ec_id t) \<and> pr_hops r \<noteq> []"
proof -
  obtain r where r: "trace_graph_path small_graph ''s'' ''t'' (Some ''s'') (Some ''t'') 4 100 = Some r"
    "pr_found r" "pr_message r = SourceBackedPath"
    using small_trace by blast
  moreover obtain s t :: GraphEndpointCandidate where "hops_from small_graph (ec_id s) (pr_hops r) (ec_id t)" "pr_hops r \<noteq> []"
    using trace_graph_path_sound [of small_graph "''s''" "''t''" "Some ''s''" "Some ''t''" 4 100] r by auto
  ultimately show ?thesis by blast
qed

theorem trace_untruncated_exact_witness:
  "\<exists>r. trace_graph_path small_graph ''s'' ''t'' (Some ''s'') (Some ''t'') 4 100 = Some r \<and>
     hops_from small_graph ''s'' (pr_hops r) ''t'' \<and> pr_hops r \<noteq> [] \<and>
     (\<forall>ps. hops_from small_graph ''s'' ps ''t'' \<longrightarrow>
        (path_cost (pr_hops r), length (pr_hops r)) \<le> (path_cost ps, length ps))"
proof -
  obtain r s t where r: "trace_graph_path small_graph ''s'' ''t'' (Some ''s'') (Some ''t'') 4 100 = Some r"
    "pr_found r" "pr_message r = SourceBackedPath" "\<not> pb_truncated (pr_bounds r)"
    "er_selected (pr_source r) = Some s" "ec_id s = ''s''"
    "er_selected (pr_target r) = Some t" "ec_id t = ''t''"
    using small_trace by auto
  have "pr_message r \<noteq> SelectDecisiveEndpoints" "pr_message r \<noteq> SameNode" using r(3) by simp_all
  from trace_untruncated_exact [OF r(1,4,5,7) this] r show ?thesis by (auto simp del: less_eq_prod_simp)
qed

theorem resolve_exact_identity_witness:
  "er_selected (resolve_graph_endpoint small_graph ''s'' None) =
     Some (endpoint_candidate (plain_node ''s'') 400)"
proof -
  have q: "trim ''s'' = ''s''" by (simp add: text_eval)
  have "tokens ''s'' = {}" by (simp add: tokens_def text_eval)
  then have "card (tokens (trim ''s'')) \<le> 34" by (simp add: q)
  moreover have "\<forall>m\<in>set (rg_nodes small_graph).
      to_ascii_lowercase (gn_id m) = to_ascii_lowercase (trim ''s'') \<longleftrightarrow> m = plain_node ''s''"
    by (simp add: q small_graph_def plain_node_def text_eval)
  moreover have "plain_node ''s'' \<in> set (rg_nodes small_graph)"
    "distinct (map gn_id (rg_nodes small_graph))" "trim ''s'' \<noteq> []"
    by (simp_all add: q small_graph_def plain_node_def)
  ultimately show ?thesis using resolve_exact_identity [of "plain_node ''s''" small_graph "''s''"] by blast
qed

text \<open>A file of two nodes and one relationship that claims full confidence.\<close>

definition sample_document :: "nat json" where
  "sample_document =
     JObject [(''nodes'', JArray [JObject [(''id'', JString ''s'')], JObject [(''id'', JString ''t'')]]),
              (''links'', JArray [JObject [(''source'', JString ''s''), (''target'', JString ''t''),
                 (''confidence'', JString ''high'')]])]"

lemma sample_import:
  "\<exists>g. normalize_external_graph_json (\<lambda>_. Some sample_document) decimal Some [] = Inr g \<and>
     (\<exists>r. trace_graph_path g ''s'' ''t'' (Some ''s'') (Some ''t'') 4 100 = Some r \<and>
        pr_found r \<and> pr_message r = UncertainPath)"
  by (simp add: normalize_external_graph_json_def sample_document_def MAX_GRAPH_IMPORT_BYTES_def
      MAX_GRAPH_IMPORT_NODES_def MAX_GRAPH_IMPORT_EDGES_def json_get_def json_array_def
      import_node_def import_edge_def first_string_def endpoint_id_def value_string_def or_else_def
      parse_location_def bounded_text_def imported_trust_def text_eval trace_eval
      needs_verification_def Let_def)


theorem imported_paths_need_verification_witness:
  "\<exists>g r. normalize_external_graph_json (\<lambda>_. Some sample_document) decimal Some [] = Inr g \<and>
     trace_graph_path g ''s'' ''t'' (Some ''s'') (Some ''t'') 4 100 = Some r \<and>
     pr_requires_verification r"
proof -
  obtain g r where gr: "normalize_external_graph_json (\<lambda>_. Some sample_document) decimal Some [] = Inr g"
    "trace_graph_path g ''s'' ''t'' (Some ''s'') (Some ''t'') 4 100 = Some r"
    "pr_found r" "pr_message r = UncertainPath"
    using sample_import by blast
  have "pr_message r \<noteq> SameNode" using gr(4) by simp
  from imported_paths_need_verification [OF gr(1-3) this] gr show ?thesis by blast
qed

end
