(* ===== verification/Secret_Policy.thy ===== *)
theory Secret_Policy
  imports Rust_Text
begin

text \<open>
  The secret policy (\<open>commands/secret_policy.rs\<close>): which paths are sensitive, which texts look
  like a secret, and the redaction built on both. Every function is pure text processing on the
  bytes of a string; \<open>split\<close> and \<open>split_whitespace\<close> cut at Unicode scalar values.
\<close>

section \<open>Sensitive paths\<close>

definition REDACTED :: string where
  "REDACTED = ''[redacted]''"

definition SLASH :: char where
  "SLASH = CHR ''/''"

definition trim_bytes :: "char set \<Rightarrow> string \<Rightarrow> string" where
  "trim_bytes cs s = rev (dropWhile (\<lambda>c. c \<in> cs) (rev (dropWhile (\<lambda>c. c \<in> cs) s)))"

definition normal_path :: "string \<Rightarrow> string" where
  "normal_path path = to_ascii_lowercase (map (\<lambda>c. if c = CHR 0x5C then SLASH else c) path)"

definition last_segment :: "string \<Rightarrow> string" where
  "last_segment s = rev (takeWhile (\<lambda>c. c \<noteq> SLASH) (rev s))"

definition sensitive_names :: "string list" where
  "sensitive_names =
     [''.env'', ''.npmrc'', ''.pypirc'', ''.netrc'', ''.dockercfg'', ''id_rsa'', ''id_ed25519'',
      ''credentials'', ''credentials.json'', ''secrets.yml'', ''secrets.yaml'', ''secrets.json'']"

definition sensitive_name :: "string \<Rightarrow> bool" where
  "sensitive_name name \<longleftrightarrow>
     name \<in> set sensitive_names
     \<or> starts_with name ''.env.''
     \<or> list_ex (ends_with name) [''.pem'', ''.key'', ''.p12'', ''.pfx'', ''.jks'', ''.keystore'']
     \<or> name = ''terraform.tfstate''
     \<or> starts_with name ''terraform.tfstate.''
     \<or> contains_str name ''service-account''
     \<or> contains_str name ''service_account''"

definition sensitive_segments :: "string list" where
  "sensitive_segments = [''/.ssh/'', ''/.aws/'', ''/.kube/'', ''/secrets/'']"

definition is_sensitive_path :: "string \<Rightarrow> bool" where
  "is_sensitive_path path \<longleftrightarrow>
     (let lower = normal_path path;
          wrapped = ''/'' @ trim_bytes {SLASH} lower @ ''/'';
          name = last_segment lower
      in sensitive_name name \<or> list_ex (contains_str wrapped) sensitive_segments)"

definition unit_in :: "char list \<Rightarrow> string \<Rightarrow> bool" where
  "unit_in cs u \<longleftrightarrow> (\<exists>c\<in>set cs. u = [c])"

definition contains_sensitive_path :: "string \<Rightarrow> bool" where
  "contains_sensitive_path value \<longleftrightarrow>
     is_sensitive_path value
     \<or> list_ex is_sensitive_path
         (filter (\<lambda>token. token \<noteq> [])
           (map (trim_bytes {CHR '':'', CHR ''['', CHR '']''})
             (split_on (\<lambda>u. is_whitespace u
                 \<or> unit_in [CHR 0x60, CHR 0x27, CHR 0x22, CHR '','', CHR '';'', CHR ''('', CHR '')''] u)
               value)))"

section \<open>Secrets\<close>

definition secret_markers :: "string list" where
  "secret_markers =
     [''-----begin private key-----'', ''-----begin rsa private key-----'', ''sk-ant-'', ''sk-proj-'',
      ''github_pat_'', ''ghp_'', ''xoxb-'', ''xoxp-'', ''xapp-'', ''AIza'', ''postgres://'',
      ''postgresql://'', ''mongodb://'', ''mongodb+srv://'', ''mysql://'', ''redis://'']"

definition is_cloud_access_key :: "string \<Rightarrow> bool" where
  "is_cloud_access_key token \<longleftrightarrow>
     len token = 20 \<and> (starts_with token ''AKIA'' \<or> starts_with token ''ASIA'') \<and>
     list_all (\<lambda>c. is_ascii_uppercase c \<or> is_ascii_digit c) token"

definition contains_basic_auth_url :: "string \<Rightarrow> bool" where
  "contains_basic_auth_url value \<longleftrightarrow>
     list_ex (\<lambda>token.
        case find_str token ''://'' of
          None \<Rightarrow> False
        | Some scheme \<Rightarrow>
            CHR '':'' \<in> set (takeWhile (\<lambda>c. c \<noteq> CHR ''@'') (drop (scheme + 3) token))
            \<and> CHR ''@'' \<in> set token)
       (split_whitespace value)"

definition credential_keys :: "string list" where
  "credential_keys =
     [''password'', ''passwd'', ''api_key'', ''apikey'', ''access_token'', ''client_secret'']"

definition credential_candidate :: "string \<Rightarrow> string" where
  "credential_candidate s =
     hd (split_on (\<lambda>u. is_whitespace u \<or> unit_in [CHR 0x27, CHR 0x22, CHR '',''] u)
       (dropWhile (\<lambda>c. c \<in> {CHR '' '', CHR 0x27, CHR 0x22}) s))"

definition contains_credential_assignment :: "string \<Rightarrow> bool" where
  "contains_credential_assignment value \<longleftrightarrow>
     (let lower = to_ascii_lowercase value
      in list_ex (\<lambda>key.
           list_ex (\<lambda>needle.
             case find_str lower needle of
               None \<Rightarrow> False
             | Some index \<Rightarrow>
                 (let candidate = credential_candidate (drop (index + len needle) lower)
                  in len candidate \<ge> 8 \<and> candidate \<noteq> ''[redacted]''))
             [key @ ''='', key @ '':'', key @ '' =''])
         credential_keys)"

definition looks_like_secret :: "string \<Rightarrow> bool" where
  "looks_like_secret value \<longleftrightarrow>
     (let lower = to_ascii_lowercase value
      in list_ex (\<lambda>marker. contains_str lower (to_ascii_lowercase marker)) secret_markers
         \<or> contains_str lower ''bearer ''
         \<or> contains_basic_auth_url value
         \<or> list_ex is_cloud_access_key
             (split_on (\<lambda>u. \<not> (case u of [c] \<Rightarrow> is_ascii_alphanumeric c \<or> c = CHR ''_'' | _ \<Rightarrow> False)) value)
         \<or> contains_credential_assignment value)"

definition redact_secret_text :: "string \<Rightarrow> string \<times> bool" where
  "redact_secret_text value =
     (if looks_like_secret value \<or> contains_sensitive_path value then (REDACTED, True)
      else (value, False))"

section \<open>Correctness\<close>

lemma lowercase_append: "to_ascii_lowercase (a @ b) = to_ascii_lowercase a @ to_ascii_lowercase b"
  by (simp add: to_ascii_lowercase_def)

lemma normal_path_append: "normal_path (a @ b) = normal_path a @ normal_path b"
  by (simp add: normal_path_def lowercase_append)

lemma lowercase_byte_idem: "to_ascii_lower_byte (to_ascii_lower_byte c) = to_ascii_lower_byte c"
  by (auto simp: to_ascii_lower_byte_def is_ascii_uppercase_def of_char_of)

lemma lowercase_idem [simp]: "to_ascii_lowercase (to_ascii_lowercase s) = to_ascii_lowercase s"
  by (simp add: to_ascii_lowercase_def lowercase_byte_idem)

text \<open>A text that contains one of the secret markers, in any letter case and anywhere in the
  text, is redacted.\<close>

theorem markers_are_redacted:
  assumes "m \<in> set secret_markers" "to_ascii_lowercase m' = to_ascii_lowercase m"
  shows "redact_secret_text (a @ m' @ b) = (REDACTED, True)"
proof -
  have "contains_str (to_ascii_lowercase (a @ m' @ b)) (to_ascii_lowercase m)"
    using assms(2) by (auto simp: contains_str_iff lowercase_append)
  then have "looks_like_secret (a @ m' @ b)"
    using assms(1) by (auto simp: looks_like_secret_def Let_def list_ex_iff)
  then show ?thesis by (simp add: redact_secret_text_def)
qed

lemma not_slash_lower: "c \<noteq> SLASH \<Longrightarrow> c \<noteq> CHR 0x5C \<Longrightarrow> to_ascii_lower_byte c \<noteq> SLASH"
proof -
  have "to_ascii_lower_byte c = SLASH \<Longrightarrow> c = SLASH"
  proof -
    assume eq: "to_ascii_lower_byte c = SLASH"
    have "\<not> is_ascii_uppercase c"
    proof
      assume up: "is_ascii_uppercase c"
      then have "byte (to_ascii_lower_byte c) = byte c + 32"
        by (auto simp: to_ascii_lower_byte_def is_ascii_uppercase_def of_char_of)
      moreover have "byte SLASH = (47 :: nat)" by (simp add: SLASH_def)
      ultimately show False using eq up by (auto simp: is_ascii_uppercase_def)
    qed
    with eq show "c = SLASH" by (simp add: to_ascii_lower_byte_def)
  qed
  then show "c \<noteq> SLASH \<Longrightarrow> to_ascii_lower_byte c \<noteq> SLASH" by blast
qed

lemma normal_name:
  assumes "SLASH \<notin> set name" "CHR 0x5C \<notin> set name"
  shows "SLASH \<notin> set (normal_path name)"
proof
  assume "SLASH \<in> set (normal_path name)"
  then obtain c where c: "c \<in> set name"
    "SLASH = to_ascii_lower_byte (if c = CHR 0x5C then SLASH else c)"
    by (auto simp: normal_path_def to_ascii_lowercase_def)
  then have "c \<noteq> SLASH" "c \<noteq> CHR 0x5C" using assms by auto
  with c(2) not_slash_lower [of c] show False by simp
qed

lemma dropWhile_none: "\<forall>x\<in>set xs. \<not> P x \<Longrightarrow> dropWhile P xs = xs"
  by (cases xs) auto

lemma takeWhile_name: "SLASH \<notin> set n \<Longrightarrow> takeWhile (\<lambda>c. c \<noteq> SLASH) (rev n @ t) =
    rev n @ takeWhile (\<lambda>c. c \<noteq> SLASH) t"
  by (rule takeWhile_append2) auto

lemma last_segment_name: "SLASH \<notin> set n \<Longrightarrow> last_segment n = n"
  using takeWhile_name [of n "[]"]
  by (simp only: last_segment_def append_Nil2 takeWhile.simps rev_rev_ident simp_thms)

lemma last_segment_dir: "SLASH \<notin> set n \<Longrightarrow> last_segment (d @ [SLASH] @ n) = n"
  using takeWhile_name [of n "SLASH # rev d"] by (simp add: last_segment_def)

lemma trim_name: "SLASH \<notin> set n \<Longrightarrow> trim_bytes {SLASH} n = n"
  unfolding trim_bytes_def by (subst dropWhile_none [of n], force, subst dropWhile_none) auto

lemma trim_dir:
  assumes "SLASH \<notin> set n" "n \<noteq> []"
  shows "\<exists>e. ''/'' @ trim_bytes {SLASH} (d @ [SLASH] @ n) = e @ [SLASH] @ n"
proof -
  obtain c n' where n: "rev n = c # n'" "c \<noteq> SLASH"
    using assms by (cases "rev n") (auto simp: rev_eq_Cons_iff)
  have "dropWhile (\<lambda>x. x \<in> {SLASH}) (d @ [SLASH] @ n) = dropWhile (\<lambda>x. x \<in> {SLASH}) d @ [SLASH] @ n \<or>
     dropWhile (\<lambda>x. x \<in> {SLASH}) (d @ [SLASH] @ n) = n"
  proof (cases "\<exists>x\<in>set d. x \<noteq> SLASH")
    case True
    then show ?thesis by (auto simp: dropWhile_append1)
  next
    case False
    then have "dropWhile (\<lambda>x. x \<in> {SLASH}) (d @ [SLASH] @ n) = dropWhile (\<lambda>x. x \<in> {SLASH}) n"
      by (simp add: dropWhile_append2)
    also have "\<dots> = n" using assms by (cases n) auto
    finally show ?thesis by simp
  qed
  moreover have "dropWhile (\<lambda>x. x \<in> {SLASH}) (rev n @ t) = rev n @ t" for t
    using n by simp
  moreover from this [of "[]"] have "dropWhile (\<lambda>x. x \<in> {SLASH}) (rev n) = rev n" by simp
  moreover have "''/'' = [SLASH]" by (simp add: SLASH_def)
  ultimately show ?thesis
    unfolding trim_bytes_def
    by (elim disjE) (simp_all only: rev_append append_assoc rev_rev_ident rev.simps append.simps, auto)
qed

text \<open>A sensitive file or directory name stays sensitive in every directory, whether the path
  is written with slashes or backslashes.\<close>

theorem sensitive_name_in_any_directory:
  assumes "is_sensitive_path name" "name \<noteq> []" "SLASH \<notin> set name" "CHR 0x5C \<notin> set name"
    and "sep \<in> {SLASH, CHR 0x5C}"
  shows "is_sensitive_path (dir @ [sep] @ name)"
proof -
  let ?n = "normal_path name" and ?d = "normal_path dir"
  have n: "SLASH \<notin> set ?n" by (rule normal_name [OF assms(3,4)])
  have ne: "?n \<noteq> []" using assms(2) by (simp add: normal_path_def to_ascii_lowercase_def)
  have sep: "normal_path [sep] = [SLASH]"
    using assms(5) by (auto simp: normal_path_def text_eval SLASH_def)
  have path: "normal_path (dir @ [sep] @ name) = ?d @ [SLASH] @ ?n"
    by (simp only: normal_path_append sep)
  obtain e where e: "''/'' @ trim_bytes {SLASH} (?d @ [SLASH] @ ?n) = e @ [SLASH] @ ?n"
    using trim_dir [OF n ne] by blast
  have name: "sensitive_name ?n \<or> list_ex (contains_str ([SLASH] @ ?n @ [SLASH])) sensitive_segments"
  proof -
    have "''/'' = [SLASH]" by (simp add: SLASH_def)
    then show ?thesis
      using assms(1) unfolding is_sensitive_path_def Let_def last_segment_name [OF n] trim_name [OF n]
      by simp
  qed
  have wrapped: "''/'' @ trim_bytes {SLASH} (?d @ [SLASH] @ ?n) @ ''/'' = e @ ([SLASH] @ ?n @ [SLASH])"
    using e by (simp add: SLASH_def flip: append_assoc)
  have "list_ex (contains_str (e @ s)) xs" if "list_ex (contains_str s) xs" for s xs
    using that by (auto simp: list_ex_iff contains_str_iff) (metis append_assoc)
  with name show ?thesis
    unfolding is_sensitive_path_def path Let_def wrapped last_segment_dir [OF n] by blast
qed

lemmas secret_eval = REDACTED_def looks_like_secret_def secret_markers_def text_eval
  contains_basic_auth_url_def is_cloud_access_key_def contains_credential_assignment_def
  credential_keys_def credential_candidate_def contains_sensitive_path_def is_sensitive_path_def
  normal_path_def trim_bytes_def last_segment_def sensitive_name_def sensitive_names_def
  sensitive_segments_def SLASH_def unit_in_def Let_def

lemma redacted_is_clean: "\<not> looks_like_secret REDACTED" "\<not> contains_sensitive_path REDACTED"
  by (simp_all add: secret_eval)

text \<open>Redaction is idempotent and all or nothing: the marker replaces the whole text, a text
  that is let through is unchanged and passes both checks, and redacting the outcome again changes
  nothing.\<close>

theorem redaction_idempotent:
  "redact_secret_text (fst (redact_secret_text v)) = (fst (redact_secret_text v), False) \<and>
   (snd (redact_secret_text v) \<longleftrightarrow> looks_like_secret v \<or> contains_sensitive_path v) \<and>
   (fst (redact_secret_text v) = (if snd (redact_secret_text v) then REDACTED else v))"
  using redacted_is_clean by (simp add: redact_secret_text_def)

text \<open>The credential check looks only at the first occurrence of each key: a short first value
  hides a long second one, and the text is not redacted.\<close>

theorem second_credential_is_missed:
  "looks_like_secret ''password=hunter2hunter2'' \<and>
   redact_secret_text ''password=x, password=hunter2hunter2'' =
     (''password=x, password=hunter2hunter2'', False)"
  by (simp add: redact_secret_text_def secret_eval)

section \<open>Witnesses\<close>

theorem markers_are_redacted_witness:
  "redact_secret_text (''token '' @ ''GHP_'' @ ''abc'') = (REDACTED, True)"
  by (rule markers_are_redacted [of "''ghp_''"]) (simp_all add: secret_markers_def text_eval char_of_eq_iff)

theorem sensitive_name_in_any_directory_witness:
  "is_sensitive_path (''a/b'' @ [CHR 0x5C] @ ''id_rsa'')"
  by (rule sensitive_name_in_any_directory)
    (simp_all add: is_sensitive_path_def normal_path_def text_eval last_segment_def
      sensitive_name_def sensitive_names_def SLASH_def Let_def)

end
