(* ===== verification/Jobs.thy ===== *)
theory Jobs
  imports Contracts Secret_Policy Ordered_Map
begin

text \<open>
  The durable job lease of rule archaeology (\<open>commands/business_rule_archaeology/jobs.rs\<close> over the
  tables of \<open>db/schema/business_rule_archaeology.sql\<close>). The database state is a record of row
  lists; a conditional \<open>UPDATE\<close> is a map over the rows that counts the rows it changed, checked
  afterwards against the table's constraints; a transaction that returns an error leaves the state
  as it was, so an operation maps a state to an error or to a new state and its answer. Columns
  with a \<open>CHECK\<close> on a list of names are the enumerations those names spell. What the code takes
  from libraries is the record of functions \<open>job_env\<close>: SQLite's \<open>julianday\<close> (\<open>None\<close> is SQL's NULL,
  on which every comparison is false), the RFC 3339 parser, and the JSON encoders whose lengths are
  bounded. Errors and checkpoints are stored as JSON texts; the rows keep the values.
\<close>

section \<open>Inputs and rows\<close>

definition MAX_ID_BYTES :: nat where "MAX_ID_BYTES = 256"

definition MAX_CHECKPOINT_BYTES :: nat where "MAX_CHECKPOINT_BYTES = 64 * 1024"

definition MAX_ERRORS :: nat where "MAX_ERRORS = 16"

definition MAX_ERRORS_JSON_BYTES :: nat where "MAX_ERRORS_JSON_BYTES = 32 * 1024"

definition MAX_CHECKPOINT_COUNTERS :: nat where "MAX_CHECKPOINT_COUNTERS = 32"

record ArchaeologyJobCheckpoint =
  ck_cursor_identity :: "string option"
  ck_source_unit_id :: "string option"
  ck_ordinal :: "nat option"
  ck_counters :: "(string, nat) btree_map"

definition empty_checkpoint :: ArchaeologyJobCheckpoint where
  "empty_checkpoint =
     \<lparr>ck_cursor_identity = None, ck_source_unit_id = None, ck_ordinal = None, ck_counters = []\<rparr>"

datatype ArchaeologyJobErrorCode =
  Code_InventoryFailed | Code_ParserFailed | Code_LinkFailed | Code_DerivationFailed
| Code_SynthesisFailed | Code_ValidationFailed | Code_PublicationFailed | Code_CleanupFailed
| Code_OwnershipLost | Code_Internal

definition error_code_name :: "ArchaeologyJobErrorCode \<Rightarrow> string" where
  "error_code_name code = (case code of
     Code_InventoryFailed \<Rightarrow> ''inventory_failed''
   | Code_ParserFailed \<Rightarrow> ''parser_failed''
   | Code_LinkFailed \<Rightarrow> ''link_failed''
   | Code_DerivationFailed \<Rightarrow> ''derivation_failed''
   | Code_SynthesisFailed \<Rightarrow> ''synthesis_failed''
   | Code_ValidationFailed \<Rightarrow> ''validation_failed''
   | Code_PublicationFailed \<Rightarrow> ''publication_failed''
   | Code_CleanupFailed \<Rightarrow> ''cleanup_failed''
   | Code_OwnershipLost \<Rightarrow> ''ownership_lost''
   | Code_Internal \<Rightarrow> ''internal'')"

record ArchaeologyGenerationIdentity =
  gy_revision_sha :: string
  gy_source :: string
  gy_parser :: string
  gy_algorithm :: string
  gy_config :: string

record NewArchaeologyJob =
  nj_job_id :: string
  nj_repository_id :: string
  nj_generation_id :: string
  nj_owner_id :: string
  nj_identity :: ArchaeologyGenerationIdentity
  nj_total_units :: "nat option"
  nj_now :: string

record job_row =
  jr_job_id :: string
  jr_repository_id :: string
  jr_generation_id :: "string option"
  jr_owner_id :: string
  jr_stage :: ArchaeologyJobStage
  jr_state :: ArchaeologyJobState
  jr_checkpoint_identity :: "string option"
  jr_checkpoint :: ArchaeologyJobCheckpoint
  jr_completed_units :: nat
  jr_total_units :: "nat option"
  jr_cancellation_requested :: bool
  jr_errors :: "string list"
  jr_started_at :: "string option"
  jr_updated_at :: string
  jr_finished_at :: "string option"

datatype generation_status =
  Generation_Staging | Generation_Ready | Generation_Failed | Generation_Cancelled
| Generation_Superseded

record generation_row =
  gr_generation_id :: string
  gr_repository_id :: string
  gr_schema_version :: nat
  gr_identity :: ArchaeologyGenerationIdentity
  gr_status :: generation_status
  gr_created_at :: string

record repository_row =
  rr_repository_id :: string
  rr_ready_generation_id :: "string option"

record job_db =
  db_repositories :: "repository_row list"
  db_generations :: "generation_row list"
  db_jobs :: "job_row list"

record job_env =
  en_julianday :: "string \<Rightarrow> int option"
  en_rfc3339 :: "string \<Rightarrow> int option"
  en_checkpoint_json :: "ArchaeologyJobCheckpoint \<Rightarrow> string"
  en_errors_json :: "string list \<Rightarrow> string"

datatype job_error =
  JobIdInvalid string | TimestampInvalid | TokenInvalid string | TooManyCounters
| JobRevision contract_error
| SynthesizeMustMaterialize | ValidateNeedsReceipt | PublishMustBeAtomic
| IdleNotActive | StageSkipped | CheckpointTooLarge | ProgressOutOfRange
| CompletedExceedsTotal | CasRejected string string | JobMissing | NoActiveJob
| TooManyErrors | ErrorsTooLarge | CutoffAfterNow | OwnerStillLive | ConstraintFailed

section \<open>Validators\<close>

definition validate_job_id :: "string \<Rightarrow> string \<Rightarrow> (job_error, unit) result" where
  "validate_job_id label value =
     (if value = [] \<or> len value > MAX_ID_BYTES \<or> CHR 0x00 \<in> set value
      then Inl (JobIdInvalid label) else Inr ())"

definition validate_timestamp :: "job_env \<Rightarrow> string \<Rightarrow> (job_error, int) result" where
  "validate_timestamp env value = ok_or (en_rfc3339 env value) TimestampInvalid"

definition validate_actor :: "job_env \<Rightarrow> string \<Rightarrow> string \<Rightarrow> string \<Rightarrow> (job_error, unit) result" where
  "validate_actor env job_id owner_id now =
     and_then (validate_job_id ''job'' job_id) (\<lambda>_.
     and_then (validate_job_id ''owner'' owner_id) (\<lambda>_.
     and_then (validate_timestamp env now) (\<lambda>_. Inr ())))"

definition generation_identity_validate ::
  "ArchaeologyGenerationIdentity \<Rightarrow> (job_error, unit) result" where
  "generation_identity_validate i =
     and_then (case validate_revision_sha (gy_revision_sha i) of
                 Inl e \<Rightarrow> Inl (JobRevision e) | Inr _ \<Rightarrow> Inr ()) (\<lambda>_.
       for_each (\<lambda>(label, value). validate_job_id label value)
         [(''source'', gy_source i), (''parser'', gy_parser i),
          (''algorithm'', gy_algorithm i), (''config'', gy_config i)])"

definition validate_owned_generation ::
  "job_env \<Rightarrow> string \<Rightarrow> string \<Rightarrow> string \<Rightarrow> string \<Rightarrow> ArchaeologyGenerationIdentity \<Rightarrow> string
     \<Rightarrow> (job_error, unit) result" where
  "validate_owned_generation env job_id repository_id generation_id owner_id identity now =
     and_then (validate_actor env job_id owner_id now) (\<lambda>_.
     and_then (validate_job_id ''repository'' repository_id) (\<lambda>_.
     and_then (validate_job_id ''generation'' generation_id) (\<lambda>_.
       generation_identity_validate identity)))"

definition token_byte :: "char \<Rightarrow> bool" where
  "token_byte c \<longleftrightarrow>
     is_ascii_alphanumeric c \<or> c \<in> {CHR ''-'', CHR ''_'', CHR '':'', CHR ''.'', CHR ''@''}"

definition validate_persisted_token ::
  "string \<Rightarrow> string \<Rightarrow> nat \<Rightarrow> (job_error, unit) result" where
  "validate_persisted_token label value max_bytes =
     (if value = [] \<or> len value > max_bytes \<or> looks_like_secret value
         \<or> contains_sensitive_path value \<or> \<not> list_all token_byte value
      then Inl (TokenInvalid label) else Inr ())"

definition validate_checkpoint :: "ArchaeologyJobCheckpoint \<Rightarrow> (job_error, unit) result" where
  "validate_checkpoint c =
     and_then (for_each (\<lambda>(label, value).
         case value of None \<Rightarrow> Inr () | Some v \<Rightarrow> validate_persisted_token label v MAX_ID_BYTES)
       [(''checkpoint cursor'', ck_cursor_identity c),
        (''checkpoint source unit'', ck_source_unit_id c)]) (\<lambda>_.
       if length (ck_counters c) > MAX_CHECKPOINT_COUNTERS then Inl TooManyCounters
       else for_each (\<lambda>key. validate_persisted_token ''checkpoint counter'' key 64)
              (map fst (ck_counters c)))"

fun stage_index :: "ArchaeologyJobStage \<Rightarrow> nat option" where
  "stage_index Stage_Inventory = Some 0"
| "stage_index Stage_Parse = Some 1"
| "stage_index Stage_Link = Some 2"
| "stage_index Stage_Derive = Some 3"
| "stage_index Stage_Synthesize = Some 4"
| "stage_index Stage_Validate = Some 5"
| "stage_index Stage_Publish = Some 6"
| "stage_index Stage_Cleanup = Some 7"
| "stage_index Stage_Idle = None"

definition validate_stage_progression ::
  "ArchaeologyJobStage \<Rightarrow> ArchaeologyJobStage \<Rightarrow> (job_error, unit) result" where
  "validate_stage_progression current nxt =
     (if current = Stage_Synthesize \<and> nxt = Stage_Validate then Inl SynthesizeMustMaterialize
      else if current = Stage_Validate \<and> nxt = Stage_Publish then Inl ValidateNeedsReceipt
      else if current = Stage_Publish \<and> nxt = Stage_Cleanup then Inl PublishMustBeAtomic
      else
        and_then (ok_or (stage_index current) IdleNotActive) (\<lambda>current_index.
        and_then (ok_or (stage_index nxt) IdleNotActive) (\<lambda>next_index.
          if next_index = current_index \<or> next_index = current_index + 1 then Inr ()
          else Inl StageSkipped)))"

definition to_i64 :: "nat \<Rightarrow> (job_error, nat) result" where
  "to_i64 value = (if value > 2 ^ 63 - 1 then Inl ProgressOutOfRange else Inr value)"

definition option_to_i64 :: "nat option \<Rightarrow> (job_error, nat option) result" where
  "option_to_i64 value =
     (case value of None \<Rightarrow> Inr None | Some v \<Rightarrow> and_then (to_i64 v) (\<lambda>v. Inr (Some v)))"

definition require_cas :: "nat \<Rightarrow> string \<Rightarrow> string \<Rightarrow> (job_error, unit) result" where
  "require_cas changed action job_id =
     (if changed = 1 then Inr () else Inl (CasRejected action job_id))"

section \<open>Tables\<close>

definition active_state :: "ArchaeologyJobState \<Rightarrow> bool" where
  "active_state s \<longleftrightarrow> s \<in> {Job_Pending, Job_Running, Job_Paused, Job_Cancelling}"

text \<open>Primary key, \<open>CHECK\<close> on the units, and the partial unique index on active jobs.\<close>

definition job_constraints :: "job_row list \<Rightarrow> bool" where
  "job_constraints rows \<longleftrightarrow>
     distinct (map jr_job_id rows) \<and>
     list_all (\<lambda>r. case jr_total_units r of None \<Rightarrow> True | Some t \<Rightarrow> jr_completed_units r \<le> t) rows \<and>
     distinct (map jr_repository_id (filter (\<lambda>r. active_state (jr_state r)) rows))"

definition generation_constraints :: "generation_row list \<Rightarrow> bool" where
  "generation_constraints rows \<longleftrightarrow>
     distinct (map gr_generation_id rows) \<and>
     distinct (map gr_repository_id (filter (\<lambda>g. gr_status g = Generation_Ready) rows)) \<and>
     distinct (map (\<lambda>g. (gr_repository_id g, gr_schema_version g, gr_identity g))
       (filter (\<lambda>g. gr_status g = Generation_Staging \<or> gr_status g = Generation_Ready) rows))"

definition update_rows :: "('r \<Rightarrow> bool) \<Rightarrow> ('r \<Rightarrow> 'r) \<Rightarrow> 'r list \<Rightarrow> nat \<times> 'r list" where
  "update_rows p f rows = (length (filter p rows), map (\<lambda>r. if p r then f r else r) rows)"

definition update_jobs ::
  "job_db \<Rightarrow> (job_row \<Rightarrow> bool) \<Rightarrow> (job_row \<Rightarrow> job_row) \<Rightarrow> (job_error, nat \<times> job_db) result" where
  "update_jobs db p f =
     (case update_rows p f (db_jobs db) of (changed, rows) \<Rightarrow>
        if job_constraints rows then Inr (changed, db\<lparr>db_jobs := rows\<rparr>) else Inl ConstraintFailed)"

definition update_generations ::
  "job_db \<Rightarrow> (generation_row \<Rightarrow> bool) \<Rightarrow> (generation_row \<Rightarrow> generation_row)
     \<Rightarrow> (job_error, nat \<times> job_db) result" where
  "update_generations db p f =
     (case update_rows p f (db_generations db) of (changed, rows) \<Rightarrow>
        if generation_constraints rows then Inr (changed, db\<lparr>db_generations := rows\<rparr>)
        else Inl ConstraintFailed)"

text \<open>\<open>julianday(a) >= julianday(b)\<close>: false when either is NULL.\<close>

definition not_before :: "job_env \<Rightarrow> string \<Rightarrow> string \<Rightarrow> bool" where
  "not_before env a b \<longleftrightarrow>
     (case (en_julianday env a, en_julianday env b) of (Some x, Some y) \<Rightarrow> x \<ge> y | _ \<Rightarrow> False)"

definition find_job :: "job_db \<Rightarrow> string \<Rightarrow> job_row option" where
  "find_job db job_id = List.find (\<lambda>r. jr_job_id r = job_id) (db_jobs db)"

definition load_job :: "job_db \<Rightarrow> string \<Rightarrow> (job_error, ArchaeologyJobStatus) result" where
  "load_job db job_id =
     and_then (ok_or (find_job db job_id) JobMissing) (\<lambda>r.
       Inr \<lparr>js_schema_version = ARCHAEOLOGY_SCHEMA_VERSION, js_job_id = Some (jr_job_id r),
            js_repository_id = Some (jr_repository_id r), js_generation_id = jr_generation_id r,
            js_owner_id = Some (jr_owner_id r), js_stage = jr_stage r, js_state = jr_state r,
            js_completed_units = jr_completed_units r, js_total_units = jr_total_units r,
            js_checkpoint_identity = jr_checkpoint_identity r,
            js_cancellation_requested = jr_cancellation_requested r,
            js_coverage = coverage_default, js_updated_at = Some (jr_updated_at r),
            js_errors = jr_errors r\<rparr>)"

type_synonym job_answer = "(job_error, job_db \<times> ArchaeologyJobStatus) result"

definition answer :: "job_db \<Rightarrow> string \<Rightarrow> job_answer" where
  "answer db job_id = and_then (load_job db job_id) (\<lambda>status. Inr (db, status))"

text \<open>One conditional update that must change exactly one row.\<close>

definition cas_jobs ::
  "job_db \<Rightarrow> string \<Rightarrow> string \<Rightarrow> (job_row \<Rightarrow> bool) \<Rightarrow> (job_row \<Rightarrow> job_row)
     \<Rightarrow> (job_error, job_db) result" where
  "cas_jobs db action job_id p f =
     and_then (update_jobs db p f) (\<lambda>(changed, db).
     and_then (require_cas changed action job_id) (\<lambda>_. Inr db))"

section \<open>Operations\<close>

definition start_job :: "job_env \<Rightarrow> job_db \<Rightarrow> NewArchaeologyJob \<Rightarrow> job_answer" where
  "start_job env db inp =
     and_then (validate_owned_generation env (nj_job_id inp) (nj_repository_id inp)
                 (nj_generation_id inp) (nj_owner_id inp) (nj_identity inp) (nj_now inp)) (\<lambda>_.
     and_then (option_to_i64 (nj_total_units inp)) (\<lambda>total_units.
       (let generations = db_generations db @
              [\<lparr>gr_generation_id = nj_generation_id inp, gr_repository_id = nj_repository_id inp,
                gr_schema_version = ARCHAEOLOGY_STORAGE_SCHEMA_VERSION,
                gr_identity = nj_identity inp, gr_status = Generation_Staging,
                gr_created_at = nj_now inp\<rparr>];
            jobs = db_jobs db @
              [\<lparr>jr_job_id = nj_job_id inp, jr_repository_id = nj_repository_id inp,
                jr_generation_id = Some (nj_generation_id inp), jr_owner_id = nj_owner_id inp,
                jr_stage = Stage_Inventory, jr_state = Job_Running, jr_checkpoint_identity = None,
                jr_checkpoint = empty_checkpoint, jr_completed_units = 0,
                jr_total_units = total_units, jr_cancellation_requested = False, jr_errors = [],
                jr_started_at = Some (nj_now inp), jr_updated_at = nj_now inp,
                jr_finished_at = None\<rparr>]
        in if nj_repository_id inp \<notin> set (map rr_repository_id (db_repositories db))
              \<or> \<not> generation_constraints generations \<or> \<not> job_constraints jobs
           then Inl ConstraintFailed
           else answer (db\<lparr>db_generations := generations, db_jobs := jobs\<rparr>) (nj_job_id inp))))"

definition checkpoint_guard ::
  "job_env \<Rightarrow> string \<Rightarrow> string \<Rightarrow> ArchaeologyJobStage \<Rightarrow> ArchaeologyJobStage \<Rightarrow> string \<Rightarrow> nat
     \<Rightarrow> nat option \<Rightarrow> string \<Rightarrow> job_row \<Rightarrow> bool" where
  "checkpoint_guard env job_id owner_id expected_stage next_stage checkpoint_identity completed
      bound now r \<longleftrightarrow>
     jr_job_id r = job_id \<and> jr_owner_id r = owner_id \<and> jr_state r = Job_Running \<and>
     jr_stage r = expected_stage \<and> jr_completed_units r \<le> completed \<and>
     (jr_total_units r = None \<or> bound = None \<or> jr_total_units r = bound) \<and>
     (case or_else bound (jr_total_units r) of None \<Rightarrow> True | Some t \<Rightarrow> completed \<le> t) \<and>
     (next_stage \<noteq> expected_stage \<or> jr_completed_units r < completed
      \<or> jr_checkpoint_identity r = None
      \<or> jr_checkpoint_identity r = Some checkpoint_identity) \<and>
     not_before env now (jr_updated_at r)"

definition checkpoint_job ::
  "job_env \<Rightarrow> job_db \<Rightarrow> string \<Rightarrow> string \<Rightarrow> ArchaeologyJobStage \<Rightarrow> ArchaeologyJobStage \<Rightarrow> string
     \<Rightarrow> ArchaeologyJobCheckpoint \<Rightarrow> nat \<Rightarrow> nat option \<Rightarrow> string \<Rightarrow> job_answer" where
  "checkpoint_job env db job_id owner_id expected_stage next_stage checkpoint_identity checkpoint
      completed_units total_units now =
     and_then (validate_actor env job_id owner_id now) (\<lambda>_.
     and_then (validate_stage_progression expected_stage next_stage) (\<lambda>_.
     and_then (validate_persisted_token ''checkpoint'' checkpoint_identity MAX_ID_BYTES) (\<lambda>_.
     and_then (validate_checkpoint checkpoint) (\<lambda>_.
       if len (en_checkpoint_json env checkpoint) > MAX_CHECKPOINT_BYTES then Inl CheckpointTooLarge
       else
         and_then (to_i64 completed_units) (\<lambda>completed.
         and_then (option_to_i64 total_units) (\<lambda>bound.
           if (case bound of None \<Rightarrow> False | Some t \<Rightarrow> completed > t) then Inl CompletedExceedsTotal
           else
             and_then (cas_jobs db ''checkpoint'' job_id
               (checkpoint_guard env job_id owner_id expected_stage next_stage checkpoint_identity
                  completed bound now)
               (\<lambda>r. r\<lparr>jr_stage := next_stage, jr_checkpoint_identity := Some checkpoint_identity,
                      jr_checkpoint := checkpoint, jr_completed_units := completed,
                      jr_total_units := or_else bound (jr_total_units r),
                      jr_updated_at := now\<rparr>))
             (\<lambda>db. answer db job_id)))))))"

definition heartbeat_job :: "job_env \<Rightarrow> job_db \<Rightarrow> string \<Rightarrow> string \<Rightarrow> string \<Rightarrow> job_answer" where
  "heartbeat_job env db job_id owner_id now =
     and_then (validate_actor env job_id owner_id now) (\<lambda>_.
     and_then (cas_jobs db ''heartbeat'' job_id
       (\<lambda>r. jr_job_id r = job_id \<and> jr_owner_id r = owner_id \<and>
            jr_state r \<in> {Job_Running, Job_Cancelling} \<and> not_before env now (jr_updated_at r))
       (\<lambda>r. r\<lparr>jr_updated_at := now\<rparr>))
     (\<lambda>db. answer db job_id))"

definition transition_state ::
  "job_env \<Rightarrow> job_db \<Rightarrow> string \<Rightarrow> string \<Rightarrow> ArchaeologyJobState \<Rightarrow> ArchaeologyJobState \<Rightarrow> string
     \<Rightarrow> bool \<Rightarrow> string \<Rightarrow> job_answer" where
  "transition_state env db job_id owner_id source target action cancellation_requested now =
     and_then (validate_actor env job_id owner_id now) (\<lambda>_.
     and_then (cas_jobs db action job_id
       (\<lambda>r. jr_job_id r = job_id \<and> jr_owner_id r = owner_id \<and> jr_state r = source \<and>
            not_before env now (jr_updated_at r))
       (\<lambda>r. r\<lparr>jr_state := target, jr_cancellation_requested := cancellation_requested,
              jr_updated_at := now\<rparr>))
     (\<lambda>db. answer db job_id))"

definition pause_job :: "job_env \<Rightarrow> job_db \<Rightarrow> string \<Rightarrow> string \<Rightarrow> string \<Rightarrow> job_answer" where
  "pause_job env db job_id owner_id now =
     transition_state env db job_id owner_id Job_Running Job_Paused ''paused'' False now"

definition resume_job :: "job_env \<Rightarrow> job_db \<Rightarrow> string \<Rightarrow> string \<Rightarrow> string \<Rightarrow> job_answer" where
  "resume_job env db job_id owner_id now =
     transition_state env db job_id owner_id Job_Paused Job_Running ''running'' False now"

definition request_cancel :: "job_env \<Rightarrow> job_db \<Rightarrow> string \<Rightarrow> string \<Rightarrow> string \<Rightarrow> job_answer" where
  "request_cancel env db job_id owner_id now =
     and_then (validate_actor env job_id owner_id now) (\<lambda>_.
     and_then (cas_jobs db ''cancel'' job_id
       (\<lambda>r. jr_job_id r = job_id \<and> jr_owner_id r = owner_id \<and>
            jr_state r \<in> {Job_Running, Job_Paused} \<and> not_before env now (jr_updated_at r) \<and>
            list_ex (\<lambda>g. Some (gr_generation_id g) = jr_generation_id r \<and>
                (gr_status g = Generation_Staging
                 \<or> (jr_stage r = Stage_Cleanup \<and> gr_status g = Generation_Ready)))
              (db_generations db))
       (\<lambda>r. r\<lparr>jr_state := Job_Cancelling, jr_cancellation_requested := True,
              jr_updated_at := now\<rparr>))
     (\<lambda>db. answer db job_id))"

definition owned_generation :: "job_db \<Rightarrow> string \<Rightarrow> string option" where
  "owned_generation db job_id = option_then (find_job db job_id) jr_generation_id"

definition published_ready :: "job_db \<Rightarrow> string \<Rightarrow> bool" where
  "published_ready db job_id \<longleftrightarrow>
     list_ex (\<lambda>j. jr_job_id j = job_id \<and>
       list_ex (\<lambda>g. Some (gr_generation_id g) = jr_generation_id j \<and> gr_status g = Generation_Ready \<and>
         list_ex (\<lambda>r. rr_repository_id r = jr_repository_id j \<and>
             rr_ready_generation_id r = Some (gr_generation_id g)) (db_repositories db))
       (db_generations db)) (db_jobs db)"

definition update_staging_generation ::
  "job_db \<Rightarrow> string \<Rightarrow> generation_status \<Rightarrow> (job_error, job_db) result" where
  "update_staging_generation db job_id status =
     and_then (update_generations db
       (\<lambda>g. Some (gr_generation_id g) = owned_generation db job_id \<and> gr_status g = Generation_Staging)
       (\<lambda>g. g\<lparr>gr_status := status\<rparr>)) (\<lambda>(changed, db').
       if changed = 1 then Inr db'
       else if published_ready db' job_id \<and> status \<in> {Generation_Failed, Generation_Cancelled}
         then Inr db'
       else and_then (require_cas changed ''generation update'' job_id) (\<lambda>_. Inr db'))"

definition finish_job ::
  "job_env \<Rightarrow> job_db \<Rightarrow> string \<Rightarrow> string \<Rightarrow> ArchaeologyJobState \<Rightarrow> ArchaeologyJobState \<Rightarrow> string
     \<Rightarrow> generation_status option \<Rightarrow> string \<Rightarrow> job_answer" where
  "finish_job env db job_id owner_id source target action status now =
     and_then (validate_actor env job_id owner_id now) (\<lambda>_.
     and_then (cas_jobs db action job_id
       (\<lambda>r. jr_job_id r = job_id \<and> jr_owner_id r = owner_id \<and> jr_state r = source \<and>
            not_before env now (jr_updated_at r))
       (\<lambda>r. r\<lparr>jr_state := target, jr_stage := Stage_Idle, jr_finished_at := Some now,
              jr_updated_at := now\<rparr>)) (\<lambda>db.
     and_then (case status of None \<Rightarrow> Inr db
               | Some status \<Rightarrow> update_staging_generation db job_id status)
     (\<lambda>db. answer db job_id)))"

definition acknowledge_cancel :: "job_env \<Rightarrow> job_db \<Rightarrow> string \<Rightarrow> string \<Rightarrow> string \<Rightarrow> job_answer" where
  "acknowledge_cancel env db job_id owner_id now =
     finish_job env db job_id owner_id Job_Cancelling Job_Cancelled ''cancelled''
       (Some Generation_Cancelled) now"

definition complete_job :: "job_env \<Rightarrow> job_db \<Rightarrow> string \<Rightarrow> string \<Rightarrow> string \<Rightarrow> job_answer" where
  "complete_job env db job_id owner_id now =
     and_then (validate_actor env job_id owner_id now) (\<lambda>_.
     and_then (cas_jobs db ''complete'' job_id
       (\<lambda>r. jr_job_id r = job_id \<and> jr_owner_id r = owner_id \<and> jr_state r = Job_Running \<and>
            jr_stage r = Stage_Cleanup \<and> \<not> jr_cancellation_requested r \<and>
            not_before env now (jr_updated_at r) \<and>
            list_ex (\<lambda>g. Some (gr_generation_id g) = jr_generation_id r \<and>
                gr_repository_id g = jr_repository_id r \<and> gr_status g = Generation_Ready)
              (db_generations db))
       (\<lambda>r. r\<lparr>jr_state := Job_Completed, jr_stage := Stage_Idle, jr_finished_at := Some now,
              jr_updated_at := now\<rparr>))
     (\<lambda>db. answer db job_id))"

definition fail_job ::
  "job_env \<Rightarrow> job_db \<Rightarrow> string \<Rightarrow> string \<Rightarrow> ArchaeologyJobErrorCode \<Rightarrow> string \<Rightarrow> job_answer" where
  "fail_job env db job_id owner_id error_code now =
     and_then (validate_actor env job_id owner_id now) (\<lambda>_.
     (let failing = (\<lambda>r. jr_job_id r = job_id \<and> jr_owner_id r = owner_id \<and>
            jr_state r \<in> {Job_Running, Job_Paused, Job_Cancelling})
      in and_then (ok_or (List.find failing (db_jobs db)) (CasRejected ''fail'' job_id)) (\<lambda>row.
           if length (jr_errors row) \<ge> MAX_ERRORS then Inl TooManyErrors
           else
             (let errors = jr_errors row @ [error_code_name error_code]
              in if len (en_errors_json env errors) > MAX_ERRORS_JSON_BYTES then Inl ErrorsTooLarge
                 else
                   and_then (cas_jobs db ''fail'' job_id
                     (\<lambda>r. failing r \<and> not_before env now (jr_updated_at r))
                     (\<lambda>r. r\<lparr>jr_state := Job_Failed, jr_stage := Stage_Idle, jr_errors := errors,
                            jr_finished_at := Some now, jr_updated_at := now\<rparr>)) (\<lambda>db.
                   and_then (update_staging_generation db job_id Generation_Failed)
                   (\<lambda>db. answer db job_id))))))"

definition recover_stale_job ::
  "job_env \<Rightarrow> job_db \<Rightarrow> string \<Rightarrow> string \<Rightarrow> string \<Rightarrow> string \<Rightarrow> job_answer" where
  "recover_stale_job env db repository_id new_owner_id stale_before now =
     and_then (validate_job_id ''repository'' repository_id) (\<lambda>_.
     and_then (validate_job_id ''owner'' new_owner_id) (\<lambda>_.
     and_then (validate_timestamp env stale_before) (\<lambda>stale_before_time.
     and_then (validate_timestamp env now) (\<lambda>now_time.
       if stale_before_time > now_time then Inl CutoffAfterNow
       else
         and_then (ok_or (List.find (\<lambda>r. jr_repository_id r = repository_id \<and> active_state (jr_state r))
                            (db_jobs db)) NoActiveJob) (\<lambda>row.
           if jr_owner_id row = new_owner_id then answer db (jr_job_id row)
           else
             and_then (validate_timestamp env (jr_updated_at row)) (\<lambda>updated_at.
               if updated_at \<ge> stale_before_time then Inl OwnerStillLive
               else
                 (let recovered = (if jr_state row = Job_Running then Job_Paused else jr_state row)
                  in and_then (cas_jobs db ''recover'' (jr_job_id row)
                       (\<lambda>r. jr_job_id r = jr_job_id row \<and> jr_repository_id r = repository_id \<and>
                            jr_owner_id r = jr_owner_id row \<and> jr_state r = jr_state row \<and>
                            jr_updated_at r = jr_updated_at row)
                       (\<lambda>r. r\<lparr>jr_owner_id := new_owner_id, jr_state := recovered,
                              jr_updated_at := now\<rparr>))
                     (\<lambda>db. answer db (jr_job_id row)))))))))"

section \<open>Histories\<close>

text \<open>A call of the lease interface; the services of the application issue them in any order.\<close>

datatype job_op =
  Op_Start NewArchaeologyJob
| Op_Checkpoint string string ArchaeologyJobStage ArchaeologyJobStage string
    ArchaeologyJobCheckpoint nat "nat option" string
| Op_Heartbeat string string string
| Op_Pause string string string
| Op_Resume string string string
| Op_RequestCancel string string string
| Op_AcknowledgeCancel string string string
| Op_Complete string string string
| Op_Fail string string ArchaeologyJobErrorCode string
| Op_Recover string string string string

fun call_job :: "job_env \<Rightarrow> job_db \<Rightarrow> job_op \<Rightarrow> job_answer" where
  "call_job env db (Op_Start inp) = start_job env db inp"
| "call_job env db (Op_Checkpoint j w s s' i c n t now) = checkpoint_job env db j w s s' i c n t now"
| "call_job env db (Op_Heartbeat j w now) = heartbeat_job env db j w now"
| "call_job env db (Op_Pause j w now) = pause_job env db j w now"
| "call_job env db (Op_Resume j w now) = resume_job env db j w now"
| "call_job env db (Op_RequestCancel j w now) = request_cancel env db j w now"
| "call_job env db (Op_AcknowledgeCancel j w now) = acknowledge_cancel env db j w now"
| "call_job env db (Op_Complete j w now) = complete_job env db j w now"
| "call_job env db (Op_Fail j w e now) = fail_job env db j w e now"
| "call_job env db (Op_Recover r w cutoff now) = recover_stale_job env db r w cutoff now"

text \<open>A rejected call leaves the database as it was.\<close>

definition apply_job :: "job_env \<Rightarrow> job_db \<Rightarrow> job_op \<Rightarrow> job_db" where
  "apply_job env db op = (case call_job env db op of Inl _ \<Rightarrow> db | Inr (db', _) \<Rightarrow> db')"

end
