(* ===== verification/Job_Lease.thy ===== *)
theory Job_Lease
  imports Jobs
begin

text \<open>
  What the job lease of \<open>Jobs\<close> promises: every accepted call is a step of a small protocol on the
  rows (\<open>row_step\<close>) that keeps the database invariant (\<open>job_db_ok\<close>), so whole histories of calls do
  too; ownership changes only by recovery, which fences the previous worker; a checkpoint is accepted
  exactly under its guard; and a requested cancellation can always be acknowledged.
\<close>

section \<open>The lease, abstractly\<close>

text \<open>
  What one accepted call may do to one job: the lease protocol. A terminal state is kept, the
  other states move along the edges below, progress and errors only grow.
\<close>

definition terminal_state :: "ArchaeologyJobState \<Rightarrow> bool" where
  "terminal_state s \<longleftrightarrow> s \<in> {Job_Completed, Job_Failed, Job_Cancelled}"

inductive lease_step :: "ArchaeologyJobState \<Rightarrow> ArchaeologyJobState \<Rightarrow> bool" where
  stay: "lease_step s s"
| pause: "lease_step Job_Running Job_Paused"
| resume: "lease_step Job_Paused Job_Running"
| cancel: "s \<in> {Job_Running, Job_Paused} \<Longrightarrow> lease_step s Job_Cancelling"
| cancelled: "lease_step Job_Cancelling Job_Cancelled"
| complete: "lease_step Job_Running Job_Completed"
| fail: "s \<in> {Job_Running, Job_Paused, Job_Cancelling} \<Longrightarrow> lease_step s Job_Failed"

inductive_cases lease_step_elim: "lease_step s t"
inductive_simps lease_step_from_cancelling: "lease_step Job_Cancelling t"
inductive_simps lease_step_to_completed: "lease_step s Job_Completed"

lemma lease_step_terminal: "lease_step s t \<Longrightarrow> terminal_state s \<Longrightarrow> t = s"
  by (erule lease_step_elim) (auto simp: terminal_state_def)

definition stage_step :: "ArchaeologyJobStage \<Rightarrow> ArchaeologyJobStage \<Rightarrow> bool" where
  "stage_step s t \<longleftrightarrow>
     t = s \<or> t = Stage_Idle \<or>
     (\<exists>i. stage_index s = Some i \<and> stage_index t = Some (Suc i) \<and>
        s \<notin> {Stage_Synthesize, Stage_Validate, Stage_Publish} \<and> i < 4)"

definition row_step :: "job_row \<Rightarrow> job_row \<Rightarrow> bool" where
  "row_step r r' \<longleftrightarrow>
     jr_job_id r' = jr_job_id r \<and> jr_repository_id r' = jr_repository_id r \<and>
     jr_generation_id r' = jr_generation_id r \<and> jr_started_at r' = jr_started_at r \<and>
     lease_step (jr_state r) (jr_state r') \<and> stage_step (jr_stage r) (jr_stage r') \<and>
     jr_completed_units r \<le> jr_completed_units r' \<and>
     (jr_total_units r \<noteq> None \<longrightarrow> jr_total_units r' = jr_total_units r) \<and>
     (\<exists>es. jr_errors r' = jr_errors r @ es) \<and>
     (terminal_state (jr_state r) \<longrightarrow> r' = r)"

lemma row_step_refl [simp]: "row_step r r"
  by (simp add: row_step_def lease_step.stay stage_step_def)

definition row_ok :: "job_row \<Rightarrow> bool" where
  "row_ok r \<longleftrightarrow>
     (terminal_state (jr_state r) \<longleftrightarrow> jr_stage r = Stage_Idle) \<and>
     (terminal_state (jr_state r) \<longrightarrow> jr_finished_at r \<noteq> None) \<and>
     (jr_state r = Job_Cancelling \<longrightarrow> jr_cancellation_requested r) \<and>
     (jr_cancellation_requested r \<longrightarrow> jr_state r \<in> {Job_Cancelling, Job_Cancelled, Job_Failed}) \<and>
     length (jr_errors r) \<le> MAX_ERRORS"

definition job_db_ok :: "job_db \<Rightarrow> bool" where
  "job_db_ok db \<longleftrightarrow>
     job_constraints (db_jobs db) \<and> generation_constraints (db_generations db) \<and>
     (\<forall>r\<in>set (db_jobs db). row_ok r)"

section \<open>Updates\<close>

lemma update_jobs_ok:
  "update_jobs db p f = Inr (n, db') \<longleftrightarrow>
     n = length (filter p (db_jobs db)) \<and>
     job_constraints (map (\<lambda>r. if p r then f r else r) (db_jobs db)) \<and>
     db' = db\<lparr>db_jobs := map (\<lambda>r. if p r then f r else r) (db_jobs db)\<rparr>"
  by (auto simp: update_jobs_def update_rows_def)

lemma update_generations_ok:
  "update_generations db p f = Inr (n, db') \<longleftrightarrow>
     n = length (filter p (db_generations db)) \<and>
     generation_constraints (map (\<lambda>r. if p r then f r else r) (db_generations db)) \<and>
     db' = db\<lparr>db_generations := map (\<lambda>r. if p r then f r else r) (db_generations db)\<rparr>"
  by (auto simp: update_generations_def update_rows_def)

lemma require_cas_ok [simp]: "require_cas n action j = Inr u \<longleftrightarrow> n = 1"
  by (simp add: require_cas_def)

lemma cas_jobs_ok:
  "cas_jobs db action j p f = Inr db' \<longleftrightarrow>
     length (filter p (db_jobs db)) = 1 \<and>
     job_constraints (map (\<lambda>r. if p r then f r else r) (db_jobs db)) \<and>
     db' = db\<lparr>db_jobs := map (\<lambda>r. if p r then f r else r) (db_jobs db)\<rparr>"
  by (auto simp: cas_jobs_def and_then_Inr_iff update_jobs_ok)

text \<open>The effect of an accepted call: rows follow \<open>f\<close>, new rows are appended.\<close>

definition job_effect :: "job_db \<Rightarrow> job_db \<Rightarrow> bool" where
  "job_effect db db' \<longleftrightarrow>
     (\<exists>f new. db_jobs db' = map f (db_jobs db) @ new \<and>
        (\<forall>r\<in>set (db_jobs db). row_step r (f r) \<and> (row_ok r \<longrightarrow> row_ok (f r))) \<and>
        (\<forall>r\<in>set new. row_ok r)) \<and>
     job_constraints (db_jobs db') \<and>
     (generation_constraints (db_generations db) \<longrightarrow> generation_constraints (db_generations db')) \<and>
     (\<forall>g\<in>set (db_generations db). gr_status g = Generation_Ready \<longrightarrow> g \<in> set (db_generations db')) \<and>
     db_repositories db' = db_repositories db"

lemma cas_effect:
  assumes "cas_jobs db action j p f = Inr db'"
    and "\<And>r. r \<in> set (db_jobs db) \<Longrightarrow> p r \<Longrightarrow> row_step r (f r) \<and> (row_ok r \<longrightarrow> row_ok (f r))"
  shows "job_effect db db'"
proof -
  have db': "db' = db\<lparr>db_jobs := map (\<lambda>r. if p r then f r else r) (db_jobs db)\<rparr>"
    "job_constraints (map (\<lambda>r. if p r then f r else r) (db_jobs db))"
    using assms(1) by (simp_all add: cas_jobs_ok)
  have "db_jobs db' = map (\<lambda>r. if p r then f r else r) (db_jobs db) @ []" by (simp add: db'(1))
  moreover have "\<forall>r\<in>set (db_jobs db). row_step r (if p r then f r else r) \<and>
      (row_ok r \<longrightarrow> row_ok (if p r then f r else r))"
    using assms(2) by simp
  ultimately have "\<exists>f new. db_jobs db' = map f (db_jobs db) @ new \<and>
        (\<forall>r\<in>set (db_jobs db). row_step r (f r) \<and> (row_ok r \<longrightarrow> row_ok (f r))) \<and>
        (\<forall>r\<in>set new. row_ok r)"
    by (intro exI [of _ "\<lambda>r. if p r then f r else r"] exI [of _ "[]"]) auto
  then show ?thesis using db'(2) unfolding job_effect_def by (simp add: db'(1))
qed

lemma update_staging_ok:
  assumes "update_staging_generation db j status = Inr db'"
  shows "db_jobs db' = db_jobs db \<and> db_repositories db' = db_repositories db \<and>
    generation_constraints (db_generations db') \<and>
    (\<forall>g\<in>set (db_generations db). gr_status g = Generation_Ready \<longrightarrow> g \<in> set (db_generations db'))"
proof -
  let ?p = "\<lambda>g. Some (gr_generation_id g) = owned_generation db j \<and> gr_status g = Generation_Staging"
  have db': "db' = db\<lparr>db_generations := map (\<lambda>g. if ?p g then g\<lparr>gr_status := status\<rparr> else g) (db_generations db)\<rparr>"
    "generation_constraints (map (\<lambda>g. if ?p g then g\<lparr>gr_status := status\<rparr> else g) (db_generations db))"
    using assms
    by (auto simp: update_staging_generation_def and_then_Inr_iff update_generations_ok split: if_splits)
  have "g \<in> (\<lambda>g. if ?p g then g\<lparr>gr_status := status\<rparr> else g) ` set (db_generations db)"
    if "g \<in> set (db_generations db)" "gr_status g = Generation_Ready" for g
    using that by (intro image_eqI [of _ _ g]) simp_all
  then show ?thesis using db'(2) by (simp add: db'(1))
qed

lemma effect_then_staging:
  assumes "job_effect db m" "update_staging_generation m j status = Inr db'"
  shows "job_effect db db'"
  using assms(1) update_staging_ok [OF assms(2)] unfolding job_effect_def by auto

lemma answer_ok: "answer db j = Inr (db', s) \<longleftrightarrow> db' = db \<and> load_job db j = Inr s"
  by (auto simp: answer_def and_then_Inr_iff)

lemma stage_progression_step: "validate_stage_progression s t = Inr u \<Longrightarrow> stage_step s t \<and> s \<noteq> Stage_Idle \<and> t \<noteq> Stage_Idle"
  by (cases s; cases t) (simp_all add: validate_stage_progression_def stage_step_def)

lemma effect_refl: "job_constraints (db_jobs db) \<Longrightarrow> job_effect db db"
  unfolding job_effect_def
  by (intro conjI exI [of _ "\<lambda>r. r"] exI [of _ "[]"]) simp_all

lemma checkpoint_effect:
  assumes "checkpoint_job env db j w s s' i c n t now = Inr (db', st)"
  shows "job_effect db db'"
proof -
  obtain m where step: "validate_stage_progression s s' = Inr m"
    using assms by (auto simp: checkpoint_job_def and_then_Inr_iff)
  note stage = stage_progression_step [OF step]
  show ?thesis
    using assms
    apply (auto simp: checkpoint_job_def and_then_Inr_iff answer_ok split: if_splits)
    apply (erule cas_effect)
    using stage
    apply (auto simp: checkpoint_guard_def row_step_def lease_step.stay row_ok_def terminal_state_def or_else_def split: option.splits)
    done
qed

lemma heartbeat_effect: "heartbeat_job env db j w now = Inr (db', st) \<Longrightarrow> job_effect db db'"
  by (auto simp: heartbeat_job_def and_then_Inr_iff answer_ok elim!: cas_effect)
    (auto simp: row_step_def lease_step.intros stage_step_def row_ok_def terminal_state_def)

lemma transition_effect:
  assumes "transition_state env db j w a b action False now = Inr (db', st)"
    "(a, b) \<in> {(Job_Running, Job_Paused), (Job_Paused, Job_Running)}"
  shows "job_effect db db'"
  using assms
  by (auto simp: transition_state_def and_then_Inr_iff answer_ok elim!: cas_effect)
    (auto simp: row_step_def lease_step.intros stage_step_def row_ok_def terminal_state_def)

lemma cancel_effect: "request_cancel env db j w now = Inr (db', st) \<Longrightarrow> job_effect db db'"
  by (auto simp: request_cancel_def and_then_Inr_iff answer_ok elim!: cas_effect)
    (auto simp: row_step_def lease_step.intros stage_step_def row_ok_def terminal_state_def)

lemma complete_effect: "complete_job env db j w now = Inr (db', st) \<Longrightarrow> job_effect db db'"
  by (auto simp: complete_job_def and_then_Inr_iff answer_ok elim!: cas_effect)
    (auto simp: row_step_def lease_step.intros stage_step_def row_ok_def terminal_state_def)

lemma acknowledge_effect:
  assumes "acknowledge_cancel env db j w now = Inr (db', st)"
  shows "job_effect db db'"
proof -
  obtain m where m: "cas_jobs db ''cancelled'' j
       (\<lambda>r. jr_job_id r = j \<and> jr_owner_id r = w \<and> jr_state r = Job_Cancelling \<and>
            not_before env now (jr_updated_at r))
       (\<lambda>r. r\<lparr>jr_state := Job_Cancelled, jr_stage := Stage_Idle, jr_finished_at := Some now,
              jr_updated_at := now\<rparr>) = Inr m"
    "update_staging_generation m j Generation_Cancelled = Inr db'"
    using assms by (auto simp: acknowledge_cancel_def finish_job_def and_then_Inr_iff answer_ok)
  show ?thesis
    by (rule effect_then_staging [OF cas_effect [OF m(1)] m(2)])
      (auto simp: row_step_def lease_step.intros stage_step_def row_ok_def terminal_state_def)
qed

lemma find_some_in: "List.find p xs = Some x \<Longrightarrow> p x \<and> x \<in> set xs"
  by (metis find_Some_iff nth_mem)

lemma single_filter_eq:
  assumes "length (filter p xs) = 1" "x \<in> set xs" "p x" "y \<in> set xs" "p y"
  shows "x = y"
proof -
  obtain z where z: "filter p xs = [z]"
    using assms(1) by (metis One_nat_def length_0_conv length_Suc_conv)
  have "set (filter p xs) = {z}" by (simp add: z)
  moreover have "x \<in> set (filter p xs)" "y \<in> set (filter p xs)" using assms(2-5) by simp_all
  ultimately show ?thesis by (metis singletonD)
qed

lemma unique_job:
  assumes "job_constraints rows" "x \<in> set rows" "y \<in> set rows" "jr_job_id x = jr_job_id y"
  shows "x = y"
  using assms unfolding job_constraints_def distinct_map by (meson inj_onD)

lemma fail_effect:
  assumes ok: "job_constraints (db_jobs db)"
    and call: "fail_job env db j w e now = Inr (db', st)"
  shows "job_effect db db'"
proof -
  let ?failing = "\<lambda>r. jr_job_id r = j \<and> jr_owner_id r = w \<and>
            jr_state r \<in> {Job_Running, Job_Paused, Job_Cancelling}"
  obtain row m where row: "List.find ?failing (db_jobs db) = Some row"
    and few: "length (jr_errors row) < MAX_ERRORS"
    and m: "cas_jobs db ''fail'' j (\<lambda>r. ?failing r \<and> not_before env now (jr_updated_at r))
      (\<lambda>r. r\<lparr>jr_state := Job_Failed, jr_stage := Stage_Idle,
             jr_errors := jr_errors row @ [error_code_name e],
             jr_finished_at := Some now, jr_updated_at := now\<rparr>) = Inr m"
    "update_staging_generation m j Generation_Failed = Inr db'"
    using call by (auto simp: fail_job_def Let_def and_then_Inr_iff answer_ok split: if_splits)
  have same: "r = row" if "r \<in> set (db_jobs db)" "jr_job_id r = j" for r
  proof (rule unique_job [OF ok that(1)])
    show "row \<in> set (db_jobs db)" "jr_job_id r = jr_job_id row"
      using find_some_in [OF row] that(2) by auto
  qed
  show ?thesis
  proof (rule effect_then_staging [OF cas_effect [OF m(1)] m(2)])
    fix r
    assume r: "r \<in> set (db_jobs db)" "?failing r \<and> not_before env now (jr_updated_at r)"
    then have "r = row" using same by blast
    then show "row_step r (r\<lparr>jr_state := Job_Failed, jr_stage := Stage_Idle,
             jr_errors := jr_errors row @ [error_code_name e],
             jr_finished_at := Some now, jr_updated_at := now\<rparr>) \<and>
        (row_ok r \<longrightarrow> row_ok (r\<lparr>jr_state := Job_Failed, jr_stage := Stage_Idle,
             jr_errors := jr_errors row @ [error_code_name e],
             jr_finished_at := Some now, jr_updated_at := now\<rparr>))"
      using r(2) few by (auto simp: row_step_def lease_step.intros stage_step_def row_ok_def terminal_state_def)
  qed
qed

lemma recover_cases:
  assumes "recover_stale_job env db rep w cutoff now = Inr (db', st)"
  shows "\<exists>(row :: job_row) s. row \<in> set (db_jobs db) \<and> jr_repository_id row = rep \<and> active_state (jr_state row) \<and>
     s = (if jr_state row = Job_Running then Job_Paused else jr_state row) \<and>
     load_job db' (jr_job_id row) = Inr st \<and>
     (jr_owner_id row = w \<and> db' = db \<or>
      cas_jobs db ''recover'' (jr_job_id row)
        (\<lambda>r. jr_job_id r = jr_job_id row \<and> jr_repository_id r = rep \<and>
             jr_owner_id r = jr_owner_id row \<and> jr_state r = jr_state row \<and>
             jr_updated_at r = jr_updated_at row)
        (\<lambda>r. r\<lparr>jr_owner_id := w, jr_state := s, jr_updated_at := now\<rparr>) = Inr db')"
proof -
  obtain row where row: "List.find (\<lambda>r. jr_repository_id r = rep \<and> active_state (jr_state r)) (db_jobs db) = Some row"
    and rest: "(if jr_owner_id row = w then answer db (jr_job_id row)
           else
             and_then (validate_timestamp env (jr_updated_at row)) (\<lambda>updated_at.
               if updated_at \<ge> the (en_rfc3339 env cutoff) then Inl OwnerStillLive
               else
                 (let recovered = (if jr_state row = Job_Running then Job_Paused else jr_state row)
                  in and_then (cas_jobs db ''recover'' (jr_job_id row)
                       (\<lambda>r. jr_job_id r = jr_job_id row \<and> jr_repository_id r = rep \<and>
                            jr_owner_id r = jr_owner_id row \<and> jr_state r = jr_state row \<and>
                            jr_updated_at r = jr_updated_at row)
                       (\<lambda>r. r\<lparr>jr_owner_id := w, jr_state := recovered, jr_updated_at := now\<rparr>))
                     (\<lambda>db. answer db (jr_job_id row))))) = Inr (db', st)"
    using assms by (auto simp: recover_stale_job_def validate_timestamp_def and_then_Inr_iff split: if_splits)
  show ?thesis
  proof (cases "jr_owner_id row = w")
    case True
    then show ?thesis using rest find_some_in [OF row] by (auto simp: answer_ok)
  next
    case False
    define s where "s = (if jr_state row = Job_Running then Job_Paused else jr_state row)"
    have "cas_jobs db ''recover'' (jr_job_id row)
        (\<lambda>r. jr_job_id r = jr_job_id row \<and> jr_repository_id r = rep \<and>
             jr_owner_id r = jr_owner_id row \<and> jr_state r = jr_state row \<and>
             jr_updated_at r = jr_updated_at row)
        (\<lambda>r. r\<lparr>jr_owner_id := w, jr_state := s, jr_updated_at := now\<rparr>) = Inr db'"
      and "load_job db' (jr_job_id row) = Inr st"
      using False rest unfolding s_def [symmetric]
      by (auto simp: and_then_Inr_iff Let_def answer_ok split: if_split_asm)
    then show ?thesis using find_some_in [OF row] s_def by blast
  qed
qed

lemma recover_effect:
  assumes ok: "job_constraints (db_jobs db)"
    and call: "recover_stale_job env db rep w cutoff now = Inr (db', st)"
  shows "job_effect db db'"
proof -
  obtain row :: job_row and s where row: "active_state (jr_state row)"
    "s = (if jr_state row = Job_Running then Job_Paused else jr_state row)"
    and res: "jr_owner_id row = w \<and> db' = db \<or>
      cas_jobs db ''recover'' (jr_job_id row)
        (\<lambda>r. jr_job_id r = jr_job_id row \<and> jr_repository_id r = rep \<and>
             jr_owner_id r = jr_owner_id row \<and> jr_state r = jr_state row \<and>
             jr_updated_at r = jr_updated_at row)
        (\<lambda>r. r\<lparr>jr_owner_id := w, jr_state := s, jr_updated_at := now\<rparr>) = Inr db'"
    using recover_cases [OF call] by blast
  from res show ?thesis
  proof
    assume "jr_owner_id row = w \<and> db' = db"
    then show ?thesis using effect_refl [OF ok] by simp
  next
    assume m: "cas_jobs db ''recover'' (jr_job_id row)
        (\<lambda>r. jr_job_id r = jr_job_id row \<and> jr_repository_id r = rep \<and>
             jr_owner_id r = jr_owner_id row \<and> jr_state r = jr_state row \<and>
             jr_updated_at r = jr_updated_at row)
        (\<lambda>r. r\<lparr>jr_owner_id := w, jr_state := s, jr_updated_at := now\<rparr>) = Inr db'"
    show ?thesis
      by (rule cas_effect [OF m])
        (use row in \<open>auto simp: row_step_def lease_step.intros stage_step_def row_ok_def
           terminal_state_def active_state_def\<close>)
  qed
qed

lemma start_effect:
  assumes "start_job env db inp = Inr (db', st)"
  shows "job_effect db db'"
proof -
  obtain units where
    c: "generation_constraints (db_generations db')" "job_constraints (db_jobs db')"
    "db_repositories db' = db_repositories db"
    "db_jobs db' = db_jobs db @
              [\<lparr>jr_job_id = nj_job_id inp, jr_repository_id = nj_repository_id inp,
                jr_generation_id = Some (nj_generation_id inp), jr_owner_id = nj_owner_id inp,
                jr_stage = Stage_Inventory, jr_state = Job_Running, jr_checkpoint_identity = None,
                jr_checkpoint = empty_checkpoint, jr_completed_units = 0,
                jr_total_units = units, jr_cancellation_requested = False, jr_errors = [],
                jr_started_at = Some (nj_now inp), jr_updated_at = nj_now inp,
                jr_finished_at = None\<rparr>]"
    "set (db_generations db) \<subseteq> set (db_generations db')"
    using assms by (auto simp: start_job_def Let_def and_then_Inr_iff answer_ok split: if_splits)
  show ?thesis unfolding job_effect_def
    using c by (intro conjI exI [of _ "\<lambda>r. r"] exI) (auto simp: row_ok_def terminal_state_def)
qed

lemma call_effect:
  assumes "job_constraints (db_jobs db)" "call_job env db op = Inr (db', st)"
  shows "job_effect db db'"
proof (cases op)
  case (Op_Start inp)
  then show ?thesis using assms(2) start_effect by auto
next
  case (Op_Fail j w e now)
  then show ?thesis using assms(1,2) fail_effect by auto
next
  case (Op_Recover rep w cutoff now)
  then show ?thesis using assms recover_effect by auto
qed (use assms(2) in \<open>auto intro: checkpoint_effect heartbeat_effect transition_effect cancel_effect
       acknowledge_effect complete_effect simp: pause_job_def resume_job_def\<close>)

section \<open>Histories of calls\<close>

lemma effect_jobs_ok:
  assumes "job_effect db db'" "job_db_ok db"
  shows "job_db_ok db'"
  using assms by (auto simp: job_effect_def job_db_ok_def)

interpretation leases: checked_machine "\<lambda>db op. and_then (call_job env db op) (\<lambda>a. Inr (fst a))" job_db_ok
  for env
proof
  fix s x t
  assume "job_db_ok s" "and_then (call_job env s x) (\<lambda>a. Inr (fst a)) = Inr t"
  then show "job_db_ok t"
    by (metis (no_types, lifting) and_then_Inr_iff call_effect effect_jobs_ok fst_conv job_db_ok_def
        prod.exhaust sum.inject(2))
qed

lemma apply_job_effect: "job_db_ok db \<Longrightarrow> job_effect db (apply_job env db op)"
  by (auto simp: apply_job_def job_db_ok_def split: sum.splits intro: call_effect effect_refl)

lemma apply_job_ok: "job_db_ok db \<Longrightarrow> job_db_ok (apply_job env db op)"
  by (rule effect_jobs_ok [OF apply_job_effect])

lemma history_ok: "job_db_ok db \<Longrightarrow> job_db_ok (foldl (apply_job env) db ops)"
  by (induction ops arbitrary: db) (simp_all add: apply_job_ok)

lemma effect_row:
  assumes "job_effect db db'" "r \<in> set (db_jobs db)"
  shows "\<exists>r'\<in>set (db_jobs db'). row_step r r'"
proof -
  obtain f new where "db_jobs db' = map f (db_jobs db) @ new"
    "\<forall>r\<in>set (db_jobs db). row_step r (f r)"
    using assms(1) by (auto simp: job_effect_def)
  then show ?thesis using assms(2) by auto
qed

text \<open>What a whole history may do to one job.\<close>

definition row_history :: "job_row \<Rightarrow> job_row \<Rightarrow> bool" where
  "row_history r r' \<longleftrightarrow>
     jr_job_id r' = jr_job_id r \<and> jr_repository_id r' = jr_repository_id r \<and>
     jr_generation_id r' = jr_generation_id r \<and> jr_started_at r' = jr_started_at r \<and>
     lease_step\<^sup>*\<^sup>* (jr_state r) (jr_state r') \<and>
     jr_completed_units r \<le> jr_completed_units r' \<and>
     (jr_total_units r \<noteq> None \<longrightarrow> jr_total_units r' = jr_total_units r) \<and>
     (\<exists>es. jr_errors r' = jr_errors r @ es) \<and>
     (terminal_state (jr_state r) \<longrightarrow> r' = r)"

lemma row_history_refl: "row_history r r"
  by (simp add: row_history_def)

lemma row_history_step:
  assumes "row_step r s" "row_history s t"
  shows "row_history r t"
proof -
  have "lease_step\<^sup>*\<^sup>* (jr_state r) (jr_state t)"
    using assms by (auto simp: row_step_def row_history_def intro: converse_rtranclp_into_rtranclp)
  then show ?thesis using assms by (auto simp: row_step_def row_history_def)
qed

lemma history_row:
  "job_db_ok db \<Longrightarrow> r \<in> set (db_jobs db) \<Longrightarrow>
     \<exists>r'\<in>set (db_jobs (foldl (apply_job env) db ops)). row_history r r'"
proof (induction ops arbitrary: db r)
  case Nil
  then show ?case using row_history_refl by auto
next
  case (Cons op ops)
  obtain s where s: "s \<in> set (db_jobs (apply_job env db op))" "row_step r s"
    using effect_row [OF apply_job_effect [OF Cons.prems(1)] Cons.prems(2)] by auto
  show ?case
    using Cons.IH [OF apply_job_ok [OF Cons.prems(1)] s(1)] row_history_step [OF s(2)] by auto
qed

lemma history_ready:
  "job_db_ok db \<Longrightarrow> g \<in> set (db_generations db) \<Longrightarrow> gr_status g = Generation_Ready \<Longrightarrow>
     g \<in> set (db_generations (foldl (apply_job env) db ops))"
proof (induction ops arbitrary: db)
  case (Cons op ops)
  have "g \<in> set (db_generations (apply_job env db op))"
    using apply_job_effect [OF Cons.prems(1)] Cons.prems(2,3) by (auto simp: job_effect_def)
  then show ?case using Cons.IH [OF apply_job_ok [OF Cons.prems(1)]] Cons.prems(3) by simp
qed simp

lemma history_repositories:
  "job_db_ok db \<Longrightarrow> db_repositories (foldl (apply_job env) db ops) = db_repositories db"
proof (induction ops arbitrary: db)
  case (Cons op ops)
  have "db_repositories (apply_job env db op) = db_repositories db"
    using apply_job_effect [OF Cons.prems(1)] by (auto simp: job_effect_def)
  then show ?case using Cons.IH [OF apply_job_ok [OF Cons.prems(1)]] by simp
qed simp

section \<open>Ownership\<close>

fun actor_of :: "job_op \<Rightarrow> (string \<times> string) option" where
  "actor_of (Op_Checkpoint j w s s' i c n t now) = Some (j, w)"
| "actor_of (Op_Heartbeat j w now) = Some (j, w)"
| "actor_of (Op_Pause j w now) = Some (j, w)"
| "actor_of (Op_Resume j w now) = Some (j, w)"
| "actor_of (Op_RequestCancel j w now) = Some (j, w)"
| "actor_of (Op_AcknowledgeCancel j w now) = Some (j, w)"
| "actor_of (Op_Complete j w now) = Some (j, w)"
| "actor_of (Op_Fail j w e now) = Some (j, w)"
| "actor_of _ = None"

fun is_recover :: "job_op \<Rightarrow> bool" where
  "is_recover (Op_Recover r w cutoff now) = True"
| "is_recover _ = False"

definition owned_by :: "job_db \<Rightarrow> string \<Rightarrow> string \<Rightarrow> bool" where
  "owned_by db j w \<longleftrightarrow> (\<exists>r\<in>set (db_jobs db). jr_job_id r = j \<and> jr_owner_id r = w)"

lemma cas_row_exists: "cas_jobs db a j p f = Inr db' \<Longrightarrow> \<exists>r\<in>set (db_jobs db). p r"
  by (auto simp: cas_jobs_ok) (metis filter_False length_0_conv zero_neq_one One_nat_def)

lemma call_needs_owner:
  assumes "call_job env db op = Inr (db', st)" "actor_of op = Some (j, w)"
  shows "owned_by db j w"
proof -
  have *: "cas_jobs db a j' p f = Inr d \<Longrightarrow> (\<And>r. p r \<Longrightarrow> jr_job_id r = j \<and> jr_owner_id r = w) \<Longrightarrow>
      owned_by db j w" for a j' p f d
    using cas_row_exists [of db a j' p f d] unfolding owned_by_def by blast
  show ?thesis
    using assms
    by (cases op)
      (auto simp: checkpoint_job_def heartbeat_job_def pause_job_def resume_job_def transition_state_def
        request_cancel_def acknowledge_cancel_def finish_job_def complete_job_def fail_job_def Let_def
        and_then_Inr_iff checkpoint_guard_def split: if_splits elim!: *)
qed

lemma cas_keeps_owner:
  assumes "cas_jobs db a j' p f = Inr m" "owned_by db j w"
    "\<And>r. jr_job_id (f r) = jr_job_id r \<and> jr_owner_id (f r) = jr_owner_id r"
  shows "owned_by m j w"
proof -
  have m: "set (db_jobs m) = (\<lambda>r. if p r then f r else r) ` set (db_jobs db)"
    using assms(1) by (auto simp: cas_jobs_ok)
  obtain r where r: "r \<in> set (db_jobs db)" "jr_job_id r = j" "jr_owner_id r = w"
    using assms(2) by (auto simp: owned_by_def)
  show ?thesis unfolding owned_by_def m
    using r assms(3) by (intro bexI [of _ "if p r then f r else r"] imageI) simp_all
qed

lemma staging_keeps_owner:
  assumes "update_staging_generation m j' status = Inr db'" "owned_by m j w"
  shows "owned_by db' j w"
  using update_staging_ok [OF assms(1)] assms(2) by (simp add: owned_by_def)

lemma call_keeps_owner:
  assumes "call_job env db op = Inr (db', st)" "\<not> is_recover op" "owned_by db j w"
  shows "owned_by db' j w"
proof (cases op)
  case (Op_Start inp)
  then show ?thesis using assms
    by (auto simp: start_job_def Let_def and_then_Inr_iff answer_ok owned_by_def split: if_splits)
next
  case (Op_AcknowledgeCancel j' w' now)
  then show ?thesis using assms
    by (auto simp: acknowledge_cancel_def finish_job_def and_then_Inr_iff answer_ok
      elim!: staging_keeps_owner cas_keeps_owner)
next
  case (Op_Fail j' w' e now)
  then show ?thesis using assms
    by (auto simp: fail_job_def Let_def and_then_Inr_iff answer_ok split: if_splits
      elim!: staging_keeps_owner cas_keeps_owner)
qed (use assms in \<open>auto simp: checkpoint_job_def heartbeat_job_def pause_job_def resume_job_def
   transition_state_def request_cancel_def complete_job_def and_then_Inr_iff answer_ok split: if_splits
   elim!: cas_keeps_owner\<close>)

lemma history_keeps_owner:
  "list_all (\<lambda>op. \<not> is_recover op) ops \<Longrightarrow> owned_by db j w \<Longrightarrow>
     owned_by (foldl (apply_job env) db ops) j w"
proof (induction ops arbitrary: db)
  case (Cons op ops)
  have "owned_by (apply_job env db op) j w"
    using Cons.prems call_keeps_owner [of env db op]
    by (auto simp: apply_job_def split: sum.splits)
  then show ?case using Cons by simp
qed simp

lemma one_owner:
  assumes "job_db_ok db" "owned_by db j w" "owned_by db j w'"
  shows "w = w'"
  using assms unique_job unfolding owned_by_def job_db_ok_def by metis

lemma load_job_id: "load_job db j = Inr st \<Longrightarrow> js_job_id st = Some j"
  by (auto simp: load_job_def find_job_def and_then_Inr_iff dest!: find_some_in)

lemma recover_owner:
  assumes "recover_stale_job env db rep w cutoff now = Inr (db', st)"
  shows "\<exists>j. js_job_id st = Some j \<and> owned_by db' j w"
proof -
  obtain row :: job_row and s where row: "row \<in> set (db_jobs db)" "jr_repository_id row = rep"
    and st: "load_job db' (jr_job_id row) = Inr st"
    and res: "jr_owner_id row = w \<and> db' = db \<or>
      cas_jobs db ''recover'' (jr_job_id row)
        (\<lambda>r. jr_job_id r = jr_job_id row \<and> jr_repository_id r = rep \<and>
             jr_owner_id r = jr_owner_id row \<and> jr_state r = jr_state row \<and>
             jr_updated_at r = jr_updated_at row)
        (\<lambda>r. r\<lparr>jr_owner_id := w, jr_state := s, jr_updated_at := now\<rparr>) = Inr db'"
    using recover_cases [OF assms] by blast
  have "owned_by db' (jr_job_id row) w"
    using res
  proof
    assume "jr_owner_id row = w \<and> db' = db"
    then show ?thesis using row by (auto simp: owned_by_def)
  next
    assume "cas_jobs db ''recover'' (jr_job_id row)
       (\<lambda>r. jr_job_id r = jr_job_id row \<and> jr_repository_id r = rep \<and>
            jr_owner_id r = jr_owner_id row \<and> jr_state r = jr_state row \<and>
            jr_updated_at r = jr_updated_at row)
       (\<lambda>r. r\<lparr>jr_owner_id := w, jr_state := s, jr_updated_at := now\<rparr>) = Inr db'"
    then have "row\<lparr>jr_owner_id := w, jr_state := s, jr_updated_at := now\<rparr> \<in> set (db_jobs db')"
      using row by (auto simp: cas_jobs_ok intro!: image_eqI [of _ _ row])
    then show ?thesis unfolding owned_by_def
      by (intro bexI [of _ "row\<lparr>jr_owner_id := w, jr_state := s, jr_updated_at := now\<rparr>"]) simp_all
  qed
  then show ?thesis using load_job_id [OF st] by blast
qed

section \<open>Constraints and conditional updates\<close>

lemma distinct_map_filter_weaker:
  assumes "distinct (map k (filter p xs))" "\<And>x. q x \<Longrightarrow> p x"
  shows "distinct (map k (filter q xs))"
  using assms
proof (induction xs)
  case (Cons x xs)
  have "set (filter q xs) \<subseteq> set (filter p xs)" using Cons.prems(2) by auto
  then show ?case using Cons by (auto split: if_splits)
qed simp

lemma job_constraints_map:
  assumes ok: "job_constraints rows"
    and f: "\<forall>r\<in>set rows. jr_job_id (f r) = jr_job_id r \<and> jr_repository_id (f r) = jr_repository_id r \<and>
       (active_state (jr_state (f r)) \<longrightarrow> active_state (jr_state r)) \<and>
       (case jr_total_units (f r) of None \<Rightarrow> True | Some t \<Rightarrow> jr_completed_units (f r) \<le> t)"
  shows "job_constraints (map f rows)"
proof -
  have ids: "map jr_job_id (map f rows) = map jr_job_id rows" using f by simp
  let ?q = "\<lambda>r. active_state (jr_state (f r)) \<and> active_state (jr_state r)"
  have "map jr_repository_id (filter (\<lambda>r. active_state (jr_state r)) (map f rows))
      = map jr_repository_id (filter ?q rows)"
    using f by (induction rows) auto
  moreover have "distinct (map jr_repository_id (filter ?q rows))"
    using ok by (auto simp: job_constraints_def intro: distinct_map_filter_weaker)
  ultimately show ?thesis
    using ok f ids by (simp add: job_constraints_def list_all_iff del: map_map)
qed

lemma one_match:
  assumes "distinct (map k rows)" "r \<in> set rows" "p r" "\<And>x. p x \<Longrightarrow> k x = k r"
  shows "length (filter p rows) = 1"
proof -
  have "x = r" if "x \<in> set (filter p rows)" for x
  proof (rule inj_onD [of k "set rows"])
    show "inj_on k (set rows)" using assms(1) by (simp add: distinct_map)
    show "k x = k r" by (rule assms(4)) (use that in simp)
    show "x \<in> set rows" using that by simp
    show "r \<in> set rows" by (rule assms(2))
  qed
  moreover have "r \<in> set (filter p rows)" using assms(2,3) by simp
  ultimately have "set (filter p rows) = {r}" by blast
  moreover have "distinct (filter p rows)" using assms(1) by (simp add: distinct_map)
  ultimately show ?thesis using distinct_card [of "filter p rows"] by simp
qed

lemma cas_accepted:
  assumes ok: "job_constraints (db_jobs db)" and r: "r \<in> set (db_jobs db)" "p r"
    and p: "\<And>x. p x \<Longrightarrow> jr_job_id x = jr_job_id r"
    and f: "jr_job_id (f r) = jr_job_id r \<and> jr_repository_id (f r) = jr_repository_id r \<and>
       (active_state (jr_state (f r)) \<longrightarrow> active_state (jr_state r)) \<and>
       (case jr_total_units (f r) of None \<Rightarrow> True | Some t \<Rightarrow> jr_completed_units (f r) \<le> t)"
  shows "cas_jobs db a j p f = Inr (db\<lparr>db_jobs := map (\<lambda>x. if p x then f x else x) (db_jobs db)\<rparr>)
    \<and> f r \<in> set (map (\<lambda>x. if p x then f x else x) (db_jobs db))"
proof -
  have same: "x = r" if "x \<in> set (db_jobs db)" "p x" for x
    by (rule unique_job [OF ok that(1) r(1) p [OF that(2)]])
  have "length (filter p (db_jobs db)) = 1"
  proof (rule one_match [where k = jr_job_id])
    show "distinct (map jr_job_id (db_jobs db))" using ok by (simp add: job_constraints_def)
  qed (fact r p)+
  moreover have "job_constraints (map (\<lambda>x. if p x then f x else x) (db_jobs db))"
  proof (rule job_constraints_map [OF ok], rule ballI)
    fix x
    assume x: "x \<in> set (db_jobs db)"
    show "jr_job_id (if p x then f x else x) = jr_job_id x \<and>
        jr_repository_id (if p x then f x else x) = jr_repository_id x \<and>
        (active_state (jr_state (if p x then f x else x)) \<longrightarrow> active_state (jr_state x)) \<and>
        (case jr_total_units (if p x then f x else x) of None \<Rightarrow> True
         | Some t \<Rightarrow> jr_completed_units (if p x then f x else x) \<le> t)"
    proof (cases "p x")
      case True
      then show ?thesis unfolding same [OF x True] using f by simp
    next
      case False
      then show ?thesis using ok x by (simp add: job_constraints_def list_all_iff)
    qed
  qed
  ultimately show ?thesis using r by (auto simp: cas_jobs_ok intro!: image_eqI [of _ _ r])
qed

lemma found_job:
  assumes "job_constraints (db_jobs db)" "r \<in> set (db_jobs db)"
  shows "find_job db (jr_job_id r) = Some r"
proof -
  have "find_job db (jr_job_id r) \<noteq> None"
    using assms(2) by (auto simp: find_job_def find_None_iff)
  then obtain x where x: "find_job db (jr_job_id r) = Some x" by auto
  moreover have "x = r"
    using find_some_in [OF x [unfolded find_job_def]] unique_job [OF assms(1) _ assms(2)] by blast
  ultimately show ?thesis by simp
qed

lemma answer_found:
  assumes "job_constraints (db_jobs db)" "r \<in> set (db_jobs db)"
  shows "\<exists>st. answer db (jr_job_id r) = Inr (db, st) \<and> js_state st = jr_state r \<and>
    js_stage st = jr_stage r \<and> js_generation_id st = jr_generation_id r \<and>
    js_completed_units st = jr_completed_units r"
  using found_job [OF assms] by (simp add: answer_def load_job_def)

lemma generation_constraints_retire:
  assumes "generation_constraints gs" "s \<notin> {Generation_Staging, Generation_Ready}"
  shows "generation_constraints (map (\<lambda>g. if p g then g\<lparr>gr_status := s\<rparr> else g) gs)"
proof -
  let ?f = "\<lambda>g. if p g then g\<lparr>gr_status := s\<rparr> else g"
  have *: "map k (filter Q (map ?f gs)) = map k (filter (\<lambda>g. Q g \<and> \<not> p g) gs)"
    if "\<And>g. \<not> Q (g\<lparr>gr_status := s\<rparr>)" for Q :: "generation_row \<Rightarrow> bool" and k :: "generation_row \<Rightarrow> 'b"
    using that by (induction gs) auto
  have ids: "map gr_generation_id (map ?f gs) = map gr_generation_id gs" by simp
  show ?thesis
    using assms ids
    unfolding generation_constraints_def
    by (subst *, simp, subst *, simp) (auto simp del: map_map intro: distinct_map_filter_weaker)
qed

lemma and_then_succeeds:
  "(\<exists>a. and_then m f = Inr a) \<longleftrightarrow> (\<exists>x. m = Inr x \<and> (\<exists>a. f x = Inr a))"
  by (cases m) simp_all

lemma stage_progression_iff:
  "validate_stage_progression s t = Inr u \<longleftrightarrow>
     s \<noteq> Stage_Idle \<and>
     (t = s \<or> (s, t) \<in> {(Stage_Inventory, Stage_Parse), (Stage_Parse, Stage_Link),
        (Stage_Link, Stage_Derive), (Stage_Derive, Stage_Synthesize)})"
  by (cases s; cases t) (simp_all add: validate_stage_progression_def)

lemma validate_actor_iff:
  "validate_actor env j w now = Inr u \<longleftrightarrow>
     validate_job_id ''job'' j = Inr () \<and> validate_job_id ''owner'' w = Inr () \<and> en_rfc3339 env now \<noteq> None"
  by (auto simp: validate_actor_def validate_timestamp_def and_then_Inr_iff)

lemma to_i64_iff: "to_i64 n = Inr m \<longleftrightarrow> m = n \<and> n < 2 ^ 63"
  by (auto simp: to_i64_def)

lemma option_to_i64_iff:
  "option_to_i64 t = Inr b \<longleftrightarrow> b = t \<and> (\<forall>m. t = Some m \<longrightarrow> m < 2 ^ 63)"
  by (cases t) (auto simp: option_to_i64_def to_i64_def and_then_Inr_iff)

section \<open>What the lease promises\<close>

text \<open>C12. Every history of lease calls, in any order and with any arguments, keeps the database
  invariant: job identities are unique, every repository has at most one active job, completed units
  stay within the total, a job is idle exactly when it is terminal, a terminal job has its finishing
  time, a cancelling job carries the request, and a job has at most sixteen errors.\<close>

theorem job_history_invariant:
  assumes "job_db_ok db"
  shows "job_db_ok (foldl (apply_job env) db ops) \<and>
    length (filter (\<lambda>r. jr_repository_id r = rep \<and> active_state (jr_state r))
      (db_jobs (foldl (apply_job env) db ops))) \<le> 1"
proof -
  let ?rows = "db_jobs (foldl (apply_job env) db ops)"
  have ok: "job_db_ok (foldl (apply_job env) db ops)" by (rule history_ok [OF assms])
  let ?a = "filter (\<lambda>r. active_state (jr_state r)) ?rows"
  have d: "distinct (map jr_repository_id ?a)"
    using ok by (simp add: job_db_ok_def job_constraints_def)
  have "length (filter (\<lambda>r. jr_repository_id r = rep) xs) \<le> 1"
    if "distinct (map jr_repository_id xs)" for xs
    using that by (induction xs) (auto simp: filter_empty_conv image_iff)
  from this [OF d] show ?thesis using ok by (simp add: conj_commute)
qed

text \<open>C11. Every history refines the lease protocol job by job: a job keeps its identity, repository,
  generation and start, its state moves along the protocol's edges, its completed units never
  decrease, a known total never changes, its errors only grow, and a completed, failed or cancelled
  job never changes again.\<close>

theorem job_history_refines_lease:
  assumes "job_db_ok db" and "r \<in> set (db_jobs db)"
  shows "\<exists>r'\<in>set (db_jobs (foldl (apply_job env) db ops)). row_history r r' \<and>
    (\<forall>r''\<in>set (db_jobs (foldl (apply_job env) db ops)).
       jr_job_id r'' = jr_job_id r \<longrightarrow> r'' = r')"
proof -
  obtain r' where r': "r' \<in> set (db_jobs (foldl (apply_job env) db ops))" "row_history r r'"
    using history_row [OF assms] by blast
  have c: "job_constraints (db_jobs (foldl (apply_job env) db ops))"
    using history_ok [OF assms(1)] by (simp add: job_db_ok_def)
  have "r'' = r'" if "r'' \<in> set (db_jobs (foldl (apply_job env) db ops))" "jr_job_id r'' = jr_job_id r" for r''
    using unique_job [OF c that(1) r'(1)] that(2) r'(2) by (simp add: row_history_def)
  then show ?thesis using r' by blast
qed

text \<open>No history of lease calls withdraws a published generation: a ready generation keeps its
  row, and the repositories keep pointing at the generation they pointed at.\<close>

theorem ready_generations_survive:
  assumes "job_db_ok db" and "g \<in> set (db_generations db)" and "gr_status g = Generation_Ready"
  shows "g \<in> set (db_generations (foldl (apply_job env) db ops)) \<and>
    db_repositories (foldl (apply_job env) db ops) = db_repositories db"
  using history_ready [OF assms] history_repositories [OF assms(1)] by simp

text \<open>C10. A recovered job is fenced: after a worker has taken over a job, every call another worker
  makes on that job is rejected and leaves the database as it is, whatever calls happened in between,
  as long as nobody recovers again.\<close>

theorem recovered_job_is_fenced:
  assumes "job_db_ok db"
    and "recover_stale_job env db rep w cutoff now = Inr (db', st)"
    and "list_all (\<lambda>op. \<not> is_recover op) ops"
    and "js_job_id st = Some j" and "actor_of op = Some (j, stale)" and "stale \<noteq> w"
  shows "(\<exists>e. call_job env (foldl (apply_job env) db' ops) op = Inl e) \<and>
    apply_job env (foldl (apply_job env) db' ops) op = foldl (apply_job env) db' ops"
proof -
  let ?m = "foldl (apply_job env) db' ops"
  have "job_db_ok db'"
    using effect_jobs_ok [OF recover_effect assms(1)] assms(1,2) by (auto simp: job_db_ok_def)
  then have ok: "job_db_ok ?m" by (rule history_ok)
  have owned: "owned_by ?m j w"
    using recover_owner [OF assms(2)] assms(4) history_keeps_owner [OF assms(3)] by auto
  have "call_job env ?m op \<noteq> Inr (d, s)" for d s
  proof
    assume "call_job env ?m op = Inr (d, s)"
    from call_needs_owner [OF this assms(5)] show False
      using one_owner [OF ok owned] assms(6) by blast
  qed
  then obtain e where "call_job env ?m op = Inl e" by (cases "call_job env ?m op") auto
  then show ?thesis by (simp add: apply_job_def)
qed

lemma checkpoint_guard_iff:
  assumes "\<forall>m. t = Some m \<longrightarrow> n \<le> m"
  shows "checkpoint_guard env j w s s' i n t now r \<longleftrightarrow>
    jr_job_id r = j \<and> jr_owner_id r = w \<and> jr_state r = Job_Running \<and>
    jr_stage r = s \<and> jr_completed_units r \<le> n \<and>
    (\<forall>m. jr_total_units r = Some m \<longrightarrow> t \<in> {None, Some m} \<and> n \<le> m) \<and>
    (s' \<noteq> s \<or> jr_completed_units r < n \<or> jr_checkpoint_identity r \<in> {None, Some i}) \<and>
    not_before env now (jr_updated_at r)"
  using assms by (cases t; cases "jr_total_units r") (auto simp: checkpoint_guard_def or_else_def)

text \<open>The guard of the update is enough for it: it matches one row and keeps the constraints.\<close>

lemma checkpoint_cas:
  assumes ok: "job_constraints (db_jobs db)"
    and f: "f = (\<lambda>r. r\<lparr>jr_stage := s', jr_checkpoint_identity := Some i, jr_checkpoint := c,
      jr_completed_units := n, jr_total_units := or_else t (jr_total_units r), jr_updated_at := now\<rparr>)"
    and g: "g = checkpoint_guard env j w s s' i n t now"
  shows "(\<exists>d. and_then (cas_jobs db ''checkpoint'' j g f) (\<lambda>db. answer db j) = Inr d) \<longleftrightarrow>
    (\<exists>r\<in>set (db_jobs db). g r)"
proof
  assume "\<exists>d. and_then (cas_jobs db ''checkpoint'' j g f) (\<lambda>db. answer db j) = Inr d"
  then show "\<exists>r\<in>set (db_jobs db). g r"
    by (auto simp: and_then_Inr_iff dest: cas_row_exists)
next
  assume "\<exists>r\<in>set (db_jobs db). g r"
  then obtain r where r: "r \<in> set (db_jobs db)" "g r" by blast
  let ?m = "db\<lparr>db_jobs := map (\<lambda>x. if g x then f x else x) (db_jobs db)\<rparr>"
  have id: "jr_job_id x = j" if "g x" for x using that by (simp add: g checkpoint_guard_def)
  have "cas_jobs db ''checkpoint'' j g f = Inr ?m \<and> f r \<in> set (map (\<lambda>x. if g x then f x else x) (db_jobs db))"
  proof (rule cas_accepted [OF ok r(1), where p = g and f = f])
    show "g r" by (rule r(2))
    show "jr_job_id x = jr_job_id r" if "g x" for x using id [OF that] id [OF r(2)] by simp
    show "jr_job_id (f r) = jr_job_id r \<and> jr_repository_id (f r) = jr_repository_id r \<and>
       (active_state (jr_state (f r)) \<longrightarrow> active_state (jr_state r)) \<and>
       (case jr_total_units (f r) of None \<Rightarrow> True | Some t \<Rightarrow> jr_completed_units (f r) \<le> t)"
      using r(2) by (auto simp: f g checkpoint_guard_def split: option.splits)
  qed
  then have cas: "cas_jobs db ''checkpoint'' j g f = Inr ?m \<and> f r \<in> set (db_jobs ?m)" by simp
  then have "\<exists>st. answer ?m (jr_job_id (f r)) = Inr (?m, st)"
    using answer_found [of ?m "f r"] by (auto simp: cas_jobs_ok)
  moreover have "jr_job_id (f r) = j" using id [OF r(2)] by (simp add: f)
  ultimately show "\<exists>d. and_then (cas_jobs db ''checkpoint'' j g f) (\<lambda>db. answer db j) = Inr d"
    using cas by auto
qed

text \<open>A checkpoint is accepted exactly when the worker, the names and the counters are valid, the
  stage stays or advances along inventory, parse, link, derive, synthesize, the units are within
  the total and within 63 bits, and the worker's own running job is at the expected stage, has not
  more units than reported, agrees on the total, does not rename its checkpoint without progress and
  was not updated later. The guard of the update already implies every constraint of the table.\<close>

theorem checkpoint_accepted_iff:
  assumes "job_db_ok db"
  shows "(\<exists>a. checkpoint_job env db j w s s' i c n t now = Inr a) \<longleftrightarrow>
    validate_job_id ''job'' j = Inr () \<and> validate_job_id ''owner'' w = Inr () \<and>
    en_rfc3339 env now \<noteq> None \<and>
    s \<noteq> Stage_Idle \<and>
    (s' = s \<or> (s, s') \<in> {(Stage_Inventory, Stage_Parse), (Stage_Parse, Stage_Link),
       (Stage_Link, Stage_Derive), (Stage_Derive, Stage_Synthesize)}) \<and>
    validate_persisted_token ''checkpoint'' i MAX_ID_BYTES = Inr () \<and>
    validate_checkpoint c = Inr () \<and>
    len (en_checkpoint_json env c) \<le> MAX_CHECKPOINT_BYTES \<and>
    n < 2 ^ 63 \<and> (\<forall>m. t = Some m \<longrightarrow> n \<le> m \<and> m < 2 ^ 63) \<and>
    (\<exists>r\<in>set (db_jobs db). jr_job_id r = j \<and> jr_owner_id r = w \<and> jr_state r = Job_Running \<and>
       jr_stage r = s \<and> jr_completed_units r \<le> n \<and>
       (\<forall>m. jr_total_units r = Some m \<longrightarrow> t \<in> {None, Some m} \<and> n \<le> m) \<and>
       (s' \<noteq> s \<or> jr_completed_units r < n \<or> jr_checkpoint_identity r \<in> {None, Some i}) \<and>
       not_before env now (jr_updated_at r))"
proof -
  have ok: "job_constraints (db_jobs db)" using assms by (simp add: job_db_ok_def)
  note cas = checkpoint_cas [OF ok refl refl, where s' = s' and i = i and c = c and n = n and t = t
      and now = now and env = env and j = j and w = w and s = s]
  have conds: "(\<exists>a. checkpoint_job env db j w s s' i c n t now = Inr a) \<longleftrightarrow>
    validate_actor env j w now = Inr () \<and> validate_stage_progression s s' = Inr () \<and>
    validate_persisted_token ''checkpoint'' i MAX_ID_BYTES = Inr () \<and> validate_checkpoint c = Inr () \<and>
    len (en_checkpoint_json env c) \<le> MAX_CHECKPOINT_BYTES \<and>
    n < 2 ^ 63 \<and> (\<forall>m. t = Some m \<longrightarrow> n \<le> m \<and> m < 2 ^ 63) \<and>
    (\<exists>r\<in>set (db_jobs db). checkpoint_guard env j w s s' i n t now r)"
    unfolding checkpoint_job_def cas [symmetric]
    by (cases t) (auto simp del: split_paired_Ex simp: and_then_succeeds option_to_i64_iff to_i64_iff
        split: if_splits)
  show ?thesis
  proof (cases "\<forall>m. t = Some m \<longrightarrow> n \<le> m \<and> m < 2 ^ 63")
    case True
    then have bound: "\<forall>m. t = Some m \<longrightarrow> n \<le> m" by blast
    show ?thesis
      unfolding conds validate_actor_iff stage_progression_iff checkpoint_guard_iff [OF bound]
      by (simp only: conj_assoc)
  next
    case False
    then show ?thesis unfolding conds by (simp only: simp_thms)
  qed
qed

lemma cas_effect_row:
  assumes "job_constraints (db_jobs db)" "cas_jobs db a j p f = Inr db'"
    "\<And>x. p x \<Longrightarrow> jr_job_id x = j" "\<And>x. jr_job_id (f x) = jr_job_id x"
  shows "\<exists>r\<in>set (db_jobs db). p r \<and> jr_job_id r = j \<and> f r \<in> set (db_jobs db') \<and>
    job_constraints (db_jobs db') \<and> db_generations db' = db_generations db \<and>
    db_repositories db' = db_repositories db"
proof -
  obtain r where r: "r \<in> set (db_jobs db)" "p r" using cas_row_exists [OF assms(2)] by blast
  then have "f r \<in> set (db_jobs db')" using assms(2) by (auto simp: cas_jobs_ok intro!: image_eqI [of _ _ r])
  then show ?thesis using r assms(2,3) by (auto simp: cas_jobs_ok)
qed

lemma retire_staging:
  assumes "job_constraints (db_jobs db)" "generation_constraints (db_generations db)"
    "r \<in> set (db_jobs db)" "jr_generation_id r = Some (gr_generation_id g)"
    "g \<in> set (db_generations db)" "gr_status g = Generation_Staging"
    "s \<notin> {Generation_Staging, Generation_Ready}"
  shows "\<exists>db'. update_staging_generation db (jr_job_id r) s = Inr db' \<and> db_jobs db' = db_jobs db \<and>
    g\<lparr>gr_status := s\<rparr> \<in> set (db_generations db')"
proof -
  let ?p = "\<lambda>x. Some (gr_generation_id x) = owned_generation db (jr_job_id r) \<and> gr_status x = Generation_Staging"
  have owned: "owned_generation db (jr_job_id r) = Some (gr_generation_id g)"
    using found_job [OF assms(1,3)] assms(4) by (simp add: owned_generation_def option_then_def)
  have "length (filter ?p (db_generations db)) = 1"
    by (rule one_match [where k = gr_generation_id and r = g])
      (use assms owned in \<open>auto simp: generation_constraints_def\<close>)
  moreover have "g\<lparr>gr_status := s\<rparr> \<in> (\<lambda>x. if ?p x then x\<lparr>gr_status := s\<rparr> else x) ` set (db_generations db)"
    using assms(5,6) owned by (intro image_eqI [of _ _ g]) simp_all
  ultimately show ?thesis
    using generation_constraints_retire [OF assms(2,7), of ?p]
    by (auto simp: update_staging_generation_def update_generations_def update_rows_def)
qed

section \<open>Who owns a generation\<close>

text \<open>
  start_job writes a generation together with its job, so a generation has at most one job, and the generation of a
  job is in the table.
\<close>

definition generations_owned :: "job_db \<Rightarrow> bool" where
  "generations_owned db \<longleftrightarrow>
     distinct (List.map_filter jr_generation_id (db_jobs db)) \<and>
     set (List.map_filter jr_generation_id (db_jobs db)) \<subseteq> gr_generation_id ` set (db_generations db)"

definition same_generations :: "job_db \<Rightarrow> job_db \<Rightarrow> bool" where
  "same_generations db db' \<longleftrightarrow>
     map jr_job_id (db_jobs db') = map jr_job_id (db_jobs db) \<and>
     map jr_generation_id (db_jobs db') = map jr_generation_id (db_jobs db) \<and>
     map gr_generation_id (db_generations db') = map gr_generation_id (db_generations db)"

lemma same_generations_trans: "same_generations a b \<Longrightarrow> same_generations b c \<Longrightarrow> same_generations a c"
  by (simp add: same_generations_def)

lemma cas_same_generations:
  assumes "cas_jobs db a j p f = Inr db'"
    "\<And>r. jr_job_id (f r) = jr_job_id r \<and> jr_generation_id (f r) = jr_generation_id r"
  shows "same_generations db db' \<and> db_generations db' = db_generations db"
  using assms by (auto simp: cas_jobs_ok same_generations_def)

lemma staging_generations:
  assumes "update_staging_generation db j status = Inr db'"
  shows "db_generations db' =
    map (\<lambda>g. if Some (gr_generation_id g) = owned_generation db j \<and> gr_status g = Generation_Staging
      then g\<lparr>gr_status := status\<rparr> else g) (db_generations db)" "same_generations db db'"
  using assms
  by (auto simp: update_staging_generation_def and_then_Inr_iff update_generations_ok same_generations_def split: if_splits)

lemma finish_generations:
  assumes "cas_jobs db a j p f = Inr m" "update_staging_generation m j s = Inr db'"
    "\<And>r. jr_job_id (f r) = jr_job_id r \<and> jr_generation_id (f r) = jr_generation_id r"
    "\<And>r. p r \<Longrightarrow> jr_job_id r = j" "\<And>r. terminal_state (jr_state (f r))" "job_constraints (db_jobs db)"
  shows "same_generations db db' \<and>
    (\<forall>g\<in>set (db_generations db). g \<notin> set (db_generations db') \<longrightarrow>
       (\<exists>r\<in>set (db_jobs db'). jr_job_id r = j \<and> terminal_state (jr_state r) \<and> jr_generation_id r = Some (gr_generation_id g)))"
proof -
  have m: "same_generations db m" "db_generations m = db_generations db"
    using cas_same_generations [OF assms(1,3)] by auto
  have c: "job_constraints (db_jobs m)" using assms(1) by (auto simp: cas_jobs_ok)
  obtain r where r: "r \<in> set (db_jobs db)" "p r" using cas_row_exists [OF assms(1)] by blast
  then have fr: "f r \<in> set (db_jobs m)" using assms(1) by (auto simp: cas_jobs_ok intro!: image_eqI [of _ _ r])
  have owner: "owned_generation m j = jr_generation_id (f r)"
    using found_job [OF c fr] assms(3) assms(4) [OF r(2)] by (simp add: owned_generation_def option_then_def)
  have jobs: "db_jobs db' = db_jobs m" using update_staging_ok [OF assms(2)] by simp
  have "jr_generation_id (f r) = Some (gr_generation_id g)"
    if "g \<in> set (db_generations db)" "g \<notin> set (db_generations db')" for g
  proof (rule ccontr)
    assume "jr_generation_id (f r) \<noteq> Some (gr_generation_id g)"
    then have "g \<in> set (db_generations db')"
      unfolding staging_generations(1) [OF assms(2)] m(2) owner using that(1) by (auto intro!: image_eqI [of _ _ g])
    then show False using that(2) by simp
  qed
  then show ?thesis
    using same_generations_trans [OF m(1) staging_generations(2) [OF assms(2)]] fr assms(3,5) assms(4) [OF r(2)]
    unfolding jobs by metis
qed

text \<open>What one accepted call does to the generations: start_job adds one with its job, and a call that ends a job may
  retire the generation of that job.\<close>

lemma call_generations:
  assumes "call_job env db op = Inr (db', st)" "job_constraints (db_jobs db)"
  shows "(\<exists>row gen. db_jobs db' = db_jobs db @ [row] \<and> db_generations db' = db_generations db @ [gen] \<and>
        jr_generation_id row = Some (gr_generation_id gen) \<and> generation_constraints (db_generations db')) \<or>
    (same_generations db db' \<and>
      (\<forall>g\<in>set (db_generations db). g \<notin> set (db_generations db') \<longrightarrow>
         (\<exists>r\<in>set (db_jobs db'). terminal_state (jr_state r) \<and> jr_generation_id r = Some (gr_generation_id g))))"
proof -
  have quiet: "same_generations db db' \<and> (\<forall>g\<in>set (db_generations db). g \<in> set (db_generations db'))"
    if "cas_jobs db a j p f = Inr db'" "\<And>r. jr_job_id (f r) = jr_job_id r \<and> jr_generation_id (f r) = jr_generation_id r" for a j p f
    using cas_same_generations [OF that] by simp
  show ?thesis
  proof (cases op)
    case (Op_Start inp)
    then show ?thesis using assms(1)
      by (auto simp: start_job_def Let_def and_then_Inr_iff answer_ok split: if_splits)
  next
    case (Op_AcknowledgeCancel j w now)
    obtain m where m: "cas_jobs db ''cancelled'' j
         (\<lambda>r. jr_job_id r = j \<and> jr_owner_id r = w \<and> jr_state r = Job_Cancelling \<and> not_before env now (jr_updated_at r))
         (\<lambda>r. r\<lparr>jr_state := Job_Cancelled, jr_stage := Stage_Idle, jr_finished_at := Some now, jr_updated_at := now\<rparr>) = Inr m"
      "update_staging_generation m j Generation_Cancelled = Inr db'"
      using assms(1) Op_AcknowledgeCancel
      by (auto simp: acknowledge_cancel_def finish_job_def and_then_Inr_iff answer_ok)
    show ?thesis using finish_generations [OF m] assms(2) by (auto simp: terminal_state_def)
  next
    case (Op_Fail j w e now)
    let ?failing = "\<lambda>r. jr_job_id r = j \<and> jr_owner_id r = w \<and> jr_state r \<in> {Job_Running, Job_Paused, Job_Cancelling}"
    obtain errors m where m: "cas_jobs db ''fail'' j (\<lambda>r. ?failing r \<and> not_before env now (jr_updated_at r))
         (\<lambda>r. r\<lparr>jr_state := Job_Failed, jr_stage := Stage_Idle, jr_errors := errors, jr_finished_at := Some now,
           jr_updated_at := now\<rparr>) = Inr m"
      "update_staging_generation m j Generation_Failed = Inr db'"
      using assms(1) Op_Fail by (auto simp: fail_job_def Let_def and_then_Inr_iff answer_ok split: if_splits)
    show ?thesis using finish_generations [OF m] assms(2) by (auto simp: terminal_state_def)
  next
    case (Op_Recover rep w cutoff now)
    then have "recover_stale_job env db rep w cutoff now = Inr (db', st)" using assms(1) by simp
    from recover_cases [OF this] show ?thesis
      using quiet by (auto simp: same_generations_def)
  qed (use assms(1) quiet in \<open>auto simp: checkpoint_job_def heartbeat_job_def pause_job_def resume_job_def
     transition_state_def request_cancel_def complete_job_def and_then_Inr_iff answer_ok split: if_splits\<close>)
qed

lemma map_filter_same: "map f xs = map f ys \<Longrightarrow> List.map_filter f xs = List.map_filter f ys"
proof -
  have "List.map_filter f zs = List.map_filter (\<lambda>y. y) (map f zs)" for zs
    by (induction zs) (simp_all add: List.map_filter_simps split: option.split)
  then show "map f xs = map f ys \<Longrightarrow> List.map_filter f xs = List.map_filter f ys" by metis
qed

lemma in_map_filter: "x \<in> set xs \<Longrightarrow> f x = Some i \<Longrightarrow> i \<in> set (List.map_filter f xs)"
  by (induction xs) (auto simp: List.map_filter_simps split: option.split)

lemma call_keeps_owned:
  assumes "call_job env db op = Inr (db', st)" "job_constraints (db_jobs db)" "generations_owned db"
  shows "generations_owned db'"
  using call_generations [OF assms(1,2)]
proof (elim disjE exE conjE)
  fix row gen
  assume new: "db_jobs db' = db_jobs db @ [row]" "db_generations db' = db_generations db @ [gen]"
    "jr_generation_id row = Some (gr_generation_id gen)" "generation_constraints (db_generations db')"
  have "gr_generation_id gen \<notin> gr_generation_id ` set (db_generations db)"
    using new(2,4) by (simp add: generation_constraints_def)
  then show ?thesis
    using assms(3) new(1-3) by (auto simp: generations_owned_def List.map_filter_def)
next
  assume "same_generations db db'"
  then have "List.map_filter jr_generation_id (db_jobs db') = List.map_filter jr_generation_id (db_jobs db)"
    "gr_generation_id ` set (db_generations db') = gr_generation_id ` set (db_generations db)"
    unfolding same_generations_def using map_filter_same by (blast, metis list.set_map)
  then show ?thesis using assms(3) by (simp add: generations_owned_def)
qed

lemma apply_keeps_owned: "job_constraints (db_jobs db) \<Longrightarrow> generations_owned db \<Longrightarrow> generations_owned (apply_job env db op)"
  using call_keeps_owned [of env db op] by (auto simp: apply_job_def split: sum.splits)

lemma one_job_per_generation:
  assumes "generations_owned db" "r \<in> set (db_jobs db)" "s \<in> set (db_jobs db)"
    "jr_generation_id r = Some i" "jr_generation_id s = Some i"
  shows "r = s"
proof -
  have "distinct (List.map_filter f xs) \<Longrightarrow> x \<in> set xs \<Longrightarrow> y \<in> set xs \<Longrightarrow> f x = Some i \<Longrightarrow> f y = Some i \<Longrightarrow> x = y"
    for f :: "job_row \<Rightarrow> string option" and xs x y
    by (induction xs) (auto simp: List.map_filter_simps dest: in_map_filter split: option.splits)
  then show ?thesis using assms unfolding generations_owned_def by blast
qed

lemma row_end_unique:
  assumes "job_db_ok db" "r \<in> set (db_jobs db)" "r' \<in> set (db_jobs (foldl (apply_job env) db ops))" "jr_job_id r' = jr_job_id r"
  shows "row_history r r'"
proof -
  obtain x where x: "x \<in> set (db_jobs (foldl (apply_job env) db ops))" "row_history r x"
    using history_row [OF assms(1,2)] by blast
  have "job_constraints (db_jobs (foldl (apply_job env) db ops))"
    using history_ok [OF assms(1)] by (simp add: job_db_ok_def)
  then have "x = r'" using unique_job x assms(3,4) by (metis row_history_def)
  then show ?thesis using x(2) by simp
qed

text \<open>The generation of a job keeps its row as long as the job is not at its end, whatever happens to other jobs.\<close>

lemma history_keeps_generation:
  assumes "job_db_ok db" "generations_owned db" "r \<in> set (db_jobs db)" "jr_generation_id r = Some (gr_generation_id g)"
    "g \<in> set (db_generations db)" "r' \<in> set (db_jobs (foldl (apply_job env) db ops))" "jr_job_id r' = jr_job_id r"
    "\<not> terminal_state (jr_state r')"
  shows "g \<in> set (db_generations (foldl (apply_job env) db ops))"
  using assms
proof (induction ops arbitrary: db r)
  case Nil
  then show ?case by simp
next
  case (Cons op ops)
  let ?db = "apply_job env db op"
  have ok: "job_db_ok ?db" and own: "generations_owned ?db"
    using apply_job_ok [OF Cons.prems(1)] apply_keeps_owned [OF _ Cons.prems(2)] Cons.prems(1) by (auto simp: job_db_ok_def)
  obtain s where s: "s \<in> set (db_jobs ?db)" "row_step r s"
    using effect_row [OF apply_job_effect [OF Cons.prems(1)] Cons.prems(3)] by auto
  then have keys: "jr_job_id s = jr_job_id r" "jr_generation_id s = Some (gr_generation_id g)"
    using Cons.prems(4) by (auto simp: row_step_def)
  have "row_history s r'"
    by (rule row_end_unique [OF ok s(1)]) (use Cons.prems(6,7) keys in simp_all)
  then have alive: "\<not> terminal_state (jr_state s)" using Cons.prems(8) by (auto simp: row_history_def)
  have "g \<in> set (db_generations ?db)"
  proof (cases "call_job env db op")
    case (Inl e)
    then show ?thesis using Cons.prems(5) by (simp add: apply_job_def)
  next
    case (Inr a)
    then obtain db' st where call: "call_job env db op = Inr (db', st)" by (cases a) auto
    have db': "?db = db'" by (simp add: apply_job_def call)
    have c: "job_constraints (db_jobs db)" using Cons.prems(1) by (simp add: job_db_ok_def)
    from call_generations [OF call c] show ?thesis
    proof (elim disjE exE conjE)
      fix row gen
      assume "db_generations db' = db_generations db @ [gen]"
      then show ?thesis using Cons.prems(5) by (simp add: db')
    next
      assume lost: "\<forall>g\<in>set (db_generations db). g \<notin> set (db_generations db') \<longrightarrow>
         (\<exists>r\<in>set (db_jobs db'). terminal_state (jr_state r) \<and> jr_generation_id r = Some (gr_generation_id g))"
      show ?thesis
      proof (rule ccontr)
        assume "g \<notin> set (db_generations ?db)"
        then obtain x where x: "x \<in> set (db_jobs db')" "terminal_state (jr_state x)" "jr_generation_id x = Some (gr_generation_id g)"
          using lost Cons.prems(5) by (auto simp: db')
        have "x = s"
          by (rule one_job_per_generation [OF own [unfolded db'] x(1) s(1) [unfolded db'] x(3) keys(2)])
        then show False using x(2) alive by simp
      qed
    qed
  qed
  then show ?case
    using Cons.IH [OF ok own s(1) keys(2)] Cons.prems(6-8) keys(1) by simp
qed

lemma cancelling_until_end:
  assumes "row_history r r'" "jr_state r = Job_Cancelling" "\<not> terminal_state (jr_state r')"
  shows "jr_state r' = Job_Cancelling"
proof -
  have "lease_step\<^sup>*\<^sup>* Job_Cancelling s \<Longrightarrow> s = Job_Cancelling \<or> terminal_state s" for s
    by (induction rule: rtranclp_induct)
      (auto simp: terminal_state_def lease_step_from_cancelling dest: lease_step_terminal)
  then show ?thesis using assms by (auto simp: row_history_def)
qed

lemma finish_cancelled:
  assumes ok: "job_db_ok db" and r: "r \<in> set (db_jobs db)" "jr_state r = Job_Cancelling"
    and actor: "validate_actor env (jr_job_id r) (jr_owner_id r) t = Inr ()" and later: "not_before env t (jr_updated_at r)"
    and g: "g \<in> set (db_generations db)" "jr_generation_id r = Some (gr_generation_id g)"
    and status: "gr_status g = Generation_Staging \<or> gr_status g = Generation_Ready \<and>
      (\<exists>p\<in>set (db_repositories db). rr_repository_id p = jr_repository_id r \<and> rr_ready_generation_id p = Some (gr_generation_id g))"
  shows "\<exists>db' st'. acknowledge_cancel env db (jr_job_id r) (jr_owner_id r) t = Inr (db', st') \<and>
    js_state st' = Job_Cancelled \<and> js_stage st' = Stage_Idle \<and>
    (if gr_status g = Generation_Ready then g \<in> set (db_generations db')
     else g\<lparr>gr_status := Generation_Cancelled\<rparr> \<in> set (db_generations db'))"
proof -
  have c: "job_constraints (db_jobs db)" "generation_constraints (db_generations db)"
    using ok by (simp_all add: job_db_ok_def)
  let ?q = "\<lambda>x. jr_job_id x = jr_job_id r \<and> jr_owner_id x = jr_owner_id r \<and> jr_state x = Job_Cancelling \<and>
            not_before env t (jr_updated_at x)"
  let ?f = "\<lambda>x. x\<lparr>jr_state := Job_Cancelled, jr_stage := Stage_Idle, jr_finished_at := Some t, jr_updated_at := t\<rparr>"
  define m where "m = db\<lparr>db_jobs := map (\<lambda>x. if ?q x then ?f x else x) (db_jobs db)\<rparr>"
  have units: "case jr_total_units (?f r) of None \<Rightarrow> True | Some n \<Rightarrow> jr_completed_units (?f r) \<le> n"
    using r(1) c(1) by (auto simp: job_constraints_def list_all_iff split: option.splits)
  have m: "cas_jobs db ''cancelled'' (jr_job_id r) ?q ?f = Inr m \<and> ?f r \<in> set (db_jobs m)"
    using cas_accepted [where p = ?q and f = ?f and r = r and a = "''cancelled''" and j = "jr_job_id r", OF c(1) r(1)]
      r later units by (auto simp: m_def active_state_def)
  then have mc: "job_constraints (db_jobs m)" by (auto simp: cas_jobs_ok)
  have mg: "db_generations m = db_generations db" "db_repositories m = db_repositories db" by (simp_all add: m_def)
  have "\<exists>db'. update_staging_generation m (jr_job_id (?f r)) Generation_Cancelled = Inr db' \<and> db_jobs db' = db_jobs m \<and>
      (if gr_status g = Generation_Ready then g \<in> set (db_generations db')
       else g\<lparr>gr_status := Generation_Cancelled\<rparr> \<in> set (db_generations db'))"
  proof (cases "gr_status g = Generation_Staging")
    case True
    then show ?thesis
      using retire_staging [OF mc, of "?f r" g Generation_Cancelled] m c(2) g mg by auto
  next
    case False
    then have ready: "gr_status g = Generation_Ready" using status by blast
    have owned: "owned_generation m (jr_job_id (?f r)) = Some (gr_generation_id g)"
      using found_job [OF mc conjunct2 [OF m]] g(2) by (simp add: owned_generation_def option_then_def)
    have only: "x = g" if "x \<in> set (db_generations db)" "gr_generation_id x = gr_generation_id g" for x
      using c(2) that g(1) by (auto simp: generation_constraints_def distinct_map dest: inj_onD)
    let ?p = "\<lambda>x. Some (gr_generation_id x) = owned_generation m (jr_job_id (?f r)) \<and> gr_status x = Generation_Staging"
    have none: "\<not> ?p x" if "x \<in> set (db_generations m)" for x
      using only [of x] that ready unfolding owned mg by auto
    then have same: "map (\<lambda>x. if ?p x then x\<lparr>gr_status := Generation_Cancelled\<rparr> else x) (db_generations m) = db_generations m"
      by (intro map_idI) simp
    have "published_ready m (jr_job_id (?f r))"
      unfolding published_ready_def mg list_ex_iff
      by (rule bexI [of _ "?f r"], intro conjI bexI [of _ g]) (use m ready g status False in simp_all)
    moreover have "generation_constraints (db_generations m)" using c(2) by (simp add: mg)
    ultimately have "update_staging_generation m (jr_job_id (?f r)) Generation_Cancelled = Inr m"
      using none same by (auto simp: update_staging_generation_def update_generations_def update_rows_def and_then_def filter_empty_conv)
    then show ?thesis using ready g(1) mg by auto
  qed
  then obtain db2 where db2: "update_staging_generation m (jr_job_id (?f r)) Generation_Cancelled = Inr db2"
    "db_jobs db2 = db_jobs m" "if gr_status g = Generation_Ready then g \<in> set (db_generations db2)
       else g\<lparr>gr_status := Generation_Cancelled\<rparr> \<in> set (db_generations db2)" by blast
  obtain st2 where st2: "answer db2 (jr_job_id (?f r)) = Inr (db2, st2)" "js_state st2 = Job_Cancelled" "js_stage st2 = Stage_Idle"
    using answer_found [of db2 "?f r"] m mc db2(2) by auto
  have "acknowledge_cancel env db (jr_job_id r) (jr_owner_id r) t = Inr (db2, st2)"
    using m db2(1) st2(1) actor by (simp add: acknowledge_cancel_def finish_job_def)
  then show ?thesis using st2 db2(3) by blast
qed

text \<open>C13. Cancellation always gets through: after an accepted request to cancel, and any history of calls by any
  workers that has not ended the job, the worker that holds the job by then can acknowledge the cancellation at
  any later readable time. The job ends cancelled and idle; its generation is cancelled when it was staging, and
  is kept when it was already published, which is when the repository names it as its ready generation.\<close>

theorem cancel_is_acknowledged:
  assumes "job_db_ok db" "generations_owned db"
    and "request_cancel env db j w t1 = Inr (db1, st1)"
    and "g \<in> set (db_generations db)" "js_generation_id st1 = Some (gr_generation_id g)"
    and "gr_status g = Generation_Ready \<Longrightarrow> \<exists>p\<in>set (db_repositories db).
      js_repository_id st1 = Some (rr_repository_id p) \<and> rr_ready_generation_id p = Some (gr_generation_id g)"
    and "r \<in> set (db_jobs (foldl (apply_job env) db1 ops))" "jr_job_id r = j" "\<not> terminal_state (jr_state r)"
    and "validate_actor env j (jr_owner_id r) t2 = Inr ()" "not_before env t2 (jr_updated_at r)"
  shows "\<exists>db2 st2. acknowledge_cancel env (foldl (apply_job env) db1 ops) j (jr_owner_id r) t2 = Inr (db2, st2) \<and>
    js_state st2 = Job_Cancelled \<and> js_stage st2 = Stage_Idle \<and>
    (if gr_status g = Generation_Ready then g \<in> set (db_generations db2)
     else g\<lparr>gr_status := Generation_Cancelled\<rparr> \<in> set (db_generations db2))"
proof -
  have c: "job_constraints (db_jobs db)" "generation_constraints (db_generations db)"
    using assms(1) by (simp_all add: job_db_ok_def)
  have db1: "db1 = apply_job env db (Op_RequestCancel j w t1)" using assms(3) by (simp add: apply_job_def)
  have ok1: "job_db_ok db1" "generations_owned db1"
    unfolding db1 using apply_job_ok [OF assms(1)] apply_keeps_owned [OF c(1) assms(2)] by auto
  let ?p = "\<lambda>r. jr_job_id r = j \<and> jr_owner_id r = w \<and>
            jr_state r \<in> {Job_Running, Job_Paused} \<and> not_before env t1 (jr_updated_at r) \<and>
            list_ex (\<lambda>g. Some (gr_generation_id g) = jr_generation_id r \<and>
                (gr_status g = Generation_Staging \<or> (jr_stage r = Stage_Cleanup \<and> gr_status g = Generation_Ready)))
              (db_generations db)"
  have cas: "cas_jobs db ''cancel'' j ?p
       (\<lambda>r. r\<lparr>jr_state := Job_Cancelling, jr_cancellation_requested := True, jr_updated_at := t1\<rparr>) = Inr db1"
    and st1: "load_job db1 j = Inr st1"
    using assms(3) by (auto simp: request_cancel_def and_then_Inr_iff answer_ok)
  obtain x0 where x0: "?p x0" "x0\<lparr>jr_state := Job_Cancelling, jr_cancellation_requested := True, jr_updated_at := t1\<rparr> \<in> set (db_jobs db1)"
    and rest: "db_generations db1 = db_generations db" "db_repositories db1 = db_repositories db"
    using cas_effect_row [OF c(1) cas] by auto
  define x where "x = x0\<lparr>jr_state := Job_Cancelling, jr_cancellation_requested := True, jr_updated_at := t1\<rparr>"
  have x: "x \<in> set (db_jobs db1)" "jr_job_id x = j" "jr_state x = Job_Cancelling"
    using x0 by (simp_all add: x_def)
  have found: "find_job db1 j = Some x" using found_job [OF _ x(1)] ok1(1) x(2) by (simp add: job_db_ok_def)
  have gen: "jr_generation_id x = Some (gr_generation_id g)" and repo: "js_repository_id st1 = Some (jr_repository_id x)"
    using st1 found assms(5) by (auto simp: load_job_def and_then_Inr_iff)
  have "gr_status g = Generation_Staging \<or> gr_status g = Generation_Ready"
  proof -
    obtain g' where g': "g' \<in> set (db_generations db)" "Some (gr_generation_id g') = jr_generation_id x0"
      "gr_status g' = Generation_Staging \<or> gr_status g' = Generation_Ready"
      using x0(1) by (auto simp: list_ex_iff)
    have "g' = g"
    proof (rule inj_onD [of gr_generation_id "set (db_generations db)"])
      show "inj_on gr_generation_id (set (db_generations db))"
        using c(2) by (simp add: generation_constraints_def distinct_map)
      show "gr_generation_id g' = gr_generation_id g" using g'(2) gen by (simp add: x_def)
    qed (use g'(1) assms(4) in auto)
    then show ?thesis using g'(3) by simp
  qed
  then have status: "gr_status g = Generation_Staging \<or> gr_status g = Generation_Ready \<and>
      (\<exists>p\<in>set (db_repositories db). rr_repository_id p = jr_repository_id x \<and> rr_ready_generation_id p = Some (gr_generation_id g))"
    using assms(6) repo by (metis option.inject)
  have hist: "row_history x r" by (rule row_end_unique [OF ok1(1) x(1) assms(7)]) (simp add: assms(8) x(2))
  then have r: "jr_state r = Job_Cancelling" "jr_generation_id r = Some (gr_generation_id g)" "jr_repository_id r = jr_repository_id x"
    using cancelling_until_end [OF hist x(3) assms(9)] gen by (auto simp: row_history_def)
  have kept: "g \<in> set (db_generations (foldl (apply_job env) db1 ops))"
    by (rule history_keeps_generation [OF ok1 x(1) gen _ assms(7) _ assms(9)])
      (use assms(4,8) rest x(2) in simp_all)
  have "\<exists>db2 st2. acknowledge_cancel env (foldl (apply_job env) db1 ops) (jr_job_id r) (jr_owner_id r) t2 = Inr (db2, st2) \<and>
    js_state st2 = Job_Cancelled \<and> js_stage st2 = Stage_Idle \<and>
    (if gr_status g = Generation_Ready then g \<in> set (db_generations db2)
     else g\<lparr>gr_status := Generation_Cancelled\<rparr> \<in> set (db_generations db2))"
    by (rule finish_cancelled [OF history_ok [OF ok1(1)] assms(7) r(1) _ assms(11) kept r(2)])
      (use assms(8,10) status r(3) rest history_repositories [OF ok1(1)] in simp_all)
  then show ?thesis by (simp add: assms(8))
qed

section \<open>Witnesses\<close>

text \<open>An environment in which a time stamp is as late as it is long.\<close>

definition demo_env :: job_env where
  "demo_env = \<lparr>en_julianday = (\<lambda>s. Some (int (length s))), en_rfc3339 = (\<lambda>s. Some (int (length s))),
     en_checkpoint_json = (\<lambda>_. ''{}''), en_errors_json = (\<lambda>_. ''[]'')\<rparr>"

definition demo_identity :: ArchaeologyGenerationIdentity where
  "demo_identity = \<lparr>gy_revision_sha = replicate 40 (CHR ''a''), gy_source = ''s'', gy_parser = ''p'',
     gy_algorithm = ''a'', gy_config = ''c''\<rparr>"

definition demo_generation :: "string \<Rightarrow> generation_status \<Rightarrow> generation_row" where
  "demo_generation i s = \<lparr>gr_generation_id = i, gr_repository_id = ''r'',
     gr_schema_version = ARCHAEOLOGY_STORAGE_SCHEMA_VERSION, gr_identity = demo_identity,
     gr_status = s, gr_created_at = ''t''\<rparr>"

definition demo_job :: job_row where
  "demo_job = \<lparr>jr_job_id = ''j'', jr_repository_id = ''r'', jr_generation_id = Some ''g'',
     jr_owner_id = ''w'', jr_stage = Stage_Parse, jr_state = Job_Running,
     jr_checkpoint_identity = None, jr_checkpoint = empty_checkpoint, jr_completed_units = 2,
     jr_total_units = Some 5, jr_cancellation_requested = False, jr_errors = [],
     jr_started_at = Some ''t'', jr_updated_at = ''tt'', jr_finished_at = None\<rparr>"

definition demo_db :: "generation_status \<Rightarrow> job_db" where
  "demo_db s = \<lparr>db_repositories = [\<lparr>rr_repository_id = ''r'', rr_ready_generation_id = None\<rparr>],
     db_generations = [demo_generation ''g'' s], db_jobs = [demo_job]\<rparr>"

lemmas demo_defs = demo_env_def demo_identity_def demo_generation_def demo_job_def demo_db_def

lemma demo_db_ok: "job_db_ok (demo_db s)"
  by (simp add: demo_defs job_db_ok_def job_constraints_def generation_constraints_def row_ok_def
      terminal_state_def MAX_ERRORS_def)

lemma job_history_invariant_witness:
  "job_db_ok (foldl (apply_job demo_env) (demo_db Generation_Staging)
     [Op_Pause ''j'' ''w'' ''ttt'', Op_Recover ''r'' ''v'' ''tttt'' ''ttttt'']) \<and>
   length (filter (\<lambda>r. jr_repository_id r = ''r'' \<and> active_state (jr_state r))
     (db_jobs (foldl (apply_job demo_env) (demo_db Generation_Staging)
       [Op_Pause ''j'' ''w'' ''ttt'', Op_Recover ''r'' ''v'' ''tttt'' ''ttttt'']))) \<le> 1"
  by (rule job_history_invariant [OF demo_db_ok])

lemma job_history_refines_lease_witness:
  "\<exists>r'\<in>set (db_jobs (foldl (apply_job demo_env) (demo_db Generation_Staging)
      [Op_Pause ''j'' ''w'' ''ttt'', Op_Resume ''j'' ''w'' ''tttt''])). row_history demo_job r' \<and>
    (\<forall>r''\<in>set (db_jobs (foldl (apply_job demo_env) (demo_db Generation_Staging)
      [Op_Pause ''j'' ''w'' ''ttt'', Op_Resume ''j'' ''w'' ''tttt''])).
       jr_job_id r'' = jr_job_id demo_job \<longrightarrow> r'' = r')"
  by (rule job_history_refines_lease [OF demo_db_ok]) (simp add: demo_db_def)

lemma ready_generations_survive_witness:
  "demo_generation ''g'' Generation_Ready \<in> set (db_generations
     (foldl (apply_job demo_env) (demo_db Generation_Ready) [Op_Fail ''j'' ''w'' Code_Internal ''ttt''])) \<and>
   db_repositories (foldl (apply_job demo_env) (demo_db Generation_Ready) [Op_Fail ''j'' ''w'' Code_Internal ''ttt''])
     = db_repositories (demo_db Generation_Ready)"
  by (rule ready_generations_survive [OF demo_db_ok]) (simp_all add: demo_db_def demo_generation_def)

lemmas demo_call =
  and_then_def validate_job_id_def validate_timestamp_def validate_actor_def answer_def load_job_def find_job_def
  cas_jobs_def update_jobs_def update_rows_def require_cas_def job_constraints_def active_state_def
  MAX_ID_BYTES_def not_before_def

lemma demo_recover:
  "\<exists>db' st. recover_stale_job demo_env (demo_db Generation_Staging) ''r'' ''v'' ''ttt'' ''tttt'' = Inr (db', st) \<and>
     js_job_id st = Some ''j''"
  by (simp add: recover_stale_job_def demo_defs demo_call)

lemma recovered_job_is_fenced_witness:
  "\<exists>db'. (\<exists>e. call_job demo_env (foldl (apply_job demo_env) db' [Op_Resume ''j'' ''v'' ''ttttt''])
       (Op_Heartbeat ''j'' ''w'' ''tttttt'') = Inl e) \<and>
     apply_job demo_env (foldl (apply_job demo_env) db' [Op_Resume ''j'' ''v'' ''ttttt''])
       (Op_Heartbeat ''j'' ''w'' ''tttttt'') = foldl (apply_job demo_env) db' [Op_Resume ''j'' ''v'' ''ttttt'']"
proof -
  obtain db' st where r: "recover_stale_job demo_env (demo_db Generation_Staging) ''r'' ''v'' ''ttt'' ''tttt'' = Inr (db', st)"
    "js_job_id st = Some ''j''"
    using demo_recover by blast
  show ?thesis
    by (intro exI [of _ db'], rule recovered_job_is_fenced [where stale = "''w''", OF demo_db_ok r(1) _ r(2)])
      simp_all
qed

lemma demo_token: "validate_persisted_token ''checkpoint'' ''k'' MAX_ID_BYTES = Inr ()"
  by (simp add: validate_persisted_token_def MAX_ID_BYTES_def token_byte_def secret_eval char_of_eq_iff)

lemma checkpoint_accepted_iff_witness:
  "\<exists>a. checkpoint_job demo_env (demo_db Generation_Staging) ''j'' ''w'' Stage_Parse Stage_Link ''k''
     empty_checkpoint 3 None ''ttt'' = Inr a"
  unfolding checkpoint_accepted_iff [OF demo_db_ok]
  by (simp add: demo_token [unfolded MAX_ID_BYTES_def] demo_defs demo_call empty_checkpoint_def validate_checkpoint_def
      MAX_CHECKPOINT_COUNTERS_def MAX_CHECKPOINT_BYTES_def)

definition demo_published :: job_db where
  "demo_published = \<lparr>db_repositories = [\<lparr>rr_repository_id = ''r'', rr_ready_generation_id = Some ''g''\<rparr>],
     db_generations = [demo_generation ''g'' Generation_Ready], db_jobs = [demo_job\<lparr>jr_stage := Stage_Cleanup\<rparr>]\<rparr>"

definition demo_cancelled :: "ArchaeologyJobStage \<Rightarrow> string \<Rightarrow> string \<Rightarrow> job_row" where
  "demo_cancelled stage w t = demo_job\<lparr>jr_stage := stage, jr_owner_id := w, jr_state := Job_Cancelling,
     jr_cancellation_requested := True, jr_updated_at := t\<rparr>"

lemma demo_published_ok: "job_db_ok demo_published" "generations_owned demo_published" "generations_owned (demo_db s)"
  by (simp_all add: demo_defs demo_published_def job_db_ok_def job_constraints_def generation_constraints_def row_ok_def
      terminal_state_def MAX_ERRORS_def generations_owned_def List.map_filter_simps)

lemma cancel_is_acknowledged_witness:
  "(\<exists>db1 st1 db2 st2. request_cancel demo_env (demo_db Generation_Staging) ''j'' ''w'' ''ttt'' = Inr (db1, st1) \<and>
     acknowledge_cancel demo_env (foldl (apply_job demo_env) db1
       [Op_Heartbeat ''j'' ''w'' ''tttt'', Op_Recover ''r'' ''v'' ''ttttt'' ''tttttt'']) ''j'' ''v'' ''ttttttt'' = Inr (db2, st2) \<and>
     js_state st2 = Job_Cancelled) \<and>
   (\<exists>db1 st1 db2 st2. request_cancel demo_env demo_published ''j'' ''w'' ''ttt'' = Inr (db1, st1) \<and>
     acknowledge_cancel demo_env (foldl (apply_job demo_env) db1 []) ''j'' ''w'' ''tttt'' = Inr (db2, st2) \<and>
     js_state st2 = Job_Cancelled \<and> demo_generation ''g'' Generation_Ready \<in> set (db_generations db2))"
proof
  obtain db1 st1 where c: "request_cancel demo_env (demo_db Generation_Staging) ''j'' ''w'' ''ttt'' = Inr (db1, st1)"
    "js_generation_id st1 = Some ''g''" and db1: "db1 = demo_db Generation_Staging\<lparr>db_jobs := [demo_cancelled Stage_Parse ''w'' ''ttt'']\<rparr>"
    by (simp add: request_cancel_def demo_defs demo_call demo_cancelled_def)
  have row: "demo_cancelled Stage_Parse ''v'' ''tttttt'' \<in> set (db_jobs (foldl (apply_job demo_env) db1
       [Op_Heartbeat ''j'' ''w'' ''tttt'', Op_Recover ''r'' ''v'' ''ttttt'' ''tttttt'']))"
    by (simp add: db1 apply_job_def heartbeat_job_def recover_stale_job_def demo_defs demo_call demo_cancelled_def)
  have "validate_actor demo_env ''j'' (jr_owner_id (demo_cancelled Stage_Parse ''v'' ''tttttt'')) ''ttttttt'' = Inr ()"
    by (simp add: demo_cancelled_def demo_defs demo_call)
  from cancel_is_acknowledged [OF demo_db_ok demo_published_ok(3) c(1) _ _ _ row _ _ this, of "demo_generation ''g'' Generation_Staging"]
  have "\<exists>db2 st2. acknowledge_cancel demo_env (foldl (apply_job demo_env) db1
       [Op_Heartbeat ''j'' ''w'' ''tttt'', Op_Recover ''r'' ''v'' ''ttttt'' ''tttttt'']) ''j'' ''v'' ''ttttttt'' = Inr (db2, st2) \<and>
     js_state st2 = Job_Cancelled"
    using c(2) by (auto simp add: demo_cancelled_def demo_defs not_before_def terminal_state_def)
  then show "\<exists>db1 st1 db2 st2. request_cancel demo_env (demo_db Generation_Staging) ''j'' ''w'' ''ttt'' = Inr (db1, st1) \<and>
     acknowledge_cancel demo_env (foldl (apply_job demo_env) db1
       [Op_Heartbeat ''j'' ''w'' ''tttt'', Op_Recover ''r'' ''v'' ''ttttt'' ''tttttt'']) ''j'' ''v'' ''ttttttt'' = Inr (db2, st2) \<and>
     js_state st2 = Job_Cancelled"
    using c(1) by blast
  obtain db1 st1 where p: "request_cancel demo_env demo_published ''j'' ''w'' ''ttt'' = Inr (db1, st1)"
    "js_generation_id st1 = Some ''g''" "js_repository_id st1 = Some ''r''"
    and db1: "db1 = demo_published\<lparr>db_jobs := [demo_cancelled Stage_Cleanup ''w'' ''ttt'']\<rparr>"
    by (simp add: request_cancel_def demo_published_def demo_defs demo_call demo_cancelled_def)
  have row: "demo_cancelled Stage_Cleanup ''w'' ''ttt'' \<in> set (db_jobs (foldl (apply_job demo_env) db1 []))"
    by (simp add: db1)
  have "validate_actor demo_env ''j'' (jr_owner_id (demo_cancelled Stage_Cleanup ''w'' ''ttt'')) ''tttt'' = Inr ()"
    by (simp add: demo_cancelled_def demo_defs demo_call)
  from cancel_is_acknowledged [OF demo_published_ok(1,2) p(1) _ _ _ row _ _ this, of "demo_generation ''g'' Generation_Ready"]
  have "\<exists>db2 st2. acknowledge_cancel demo_env (foldl (apply_job demo_env) db1 []) ''j'' ''w'' ''tttt'' = Inr (db2, st2) \<and>
     js_state st2 = Job_Cancelled \<and> demo_generation ''g'' Generation_Ready \<in> set (db_generations db2)"
    using p(2,3) by (auto simp add: demo_published_def demo_cancelled_def demo_defs not_before_def terminal_state_def)
  then show "\<exists>db1 st1 db2 st2. request_cancel demo_env demo_published ''j'' ''w'' ''ttt'' = Inr (db1, st1) \<and>
     acknowledge_cancel demo_env (foldl (apply_job demo_env) db1 []) ''j'' ''w'' ''tttt'' = Inr (db2, st2) \<and>
     js_state st2 = Job_Cancelled \<and> demo_generation ''g'' Generation_Ready \<in> set (db_generations db2)"
    using p(1) by blast
qed

end
