(* ===== verification/Structural_Graph.thy ===== *)
theory Structural_Graph
  imports Rust_Text "HOL-Library.Word"
begin

text \<open>
  The data of the structural graph (\<open>commands/structural_graph/types.rs\<close>): nodes and edges with
  their trust and origin, coverage, and the snapshot the queries read. A line or column number is a
  32-bit word, a count is a natural number, and a stored \<open>f64\<close> is its bit pattern, which no
  operation of the model reads. Trust and origin are stored as text; the names and their readers
  are modelled, and the identifier hash is the 64-bit FNV-1a of the code, with its wrap-around.
\<close>

unbundle bit_operations_syntax

type_synonym f64 = "64 word"

section \<open>Trust and origin\<close>

datatype GraphTrust = Trust_Extracted | Trust_Inferred | Trust_Ambiguous | Trust_Legacy

fun trust_as_str :: "GraphTrust \<Rightarrow> string" where
  "trust_as_str Trust_Extracted = ''extracted''"
| "trust_as_str Trust_Inferred = ''inferred''"
| "trust_as_str Trust_Ambiguous = ''ambiguous''"
| "trust_as_str Trust_Legacy = ''legacy''"

definition trust_from_storage :: "string \<Rightarrow> GraphTrust" where
  "trust_from_storage value =
     (if value = ''extracted'' then Trust_Extracted
      else if value = ''inferred'' then Trust_Inferred
      else if value = ''ambiguous'' then Trust_Ambiguous
      else Trust_Legacy)"

datatype GraphOrigin =
  Origin_Syntax | Origin_Resolution | Origin_Analysis | Origin_Metadata | Origin_Extracted
| Origin_Deterministic | Origin_ModelSynthesized | Origin_HumanConfirmed | Origin_ImportedNodeLink
| Origin_UserAnnotation | Origin_LegacyMetadata

fun origin_as_str :: "GraphOrigin \<Rightarrow> string" where
  "origin_as_str Origin_Syntax = ''syntax''"
| "origin_as_str Origin_Resolution = ''resolution''"
| "origin_as_str Origin_Analysis = ''analysis''"
| "origin_as_str Origin_Metadata = ''metadata''"
| "origin_as_str Origin_Extracted = ''extracted''"
| "origin_as_str Origin_Deterministic = ''deterministic''"
| "origin_as_str Origin_ModelSynthesized = ''model_synthesized''"
| "origin_as_str Origin_HumanConfirmed = ''human_confirmed''"
| "origin_as_str Origin_ImportedNodeLink = ''imported_node_link''"
| "origin_as_str Origin_UserAnnotation = ''user_annotation''"
| "origin_as_str Origin_LegacyMetadata = ''legacy_metadata''"

definition origin_from_storage :: "string \<Rightarrow> GraphOrigin" where
  "origin_from_storage value =
     (if value = ''syntax'' then Origin_Syntax
      else if value = ''resolution'' then Origin_Resolution
      else if value = ''analysis'' then Origin_Analysis
      else if value = ''metadata'' then Origin_Metadata
      else if value = ''extracted'' then Origin_Extracted
      else if value = ''deterministic'' then Origin_Deterministic
      else if value = ''model_synthesized'' then Origin_ModelSynthesized
      else if value = ''human_confirmed'' then Origin_HumanConfirmed
      else if value = ''imported_node_link'' then Origin_ImportedNodeLink
      else if value = ''user_annotation'' then Origin_UserAnnotation
      else Origin_LegacyMetadata)"

section \<open>Nodes, edges and snapshots\<close>

record GraphSourceAnchor =
  an_path :: string
  an_start_line :: "32 word option"
  an_start_column :: "32 word option"
  an_end_line :: "32 word option"
  an_end_column :: "32 word option"
  an_excerpt :: "string option"

definition anchor_path :: "string \<Rightarrow> GraphSourceAnchor" where
  "anchor_path p = \<lparr>an_path = p, an_start_line = None, an_start_column = None,
     an_end_line = None, an_end_column = None, an_excerpt = None\<rparr>"

record StructuralGraphNode =
  sn_id :: string
  sn_kind :: string
  sn_label :: string
  sn_qualified_name :: "string option"
  sn_path :: "string option"
  sn_detail :: "string option"
  sn_language :: "string option"
  sn_community_id :: "string option"
  sn_trust :: GraphTrust
  sn_origin :: GraphOrigin
  sn_sources :: "GraphSourceAnchor list"

record StructuralGraphEdge =
  se_id :: string
  se_from :: string
  se_to :: string
  se_kind :: string
  se_evidence :: string
  se_trust :: GraphTrust
  se_origin :: GraphOrigin
  se_sources :: "GraphSourceAnchor list"
  se_candidates :: "string list"

record StructuralGraphCommunity =
  cm_id :: string
  cm_label :: string
  cm_member_count :: nat
  cm_hub_node_ids :: "string list"
  cm_bridge_node_ids :: "string list"
  cm_score :: f64

record LanguageCoverage =
  lc_language :: string
  lc_supported :: bool
  lc_discovered_files :: nat
  lc_indexed_files :: nat
  lc_skipped_files :: nat
  lc_error_files :: nat

record StructuralGraphCoverage =
  sc_discovered_files :: nat
  sc_indexed_files :: nat
  sc_skipped_files :: nat
  sc_error_files :: nat
  sc_generated_files :: nat
  sc_sensitive_files :: nat
  sc_binary_files :: nat
  sc_languages :: "LanguageCoverage list"

record StructuralGraphDiagnostic =
  dg_severity :: string
  dg_code :: string
  dg_message :: string
  dg_path :: "string option"
  dg_language :: "string option"

record StructuralGraphEngineInfo =
  ei_id :: string
  ei_version :: string
  ei_bundled :: bool
  ei_syntax_aware :: bool
  ei_supported_languages :: "string list"

record StructuralGraphFileRecord =
  fr_path :: string
  fr_language :: "string option"
  fr_content_hash :: "string option"
  fr_disposition :: string
  fr_byte_size :: "64 word"
  fr_node_count :: nat
  fr_edge_count :: nat

record StructuralControlFlowFact =
  cf_id :: string
  cf_kind :: string
  cf_parent_id :: "string option"
  cf_nesting :: nat
  cf_source :: GraphSourceAnchor

record StructuralBoundaryFact =
  bf_kind :: string
  bf_target :: string
  bf_source :: GraphSourceAnchor

record StructuralCodeMetrics =
  me_line_count :: nat
  me_statement_count :: nat
  me_parameter_count :: nat
  me_cyclomatic_complexity :: nat
  me_cognitive_complexity :: nat
  me_max_nesting :: nat
  me_fan_in :: nat
  me_fan_out :: nat
  me_cohesion :: "f64 option"

record StructuralGraphMetricFact =
  mf_schema_version :: int
  mf_id :: string
  mf_node_id :: string
  mf_path :: string
  mf_scope_kind :: string
  mf_language :: string
  mf_public_surface :: bool
  mf_public_surface_reason :: "string option"
  mf_syntax_fingerprint :: string
  mf_normalized_token_count :: nat
  mf_normalization_method :: string
  mf_metrics :: StructuralCodeMetrics
  mf_control_flow :: "StructuralControlFlowFact list"
  mf_definitions :: "string list"
  mf_uses :: "string list"
  mf_boundaries :: "StructuralBoundaryFact list"
  mf_sources :: "GraphSourceAnchor list"
  mf_limitations :: "string list"

record StructuralCloneRegion =
  cr_metric_id :: string
  cr_node_id :: string
  cr_path :: string
  cr_source :: GraphSourceAnchor

record StructuralCloneGroup =
  cg_id :: string
  cg_syntax_fingerprint :: string
  cg_normalization_method :: string
  cg_normalized_token_count :: nat
  cg_similarity :: f64
  cg_regions :: "StructuralCloneRegion list"
  cg_exclusions :: "string list"

record StructuralGraphSnapshot =
  ss_schema_version :: int
  ss_id :: string
  ss_repo_path :: string
  ss_repo_head :: "string option"
  ss_created_at :: string
  ss_engine :: StructuralGraphEngineInfo
  ss_cursor :: "string option"
  ss_ignore_fingerprint :: "string option"
  ss_coverage :: StructuralGraphCoverage
  ss_diagnostics :: "StructuralGraphDiagnostic list"
  ss_communities :: "StructuralGraphCommunity list"
  ss_files :: "StructuralGraphFileRecord list"
  ss_nodes :: "StructuralGraphNode list"
  ss_edges :: "StructuralGraphEdge list"
  ss_metrics :: "StructuralGraphMetricFact list"
  ss_clone_groups :: "StructuralCloneGroup list"
  ss_truncated :: bool

section \<open>Stable identifiers\<close>

definition FNV_OFFSET :: "64 word" where "FNV_OFFSET = 0xcbf29ce484222325"

definition FNV_PRIME :: "64 word" where "FNV_PRIME = 0x100000001b3"

definition fnv_byte :: "64 word \<Rightarrow> char \<Rightarrow> 64 word" where
  "fnv_byte hash b = (hash XOR of_nat (byte b)) * FNV_PRIME"

definition fnv_hash :: "string \<Rightarrow> 64 word" where
  "fnv_hash bytes = foldl fnv_byte FNV_OFFSET bytes"

definition hex_char :: "64 word \<Rightarrow> nat \<Rightarrow> char" where
  "hex_char w i = ''0123456789abcdef'' ! unat (drop_bit (4 * i) w AND 0xF)"

text \<open>\<open>{hash:016x}\<close>: sixteen lower-case hexadecimal digits, most significant first.\<close>

definition hex16 :: "64 word \<Rightarrow> string" where
  "hex16 w = map (hex_char w) (rev [0..<16])"

definition stable_graph_id :: "string \<Rightarrow> string \<Rightarrow> string" where
  "stable_graph_id kind identity =
     kind @ '':'' @ hex16 (fnv_hash (kind @ [CHR 0x00] @ identity))"

definition namespaced_graph_id :: "string \<Rightarrow> string \<Rightarrow> string" where
  "namespaced_graph_id repository_id local_id =
     stable_graph_id ''workspace-node'' (repository_id @ [CHR 0x00] @ local_id)"

section \<open>Stable identifiers do not collide in one byte\<close>

text \<open>The multiplier of the hash is odd, so a step of the hash can be undone.\<close>

lemma fnv_prime_inverse: "FNV_PRIME * 0xce965057aff6957b = 1"
  by (simp add: FNV_PRIME_def)

lemma xor_cancel: "(h :: 64 word) XOR w = g XOR w \<longleftrightarrow> h = g"
proof
  assume "h XOR w = g XOR w"
  then have "(h XOR w) XOR w = (g XOR w) XOR w" by (rule arg_cong)
  then show "h = g" by (simp only: xor.assoc xor_self_eq xor.right_neutral)
qed simp

lemma fnv_byte_eq: "fnv_byte h a = fnv_byte g b \<longleftrightarrow> h XOR of_nat (byte a) = g XOR of_nat (byte b)"
proof
  assume "fnv_byte h a = fnv_byte g b"
  then have "(h XOR of_nat (byte a)) * (FNV_PRIME * 0xce965057aff6957b) =
      (g XOR of_nat (byte b)) * (FNV_PRIME * 0xce965057aff6957b)"
    by (simp only: fnv_byte_def mult.assoc [symmetric])
  then show "h XOR of_nat (byte a) = g XOR of_nat (byte b)" by (simp only: fnv_prime_inverse mult_1_right)
qed (simp only: fnv_byte_def)

lemma fnv_run_inj: "foldl fnv_byte h xs = foldl fnv_byte g xs \<longleftrightarrow> h = g"
  by (induction xs arbitrary: h g) (simp_all add: fnv_byte_eq xor_cancel)

lemma fnv_char_inj: "fnv_byte h a = fnv_byte h b \<longleftrightarrow> a = b"
proof -
  have "h XOR of_nat (byte a) = h XOR of_nat (byte b) \<longleftrightarrow> (of_nat (byte a) :: 64 word) = of_nat (byte b)"
    using xor_cancel by (simp only: xor.commute [of h])
  moreover have "byte a < 2 ^ LENGTH(64)" "byte b < 2 ^ LENGTH(64)"
    by (rule less_trans [OF nat_of_char_less_256], simp)+
  ultimately show ?thesis by (metis fnv_byte_eq of_char_eq_iff of_nat_inverse)
qed

lemma hex_digit_inj:
  assumes "i < 16" "j < 16" "''0123456789abcdef'' ! i = ''0123456789abcdef'' ! j"
  shows "i = (j :: nat)"
proof -
  have "distinct ''0123456789abcdef''" by simp
  then show ?thesis using assms by (simp add: nth_eq_iff_index_eq)
qed

lemma hex_char_inj: "hex_char v i = hex_char w i \<longleftrightarrow> drop_bit (4 * i) v AND 0xF = drop_bit (4 * i) w AND 0xF"
proof
  have less: "unat (x AND 0xF) < 16" for x :: "64 word"
  proof -
    have "x AND 0xF \<le> 0xF" by (rule word_and_le1)
    then have "unat (x AND 0xF) \<le> unat (0xF :: 64 word)" by (simp only: word_le_nat_alt)
    then show ?thesis by simp
  qed
  assume "hex_char v i = hex_char w i"
  then have "unat (drop_bit (4 * i) v AND 0xF) = unat (drop_bit (4 * i) w AND 0xF)"
    unfolding hex_char_def by (rule hex_digit_inj [OF less less])
  then show "drop_bit (4 * i) v AND 0xF = drop_bit (4 * i) w AND 0xF" by (simp only: word_unat_eq_iff)
qed (simp add: hex_char_def)

lemma bit_nibble: "m < 4 \<Longrightarrow> bit (0xF :: 64 word) m"
proof -
  assume "m < 4"
  then have "m \<in> {0, 1, 2, 3}" by auto
  then show ?thesis by (auto simp: bit_numeral_rec)
qed

lemma hex16_inj: "hex16 v = hex16 w \<longleftrightarrow> v = w"
proof
  assume eq: "hex16 v = hex16 w"
  have nibble: "drop_bit (4 * i) v AND 0xF = drop_bit (4 * i) w AND 0xF" if "i < 16" for i
    using eq that by (simp add: hex16_def hex_char_inj)
  show "v = w"
  proof (rule bit_word_eqI)
    fix n
    assume n: "n < LENGTH(64)"
    have "n div 4 < 16" using n by simp
    from nibble [OF this]
    have "bit (drop_bit (4 * (n div 4)) v AND 0xF) (n mod 4) = bit (drop_bit (4 * (n div 4)) w AND 0xF) (n mod 4)"
      by simp
    then show "bit v n = bit w n" by (simp add: bit_and_iff bit_drop_bit_eq bit_nibble [of "n mod 4", simplified])
  qed
qed simp

lemma length_hex16: "length (hex16 w) = 16"
  by (simp add: hex16_def)

text \<open>Stable identifiers separate kinds and near identities: two identifiers are equal exactly when
  the kinds and the 64-bit hashes are equal, and two identities that differ in one byte never get
  the same identifier.\<close>

theorem stable_graph_id_separates:
  "(stable_graph_id k i = stable_graph_id k' i' \<longleftrightarrow>
      k = k' \<and> fnv_hash (k @ [CHR 0x00] @ i) = fnv_hash (k' @ [CHR 0x00] @ i')) \<and>
   (stable_graph_id k (pre @ [a] @ post) = stable_graph_id k (pre @ [b] @ post) \<longleftrightarrow> a = b)"
proof
  show "stable_graph_id k i = stable_graph_id k' i' \<longleftrightarrow>
      k = k' \<and> fnv_hash (k @ [CHR 0x00] @ i) = fnv_hash (k' @ [CHR 0x00] @ i')"
  proof
    assume "stable_graph_id k i = stable_graph_id k' i'"
    then have "k @ '':'' @ hex16 (fnv_hash (k @ [CHR 0x00] @ i)) =
        k' @ '':'' @ hex16 (fnv_hash (k' @ [CHR 0x00] @ i'))"
      by (simp only: stable_graph_id_def)
    then have "k = k' \<and> hex16 (fnv_hash (k @ [CHR 0x00] @ i)) = hex16 (fnv_hash (k' @ [CHR 0x00] @ i'))"
      by (auto simp: append_eq_append_conv length_hex16)
    then show "k = k' \<and> fnv_hash (k @ [CHR 0x00] @ i) = fnv_hash (k' @ [CHR 0x00] @ i')"
      unfolding hex16_inj .
  next
    assume "k = k' \<and> fnv_hash (k @ [CHR 0x00] @ i) = fnv_hash (k' @ [CHR 0x00] @ i')"
    then show "stable_graph_id k i = stable_graph_id k' i'"
      unfolding stable_graph_id_def by (elim conjE) (simp only:)
  qed
  show "stable_graph_id k (pre @ [a] @ post) = stable_graph_id k (pre @ [b] @ post) \<longleftrightarrow> a = b"
    by (simp add: stable_graph_id_def hex16_inj fnv_hash_def fnv_run_inj fnv_char_inj)
qed

text \<open>What is stored as text is read back; unknown text reads as legacy.\<close>

lemma trust_from_storage_as_str: "trust_from_storage (trust_as_str t) = t"
  by (cases t) (simp_all add: trust_from_storage_def)

lemma origin_from_storage_as_str: "origin_from_storage (origin_as_str r) = r"
  by (cases r) (simp_all add: origin_from_storage_def)

end
