(* ===== verification/Graph_Query.thy ===== *)
theory Graph_Query
  imports Structural_Graph "HOL-Library.AList"
begin

text \<open>
  Queries on a structural graph snapshot (\<open>commands/structural_graph/query/\<close>): the exact index and
  its process-wide cache, node resolution, explanation, neighbours, the paged overview and community
  projections, the byte limit on responses, and the diff of two snapshots. A hash map that is only
  read by key is a function, a hash set is a list without duplicates whose order is never observed
  (the code sorts what it returns). The record \<open>query_env\<close> holds what comes from libraries: the
  Unicode lower-casing of the standard library and the length of a result in JSON.
\<close>

section \<open>Requests and results\<close>

definition DEFAULT_LIMIT :: nat where "DEFAULT_LIMIT = 50"

definition MAX_LIMIT :: nat where "MAX_LIMIT = 500"

definition MAX_EDGE_LIMIT :: nat where "MAX_EDGE_LIMIT = 2000"

definition MAX_RESPONSE_BYTES :: nat where "MAX_RESPONSE_BYTES = 1024 * 1024"

definition MAX_PATH_HOPS :: nat where "MAX_PATH_HOPS = 32"

definition MAX_DIFF_IDS :: nat where "MAX_DIFF_IDS = 500"

definition MAX_QUERY_INDEXES :: nat where "MAX_QUERY_INDEXES = 16"

datatype GraphDirection = Dir_Incoming | Dir_Outgoing | Dir_Both

record GraphQueryFilter =
  fl_node_kinds :: "string list"
  fl_edge_kinds :: "string list"
  fl_trust :: "GraphTrust list"

record GraphTrustSummary =
  ts_extracted :: nat
  ts_inferred :: nat
  ts_ambiguous :: nat
  ts_legacy :: nat

record GraphFreshness =
  fs_indexed_head :: "string option"
  fs_current_head :: "string option"
  fs_stale :: "bool option"

record GraphQueryContext =
  qc_snapshot_id :: string
  qc_schema_version :: int
  qc_engine_id :: string
  qc_engine_version :: string
  qc_created_at :: string
  qc_freshness :: GraphFreshness
  qc_coverage :: StructuralGraphCoverage
  qc_trust :: GraphTrustSummary
  qc_max_results :: nat
  qc_max_edges :: nat
  qc_max_hops :: nat
  qc_max_bytes :: nat

definition observe_current_head :: "GraphQueryContext \<Rightarrow> string option \<Rightarrow> GraphQueryContext" where
  "observe_current_head c current_head =
     c\<lparr>qc_freshness := (qc_freshness c)\<lparr>
         fs_stale := (case current_head of None \<Rightarrow> None
                      | Some head \<Rightarrow> Some (fs_indexed_head (qc_freshness c) \<noteq> Some head)),
         fs_current_head := current_head\<rparr>\<rparr>"

record GraphSearchHit =
  sh_node :: StructuralGraphNode
  sh_score :: "32 word"
  sh_matched_by :: string

record GraphSearchResult =
  sr_hits :: "GraphSearchHit list"
  sr_truncated :: bool
  sr_next_cursor :: "string option"
  sr_context :: GraphQueryContext

record GraphExplanation =
  ge_node :: StructuralGraphNode
  ge_incoming_count :: nat
  ge_outgoing_count :: nat
  ge_incoming_kinds :: "string list"
  ge_outgoing_kinds :: "string list"
  ge_truncated :: bool
  ge_context :: GraphQueryContext

record GraphProjection =
  gp_nodes :: "StructuralGraphNode list"
  gp_edges :: "StructuralGraphEdge list"
  gp_truncated :: bool
  gp_next_cursor :: "string option"
  gp_context :: GraphQueryContext

record GraphImpactResult =
  gi_root :: StructuralGraphNode
  gi_affected :: "StructuralGraphNode list"
  gi_edges :: "StructuralGraphEdge list"
  gi_depth_reached :: nat
  gi_truncated :: bool
  gi_context :: GraphQueryContext

record GraphSnapshotDiff =
  gd_before_snapshot_id :: string
  gd_after_snapshot_id :: string
  gd_added_node_ids :: "string list"
  gd_removed_node_ids :: "string list"
  gd_changed_node_ids :: "string list"
  gd_added_edge_ids :: "string list"
  gd_removed_edge_ids :: "string list"
  gd_changed_edge_ids :: "string list"
  gd_truncated :: bool
  gd_context :: GraphQueryContext

record query_env =
  qe_lowercase :: "string \<Rightarrow> string"
  qe_projection_bytes :: "GraphProjection \<Rightarrow> nat"
  qe_search_bytes :: "GraphSearchResult \<Rightarrow> nat"
  qe_impact_bytes :: "GraphImpactResult \<Rightarrow> nat"

datatype graph_error =
  ReferenceRequired | ReferenceAmbiguous nat | NoNodeMatches string | CursorInvalid
| NoCommunityMatches string | SeedRequired

section \<open>Limits\<close>

definition bounded_limit :: "nat option \<Rightarrow> nat" where
  "bounded_limit limit = clamp 1 MAX_LIMIT (case limit of None \<Rightarrow> DEFAULT_LIMIT | Some n \<Rightarrow> n)"

definition parse_cursor :: "string option \<Rightarrow> (graph_error, nat) result" where
  "parse_cursor cursor =
     ok_or (parse_usize (case cursor of None \<Rightarrow> ''0'' | Some c \<Rightarrow> c)) CursorInvalid"

definition strip_anchor :: "GraphSourceAnchor \<Rightarrow> GraphSourceAnchor" where
  "strip_anchor a = a\<lparr>an_excerpt := None\<rparr>"

definition strip_node_excerpts :: "StructuralGraphNode \<Rightarrow> StructuralGraphNode" where
  "strip_node_excerpts n = n\<lparr>sn_sources := map strip_anchor (sn_sources n)\<rparr>"

definition strip_edge_excerpts :: "StructuralGraphEdge \<Rightarrow> StructuralGraphEdge" where
  "strip_edge_excerpts e = e\<lparr>se_sources := map strip_anchor (se_sources e)\<rparr>"

text \<open>\<open>Vec::pop\<close> while the result is too long and a list is not empty.\<close>

function shed_edges :: "query_env \<Rightarrow> GraphProjection \<Rightarrow> GraphProjection" where
  "shed_edges env p =
     (if qe_projection_bytes env p > MAX_RESPONSE_BYTES \<and> gp_edges p \<noteq> []
      then shed_edges env (p\<lparr>gp_edges := butlast (gp_edges p)\<rparr>) else p)"
  by pat_completeness auto
termination by (relation "measure (\<lambda>(env, p). length (gp_edges p))") auto

declare shed_edges.simps [simp del]

text \<open>\<open>rposition\<close> and \<open>Vec::remove\<close>: the list without its last element that passes the test.\<close>

fun remove_last :: "('a \<Rightarrow> bool) \<Rightarrow> 'a list \<Rightarrow> 'a list option" where
  "remove_last p [] = None"
| "remove_last p (x # xs) =
     (case remove_last p xs of Some ys \<Rightarrow> Some (x # ys)
      | None \<Rightarrow> if p x then Some xs else None)"

lemma remove_last_length: "remove_last p xs = Some ys \<Longrightarrow> length xs = Suc (length ys)"
  by (induction xs arbitrary: ys) (auto split: option.splits if_splits)

function shed_nodes :: "query_env \<Rightarrow> string list \<Rightarrow> GraphProjection \<Rightarrow> GraphProjection" where
  "shed_nodes env protected p =
     (if qe_projection_bytes env p > MAX_RESPONSE_BYTES
      then case remove_last (\<lambda>n. sn_id n \<notin> set protected) (gp_nodes p) of
          None \<Rightarrow> p
        | Some nodes \<Rightarrow> shed_nodes env protected (p\<lparr>gp_nodes := nodes\<rparr>)
      else p)"
  by pat_completeness auto
termination
  by (relation "measure (\<lambda>(env, protected, p). length (gp_nodes p))") (auto dest: remove_last_length)

declare shed_nodes.simps [simp del]

definition between :: "string list \<Rightarrow> StructuralGraphEdge \<Rightarrow> bool" where
  "between ids e \<longleftrightarrow> se_from e \<in> set ids \<and> se_to e \<in> set ids"

definition enforce_projection_bytes ::
  "query_env \<Rightarrow> GraphProjection \<Rightarrow> string list \<Rightarrow> GraphProjection" where
  "enforce_projection_bytes env projection protected =
     (if qe_projection_bytes env projection \<le> MAX_RESPONSE_BYTES then projection
      else
        (let stripped = projection\<lparr>gp_truncated := True,
               gp_nodes := map strip_node_excerpts (gp_nodes projection),
               gp_edges := map strip_edge_excerpts (gp_edges projection)\<rparr>;
             shed = shed_nodes env protected (shed_edges env stripped)
         in shed\<lparr>gp_edges := filter (between (map sn_id (gp_nodes shed))) (gp_edges shed)\<rparr>))"

definition trim_search_previews :: "GraphSearchResult \<Rightarrow> GraphSearchResult" where
  "trim_search_previews r =
     r\<lparr>sr_hits := take DEFAULT_LIMIT (sr_hits r) @
         map (\<lambda>h. h\<lparr>sh_node := strip_node_excerpts (sh_node h)\<rparr>) (drop DEFAULT_LIMIT (sr_hits r))\<rparr>"

function shed_hits :: "query_env \<Rightarrow> GraphSearchResult \<Rightarrow> GraphSearchResult" where
  "shed_hits env r =
     (if qe_search_bytes env r > MAX_RESPONSE_BYTES \<and> sr_hits r \<noteq> []
      then shed_hits env (r\<lparr>sr_hits := butlast (sr_hits r)\<rparr>) else r)"
  by pat_completeness auto
termination by (relation "measure (\<lambda>(env, r). length (sr_hits r))") auto

declare shed_hits.simps [simp del]

definition enforce_search_bytes :: "query_env \<Rightarrow> GraphSearchResult \<Rightarrow> nat \<Rightarrow> nat \<Rightarrow> GraphSearchResult" where
  "enforce_search_bytes env result offset hit_count =
     (if qe_search_bytes env result \<le> MAX_RESPONSE_BYTES then result
      else
        (let shed = shed_hits env (result\<lparr>sr_truncated := True,
               sr_hits := map (\<lambda>h. h\<lparr>sh_node := strip_node_excerpts (sh_node h)\<rparr>) (sr_hits result)\<rparr>);
             next_offset = offset + length (sr_hits shed)
         in shed\<lparr>sr_next_cursor := (if next_offset < hit_count then Some (decimal next_offset) else None)\<rparr>))"

section \<open>Context and filters\<close>

definition count_trust :: "GraphTrustSummary \<Rightarrow> GraphTrust \<Rightarrow> GraphTrustSummary" where
  "count_trust s trust = (case trust of
     Trust_Extracted \<Rightarrow> s\<lparr>ts_extracted := ts_extracted s + 1\<rparr>
   | Trust_Inferred \<Rightarrow> s\<lparr>ts_inferred := ts_inferred s + 1\<rparr>
   | Trust_Ambiguous \<Rightarrow> s\<lparr>ts_ambiguous := ts_ambiguous s + 1\<rparr>
   | Trust_Legacy \<Rightarrow> s\<lparr>ts_legacy := ts_legacy s + 1\<rparr>)"

definition trust_summary :: "StructuralGraphSnapshot \<Rightarrow> GraphTrustSummary" where
  "trust_summary snapshot =
     foldl count_trust \<lparr>ts_extracted = 0, ts_inferred = 0, ts_ambiguous = 0, ts_legacy = 0\<rparr>
       (map sn_trust (ss_nodes snapshot) @ map se_trust (ss_edges snapshot))"

definition query_context :: "StructuralGraphSnapshot \<Rightarrow> GraphQueryContext" where
  "query_context snapshot =
     \<lparr>qc_snapshot_id = ss_id snapshot, qc_schema_version = ss_schema_version snapshot,
      qc_engine_id = ei_id (ss_engine snapshot), qc_engine_version = ei_version (ss_engine snapshot),
      qc_created_at = ss_created_at snapshot,
      qc_freshness = \<lparr>fs_indexed_head = ss_repo_head snapshot, fs_current_head = None, fs_stale = None\<rparr>,
      qc_coverage = ss_coverage snapshot, qc_trust = trust_summary snapshot,
      qc_max_results = MAX_LIMIT, qc_max_edges = MAX_EDGE_LIMIT, qc_max_hops = MAX_PATH_HOPS,
      qc_max_bytes = MAX_RESPONSE_BYTES\<rparr>"

definition node_matches_filter :: "StructuralGraphNode \<Rightarrow> GraphQueryFilter \<Rightarrow> bool" where
  "node_matches_filter node filt \<longleftrightarrow>
     (fl_node_kinds filt = [] \<or> sn_kind node \<in> set (fl_node_kinds filt)) \<and>
     (fl_trust filt = [] \<or> sn_trust node \<in> set (fl_trust filt))"

definition edge_matches_filter :: "StructuralGraphEdge \<Rightarrow> GraphQueryFilter \<Rightarrow> bool" where
  "edge_matches_filter edge filt \<longleftrightarrow>
     (fl_edge_kinds filt = [] \<or> se_kind edge \<in> set (fl_edge_kinds filt)) \<and>
     (fl_trust filt = [] \<or> se_trust edge \<in> set (fl_trust filt))"

text \<open>Collecting pairs into a hash map keeps the last value of a key.\<close>

definition identity_map :: "('a \<Rightarrow> string) \<Rightarrow> 'a list \<Rightarrow> string \<Rightarrow> 'a option" where
  "identity_map key xs = map_of (rev (map (\<lambda>x. (key x, x)) xs))"

definition node_map :: "StructuralGraphSnapshot \<Rightarrow> string \<Rightarrow> StructuralGraphNode option" where
  "node_map snapshot = identity_map sn_id (ss_nodes snapshot)"

section \<open>Index and resolution\<close>

definition normalize :: "query_env \<Rightarrow> string \<Rightarrow> string" where
  "normalize env value =
     qe_lowercase env (map (\<lambda>c. if c = CHR 0x5C then CHR ''/'' else c) (trim value))"

definition rank_node :: "query_env \<Rightarrow> StructuralGraphNode \<Rightarrow> string \<Rightarrow> (nat \<times> string) option" where
  "rank_node env node needle =
     (let node_id = normalize env (sn_id node);
          qualified = map_option (normalize env) (sn_qualified_name node);
          path = map_option (normalize env) (sn_path node);
          label = normalize env (sn_label node)
      in if node_id = needle then Some (900000, ''id'')
         else if qualified = Some needle then Some (800000, ''qualified_name'')
         else if path = Some needle then Some (700000, ''path'')
         else if label = needle then Some (600000, ''label'')
         else if (case qualified of None \<Rightarrow> False | Some v \<Rightarrow> contains_str v needle)
           then Some (500000, ''qualified_name_contains'')
         else if (case path of None \<Rightarrow> False | Some v \<Rightarrow> contains_str v needle)
           then Some (400000, ''path_contains'')
         else if contains_str label needle then Some (300000, ''label_contains'')
         else None)"

type_synonym postings = "string \<Rightarrow> nat list option"

definition push_posting :: "postings \<Rightarrow> string \<times> nat \<Rightarrow> postings" where
  "push_posting m = (\<lambda>(key, ordinal).
     m(key \<mapsto> (case m key of None \<Rightarrow> [] | Some ordinals \<Rightarrow> ordinals) @ [ordinal]))"

definition index_values :: "StructuralGraphNode \<Rightarrow> string list" where
  "index_values node =
     [sn_id node] @ (case sn_path node of None \<Rightarrow> [] | Some p \<Rightarrow> [p]) @
     (case sn_qualified_name node of None \<Rightarrow> [] | Some q \<Rightarrow> [q]) @ [sn_label node]"

definition node_entries :: "query_env \<Rightarrow> nat \<times> StructuralGraphNode \<Rightarrow> (string \<times> nat) list" where
  "node_entries env = (\<lambda>(ordinal, node). map (\<lambda>v. (normalize env v, ordinal)) (index_values node))"

definition exact_index :: "query_env \<Rightarrow> StructuralGraphNode list \<Rightarrow> postings" where
  "exact_index env nodes =
     foldl push_posting Map.empty (concat (map (node_entries env) (enumerate 0 nodes)))"

fun resolve_tiers ::
  "query_env \<Rightarrow> string \<Rightarrow> string \<Rightarrow> StructuralGraphNode list \<Rightarrow> string list
     \<Rightarrow> (graph_error, StructuralGraphNode) result" where
  "resolve_tiers env reference needle candidates [] = Inl (NoNodeMatches reference)"
| "resolve_tiers env reference needle candidates (tier # tiers) =
     (case filter (\<lambda>node. case rank_node env node needle of None \<Rightarrow> False
                          | Some (_, matched_by) \<Rightarrow> matched_by = tier) candidates of
        [] \<Rightarrow> resolve_tiers env reference needle candidates tiers
      | [node] \<Rightarrow> Inr node
      | matches \<Rightarrow> Inl (ReferenceAmbiguous (length matches)))"

definition candidate_nodes :: "postings \<Rightarrow> StructuralGraphNode list \<Rightarrow> string \<Rightarrow> StructuralGraphNode list" where
  "candidate_nodes exact nodes needle =
     map ((!) nodes) (filter (\<lambda>i. i < length nodes)
       (case exact needle of None \<Rightarrow> [0..<length nodes] | Some ordinals \<Rightarrow> ordinals))"

definition resolve_in ::
  "query_env \<Rightarrow> postings \<Rightarrow> StructuralGraphSnapshot \<Rightarrow> string
     \<Rightarrow> (graph_error, StructuralGraphNode) result" where
  "resolve_in env exact snapshot reference =
     (let needle = normalize env reference
      in if needle = [] then Inl ReferenceRequired
         else resolve_tiers env reference needle (candidate_nodes exact (ss_nodes snapshot) needle)
                [''id'', ''qualified_name'', ''path'', ''label''])"

text \<open>
  The process keeps the indexes it has built, keyed by snapshot identity, and forgets all of them
  when sixteen are held. Either attempt to take the lock may fail (a poisoned mutex); the index is
  then built again and not kept.
\<close>

type_synonym index_cache = "(string \<times> postings) list"

definition remember_index :: "bool \<Rightarrow> index_cache \<Rightarrow> string \<Rightarrow> postings \<Rightarrow> index_cache" where
  "remember_index writable cache snapshot_id index =
     (if \<not> writable then cache
      else AList.update snapshot_id index (if length cache \<ge> MAX_QUERY_INDEXES then [] else cache))"

definition query_index ::
  "query_env \<Rightarrow> bool \<Rightarrow> bool \<Rightarrow> index_cache \<Rightarrow> StructuralGraphSnapshot \<Rightarrow> postings \<times> index_cache" where
  "query_index env readable writable cache snapshot =
     (case if readable then map_of cache (ss_id snapshot) else None of
        Some index \<Rightarrow> (index, cache)
      | None \<Rightarrow>
          (let index = exact_index env (ss_nodes snapshot)
           in (index, remember_index writable cache (ss_id snapshot) index)))"

definition resolve_node ::
  "query_env \<Rightarrow> StructuralGraphSnapshot \<Rightarrow> string \<Rightarrow> (graph_error, StructuralGraphNode) result" where
  "resolve_node env snapshot reference =
     resolve_in env (exact_index env (ss_nodes snapshot)) snapshot reference"

definition explain ::
  "query_env \<Rightarrow> StructuralGraphSnapshot \<Rightarrow> string \<Rightarrow> (graph_error, GraphExplanation) result" where
  "explain env snapshot reference =
     and_then (resolve_node env snapshot reference) (\<lambda>node.
       (let incoming = filter (\<lambda>e. se_to e = sn_id node) (ss_edges snapshot);
            outgoing = filter (\<lambda>e. se_from e = sn_id node) (ss_edges snapshot)
        in Inr \<lparr>ge_node = node, ge_incoming_count = length incoming,
             ge_outgoing_count = length outgoing,
             ge_incoming_kinds = sort (remdups (map se_kind incoming)),
             ge_outgoing_kinds = sort (remdups (map se_kind outgoing)),
             ge_truncated = False, ge_context = query_context snapshot\<rparr>))"

section \<open>Projections\<close>

definition neighbors_edges ::
  "StructuralGraphSnapshot \<Rightarrow> string \<Rightarrow> GraphDirection \<Rightarrow> GraphQueryFilter \<Rightarrow> StructuralGraphEdge list" where
  "neighbors_edges snapshot root direction filt =
     sort_key (\<lambda>e. (se_kind e, se_id e))
       (filter (\<lambda>e. edge_matches_filter e filt \<and>
            (case direction of Dir_Incoming \<Rightarrow> se_to e = root | Dir_Outgoing \<Rightarrow> se_from e = root
             | Dir_Both \<Rightarrow> se_from e = root \<or> se_to e = root))
         (ss_edges snapshot))"

definition neighbors_page ::
  "query_env \<Rightarrow> StructuralGraphSnapshot \<Rightarrow> string \<Rightarrow> GraphDirection \<Rightarrow> GraphQueryFilter \<Rightarrow> nat option
     \<Rightarrow> string option \<Rightarrow> (graph_error, GraphProjection) result" where
  "neighbors_page env snapshot root direction filt limit cursor =
     (let edges = neighbors_edges snapshot root direction filt
      in and_then (parse_cursor cursor) (\<lambda>offset.
        (let limit = bounded_limit limit;
             page = take limit (drop offset edges);
             truncated = offset + length page < length edges;
             node_ids = remdups (root # concat (map (\<lambda>e. [se_from e, se_to e]) page));
             nodes = filter (\<lambda>n. node_matches_filter n filt \<or> sn_id n = root)
                       (List.map_filter (node_map snapshot) node_ids)
         in Inr (enforce_projection_bytes env
              \<lparr>gp_nodes = sort_key sn_id nodes, gp_edges = page, gp_truncated = truncated,
               gp_next_cursor = (if truncated then Some (decimal (offset + limit)) else None),
               gp_context = query_context snapshot\<rparr> [root]))))"

definition neighbors ::
  "query_env \<Rightarrow> StructuralGraphSnapshot \<Rightarrow> string \<Rightarrow> GraphDirection \<Rightarrow> GraphQueryFilter \<Rightarrow> nat option
     \<Rightarrow> string option \<Rightarrow> (graph_error, GraphProjection) result" where
  "neighbors env snapshot reference direction filt limit cursor =
     and_then (resolve_node env snapshot reference) (\<lambda>root.
       neighbors_page env snapshot (sn_id root) direction filt limit cursor)"

definition degree_of :: "StructuralGraphEdge list \<Rightarrow> string \<Rightarrow> nat" where
  "degree_of edges n = count_list (concat (map (\<lambda>e. [se_from e, se_to e]) edges)) n"

definition rank_by_degree ::
  "StructuralGraphSnapshot \<Rightarrow> StructuralGraphNode list \<Rightarrow> StructuralGraphNode list" where
  "rank_by_degree snapshot nodes =
     sort_key (\<lambda>n. (- int (degree_of (ss_edges snapshot) (sn_id n)), sn_id n)) nodes"

text \<open>The common tail of the overview and the community page.\<close>

definition ranked_page ::
  "query_env \<Rightarrow> StructuralGraphSnapshot \<Rightarrow> StructuralGraphNode list \<Rightarrow> nat \<Rightarrow> nat
     \<Rightarrow> (graph_error, GraphProjection) result" where
  "ranked_page env snapshot ranked limit offset =
     (if offset > length ranked then Inl CursorInvalid
      else
        (let page = take limit (drop offset ranked);
             next_offset = offset + length page;
             inner = filter (between (map sn_id page)) (ss_edges snapshot);
             edges = sort_key se_id (take MAX_EDGE_LIMIT inner)
         in Inr (enforce_projection_bytes env
              \<lparr>gp_nodes = sort_key sn_id page, gp_edges = edges,
               gp_truncated = (next_offset < length ranked \<or> length inner > length edges),
               gp_next_cursor = (if next_offset < length ranked then Some (decimal next_offset) else None),
               gp_context = query_context snapshot\<rparr> [])))"

definition overview_page ::
  "query_env \<Rightarrow> StructuralGraphSnapshot \<Rightarrow> nat option \<Rightarrow> string option
     \<Rightarrow> (graph_error, GraphProjection) result" where
  "overview_page env snapshot limit cursor =
     (let limit = bounded_limit limit
      in and_then (parse_cursor cursor) (\<lambda>offset.
           ranked_page env snapshot (rank_by_degree snapshot (ss_nodes snapshot)) limit offset))"

definition community_page ::
  "query_env \<Rightarrow> StructuralGraphSnapshot \<Rightarrow> string \<Rightarrow> nat option \<Rightarrow> string option
     \<Rightarrow> (graph_error, GraphProjection) result" where
  "community_page env snapshot community_id limit cursor =
     (if \<not> list_ex (\<lambda>c. cm_id c = community_id) (ss_communities snapshot)
      then Inl (NoCommunityMatches community_id)
      else
        (let limit = bounded_limit limit
         in and_then (parse_cursor cursor) (\<lambda>offset.
              ranked_page env snapshot
                (rank_by_degree snapshot
                   (filter (\<lambda>n. sn_community_id n = Some community_id) (ss_nodes snapshot)))
                limit offset)))"

section \<open>Diff\<close>

definition diff_identity_maps ::
  "('a \<Rightarrow> string) \<Rightarrow> 'a list \<Rightarrow> 'a list \<Rightarrow> string list \<times> string list \<times> string list" where
  "diff_identity_maps key before after =
     (let was = identity_map key before; now = identity_map key after
      in (sort (filter (\<lambda>k. was k = None) (remdups (map key after))),
          sort (filter (\<lambda>k. now k = None) (remdups (map key before))),
          sort (filter (\<lambda>k. was k \<noteq> None \<and> was k \<noteq> now k) (remdups (map key after)))))"

definition diff_snapshots :: "StructuralGraphSnapshot \<Rightarrow> StructuralGraphSnapshot \<Rightarrow> GraphSnapshotDiff" where
  "diff_snapshots before after =
     (case (diff_identity_maps sn_id (ss_nodes before) (ss_nodes after),
            diff_identity_maps se_id (ss_edges before) (ss_edges after)) of
        ((an, rn, cn), (ae, re, ce)) \<Rightarrow>
          \<lparr>gd_before_snapshot_id = ss_id before, gd_after_snapshot_id = ss_id after,
           gd_added_node_ids = take MAX_DIFF_IDS an, gd_removed_node_ids = take MAX_DIFF_IDS rn,
           gd_changed_node_ids = take MAX_DIFF_IDS cn, gd_added_edge_ids = take MAX_DIFF_IDS ae,
           gd_removed_edge_ids = take MAX_DIFF_IDS re, gd_changed_edge_ids = take MAX_DIFF_IDS ce,
           gd_truncated = list_ex (\<lambda>ids. length ids > MAX_DIFF_IDS) [an, rn, cn, ae, re, ce],
           gd_context = query_context after\<rparr>)"

end
