(* ===== verification/Graph_Impact.thy ===== *)
theory Graph_Impact
  imports Graph_Query
begin

text \<open>
  Impact analysis and subgraphs (\<open>query/traversal.rs\<close>, \<open>query/projection.rs\<close>): two breadth-first
  searches over the filtered edges of a snapshot, with a depth bound and a bound on the nodes. The
  record \<open>search_state\<close> holds the locals of either loop; the hash sets are lists without
  duplicates. A loop ends because every iteration takes a node from the queue and a node enters the
  queue only when it is seen for the first time.
\<close>

section \<open>Adjacency\<close>

type_synonym adjacency = "string \<Rightarrow> StructuralGraphEdge list"

definition matching_edges ::
  "StructuralGraphSnapshot \<Rightarrow> GraphQueryFilter \<Rightarrow> StructuralGraphEdge list" where
  "matching_edges snapshot filt = filter (\<lambda>e. edge_matches_filter e filt) (ss_edges snapshot)"

definition other_end :: "string \<Rightarrow> StructuralGraphEdge \<Rightarrow> string" where
  "other_end n e = (if se_from e = n then se_to e else se_from e)"

text \<open>The list pushed under the key \<open>n\<close>, in the order of the edges.\<close>

definition adjacent ::
  "GraphDirection \<Rightarrow> StructuralGraphEdge list \<Rightarrow> string \<Rightarrow> StructuralGraphEdge list" where
  "adjacent direction edges n = concat (map (\<lambda>e. case direction of
       Dir_Incoming \<Rightarrow> (if se_to e = n then [e] else [])
     | Dir_Outgoing \<Rightarrow> (if se_from e = n then [e] else [])
     | Dir_Both \<Rightarrow> (if se_to e = n then [e] else []) @ (if se_from e = n then [e] else [])) edges)"

definition impact_adjacency ::
  "StructuralGraphSnapshot \<Rightarrow> GraphDirection \<Rightarrow> GraphQueryFilter \<Rightarrow> adjacency" where
  "impact_adjacency snapshot direction filt n =
     sort_key (\<lambda>e. (degree_of (matching_edges snapshot filt) (other_end n e), se_id e))
       (adjacent direction (matching_edges snapshot filt) n)"

definition subgraph_adjacency ::
  "StructuralGraphSnapshot \<Rightarrow> GraphQueryFilter \<Rightarrow> adjacency" where
  "subgraph_adjacency snapshot filt n =
     sort_key se_id (concat (map (\<lambda>e.
        (if se_from e = n then [e] else []) @ (if se_to e = n then [e] else []))
      (matching_edges snapshot filt)))"

section \<open>Impact\<close>

record search_state =
  st_queue :: "(string \<times> nat) list"
  st_seen :: "string list"
  st_edge_ids :: "string list"
  st_depth_reached :: nat
  st_truncated :: bool

definition search_begin :: "string list \<Rightarrow> search_state" where
  "search_begin roots = \<lparr>st_queue = map (\<lambda>r. (r, 0)) roots, st_seen = remdups roots, st_edge_ids = [],
     st_depth_reached = 0, st_truncated = False\<rparr>"

text \<open>The loop over the edges of a node, which stops when one node too many is seen.\<close>

fun impact_edges ::
  "nat \<Rightarrow> string \<Rightarrow> nat \<Rightarrow> search_state \<Rightarrow> StructuralGraphEdge list \<Rightarrow> search_state" where
  "impact_edges limit n depth st [] = st"
| "impact_edges limit n depth st (e # es) =
     (let st = st\<lparr>st_edge_ids := List.insert (se_id e) (st_edge_ids st)\<rparr>;
          neighbor = other_end n e
      in if neighbor \<in> set (st_seen st) then impact_edges limit n depth st es
         else
           (let st = st\<lparr>st_seen := st_seen st @ [neighbor]\<rparr>
            in if length (st_seen st) > limit + 1 then st\<lparr>st_truncated := True\<rparr>
               else impact_edges limit n depth
                      (st\<lparr>st_queue := st_queue st @ [(neighbor, depth + 1)]\<rparr>) es))"

lemma impact_edges_measure:
  "length (st_seen st) \<le> limit + 1 \<Longrightarrow> \<not> st_truncated (impact_edges limit n depth st es) \<Longrightarrow>
     length (st_seen st) \<le> length (st_seen (impact_edges limit n depth st es)) \<and>
     length (st_seen (impact_edges limit n depth st es)) \<le> limit + 1 \<and>
     length (st_queue (impact_edges limit n depth st es)) + length (st_seen st) =
       length (st_queue st) + length (st_seen (impact_edges limit n depth st es))"
proof (induction es arbitrary: st)
  case (Cons e es)
  let ?s = "st\<lparr>st_edge_ids := List.insert (se_id e) (st_edge_ids st)\<rparr>"
  let ?t = "?s\<lparr>st_seen := st_seen st @ [other_end n e], st_queue := st_queue st @ [(other_end n e, depth + 1)]\<rparr>"
  show ?case
  proof (cases "other_end n e \<in> set (st_seen st)")
    case True
    then show ?thesis using Cons.IH [of ?s] Cons.prems by (simp add: Let_def)
  next
    case False
    then have fits: "length (st_seen st) \<le> limit" using Cons.prems(2) by (simp add: Let_def split: if_splits)
    then have "impact_edges limit n depth st (e # es) = impact_edges limit n depth ?t es"
      using False by (simp add: Let_def)
    then show ?thesis using Cons.IH [of ?t] Cons.prems(2) fits by simp
  qed
qed simp

lemma impact_edges_full:
  "length (st_seen st) > limit + 1 \<Longrightarrow> \<not> st_truncated (impact_edges limit n depth st es) \<Longrightarrow>
     st_queue (impact_edges limit n depth st es) = st_queue st \<and>
     st_seen (impact_edges limit n depth st es) = st_seen st"
  by (induction es arbitrary: st) (simp_all add: Let_def split: if_splits)

function impact_loop :: "nat \<Rightarrow> nat \<Rightarrow> adjacency \<Rightarrow> search_state \<Rightarrow> search_state" where
  "impact_loop max_depth limit adj st =
     (case st_queue st of
        [] \<Rightarrow> st
      | (n, depth) # queue \<Rightarrow>
          (let st = st\<lparr>st_queue := queue, st_depth_reached := max (st_depth_reached st) depth\<rparr>
           in if depth \<ge> max_depth then impact_loop max_depth limit adj st
              else
                (let st' = impact_edges limit n depth st (adj n)
                 in if st_truncated st' then st' else impact_loop max_depth limit adj st')))"
  by pat_completeness auto
termination
proof (relation "measure (\<lambda>(max_depth, limit, adj, st).
    length (st_queue st) + 2 * (limit + 1 - length (st_seen st)))", goal_cases)
  case 1
  then show ?case by simp
next
  case (2 max_depth limit adj st a queue n depth t)
  then show ?case by simp
next
  case (3 max_depth limit adj st a queue n depth t t')
  let ?r = "impact_edges limit n depth t (adj n)"
  show ?case
  proof (cases "length (st_seen t) \<le> limit + 1")
    case True
    then show ?thesis using impact_edges_measure [of t limit n depth "adj n"] 3 by (simp, linarith)
  next
    case False
    then show ?thesis using impact_edges_full [of limit t n depth "adj n"] 3 by auto
  qed
qed

declare impact_loop.simps [simp del]

function shed_impact_edges :: "query_env \<Rightarrow> GraphImpactResult \<Rightarrow> GraphImpactResult" where
  "shed_impact_edges env r =
     (if qe_impact_bytes env r > MAX_RESPONSE_BYTES \<and> gi_edges r \<noteq> []
      then shed_impact_edges env (r\<lparr>gi_edges := butlast (gi_edges r)\<rparr>) else r)"
  by pat_completeness auto
termination by (relation "measure (\<lambda>(env, r). length (gi_edges r))") auto

declare shed_impact_edges.simps [simp del]

function shed_affected :: "query_env \<Rightarrow> GraphImpactResult \<Rightarrow> GraphImpactResult" where
  "shed_affected env r =
     (if qe_impact_bytes env r > MAX_RESPONSE_BYTES \<and> gi_affected r \<noteq> []
      then shed_affected env (r\<lparr>gi_affected := butlast (gi_affected r)\<rparr>) else r)"
  by pat_completeness auto
termination by (relation "measure (\<lambda>(env, r). length (gi_affected r))") auto

declare shed_affected.simps [simp del]

definition impact_ids :: "GraphImpactResult \<Rightarrow> string list" where
  "impact_ids r = map sn_id (gi_affected r) @ [sn_id (gi_root r)]"

definition enforce_impact_bytes :: "query_env \<Rightarrow> GraphImpactResult \<Rightarrow> GraphImpactResult" where
  "enforce_impact_bytes env result =
     (if qe_impact_bytes env result \<le> MAX_RESPONSE_BYTES then result
      else
        (let stripped = result\<lparr>gi_truncated := True, gi_root := strip_node_excerpts (gi_root result),
               gi_affected := map strip_node_excerpts (gi_affected result),
               gi_edges := map strip_edge_excerpts (gi_edges result)\<rparr>;
             shed = shed_affected env (shed_impact_edges env stripped)
         in shed\<lparr>gi_edges := filter (between (impact_ids shed)) (gi_edges shed)\<rparr>))"

definition impact_result ::
  "query_env \<Rightarrow> StructuralGraphSnapshot \<Rightarrow> StructuralGraphNode \<Rightarrow> nat \<Rightarrow> search_state \<Rightarrow> GraphImpactResult" where
  "impact_result env snapshot root limit st =
     (let affected = take limit (sort_key sn_id (List.map_filter (node_map snapshot)
            (filter (\<lambda>i. i \<noteq> sn_id root) (st_seen st))));
          retained = map sn_id affected @ [sn_id root];
          edges = take MAX_EDGE_LIMIT (filter (between retained)
            (filter (\<lambda>e. se_id e \<in> set (st_edge_ids st)) (ss_edges snapshot)))
      in enforce_impact_bytes env
           \<lparr>gi_root = root, gi_affected = affected, gi_edges = sort_key se_id edges,
            gi_depth_reached = st_depth_reached st,
            gi_truncated = (st_truncated st \<or> length (st_edge_ids st) > length edges),
            gi_context = query_context snapshot\<rparr>)"

definition impact ::
  "query_env \<Rightarrow> StructuralGraphSnapshot \<Rightarrow> string \<Rightarrow> GraphDirection \<Rightarrow> nat option \<Rightarrow> GraphQueryFilter
     \<Rightarrow> nat option \<Rightarrow> (graph_error, GraphImpactResult) result" where
  "impact env snapshot reference direction depth filt limit =
     and_then (resolve_node env snapshot reference) (\<lambda>root.
       (let max_depth = clamp 1 12 (case depth of None \<Rightarrow> 3 | Some d \<Rightarrow> d);
            limit = bounded_limit limit
        in Inr (impact_result env snapshot root limit
             (impact_loop max_depth limit (impact_adjacency snapshot direction filt)
                (search_begin [sn_id root])))))"

section \<open>Subgraphs\<close>

text \<open>The loop over the edges of a node, which skips the edges to nodes beyond the limit.\<close>

fun subgraph_edges ::
  "nat \<Rightarrow> string \<Rightarrow> nat \<Rightarrow> search_state \<Rightarrow> StructuralGraphEdge list \<Rightarrow> search_state" where
  "subgraph_edges limit n depth st [] = st"
| "subgraph_edges limit n depth st (e # es) =
     (let neighbor = other_end n e
      in if length (st_seen st) \<ge> limit \<and> neighbor \<notin> set (st_seen st)
         then subgraph_edges limit n depth (st\<lparr>st_truncated := True\<rparr>) es
         else
           (let st = st\<lparr>st_edge_ids := List.insert (se_id e) (st_edge_ids st)\<rparr>
            in if neighbor \<in> set (st_seen st) then subgraph_edges limit n depth st es
               else subgraph_edges limit n depth
                      (st\<lparr>st_seen := st_seen st @ [neighbor],
                          st_queue := st_queue st @ [(neighbor, depth + 1)]\<rparr>) es))"

lemma subgraph_edges_measure:
  "length (st_queue (subgraph_edges limit n depth st es)) + length (st_seen st) =
     length (st_queue st) + length (st_seen (subgraph_edges limit n depth st es)) \<and>
   length (st_seen st) \<le> length (st_seen (subgraph_edges limit n depth st es)) \<and>
   length (st_seen (subgraph_edges limit n depth st es)) \<le> max limit (length (st_seen st))"
proof (induction es arbitrary: st)
  case (Cons e es)
  let ?s = "st\<lparr>st_edge_ids := List.insert (se_id e) (st_edge_ids st)\<rparr>"
  let ?t = "?s\<lparr>st_seen := st_seen st @ [other_end n e], st_queue := st_queue st @ [(other_end n e, depth + 1)]\<rparr>"
  consider (skip) "length (st_seen st) \<ge> limit" "other_end n e \<notin> set (st_seen st)"
    | (seen) "other_end n e \<in> set (st_seen st)"
    | (fresh) "length (st_seen st) < limit" "other_end n e \<notin> set (st_seen st)"
    by linarith
  then show ?case
  proof cases
    case skip
    then show ?thesis using Cons.IH [of "st\<lparr>st_truncated := True\<rparr>"] by simp
  next
    case seen
    then show ?thesis using Cons.IH [of ?s] by simp
  next
    case fresh
    then have "subgraph_edges limit n depth st (e # es) = subgraph_edges limit n depth ?t es"
      by (simp add: Let_def)
    then show ?thesis using Cons.IH [of ?t] fresh by simp
  qed
qed simp

function subgraph_loop :: "nat \<Rightarrow> nat \<Rightarrow> adjacency \<Rightarrow> search_state \<Rightarrow> search_state" where
  "subgraph_loop max_depth limit adj st =
     (case st_queue st of
        [] \<Rightarrow> st
      | (n, depth) # queue \<Rightarrow>
          (let st = st\<lparr>st_queue := queue\<rparr>
           in if depth \<ge> max_depth then subgraph_loop max_depth limit adj st
              else subgraph_loop max_depth limit adj (subgraph_edges limit n depth st (adj n))))"
  by pat_completeness auto
termination
proof (relation "measure (\<lambda>(max_depth, limit, adj, st).
    length (st_queue st) + 2 * (limit - length (st_seen st)))", goal_cases)
  case 1
  then show ?case by simp
next
  case (2 max_depth limit adj st a queue n depth t)
  then show ?case by simp
next
  case (3 max_depth limit adj st a queue n depth t)
  then show ?case using subgraph_edges_measure [of limit n depth t "adj n"] by (simp, linarith)
qed

declare subgraph_loop.simps [simp del]

definition subgraph_result ::
  "query_env \<Rightarrow> StructuralGraphSnapshot \<Rightarrow> GraphQueryFilter \<Rightarrow> StructuralGraphNode list \<Rightarrow> search_state
     \<Rightarrow> GraphProjection" where
  "subgraph_result env snapshot filt roots st =
     (let nodes = filter (\<lambda>n. node_matches_filter n filt \<or> list_ex (\<lambda>r. sn_id r = sn_id n) roots)
            (filter (\<lambda>n. sn_id n \<in> set (st_seen st)) (ss_nodes snapshot));
          edges = take MAX_EDGE_LIMIT (filter (between (map sn_id nodes))
            (filter (\<lambda>e. se_id e \<in> set (st_edge_ids st)) (ss_edges snapshot)))
      in enforce_projection_bytes env
           \<lparr>gp_nodes = sort_key sn_id nodes, gp_edges = sort_key se_id edges,
            gp_truncated = (st_truncated st \<or> length (st_edge_ids st) > length edges),
            gp_next_cursor = None, gp_context = query_context snapshot\<rparr> (map sn_id roots))"

definition subgraph ::
  "query_env \<Rightarrow> StructuralGraphSnapshot \<Rightarrow> string list \<Rightarrow> nat option \<Rightarrow> GraphQueryFilter \<Rightarrow> nat option
     \<Rightarrow> (graph_error, GraphProjection) result" where
  "subgraph env snapshot seeds depth filt limit =
     (if seeds = [] then Inl SeedRequired
      else
        (let max_depth = clamp 0 8 (case depth of None \<Rightarrow> 2 | Some d \<Rightarrow> d);
             limit = bounded_limit limit
         in and_then (try_map (resolve_node env snapshot) seeds) (\<lambda>roots.
              Inr (subgraph_result env snapshot filt roots
                (subgraph_loop max_depth limit (subgraph_adjacency snapshot filt)
                   (search_begin (map sn_id roots)))))))"

end
