(* ===== verification/Graph_Answers.thy ===== *)
theory Graph_Answers
  imports Graph_Query
begin

text \<open>
  What the queries of \<open>Graph_Query\<close> promise. The locale \<open>paging\<close> is the contract of a paged listing
  and what a client gets that follows its cursors; it is interpreted on the overview and on the
  neighbours. Further: the byte limit, the meaning of a resolution, the transparency of the index
  cache, and two behaviours the code does not intend (a file is ambiguous with itself when resolved
  by its path; a page that sheds nodes to fit the byte limit loses them).
\<close>

section \<open>Paging\<close>

text \<open>A client that follows the cursors and collects what every page lists.\<close>

fun collect_pages ::
  "nat \<Rightarrow> (string option \<Rightarrow> ('e, GraphProjection) result) \<Rightarrow> (GraphProjection \<Rightarrow> 'x list)
     \<Rightarrow> string option \<Rightarrow> 'x list option" where
  "collect_pages 0 query items cursor = None"
| "collect_pages (Suc k) query items cursor =
     (case query cursor of Inl _ \<Rightarrow> None
      | Inr p \<Rightarrow> (case gp_next_cursor p of None \<Rightarrow> Some (items p)
                | Some c \<Rightarrow> map_option ((@) (items p)) (collect_pages k query items (Some c))))"

text \<open>The contract of a paged listing, and what following its cursors returns.\<close>

locale paging =
  fixes query :: "string option \<Rightarrow> ('e, GraphProjection) result"
    and items :: "GraphProjection \<Rightarrow> 'x list"
    and listing :: "'x list"
    and page_size :: nat
  assumes page_size_pos: "0 < page_size"
    and page_at: "offset \<le> length listing \<Longrightarrow> offset \<le> usize_max \<Longrightarrow>
      cursor = None \<and> offset = 0 \<or> cursor = Some (decimal offset) \<Longrightarrow>
      \<exists>p. query cursor = Inr p \<and> mset (items p) = mset (take page_size (drop offset listing)) \<and>
        gp_next_cursor p =
          (if offset + page_size < length listing then Some (decimal (offset + page_size)) else None)"
begin

lemma collect_from:
  assumes "length listing \<le> usize_max" "offset \<le> length listing" "length listing < offset + k"
    "cursor = None \<and> offset = 0 \<or> cursor = Some (decimal offset)"
  shows "\<exists>xs. collect_pages k query items cursor = Some xs \<and> mset xs = mset (drop offset listing)"
  using assms(2-)
proof (induction k arbitrary: offset cursor)
  case 0
  then show ?case by simp
next
  case (Suc k)
  obtain p where p: "query cursor = Inr p" "mset (items p) = mset (take page_size (drop offset listing))"
    "gp_next_cursor p =
       (if offset + page_size < length listing then Some (decimal (offset + page_size)) else None)"
    using page_at [OF Suc.prems(1) _ Suc.prems(3)] Suc.prems(1) assms(1) by auto
  show ?case
  proof (cases "offset + page_size < length listing")
    case True
    obtain xs where xs: "collect_pages k query items (Some (decimal (offset + page_size))) = Some xs"
      "mset xs = mset (drop (offset + page_size) listing)"
      using Suc.IH [of "offset + page_size" "Some (decimal (offset + page_size))"] True Suc.prems(2)
        page_size_pos by auto
    have "mset (items p @ xs) = mset (take page_size (drop offset listing) @ drop page_size (drop offset listing))"
      unfolding mset_append p(2) xs(2) drop_drop by (simp add: add.commute)
    then have "mset (items p @ xs) = mset (drop offset listing)" by (simp only: append_take_drop_id)
    then show ?thesis using p xs True by simp
  next
    case False
    then show ?thesis using p by simp
  qed
qed

lemma collect_all:
  assumes "length listing \<le> usize_max"
  shows "\<exists>xs. collect_pages (Suc (length listing)) query items None = Some xs \<and> mset xs = mset listing"
  using collect_from [OF assms, of 0 "Suc (length listing)" None] by simp

end

text \<open>An environment whose responses always fit.\<close>

definition roomy :: "query_env \<Rightarrow> query_env" where
  "roomy env = env\<lparr>qe_projection_bytes := (\<lambda>_. 0)\<rparr>"

lemma enforce_fits:
  "qe_projection_bytes env p \<le> MAX_RESPONSE_BYTES \<Longrightarrow> enforce_projection_bytes env p ids = p"
  by (simp add: enforce_projection_bytes_def)

lemma enforce_roomy [simp]: "enforce_projection_bytes (roomy env) p ids = p"
  by (simp add: enforce_fits roomy_def)

lemma bounded_limit_range: "1 \<le> bounded_limit l" "bounded_limit l \<le> MAX_LIMIT"
  by (simp_all add: bounded_limit_def clamp_def MAX_LIMIT_def)

lemma parse_cursor_start: "parse_cursor None = Inr 0"
  by (simp add: parse_cursor_def parse_usize_def digits_value_def digit_value_def is_ascii_digit_def)

lemma parse_cursor_offset:
  assumes "cursor = None \<and> offset = 0 \<or> cursor = Some (decimal offset)" "offset \<le> usize_max"
  shows "parse_cursor cursor = Inr offset"
  using assms(1)
proof
  assume "cursor = Some (decimal offset)"
  then show ?thesis using parse_decimal [OF assms(2)] by (simp add: parse_cursor_def)
qed (simp add: parse_cursor_start)

lemma ranked_page_roomy:
  assumes "offset \<le> length ranked"
  shows "\<exists>p. ranked_page (roomy env) snapshot ranked k offset = Inr p \<and>
    mset (gp_nodes p) = mset (take k (drop offset ranked)) \<and>
    gp_next_cursor p = (if offset + k < length ranked then Some (decimal (offset + k)) else None)"
  using assms by (auto simp: ranked_page_def Let_def min_def)

interpretation overview_pages: paging "overview_page (roomy env) snapshot limit" gp_nodes
  "rank_by_degree snapshot (ss_nodes snapshot)" "bounded_limit limit"
  for env snapshot limit
proof
  show "0 < bounded_limit limit" using bounded_limit_range(1) [of limit] by simp
next
  fix offset cursor
  assume "offset \<le> length (rank_by_degree snapshot (ss_nodes snapshot))" "offset \<le> usize_max"
    "cursor = None \<and> offset = 0 \<or> cursor = Some (decimal offset)"
  then show "\<exists>p. overview_page (roomy env) snapshot limit cursor = Inr p \<and>
      mset (gp_nodes p) = mset (take (bounded_limit limit) (drop offset (rank_by_degree snapshot (ss_nodes snapshot)))) \<and>
      gp_next_cursor p = (if offset + bounded_limit limit < length (rank_by_degree snapshot (ss_nodes snapshot))
        then Some (decimal (offset + bounded_limit limit)) else None)"
    using ranked_page_roomy by (simp add: overview_page_def parse_cursor_offset)
qed

interpretation neighbor_pages: paging "neighbors_page (roomy env) snapshot root direction filt limit" gp_edges
  "neighbors_edges snapshot root direction filt" "bounded_limit limit"
  for env snapshot root direction filt limit
proof
  show "0 < bounded_limit limit" using bounded_limit_range(1) [of limit] by simp
next
  fix offset cursor
  assume "offset \<le> length (neighbors_edges snapshot root direction filt)" "offset \<le> usize_max"
    "cursor = None \<and> offset = 0 \<or> cursor = Some (decimal offset)"
  then show "\<exists>p. neighbors_page (roomy env) snapshot root direction filt limit cursor = Inr p \<and>
      mset (gp_edges p) = mset (take (bounded_limit limit) (drop offset (neighbors_edges snapshot root direction filt))) \<and>
      gp_next_cursor p = (if offset + bounded_limit limit < length (neighbors_edges snapshot root direction filt)
        then Some (decimal (offset + bounded_limit limit)) else None)"
    by (auto simp: neighbors_page_def Let_def parse_cursor_offset min_def)
qed

lemma mset_rank_by_degree [simp]: "mset (rank_by_degree snapshot nodes) = mset nodes"
  by (simp add: rank_by_degree_def)

lemma overview_page_fits:
  assumes "\<forall>cursor p. overview_page (roomy env) snapshot limit cursor = Inr p \<longrightarrow> qe_projection_bytes env p \<le> MAX_RESPONSE_BYTES"
  shows "overview_page env snapshot limit = overview_page (roomy env) snapshot limit"
proof
  fix cursor
  show "overview_page env snapshot limit cursor = overview_page (roomy env) snapshot limit cursor"
    using assms [rule_format, of cursor]
    by (cases "parse_cursor cursor") (simp_all add: overview_page_def ranked_page_def Let_def enforce_fits)
qed

lemma neighbors_page_fits:
  assumes "\<forall>cursor p. neighbors_page (roomy env) snapshot (sn_id root) direction filt limit cursor = Inr p \<longrightarrow>
      qe_projection_bytes env p \<le> MAX_RESPONSE_BYTES"
    and "resolve_node env snapshot reference = Inr root"
  shows "neighbors env snapshot reference direction filt limit =
    neighbors_page (roomy env) snapshot (sn_id root) direction filt limit"
proof
  fix cursor
  show "neighbors env snapshot reference direction filt limit cursor =
    neighbors_page (roomy env) snapshot (sn_id root) direction filt limit cursor"
    using assms(1) [rule_format, of cursor] assms(2)
    by (cases "parse_cursor cursor") (simp_all add: neighbors_def neighbors_page_def Let_def enforce_fits)
qed

lemma mset_neighbors_edges:
  "mset (neighbors_edges snapshot root direction filt) =
     {#e \<in># mset (ss_edges snapshot). edge_matches_filter e filt \<and>
        (direction \<noteq> Dir_Outgoing \<and> se_to e = root \<or> direction \<noteq> Dir_Incoming \<and> se_from e = root)#}"
  by (cases direction) (auto simp: neighbors_edges_def intro!: filter_mset_cong)

text \<open>C17. Following the cursors of the overview ends and lists every node of the snapshot exactly once, whatever
  page size is asked for, and following the cursors of a node's neighbours lists every matching incident edge
  exactly once, provided that no page of that listing is over the byte limit before anything is shed from it.
  (A page that is over the limit does lose nodes: see \<open>overview_paging_loses_nodes\<close>.)\<close>

theorem pages_cover_everything:
  assumes "\<forall>cursor p. overview_page (roomy env) snapshot limit cursor = Inr p \<longrightarrow>
      qe_projection_bytes env p \<le> MAX_RESPONSE_BYTES"
    and "\<forall>cursor p. neighbors_page (roomy env) snapshot (sn_id root) direction filt limit cursor = Inr p \<longrightarrow>
      qe_projection_bytes env p \<le> MAX_RESPONSE_BYTES"
    and "length (ss_nodes snapshot) \<le> usize_max" and "length (ss_edges snapshot) \<le> usize_max"
    and "resolve_node env snapshot reference = Inr root"
  shows "(\<exists>k nodes. collect_pages k (overview_page env snapshot limit) gp_nodes None = Some nodes \<and>
      mset nodes = mset (ss_nodes snapshot)) \<and>
    (\<exists>k edges. collect_pages k (neighbors env snapshot reference direction filt limit) gp_edges None
        = Some edges \<and>
      mset edges = {#e \<in># mset (ss_edges snapshot). edge_matches_filter e filt \<and>
        (direction \<noteq> Dir_Outgoing \<and> se_to e = sn_id root \<or>
         direction \<noteq> Dir_Incoming \<and> se_from e = sn_id root)#})"
proof
  have "length (rank_by_degree snapshot (ss_nodes snapshot)) \<le> usize_max"
    using assms(3) by (simp add: rank_by_degree_def)
  from overview_pages.collect_all [OF this]
  show "\<exists>k nodes. collect_pages k (overview_page env snapshot limit) gp_nodes None = Some nodes \<and>
      mset nodes = mset (ss_nodes snapshot)"
    unfolding overview_page_fits [OF assms(1)] mset_rank_by_degree by blast
next
  have "length (neighbors_edges snapshot (sn_id root) direction filt) \<le> usize_max"
    using assms(4) le_trans [OF length_filter_le] by (simp add: neighbors_edges_def)
  from neighbor_pages.collect_all [OF this]
  show "\<exists>k edges. collect_pages k (neighbors env snapshot reference direction filt limit) gp_edges None
        = Some edges \<and>
      mset edges = {#e \<in># mset (ss_edges snapshot). edge_matches_filter e filt \<and>
        (direction \<noteq> Dir_Outgoing \<and> se_to e = sn_id root \<or>
         direction \<noteq> Dir_Incoming \<and> se_from e = sn_id root)#}"
    unfolding neighbors_page_fits [OF assms(2,5)] mset_neighbors_edges by blast
qed

section \<open>The byte limit\<close>

lemma remove_last_Some:
  "remove_last p xs = Some ys \<Longrightarrow> \<exists>a x b. xs = a @ x # b \<and> ys = a @ b \<and> p x"
proof (induction xs arbitrary: ys)
  case (Cons x xs)
  show ?case
  proof (cases "remove_last p xs")
    case None
    then have "x # xs = [] @ x # xs" "ys = [] @ xs" "p x" using Cons.prems by (auto split: if_splits)
    then show ?thesis by blast
  next
    case (Some zs)
    then obtain a y b where "xs = a @ y # b" "zs = a @ b" "p y" using Cons.IH by blast
    then have "x # xs = (x # a) @ y # b" "ys = (x # a) @ b" "p y" using Cons.prems Some by auto
    then show ?thesis by blast
  qed
qed simp

lemma remove_last_None: "remove_last p xs = None \<longleftrightarrow> (\<forall>x\<in>set xs. \<not> p x)"
  by (induction xs) (auto split: option.splits)

lemma shed_edges_spec:
  "\<exists>k. shed_edges env p = p\<lparr>gp_edges := take k (gp_edges p)\<rparr> \<and>
     (qe_projection_bytes env (shed_edges env p) \<le> MAX_RESPONSE_BYTES \<or> gp_edges (shed_edges env p) = [])"
proof (induction env p rule: shed_edges.induct)
  case (1 env p)
  show ?case
  proof (cases "qe_projection_bytes env p > MAX_RESPONSE_BYTES \<and> gp_edges p \<noteq> []")
    case True
    then have step: "shed_edges env p = shed_edges env (p\<lparr>gp_edges := butlast (gp_edges p)\<rparr>)"
      by (subst shed_edges.simps) simp
    show ?thesis using 1 [OF True] unfolding step by (auto simp: butlast_conv_take)
  next
    case False
    then have "shed_edges env p = p" by (subst shed_edges.simps) (simp only: if_False)
    moreover have "p = p\<lparr>gp_edges := take (length (gp_edges p)) (gp_edges p)\<rparr>" by simp
    ultimately show ?thesis using False by (metis not_less)
  qed
qed

lemma shed_nodes_spec:
  "\<exists>ns. shed_nodes env ids p = p\<lparr>gp_nodes := ns\<rparr> \<and> set ns \<subseteq> set (gp_nodes p) \<and>
     {n \<in> set (gp_nodes p). sn_id n \<in> set ids} \<subseteq> set ns \<and>
     (qe_projection_bytes env p \<le> MAX_RESPONSE_BYTES \<longrightarrow> ns = gp_nodes p) \<and>
     (qe_projection_bytes env (shed_nodes env ids p) \<le> MAX_RESPONSE_BYTES \<or> sn_id ` set ns \<subseteq> set ids)"
proof (induction env ids p rule: shed_nodes.induct)
  case (1 env ids p)
  show ?case
  proof (cases "qe_projection_bytes env p > MAX_RESPONSE_BYTES")
    case False
    then have "shed_nodes env ids p = p" by (subst shed_nodes.simps) simp
    then show ?thesis using False by (intro exI [of _ "gp_nodes p"]) auto
  next
    case over: True
    show ?thesis
    proof (cases "remove_last (\<lambda>n. sn_id n \<notin> set ids) (gp_nodes p)")
      case None
      then have "shed_nodes env ids p = p" by (subst shed_nodes.simps) simp
      then show ?thesis using over None by (intro exI [of _ "gp_nodes p"]) (auto simp: remove_last_None)
    next
      case (Some zs)
      then have step: "shed_nodes env ids p = shed_nodes env ids (p\<lparr>gp_nodes := zs\<rparr>)"
        using over by (subst shed_nodes.simps) simp
      obtain a x b where x: "gp_nodes p = a @ x # b" "zs = a @ b" "sn_id x \<notin> set ids"
        using remove_last_Some [OF Some] by blast
      obtain ns where ns: "shed_nodes env ids (p\<lparr>gp_nodes := zs\<rparr>) = p\<lparr>gp_nodes := ns\<rparr>"
        "set ns \<subseteq> set zs" "{n \<in> set zs. sn_id n \<in> set ids} \<subseteq> set ns"
        "qe_projection_bytes env (shed_nodes env ids (p\<lparr>gp_nodes := zs\<rparr>)) \<le> MAX_RESPONSE_BYTES \<or>
          sn_id ` set ns \<subseteq> set ids"
        using 1 [OF over Some] by auto
      show ?thesis unfolding step using ns x over by (intro exI [of _ ns]) auto
    qed
  qed
qed

text \<open>The byte limit holds: if leaving out edges never makes a response longer, an enforced
  projection fits the limit or is down to its protected nodes without edges; a response that fitted
  is unchanged, an enforced one is marked truncated; protected nodes are never dropped; and every
  remaining edge of a truncated response joins remaining nodes.\<close>

theorem projection_within_limit:
  assumes "\<forall>p P. qe_projection_bytes env (p\<lparr>gp_edges := filter P (gp_edges p)\<rparr>) \<le> qe_projection_bytes env p"
    and "r = enforce_projection_bytes env p ids"
  shows "(qe_projection_bytes env r \<le> MAX_RESPONSE_BYTES \<or>
      gp_edges r = [] \<and> sn_id ` set (gp_nodes r) \<subseteq> set ids) \<and>
    (if qe_projection_bytes env p \<le> MAX_RESPONSE_BYTES then r = p
     else gp_truncated r \<and> (\<forall>e\<in>set (gp_edges r). between (map sn_id (gp_nodes r)) e)) \<and>
    sn_id ` set (gp_nodes r) \<subseteq> sn_id ` set (gp_nodes p) \<and>
    sn_id ` set (gp_nodes p) \<inter> set ids \<subseteq> sn_id ` set (gp_nodes r)"
proof (cases "qe_projection_bytes env p \<le> MAX_RESPONSE_BYTES")
  case True
  then show ?thesis using assms(2) by (auto simp: enforce_fits)
next
  case False
  define q where "q = p\<lparr>gp_truncated := True, gp_nodes := map strip_node_excerpts (gp_nodes p),
               gp_edges := map strip_edge_excerpts (gp_edges p)\<rparr>"
  define t where "t = shed_edges env q"
  define u where "u = shed_nodes env ids t"
  have r: "r = u\<lparr>gp_edges := filter (between (map sn_id (gp_nodes u))) (gp_edges u)\<rparr>"
    using False assms(2) by (simp add: enforce_projection_bytes_def Let_def q_def t_def u_def)
  have ids: "sn_id ` set (gp_nodes q) = sn_id ` set (gp_nodes p)"
    by (simp add: q_def image_image strip_node_excerpts_def)
  obtain k where t: "t = q\<lparr>gp_edges := take k (gp_edges q)\<rparr>"
    "qe_projection_bytes env t \<le> MAX_RESPONSE_BYTES \<or> gp_edges t = []"
    using shed_edges_spec [of env q] by (auto simp: t_def)
  obtain ns where u: "u = t\<lparr>gp_nodes := ns\<rparr>" "set ns \<subseteq> set (gp_nodes t)"
    "{n \<in> set (gp_nodes t). sn_id n \<in> set ids} \<subseteq> set ns"
    "qe_projection_bytes env t \<le> MAX_RESPONSE_BYTES \<longrightarrow> ns = gp_nodes t"
    "qe_projection_bytes env u \<le> MAX_RESPONSE_BYTES \<or> sn_id ` set ns \<subseteq> set ids"
    using shed_nodes_spec [of env ids t] by (auto simp: u_def)
  have shorter: "qe_projection_bytes env r \<le> qe_projection_bytes env u"
    unfolding r using assms(1) by blast
  have limit: "qe_projection_bytes env r \<le> MAX_RESPONSE_BYTES \<or>
      gp_edges r = [] \<and> sn_id ` set (gp_nodes r) \<subseteq> set ids"
  proof (cases "qe_projection_bytes env u \<le> MAX_RESPONSE_BYTES")
    case True
    then show ?thesis using shorter by simp
  next
    case False
    then have "qe_projection_bytes env t > MAX_RESPONSE_BYTES" using u(1,4) by auto
    then have "gp_edges t = []" using t(2) by simp
    then show ?thesis using False u(1,5) by (simp add: r)
  qed
  have nodes: "gp_nodes r = ns" "gp_nodes t = gp_nodes q" "gp_truncated r"
    using t(1) u(1) by (simp_all add: r q_def)
  have sub: "sn_id ` set ns \<subseteq> sn_id ` set (gp_nodes p)" "sn_id ` set (gp_nodes p) \<inter> set ids \<subseteq> sn_id ` set ns"
    using u(2,3) unfolding nodes(2) ids [symmetric] by blast+
  have closed: "\<forall>e\<in>set (gp_edges r). between (map sn_id (gp_nodes r)) e" by (simp add: r)
  show ?thesis using limit sub closed False nodes(1,3) by simp
qed

section \<open>Node resolution\<close>

text \<open>The way a node answers to a reference: the first of the four whole values that equals it.\<close>

definition answers ::
  "query_env \<Rightarrow> string \<Rightarrow> StructuralGraphNode \<Rightarrow> string \<Rightarrow> bool" where
  "answers env needle node tier \<longleftrightarrow>
     (case rank_node env node needle of None \<Rightarrow> False | Some (_, matched_by) \<Rightarrow> matched_by = tier)"

definition whole_value :: "query_env \<Rightarrow> string \<Rightarrow> StructuralGraphNode \<Rightarrow> string \<Rightarrow> bool" where
  "whole_value env needle node tier \<longleftrightarrow>
     tier = ''id'' \<and> normalize env (sn_id node) = needle \<or>
     tier = ''qualified_name'' \<and> map_option (normalize env) (sn_qualified_name node) = Some needle \<or>
     tier = ''path'' \<and> map_option (normalize env) (sn_path node) = Some needle \<or>
     tier = ''label'' \<and> normalize env (sn_label node) = needle"

lemma answers_whole_value:
  "tier \<in> {''id'', ''qualified_name'', ''path'', ''label''} \<Longrightarrow> answers env needle node tier \<Longrightarrow>
     whole_value env needle node tier"
  by (auto simp: answers_def rank_node_def whole_value_def Let_def split: if_splits option.splits)

lemma whole_value_indexed:
  "whole_value env needle node tier \<Longrightarrow> \<exists>v\<in>set (index_values node). normalize env v = needle"
  by (auto simp: whole_value_def index_values_def)

lemma push_posting_apply:
  "push_posting m e = m(fst e \<mapsto> (case m (fst e) of None \<Rightarrow> [] | Some is \<Rightarrow> is) @ [snd e])"
  by (cases e) (simp add: push_posting_def)

lemma push_posting_lookup:
  "foldl push_posting m es key =
     (case m key of None \<Rightarrow> (if key \<in> fst ` set es then Some (map snd (filter (\<lambda>e. fst e = key) es)) else None)
      | Some xs \<Rightarrow> Some (xs @ map snd (filter (\<lambda>e. fst e = key) es)))"
proof (induction es arbitrary: m)
  case Nil
  then show ?case by (simp split: option.splits)
next
  case (Cons e es)
  show ?case
    unfolding foldl_Cons Cons.IH by (cases "fst e = key"; cases "m key") (simp_all add: push_posting_apply)
qed

lemma exact_index_lookup:
  "exact_index env nodes key =
     (let entries = concat (map (node_entries env) (enumerate 0 nodes))
      in if key \<in> fst ` set entries then Some (map snd (filter (\<lambda>e. fst e = key) entries)) else None)"
  by (simp add: exact_index_def push_posting_lookup)

lemma node_entry_iff:
  "(key, i) \<in> set (concat (map (node_entries env) (enumerate 0 nodes))) \<longleftrightarrow>
     i < length nodes \<and> (\<exists>v\<in>set (index_values (nodes ! i)). normalize env v = key)"
  by (force simp: node_entries_def in_set_enumerate_eq)

lemma candidates_complete:
  assumes "n \<in> set nodes" "whole_value env needle n tier"
  shows "n \<in> set (candidate_nodes (exact_index env nodes) nodes needle)"
proof -
  obtain i where i: "i < length nodes" "nodes ! i = n" using assms(1) by (auto simp: in_set_conv_nth)
  have "(needle, i) \<in> set (concat (map (node_entries env) (enumerate 0 nodes)))"
    using whole_value_indexed [OF assms(2)] i by (simp only: node_entry_iff simp_thms)
  then have "i \<in> set (the (exact_index env nodes needle)) \<and> exact_index env nodes needle \<noteq> None"
    unfolding exact_index_lookup Let_def by (force simp del: set_concat)
  then show ?thesis using i by (auto simp: candidate_nodes_def intro!: image_eqI [of _ _ i])
qed

lemma candidates_sound: "n \<in> set (candidate_nodes exact nodes needle) \<Longrightarrow> n \<in> set nodes"
  by (auto simp: candidate_nodes_def)

lemma resolve_tiers_answers:
  "resolve_tiers env reference needle cs tiers =
     (case tiers of [] \<Rightarrow> Inl (NoNodeMatches reference)
      | tier # rest \<Rightarrow> (case filter (\<lambda>n. answers env needle n tier) cs of
          [] \<Rightarrow> resolve_tiers env reference needle cs rest
        | [n] \<Rightarrow> Inr n
        | ms \<Rightarrow> Inl (ReferenceAmbiguous (length ms))))"
  by (cases tiers) (simp_all add: answers_def)

lemma resolve_tiers_Inr:
  "resolve_tiers env reference needle cs tiers = Inr n \<Longrightarrow>
     \<exists>before tier after. tiers = before @ tier # after \<and> filter (\<lambda>m. answers env needle m tier) cs = [n] \<and>
       (\<forall>t\<in>set before. \<forall>m\<in>set cs. \<not> answers env needle m t)"
proof (induction tiers)
  case (Cons tier rest)
  let ?ms = "filter (\<lambda>m. answers env needle m tier) cs"
  consider "?ms = []" "resolve_tiers env reference needle cs rest = Inr n" | "?ms = [n]"
    using Cons.prems by (subst (asm) resolve_tiers_answers) (auto split: list.splits)
  then show ?case
  proof cases
    case 1
    then obtain before t after where "rest = before @ t # after"
      "filter (\<lambda>m. answers env needle m t) cs = [n]" "\<forall>u\<in>set before. \<forall>m\<in>set cs. \<not> answers env needle m u"
      using Cons.IH by blast
    then show ?thesis using 1(1)
      by (intro exI [of _ "tier # before"] exI [of _ t] exI [of _ after]) (auto simp: filter_empty_conv)
  next
    case 2
    then show ?thesis by (intro exI [of _ "[]"] exI [of _ tier] exI [of _ rest]) simp
  qed
qed simp

text \<open>C18. A reference resolves only to a node that it names: the node is in the snapshot, the reference
  equals its identity, qualified name, path or label (up to normalisation), no other node of the
  snapshot answers to the reference in the same way, and none answers in a stronger way.\<close>

theorem resolve_node_unique:
  assumes "resolve_node env snapshot reference = Inr n"
  shows "n \<in> set (ss_nodes snapshot) \<and>
    (\<exists>before tier after. [''id'', ''qualified_name'', ''path'', ''label''] = before @ tier # after \<and>
       whole_value env (normalize env reference) n tier \<and>
       (\<forall>m\<in>set (ss_nodes snapshot). answers env (normalize env reference) m tier \<longrightarrow> m = n) \<and>
       (\<forall>t\<in>set before. \<forall>m\<in>set (ss_nodes snapshot). \<not> answers env (normalize env reference) m t))"
proof -
  let ?needle = "normalize env reference" and ?nodes = "ss_nodes snapshot"
  let ?cs = "candidate_nodes (exact_index env ?nodes) ?nodes ?needle"
  let ?tiers = "[''id'', ''qualified_name'', ''path'', ''label'']"
  have "resolve_tiers env reference ?needle ?cs ?tiers = Inr n"
    using assms unfolding resolve_node_def resolve_in_def Let_def by (simp only: split: if_splits) simp
  from resolve_tiers_Inr [OF this] obtain before tier after where split: "?tiers = before @ tier # after"
    and one: "filter (\<lambda>m. answers env ?needle m tier) ?cs = [n]"
    and none: "\<forall>t\<in>set before. \<forall>m\<in>set ?cs. \<not> answers env ?needle m t"
    by (elim exE conjE) (rule that)
  have "tier \<in> set (before @ tier # after)" "set before \<subseteq> set (before @ tier # after)"
    by (auto simp only: set_append list.set(2))
  then have tiers: "tier \<in> set ?tiers" "set before \<subseteq> set ?tiers" unfolding split [symmetric] .
  have "n \<in> set (filter (\<lambda>m. answers env ?needle m tier) ?cs)" unfolding one by simp
  then have n: "n \<in> set ?cs" "answers env ?needle n tier" by simp_all
  have listed: "m \<in> set ?cs" if "m \<in> set ?nodes" "answers env ?needle m t" "t \<in> set ?tiers" for m t
    by (rule candidates_complete [OF that(1) answers_whole_value [OF _ that(2)]]) (use that(3) in simp)
  have "m = n" if "m \<in> set ?nodes" "answers env ?needle m tier" for m
  proof -
    have "m \<in> set (filter (\<lambda>m. answers env ?needle m tier) ?cs)" using listed [OF that tiers(1)] that(2) by simp
    then show ?thesis unfolding one by simp
  qed
  moreover have "\<not> answers env ?needle m t" if "t \<in> set before" "m \<in> set ?nodes" for m t
    using listed [of m t] none that tiers(2) by blast
  moreover have "whole_value env ?needle n tier" by (rule answers_whole_value [OF _ n(2)]) (use tiers(1) in simp)
  ultimately show ?thesis using candidates_sound [OF n(1)] split by blast
qed

section \<open>The index cache\<close>

text \<open>Every cached index is the one of a known snapshot of that identity.\<close>

definition cache_ok :: "query_env \<Rightarrow> StructuralGraphSnapshot set \<Rightarrow> index_cache \<Rightarrow> bool" where
  "cache_ok env S cache \<longleftrightarrow>
     length cache \<le> MAX_QUERY_INDEXES \<and> distinct (map fst cache) \<and>
     (\<forall>(i, index)\<in>set cache. \<exists>s\<in>S. ss_id s = i \<and> index = exact_index env (ss_nodes s))"

lemma length_update_le: "length (AList.update k v xs) \<le> Suc (length xs)"
  by (induction xs) auto

lemma in_update: "e \<in> set (AList.update k v xs) \<Longrightarrow> e \<in> set xs \<or> e = (k, v)"
  by (induction xs) (auto split: if_splits)

lemma query_index_ok:
  assumes "\<forall>s\<in>S. \<forall>t\<in>S. ss_id s = ss_id t \<longrightarrow> ss_nodes s = ss_nodes t"
    and "cache_ok env S cache" "snapshot \<in> S"
  shows "fst (query_index env readable writable cache snapshot) = exact_index env (ss_nodes snapshot) \<and>
    cache_ok env S (snd (query_index env readable writable cache snapshot))"
proof (cases "readable \<and> map_of cache (ss_id snapshot) \<noteq> None")
  case True
  then obtain index where index: "map_of cache (ss_id snapshot) = Some index" by auto
  then have "(ss_id snapshot, index) \<in> set cache" by (rule map_of_SomeD)
  then obtain s where "s \<in> S" "ss_id s = ss_id snapshot" "index = exact_index env (ss_nodes s)"
    using assms(2) by (auto simp: cache_ok_def)
  moreover from this have "ss_nodes s = ss_nodes snapshot" using assms(1,3) by blast
  ultimately show ?thesis using assms(2) True index by (simp add: query_index_def)
next
  case False
  let ?index = "exact_index env (ss_nodes snapshot)"
  let ?kept = "if length cache \<ge> MAX_QUERY_INDEXES then [] else cache"
  have kept: "length ?kept < MAX_QUERY_INDEXES" "cache_ok env S ?kept"
    using assms(2) by (auto simp: cache_ok_def MAX_QUERY_INDEXES_def)
  have "cache_ok env S (AList.update (ss_id snapshot) ?index ?kept)"
    unfolding cache_ok_def
  proof (intro conjI ballI)
    show "length (AList.update (ss_id snapshot) ?index ?kept) \<le> MAX_QUERY_INDEXES"
      using kept(1) length_update_le [of "ss_id snapshot" ?index ?kept] by linarith
    show "distinct (map fst (AList.update (ss_id snapshot) ?index ?kept))"
      using kept(2) by (intro distinct_update) (simp add: cache_ok_def)
    fix e
    assume "e \<in> set (AList.update (ss_id snapshot) ?index ?kept)"
    then have "e \<in> set ?kept \<or> e = (ss_id snapshot, ?index)" by (rule in_update)
    then show "case e of (i, index) \<Rightarrow> \<exists>s\<in>S. ss_id s = i \<and> index = exact_index env (ss_nodes s)"
      using kept(2) assms(3) by (cases e) (auto simp: cache_ok_def)
  qed
  then show ?thesis using False assms(2) by (auto simp: query_index_def remember_index_def Let_def split: option.splits)
qed

fun ask_all ::
  "query_env \<Rightarrow> index_cache \<Rightarrow> (bool \<times> bool \<times> StructuralGraphSnapshot \<times> string) list
     \<Rightarrow> (graph_error, StructuralGraphNode) result list \<times> index_cache" where
  "ask_all env cache [] = ([], cache)"
| "ask_all env cache ((readable, writable, snapshot, reference) # asks) =
     (let (index, cache') = query_index env readable writable cache snapshot;
          (answers, cache'') = ask_all env cache' asks
      in (resolve_in env index snapshot reference # answers, cache''))"

lemma ask_all_ok:
  assumes ids: "\<forall>s\<in>S. \<forall>t\<in>S. ss_id s = ss_id t \<longrightarrow> ss_nodes s = ss_nodes t"
  shows "cache_ok env S cache \<Longrightarrow> \<forall>(readable, writable, s, reference)\<in>set asks. s \<in> S \<Longrightarrow>
    fst (ask_all env cache asks) = map (\<lambda>(readable, writable, s, reference). resolve_node env s reference) asks \<and>
    cache_ok env S (snd (ask_all env cache asks))"
proof (induction asks arbitrary: cache)
  case (Cons a asks)
  obtain rd wr s ref where a: "a = (rd, wr, s, ref)" by (cases a) auto
  have s: "s \<in> S" using Cons.prems(2) a by simp
  note q = query_index_ok [OF ids Cons.prems(1) s, of rd wr]
  have rest: "\<forall>(readable, writable, s, reference)\<in>set asks. s \<in> S" using Cons.prems(2) by simp
  show ?case
    using q Cons.IH [OF conjunct2 [OF q] rest]
    by (cases "query_index env rd wr cache s";
        cases "ask_all env (snd (query_index env rd wr cache s)) asks") (simp add: a resolve_node_def)
qed simp

text \<open>The cache of indexes is transparent: as long as snapshots with the same identity have the same
  nodes, every resolution through the process-wide cache answers as one on a fresh index, whatever
  was asked before and whether or not the locks could be taken, and at most sixteen indexes are
  ever kept.\<close>

theorem index_cache_transparent:
  assumes "\<forall>s\<in>S. \<forall>t\<in>S. ss_id s = ss_id t \<longrightarrow> ss_nodes s = ss_nodes t"
    and "\<forall>(readable, writable, s, reference)\<in>set asks. s \<in> S"
  shows "fst (ask_all env [] asks) = map (\<lambda>(readable, writable, s, reference). resolve_node env s reference) asks \<and>
    length (snd (ask_all env [] asks)) \<le> MAX_QUERY_INDEXES"
proof -
  have "cache_ok env S []" by (simp add: cache_ok_def)
  from ask_all_ok [OF assms(1) this assms(2)] show ?thesis by (simp add: cache_ok_def)
qed

section \<open>What the code does not do\<close>

text \<open>A file cannot be resolved by its path. The extractor gives a file node its path as qualified
  name, path and label; the exact index lists the node once for each of them, and the resolution
  counts the listings, so it reports at least three matches for one node.\<close>

theorem file_path_is_ambiguous:
  assumes "n \<in> set (ss_nodes snapshot)"
    and "sn_qualified_name n = Some p" and "sn_path n = Some p" and "sn_label n = p"
    and "normalize env p \<noteq> []"
    and "\<forall>m\<in>set (ss_nodes snapshot). normalize env (sn_id m) \<noteq> normalize env p"
  shows "\<exists>k\<ge>3. resolve_node env snapshot p = Inl (ReferenceAmbiguous k)"
proof -
  let ?nodes = "ss_nodes snapshot" and ?needle = "normalize env p"
  let ?es = "concat (map (node_entries env) (enumerate 0 ?nodes))"
  let ?cs = "candidate_nodes (exact_index env ?nodes) ?nodes ?needle"
  let ?f = "\<lambda>es. map ((!) ?nodes) (filter (\<lambda>i. i < length ?nodes) (map snd (filter (\<lambda>e. fst e = ?needle) es)))"
  obtain i where i: "i < length ?nodes" "?nodes ! i = n" using assms(1) by (auto simp: in_set_conv_nth)
  have split: "enumerate 0 ?nodes = take i (enumerate 0 ?nodes) @ [(i, n)] @ drop (Suc i) (enumerate 0 ?nodes)"
    using id_take_nth_drop [of i "enumerate 0 ?nodes"] i by (simp add: nth_enumerate_eq)
  have es: "?es = concat (map (node_entries env) (take i (enumerate 0 ?nodes))) @ node_entries env (i, n) @
      concat (map (node_entries env) (drop (Suc i) (enumerate 0 ?nodes)))"
    by (subst split) simp
  have id: "normalize env (sn_id n) \<noteq> ?needle" using assms(1,6) by blast
  have n: "answers env ?needle n ''qualified_name''"
    using id assms(2) by (simp add: answers_def rank_node_def)
  have three: "?f (node_entries env (i, n)) = [n, n, n]"
    using id assms(2-4) i by (simp add: node_entries_def index_values_def)
  have "?needle \<in> fst ` set ?es"
    unfolding es using assms(4) by (auto simp: node_entries_def index_values_def)
  then have cs: "?cs = ?f ?es" by (simp add: candidate_nodes_def exact_index_lookup)
  have "filter (\<lambda>m. answers env ?needle m ''qualified_name'') (?f ?es) =
      filter (\<lambda>m. answers env ?needle m ''qualified_name'') (?f (concat (map (node_entries env) (take i (enumerate 0 ?nodes))))) @
      [n, n, n] @
      filter (\<lambda>m. answers env ?needle m ''qualified_name'') (?f (concat (map (node_entries env) (drop (Suc i) (enumerate 0 ?nodes)))))"
    unfolding es filter_append map_append three using n by simp
  then have "length (filter (\<lambda>m. answers env ?needle m ''qualified_name'') ?cs) \<ge> 3" by (simp add: cs)
  then obtain a b c r where many: "filter (\<lambda>m. answers env ?needle m ''qualified_name'') ?cs = a # b # c # r"
    by (auto simp: numeral_3_eq_3 Suc_le_length_iff)
  have none: "filter (\<lambda>m. answers env ?needle m ''id'') ?cs = []"
    using assms(6) candidates_sound by (auto simp: filter_empty_conv answers_def rank_node_def Let_def split: if_splits)
  have "resolve_tiers env p ?needle ?cs [''id'', ''qualified_name'', ''path'', ''label''] = Inl (ReferenceAmbiguous (length (a # b # c # r)))"
    by (subst resolve_tiers_answers, simp only: none list.case, subst resolve_tiers_answers, simp only: many list.case)
  then show ?thesis
    using assms(5) by (auto simp: resolve_node_def resolve_in_def Let_def simp del: resolve_tiers.simps)
qed

section \<open>Samples\<close>

definition sample_graph_node :: "string \<Rightarrow> StructuralGraphNode" where
  "sample_graph_node i = \<lparr>sn_id = i, sn_kind = ''file'', sn_label = ''/'' @ i, sn_qualified_name = Some (''/'' @ i),
     sn_path = Some (''/'' @ i), sn_detail = None, sn_language = None, sn_community_id = None,
     sn_trust = Trust_Extracted, sn_origin = Origin_Syntax, sn_sources = []\<rparr>"

definition sample_graph_edge :: "string \<Rightarrow> string \<Rightarrow> string \<Rightarrow> StructuralGraphEdge" where
  "sample_graph_edge i a b = \<lparr>se_id = i, se_from = a, se_to = b, se_kind = ''calls'', se_evidence = [],
     se_trust = Trust_Extracted, se_origin = Origin_Syntax, se_sources = [], se_candidates = []\<rparr>"

definition sample_snapshot_of ::
  "StructuralGraphNode list \<Rightarrow> StructuralGraphEdge list \<Rightarrow> StructuralGraphSnapshot" where
  "sample_snapshot_of nodes edges = \<lparr>ss_schema_version = 3, ss_id = ''s'', ss_repo_path = ''/r'', ss_repo_head = None,
     ss_created_at = ''t'', ss_engine = \<lparr>ei_id = ''e'', ei_version = ''1'', ei_bundled = True,
       ei_syntax_aware = True, ei_supported_languages = []\<rparr>, ss_cursor = None, ss_ignore_fingerprint = None,
     ss_coverage = \<lparr>sc_discovered_files = 1, sc_indexed_files = 1, sc_skipped_files = 0, sc_error_files = 0,
       sc_generated_files = 0, sc_sensitive_files = 0, sc_binary_files = 0, sc_languages = []\<rparr>,
     ss_diagnostics = [], ss_communities = [], ss_files = [], ss_nodes = nodes, ss_edges = edges,
     ss_metrics = [], ss_clone_groups = [], ss_truncated = False\<rparr>"

definition sample_env :: "nat \<Rightarrow> query_env" where
  "sample_env per_node = \<lparr>qe_lowercase = (\<lambda>s. s), qe_projection_bytes = (\<lambda>p. per_node * length (gp_nodes p)),
     qe_search_bytes = (\<lambda>r. length (sr_hits r)), qe_impact_bytes = (\<lambda>r. length (gi_affected r))\<rparr>"

lemmas sample_graph = sample_graph_node_def sample_graph_edge_def sample_snapshot_of_def sample_env_def

lemma sample_snapshot_simps [simp]:
  "ss_nodes (sample_snapshot_of nodes edges) = nodes"
  "ss_edges (sample_snapshot_of nodes edges) = edges"
  "ss_id (sample_snapshot_of nodes edges) = ''s''"
  by (simp_all add: sample_snapshot_of_def)

lemma sample_node_id [simp]: "sn_id (sample_graph_node i) = i"
  by (simp add: sample_graph_node_def)

lemma strip_node_id [simp]: "sn_id (strip_node_excerpts n) = sn_id n"
  by (simp add: strip_node_excerpts_def)

lemma sample_normalize [simp]: "normalize (sample_env k) v = map (\<lambda>c. if c = CHR 0x5C then CHR ''/'' else c) (trim v)"
  by (simp add: normalize_def sample_env_def)

text \<open>The overview loses nodes when a page is over the byte limit: three nodes of 600 kilobytes are
  asked for two at a time, the first page sheds its second node to fit, and its cursor skips the
  shed node; following the cursors lists two of the three nodes.\<close>

theorem overview_paging_loses_nodes:
  "\<exists>snapshot xs. map sn_id (ss_nodes snapshot) = [''a'', ''b'', ''c''] \<and>
     collect_pages 3 (overview_page (sample_env 614400) snapshot (Some 2)) gp_nodes None = Some xs \<and>
     map sn_id xs = [''a'', ''c'']"
proof -
  let ?s = "sample_snapshot_of (map sample_graph_node [''a'', ''b'', ''c'']) []"
  let ?e = "sample_env 614400"
  have ids: "map sn_id (ss_nodes ?s) = [''a'', ''b'', ''c'']" by (simp add: sample_graph)
  have ranked: "rank_by_degree ?s (ss_nodes ?s) = map sample_graph_node [''a'', ''b'', ''c'']"
    by (simp add: rank_by_degree_def sample_graph degree_of_def)
  have bytes: "qe_projection_bytes ?e p = 614400 * length (gp_nodes p)" for p by (simp add: sample_env_def)
  have two: "decimal (Suc (Suc 0)) = ''2''" by (simp add: decimal.simps char_of_eq_iff)
  have c2: "parse_cursor (Some ''2'') = Inr 2"
    by (simp add: parse_cursor_def parse_usize_def digits_value_def digit_value_def is_ascii_digit_def usize_max_def)
  have shed: "shed_nodes ?e [] p = p\<lparr>gp_nodes := [x]\<rparr>" if "gp_nodes p = [x, y]" for p x y
    using that by (subst shed_nodes.simps, subst shed_nodes.simps) (simp add: bytes MAX_RESPONSE_BYTES_def)
  have edges: "shed_edges ?e p = p" if "gp_edges p = []" for p
    using that by (subst shed_edges.simps) simp
  have page1: "\<exists>p. overview_page ?e ?s (Some 2) None = Inr p \<and> map sn_id (gp_nodes p) = [''a''] \<and> gp_next_cursor p = Some ''2''"
    unfolding overview_page_def Let_def parse_cursor_start and_then_simps ranked ranked_page_def
    by (simp add: bounded_limit_def clamp_def MAX_LIMIT_def enforce_projection_bytes_def shed edges two Let_def
        bytes MAX_RESPONSE_BYTES_def)
  have page2: "\<exists>p. overview_page ?e ?s (Some 2) (Some ''2'') = Inr p \<and> map sn_id (gp_nodes p) = [''c''] \<and> gp_next_cursor p = None"
    unfolding overview_page_def Let_def c2 and_then_simps ranked ranked_page_def
    by (simp add: bounded_limit_def clamp_def MAX_LIMIT_def enforce_projection_bytes_def Let_def
        bytes MAX_RESPONSE_BYTES_def)
  from page1 obtain p where p: "overview_page ?e ?s (Some 2) None = Inr p" "map sn_id (gp_nodes p) = [''a'']"
    "gp_next_cursor p = Some ''2''" by (elim exE conjE)
  from page2 obtain q where q: "overview_page ?e ?s (Some 2) (Some ''2'') = Inr q" "map sn_id (gp_nodes q) = [''c'']"
    "gp_next_cursor q = None" by (elim exE conjE)
  have "collect_pages 3 (overview_page ?e ?s (Some 2)) gp_nodes None = Some (gp_nodes p @ gp_nodes q)"
    using p q by (simp add: numeral_3_eq_3)
  then show ?thesis using ids p(2) q(2) by (intro exI [of _ ?s] exI [of _ "gp_nodes p @ gp_nodes q"]) simp
qed

section \<open>Witnesses\<close>

definition sample_pair :: StructuralGraphSnapshot where
  "sample_pair = sample_snapshot_of [sample_graph_node ''a'', sample_graph_node ''b'']
     [sample_graph_edge ''e'' ''a'' ''b'']"

definition sample_triple :: StructuralGraphSnapshot where
  "sample_triple = sample_snapshot_of (map sample_graph_node [''a'', ''b'', ''c'']) [sample_graph_edge ''e'' ''a'' ''b'']"

lemma sample_resolve:
  "resolve_node (sample_env k) sample_pair ''a'' = Inr (sample_graph_node ''a'')"
  "resolve_node (sample_env k) sample_triple ''a'' = Inr (sample_graph_node ''a'')"
  by (simp_all add: resolve_node_def resolve_in_def sample_pair_def sample_triple_def candidate_nodes_def exact_index_def push_posting_def
      node_entries_def index_values_def rank_node_def sample_graph_node_def text_eval Let_def)

text \<open>Three nodes of 500 kilobytes: a page of one fits, and so do a node and its neighbour; all three do not.\<close>

theorem pages_cover_everything_witness:
  "(\<exists>k nodes. collect_pages k (overview_page (sample_env 500000) sample_triple (Some 1)) gp_nodes None = Some nodes \<and>
      mset nodes = mset (ss_nodes sample_triple)) \<and>
    (\<exists>k edges. collect_pages k (neighbors (sample_env 500000) sample_triple ''a'' Dir_Outgoing
        \<lparr>fl_node_kinds = [], fl_edge_kinds = [], fl_trust = []\<rparr> (Some 1)) gp_edges None = Some edges \<and>
      mset edges = {#e \<in># mset (ss_edges sample_triple).
        edge_matches_filter e \<lparr>fl_node_kinds = [], fl_edge_kinds = [], fl_trust = []\<rparr> \<and>
        (Dir_Outgoing \<noteq> Dir_Outgoing \<and> se_to e = sn_id (sample_graph_node ''a'') \<or>
         Dir_Outgoing \<noteq> Dir_Incoming \<and> se_from e = sn_id (sample_graph_node ''a''))#})"
proof (rule pages_cover_everything [OF _ _ _ _ sample_resolve(2)])
  have bytes: "qe_projection_bytes (sample_env 500000) p = 500000 * length (gp_nodes p)" for p by (simp add: sample_env_def)
  have one: "bounded_limit (Some (Suc 0)) = Suc 0" by (simp add: bounded_limit_def clamp_def MAX_LIMIT_def)
  show "\<forall>cursor p. overview_page (roomy (sample_env 500000)) sample_triple (Some 1) cursor = Inr p \<longrightarrow>
      qe_projection_bytes (sample_env 500000) p \<le> MAX_RESPONSE_BYTES"
  proof (intro allI impI)
    fix cursor p
    assume page: "overview_page (roomy (sample_env 500000)) sample_triple (Some 1) cursor = Inr p"
    have "length (gp_nodes p) \<le> 1"
      using page by (auto simp: overview_page_def ranked_page_def Let_def and_then_Inr_iff one split: if_splits)
    then show "qe_projection_bytes (sample_env 500000) p \<le> MAX_RESPONSE_BYTES" by (simp add: bytes MAX_RESPONSE_BYTES_def)
  qed
  show "\<forall>cursor p. neighbors_page (roomy (sample_env 500000)) sample_triple (sn_id (sample_graph_node ''a'')) Dir_Outgoing
      \<lparr>fl_node_kinds = [], fl_edge_kinds = [], fl_trust = []\<rparr> (Some 1) cursor = Inr p \<longrightarrow>
      qe_projection_bytes (sample_env 500000) p \<le> MAX_RESPONSE_BYTES"
  proof (intro allI impI)
    fix cursor p
    assume page: "neighbors_page (roomy (sample_env 500000)) sample_triple (sn_id (sample_graph_node ''a'')) Dir_Outgoing
      \<lparr>fl_node_kinds = [], fl_edge_kinds = [], fl_trust = []\<rparr> (Some 1) cursor = Inr p"
    obtain offset where p: "gp_nodes p = sort_key sn_id (filter (\<lambda>n. node_matches_filter n \<lparr>fl_node_kinds = [], fl_edge_kinds = [],
          fl_trust = []\<rparr> \<or> sn_id n = ''a'') (List.map_filter (node_map sample_triple) (remdups (''a'' # concat (map (\<lambda>e. [se_from e, se_to e])
            (take 1 (drop offset (neighbors_edges sample_triple ''a'' Dir_Outgoing \<lparr>fl_node_kinds = [], fl_edge_kinds = [], fl_trust = []\<rparr>))))))))"
      using page by (auto simp: neighbors_page_def Let_def and_then_Inr_iff one)
    have "length (gp_nodes p) \<le> 2"
    proof -
      have edges: "neighbors_edges sample_triple ''a'' Dir_Outgoing \<lparr>fl_node_kinds = [], fl_edge_kinds = [], fl_trust = []\<rparr> =
          [sample_graph_edge ''e'' ''a'' ''b'']"
        by (simp add: neighbors_edges_def sample_triple_def sample_graph_edge_def edge_matches_filter_def)
      have shorter: "length (List.map_filter f xs) \<le> length xs" for f :: "string \<Rightarrow> StructuralGraphNode option" and xs
        by (induction xs) (auto simp: List.map_filter_simps split: option.split)
      have "length (remdups (''a'' # concat (map (\<lambda>e. [se_from e, se_to e]) (take 1 (drop offset [sample_graph_edge ''e'' ''a'' ''b'']))))) \<le> 2"
        by (cases offset) (simp_all add: sample_graph_edge_def)
      then show ?thesis unfolding p edges length_sort
        by (rule order_trans [OF order_trans [OF length_filter_le shorter]])
    qed
    then show "qe_projection_bytes (sample_env 500000) p \<le> MAX_RESPONSE_BYTES" by (simp add: bytes MAX_RESPONSE_BYTES_def)
  qed
qed (simp_all add: sample_triple_def usize_max_def)

definition sample_projection :: GraphProjection where
  "sample_projection = \<lparr>gp_nodes = [sample_graph_node ''a'', sample_graph_node ''b''],
     gp_edges = [sample_graph_edge ''e'' ''a'' ''b''], gp_truncated = False, gp_next_cursor = None,
     gp_context = query_context sample_pair\<rparr>"

theorem projection_within_limit_witness:
  "qe_projection_bytes (sample_env 614400) sample_projection > MAX_RESPONSE_BYTES \<and>
   qe_projection_bytes (sample_env 614400) (enforce_projection_bytes (sample_env 614400) sample_projection [])
     \<le> MAX_RESPONSE_BYTES"
proof -
  have "\<forall>p P. qe_projection_bytes (sample_env 614400) (p\<lparr>gp_edges := filter P (gp_edges p)\<rparr>)
      \<le> qe_projection_bytes (sample_env 614400) p"
    by (simp add: sample_env_def)
  from projection_within_limit [OF this refl, of sample_projection "[]"]
  have "qe_projection_bytes (sample_env 614400) (enforce_projection_bytes (sample_env 614400) sample_projection [])
     \<le> MAX_RESPONSE_BYTES"
    by (auto simp: sample_env_def)
  then show ?thesis by (simp add: sample_env_def sample_projection_def MAX_RESPONSE_BYTES_def)
qed

theorem resolve_node_unique_witness:
  "sample_graph_node ''a'' \<in> set (ss_nodes sample_pair) \<and>
   (\<exists>before tier after. [''id'', ''qualified_name'', ''path'', ''label''] = before @ tier # after \<and>
     whole_value (sample_env 0) (normalize (sample_env 0) ''a'') (sample_graph_node ''a'') tier \<and>
     (\<forall>m\<in>set (ss_nodes sample_pair). answers (sample_env 0) (normalize (sample_env 0) ''a'') m tier \<longrightarrow>
        m = sample_graph_node ''a'') \<and>
     (\<forall>t\<in>set before. \<forall>m\<in>set (ss_nodes sample_pair).
        \<not> answers (sample_env 0) (normalize (sample_env 0) ''a'') m t))"
  by (rule resolve_node_unique [OF sample_resolve(1)])

theorem index_cache_transparent_witness:
  "fst (ask_all (sample_env 0) [] [(True, True, sample_pair, ''a''), (True, False, sample_pair, ''/b'')]) =
     map (\<lambda>(readable, writable, s, reference). resolve_node (sample_env 0) s reference)
       [(True, True, sample_pair, ''a''), (True, False, sample_pair, ''/b'')] \<and>
   length (snd (ask_all (sample_env 0) [] [(True, True, sample_pair, ''a''), (True, False, sample_pair, ''/b'')]))
     \<le> MAX_QUERY_INDEXES"
  by (rule index_cache_transparent [of "{sample_pair}"]) simp_all

theorem file_path_is_ambiguous_witness:
  "\<exists>k\<ge>3. resolve_node (sample_env 0) sample_pair ''/b'' = Inl (ReferenceAmbiguous k)"
  by (rule file_path_is_ambiguous [of "sample_graph_node ''b''"])
    (simp_all add: sample_pair_def sample_graph_node_def text_eval)

end
