(* ===== verification/Graph_Reach.thy ===== *)
theory Graph_Reach
  imports Graph_Impact Graph_Answers
begin

text \<open>
  What the two breadth-first searches of Graph_Impact answer. The invariant \<open>level_inv\<close> of the shared
  visit of a node's edges says that the queue is ordered by depth and that the nodes already expanded
  have all their ends seen; from it an answer that is not truncated is exactly the set of nodes
  reachable within the depth, \<open>impact_exact\<close> and \<open>subgraph_exact\<close>.
\<close>

section \<open>Breadth-first levels\<close>

text \<open>
  Both loops visit the edges of a node in the same way while nothing is cut: an unseen end is
  appended to the seen nodes and to the queue.
\<close>

definition visit ::
  "string \<Rightarrow> nat \<Rightarrow> (string \<times> nat) list \<times> string list \<Rightarrow> StructuralGraphEdge
     \<Rightarrow> (string \<times> nat) list \<times> string list" where
  "visit n depth = (\<lambda>(queue, seen) e.
     if other_end n e \<in> set seen then (queue, seen)
     else (queue @ [(other_end n e, depth + 1)], seen @ [other_end n e]))"

definition frontier :: "search_state \<Rightarrow> (string \<times> nat) list \<times> string list" where
  "frontier st = (st_queue st, st_seen st)"

lemma impact_edges_visit:
  "\<not> st_truncated (impact_edges limit n depth st es) \<Longrightarrow>
     frontier (impact_edges limit n depth st es) = foldl (visit n depth) (frontier st) es"
  by (induction es arbitrary: st) (simp_all add: Let_def frontier_def visit_def split: if_splits)

lemma subgraph_edges_truncated: "st_truncated st \<Longrightarrow> st_truncated (subgraph_edges limit n depth st es)"
  by (induction es arbitrary: st) (simp_all add: Let_def)

lemma subgraph_edges_visit:
  "\<not> st_truncated (subgraph_edges limit n depth st es) \<Longrightarrow>
     frontier (subgraph_edges limit n depth st es) = foldl (visit n depth) (frontier st) es"
proof (induction es arbitrary: st)
  case (Cons e es)
  let ?s = "st\<lparr>st_edge_ids := List.insert (se_id e) (st_edge_ids st)\<rparr>"
  let ?t = "?s\<lparr>st_seen := st_seen st @ [other_end n e], st_queue := st_queue st @ [(other_end n e, depth + 1)]\<rparr>"
  consider (skip) "length (st_seen st) \<ge> limit" "other_end n e \<notin> set (st_seen st)"
    | (seen) "other_end n e \<in> set (st_seen st)"
    | (fresh) "length (st_seen st) < limit" "other_end n e \<notin> set (st_seen st)"
    by linarith
  then show ?case
  proof cases
    case skip
    then show ?thesis using Cons.prems subgraph_edges_truncated [of "st\<lparr>st_truncated := True\<rparr>"] by simp
  next
    case seen
    then show ?thesis using Cons.IH [of ?s] Cons.prems by (simp add: frontier_def visit_def)
  next
    case fresh
    then have "subgraph_edges limit n depth st (e # es) = subgraph_edges limit n depth ?t es"
      by (simp add: Let_def)
    then show ?thesis using Cons.IH [of ?t] Cons.prems fresh by (simp add: frontier_def visit_def)
  qed
qed simp

lemma visit_seen:
  "set (snd (foldl (visit n depth) f es)) = set (snd f) \<union> other_end n ` set es \<and>
   (distinct (snd f) \<longrightarrow> distinct (snd (foldl (visit n depth) f es)))"
  by (induction es arbitrary: f) (auto simp: visit_def split: prod.splits)

text \<open>
  The invariant: every seen node has a depth, the length of a path to it; the queue is ordered by
  depth and never more than one level deep; and the ends of a node that has left the queue are seen,
  at most one level deeper.
\<close>

definition levels ::
  "(string \<Rightarrow> string \<Rightarrow> bool) \<Rightarrow> string set \<Rightarrow> nat \<Rightarrow> (string \<Rightarrow> nat) \<Rightarrow> string list \<Rightarrow> bool" where
  "levels lk roots mx dep seen \<longleftrightarrow>
     roots \<subseteq> set seen \<and> (\<forall>r\<in>roots. dep r = 0) \<and>
     (\<forall>x\<in>set seen. dep x \<le> mx \<and> (\<exists>r\<in>roots. (lk ^^ dep x) r x))"

definition queued :: "(string \<Rightarrow> nat) \<Rightarrow> (string \<times> nat) list \<Rightarrow> string list \<Rightarrow> nat \<Rightarrow> bool" where
  "queued dep q seen d \<longleftrightarrow>
     (\<forall>(x, e)\<in>set q. x \<in> set seen \<and> e = dep x \<and> d \<le> e) \<and> sorted (map snd q) \<and>
     (\<forall>x\<in>set seen. dep x \<le> d + 1)"

definition closed_under ::
  "(string \<Rightarrow> string \<Rightarrow> bool) \<Rightarrow> nat \<Rightarrow> (string \<Rightarrow> nat) \<Rightarrow> string set \<Rightarrow> string list \<Rightarrow> bool" where
  "closed_under lk mx dep pending seen \<longleftrightarrow>
     (\<forall>x\<in>set seen. x \<notin> pending \<and> dep x < mx \<longrightarrow> (\<forall>y. lk x y \<longrightarrow> y \<in> set seen \<and> dep y \<le> dep x + 1))"

definition level_inv ::
  "(string \<Rightarrow> string \<Rightarrow> bool) \<Rightarrow> string set \<Rightarrow> nat \<Rightarrow> (string \<times> nat) list \<times> string list \<Rightarrow> bool" where
  "level_inv lk roots mx f \<longleftrightarrow>
     (\<exists>dep. levels lk roots mx dep (snd f) \<and>
        (fst f \<noteq> [] \<longrightarrow> queued dep (fst f) (snd f) (snd (hd (fst f)))) \<and>
        closed_under lk mx dep (fst ` set (fst f)) (snd f))"

lemma visit_step:
  assumes "levels lk roots mx dep seen" "queued dep q seen d" "n \<in> set seen" "dep n = d" "d < mx"
    "closed_under lk mx dep (insert n (fst ` set q)) seen" "lk n (other_end n e)"
  shows "\<exists>dep'. levels lk roots mx dep' (snd (visit n d (q, seen) e)) \<and>
    queued dep' (fst (visit n d (q, seen) e)) (snd (visit n d (q, seen) e)) d \<and> dep' n = d \<and>
    n \<in> set (snd (visit n d (q, seen) e)) \<and>
    closed_under lk mx dep' (insert n (fst ` set (fst (visit n d (q, seen) e)))) (snd (visit n d (q, seen) e))"
proof (cases "other_end n e \<in> set seen")
  case True
  then show ?thesis using assms by (auto simp: visit_def)
next
  case False
  let ?b = "other_end n e"
  let ?dep = "dep(?b := Suc d)"
  have v: "visit n d (q, seen) e = (q @ [(?b, d + 1)], seen @ [?b])" using False by (simp add: visit_def)
  have nb: "n \<noteq> ?b" using assms(3) False by auto
  obtain r where r: "r \<in> roots" "(lk ^^ d) r n"
    using assms(1,3,4) by (auto simp: levels_def)
  have "(lk ^^ Suc d) r ?b" using r(2) assms(7) by auto
  then have reach: "\<exists>r\<in>roots. (lk ^^ Suc d) r ?b" using r(1) by blast
  have l: "levels lk roots mx ?dep (seen @ [?b])"
    unfolding levels_def
  proof (intro conjI ballI)
    show "roots \<subseteq> set (seen @ [?b])" using assms(1) by (auto simp: levels_def)
    show "?dep x = 0" if "x \<in> roots" for x using that assms(1) False by (auto simp: levels_def)
    show "?dep x \<le> mx" if "x \<in> set (seen @ [?b])" for x
      using that assms(1,5) by (auto simp: levels_def)
    show "\<exists>r\<in>roots. (lk ^^ ?dep x) r x" if "x \<in> set (seen @ [?b])" for x
    proof (cases "x = ?b")
      case True
      then show ?thesis using reach by simp
    next
      case False
      then show ?thesis using that assms(1) by (auto simp: levels_def)
    qed
  qed
  have "\<forall>(x, k)\<in>set q. k \<le> d + 1" using assms(2) by (auto simp: queued_def)
  then have "sorted (map snd q @ [Suc d])" using assms(2) by (auto simp: queued_def sorted_append)
  then have qd: "queued ?dep (q @ [(?b, d + 1)]) (seen @ [?b]) d"
    using assms(2) False by (auto simp: queued_def)
  have "closed_under lk mx ?dep (insert n (fst ` set (q @ [(?b, d + 1)]))) (seen @ [?b])"
    using assms(6) False unfolding closed_under_def by fastforce
  then show ?thesis using l qd nb assms(3,4) unfolding v by (intro exI [of _ ?dep]) simp
qed

lemma visit_run:
  assumes "levels lk roots mx dep (snd f)" "queued dep (fst f) (snd f) d" "n \<in> set (snd f)" "dep n = d" "d < mx"
    "closed_under lk mx dep (insert n (fst ` set (fst f))) (snd f)" "\<forall>e\<in>set es. lk n (other_end n e)"
  shows "\<exists>dep'. levels lk roots mx dep' (snd (foldl (visit n d) f es)) \<and>
    queued dep' (fst (foldl (visit n d) f es)) (snd (foldl (visit n d) f es)) d \<and> dep' n = d \<and>
    closed_under lk mx dep' (insert n (fst ` set (fst (foldl (visit n d) f es)))) (snd (foldl (visit n d) f es))"
  using assms
proof (induction es arbitrary: f dep)
  case (Cons e es)
  obtain q seen where f: "f = (q, seen)" by (cases f)
  obtain dep' where d: "levels lk roots mx dep' (snd (visit n d f e))"
    "queued dep' (fst (visit n d f e)) (snd (visit n d f e)) d" "dep' n = d" "n \<in> set (snd (visit n d f e))"
    "closed_under lk mx dep' (insert n (fst ` set (fst (visit n d f e)))) (snd (visit n d f e))"
    using visit_step [of lk roots mx dep seen q d n e] Cons.prems unfolding f by auto
  show ?case unfolding foldl_Cons using Cons.IH [OF d(1,2,4,3) Cons.prems(5) d(5)] Cons.prems(7) by simp
qed auto

lemma level_pop_deep:
  assumes "level_inv lk roots mx ((n, d) # q, seen)" "d \<ge> mx"
  shows "level_inv lk roots mx (q, seen)"
proof -
  obtain dep where dep: "levels lk roots mx dep seen" "queued dep ((n, d) # q) seen d"
    "closed_under lk mx dep (fst ` set ((n, d) # q)) seen"
    using assms(1) by (auto simp: level_inv_def)
  have n: "dep n = d" using dep(2) by (auto simp: queued_def)
  have "closed_under lk mx dep (fst ` set q) seen"
    using dep(3) n assms(2) unfolding closed_under_def by auto
  moreover have "queued dep q seen (snd (hd q))" if "q \<noteq> []"
    using dep(2) that by (cases q) (fastforce simp: queued_def)+
  ultimately show ?thesis using dep(1) by (auto simp: level_inv_def)
qed

lemma level_visit:
  assumes "level_inv lk roots mx ((n, d) # q, seen)" "d < mx"
    "\<forall>y. lk n y \<longleftrightarrow> (\<exists>e\<in>set es. other_end n e = y)"
  shows "level_inv lk roots mx (foldl (visit n d) (q, seen) es)"
proof -
  let ?f = "foldl (visit n d) (q, seen) es"
  obtain dep where dep: "levels lk roots mx dep seen" "queued dep ((n, d) # q) seen d"
    "closed_under lk mx dep (fst ` set ((n, d) # q)) seen"
    using assms(1) by (auto simp: level_inv_def)
  have n: "dep n = d" "n \<in> set seen" using dep(2) by (auto simp: queued_def)
  have "queued dep q seen d" using dep(2) by (auto simp: queued_def)
  then obtain dep' where d: "levels lk roots mx dep' (snd ?f)" "queued dep' (fst ?f) (snd ?f) d" "dep' n = d"
    "closed_under lk mx dep' (insert n (fst ` set (fst ?f))) (snd ?f)"
    using visit_run [of lk roots mx dep "(q, seen)" d n es] dep(1,3) n assms(2,3) by auto
  have done_n: "y \<in> set (snd ?f) \<and> dep' y \<le> d + 1" if "lk n y" for y
  proof -
    have "y \<in> set (snd ?f)" using that assms(3) visit_seen [of n d "(q, seen)" es] by auto
    then show ?thesis using d(2) by (auto simp: queued_def)
  qed
  have "closed_under lk mx dep' (fst ` set (fst ?f)) (snd ?f)"
    using d(3,4) done_n unfolding closed_under_def by (metis insertE)
  moreover have "queued dep' (fst ?f) (snd ?f) (snd (hd (fst ?f)))" if "fst ?f \<noteq> []"
    using d(2) that by (cases "fst ?f") (fastforce simp: queued_def)+
  ultimately show ?thesis using d(1) by (auto simp: level_inv_def)
qed

lemma level_begin: "roots \<noteq> [] \<Longrightarrow> level_inv lk (set roots) mx (map (\<lambda>r. (r, 0)) roots, remdups roots)"
  unfolding level_inv_def
  by (intro exI [of _ "\<lambda>_. 0"])
    (auto simp: levels_def queued_def closed_under_def sorted_map map_replicate_const hd_map comp_def
      image_image)

lemma level_done:
  assumes "level_inv lk roots mx ([], seen)"
  shows "set seen = {y. \<exists>r\<in>roots. \<exists>k\<le>mx. (lk ^^ k) r y}"
proof -
  obtain dep where dep: "levels lk roots mx dep seen" "closed_under lk mx dep {} seen"
    using assms by (auto simp: level_inv_def)
  have "y \<in> set seen \<and> dep y \<le> k" if "r \<in> roots" "k \<le> mx" "(lk ^^ k) r y" for r k y
    using that
  proof (induction k arbitrary: y)
    case 0
    then show ?case using dep(1) by (auto simp: levels_def)
  next
    case (Suc k)
    then obtain x where x: "(lk ^^ k) r x" "lk x y" by auto
    then have "x \<in> set seen \<and> dep x \<le> k" using Suc by simp
    then show ?case using dep(2) x(2) Suc.prems(2) by (fastforce simp: closed_under_def)
  qed
  then show ?thesis using dep(1) unfolding levels_def by blast
qed

section \<open>The two loops\<close>

lemma impact_loop_levels:
  assumes "\<not> st_truncated (impact_loop mx limit adj st)" "level_inv lk roots mx (frontier st)"
    "\<forall>n y. lk n y \<longleftrightarrow> (\<exists>e\<in>set (adj n). other_end n e = y)"
    "length (st_seen st) \<le> limit + 1" "distinct (st_seen st)"
  shows "set (st_seen (impact_loop mx limit adj st)) = {y. \<exists>r\<in>roots. \<exists>k\<le>mx. (lk ^^ k) r y} \<and>
    distinct (st_seen (impact_loop mx limit adj st)) \<and> length (st_seen (impact_loop mx limit adj st)) \<le> limit + 1"
  using assms
proof (induction mx limit adj st rule: impact_loop.induct)
  case (1 mx limit adj st)
  show ?case
  proof (cases "st_queue st")
    case Nil
    then have "impact_loop mx limit adj st = st" by (simp add: impact_loop.simps [of mx limit adj st])
    moreover have "level_inv lk roots mx ([], st_seen st)" using 1(4) Nil by (simp add: frontier_def)
    ultimately show ?thesis using level_done 1(6,7) by simp
  next
    case (Cons p q)
    obtain n d where p: "p = (n, d)" by (cases p)
    let ?t = "st\<lparr>st_queue := q, st_depth_reached := max (st_depth_reached st) d\<rparr>"
    have inv: "level_inv lk roots mx ((n, d) # q, st_seen st)" using 1(4) Cons p by (simp add: frontier_def)
    show ?thesis
    proof (cases "mx \<le> d")
      case True
      then have step: "impact_loop mx limit adj st = impact_loop mx limit adj ?t"
        using Cons p by (simp add: impact_loop.simps [of mx limit adj st])
      have "level_inv lk roots mx (frontier ?t)" using level_pop_deep [OF inv True] by (simp add: frontier_def)
      then show ?thesis unfolding step
        by (rule 1(1) [OF Cons p [symmetric] refl True, rotated]) (use 1(3,6,7) step in \<open>simp_all add: 1(5)\<close>)
    next
      case False
      let ?u = "impact_edges limit n d ?t (adj n)"
      have cut: "\<not> st_truncated ?u"
        using 1(3) False Cons p by (auto simp: impact_loop.simps [of mx limit adj st] Let_def split: if_splits)
      have step: "impact_loop mx limit adj st = impact_loop mx limit adj ?u"
        using Cons p False cut by (simp add: impact_loop.simps [of mx limit adj st] Let_def)
      have f: "frontier ?u = foldl (visit n d) (q, st_seen st) (adj n)"
        using impact_edges_visit [OF cut] by (simp add: frontier_def)
      have "\<forall>y. lk n y \<longleftrightarrow> (\<exists>e\<in>set (adj n). other_end n e = y)" using 1(5) by blast
      from level_visit [OF inv _ this] have inv': "level_inv lk roots mx (frontier ?u)" using False f by simp
      have few: "length (st_seen ?u) \<le> limit + 1"
        using impact_edges_measure [OF _ cut] 1(6) by simp
      have once: "distinct (st_seen ?u)"
        using visit_seen [of n d "(q, st_seen st)" "adj n"] 1(7) f by (simp add: frontier_def flip: f)
      have "\<not> st_truncated (impact_loop mx limit adj ?u)" using 1(3) step by simp
      then show ?thesis unfolding step
        by (rule 1(2) [OF Cons p [symmetric] refl False refl cut _ inv' 1(5) few once])
    qed
  qed
qed

lemma subgraph_loop_truncated:
  "st_truncated st \<Longrightarrow> st_truncated (subgraph_loop mx limit adj st)"
proof (induction mx limit adj st rule: subgraph_loop.induct)
  case (1 mx limit adj st)
  show ?case
    using 1 by (subst subgraph_loop.simps) (auto simp: Let_def subgraph_edges_truncated split: list.splits)
qed

lemma subgraph_loop_levels:
  assumes "\<not> st_truncated (subgraph_loop mx limit adj st)" "level_inv lk roots mx (frontier st)"
    "\<forall>n y. lk n y \<longleftrightarrow> (\<exists>e\<in>set (adj n). other_end n e = y)"
  shows "set (st_seen (subgraph_loop mx limit adj st)) = {y. \<exists>r\<in>roots. \<exists>k\<le>mx. (lk ^^ k) r y}"
  using assms
proof (induction mx limit adj st rule: subgraph_loop.induct)
  case (1 mx limit adj st)
  show ?case
  proof (cases "st_queue st")
    case Nil
    then have "subgraph_loop mx limit adj st = st" by (simp add: subgraph_loop.simps [of mx limit adj st])
    moreover have "level_inv lk roots mx ([], st_seen st)" using 1(4) Nil by (simp add: frontier_def)
    ultimately show ?thesis using level_done by simp
  next
    case (Cons p q)
    obtain n d where p: "p = (n, d)" by (cases p)
    let ?t = "st\<lparr>st_queue := q\<rparr>"
    have inv: "level_inv lk roots mx ((n, d) # q, st_seen st)" using 1(4) Cons p by (simp add: frontier_def)
    show ?thesis
    proof (cases "mx \<le> d")
      case True
      then have step: "subgraph_loop mx limit adj st = subgraph_loop mx limit adj ?t"
        using Cons p by (simp add: subgraph_loop.simps [of mx limit adj st])
      have "level_inv lk roots mx (frontier ?t)" using level_pop_deep [OF inv True] by (simp add: frontier_def)
      then show ?thesis unfolding step
        by (rule 1(1) [OF Cons p [symmetric] refl True, rotated]) (use 1(3) step in \<open>simp_all add: 1(5)\<close>)
    next
      case False
      let ?u = "subgraph_edges limit n d ?t (adj n)"
      have step: "subgraph_loop mx limit adj st = subgraph_loop mx limit adj ?u"
        using Cons p False by (simp add: subgraph_loop.simps [of mx limit adj st] Let_def)
      have cut: "\<not> st_truncated ?u" using 1(3) subgraph_loop_truncated unfolding step by blast
      have f: "frontier ?u = foldl (visit n d) (q, st_seen st) (adj n)"
        using subgraph_edges_visit [OF cut] by (simp add: frontier_def)
      have "\<forall>y. lk n y \<longleftrightarrow> (\<exists>e\<in>set (adj n). other_end n e = y)" using 1(5) by blast
      from level_visit [OF inv _ this] have inv': "level_inv lk roots mx (frontier ?u)" using False f by simp
      have "\<not> st_truncated (subgraph_loop mx limit adj ?u)" using 1(3) step by simp
      then show ?thesis unfolding step by (rule 1(2) [OF Cons p [symmetric] refl False _ inv' 1(5)])
    qed
  qed
qed

section \<open>Exactness\<close>

text \<open>One hop of the snapshot in a direction, over the edges the filter lets through.\<close>

definition linked ::
  "StructuralGraphSnapshot \<Rightarrow> GraphDirection \<Rightarrow> GraphQueryFilter \<Rightarrow> string \<Rightarrow> string \<Rightarrow> bool" where
  "linked snapshot direction filt a b \<longleftrightarrow>
     (\<exists>e\<in>set (ss_edges snapshot). edge_matches_filter e filt \<and>
        (direction \<noteq> Dir_Outgoing \<and> se_to e = a \<and> se_from e = b \<or>
         direction \<noteq> Dir_Incoming \<and> se_from e = a \<and> se_to e = b))"

lemma impact_adjacency_linked:
  "linked snapshot direction filt n y \<longleftrightarrow>
     (\<exists>e\<in>set (impact_adjacency snapshot direction filt n). other_end n e = y)"
  by (cases direction)
    (force simp: linked_def impact_adjacency_def adjacent_def matching_edges_def other_end_def)+

lemma subgraph_adjacency_linked:
  "linked snapshot Dir_Both filt n y \<longleftrightarrow>
     (\<exists>e\<in>set (subgraph_adjacency snapshot filt n). other_end n e = y)"
  by (force simp: linked_def subgraph_adjacency_def matching_edges_def other_end_def)

lemma node_map_Some: "node_map snapshot i = Some n \<Longrightarrow> sn_id n = i \<and> n \<in> set (ss_nodes snapshot)"
  by (auto simp: node_map_def identity_map_def dest!: map_of_SomeD)

lemma shed_impact_edges_truncated [simp]: "gi_truncated (shed_impact_edges env r) = gi_truncated r"
  by (induction env r rule: shed_impact_edges.induct) (subst shed_impact_edges.simps, simp)

lemma shed_affected_truncated [simp]: "gi_truncated (shed_affected env r) = gi_truncated r"
  by (induction env r rule: shed_affected.induct) (subst shed_affected.simps, simp)

lemma enforce_impact_untruncated:
  "\<not> gi_truncated (enforce_impact_bytes env r) \<Longrightarrow> enforce_impact_bytes env r = r"
  by (auto simp: enforce_impact_bytes_def Let_def split: if_splits)

lemma map_filter_none [simp]: "List.map_filter f [] = []" by (simp add: List.map_filter_def)

lemma affected_nodes:
  assumes "distinct ids"
  shows "set (List.map_filter (node_map snapshot) ids) = {n. node_map snapshot (sn_id n) = Some n \<and> sn_id n \<in> set ids}"
    and "distinct (map sn_id (List.map_filter (node_map snapshot) ids))"
    and "length (List.map_filter (node_map snapshot) ids) \<le> length ids"
proof -
  have id: "map_option sn_id (node_map snapshot i) = Some i" if "node_map snapshot i \<noteq> None" for i
    using that node_map_Some [of snapshot i] by (cases "node_map snapshot i") auto
  show "set (List.map_filter (node_map snapshot) ids) = {n. node_map snapshot (sn_id n) = Some n \<and> sn_id n \<in> set ids}"
  proof (rule set_eqI, rule iffI)
    show "n \<in> {n. node_map snapshot (sn_id n) = Some n \<and> sn_id n \<in> set ids}"
      if "n \<in> set (List.map_filter (node_map snapshot) ids)" for n
      using that by (clarsimp simp: List.map_filter_def) (metis node_map_Some)
    show "n \<in> set (List.map_filter (node_map snapshot) ids)"
      if "n \<in> {n. node_map snapshot (sn_id n) = Some n \<and> sn_id n \<in> set ids}" for n
      using that by (force simp: List.map_filter_def)
  qed
  have "map sn_id (List.map_filter (node_map snapshot) ids) = filter (\<lambda>i. node_map snapshot i \<noteq> None) ids"
    by (induction ids) (auto simp: List.map_filter_def dest: node_map_Some)
  then show "distinct (map sn_id (List.map_filter (node_map snapshot) ids))" using assms by simp
  show "length (List.map_filter (node_map snapshot) ids) \<le> length ids"
    by (simp add: List.map_filter_def le_trans [OF length_filter_le])
qed

lemma impact_result_whole:
  assumes "\<not> gi_truncated (impact_result env snapshot root n st)"
  shows "\<not> st_truncated st" and "gi_root (impact_result env snapshot root n st) = root"
    and "gi_affected (impact_result env snapshot root n st) =
      take n (sort_key sn_id (List.map_filter (node_map snapshot) (filter (\<lambda>i. i \<noteq> sn_id root) (st_seen st))))"
    and "\<forall>e\<in>set (gi_edges (impact_result env snapshot root n st)). e \<in> set (ss_edges snapshot) \<and>
      {se_from e, se_to e} \<subseteq> insert (sn_id root) (sn_id ` set (gi_affected (impact_result env snapshot root n st)))"
proof -
  note whole = enforce_impact_untruncated [OF assms [unfolded impact_result_def Let_def]]
  show "\<not> st_truncated st" using assms whole unfolding impact_result_def Let_def by auto
  show "gi_root (impact_result env snapshot root n st) = root"
    and a: "gi_affected (impact_result env snapshot root n st) =
      take n (sort_key sn_id (List.map_filter (node_map snapshot) (filter (\<lambda>i. i \<noteq> sn_id root) (st_seen st))))"
    unfolding impact_result_def Let_def whole by simp_all
  show "\<forall>e\<in>set (gi_edges (impact_result env snapshot root n st)). e \<in> set (ss_edges snapshot) \<and>
      {se_from e, se_to e} \<subseteq> insert (sn_id root) (sn_id ` set (gi_affected (impact_result env snapshot root n st)))"
    unfolding a unfolding impact_result_def Let_def whole by (auto simp: between_def dest!: in_set_takeD)
qed

lemma impact_seen:
  assumes "st = impact_loop mx n (impact_adjacency snapshot direction filt) (search_begin [root])"
    "\<not> st_truncated st"
  shows "set (st_seen st) = {y. \<exists>k\<le>mx. (linked snapshot direction filt ^^ k) root y}"
    and "distinct (st_seen st)" and "length (filter (\<lambda>i. i \<noteq> root) (st_seen st)) \<le> n"
proof -
  have seen: "set (st_seen st) = {y. \<exists>x\<in>{root}. \<exists>k\<le>mx. (linked snapshot direction filt ^^ k) x y} \<and>
      distinct (st_seen st) \<and> length (st_seen st) \<le> n + 1"
    unfolding assms(1)
  proof (rule impact_loop_levels)
    show "level_inv (linked snapshot direction filt) {root} mx (frontier (search_begin [root]))"
      using level_begin [of "[root]"] by (simp add: search_begin_def frontier_def)
  qed (use assms(2) [unfolded assms(1)] impact_adjacency_linked in \<open>auto simp: search_begin_def\<close>)
  then show "set (st_seen st) = {y. \<exists>k\<le>mx. (linked snapshot direction filt ^^ k) root y}" "distinct (st_seen st)"
    by simp_all
  have "root \<in> set (st_seen st)" using seen by force
  then show "length (filter (\<lambda>i. i \<noteq> root) (st_seen st)) \<le> n"
    using seen length_filter_less [of root "st_seen st" "\<lambda>i. i \<noteq> root"] by simp
qed

text \<open>C14. The impact of a node is exact when it is not truncated: the affected nodes are the nodes of
  the snapshot other than the root that some chain of at most \<open>depth\<close> filtered edges in the asked
  direction connects with it, each listed once and in the order of the ids, and the edges are edges
  of the snapshot between the nodes of the answer.\<close>

theorem impact_exact:
  assumes "impact env snapshot reference direction depth filt limit = Inr r" "\<not> gi_truncated r"
  shows "resolve_node env snapshot reference = Inr (gi_root r) \<and>
    set (gi_affected r) = {n. node_map snapshot (sn_id n) = Some n \<and> sn_id n \<noteq> sn_id (gi_root r) \<and>
      (\<exists>k \<le> clamp 1 12 (case depth of None \<Rightarrow> 3 | Some d \<Rightarrow> d).
         (linked snapshot direction filt ^^ k) (sn_id (gi_root r)) (sn_id n))} \<and>
    sorted (map sn_id (gi_affected r)) \<and> distinct (map sn_id (gi_affected r)) \<and>
    (\<forall>e\<in>set (gi_edges r). e \<in> set (ss_edges snapshot) \<and>
       {se_from e, se_to e} \<subseteq> insert (sn_id (gi_root r)) (sn_id ` set (gi_affected r)))"
proof -
  let ?mx = "clamp 1 12 (case depth of None \<Rightarrow> 3 | Some d \<Rightarrow> d)"
  let ?n = "bounded_limit limit"
  obtain root where root: "resolve_node env snapshot reference = Inr root"
    using assms(1) by (cases "resolve_node env snapshot reference") (simp_all add: impact_def)
  define st where "st = impact_loop ?mx ?n (impact_adjacency snapshot direction filt) (search_begin [sn_id root])"
  have r: "r = impact_result env snapshot root ?n st"
    using assms(1) root by (simp add: impact_def st_def Let_def)
  note whole = impact_result_whole [OF assms(2) [unfolded r], folded r]
  note seen = impact_seen [OF st_def whole(1)]
  let ?ids = "filter (\<lambda>i. i \<noteq> sn_id root) (st_seen st)"
  have once: "distinct ?ids" using seen(2) by simp
  have "length (List.map_filter (node_map snapshot) ?ids) \<le> ?n"
    using affected_nodes(3) [OF once] seen(3) le_trans by blast
  then have aff: "gi_affected r = sort_key sn_id (List.map_filter (node_map snapshot) ?ids)"
    using whole(3) by simp
  have "distinct (map sn_id (gi_affected r))"
    unfolding aff using affected_nodes(2) [OF once] by (simp add: distinct_map)
  moreover have "set (gi_affected r) = {n. node_map snapshot (sn_id n) = Some n \<and> sn_id n \<noteq> sn_id root \<and>
      (\<exists>k \<le> ?mx. (linked snapshot direction filt ^^ k) (sn_id root) (sn_id n))}"
    unfolding aff using affected_nodes(1) [OF once] seen(1) by auto
  moreover have "sorted (map sn_id (gi_affected r))" unfolding aff by simp
  ultimately show ?thesis using root whole(2,4) by simp
qed

lemma shed_edges_truncated [simp]: "gp_truncated (shed_edges env p) = gp_truncated p"
  using shed_edges_spec [of env p] by (elim exE conjE) simp

lemma shed_nodes_truncated [simp]: "gp_truncated (shed_nodes env ids p) = gp_truncated p"
  using shed_nodes_spec [of env ids p] by (elim exE conjE) simp

lemma enforce_projection_untruncated:
  "\<not> gp_truncated (enforce_projection_bytes env p ids) \<Longrightarrow> enforce_projection_bytes env p ids = p"
  by (auto simp: enforce_projection_bytes_def Let_def split: if_splits)

lemma one_of_roots: "list_ex (\<lambda>r. sn_id r = i) roots \<longleftrightarrow> i \<in> sn_id ` set roots"
  by (induction roots) auto

lemma subgraph_seen:
  assumes "st = subgraph_loop mx n (subgraph_adjacency snapshot filt) (search_begin roots)" "roots \<noteq> []"
    "\<not> st_truncated st"
  shows "set (st_seen st) = {y. \<exists>r\<in>set roots. \<exists>k\<le>mx. (linked snapshot Dir_Both filt ^^ k) r y}"
  unfolding assms(1)
proof (rule subgraph_loop_levels)
  show "level_inv (linked snapshot Dir_Both filt) (set roots) mx (frontier (search_begin roots))"
    using level_begin [OF assms(2)] by (simp add: search_begin_def frontier_def)
qed (use assms(1,3) subgraph_adjacency_linked in auto)

text \<open>C19. A subgraph is exact when it is not truncated: its nodes are the nodes of the snapshot that a
  chain of at most \<open>depth\<close> filtered edges, in either direction, connects with a seed, less the ones
  the node filter rejects (the seeds themselves are kept), in the order of the ids, and its edges are
  edges of the snapshot between them.\<close>

theorem subgraph_exact:
  assumes "subgraph env snapshot seeds depth filt limit = Inr p" "\<not> gp_truncated p"
  shows "\<exists>roots. list_all2 (\<lambda>seed root. resolve_node env snapshot seed = Inr root) seeds roots \<and>
    set (gp_nodes p) = {n \<in> set (ss_nodes snapshot).
      (node_matches_filter n filt \<or> sn_id n \<in> sn_id ` set roots) \<and>
      (\<exists>root\<in>set roots. \<exists>k \<le> clamp 0 8 (case depth of None \<Rightarrow> 2 | Some d \<Rightarrow> d).
         (linked snapshot Dir_Both filt ^^ k) (sn_id root) (sn_id n))} \<and>
    sorted (map sn_id (gp_nodes p)) \<and>
    (\<forall>e\<in>set (gp_edges p). e \<in> set (ss_edges snapshot) \<and>
       {se_from e, se_to e} \<subseteq> sn_id ` set (gp_nodes p))"
proof -
  let ?mx = "clamp 0 8 (case depth of None \<Rightarrow> 2 | Some d \<Rightarrow> d)"
  have seeds: "seeds \<noteq> []" using assms(1) by (auto simp: subgraph_def)
  obtain roots where roots: "try_map (resolve_node env snapshot) seeds = Inr roots"
    using assms(1) seeds by (cases "try_map (resolve_node env snapshot) seeds") (simp_all add: subgraph_def Let_def)
  then have all: "list_all2 (\<lambda>seed root. resolve_node env snapshot seed = Inr root) seeds roots"
    by (simp add: try_map_Inr_iff)
  then have some: "map sn_id roots \<noteq> []" using seeds by auto
  define st where "st = subgraph_loop ?mx (bounded_limit limit) (subgraph_adjacency snapshot filt)
      (search_begin (map sn_id roots))"
  have p: "p = subgraph_result env snapshot filt roots st"
    using assms(1) seeds roots by (simp add: subgraph_def st_def Let_def)
  note whole = enforce_projection_untruncated [OF assms(2) [unfolded p subgraph_result_def Let_def]]
  have cut: "\<not> st_truncated st" using assms(2) whole unfolding p subgraph_result_def Let_def by auto
  have "set (gp_nodes p) = {n \<in> set (ss_nodes snapshot). sn_id n \<in> set (st_seen st) \<and>
      (node_matches_filter n filt \<or> sn_id n \<in> sn_id ` set roots)}"
    unfolding p subgraph_result_def Let_def whole by (auto simp: one_of_roots)
  moreover have "sorted (map sn_id (gp_nodes p))"
    unfolding p subgraph_result_def Let_def whole by simp
  moreover have "\<forall>e\<in>set (gp_edges p). e \<in> set (ss_edges snapshot) \<and>
       {se_from e, se_to e} \<subseteq> sn_id ` set (gp_nodes p)"
    unfolding p subgraph_result_def Let_def whole by (auto simp: between_def dest!: in_set_takeD)
  ultimately show ?thesis using all subgraph_seen [OF st_def some cut] by auto
qed

section \<open>Witnesses\<close>

definition any_edge :: GraphQueryFilter where
  "any_edge = \<lparr>fl_node_kinds = [], fl_edge_kinds = [], fl_trust = []\<rparr>"

lemma any_edge_matches [simp]: "edge_matches_filter e any_edge" "node_matches_filter n any_edge"
  by (simp_all add: edge_matches_filter_def node_matches_filter_def any_edge_def)

lemmas sample_walk = sample_pair_def matching_edges_def impact_adjacency_def subgraph_adjacency_def
  adjacent_def other_end_def search_begin_def sample_graph_edge_def

lemma sample_impact:
  "\<exists>r. impact (sample_env 0) sample_pair ''a'' Dir_Outgoing None any_edge None = Inr r \<and>
     \<not> gi_truncated r \<and> map sn_id (gi_affected r) = [''b'']"
  unfolding impact_def sample_resolve and_then_simps Let_def impact_result_def
  by (simp add: sample_walk impact_loop.simps Let_def clamp_def bounded_limit_def MAX_LIMIT_def DEFAULT_LIMIT_def
     List.map_filter_def node_map_def identity_map_def enforce_impact_bytes_def sample_env_def MAX_RESPONSE_BYTES_def
     between_def MAX_EDGE_LIMIT_def)

lemma sample_subgraph:
  "\<exists>r. subgraph (sample_env 0) sample_pair [''a''] None any_edge None = Inr r \<and>
     \<not> gp_truncated r \<and> map sn_id (gp_nodes r) = [''a'', ''b'']"
  by (simp add: subgraph_def sample_resolve Let_def subgraph_result_def)
    (simp add: sample_walk subgraph_loop.simps Let_def clamp_def bounded_limit_def MAX_LIMIT_def DEFAULT_LIMIT_def
     enforce_projection_bytes_def sample_env_def MAX_RESPONSE_BYTES_def
     between_def MAX_EDGE_LIMIT_def)

theorem impact_exact_witness:
  "\<exists>r :: GraphImpactResult. map sn_id (gi_affected r) = [''b''] \<and>
     resolve_node (sample_env 0) sample_pair ''a'' = Inr (gi_root r) \<and>
     set (gi_affected r) = {n. node_map sample_pair (sn_id n) = Some n \<and> sn_id n \<noteq> sn_id (gi_root r) \<and>
      (\<exists>k \<le> clamp 1 12 (case None of None \<Rightarrow> 3 | Some d \<Rightarrow> d).
         (linked sample_pair Dir_Outgoing any_edge ^^ k) (sn_id (gi_root r)) (sn_id n))} \<and>
     sorted (map sn_id (gi_affected r)) \<and> distinct (map sn_id (gi_affected r)) \<and>
     (\<forall>e\<in>set (gi_edges r). e \<in> set (ss_edges sample_pair) \<and>
       {se_from e, se_to e} \<subseteq> insert (sn_id (gi_root r)) (sn_id ` set (gi_affected r)))"
proof -
  obtain r where r: "impact (sample_env 0) sample_pair ''a'' Dir_Outgoing None any_edge None = Inr r"
    "\<not> gi_truncated r" "map sn_id (gi_affected r) = [''b'']"
    using sample_impact by (elim exE conjE)
  show ?thesis by (rule exI [of _ r], rule conjI [OF r(3)], rule impact_exact [OF r(1,2)])
qed

theorem subgraph_exact_witness:
  "\<exists>p :: GraphProjection. map sn_id (gp_nodes p) = [''a'', ''b''] \<and>
   (\<exists>roots. list_all2 (\<lambda>seed root. resolve_node (sample_env 0) sample_pair seed = Inr root) [''a''] roots \<and>
    set (gp_nodes p) = {n \<in> set (ss_nodes sample_pair).
      (node_matches_filter n any_edge \<or> sn_id n \<in> sn_id ` set roots) \<and>
      (\<exists>root\<in>set roots. \<exists>k \<le> clamp 0 8 (case None of None \<Rightarrow> 2 | Some d \<Rightarrow> d).
         (linked sample_pair Dir_Both any_edge ^^ k) (sn_id root) (sn_id n))} \<and>
    sorted (map sn_id (gp_nodes p)) \<and>
    (\<forall>e\<in>set (gp_edges p). e \<in> set (ss_edges sample_pair) \<and>
       {se_from e, se_to e} \<subseteq> sn_id ` set (gp_nodes p)))"
proof -
  obtain p where p: "subgraph (sample_env 0) sample_pair [''a''] None any_edge None = Inr p"
    "\<not> gp_truncated p" "map sn_id (gp_nodes p) = [''a'', ''b'']"
    using sample_subgraph by (elim exE conjE)
  show ?thesis by (rule exI [of _ p], rule conjI [OF p(3)], rule subgraph_exact [OF p(1,2)])
qed

end
