(* ===== verification/Graph_Components.thy ===== *)
theory Graph_Components
  imports Structural_Graph
begin

text \<open>
  The depth-first search of \<open>structural_graph/analysis.rs\<close> and the strongly connected components it
  yields: \<open>finish_order\<close> is the explicit stack of the first pass, \<open>collect_component\<close> the stack of
  the second one over the incoming edges. Every index into a vector is checked, a panic is \<open>None\<close>. The
  result is compared with the classes of nodes that reach each other.
\<close>

section \<open>Depth-first searches\<close>

text \<open>
  Both searches keep the seen nodes as a vector of flags, and an index outside of a vector is a panic
  of the code, \<open>None\<close> here. The top of a stack is the head of its list.
\<close>

definition unseen :: "bool list \<Rightarrow> nat" where
  "unseen seen = length (filter Not seen)"

lemma unseen_update: "i < length seen \<Longrightarrow> \<not> seen ! i \<Longrightarrow> unseen (seen[i := True]) < unseen seen"
proof (induction seen arbitrary: i)
  case (Cons b seen)
  then show ?case by (cases i) (auto simp: unseen_def)
qed simp

definition frame_work :: "nat list list \<Rightarrow> nat \<times> nat \<Rightarrow> nat" where
  "frame_work graph = (\<lambda>(node, next_neighbor). Suc (length (graph ! node) - next_neighbor))"

function finish_order ::
  "nat list list \<Rightarrow> (nat \<times> nat) list \<Rightarrow> bool list \<Rightarrow> nat list \<Rightarrow> (bool list \<times> nat list) option" where
  "finish_order graph stack seen order =
     (case stack of
        [] \<Rightarrow> Some (seen, order)
      | (node, next_neighbor) # rest \<Rightarrow>
          if node \<ge> length graph then None
          else if next_neighbor < length (graph ! node) then
            (let target = graph ! node ! next_neighbor;
                 stack = (node, next_neighbor + 1) # rest
             in if target \<ge> length seen then None
                else if \<not> seen ! target
                  then finish_order graph ((target, 0) # stack) (seen[target := True]) order
                else finish_order graph stack seen order)
          else finish_order graph rest seen (order @ [node]))"
  by pat_completeness auto
termination
  by (relation "measures [\<lambda>(graph, stack, seen, order). unseen seen,
      \<lambda>(graph, stack, seen, order). sum_list (map (frame_work graph) stack)]")
    (auto simp: frame_work_def intro: unseen_update)

declare finish_order.simps [simp del]

fun visit_all ::
  "nat list list \<Rightarrow> nat list \<Rightarrow> bool list \<Rightarrow> nat list \<Rightarrow> (bool list \<times> nat list) option" where
  "visit_all graph [] seen order = Some (seen, order)"
| "visit_all graph (start # starts) seen order =
     (if seen ! start then visit_all graph starts seen order
      else case finish_order graph [(start, 0)] (seen[start := True]) order of
             None \<Rightarrow> None
           | Some (seen, order) \<Rightarrow> visit_all graph starts seen order)"

fun push_unseen :: "nat list \<Rightarrow> bool list \<Rightarrow> nat list \<Rightarrow> (bool list \<times> nat list) option" where
  "push_unseen [] seen stack = Some (seen, stack)"
| "push_unseen (target # targets) seen stack =
     (if target \<ge> length seen then None
      else if \<not> seen ! target then push_unseen targets (seen[target := True]) (target # stack)
      else push_unseen targets seen stack)"

lemma push_unseen_measure:
  "push_unseen targets seen stack = Some (seen', stack') \<Longrightarrow>
     2 * unseen seen' + length stack' \<le> 2 * unseen seen + length stack"
proof (induction targets seen stack rule: push_unseen.induct)
  case (2 target targets seen stack)
  then show ?case using unseen_update [of target seen] by (auto split: if_splits)
qed simp

function collect_component ::
  "nat list list \<Rightarrow> nat list \<Rightarrow> bool list \<Rightarrow> nat list \<Rightarrow> (bool list \<times> nat list) option" where
  "collect_component incoming stack seen component =
     (case stack of
        [] \<Rightarrow> Some (seen, component)
      | node # rest \<Rightarrow>
          if node \<ge> length incoming then None
          else (case push_unseen (rev (incoming ! node)) seen rest of
                  None \<Rightarrow> None
                | Some (seen, stack) \<Rightarrow> collect_component incoming stack seen (component @ [node])))"
  by pat_completeness auto
termination
  by (relation "measure (\<lambda>(incoming, stack, seen, component). 2 * unseen seen + length stack)")
    (auto dest!: push_unseen_measure)

declare collect_component.simps [simp del]

fun collect_all ::
  "nat list list \<Rightarrow> nat list \<Rightarrow> bool list \<Rightarrow> nat list list \<Rightarrow> nat list list option" where
  "collect_all incoming [] seen components = Some components"
| "collect_all incoming (start # starts) seen components =
     (if seen ! start then collect_all incoming starts seen components
      else case collect_component incoming [start] (seen[start := True]) [] of
             None \<Rightarrow> None
           | Some (seen, component) \<Rightarrow>
               collect_all incoming starts seen (components @ [sort component]))"

definition strongly_connected_components ::
  "nat list list \<Rightarrow> nat list list \<Rightarrow> nat list list option" where
  "strongly_connected_components outgoing incoming =
     (let seen = replicate (length outgoing) False
      in case visit_all outgoing [0..<length outgoing] seen [] of
           None \<Rightarrow> None
         | Some (_, order) \<Rightarrow> collect_all incoming (rev order) seen [])"

section \<open>The finishing order\<close>

definition edge :: "nat list list \<Rightarrow> nat \<Rightarrow> nat \<Rightarrow> bool" where
  "edge graph u v \<longleftrightarrow> u < length graph \<and> v \<in> set (graph ! u)"

definition well_formed :: "nat list list \<Rightarrow> bool" where
  "well_formed graph \<longleftrightarrow> (\<forall>u<length graph. \<forall>v\<in>set (graph ! u). v < length graph)"

abbreviation reaches :: "nat list list \<Rightarrow> nat \<Rightarrow> nat \<Rightarrow> bool" where
  "reaches graph \<equiv> (edge graph)\<^sup>*\<^sup>*"

text \<open>A path that leaves only nodes of \<open>B\<close>.\<close>

definition via :: "nat list list \<Rightarrow> nat set \<Rightarrow> nat \<Rightarrow> nat \<Rightarrow> bool" where
  "via graph B = (\<lambda>u v. u \<in> B \<and> edge graph u v)\<^sup>*\<^sup>*"

lemma via_refl [simp]: "via graph B u u"
  by (simp add: via_def)

lemma via_step: "via graph B u v \<Longrightarrow> v \<in> B \<Longrightarrow> edge graph v w \<Longrightarrow> via graph B u w"
  unfolding via_def by (rule rtranclp.rtrancl_into_rtrancl) auto

lemma via_reaches: "via graph B u v \<Longrightarrow> reaches graph u v"
  unfolding via_def by (rule rtranclp_mono [THEN predicate2D, rotated]) auto

lemma via_insert: "via graph (insert x B) u v \<Longrightarrow> via graph B u v \<or> via graph B u x"
  unfolding via_def [of _ "insert x B"]
proof (induction rule: rtranclp_induct)
  case (step y z)
  then show ?case using via_step by auto
qed simp

lemma via_last: "via graph B u v \<Longrightarrow> u = v \<or> (\<exists>w\<in>B. via graph B u w \<and> edge graph w v)"
  unfolding via_def by (erule rtranclp.cases) auto

text \<open>
  The stack is a path from its bottom, the seen nodes are the finished ones and those on the stack,
  the scanned targets of a frame are seen, and so are all targets of a finished node. The last two
  clauses carry the proof: a finished node with a path over finished nodes to a node on the stack is
  reached back from it, and the same holds of every node when it is finished.
\<close>

fun stack_path :: "nat list list \<Rightarrow> nat list \<Rightarrow> bool" where
  "stack_path graph (v # u # vs) \<longleftrightarrow> edge graph u v \<and> stack_path graph (u # vs)"
| "stack_path graph _ \<longleftrightarrow> True"

definition finished_order :: "nat list list \<Rightarrow> nat list \<Rightarrow> bool" where
  "finished_order graph ord \<longleftrightarrow>
     (\<forall>A x B. ord = A @ x # B \<longrightarrow> (\<forall>u\<in>set A. via graph (set A) u x \<longrightarrow> reaches graph x u))"

definition dfs_inv :: "nat list list \<Rightarrow> (nat \<times> nat) list \<Rightarrow> bool list \<Rightarrow> nat list \<Rightarrow> bool" where
  "dfs_inv graph stack seen ord \<longleftrightarrow>
     length seen = length graph \<and>
     (\<forall>v<length graph. seen ! v \<longleftrightarrow> v \<in> set ord \<union> fst ` set stack) \<and>
     set ord \<union> fst ` set stack \<subseteq> {..<length graph} \<and>
     distinct (ord @ map fst stack) \<and>
     stack_path graph (map fst stack) \<and>
     (\<forall>(v, i)\<in>set stack. \<forall>w\<in>set (take i (graph ! v)). seen ! w) \<and>
     (\<forall>v\<in>set ord. \<forall>w\<in>set (graph ! v). seen ! w) \<and>
     (\<forall>u\<in>set ord. \<forall>g\<in>fst ` set stack. via graph (set ord) u g \<longrightarrow> reaches graph g u) \<and>
     finished_order graph ord"

lemma stack_path_reaches: "stack_path graph (v # vs) \<Longrightarrow> u \<in> set vs \<Longrightarrow> reaches graph u v"
proof (induction vs arbitrary: v)
  case (Cons w vs)
  have e: "edge graph w v" "stack_path graph (w # vs)" using Cons.prems(1) by simp_all
  show ?case
  proof (cases "u = w")
    case True
    then show ?thesis using e(1) by auto
  next
    case False
    then have "reaches graph u w" using Cons e(2) by simp
    then show ?thesis using e(1) by (rule rtranclp.rtrancl_into_rtrancl)
  qed
qed simp

lemma finished_order_snoc:
  assumes "finished_order graph ord" "\<forall>u\<in>set ord. via graph (set ord) u x \<longrightarrow> reaches graph x u"
  shows "finished_order graph (ord @ [x])"
  unfolding finished_order_def
proof (intro allI impI)
  fix A y B
  assume split: "ord @ [x] = A @ y # B"
  show "\<forall>u\<in>set A. via graph (set A) u y \<longrightarrow> reaches graph y u"
  proof (cases B rule: rev_cases)
    case Nil
    then show ?thesis using split assms(2) by simp
  next
    case (snoc B' z)
    then have "ord = A @ y # B'" using split by simp
    then show ?thesis using assms(1) unfolding finished_order_def by blast
  qed
qed

lemma dfs_inv_scan:
  assumes "dfs_inv graph ((v, i) # rest) seen ord" "i < length (graph ! v)" "seen ! (graph ! v ! i)"
  shows "dfs_inv graph ((v, i + 1) # rest) seen ord"
  using assms unfolding dfs_inv_def by (auto simp: take_Suc_conv_app_nth)

lemma dfs_inv_push:
  assumes inv: "dfs_inv graph ((v, i) # rest) seen ord" and wf: "well_formed graph"
    and i: "i < length (graph ! v)" and fresh: "\<not> seen ! (graph ! v ! i)"
  shows "dfs_inv graph ((graph ! v ! i, 0) # (v, i + 1) # rest) (seen[graph ! v ! i := True]) ord"
proof -
  let ?t = "graph ! v ! i"
  let ?stack = "(?t, 0) # (v, i + 1) # rest"
  let ?seen = "seen[?t := True]"
  have v: "v < length graph" and len: "length seen = length graph" using inv by (auto simp: dfs_inv_def)
  have t: "?t < length graph" using wf v i by (simp add: well_formed_def)
  have new: "?t \<notin> set ord \<union> fst ` set ((v, i) # rest)" using inv t fresh by (auto simp: dfs_inv_def)
  have mono: "seen ! w \<Longrightarrow> ?seen ! w" for w
    using t len by (cases "w = ?t") simp_all
  have no_via: "\<not> via graph (set ord) u ?t" if u: "u \<in> set ord" for u
  proof
    assume "via graph (set ord) u ?t"
    then obtain w where w: "w \<in> set ord" "edge graph w ?t"
      using via_last [of graph "set ord" u ?t] new u by auto
    then have "seen ! ?t" using inv by (auto simp: dfs_inv_def edge_def)
    then show False using fresh by simp
  qed
  have flags: "\<forall>w<length graph. ?seen ! w \<longleftrightarrow> w \<in> set ord \<union> fst ` set ?stack"
    using inv t len by (auto simp: dfs_inv_def nth_list_update)
  have scanned: "\<forall>(x, k)\<in>set ?stack. \<forall>w\<in>set (take k (graph ! x)). ?seen ! w"
    using inv i mono t len by (auto simp: dfs_inv_def take_Suc_conv_app_nth)
  have "edge graph v ?t" using v i by (auto simp: edge_def)
  then have path: "stack_path graph (map fst ?stack)" using inv by (simp add: dfs_inv_def)
  show ?thesis
    unfolding dfs_inv_def
    using inv flags scanned path mono new t no_via len unfolding dfs_inv_def by auto
qed

lemma dfs_inv_pop:
  assumes inv: "dfs_inv graph ((x, i) # rest) seen ord" and i: "\<not> i < length (graph ! x)"
  shows "dfs_inv graph rest seen (ord @ [x])"
proof -
  let ?B = "set ord"
  have returns: "\<forall>u\<in>?B. via graph ?B u x \<longrightarrow> reaches graph x u"
    and grey: "\<forall>u\<in>?B. \<forall>g\<in>fst ` set rest. via graph ?B u g \<longrightarrow> reaches graph g u"
    using inv by (simp_all add: dfs_inv_def)
  have up: "reaches graph g x" if "g \<in> fst ` set rest" for g
    using stack_path_reaches [of graph x "map fst rest" g] inv that by (auto simp: dfs_inv_def)
  have "reaches graph g u" if "u \<in> set (ord @ [x])" "g \<in> fst ` set rest" "via graph (set (ord @ [x])) u g" for u g
  proof (cases "u = x")
    case True
    then show ?thesis using up that(2) by simp
  next
    case False
    then have u: "u \<in> ?B" using that(1) by simp
    have "via graph (insert x ?B) u g" using that(3) by simp
    then consider "via graph ?B u g" | "via graph ?B u x" using via_insert by blast
    then show ?thesis
    proof cases
      case 1
      then show ?thesis using grey u that(2) by blast
    next
      case 2
      then have "reaches graph x u" using returns u by blast
      with up [OF that(2)] show ?thesis by (rule rtranclp_trans)
    qed
  qed
  then have grey': "\<forall>u\<in>set (ord @ [x]). \<forall>g\<in>fst ` set rest. via graph (set (ord @ [x])) u g \<longrightarrow> reaches graph g u"
    by blast
  have path: "stack_path graph (map fst rest)" using inv by (cases rest) (auto simp: dfs_inv_def)
  have fin: "finished_order graph (ord @ [x])"
    using finished_order_snoc returns inv by (simp add: dfs_inv_def)
  have scanned: "\<forall>w\<in>set (graph ! x). seen ! w" using inv i by (auto simp: dfs_inv_def)
  show ?thesis
    unfolding dfs_inv_def using inv grey' path fin scanned unfolding dfs_inv_def by auto
qed

lemma finish_order_run:
  assumes "dfs_inv graph stack seen ord" "well_formed graph"
  shows "\<exists>seen' ord'. finish_order graph stack seen ord = Some (seen', ord') \<and> dfs_inv graph [] seen' ord' \<and>
    (\<forall>v<length graph. seen ! v \<longrightarrow> seen' ! v)"
  using assms
proof (induction graph stack seen ord rule: finish_order.induct)
  case (1 graph stack seen ord)
  show ?case
  proof (cases stack)
    case Nil
    then have "finish_order graph stack seen ord = Some (seen, ord)" by (simp add: finish_order.simps)
    then show ?thesis using 1(4) Nil by simp
  next
    case (Cons f rest)
    obtain v i where f: "f = (v, i)" by (cases f)
    note inv = 1(4) [unfolded Cons f]
    have v: "\<not> v \<ge> length graph" and len: "length seen = length graph" using inv by (auto simp: dfs_inv_def)
    show ?thesis
    proof (cases "i < length (graph ! v)")
      case False
      have step: "finish_order graph stack seen ord = finish_order graph rest seen (ord @ [v])"
        using Cons f v False by (subst finish_order.simps) simp
      show ?thesis
        unfolding step by (rule 1(3) [OF Cons f [symmetric] v False dfs_inv_pop [OF inv False] 1(5)])
    next
      case True
      let ?t = "graph ! v ! i"
      have t: "\<not> ?t \<ge> length seen" using 1(5) v True len by (simp add: well_formed_def not_le)
      show ?thesis
      proof (cases "seen ! ?t")
        case seen: True
        have step: "finish_order graph stack seen ord = finish_order graph ((v, i + 1) # rest) seen ord"
          using Cons f v True t seen by (subst finish_order.simps) (simp add: Let_def)
        show ?thesis
          unfolding step
          by (rule 1(2) [OF Cons f [symmetric] v True refl refl t _ dfs_inv_scan [OF inv True seen] 1(5)]) (simp add: seen)
      next
        case fresh: False
        have step: "finish_order graph stack seen ord =
            finish_order graph ((?t, 0) # (v, i + 1) # rest) (seen[?t := True]) ord"
          using Cons f v True t fresh by (subst finish_order.simps) (simp add: Let_def)
        have "\<exists>seen' ord'. finish_order graph ((?t, 0) # (v, i + 1) # rest) (seen[?t := True]) ord = Some (seen', ord') \<and>
            dfs_inv graph [] seen' ord' \<and> (\<forall>w<length graph. seen[?t := True] ! w \<longrightarrow> seen' ! w)"
          by (rule 1(1) [OF Cons f [symmetric] v True refl refl t fresh dfs_inv_push [OF inv 1(5) True fresh] 1(5)])
        moreover have "seen[?t := True] ! w" if "w < length graph" "seen ! w" for w
          using that t by (cases "w = ?t") simp_all
        ultimately show ?thesis unfolding step by blast
      qed
    qed
  qed
qed

lemma dfs_inv_start:
  assumes "dfs_inv graph [] seen ord" "s < length graph" "\<not> seen ! s"
  shows "dfs_inv graph [(s, 0)] (seen[s := True]) ord"
proof -
  have len: "length seen = length graph" and s: "s \<notin> set ord" using assms by (auto simp: dfs_inv_def)
  have mono: "seen ! w \<Longrightarrow> seen[s := True] ! w" for w
    using assms(2) len by (cases "w = s") simp_all
  have "\<not> via graph (set ord) u s" if u: "u \<in> set ord" for u
  proof
    assume "via graph (set ord) u s"
    then obtain w where "w \<in> set ord" "edge graph w s" using via_last [of graph "set ord" u s] s u by auto
    then have "seen ! s" using assms(1) by (auto simp: dfs_inv_def edge_def)
    then show False using assms(3) by simp
  qed
  then show ?thesis
    using assms s len mono unfolding dfs_inv_def by (auto simp: nth_list_update)
qed

lemma visit_all_run:
  assumes "dfs_inv graph [] seen ord" "well_formed graph" "set starts \<subseteq> {..<length graph}"
  shows "\<exists>seen' ord'. visit_all graph starts seen ord = Some (seen', ord') \<and> dfs_inv graph [] seen' ord' \<and>
    (\<forall>v<length graph. seen ! v \<longrightarrow> seen' ! v) \<and> (\<forall>s\<in>set starts. seen' ! s)"
  using assms
proof (induction starts arbitrary: seen ord)
  case (Cons s starts)
  show ?case
  proof (cases "seen ! s")
    case True
    obtain seen' ord' where "visit_all graph starts seen ord = Some (seen', ord')" "dfs_inv graph [] seen' ord'"
      "\<forall>v<length graph. seen ! v \<longrightarrow> seen' ! v" "\<forall>s\<in>set starts. seen' ! s"
      using Cons.IH [OF Cons.prems(1,2)] Cons.prems(3) by auto
    then show ?thesis using True Cons.prems(3) by auto
  next
    case False
    have s: "s < length graph" using Cons.prems(3) by simp
    have len: "length seen = length graph" using Cons.prems(1) by (simp add: dfs_inv_def)
    obtain seen1 ord1 where 1: "finish_order graph [(s, 0)] (seen[s := True]) ord = Some (seen1, ord1)"
      "dfs_inv graph [] seen1 ord1" "\<forall>v<length graph. seen[s := True] ! v \<longrightarrow> seen1 ! v"
      using finish_order_run [OF dfs_inv_start [OF Cons.prems(1) s False] Cons.prems(2)] by blast
    obtain seen' ord' where 2: "visit_all graph starts seen1 ord1 = Some (seen', ord')" "dfs_inv graph [] seen' ord'"
      "\<forall>v<length graph. seen1 ! v \<longrightarrow> seen' ! v" "\<forall>s\<in>set starts. seen' ! s"
      using Cons.IH [OF 1(2) Cons.prems(2)] Cons.prems(3) by auto
    have mono: "seen[s := True] ! v" if "v < length graph" "seen ! v \<or> v = s" for v
      using that len by (cases "v = s") simp_all
    have "visit_all graph (s # starts) seen ord = Some (seen', ord')" using False 1(1) 2(1) by simp
    moreover have "\<forall>v<length graph. seen ! v \<longrightarrow> seen' ! v" using mono 1(3) 2(3) by blast
    moreover have "seen' ! s" using mono [of s] 1(3) 2(3) s by blast
    ultimately show ?thesis using 2(2,4) by auto
  qed
qed auto

lemma visit_all_order:
  assumes "well_formed graph"
  shows "\<exists>seen ord. visit_all graph [0..<length graph] (replicate (length graph) False) [] = Some (seen, ord) \<and>
    distinct ord \<and> set ord = {..<length graph} \<and> finished_order graph ord"
proof -
  have start: "dfs_inv graph [] (replicate (length graph) False) []"
    by (simp add: dfs_inv_def finished_order_def)
  have "set [0..<length graph] \<subseteq> {..<length graph}" by auto
  then obtain seen ord where "visit_all graph [0..<length graph] (replicate (length graph) False) [] = Some (seen, ord)"
    "dfs_inv graph [] seen ord" "\<forall>s\<in>set [0..<length graph]. seen ! s"
    using visit_all_run [OF start assms] by blast
  then show ?thesis unfolding dfs_inv_def by (intro exI [of _ seen] exI [of _ ord]) auto
qed

section \<open>Components\<close>

text \<open>The two adjacency vectors the analysis builds: every index is a node, and one is the converse of
  the other.\<close>

definition adjacency_pair :: "nat list list \<Rightarrow> nat list list \<Rightarrow> bool" where
  "adjacency_pair outgoing incoming \<longleftrightarrow>
     length incoming = length outgoing \<and> well_formed outgoing \<and> well_formed incoming \<and>
     (\<forall>u<length outgoing. \<forall>v<length outgoing. u \<in> set (incoming ! v) \<longleftrightarrow> v \<in> set (outgoing ! u))"

definition scc :: "nat list list \<Rightarrow> nat \<Rightarrow> nat set" where
  "scc graph u = {v. v < length graph \<and> reaches graph u v \<and> reaches graph v u}"

lemma incoming_bound:
  assumes "adjacency_pair outgoing incoming" "v < length outgoing" "u \<in> set (incoming ! v)"
  shows "u < length outgoing"
proof -
  have "well_formed incoming" "length incoming = length outgoing" using assms(1) by (simp_all add: adjacency_pair_def)
  then show ?thesis using assms(2,3) unfolding well_formed_def by metis
qed

lemma push_unseen_run:
  assumes "\<forall>t\<in>set targets. t < length seen"
  shows "\<exists>new seen'. push_unseen targets seen stack = Some (seen', new @ stack) \<and> distinct new \<and>
    set new = {t \<in> set targets. \<not> seen ! t} \<and> length seen' = length seen \<and>
    (\<forall>v<length seen. seen' ! v \<longleftrightarrow> seen ! v \<or> v \<in> set targets)"
  using assms
proof (induction targets seen stack rule: push_unseen.induct)
  case (2 target targets seen stack)
  have t: "\<not> target \<ge> length seen" using 2(3) by simp
  show ?case
  proof (cases "seen ! target")
    case True
    then obtain new seen' where "push_unseen targets seen stack = Some (seen', new @ stack)" "distinct new"
      "set new = {t \<in> set targets. \<not> seen ! t}" "length seen' = length seen"
      "\<forall>v<length seen. seen' ! v \<longleftrightarrow> seen ! v \<or> v \<in> set targets"
      using 2(2) [OF t] 2(3) by auto
    then show ?thesis using t True by (intro exI [of _ new] exI [of _ seen']) auto
  next
    case False
    let ?seen = "seen[target := True]"
    obtain new seen' where n: "push_unseen targets ?seen (target # stack) = Some (seen', new @ target # stack)"
      "distinct new" "set new = {t \<in> set targets. \<not> ?seen ! t}" "length seen' = length ?seen"
      "\<forall>v<length ?seen. seen' ! v \<longleftrightarrow> ?seen ! v \<or> v \<in> set targets"
      using 2(1) [OF t] False 2(3) by auto
    have upd: "?seen ! v \<longleftrightarrow> seen ! v \<or> v = target" if "v < length seen" for v
      using that t by (auto simp: nth_list_update)
    have "set (new @ [target]) = {u \<in> set (target # targets). \<not> seen ! u}"
      using n(3) upd 2(3) False by auto
    moreover have "distinct (new @ [target])" using n(2,3) upd t by auto
    moreover have "\<forall>v<length seen. seen' ! v \<longleftrightarrow> seen ! v \<or> v \<in> set (target # targets)"
      using n(5) upd by auto
    ultimately show ?thesis using n(1,4) t False
      by (intro exI [of _ "new @ [target]"] exI [of _ seen']) simp
  qed
qed auto

definition component_inv ::
  "nat list list \<Rightarrow> nat list list \<Rightarrow> nat set \<Rightarrow> nat \<Rightarrow> nat list \<Rightarrow> bool list \<Rightarrow> nat list \<Rightarrow> bool" where
  "component_inv outgoing incoming S start stack seen component \<longleftrightarrow>
     length seen = length outgoing \<and>
     (\<forall>v<length outgoing. seen ! v \<longleftrightarrow> v \<in> S \<union> set component \<union> set stack) \<and>
     set component \<union> set stack \<subseteq> {..<length outgoing} - S \<and> distinct (component @ stack) \<and>
     start \<in> set component \<union> set stack \<and>
     (\<forall>v\<in>set component \<union> set stack. reaches outgoing v start) \<and>
     (\<forall>v\<in>set component. \<forall>u\<in>set (incoming ! v). seen ! u)"

lemma component_inv_step:
  assumes inv: "component_inv outgoing incoming S start (node # rest) seen component"
    and pair: "adjacency_pair outgoing incoming"
  shows "\<exists>seen' stack'. push_unseen (rev (incoming ! node)) seen rest = Some (seen', stack') \<and>
    component_inv outgoing incoming S start stack' seen' (component @ [node])"
proof -
  have node: "node < length outgoing" "reaches outgoing node start" "length seen = length outgoing"
    using inv by (auto simp: component_inv_def)
  have bound: "\<forall>t\<in>set (rev (incoming ! node)). t < length seen"
    using incoming_bound [OF pair node(1)] node(3) by simp
  obtain new seen' where p: "push_unseen (rev (incoming ! node)) seen rest = Some (seen', new @ rest)" "distinct new"
    "set new = {t \<in> set (rev (incoming ! node)). \<not> seen ! t}" "length seen' = length seen"
    "\<forall>v<length seen. seen' ! v \<longleftrightarrow> seen ! v \<or> v \<in> set (rev (incoming ! node))"
    using push_unseen_run [OF bound] by blast
  have new: "t < length outgoing \<and> t \<notin> S \<union> set component \<union> set (node # rest) \<and> reaches outgoing t start"
    if t: "t \<in> set new" for t
  proof -
    have t': "t < length outgoing" "t \<in> set (incoming ! node)" "\<not> seen ! t"
      using t p(3) bound node(3) by auto
    then have "edge outgoing t node" using pair node(1) by (auto simp: adjacency_pair_def edge_def)
    then have "reaches outgoing t start" using node(2) by (rule converse_rtranclp_into_rtranclp)
    then show ?thesis using t' inv by (auto simp: component_inv_def)
  qed
  have flags: "\<forall>v<length outgoing. seen' ! v \<longleftrightarrow> v \<in> S \<union> set (component @ [node]) \<union> set (new @ rest)"
  proof (intro allI impI)
    fix v assume v: "v < length outgoing"
    have "seen' ! v \<longleftrightarrow> seen ! v \<or> v \<in> set new" using p(3,5) v node(3) by auto
    moreover have "seen ! v \<longleftrightarrow> v \<in> S \<union> set component \<union> set (node # rest)"
      using inv v unfolding component_inv_def by blast
    ultimately show "seen' ! v \<longleftrightarrow> v \<in> S \<union> set (component @ [node]) \<union> set (new @ rest)" by auto
  qed
  have closed: "\<forall>v\<in>set (component @ [node]). \<forall>u\<in>set (incoming ! v). seen' ! u"
  proof (intro ballI)
    fix v u assume vu: "v \<in> set (component @ [node])" "u \<in> set (incoming ! v)"
    have "v < length outgoing" using vu(1) inv node(1) by (auto simp: component_inv_def)
    then have "u < length seen" using incoming_bound [OF pair _ vu(2)] node(3) by simp
    then show "seen' ! u" using vu inv p(5) by (auto simp: component_inv_def)
  qed
  have "distinct ((component @ [node]) @ new @ rest)" using inv new p(2) by (auto simp: component_inv_def)
  moreover have "set (component @ [node]) \<union> set (new @ rest) \<subseteq> {..<length outgoing} - S"
    using inv new by (auto simp: component_inv_def)
  moreover have "\<forall>v\<in>set (component @ [node]) \<union> set (new @ rest). reaches outgoing v start"
    using inv new by (auto simp: component_inv_def)
  moreover have "start \<in> set (component @ [node]) \<union> set (new @ rest)"
    using inv by (auto simp: component_inv_def)
  ultimately have "component_inv outgoing incoming S start (new @ rest) seen' (component @ [node])"
    using flags closed p(4) node(3) unfolding component_inv_def by simp
  then show ?thesis using p(1) by blast
qed

lemma collect_component_run:
  assumes "component_inv outgoing incoming S start stack seen component" "adjacency_pair outgoing incoming"
  shows "\<exists>seen' c. collect_component incoming stack seen component = Some (seen', c) \<and>
    component_inv outgoing incoming S start [] seen' c"
  using assms
proof (induction incoming stack seen component rule: collect_component.induct)
  case (1 incoming stack seen component)
  show ?case
  proof (cases stack)
    case Nil
    then have "collect_component incoming stack seen component = Some (seen, component)"
      by (simp add: collect_component.simps)
    then show ?thesis using 1(2) Nil by simp
  next
    case (Cons node rest)
    note inv = 1(2) [unfolded Cons]
    have node: "\<not> node \<ge> length incoming"
      using inv 1(3) by (auto simp: component_inv_def adjacency_pair_def)
    obtain seen' stack' where p: "push_unseen (rev (incoming ! node)) seen rest = Some (seen', stack')"
      "component_inv outgoing incoming S start stack' seen' (component @ [node])"
      using component_inv_step [OF inv 1(3)] by blast
    have step: "collect_component incoming stack seen component =
        collect_component incoming stack' seen' (component @ [node])"
      using Cons node p(1) by (subst collect_component.simps) simp
    show ?thesis unfolding step by (rule 1(1) [OF Cons node p(1) refl p(2) 1(3)])
  qed
qed

definition before_closed :: "nat list list \<Rightarrow> nat set \<Rightarrow> bool" where
  "before_closed graph S \<longleftrightarrow> (\<forall>u v. edge graph u v \<longrightarrow> v \<in> S \<longrightarrow> u \<in> S)"

lemma before_closed_reaches: "before_closed graph S \<Longrightarrow> reaches graph u v \<Longrightarrow> v \<in> S \<Longrightarrow> u \<in> S"
  by (erule converse_rtranclp_induct) (auto simp: before_closed_def)

lemma component_done:
  assumes inv: "component_inv outgoing incoming S start [] seen c" and pair: "adjacency_pair outgoing incoming"
    and S: "before_closed outgoing S"
  shows "set c = {u. u < length outgoing \<and> u \<notin> S \<and> reaches outgoing u start}"
    and "before_closed outgoing (S \<union> set c)"
proof -
  show closed: "before_closed outgoing (S \<union> set c)"
    unfolding before_closed_def
  proof (intro allI impI)
    fix u v assume e: "edge outgoing u v" "v \<in> S \<union> set c"
    show "u \<in> S \<union> set c"
    proof (cases "v \<in> S")
      case True
      then show ?thesis using S e(1) by (auto simp: before_closed_def)
    next
      case False
      then have v: "v \<in> set c" "v < length outgoing" using e(2) inv by (auto simp: component_inv_def)
      have u: "u < length outgoing" using e(1) by (simp add: edge_def)
      have "u \<in> set (incoming ! v)" using e(1) v(2) u pair by (auto simp: edge_def adjacency_pair_def)
      then have "seen ! u" using inv v(1) by (auto simp: component_inv_def)
      then show ?thesis using inv u by (auto simp: component_inv_def)
    qed
  qed
  have "start \<in> S \<union> set c" using inv by (simp add: component_inv_def)
  then have "u \<in> S \<union> set c" if "reaches outgoing u start" for u
    using before_closed_reaches [OF closed that] by simp
  then show "set c = {u. u < length outgoing \<and> u \<notin> S \<and> reaches outgoing u start}"
    using inv by (auto simp: component_inv_def)
qed

lemma path_avoids:
  assumes "reaches graph u x" "u \<notin> S" "before_closed graph S" "\<forall>v. v < length graph \<longrightarrow> v \<notin> S \<longrightarrow> v \<in> insert x A"
  shows "via graph A u x"
  using assms(1,2)
proof (induction rule: converse_rtranclp_induct)
  case (step y z)
  have z: "via graph A z x" using step.IH step.hyps(1) step.prems assms(3) by (auto simp: before_closed_def)
  have "y \<in> insert x A" using step.hyps(1) step.prems assms(4) by (auto simp: edge_def)
  then show ?case
  proof
    assume "y \<in> A"
    then show ?thesis
      using step.hyps(1) z unfolding via_def by (intro converse_rtranclp_into_rtranclp [of _ y z]) simp_all
  qed simp
qed simp

lemma component_is_scc:
  assumes fin: "finished_order graph ord" and split: "ord = A @ x # B" and all: "set ord = {..<length graph}"
    and S: "before_closed graph S" "set B \<subseteq> S" "x \<notin> S"
  shows "{u. u < length graph \<and> u \<notin> S \<and> reaches graph u x} = scc graph x"
proof (intro equalityI subsetI)
  fix u assume "u \<in> {u. u < length graph \<and> u \<notin> S \<and> reaches graph u x}"
  then have u: "u < length graph" "u \<notin> S" "reaches graph u x" by simp_all
  have rest: "\<forall>v. v < length graph \<longrightarrow> v \<notin> S \<longrightarrow> v \<in> insert x (set A)"
  proof (intro allI impI)
    fix v assume "v < length graph" "v \<notin> S"
    then have "v \<in> set ord" "v \<notin> set B" using all S(2) by auto
    then show "v \<in> insert x (set A)" using split by auto
  qed
  have "via graph (set A) u x" by (rule path_avoids [OF u(3,2) S(1) rest])
  then have "u = x \<or> reaches graph x u" using fin split rest u(1,2) unfolding finished_order_def by blast
  then show "u \<in> scc graph x" using u by (auto simp: scc_def)
next
  fix u assume u: "u \<in> scc graph x"
  then have "u \<notin> S" using before_closed_reaches [OF S(1), of x u] S(3) by (auto simp: scc_def)
  then show "u \<in> {u. u < length graph \<and> u \<notin> S \<and> reaches graph u x}" using u by (auto simp: scc_def)
qed

lemma scc_self: "u < length graph \<Longrightarrow> u \<in> scc graph u"
  by (simp add: scc_def)

lemma scc_same: "v \<in> scc graph u \<Longrightarrow> scc graph v = scc graph u"
  unfolding scc_def by (auto intro: rtranclp_trans)

definition collect_inv ::
  "nat list list \<Rightarrow> nat list \<Rightarrow> bool list \<Rightarrow> nat list list \<Rightarrow> bool" where
  "collect_inv outgoing B seen cs \<longleftrightarrow>
     length seen = length outgoing \<and> set (concat cs) \<subseteq> {..<length outgoing} \<and>
     (\<forall>v<length outgoing. seen ! v \<longleftrightarrow> v \<in> set (concat cs)) \<and>
     before_closed outgoing (set (concat cs)) \<and> set B \<subseteq> set (concat cs) \<and> distinct (concat cs) \<and>
     (\<forall>c\<in>set cs. sorted c \<and> (\<exists>u<length outgoing. set c = scc outgoing u))"

lemma collect_all_run:
  assumes "collect_inv outgoing B seen cs" "adjacency_pair outgoing incoming" "finished_order outgoing ord"
    and "set ord = {..<length outgoing}" "ord = rev starts @ B"
  shows "\<exists>seen' cs'. collect_all incoming starts seen cs = Some cs' \<and> collect_inv outgoing ord seen' cs'"
  using assms(1,5)
proof (induction starts arbitrary: B seen cs)
  case Nil
  then show ?case by auto
next
  case (Cons s starts)
  have split: "ord = rev starts @ s # B" using Cons.prems(2) by simp
  have s: "s < length outgoing" using assms(4) split by auto
  show ?case
  proof (cases "seen ! s")
    case True
    then have "collect_inv outgoing (s # B) seen cs" using Cons.prems(1) s by (auto simp: collect_inv_def)
    then show ?thesis using Cons.IH [of "s # B" seen cs] split True by simp
  next
    case False
    let ?S = "set (concat cs)"
    have S: "before_closed outgoing ?S" "set B \<subseteq> ?S" "s \<notin> ?S" "length seen = length outgoing"
      using Cons.prems(1) False s by (auto simp: collect_inv_def)
    have start: "component_inv outgoing incoming ?S s [s] (seen[s := True]) []"
      using Cons.prems(1) S s by (auto simp: component_inv_def collect_inv_def nth_list_update)
    obtain seen' c where c: "collect_component incoming [s] (seen[s := True]) [] = Some (seen', c)"
      "component_inv outgoing incoming ?S s [] seen' c"
      using collect_component_run [OF start assms(2)] by blast
    have set_c: "set c = scc outgoing s"
      using component_done(1) [OF c(2) assms(2) S(1)] component_is_scc [OF assms(3) split assms(4) S(1,2,3)] by simp
    have "set c \<inter> ?S = {}" "distinct c" "set c \<subseteq> {..<length outgoing}" "s \<in> set c"
      using c(2) by (auto simp: component_inv_def)
    moreover have "before_closed outgoing (?S \<union> set c)" by (rule component_done(2) [OF c(2) assms(2) S(1)])
    moreover have "\<forall>v<length outgoing. seen' ! v \<longleftrightarrow> v \<in> ?S \<union> set c" "length seen' = length outgoing"
      using c(2) by (auto simp: component_inv_def)
    ultimately have "collect_inv outgoing (s # B) seen' (cs @ [sort c])"
      using Cons.prems(1) set_c s unfolding collect_inv_def by auto
    then obtain seen2 cs' where "collect_all incoming starts seen' (cs @ [sort c]) = Some cs'"
      "collect_inv outgoing ord seen2 cs'"
      using Cons.IH [of "s # B"] split by blast
    then show ?thesis using False c(1) by auto
  qed
qed

text \<open>The component search is exact: on the adjacency vectors of a graph it never leaves a vector and
  returns exactly the strongly connected components, the classes of nodes that reach each other, each
  once and each in ascending order.\<close>

theorem component_search_exact:
  assumes "adjacency_pair outgoing incoming"
  shows "\<exists>cs. strongly_connected_components outgoing incoming = Some cs \<and>
    set ` set cs = scc outgoing ` {..<length outgoing} \<and> distinct (concat cs) \<and>
    set (concat cs) = {..<length outgoing} \<and> (\<forall>c\<in>set cs. sorted c)"
proof -
  have wf: "well_formed outgoing" using assms by (simp add: adjacency_pair_def)
  obtain seen ord where ord: "visit_all outgoing [0..<length outgoing] (replicate (length outgoing) False) [] = Some (seen, ord)"
    "set ord = {..<length outgoing}" "finished_order outgoing ord"
    using visit_all_order [OF wf] by blast
  have init: "collect_inv outgoing [] (replicate (length outgoing) False) []"
    by (simp add: collect_inv_def before_closed_def)
  obtain seen' cs where cs: "collect_all incoming (rev ord) (replicate (length outgoing) False) [] = Some cs"
    "collect_inv outgoing ord seen' cs"
    using collect_all_run [OF init assms ord(3,2), of "rev ord"] by auto
  have all: "set (concat cs) = {..<length outgoing}" using cs(2) ord(2) unfolding collect_inv_def by blast
  have "set c \<in> scc outgoing ` {..<length outgoing}" if "c \<in> set cs" for c
    using cs(2) that by (auto simp: collect_inv_def)
  moreover have "scc outgoing u \<in> set ` set cs" if "u < length outgoing" for u
  proof -
    obtain c where "c \<in> set cs" "u \<in> set c" using all \<open>u < length outgoing\<close> by auto
    moreover from this obtain v where "set c = scc outgoing v" using cs(2) by (auto simp: collect_inv_def)
    ultimately show ?thesis using scc_same by (metis imageI)
  qed
  ultimately have "set ` set cs = scc outgoing ` {..<length outgoing}" by blast
  then show ?thesis
    using cs ord(1) all by (auto simp: strongly_connected_components_def collect_inv_def)
qed

end
