(* ===== verification/Graph_Cuts.thy ===== *)
theory Graph_Cuts
  imports Graph_Components
begin

text \<open>
  The articulation points of \<open>structural_graph/analysis.rs\<close>: \<open>articulation_points\<close> walks the
  undirected graph depth first with an explicit stack and keeps discovery times and low links; an index
  outside of a vector is \<open>None\<close>. The result is compared with the nodes whose removal separates two
  others.
\<close>

section \<open>The search of the articulation points\<close>

text \<open>
  The vectors of \<open>articulation_points\<close>: \<open>discovered\<close> holds the time a node was found, zero before, and
  \<open>low\<close> the least time its subtree is linked to.
\<close>

record cut_state =
  ct_discovered :: "nat list"
  ct_low :: "nat list"
  ct_parent :: "nat option list"
  ct_child_count :: "nat list"
  ct_articulation :: "bool list"
  ct_time :: nat

definition cut_start :: "nat \<Rightarrow> cut_state" where
  "cut_start n = \<lparr>ct_discovered = replicate n 0, ct_low = replicate n 0, ct_parent = replicate n None,
     ct_child_count = replicate n 0, ct_articulation = replicate n False, ct_time = 0\<rparr>"

definition lower_to :: "nat \<Rightarrow> nat \<Rightarrow> cut_state \<Rightarrow> cut_state" where
  "lower_to v d st = st\<lparr>ct_low := (ct_low st)[v := min (ct_low st ! v) d]\<rparr>"

text \<open>A node is found: by a root of the loop, or along an edge from its parent.\<close>

definition discover :: "nat \<Rightarrow> cut_state \<Rightarrow> cut_state" where
  "discover v st = st\<lparr>ct_time := ct_time st + 1, ct_discovered := (ct_discovered st)[v := ct_time st + 1],
     ct_low := (ct_low st)[v := ct_time st + 1]\<rparr>"

definition adopt :: "nat \<Rightarrow> nat \<Rightarrow> cut_state \<Rightarrow> cut_state" where
  "adopt p v st = st\<lparr>ct_parent := (ct_parent st)[v := Some p],
     ct_child_count := (ct_child_count st)[p := ct_child_count st ! p + 1]\<rparr>"

definition mark_cut :: "nat \<Rightarrow> cut_state \<Rightarrow> cut_state" where
  "mark_cut v st = st\<lparr>ct_articulation := (ct_articulation st)[v := True]\<rparr>"

definition finish_node :: "nat \<Rightarrow> cut_state \<Rightarrow> cut_state" where
  "finish_node v st =
     (case ct_parent st ! v of
        Some p \<Rightarrow>
          (let st = lower_to p (ct_low st ! v) st
           in if ct_parent st ! p \<noteq> None \<and> ct_low st ! v \<ge> ct_discovered st ! p then mark_cut p st else st)
      | None \<Rightarrow> if ct_child_count st ! v > 1 then mark_cut v st else st)"

definition undiscovered :: "cut_state \<Rightarrow> nat" where
  "undiscovered st = unseen (map (\<lambda>d. d \<noteq> 0) (ct_discovered st))"

lemma undiscovered_less:
  "t < length (ct_discovered st) \<Longrightarrow> ct_discovered st ! t = 0 \<Longrightarrow>
     undiscovered (discover t (adopt p t st)) < undiscovered st"
  using unseen_update [of t "map (\<lambda>d. d \<noteq> 0) (ct_discovered st)"]
  by (simp add: undiscovered_def discover_def adopt_def map_update)

lemma undiscovered_keeps [simp]:
  "undiscovered (lower_to v d st) = undiscovered st" "undiscovered (finish_node v st) = undiscovered st"
  by (simp_all add: undiscovered_def lower_to_def finish_node_def mark_cut_def Let_def split: option.splits)

function cut_search :: "nat list list \<Rightarrow> (nat \<times> nat) list \<Rightarrow> cut_state \<Rightarrow> cut_state option" where
  "cut_search graph stack st =
     (case stack of
        [] \<Rightarrow> Some st
      | (node, next_neighbor) # rest \<Rightarrow>
          if node \<ge> length graph then None
          else if next_neighbor < length (graph ! node) then
            (let target = graph ! node ! next_neighbor;
                 stack = (node, next_neighbor + 1) # rest
             in if target \<ge> length (ct_discovered st) then None
                else if ct_discovered st ! target = 0
                  then cut_search graph ((target, 0) # stack) (discover target (adopt node target st))
                else if ct_parent st ! node \<noteq> Some target
                  then cut_search graph stack (lower_to node (ct_discovered st ! target) st)
                else cut_search graph stack st)
          else cut_search graph rest (finish_node node st))"
  by pat_completeness auto
termination
  by (relation "measures [\<lambda>(graph, stack, st). undiscovered st,
      \<lambda>(graph, stack, st). sum_list (map (frame_work graph) stack)]")
    (auto simp: frame_work_def intro: undiscovered_less)

declare cut_search.simps [simp del]

fun cut_roots :: "nat list list \<Rightarrow> nat list \<Rightarrow> cut_state \<Rightarrow> cut_state option" where
  "cut_roots graph [] st = Some st"
| "cut_roots graph (root # roots) st =
     (if ct_discovered st ! root \<noteq> 0 then cut_roots graph roots st
      else case cut_search graph [(root, 0)] (discover root st) of
             None \<Rightarrow> None
           | Some st \<Rightarrow> cut_roots graph roots st)"

definition articulation_points :: "nat list list \<Rightarrow> nat list option" where
  "articulation_points graph =
     (case cut_roots graph [0..<length graph] (cut_start (length graph)) of
        None \<Rightarrow> None
      | Some st \<Rightarrow> Some (filter (\<lambda>i. ct_articulation st ! i) [0..<length graph]))"

section \<open>The invariant of the search\<close>

definition undirected :: "nat list list \<Rightarrow> bool" where
  "undirected graph \<longleftrightarrow> well_formed graph \<and> (\<forall>u v. edge graph u v \<longrightarrow> edge graph v u)"

text \<open>The tree of the search: \<open>descends P a v\<close> holds when \<open>a\<close> is \<open>v\<close> or an ancestor of it.\<close>

definition descends :: "(nat \<Rightarrow> nat option) \<Rightarrow> nat \<Rightarrow> nat \<Rightarrow> bool" where
  "descends P = (\<lambda>p v. P v = Some p)\<^sup>*\<^sup>*"

lemma descends_refl [simp]: "descends P v v"
  by (simp add: descends_def)

lemma descends_parent: "descends P a p \<Longrightarrow> P v = Some p \<Longrightarrow> descends P a v"
  by (simp add: descends_def rtranclp.rtrancl_into_rtrancl)

lemma descends_trans: "descends P a b \<Longrightarrow> descends P b c \<Longrightarrow> descends P a c"
  unfolding descends_def by (rule rtranclp_trans)

lemma descends_up: "descends P a v \<Longrightarrow> v = a \<or> (\<exists>p. P v = Some p \<and> descends P a p)"
  unfolding descends_def by (erule rtranclp.cases) auto

lemma descends_extend: "descends P a v \<Longrightarrow> P t = None \<Longrightarrow> descends (P(t := x)) a v"
  unfolding descends_def
proof (induction rule: rtranclp_induct)
  case (step y z)
  then have "(P(t := x)) z = Some y" by auto
  then show ?case using step.IH [OF step.prems] by (simp add: rtranclp.rtrancl_into_rtrancl)
qed simp

text \<open>The neighbours a search has looked at, \<open>None\<close> in the stack means all of them.\<close>

definition scanned :: "nat list list \<Rightarrow> (nat \<times> nat) list \<Rightarrow> nat \<Rightarrow> nat set" where
  "scanned graph stack v = (case map_of stack v of Some i \<Rightarrow> set (take i (graph ! v)) | None \<Rightarrow> set (graph ! v))"

lemma scanned_simps:
  "v \<noteq> u \<Longrightarrow> scanned graph ((v, i) # stack) u = scanned graph stack u"
  "scanned graph ((v, i) # stack) v = set (take i (graph ! v))"
  by (simp_all add: scanned_def)

lemma scanned_next:
  "i < length (graph ! v) \<Longrightarrow> scanned graph ((v, i + 1) # rest) u =
     (if u = v then insert (graph ! v ! i) (scanned graph ((v, i) # rest) u) else scanned graph ((v, i) # rest) u)"
  by (simp add: scanned_def take_Suc_conv_app_nth)

lemma scanned_pop:
  assumes "\<not> i < length (graph ! v)" "v \<notin> fst ` set rest"
  shows "scanned graph rest u = scanned graph ((v, i) # rest) u"
proof (cases "u = v")
  case True
  moreover have "map_of rest v = None" using assms(2) by (simp add: map_of_eq_None_iff)
  ultimately show ?thesis using assms(1) by (simp add: scanned_def)
qed (simp add: scanned_def)

definition closed_node :: "(nat \<times> nat) list \<Rightarrow> (nat \<Rightarrow> nat) \<Rightarrow> nat \<Rightarrow> bool" where
  "closed_node stack D v \<longleftrightarrow> D v \<noteq> 0 \<and> v \<notin> fst ` set stack"

fun chain :: "(nat \<Rightarrow> nat option) \<Rightarrow> nat list \<Rightarrow> bool" where
  "chain P [] \<longleftrightarrow> True"
| "chain P [v] \<longleftrightarrow> P v = None"
| "chain P (v # u # vs) \<longleftrightarrow> P v = Some u \<and> chain P (u # vs)"

lemma chain_descends: "chain P (v # vs) \<Longrightarrow> u \<in> set (v # vs) \<Longrightarrow> descends P u v"
proof (induction vs arbitrary: v)
  case (Cons w vs)
  then show ?case
    by (cases "u = v") (auto intro: descends_parent)
qed simp

lemma chain_update: "t \<notin> set vs \<Longrightarrow> chain (P(t := x)) vs = chain P vs"
proof (induction vs)
  case (Cons v vs)
  then show ?case by (cases vs) auto
qed simp

lemma chain_tail: "chain P (v # vs) \<Longrightarrow> chain P vs"
  by (cases vs) auto

lemma chain_parent: "chain P vs \<Longrightarrow> v \<in> set vs \<Longrightarrow> P v = Some p \<Longrightarrow> p \<in> set vs"
proof (induction vs)
  case (Cons w vs)
  then show ?case by (cases vs) auto
qed simp

definition forest_inv :: "nat list list \<Rightarrow> (nat \<Rightarrow> nat) \<Rightarrow> (nat \<Rightarrow> nat option) \<Rightarrow> nat \<Rightarrow> bool" where
  "forest_inv graph D P tm \<longleftrightarrow>
     (\<forall>v. D v \<noteq> 0 \<longrightarrow> v < length graph \<and> D v \<le> tm) \<and>
     (\<forall>u v. D u \<noteq> 0 \<longrightarrow> D u = D v \<longrightarrow> u = v) \<and>
     (\<forall>v p. P v = Some p \<longrightarrow> edge graph p v \<and> D p \<noteq> 0 \<and> D p < D v)"

definition stack_inv :: "nat list list \<Rightarrow> (nat \<times> nat) list \<Rightarrow> (nat \<Rightarrow> nat) \<Rightarrow> (nat \<Rightarrow> nat option) \<Rightarrow> bool" where
  "stack_inv graph stack D P \<longleftrightarrow>
     chain P (map fst stack) \<and> distinct (map fst stack) \<and> (\<forall>v\<in>fst ` set stack. D v \<noteq> 0)"

definition scan_inv :: "nat list list \<Rightarrow> (nat \<times> nat) list \<Rightarrow> (nat \<Rightarrow> nat) \<Rightarrow> (nat \<Rightarrow> nat option) \<Rightarrow> bool" where
  "scan_inv graph stack D P \<longleftrightarrow>
     (\<forall>v. D v \<noteq> 0 \<longrightarrow> (\<forall>w\<in>scanned graph stack v. D w \<noteq> 0)) \<and>
     (\<forall>u w. D u \<noteq> 0 \<longrightarrow> D w \<noteq> 0 \<longrightarrow> edge graph u w \<longrightarrow> D w < D u \<longrightarrow> descends P w u)"

definition low_inv ::
  "nat list list \<Rightarrow> (nat \<times> nat) list \<Rightarrow> (nat \<Rightarrow> nat) \<Rightarrow> (nat \<Rightarrow> nat) \<Rightarrow> (nat \<Rightarrow> nat option) \<Rightarrow> bool" where
  "low_inv graph stack D L P \<longleftrightarrow>
     (\<forall>v. D v \<noteq> 0 \<longrightarrow> L v \<le> D v) \<and>
     (\<forall>v. D v \<noteq> 0 \<longrightarrow> (\<forall>w\<in>scanned graph stack v. P v \<noteq> Some w \<longrightarrow> L v \<le> D w)) \<and>
     (\<forall>c v. closed_node stack D c \<longrightarrow> P c = Some v \<longrightarrow> L v \<le> L c) \<and>
     (\<forall>v. D v \<noteq> 0 \<longrightarrow> L v = D v \<or>
        (\<exists>u w. descends P v u \<and> D u \<noteq> 0 \<and> edge graph u w \<and> D w \<noteq> 0 \<and> D w = L v))"

definition flag_inv ::
  "nat list list \<Rightarrow> (nat \<times> nat) list \<Rightarrow> (nat \<Rightarrow> nat) \<Rightarrow> (nat \<Rightarrow> nat) \<Rightarrow> (nat \<Rightarrow> nat option) \<Rightarrow> (nat \<Rightarrow> nat)
     \<Rightarrow> (nat \<Rightarrow> bool) \<Rightarrow> bool" where
  "flag_inv graph stack D L P C A \<longleftrightarrow>
     (\<forall>p<length graph. C p = card {c. P c = Some p}) \<and>
     (\<forall>a<length graph. A a \<longleftrightarrow>
        P a \<noteq> None \<and> (\<exists>c. closed_node stack D c \<and> P c = Some a \<and> D a \<le> L c) \<or>
        P a = None \<and> closed_node stack D a \<and> C a > 1)"

lemma descends_time: "descends P a v \<Longrightarrow> forest_inv graph D P tm \<Longrightarrow> a = v \<or> D a < D v"
  unfolding descends_def
proof (induction rule: rtranclp_induct)
  case (step y z)
  then show ?case by (fastforce simp: forest_inv_def)
qed simp

lemma unborn_parent:
  assumes "forest_inv graph D P tm" "D t = 0"
  shows "P t = None" "P c \<noteq> Some t"
  using assms unfolding forest_inv_def by (metis not_less0 option.exhaust)+

lemma forest_inv_grow:
  assumes "forest_inv graph D P tm" "D t = 0" "t < length graph"
    "case x of None \<Rightarrow> True | Some v \<Rightarrow> edge graph v t \<and> D v \<noteq> 0"
  shows "forest_inv graph (D(t := tm + 1)) (P(t := x)) (tm + 1)"
proof -
  have old: "D v \<le> tm" if "D v \<noteq> 0" for v using assms(1) that by (simp add: forest_inv_def)
  have "D v \<noteq> tm + 1" for v using old [of v] by (cases "D v = 0") auto
  then have "\<forall>u v. (D(t := tm + 1)) u \<noteq> 0 \<longrightarrow> (D(t := tm + 1)) u = (D(t := tm + 1)) v \<longrightarrow> u = v"
    using assms(1) unfolding forest_inv_def by (metis fun_upd_apply)
  moreover have "\<forall>v p. (P(t := x)) v = Some p \<longrightarrow> edge graph p v \<and> (D(t := tm + 1)) p \<noteq> 0 \<and>
      (D(t := tm + 1)) p < (D(t := tm + 1)) v"
  proof (intro allI impI)
    fix v p assume p: "(P(t := x)) v = Some p"
    show "edge graph p v \<and> (D(t := tm + 1)) p \<noteq> 0 \<and> (D(t := tm + 1)) p < (D(t := tm + 1)) v"
    proof (cases "v = t")
      case True
      then have "edge graph p v" "D p \<noteq> 0" using assms(4) p by auto
      moreover have "D p \<le> tm" "p \<noteq> t" using old assms(2) \<open>D p \<noteq> 0\<close> by auto
      ultimately show ?thesis using True by simp
    next
      case False
      then have "edge graph p v" "D p \<noteq> 0" "D p < D v" using assms(1) p by (simp_all add: forest_inv_def)
      moreover have "p \<noteq> t" using assms(2) \<open>D p \<noteq> 0\<close> by auto
      ultimately show ?thesis using False by simp
    qed
  qed
  moreover have "\<forall>v. (D(t := tm + 1)) v \<noteq> 0 \<longrightarrow> v < length graph \<and> (D(t := tm + 1)) v \<le> tm + 1"
  proof (intro allI impI)
    fix v assume v: "(D(t := tm + 1)) v \<noteq> 0"
    show "v < length graph \<and> (D(t := tm + 1)) v \<le> tm + 1"
    proof (cases "v = t")
      case False
      then have "D v \<noteq> 0" using v by simp
      then have "v < length graph \<and> D v \<le> tm" using assms(1) by (simp add: forest_inv_def)
      then show ?thesis using False by simp
    qed (use assms(3) in simp)
  qed
  ultimately show ?thesis unfolding forest_inv_def by blast
qed

subsection \<open>A node is discovered\<close>

text \<open>The situation in which \<open>t\<close> is discovered, as a root or from the top of the stack.\<close>

definition discovers ::
  "nat list list \<Rightarrow> (nat \<Rightarrow> nat) \<Rightarrow> (nat \<Rightarrow> nat option) \<Rightarrow> nat \<Rightarrow> nat \<Rightarrow> (nat \<times> nat) list \<Rightarrow> (nat \<times> nat) list
     \<Rightarrow> nat option \<Rightarrow> bool" where
  "discovers graph D P tm t S S2 x \<longleftrightarrow>
     forest_inv graph D P tm \<and> stack_inv graph S D P \<and> D t = 0 \<and> t < length graph \<and> map fst S2 = map fst S \<and>
     (\<forall>u. scanned graph S2 u \<subseteq> insert t (scanned graph S u)) \<and>
     x = (case S of [] \<Rightarrow> None | f # _ \<Rightarrow> Some (fst f)) \<and> (\<forall>v. x = Some v \<longrightarrow> edge graph v t)"

lemma discoversD:
  assumes "discovers graph D P tm t S S2 x"
  shows "forest_inv graph D P tm" and "stack_inv graph S D P" and "D t = 0" "t < length graph"
    and "map fst S2 = map fst S" and "scanned graph S2 u \<subseteq> insert t (scanned graph S u)"
    and "x = (case S of [] \<Rightarrow> None | f # _ \<Rightarrow> Some (fst f))" and "x = Some v \<Longrightarrow> edge graph v t"
    and "P t = None" and "P c \<noteq> Some t"
  using assms unborn_parent unfolding discovers_def by blast+

lemma discover_forest:
  assumes new: "discovers graph D P tm t S S2 x"
  shows "forest_inv graph (D(t := tm + 1)) (P(t := x)) (tm + 1)"
proof (rule forest_inv_grow [OF discoversD(1,3,4) [OF new]])
  show "case x of None \<Rightarrow> True | Some v \<Rightarrow> edge graph v t \<and> D v \<noteq> 0"
    using discoversD(2,7,8) [OF new] by (auto simp: stack_inv_def split: option.splits list.splits)
qed

lemma fresh_off: "discovers graph D P tm t S S2 x \<Longrightarrow> t \<notin> fst ` set S"
  using discoversD(2,3) [of graph D P tm t S S2 x] by (auto simp: stack_inv_def)

lemma same_set: "discovers graph D P tm t S S2 x \<Longrightarrow> fst ` set S2 = fst ` set S"
  using discoversD(5) by (metis set_map)

lemma discover_stack:
  assumes new: "discovers graph D P tm t S S2 x"
  shows "stack_inv graph ((t, 0) # S2) (D(t := tm + 1)) (P(t := x))"
proof -
  note stk = discoversD(2) [OF new] and same = discoversD(5) [OF new] and parent = discoversD(7) [OF new]
    and same_set = same_set [OF new] and fresh_off = fresh_off [OF new]
  have "chain P (map fst S)" "distinct (map fst S)" "\<forall>v\<in>fst ` set S. D v \<noteq> 0"
    using stk unfolding stack_inv_def by blast+
  moreover have "t \<notin> set (map fst S)" using fresh_off by simp
  ultimately show ?thesis
    unfolding stack_inv_def using same_set same fresh_off parent chain_update [of t "map fst S" P x]
    by (cases S) auto
qed

lemma discover_closed:
  "discovers graph D P tm t S S2 x \<Longrightarrow> closed_node ((t, 0) # S2) (D(t := tm + 1)) c \<longleftrightarrow> closed_node S D c"
  using discoversD(3) same_set by (auto simp: closed_node_def)

lemma discover_scan:
  assumes "scan_inv graph S D P" "undirected graph" and new: "discovers graph D P tm t S S2 x"
  shows "scan_inv graph ((t, 0) # S2) (D(t := tm + 1)) (P(t := x))"
  unfolding scan_inv_def
proof (intro conjI allI impI ballI)
  note forest = discoversD(1) [OF new] and stk = discoversD(2) [OF new] and fresh = discoversD(3,4) [OF new]
    and more = discoversD(6) [OF new] and parent = discoversD(7) [OF new]
  fix v w assume v: "(D(t := tm + 1)) v \<noteq> 0" and w: "w \<in> scanned graph ((t, 0) # S2) v"
  show "(D(t := tm + 1)) w \<noteq> 0"
  proof (cases "v = t")
    case False
    then have "w \<in> insert t (scanned graph S v)" using w more by (auto simp: scanned_simps)
    then show ?thesis using assms(1) v False unfolding scan_inv_def by auto
  qed (use w in \<open>simp add: scanned_simps\<close>)
next
  note forest = discoversD(1) [OF new] and stk = discoversD(2) [OF new] and fresh = discoversD(3,4) [OF new]
    and parent = discoversD(7) [OF new]
  fix u w assume uw: "(D(t := tm + 1)) u \<noteq> 0" "(D(t := tm + 1)) w \<noteq> 0" "edge graph u w"
    "(D(t := tm + 1)) w < (D(t := tm + 1)) u"
  have time: "D u \<noteq> 0 \<Longrightarrow> D u \<le> tm" for u using forest by (simp add: forest_inv_def)
  have w: "w \<noteq> t" using uw time [of u] by (auto split: if_splits)
  show "descends (P(t := x)) w u"
  proof (cases "u = t")
    case True
    have "w \<in> fst ` set S"
    proof (rule ccontr)
      assume "w \<notin> fst ` set S"
      then have "map_of S w = None" by (simp add: map_of_eq_None_iff)
      moreover have "edge graph w t" using uw(3) assms(2) True by (simp add: undirected_def)
      ultimately have "t \<in> scanned graph S w" by (simp add: scanned_def edge_def)
      moreover have "D w \<noteq> 0" using uw(2) w by simp
      ultimately show False using assms(1) fresh(1) unfolding scan_inv_def by blast
    qed
    then obtain f rest where S: "S = f # rest" by (cases S) auto
    have "descends P w (fst f)"
      using stk \<open>w \<in> fst ` set S\<close> chain_descends [of P "fst f" "map fst rest" w] unfolding stack_inv_def S by auto
    then have "descends (P(t := x)) w (fst f)" using descends_extend discoversD(9) [OF new] by blast
    then show ?thesis using True parent S by (auto intro: descends_parent)
  next
    case False
    then have "descends P w u" using assms(1) uw w unfolding scan_inv_def by auto
    then show ?thesis using descends_extend discoversD(9) [OF new] by blast
  qed
qed

lemma discover_low:
  assumes "low_inv graph S D L P" and new: "discovers graph D P tm t S S2 x"
  shows "low_inv graph ((t, 0) # S2) (D(t := tm + 1)) (L(t := tm + 1)) (P(t := x))"
proof -
  note forest = discoversD(1) [OF new] and stk = discoversD(2) [OF new] and fresh = discoversD(3,4) [OF new]
    and more = discoversD(6) [OF new] and parent = discoversD(7) [OF new]
  have time: "D u \<noteq> 0 \<Longrightarrow> D u \<le> tm" for u using forest by (simp add: forest_inv_def)
  have low: "D v \<noteq> 0 \<Longrightarrow> L v \<le> D v" for v using assms unfolding low_inv_def by blast
  have 1: "(L(t := tm + 1)) v \<le> (D(t := tm + 1)) v" if "(D(t := tm + 1)) v \<noteq> 0" for v
    using that low by auto
  have 2: "(L(t := tm + 1)) v \<le> (D(t := tm + 1)) w"
    if "(D(t := tm + 1)) v \<noteq> 0" "w \<in> scanned graph ((t, 0) # S2) v" "(P(t := x)) v \<noteq> Some w" for v w
  proof (cases "v = t")
    case True
    then show ?thesis using that(2) by (simp add: scanned_simps)
  next
    case v: False
    then have "w = t \<or> w \<in> scanned graph S v" using that(2) more by (auto simp: scanned_simps)
    moreover have "D v \<noteq> 0" "P v \<noteq> Some w" using v that by simp_all
    moreover have "L v \<le> tm" using \<open>D v \<noteq> 0\<close> low time le_trans by blast
    moreover have "L v \<le> D w" if "w \<in> scanned graph S v"
      using assms that \<open>D v \<noteq> 0\<close> \<open>P v \<noteq> Some w\<close> unfolding low_inv_def by blast
    ultimately show ?thesis using v by auto
  qed
  have 3: "(L(t := tm + 1)) v \<le> (L(t := tm + 1)) c"
    if "closed_node ((t, 0) # S2) (D(t := tm + 1)) c" "(P(t := x)) c = Some v" for c v
  proof -
    have c: "closed_node S D c" "c \<noteq> t" using that(1) discover_closed [OF new] by (auto simp: closed_node_def)
    then have "P c = Some v" using that(2) by simp
    then have "v \<noteq> t" using discoversD(10) [OF new] by blast
    moreover have "L v \<le> L c" using assms c(1) \<open>P c = Some v\<close> unfolding low_inv_def by blast
    ultimately show ?thesis using c(2) by simp
  qed
  have 4: "(L(t := tm + 1)) v = (D(t := tm + 1)) v \<or> (\<exists>u w. descends (P(t := x)) v u \<and> (D(t := tm + 1)) u \<noteq> 0 \<and>
      edge graph u w \<and> (D(t := tm + 1)) w \<noteq> 0 \<and> (D(t := tm + 1)) w = (L(t := tm + 1)) v)"
    if "(D(t := tm + 1)) v \<noteq> 0" for v
  proof (cases "v = t")
    case False
    then have "D v \<noteq> 0" using that by simp
    then have "L v = D v \<or> (\<exists>u w. descends P v u \<and> D u \<noteq> 0 \<and> edge graph u w \<and> D w \<noteq> 0 \<and> D w = L v)"
      using assms(1) unfolding low_inv_def by blast
    then consider "L v = D v" | u w where "descends P v u" "D u \<noteq> 0" "edge graph u w" "D w \<noteq> 0" "D w = L v"
      by (elim disjE exE conjE) blast+
    then show ?thesis
    proof cases
      case 2
      then have "u \<noteq> t" "w \<noteq> t" "descends (P(t := x)) v u"
        using fresh(1) descends_extend discoversD(9) [OF new] by auto
      then show ?thesis using 2 False by (intro disjI2 exI [of _ u] exI [of _ w]) simp
    qed (use False in simp)
  qed simp
  show ?thesis unfolding low_inv_def using 1 2 3 4 by blast
qed

definition count_child :: "nat option \<Rightarrow> (nat \<Rightarrow> nat) \<Rightarrow> nat \<Rightarrow> nat" where
  "count_child x C = (case x of None \<Rightarrow> C | Some v \<Rightarrow> C(v := C v + 1))"

lemma children_finite: "forest_inv graph D P tm \<Longrightarrow> finite {c. P c = Some p}"
proof (rule finite_subset [of _ "{..<length graph}"])
  assume inv: "forest_inv graph D P tm"
  show "{c. P c = Some p} \<subseteq> {..<length graph}"
  proof
    fix c assume "c \<in> {c. P c = Some p}"
    then have "D p < D c" using inv by (simp add: forest_inv_def)
    then show "c \<in> {..<length graph}" using inv by (simp add: forest_inv_def)
  qed
qed simp

lemma discover_flag:
  assumes old: "flag_inv graph S D L P C A" and new: "discovers graph D P tm t S S2 x"
  shows "flag_inv graph ((t, 0) # S2) (D(t := tm + 1)) (L(t := tm + 1)) (P(t := x)) (count_child x C) A"
proof -
  note forest = discoversD(1) [OF new] and none = discoversD(9) [OF new] and childless = discoversD(10) [OF new]
  have counts: "count_child x C p = card {c. (P(t := x)) c = Some p}" if "p < length graph" for p
  proof -
    have "{c. (P(t := x)) c = Some p} = (if x = Some p then insert t {c. P c = Some p} else {c. P c = Some p})"
      using none by auto
    moreover have "t \<notin> {c. P c = Some p}" using none by simp
    moreover have "C p = card {c. P c = Some p}" using old that by (simp add: flag_inv_def)
    ultimately show ?thesis using children_finite [OF forest, of p] by (auto simp: count_child_def split: option.splits)
  qed
  have "(\<exists>c. closed_node ((t, 0) # S2) (D(t := tm + 1)) c \<and> (P(t := x)) c = Some a \<and> (D(t := tm + 1)) a \<le> (L(t := tm + 1)) c)
      \<longleftrightarrow> (\<exists>c. closed_node S D c \<and> P c = Some a \<and> D a \<le> L c)" for a
  proof -
    have "closed_node S D c \<Longrightarrow> c \<noteq> t" for c using discoversD(3) [OF new] by (auto simp: closed_node_def)
    moreover have "P c = Some a \<Longrightarrow> a \<noteq> t" for c using childless by blast
    ultimately show ?thesis unfolding discover_closed [OF new] by (metis fun_upd_apply)
  qed
  note witness = this
  have top: "count_child x C a = C a" if "closed_node S D a" for a
    using that discoversD(7) [OF new] by (auto simp: count_child_def closed_node_def split: list.splits)
  have flags: "\<forall>a<length graph. A a \<longleftrightarrow> (P(t := x)) a \<noteq> None \<and> (\<exists>c. closed_node S D c \<and> P c = Some a \<and> D a \<le> L c) \<or>
        (P(t := x)) a = None \<and> closed_node S D a \<and> 1 < count_child x C a"
  proof (intro allI impI)
    fix a assume "a < length graph"
    then have a: "A a \<longleftrightarrow> P a \<noteq> None \<and> (\<exists>c. closed_node S D c \<and> P c = Some a \<and> D a \<le> L c) \<or>
        P a = None \<and> closed_node S D a \<and> C a > 1" using old unfolding flag_inv_def by blast
    show "A a \<longleftrightarrow> (P(t := x)) a \<noteq> None \<and> (\<exists>c. closed_node S D c \<and> P c = Some a \<and> D a \<le> L c) \<or>
        (P(t := x)) a = None \<and> closed_node S D a \<and> 1 < count_child x C a"
    proof (cases "a = t")
      case True
      then have "\<not> closed_node S D a" using discoversD(3) [OF new] by (simp add: closed_node_def)
      then show ?thesis using a childless True none by auto
    next
      case False
      then show ?thesis using a top by auto
    qed
  qed
  have "\<forall>p<length graph. count_child x C p = card {c. (P(t := x)) c = Some p}" using counts by simp
  with flags show ?thesis unfolding flag_inv_def witness unfolding discover_closed [OF new] by (intro conjI)
qed

subsection \<open>A neighbour is looked at\<close>

lemma next_closed: "closed_node ((v, j) # rest) D c = closed_node ((v, i) # rest) D c"
  by (simp add: closed_node_def)

lemma next_stack: "stack_inv graph ((v, i) # rest) D P \<Longrightarrow> stack_inv graph ((v, j) # rest) D P"
  by (simp add: stack_inv_def)

lemma next_scan:
  assumes "scan_inv graph ((v, i) # rest) D P" "i < length (graph ! v)" "D (graph ! v ! i) \<noteq> 0"
  shows "scan_inv graph ((v, i + 1) # rest) D P"
  using assms unfolding scan_inv_def scanned_next [OF assms(2)] by (metis insertE)

lemma next_flag: "flag_inv graph ((v, i) # rest) D L P C A \<Longrightarrow> flag_inv graph ((v, j) # rest) D L P C A"
  unfolding flag_inv_def by (simp add: next_closed [of v j rest D _ i])

lemma next_low:
  assumes low: "low_inv graph ((v, i) # rest) D L P" and i: "i < length (graph ! v)" and t: "t = graph ! v ! i"
    and ok: "D v \<noteq> 0" "D t \<noteq> 0" "v < length graph"
    and m: "m = L v \<and> P v = Some t \<or> m = min (L v) (D t)"
  shows "low_inv graph ((v, i + 1) # rest) D (L(v := m)) P"
proof -
  have le: "m \<le> L v" "P v \<noteq> Some t \<Longrightarrow> m \<le> D t" using m by auto
  have 1: "(L(v := m)) u \<le> D u" if "D u \<noteq> 0" for u
    using low that le(1) unfolding low_inv_def by (metis fun_upd_apply le_trans)
  have 2: "(L(v := m)) u \<le> D w" if "D u \<noteq> 0" "w \<in> scanned graph ((v, i + 1) # rest) u" "P u \<noteq> Some w" for u w
  proof (cases "u = v \<and> w = t")
    case True
    then show ?thesis using le(2) that(3) by simp
  next
    case False
    then have "w \<in> scanned graph ((v, i) # rest) u" using that(2) t unfolding scanned_next [OF i] by (auto split: if_splits)
    then have "L u \<le> D w" using low that unfolding low_inv_def by blast
    then show ?thesis using le(1) by auto
  qed
  have 3: "(L(v := m)) u \<le> (L(v := m)) c" if "closed_node ((v, i + 1) # rest) D c" "P c = Some u" for c u
  proof -
    have "closed_node ((v, i) # rest) D c" "c \<noteq> v" using that(1) by (auto simp: closed_node_def)
    then have "L u \<le> L c" using low that(2) unfolding low_inv_def by blast
    then show ?thesis using le(1) \<open>c \<noteq> v\<close> by auto
  qed
  have 4: "(L(v := m)) u = D u \<or> (\<exists>y w. descends P u y \<and> D y \<noteq> 0 \<and> edge graph y w \<and> D w \<noteq> 0 \<and> D w = (L(v := m)) u)"
    if u: "D u \<noteq> 0" for u
  proof (cases "u = v \<and> m = D t")
    case True
    have "edge graph v t" using i t ok(3) by (simp add: edge_def)
    then show ?thesis using True ok by (intro disjI2 exI [of _ v] exI [of _ t]) simp
  next
    case False
    then have "(L(v := m)) u = L u" using m by (auto simp: min_def split: if_splits)
    then show ?thesis using low u unfolding low_inv_def by metis
  qed
  show ?thesis unfolding low_inv_def using 1 2 3 4 by blast
qed

subsection \<open>A node is finished\<close>

lemma pop_closed: "v \<notin> fst ` set rest \<Longrightarrow> D v \<noteq> 0 \<Longrightarrow>
    closed_node rest D c \<longleftrightarrow> c = v \<or> closed_node ((v, i) # rest) D c"
  by (auto simp: closed_node_def)

lemma pop_stack: "stack_inv graph ((v, i) # rest) D P \<Longrightarrow> stack_inv graph rest D P"
  by (auto simp: stack_inv_def dest: chain_tail)

lemma pop_scan:
  assumes "scan_inv graph ((v, i) # rest) D P" "\<not> i < length (graph ! v)" "v \<notin> fst ` set rest"
  shows "scan_inv graph rest D P"
  using assms(1) unfolding scan_inv_def scanned_pop [OF assms(2,3)] .

lemma pop_low:
  assumes low: "low_inv graph ((v, i) # rest) D L P" and i: "\<not> i < length (graph ! v)" "v \<notin> fst ` set rest"
    and v: "D v \<noteq> 0" and forest: "forest_inv graph D P tm"
    and m: "case P v of None \<Rightarrow> L2 = L | Some p \<Rightarrow> p \<in> fst ` set rest \<and> L2 = L(p := min (L p) (L v))"
  shows "low_inv graph rest D L2 P"
proof -
  have less: "L2 u \<le> L u" for u using m by (auto split: option.splits)
  have same: "L2 c = L c" if "closed_node rest D c" for c
    using m that by (auto simp: closed_node_def split: option.splits)
  have 1: "L2 u \<le> D u" if "D u \<noteq> 0" for u using low that less le_trans unfolding low_inv_def by blast
  have 2: "L2 u \<le> D w" if "D u \<noteq> 0" "w \<in> scanned graph rest u" "P u \<noteq> Some w" for u w
    using low that less le_trans unfolding low_inv_def scanned_pop [OF i, of u] by blast
  have 3: "L2 u \<le> L2 c" if "closed_node rest D c" "P c = Some u" for c u
  proof (cases "c = v")
    case True
    then show ?thesis using same [OF that(1)] that(2) m by simp
  next
    case False
    then have "closed_node ((v, i) # rest) D c" using that(1) by (simp add: closed_node_def)
    then have "L u \<le> L c" using low that(2) unfolding low_inv_def by blast
    then show ?thesis using same [OF that(1)] less [of u] by simp
  qed
  have old: "L u = D u \<or> (\<exists>y w. descends P u y \<and> D y \<noteq> 0 \<and> edge graph y w \<and> D w \<noteq> 0 \<and> D w = L u)"
    if "D u \<noteq> 0" for u using low that unfolding low_inv_def by blast
  have 4: "L2 u = D u \<or> (\<exists>y w. descends P u y \<and> D y \<noteq> 0 \<and> edge graph y w \<and> D w \<noteq> 0 \<and> D w = L2 u)"
    if u: "D u \<noteq> 0" for u
  proof (cases "L2 u = L u")
    case False
    then have p: "P v = Some u" "L2 u = L v" "L v < L u" using m by (auto split: option.splits if_splits)
    have "L u \<le> D u" using low u unfolding low_inv_def by blast
    moreover have "D u < D v" using forest p(1) by (simp add: forest_inv_def)
    ultimately have "L v \<noteq> D v" using p(3) by simp
    then obtain y w where "descends P v y" "D y \<noteq> 0" "edge graph y w" "D w \<noteq> 0" "D w = L v" using old [OF v] by blast
    moreover have "descends P u v" by (rule descends_parent [of P u u v]) (simp_all add: p(1))
    ultimately show ?thesis using p(2) descends_trans by (intro disjI2 exI [of _ y] exI [of _ w]) auto
  qed (use old [OF u] in simp)
  show ?thesis unfolding low_inv_def using 1 2 3 4 by blast
qed

lemma pop_flag:
  assumes flag: "flag_inv graph ((v, i) # rest) D L P C A" and v: "D v \<noteq> 0" "v \<notin> fst ` set rest" "v < length graph"
    and m: "case P v of None \<Rightarrow> L2 = L \<and> A2 = (if C v > 1 then A(v := True) else A)
      | Some p \<Rightarrow> p \<in> fst ` set rest \<and> p \<noteq> v \<and> L2 = L(p := min (L p) (L v)) \<and>
          A2 = (if P p \<noteq> None \<and> D p \<le> L v then A(p := True) else A)"
  shows "flag_inv graph rest D L2 P C A2"
proof -
  let ?w = "\<lambda>S L a c. closed_node S D c \<and> P c = Some a \<and> D a \<le> L c"
  have same: "L2 c = L c" if "closed_node rest D c" for c
    using m that by (auto simp: closed_node_def split: option.splits)
  have one: "?w rest L2 a c \<longleftrightarrow> ?w ((v, i) # rest) L a c \<or> c = v \<and> P v = Some a \<and> D a \<le> L v" for a c
    using same [of c] pop_closed [of v rest D c i, OF v(2,1)] by auto
  have wit: "(\<exists>c. ?w rest L2 a c) \<longleftrightarrow> (\<exists>c. ?w ((v, i) # rest) L a c) \<or> P v = Some a \<and> D a \<le> L v" for a
    unfolding one by blast
  have "\<forall>a<length graph. A2 a \<longleftrightarrow> P a \<noteq> None \<and> ((\<exists>c. ?w ((v, i) # rest) L a c) \<or> P v = Some a \<and> D a \<le> L v) \<or>
      P a = None \<and> (a = v \<or> closed_node ((v, i) # rest) D a) \<and> C a > 1"
  proof (intro allI impI)
    fix a assume "a < length graph"
    then have a: "A a \<longleftrightarrow> P a \<noteq> None \<and> (\<exists>c. ?w ((v, i) # rest) L a c) \<or>
        P a = None \<and> closed_node ((v, i) # rest) D a \<and> C a > 1" using flag unfolding flag_inv_def by blast
    have "\<not> closed_node ((v, i) # rest) D v" by (simp add: closed_node_def)
    then show "A2 a \<longleftrightarrow> P a \<noteq> None \<and> ((\<exists>c. ?w ((v, i) # rest) L a c) \<or> P v = Some a \<and> D a \<le> L v) \<or>
        P a = None \<and> (a = v \<or> closed_node ((v, i) # rest) D a) \<and> C a > 1"
      using m unfolding a [symmetric] by (cases "P v") (auto simp: a split: if_splits)
  qed
  moreover have "\<forall>p<length graph. C p = card {c. P c = Some p}" using flag by (simp add: flag_inv_def)
  ultimately show ?thesis unfolding flag_inv_def wit unfolding pop_closed [of v rest D _ i, OF v(2,1)] by (intro conjI)
qed

section \<open>The search keeps the invariant\<close>

definition found_at :: "cut_state \<Rightarrow> nat \<Rightarrow> nat" where
  "found_at st v = (if v < length (ct_discovered st) then ct_discovered st ! v else 0)"

definition parent_of :: "cut_state \<Rightarrow> nat \<Rightarrow> nat option" where
  "parent_of st v = (if v < length (ct_parent st) then ct_parent st ! v else None)"

definition cut_lengths :: "nat \<Rightarrow> cut_state \<Rightarrow> bool" where
  "cut_lengths n st \<longleftrightarrow> length (ct_discovered st) = n \<and> length (ct_low st) = n \<and> length (ct_parent st) = n \<and>
     length (ct_child_count st) = n \<and> length (ct_articulation st) = n"

definition cut_inv :: "nat list list \<Rightarrow> (nat \<times> nat) list \<Rightarrow> cut_state \<Rightarrow> bool" where
  "cut_inv graph stack st \<longleftrightarrow> cut_lengths (length graph) st \<and>
     forest_inv graph (found_at st) (parent_of st) (ct_time st) \<and>
     stack_inv graph stack (found_at st) (parent_of st) \<and> scan_inv graph stack (found_at st) (parent_of st) \<and>
     low_inv graph stack (found_at st) ((!) (ct_low st)) (parent_of st) \<and>
     flag_inv graph stack (found_at st) ((!) (ct_low st)) (parent_of st) ((!) (ct_child_count st)) ((!) (ct_articulation st))"

lemma nth_update: "i < length xs \<Longrightarrow> (!) (xs[i := x]) = ((!) xs)(i := x)"
  by (rule ext) (simp add: nth_list_update)

lemma discover_fields:
  assumes "cut_lengths n st" "t < n"
  shows "found_at (discover t st) = (found_at st)(t := ct_time st + 1)"
    "parent_of (discover t st) = parent_of st" "ct_time (discover t st) = ct_time st + 1"
    "(!) (ct_low (discover t st)) = ((!) (ct_low st))(t := ct_time st + 1)"
    "ct_child_count (discover t st) = ct_child_count st" "ct_articulation (discover t st) = ct_articulation st"
    "cut_lengths n (discover t st)"
  using assms by (auto simp: found_at_def parent_of_def discover_def cut_lengths_def nth_update nth_list_update fun_eq_iff)

lemma adopt_fields:
  assumes "cut_lengths n st" "t < n" "p < n"
  shows "found_at (adopt p t st) = found_at st" "parent_of (adopt p t st) = (parent_of st)(t := Some p)"
    "ct_time (adopt p t st) = ct_time st" "ct_low (adopt p t st) = ct_low st"
    "(!) (ct_child_count (adopt p t st)) = count_child (Some p) ((!) (ct_child_count st))"
    "ct_articulation (adopt p t st) = ct_articulation st" "cut_lengths n (adopt p t st)"
  using assms by (auto simp: found_at_def parent_of_def adopt_def cut_lengths_def nth_update nth_list_update fun_eq_iff
      count_child_def)

lemma lower_fields:
  assumes "cut_lengths n st" "v < n"
  shows "found_at (lower_to v d st) = found_at st" "parent_of (lower_to v d st) = parent_of st"
    "ct_time (lower_to v d st) = ct_time st"
    "(!) (ct_low (lower_to v d st)) = ((!) (ct_low st))(v := min (ct_low st ! v) d)"
    "ct_child_count (lower_to v d st) = ct_child_count st" "ct_articulation (lower_to v d st) = ct_articulation st"
    "cut_lengths n (lower_to v d st)"
  using assms by (auto simp: found_at_def parent_of_def lower_to_def cut_lengths_def nth_update fun_eq_iff)

lemma mark_fields:
  assumes "cut_lengths n st" "v < n"
  shows "found_at (mark_cut v st) = found_at st" "parent_of (mark_cut v st) = parent_of st"
    "ct_time (mark_cut v st) = ct_time st" "ct_low (mark_cut v st) = ct_low st"
    "ct_child_count (mark_cut v st) = ct_child_count st"
    "(!) (ct_articulation (mark_cut v st)) = ((!) (ct_articulation st))(v := True)" "cut_lengths n (mark_cut v st)"
  using assms by (auto simp: found_at_def parent_of_def mark_cut_def cut_lengths_def nth_update fun_eq_iff)

lemma cut_inv_discover:
  assumes inv: "cut_inv graph S st" and und: "undirected graph" and t: "t < length graph" "found_at st t = 0"
    and same: "map fst S2 = map fst S" and more: "\<And>u. scanned graph S2 u \<subseteq> insert t (scanned graph S u)"
    and x: "x = (case S of [] \<Rightarrow> None | f # _ \<Rightarrow> Some (fst f))" "\<And>v. x = Some v \<Longrightarrow> edge graph v t"
    and st2: "cut_lengths (length graph) st2" "found_at st2 = (found_at st)(t := ct_time st + 1)"
      "parent_of st2 = (parent_of st)(t := x)" "ct_time st2 = ct_time st + 1"
      "(!) (ct_low st2) = ((!) (ct_low st))(t := ct_time st + 1)"
      "(!) (ct_child_count st2) = count_child x ((!) (ct_child_count st))" "ct_articulation st2 = ct_articulation st"
  shows "cut_inv graph ((t, 0) # S2) st2"
proof -
  have new: "discovers graph (found_at st) (parent_of st) (ct_time st) t S S2 x"
    using inv t same more x unfolding discovers_def cut_inv_def by blast
  show ?thesis
    using inv und discover_forest [OF new] discover_stack [OF new] discover_scan [OF _ und new] discover_low [OF _ new]
      discover_flag [OF _ new]
    unfolding cut_inv_def st2(2-7) by (simp only: st2(1))
qed

lemma cut_inv_top:
  assumes "cut_inv graph ((v, i) # rest) st"
  shows "cut_lengths (length graph) st" "v < length graph" "found_at st v \<noteq> 0" "v \<notin> fst ` set rest"
    and "parent_of st v = Some p \<Longrightarrow> p \<in> fst ` set rest \<and> p \<noteq> v \<and> p < length graph"
    and "parent_of st v = ct_parent st ! v"
proof -
  show len: "cut_lengths (length graph) st" and found: "found_at st v \<noteq> 0" and off: "v \<notin> fst ` set rest"
    using assms unfolding cut_inv_def stack_inv_def by auto
  show v: "v < length graph" using assms found unfolding cut_inv_def forest_inv_def by blast
  show "parent_of st v = ct_parent st ! v" using len v by (simp add: parent_of_def cut_lengths_def)
  assume p: "parent_of st v = Some p"
  then have "p \<in> set (map fst ((v, i) # rest))"
    using assms chain_parent [of "parent_of st" "map fst ((v, i) # rest)" v p] unfolding cut_inv_def stack_inv_def by simp
  moreover have "found_at st p < found_at st v" "found_at st p \<noteq> 0"
    using assms p unfolding cut_inv_def forest_inv_def by blast+
  moreover have "p < length graph" using \<open>found_at st p \<noteq> 0\<close> assms unfolding cut_inv_def forest_inv_def by blast
  ultimately show "p \<in> fst ` set rest \<and> p \<noteq> v \<and> p < length graph" by auto
qed

lemma flag_low:
  assumes "flag_inv graph S D L P C A" "\<And>c. closed_node S D c \<Longrightarrow> L2 c = L c"
  shows "flag_inv graph S D L2 P C A"
proof -
  have "(\<exists>c. closed_node S D c \<and> P c = Some a \<and> D a \<le> L2 c) \<longleftrightarrow> (\<exists>c. closed_node S D c \<and> P c = Some a \<and> D a \<le> L c)" for a
    using assms(2) by metis
  with assms(1) show ?thesis unfolding flag_inv_def by simp
qed

lemma cut_inv_scan:
  assumes inv: "cut_inv graph ((v, i) # rest) st" and i: "i < length (graph ! v)" and t: "t = graph ! v ! i"
    and found: "found_at st t \<noteq> 0"
    and st2: "st2 = (if parent_of st v \<noteq> Some t then lower_to v (found_at st t) st else st)"
  shows "cut_inv graph ((v, i + 1) # rest) st2"
proof -
  note top = cut_inv_top [OF inv]
  obtain m where m: "m = ct_low st ! v \<and> parent_of st v = Some t \<or> m = min (ct_low st ! v) (found_at st t)"
    and fields: "found_at st2 = found_at st" "parent_of st2 = parent_of st" "ct_time st2 = ct_time st"
      "(!) (ct_low st2) = ((!) (ct_low st))(v := m)" "ct_child_count st2 = ct_child_count st"
      "ct_articulation st2 = ct_articulation st" "cut_lengths (length graph) st2"
  proof (cases "parent_of st v = Some t")
    case True
    then show ?thesis using that [of "ct_low st ! v"] top(1) by (simp add: st2)
  next
    case False
    then have "st2 = lower_to v (found_at st t) st" by (simp add: st2)
    then show ?thesis using that [of "min (ct_low st ! v) (found_at st t)"] lower_fields [OF top(1,2)] by simp
  qed
  have flag: "flag_inv graph ((v, i + 1) # rest) (found_at st) (((!) (ct_low st))(v := m)) (parent_of st)
      ((!) (ct_child_count st)) ((!) (ct_articulation st))"
  proof -
    have "flag_inv graph ((v, i) # rest) (found_at st) ((!) (ct_low st)) (parent_of st)
      ((!) (ct_child_count st)) ((!) (ct_articulation st))" using inv unfolding cut_inv_def by blast
    then have "flag_inv graph ((v, i) # rest) (found_at st) (((!) (ct_low st))(v := m)) (parent_of st)
      ((!) (ct_child_count st)) ((!) (ct_articulation st))"
      by (rule flag_low) (simp add: closed_node_def)
    then show ?thesis by (rule next_flag)
  qed
  have parts: "forest_inv graph (found_at st) (parent_of st) (ct_time st)"
    "stack_inv graph ((v, i) # rest) (found_at st) (parent_of st)"
    "scan_inv graph ((v, i) # rest) (found_at st) (parent_of st)"
    "low_inv graph ((v, i) # rest) (found_at st) ((!) (ct_low st)) (parent_of st)" using inv unfolding cut_inv_def by blast+
  show ?thesis
    unfolding cut_inv_def fields(1-6)
    by (intro conjI fields(7) parts(1) next_stack [OF parts(2)] next_scan [OF parts(3) i found [unfolded t]]
        next_low [OF parts(4) i t top(3) found top(2) m] flag)
qed

lemma cut_inv_pop:
  assumes inv: "cut_inv graph ((v, i) # rest) st" and i: "\<not> i < length (graph ! v)"
  shows "cut_inv graph rest (finish_node v st)"
proof -
  note top = cut_inv_top [OF inv]
  let ?D = "found_at st" and ?P = "parent_of st" and ?L = "(!) (ct_low st)" and ?A = "(!) (ct_articulation st)"
  let ?f = "finish_node v st"
  have at: "found_at st u = ct_discovered st ! u \<and> parent_of st u = ct_parent st ! u" if "u < length graph" for u
    using that top(1) by (simp add: found_at_def parent_of_def cut_lengths_def)
  have f: "found_at ?f = ?D" "parent_of ?f = ?P" "ct_time ?f = ct_time st" "ct_child_count ?f = ct_child_count st"
    "cut_lengths (length graph) ?f"
    "case ?P v of None \<Rightarrow> (!) (ct_low ?f) = ?L \<and>
        (!) (ct_articulation ?f) = (if ct_child_count st ! v > 1 then ?A(v := True) else ?A)
      | Some p \<Rightarrow> p \<in> fst ` set rest \<and> p \<noteq> v \<and> (!) (ct_low ?f) = ?L(p := min (?L p) (?L v)) \<and>
        (!) (ct_articulation ?f) = (if ?P p \<noteq> None \<and> ?D p \<le> ?L v then ?A(p := True) else ?A)"
  proof -
    have "found_at ?f = ?D \<and> parent_of ?f = ?P \<and> ct_time ?f = ct_time st \<and> ct_child_count ?f = ct_child_count st \<and>
      cut_lengths (length graph) ?f \<and>
      (case ?P v of None \<Rightarrow> (!) (ct_low ?f) = ?L \<and>
        (!) (ct_articulation ?f) = (if ct_child_count st ! v > 1 then ?A(v := True) else ?A)
      | Some p \<Rightarrow> p \<in> fst ` set rest \<and> p \<noteq> v \<and> (!) (ct_low ?f) = ?L(p := min (?L p) (?L v)) \<and>
        (!) (ct_articulation ?f) = (if ?P p \<noteq> None \<and> ?D p \<le> ?L v then ?A(p := True) else ?A))"
    proof (cases "?P v")
      case None
      then show ?thesis using top(6) mark_fields [OF top(1,2)] top(1) by (simp add: finish_node_def)
    next
      case (Some p)
      note p = top(5) [OF Some]
      have len: "cut_lengths (length graph) (lower_to p (ct_low st ! v) st)" using lower_fields(7) top(1) p by blast
      have low: "ct_low (lower_to p (ct_low st ! v) st) ! v = ct_low st ! v" using p by (simp add: lower_to_def)
      have kept: "ct_parent (lower_to p (ct_low st ! v) st) = ct_parent st"
        "ct_discovered (lower_to p (ct_low st ! v) st) = ct_discovered st" by (simp_all add: lower_to_def)
      have "?f = (if ?P p \<noteq> None \<and> ?D p \<le> ?L v then mark_cut p (lower_to p (ct_low st ! v) st) else lower_to p (ct_low st ! v) st)"
        using Some top(6) at p by (simp add: finish_node_def Let_def low kept)
      then show ?thesis
        using Some p lower_fields [OF top(1), of p "ct_low st ! v"] mark_fields [OF len, of p] len by simp
    qed
    then show "found_at ?f = ?D" "parent_of ?f = ?P" "ct_time ?f = ct_time st" "ct_child_count ?f = ct_child_count st"
      "cut_lengths (length graph) ?f"
      "case ?P v of None \<Rightarrow> (!) (ct_low ?f) = ?L \<and>
        (!) (ct_articulation ?f) = (if ct_child_count st ! v > 1 then ?A(v := True) else ?A)
      | Some p \<Rightarrow> p \<in> fst ` set rest \<and> p \<noteq> v \<and> (!) (ct_low ?f) = ?L(p := min (?L p) (?L v)) \<and>
        (!) (ct_articulation ?f) = (if ?P p \<noteq> None \<and> ?D p \<le> ?L v then ?A(p := True) else ?A)"
      by blast+
  qed
  have parts: "forest_inv graph ?D ?P (ct_time st)" "stack_inv graph ((v, i) # rest) ?D ?P"
    "scan_inv graph ((v, i) # rest) ?D ?P" "low_inv graph ((v, i) # rest) ?D ?L ?P"
    "flag_inv graph ((v, i) # rest) ?D ?L ?P ((!) (ct_child_count st)) ?A" using inv unfolding cut_inv_def by blast+
  have "low_inv graph rest ?D ((!) (ct_low ?f)) ?P"
    by (rule pop_low [OF parts(4) i top(4,3) parts(1)]) (use f(6) in \<open>simp split: option.splits\<close>)
  moreover have "flag_inv graph rest ?D ((!) (ct_low ?f)) ?P ((!) (ct_child_count st)) ((!) (ct_articulation ?f))"
    by (rule pop_flag [OF parts(5) top(3,4,2) f(6)])
  ultimately show ?thesis
    unfolding cut_inv_def f(1-4) using f(5) parts(1) pop_stack [OF parts(2)] pop_scan [OF parts(3) i top(4)] by blast
qed

lemma cut_search_run:
  assumes "undirected graph" "cut_inv graph stack st"
  shows "\<exists>st'. cut_search graph stack st = Some st' \<and> cut_inv graph [] st' \<and>
    (\<forall>v. found_at st v \<noteq> 0 \<longrightarrow> found_at st' v \<noteq> 0)"
  using assms
proof (induction graph stack st rule: cut_search.induct)
  case (1 graph stack st)
  show ?case
  proof (cases stack)
    case Nil
    then show ?thesis using 1 by (subst cut_search.simps) simp
  next
    case (Cons f rest)
    obtain v i where f: "f = (v, i)" by (cases f)
    have inv: "cut_inv graph ((v, i) # rest) st" using 1(6) Cons f by simp
    note top = cut_inv_top [OF inv]
    have len: "length (ct_discovered st) = length graph" using top(1) by (simp add: cut_lengths_def)
    let ?t = "graph ! v ! i"
    consider (pop) "\<not> i < length (graph ! v)" | (fresh) "i < length (graph ! v)" "found_at st ?t = 0"
      | (known) "i < length (graph ! v)" "found_at st ?t \<noteq> 0" by blast
    then show ?thesis
    proof cases
      case pop
      have "cut_search graph stack st = cut_search graph rest (finish_node v st)"
        using pop top(2) Cons f by (subst cut_search.simps) simp
      moreover have "found_at (finish_node v st) = found_at st"
        by (auto simp: fun_eq_iff found_at_def finish_node_def lower_to_def mark_cut_def Let_def split: option.splits)
      ultimately show ?thesis
        using 1(4) [OF Cons f [symmetric] _ pop 1(5) cut_inv_pop [OF inv pop]] top(2) Cons f by simp
    next
      case fresh
      have t: "?t < length graph" using 1(5) top(2) fresh(1) unfolding undirected_def well_formed_def by simp
      let ?st = "discover ?t (adopt v ?t st)"
      note a = adopt_fields [OF top(1) t top(2)]
      note d = discover_fields [OF a(7) t]
      have step: "cut_search graph stack st = cut_search graph ((?t, 0) # (v, i + 1) # rest) ?st"
        using fresh top(2) t len Cons f by (subst cut_search.simps) (simp add: found_at_def Let_def)
      have "cut_inv graph ((?t, 0) # (v, i + 1) # rest) ?st"
      proof (rule cut_inv_discover [OF inv 1(5) t fresh(2), where x = "Some v"])
        show "scanned graph ((v, i + 1) # rest) u \<subseteq> insert ?t (scanned graph ((v, i) # rest) u)" for u
          unfolding scanned_next [OF fresh(1)] by auto
        show "edge graph w ?t" if "Some v = Some w" for w using that fresh(1) top(2) by (simp add: edge_def)
      qed (simp_all add: a d)
      then obtain st' where st': "cut_search graph ((?t, 0) # (v, i + 1) # rest) ?st = Some st'" "cut_inv graph [] st'"
        "\<forall>w. found_at ?st w \<noteq> 0 \<longrightarrow> found_at st' w \<noteq> 0"
        using 1(1) [OF Cons f [symmetric] _ fresh(1) refl refl _ _ 1(5)] fresh(2) top(2) t len Cons f
        by (auto simp: found_at_def)
      have "found_at ?st w \<noteq> 0" if "found_at st w \<noteq> 0" for w using that by (simp add: a d)
      then show ?thesis using st' step by metis
    next
      case known
      have t: "?t < length graph" using 1(5) top(2) known(1) unfolding undirected_def well_formed_def by simp
      have found: "found_at st ?t = ct_discovered st ! ?t" using t len by (simp add: found_at_def)
      show ?thesis
      proof (cases "ct_parent st ! v = Some ?t")
        case True
        have "cut_search graph stack st = cut_search graph ((v, i + 1) # rest) st"
          using known top(2) t len Cons f True found by (subst cut_search.simps) (simp add: Let_def)
        moreover have "cut_inv graph ((v, i + 1) # rest) st"
          by (rule cut_inv_scan [OF inv known(1) refl known(2)]) (simp add: top(6) True)
        ultimately show ?thesis
          using 1(3) [OF Cons f [symmetric] _ known(1) refl refl _ _ _ 1(5)] known(2) found top(2) t len True by simp
      next
        case False
        let ?st = "lower_to v (ct_discovered st ! ?t) st"
        have "cut_search graph stack st = cut_search graph ((v, i + 1) # rest) ?st"
          using known top(2) t len Cons f False found by (subst cut_search.simps) (simp add: Let_def)
        moreover have "cut_inv graph ((v, i + 1) # rest) ?st"
          by (rule cut_inv_scan [OF inv known(1) refl known(2)]) (simp add: top(6) False found)
        moreover have "found_at ?st = found_at st" by (simp add: fun_eq_iff found_at_def lower_to_def)
        ultimately show ?thesis
          using 1(2) [OF Cons f [symmetric] _ known(1) refl refl _ _ _ 1(5)] known(2) found top(2) t len False by simp
      qed
    qed
  qed
qed

lemma cut_roots_run:
  assumes und: "undirected graph" and "cut_inv graph [] st" "set roots \<subseteq> {..<length graph}"
  shows "\<exists>st'. cut_roots graph roots st = Some st' \<and> cut_inv graph [] st' \<and>
    (\<forall>v. found_at st v \<noteq> 0 \<or> v \<in> set roots \<longrightarrow> found_at st' v \<noteq> 0)"
  using assms(2,3)
proof (induction roots arbitrary: st)
  case (Cons r roots)
  have r: "r < length graph" using Cons.prems(2) by simp
  have len: "cut_lengths (length graph) st" using Cons.prems(1) by (simp add: cut_inv_def)
  have at: "found_at st r = ct_discovered st ! r" using len r by (simp add: found_at_def cut_lengths_def)
  show ?case
  proof (cases "found_at st r = 0")
    case False
    then show ?thesis using Cons.IH [OF Cons.prems(1)] Cons.prems(2) at by auto
  next
    case True
    note d = discover_fields [OF len r]
    have "parent_of st r = None"
      using Cons.prems(1) True unborn_parent(1) [of graph "found_at st" "parent_of st" "ct_time st" r]
      by (simp add: cut_inv_def)
    then have "parent_of (discover r st) = (parent_of st)(r := None)" by (simp add: d fun_eq_iff)
    then have "cut_inv graph [(r, 0)] (discover r st)"
      by (intro cut_inv_discover [OF Cons.prems(1) und r True, where x = None])
        (simp_all only: d list.case option.simps count_child_def subset_insertI)
    then obtain st1 where st1: "cut_search graph [(r, 0)] (discover r st) = Some st1" "cut_inv graph [] st1"
      "\<forall>v. found_at (discover r st) v \<noteq> 0 \<longrightarrow> found_at st1 v \<noteq> 0"
      using cut_search_run [OF und] by blast
    obtain st' where st': "cut_roots graph roots st1 = Some st'" "cut_inv graph [] st'"
      "\<forall>v. found_at st1 v \<noteq> 0 \<or> v \<in> set roots \<longrightarrow> found_at st' v \<noteq> 0"
      using Cons.IH [OF st1(2)] Cons.prems(2) by auto
    have "\<forall>v. found_at st v \<noteq> 0 \<or> v = r \<longrightarrow> found_at (discover r st) v \<noteq> 0" by (simp add: d)
    then show ?thesis using st1 st' True at by auto
  qed
qed simp

lemma cut_inv_start: "cut_inv graph [] (cut_start (length graph))"
proof -
  have "found_at (cut_start n) = (\<lambda>_. 0)" "parent_of (cut_start n) = (\<lambda>_. None)" for n
    by (auto simp: fun_eq_iff found_at_def parent_of_def cut_start_def)
  then show ?thesis
    by (simp add: cut_inv_def forest_inv_def stack_inv_def scan_inv_def low_inv_def flag_inv_def closed_node_def
        cut_lengths_def) (simp add: cut_start_def)
qed

section \<open>What the flags mean\<close>

text \<open>A node separates a graph when two other nodes are linked only through it.\<close>

abbreviation avoids :: "nat list list \<Rightarrow> nat \<Rightarrow> nat \<Rightarrow> nat \<Rightarrow> bool" where
  "avoids graph a \<equiv> (\<lambda>x y. edge graph x y \<and> x \<noteq> a \<and> y \<noteq> a)\<^sup>*\<^sup>*"

definition separates :: "nat list list \<Rightarrow> nat \<Rightarrow> bool" where
  "separates graph a \<longleftrightarrow> (\<exists>u w. u \<noteq> a \<and> w \<noteq> a \<and> reaches graph u w \<and> \<not> avoids graph a u w)"

text \<open>The finished search.\<close>

definition spanned :: "nat list list \<Rightarrow> (nat \<Rightarrow> nat) \<Rightarrow> (nat \<Rightarrow> nat option) \<Rightarrow> bool" where
  "spanned graph D P \<longleftrightarrow> undirected graph \<and> (\<exists>tm. forest_inv graph D P tm) \<and> scan_inv graph [] D P \<and>
     (\<forall>v<length graph. D v \<noteq> 0)"

lemma spannedD:
  assumes "spanned graph D P"
  shows "edge graph u w \<Longrightarrow> edge graph w u" "edge graph u w \<Longrightarrow> D u \<noteq> 0 \<and> D w \<noteq> 0"
    "D u \<noteq> 0 \<Longrightarrow> D u = D w \<Longrightarrow> u = w" "P v = Some p \<Longrightarrow> edge graph p v \<and> D p < D v"
    "edge graph u w \<Longrightarrow> D w < D u \<Longrightarrow> descends P w u" "descends P u w \<Longrightarrow> u = w \<or> D u < D w"
proof -
  obtain tm where tm: "forest_inv graph D P tm" using assms by (auto simp: spanned_def)
  have nz: "\<And>u w. edge graph u w \<Longrightarrow> D u \<noteq> 0 \<and> D w \<noteq> 0"
  proof -
    fix u w assume e: "edge graph u w"
    have "well_formed graph" using assms by (simp add: spanned_def undirected_def)
    then have "u < length graph" "w < length graph" using e by (auto simp: well_formed_def edge_def)
    then show "D u \<noteq> 0 \<and> D w \<noteq> 0" using assms by (simp add: spanned_def)
  qed
  show "edge graph u w \<Longrightarrow> D u \<noteq> 0 \<and> D w \<noteq> 0" by (rule nz)
  show "edge graph u w \<Longrightarrow> edge graph w u" using assms by (simp add: spanned_def undirected_def)
  show "D u \<noteq> 0 \<Longrightarrow> D u = D w \<Longrightarrow> u = w" using tm by (simp add: forest_inv_def)
  show "P v = Some p \<Longrightarrow> edge graph p v \<and> D p < D v" using tm by (simp add: forest_inv_def)
  show "edge graph u w \<Longrightarrow> D w < D u \<Longrightarrow> descends P w u"
    using assms nz unfolding spanned_def scan_inv_def by blast
  show "descends P u w \<Longrightarrow> u = w \<or> D u < D w" using descends_time tm by blast
qed

lemma related_edge: "spanned graph D P \<Longrightarrow> edge graph u w \<Longrightarrow> descends P w u \<or> descends P u w"
  using spannedD(1,2,3,5) by (metis descends_refl linorder_neqE_nat)

lemma descends_linear: "descends P x v \<Longrightarrow> descends P y v \<Longrightarrow> descends P x y \<or> descends P y x"
  unfolding descends_def
proof (induction rule: rtranclp_induct)
  case (step b c)
  from step.prems show ?case
  proof (cases rule: rtranclp.cases)
    case (rtrancl_into_rtrancl z)
    then have "z = b" using step.hyps(2) by simp
    then show ?thesis using step.IH rtrancl_into_rtrancl by blast
  qed (use step in \<open>auto intro: rtranclp.rtrancl_into_rtrancl\<close>)
qed blast

lemma descends_child: "descends P a v \<Longrightarrow> v \<noteq> a \<Longrightarrow> \<exists>c. P c = Some a \<and> descends P c v"
  unfolding descends_def by (erule converse_rtranclpE) blast+

lemma root_above: "spanned graph D P \<Longrightarrow> \<exists>r. P r = None \<and> descends P r v"
proof (induction "D v" arbitrary: v rule: less_induct)
  case less
  show ?case
  proof (cases "P v")
    case (Some p)
    then have "D p < D v" using spannedD(4) [OF less.prems] by blast
    then show ?thesis using less.hyps less.prems Some descends_parent by blast
  qed (use descends_refl in blast)
qed

lemma root_first: "descends P x r \<Longrightarrow> P r = None \<Longrightarrow> x = r"
  using descends_up by force

lemma avoids_sym: "avoids graph a u w \<Longrightarrow> spanned graph D P \<Longrightarrow> avoids graph a w u"
proof (induction rule: rtranclp_induct)
  case (step y z)
  then have "edge graph z y \<and> z \<noteq> a \<and> y \<noteq> a" using spannedD(1) by blast
  moreover have "avoids graph a y u" using step by blast
  ultimately show ?case by (rule converse_rtranclp_into_rtranclp)
qed simp

lemma tree_avoids:
  assumes "spanned graph D P"
  shows "descends P a v \<Longrightarrow> \<not> (descends P a x \<and> descends P x v) \<Longrightarrow> avoids graph x a v"
  unfolding descends_def
proof (induction rule: rtranclp_induct)
  case (step y z)
  have z: "descends P y z" by (rule descends_parent [of P y y z]) (simp_all add: step.hyps(2))
  have "descends P a y" using step.hyps(1) unfolding descends_def .
  moreover from this have "descends P a z" by (rule descends_trans [OF _ z])
  ultimately have "y \<noteq> x" "z \<noteq> x" using step.prems z by (auto simp: descends_def [symmetric])
  moreover have "edge graph y z" using spannedD(4) [OF assms] step.hyps(2) by blast
  moreover have "avoids graph x a y" using step.IH step.prems z unfolding descends_def by (meson rtranclp_trans)
  ultimately show ?case by (simp add: rtranclp.rtrancl_into_rtrancl)
qed simp

text \<open>A child is cut off when no edge of its subtree leads above its parent.\<close>

definition cut_off :: "nat list list \<Rightarrow> (nat \<Rightarrow> nat) \<Rightarrow> (nat \<Rightarrow> nat option) \<Rightarrow> nat \<Rightarrow> nat \<Rightarrow> bool" where
  "cut_off graph D P a c \<longleftrightarrow> P c = Some a \<and> (\<forall>u w. descends P c u \<longrightarrow> edge graph u w \<longrightarrow> \<not> D w < D a)"

lemma low_cut_off:
  assumes sp: "spanned graph D P" and low: "low_inv graph [] D L P" and c: "P c = Some a"
  shows "D a \<le> L c \<longleftrightarrow> cut_off graph D P a c"
proof -
  have nz: "P v = Some p \<Longrightarrow> D v \<noteq> 0" for v p using spannedD(2,4) [OF sp] by blast
  have le: "L c \<le> L u" if "descends P c u" for u
    using that unfolding descends_def
  proof (induction rule: rtranclp_induct)
    case (step y z)
    then have "closed_node [] D z" using nz by (simp add: closed_node_def)
    then have "L y \<le> L z" using low step.hyps(2) unfolding low_inv_def by blast
    then show ?case using step.IH by simp
  qed simp
  have ac: "D a < D c" using spannedD(4) [OF sp c] by simp
  have "L c < D a \<longleftrightarrow> (\<exists>u w. descends P c u \<and> edge graph u w \<and> D w < D a)"
  proof
    assume "L c < D a"
    then show "\<exists>u w. descends P c u \<and> edge graph u w \<and> D w < D a"
      using low nz [OF c] ac unfolding low_inv_def by (metis not_less_iff_gr_or_eq order.strict_trans)
  next
    assume "\<exists>u w. descends P c u \<and> edge graph u w \<and> D w < D a"
    then obtain u w where u: "descends P c u" "edge graph u w" "D w < D a" by blast
    have "P u \<noteq> Some w"
    proof
      assume p: "P u = Some w"
      have "u \<noteq> c" using p c u(3) by auto
      then have "descends P c w" using descends_up [OF u(1)] p by auto
      then show False using spannedD(6) [OF sp] u(3) ac by fastforce
    qed
    moreover have "w \<in> scanned graph [] u" using u(2) by (simp add: scanned_def edge_def)
    moreover have "D u \<noteq> 0" using spannedD(2) [OF sp u(2)] by simp
    ultimately have "L u \<le> D w" using low unfolding low_inv_def by blast
    then show "L c < D a" using le [OF u(1)] u(3) by simp
  qed
  then show ?thesis using c unfolding cut_off_def by (metis not_less)
qed

lemma cut_off_stays:
  assumes sp: "spanned graph D P" and c: "cut_off graph D P a c" and walk: "avoids graph a c z"
  shows "descends P c z"
  using walk
proof (induction rule: rtranclp_induct)
  case (step y z)
  have "descends P z c \<Longrightarrow> z = c \<or> descends P z a" using c descends_up [of P z c] by (auto simp: cut_off_def)
  moreover have "descends P z a \<Longrightarrow> D z < D a" using spannedD(6) [OF sp, of z a] step.hyps(2) by blast
  ultimately show ?case
    using related_edge [OF sp, of y z] step descends_linear [of P z y c] descends_trans [of P c y z] c
    unfolding cut_off_def by (metis descends_refl)
qed simp

lemma cut_off_separates:
  assumes sp: "spanned graph D P" and c: "cut_off graph D P a c" and w: "w \<noteq> a" "edge graph a w" "\<not> descends P c w"
  shows "separates graph a"
proof -
  have pc: "P c = Some a" using c by (simp add: cut_off_def)
  then have e: "edge graph c a" "c \<noteq> a" using spannedD(1,4) [OF sp] by fastforce+
  then have "reaches graph c w" using w(2) by (meson r_into_rtranclp rtranclp.rtrancl_into_rtrancl)
  moreover have "\<not> avoids graph a c w" using cut_off_stays [OF sp c] w(3) by blast
  ultimately show ?thesis using e(2) w(1) unfolding separates_def by blast
qed

lemma same_root:
  assumes sp: "spanned graph D P" and r: "P r = None" "descends P r u" and walk: "reaches graph u w"
  shows "descends P r w"
  using walk
proof (induction rule: rtranclp_induct)
  case (step y z)
  then show ?case
    using related_edge [OF sp, of y z] descends_linear [of P r y z] descends_trans [of P r y z] root_first [of P z r] r(1)
    by (metis descends_refl)
qed (rule r(2))

text \<open>A node whose children are all linked above it leaves its tree connected.\<close>

lemma linked_above:
  assumes sp: "spanned graph D P" and r: "P r = None" "descends P r v" and v: "v \<noteq> a" and a: "P a \<noteq> None"
    and none: "\<And>c. \<not> cut_off graph D P a c"
  shows "avoids graph a r v"
proof (cases "descends P a v")
  case True
  then obtain c where c: "P c = Some a" "descends P c v" using descends_child v by blast
  then obtain u w where u: "descends P c u" "edge graph u w" "D w < D a" using none [of c] by (auto simp: cut_off_def)
  have ac: "D a < D c" using spannedD(4) [OF sp c(1)] by simp
  have no_a: "\<not> descends P c a" using spannedD(6) [OF sp, of c a] ac by auto
  have cu: "c = u \<or> D c < D u" by (rule spannedD(6) [OF sp u(1)])
  then have "descends P w u" using spannedD(5) [OF sp u(2)] u(3) ac by auto
  have "descends P a v" by (rule True)
  have ru: "descends P r u"
  proof -
    have "descends P r a" using descends_linear [OF r(2) True] root_first [of P a r] r(1) by auto
    then have "descends P r c" using descends_parent c(1) by blast
    then show ?thesis using descends_trans u(1) by blast
  qed
  then have "descends P r w"
    using descends_linear [OF ru \<open>descends P w u\<close>] root_first [of P w r] r(1) by auto
  moreover have "\<not> descends P a w" using spannedD(6) [OF sp, of a w] u(3) by auto
  ultimately have "avoids graph a r w" using tree_avoids [OF sp] by blast
  moreover have "avoids graph a w u"
    using spannedD(1) [OF sp u(2)] u(3) cu ac by (intro r_into_rtranclp) auto
  moreover have "avoids graph a u c" using avoids_sym [OF tree_avoids [OF sp u(1)] sp] no_a by blast
  moreover have "avoids graph a c v" using tree_avoids [OF sp c(2)] no_a by blast
  ultimately show ?thesis by (meson rtranclp_trans)
qed (use tree_avoids [OF sp r(2)] in blast)

lemma flag_separates:
  assumes sp: "spanned graph D P" and low: "low_inv graph [] D L P" and flag: "flag_inv graph [] D L P C A"
    and a: "a < length graph"
  shows "A a \<longleftrightarrow> separates graph a"
proof -
  have fin: "finite {c. P c = Some a}" using sp children_finite unfolding spanned_def by blast
  have Da: "closed_node [] D a" using sp a by (simp add: spanned_def closed_node_def)
  have closed: "closed_node [] D c" if "P c = Some p" for c p
    using spannedD(2,4) [OF sp] that by (fastforce simp: closed_node_def)
  have "A a \<longleftrightarrow> P a \<noteq> None \<and> (\<exists>c. cut_off graph D P a c) \<or> P a = None \<and> card {c. P c = Some a} > 1"
  proof -
    have "(\<exists>c. closed_node [] D c \<and> P c = Some a \<and> D a \<le> L c) \<longleftrightarrow> (\<exists>c. cut_off graph D P a c)"
      using low_cut_off [OF sp low] closed unfolding cut_off_def by metis
    moreover have "C a = card {c. P c = Some a}" using flag a by (simp add: flag_inv_def)
    ultimately show ?thesis using flag a Da unfolding flag_inv_def by simp
  qed
  also have "\<dots> \<longleftrightarrow> separates graph a"
  proof (cases "P a")
    case (Some q)
    note q = spannedD(4) [OF sp Some]
    have "\<not> descends P c q" if "P c = Some a" for c
      using spannedD(6) [OF sp, of c q] spannedD(4) [OF sp that] q by auto
    then have "cut_off graph D P a c \<Longrightarrow> separates graph a" for c
      using cut_off_separates [OF sp, of a c q] q spannedD(1) [OF sp] by (fastforce simp: cut_off_def)
    moreover have "\<not> separates graph a" if none: "\<And>c. \<not> cut_off graph D P a c"
      unfolding separates_def
    proof (safe, rule ccontr)
      fix u w assume uw: "u \<noteq> a" "w \<noteq> a" "reaches graph u w" "\<not> avoids graph a u w"
      obtain r where r: "P r = None" "descends P r u" using root_above [OF sp] by blast
      then have "avoids graph a r u" "avoids graph a r w"
        using linked_above [OF sp _ _ _ _ none] same_root [OF sp _ _ uw(3)] uw(1,2) Some by auto
      then show False using uw(4) avoids_sym [OF _ sp] by (meson rtranclp_trans)
    qed
    ultimately show ?thesis using Some by auto
  next
    case None
    have least: "\<not> D w < D a" if "descends P a u" "edge graph u w" for u w
    proof -
      have "descends P a w" using same_root [OF sp None that(1)] that(2) by blast
      then show ?thesis using spannedD(6) [OF sp, of a w] by auto
    qed
    have "separates graph a" if "card {c. P c = Some a} > 1"
    proof -
      obtain c d where cd: "P c = Some a" "P d = Some a" "c \<noteq> d"
        using \<open>card {c. P c = Some a} > 1\<close> fin by (metis (mono_tags, lifting) One_nat_def card_le_Suc0_iff_eq mem_Collect_eq not_le)
      have "cut_off graph D P a c"
        unfolding cut_off_def using cd(1) least descends_trans descends_parent [of P a a c] descends_refl by blast
      moreover have "\<not> descends P c d"
        using descends_up [of P c d] cd spannedD(6) [OF sp, of c a] spannedD(4) [OF sp cd(1)] by auto
      ultimately show ?thesis using cut_off_separates [OF sp, of a c d] spannedD(4) [OF sp cd(2)] by auto
    qed
    moreover have "\<not> separates graph a" if few: "\<not> card {c. P c = Some a} > 1"
      unfolding separates_def
    proof (safe, rule ccontr)
      fix u w assume uw: "u \<noteq> a" "w \<noteq> a" "reaches graph u w" "\<not> avoids graph a u w"
      obtain r where r: "P r = None" "descends P r u" using root_above [OF sp] by blast
      note rw = same_root [OF sp r uw(3)]
      show False
      proof (cases "r = a")
        case True
        then obtain c d where c: "P c = Some a" "descends P c u" and d: "P d = Some a" "descends P d w"
          using descends_child r(2) rw uw(1,2) by metis
        have "c = d" using few c(1) d(1) fin by (simp add: card_le_Suc0_iff_eq not_less)
        moreover have "\<not> descends P c a" using spannedD(6) [OF sp, of c a] spannedD(4) [OF sp c(1)] by auto
        ultimately have "avoids graph a c u" "avoids graph a c w" using tree_avoids [OF sp] c d by blast+
        then show False using uw(4) avoids_sym [OF _ sp] by (meson rtranclp_trans)
      next
        case False
        have "\<not> descends P r a" "\<not> descends P a r" using root_first [of P r a] root_first [of P a r] None r(1) False by auto
        then have "avoids graph a r u" "avoids graph a r w" using tree_avoids [OF sp] r(2) rw by blast+
        then show False using uw(4) avoids_sym [OF _ sp] by (meson rtranclp_trans)
      qed
    qed
    ultimately show ?thesis using None by auto
  qed
  finally show ?thesis .
qed

lemma articulation_points_separate:
  assumes "undirected graph"
  shows "articulation_points graph = Some (filter (separates graph) [0..<length graph])"
proof -
  obtain st where st: "cut_roots graph [0..<length graph] (cut_start (length graph)) = Some st" "cut_inv graph [] st"
    "\<forall>v\<in>set [0..<length graph]. found_at st v \<noteq> 0"
    using cut_roots_run [OF assms cut_inv_start, of "[0..<length graph]"]
    by (metis atLeast_upt subset_refl)
  have parts: "forest_inv graph (found_at st) (parent_of st) (ct_time st)" "scan_inv graph [] (found_at st) (parent_of st)"
    "low_inv graph [] (found_at st) ((!) (ct_low st)) (parent_of st)"
    "flag_inv graph [] (found_at st) ((!) (ct_low st)) (parent_of st) ((!) (ct_child_count st)) ((!) (ct_articulation st))"
    using st(2) unfolding cut_inv_def by blast+
  have "spanned graph (found_at st) (parent_of st)"
    unfolding spanned_def using assms parts(1,2) st(3) by auto
  then have "ct_articulation st ! a \<longleftrightarrow> separates graph a" if "a < length graph" for a
    using flag_separates [OF _ parts(3,4) that] by blast
  then have "filter (\<lambda>i. ct_articulation st ! i) [0..<length graph] = filter (separates graph) [0..<length graph]"
    by (intro filter_cong) auto
  then show ?thesis unfolding articulation_points_def st(1) by simp
qed

end
