(* ===== verification/Graph_Analysis.thy ===== *)
theory Graph_Analysis
  imports Graph_Cuts Secret_Policy
begin

text \<open>
  The trusted analysis of a structural graph snapshot, \<open>analyze_trusted_algorithms\<close> of
  \<open>structural_graph/analysis.rs\<close>: the edges it trusts, the components and cycles, the node
  metrics, what an entrypoint reaches, the bounded execution flows and the gaps it reports. An \<open>f64\<close> is
  its bit pattern, its arithmetic the parameter \<open>f64_ops\<close>; only \<open>total_cmp\<close> is defined, on the bits.
\<close>

section \<open>The analysis of a snapshot\<close>

definition STRUCTURAL_GRAPH_ANALYSIS_VERSION :: string where
  "STRUCTURAL_GRAPH_ANALYSIS_VERSION = ''2''"

definition MAX_RANKED_METRICS :: nat where "MAX_RANKED_METRICS = 500"

definition MAX_COMPONENTS :: nat where "MAX_COMPONENTS = 500"

definition MAX_EXECUTION_FLOWS :: nat where "MAX_EXECUTION_FLOWS = 100"

definition MAX_EXECUTION_FLOW_DEPTH :: nat where "MAX_EXECUTION_FLOW_DEPTH = 8"

record StructuralGraphAnalysisPolicy =
  ap_algorithm_version :: string
  ap_included_edge_kinds :: "string list"
  ap_execution_edge_kinds :: "string list"
  ap_included_trust :: "GraphTrust list"
  ap_direction :: string
  ap_max_ranked_metrics :: nat
  ap_max_components :: nat
  ap_max_execution_flows :: nat
  ap_max_execution_flow_depth :: nat

datatype analysis_gap =
  SnapshotTruncated
| FilesNotIndexed nat
| SkippedFiles nat
| ErrorFiles nat
| UnsupportedLanguageFiles nat
| UnresolvedEndpoints nat
| UntrustedEdgesExcluded nat
| DynamicReferences nat
| NoQualifiedEntrypoints
| AnalysisOutputLimited

text \<open>The text of a gap, by which the code sorts them.\<close>

fun gap_text :: "analysis_gap \<Rightarrow> string" where
  "gap_text SnapshotTruncated = ''snapshot_truncated''"
| "gap_text (FilesNotIndexed n) = ''files_not_indexed:'' @ decimal n"
| "gap_text (SkippedFiles n) = ''skipped_files:'' @ decimal n"
| "gap_text (ErrorFiles n) = ''error_files:'' @ decimal n"
| "gap_text (UnsupportedLanguageFiles n) = ''unsupported_language_files:'' @ decimal n"
| "gap_text (UnresolvedEndpoints n) = ''unresolved_endpoints:'' @ decimal n"
| "gap_text (UntrustedEdgesExcluded n) = ''untrusted_edges_excluded:'' @ decimal n"
| "gap_text (DynamicReferences n) = ''dynamic_references:'' @ decimal n"
| "gap_text NoQualifiedEntrypoints = ''no_qualified_entrypoints''"
| "gap_text AnalysisOutputLimited = ''analysis_output_limited''"

record StructuralGraphAnalysisCoverage =
  ac_complete :: bool
  ac_reachability_complete :: bool
  ac_trusted_edge_count :: nat
  ac_excluded_edge_count :: nat
  ac_unresolved_endpoint_count :: nat
  ac_gaps :: "string list"
  ac_output_truncated :: bool

record StructuralGraphNodeMetric =
  nm_node_id :: string
  nm_in_degree :: nat
  nm_out_degree :: nat
  nm_total_degree :: nat
  nm_degree_centrality :: f64
  nm_pagerank :: f64

record StructuralGraphComponent =
  gc_id :: string
  gc_node_ids :: "string list"
  gc_edge_ids :: "string list"
  gc_cyclic :: bool

record StructuralGraphExecutionFlow =
  ef_entrypoint_node_id :: string
  ef_node_ids :: "string list"
  ef_edge_ids :: "string list"
  ef_terminal_reason :: string

record StructuralGraphAlgorithmResults =
  ar_node_metrics :: "StructuralGraphNodeMetric list"
  ar_strongly_connected_components :: "StructuralGraphComponent list"
  ar_cycles :: "StructuralGraphComponent list"
  ar_articulation_node_ids :: "string list"
  ar_entrypoint_node_ids :: "string list"
  ar_reachable_node_ids :: "string list"
  ar_unreachable_node_ids :: "string list"
  ar_execution_flows :: "StructuralGraphExecutionFlow list"

definition default_analysis_policy :: StructuralGraphAnalysisPolicy where
  "default_analysis_policy = \<lparr>ap_algorithm_version = STRUCTURAL_GRAPH_ANALYSIS_VERSION,
     ap_included_edge_kinds = [], ap_execution_edge_kinds = [],
     ap_included_trust = [Trust_Extracted, Trust_Inferred], ap_direction = ''from_to'',
     ap_max_ranked_metrics = MAX_RANKED_METRICS, ap_max_components = MAX_COMPONENTS,
     ap_max_execution_flows = MAX_EXECUTION_FLOWS,
     ap_max_execution_flow_depth = MAX_EXECUTION_FLOW_DEPTH\<rparr>"

definition is_algorithm_trusted :: "GraphTrust \<Rightarrow> bool" where
  "is_algorithm_trusted trust \<longleftrightarrow> trust = Trust_Extracted \<or> trust = Trust_Inferred"

definition is_execution_edge_kind :: "string \<Rightarrow> bool" where
  "is_execution_edge_kind kind \<longleftrightarrow> kind \<in> set
     [''calls'', ''invokes'', ''invokes_command'', ''routes_to'', ''handles'', ''dispatches'', ''emits'',
      ''subscribes'', ''schedules'', ''executes'', ''queries'', ''reads'', ''reads_from'', ''writes'',
      ''writes_to'', ''implemented_by'', ''binds_to'', ''depends_on'', ''test_covers'']"

definition is_entrypoint :: "StructuralGraphNode \<Rightarrow> bool" where
  "is_entrypoint node \<longleftrightarrow>
     sn_kind node \<in> set [''entrypoint'', ''route'', ''command'', ''tauri_command'', ''job'', ''event'',
       ''event_subscription'', ''test'', ''resolver'', ''openapi_operation'', ''graphql_operation'',
       ''protobuf_rpc''] \<or>
     sn_label node \<in> {''main'', ''__main__''} \<or>
     (case sn_path node of
        None \<Rightarrow> False
      | Some path \<Rightarrow>
          (let normalized = normal_path path; file_name = last_segment normalized
           in sn_kind node = ''file'' \<and>
              (file_name \<in> {''main.rs'', ''main.go'', ''main.py'', ''__main__.py'', ''program.cs''} \<or>
               contains_str normalized ''/bin/'')))"

subsection \<open>Trusted edges and adjacency\<close>

definition node_index :: "StructuralGraphNode list \<Rightarrow> string \<Rightarrow> nat option" where
  "node_index ordered = map_of (rev (zip (map sn_id ordered) [0..<length ordered]))"

record trusted_edges =
  te_edges :: "(nat \<times> nat \<times> StructuralGraphEdge) list"
  te_excluded :: nat
  te_unresolved :: nat

definition trust_edge ::
  "(string \<Rightarrow> nat option) \<Rightarrow> trusted_edges \<Rightarrow> StructuralGraphEdge \<Rightarrow> trusted_edges" where
  "trust_edge index st e =
     (if \<not> is_algorithm_trusted (se_trust e) then st\<lparr>te_excluded := te_excluded st + 1\<rparr>
      else case (index (se_from e), index (se_to e)) of
             (Some f, Some t) \<Rightarrow> st\<lparr>te_edges := te_edges st @ [(f, t, e)]\<rparr>
           | _ \<Rightarrow> st\<lparr>te_unresolved := te_unresolved st + 1\<rparr>)"

definition trust_edges :: "StructuralGraphNode list \<Rightarrow> StructuralGraphEdge list \<Rightarrow> trusted_edges" where
  "trust_edges ordered edges =
     (let st = foldl (trust_edge (node_index ordered)) \<lparr>te_edges = [], te_excluded = 0, te_unresolved = 0\<rparr> edges
      in st\<lparr>te_edges := sort_key (\<lambda>(_, _, e). se_id e) (te_edges st)\<rparr>)"

definition sort_dedup :: "nat list \<Rightarrow> nat list" where
  "sort_dedup xs = remdups_adj (sort xs)"

definition adjacency_vec :: "nat \<Rightarrow> (nat \<times> nat) list \<Rightarrow> nat list list" where
  "adjacency_vec n pairs =
     map (\<lambda>i. sort_dedup (map snd (filter (\<lambda>(f, t). f = i) pairs))) [0..<n]"

definition outgoing_vec :: "nat \<Rightarrow> (nat \<times> nat \<times> StructuralGraphEdge) list \<Rightarrow> nat list list" where
  "outgoing_vec n edges = adjacency_vec n (map (\<lambda>(f, t, e). (f, t)) edges)"

definition incoming_vec :: "nat \<Rightarrow> (nat \<times> nat \<times> StructuralGraphEdge) list \<Rightarrow> nat list list" where
  "incoming_vec n edges = adjacency_vec n (map (\<lambda>(f, t, e). (t, f)) edges)"

definition undirected_vec :: "nat \<Rightarrow> (nat \<times> nat \<times> StructuralGraphEdge) list \<Rightarrow> nat list list" where
  "undirected_vec n edges = adjacency_vec n (concat (map (\<lambda>(f, t, e). [(f, t), (t, f)]) edges))"

definition execution_vec ::
  "StructuralGraphNode list \<Rightarrow> (nat \<times> nat \<times> StructuralGraphEdge) list \<Rightarrow> (nat \<times> string) list list" where
  "execution_vec ordered edges =
     map (\<lambda>i. sort_key (\<lambda>(t, edge_id). (sn_id (ordered ! t), edge_id))
           (map (\<lambda>(f, t, e). (t, se_id e))
             (filter (\<lambda>(f, t, e). f = i \<and> is_execution_edge_kind (se_kind e)) edges)))
       [0..<length ordered]"

subsection \<open>Node metrics\<close>

text \<open>The arithmetic of \<open>f64\<close> that the ranks use; \<open>fo_sum\<close> is the sum of an iterator.\<close>

record f64_ops =
  fo_add :: "f64 \<Rightarrow> f64 \<Rightarrow> f64"
  fo_sub :: "f64 \<Rightarrow> f64 \<Rightarrow> f64"
  fo_mul :: "f64 \<Rightarrow> f64 \<Rightarrow> f64"
  fo_div :: "f64 \<Rightarrow> f64 \<Rightarrow> f64"
  fo_abs :: "f64 \<Rightarrow> f64"
  fo_less :: "f64 \<Rightarrow> f64 \<Rightarrow> bool"
  fo_sum :: "f64 list \<Rightarrow> f64"
  fo_of_usize :: "nat \<Rightarrow> f64"

text \<open>The literals 1.0, 0.85 and 1e-10 as bit patterns.\<close>

definition F64_ONE :: f64 where "F64_ONE = 0x3FF0000000000000"

definition PAGERANK_DAMPING :: f64 where "PAGERANK_DAMPING = 0x3FEB333333333333"

definition PAGERANK_DELTA :: f64 where "PAGERANK_DELTA = 0x3DDB7CDFD9D7BDBB"

definition PAGERANK_ITERATIONS :: nat where "PAGERANK_ITERATIONS = 40"

definition pagerank_step :: "f64_ops \<Rightarrow> nat list list \<Rightarrow> nat list list \<Rightarrow> f64 list \<Rightarrow> f64 list" where
  "pagerank_step ops outgoing incoming ranks =
     (let count = fo_of_usize ops (length outgoing);
          base = fo_div ops (fo_sub ops F64_ONE PAGERANK_DAMPING) count;
          dangling = fo_div ops (fo_sum ops (map (\<lambda>i. ranks ! i)
            (filter (\<lambda>i. outgoing ! i = []) [0..<length outgoing]))) count;
          start = fo_add ops base (fo_mul ops PAGERANK_DAMPING dangling)
      in map (\<lambda>target.
           if target < length incoming
           then fo_add ops start (fo_mul ops PAGERANK_DAMPING (fo_sum ops (map (\<lambda>source.
                  fo_div ops (ranks ! source) (fo_of_usize ops (length (outgoing ! source)))) (incoming ! target))))
           else start) [0..<length outgoing])"

fun pagerank_loop :: "nat \<Rightarrow> f64_ops \<Rightarrow> nat list list \<Rightarrow> nat list list \<Rightarrow> f64 list \<Rightarrow> f64 list" where
  "pagerank_loop 0 ops outgoing incoming ranks = ranks"
| "pagerank_loop (Suc n) ops outgoing incoming ranks =
     (let after = pagerank_step ops outgoing incoming ranks;
          delta = fo_sum ops (map2 (\<lambda>before after. fo_abs ops (fo_sub ops before after)) ranks after)
      in if fo_less ops delta PAGERANK_DELTA then after else pagerank_loop n ops outgoing incoming after)"

text \<open>An index outside of the ranks is a panic in the first round.\<close>

definition calculate_pagerank :: "f64_ops \<Rightarrow> nat list list \<Rightarrow> nat list list \<Rightarrow> f64 list option" where
  "calculate_pagerank ops outgoing incoming =
     (let count = length outgoing
      in if count = 0 then Some []
         else if length incoming > count \<or> (\<exists>sources\<in>set incoming. \<exists>source\<in>set sources. source \<ge> count) then None
         else Some (pagerank_loop PAGERANK_ITERATIONS ops outgoing incoming
                (replicate count (fo_div ops F64_ONE (fo_of_usize ops count)))))"

text \<open>The order of \<open>f64::total_cmp\<close>: bit patterns as signed numbers, the negative ones reversed.\<close>

definition total_order_key :: "f64 \<Rightarrow> int" where
  "total_order_key x = (if sint x < 0 then sint (x XOR 0x7FFFFFFFFFFFFFFF) else sint x)"

definition node_metric ::
  "f64_ops \<Rightarrow> nat list list \<Rightarrow> nat list list \<Rightarrow> f64 list \<Rightarrow> nat \<Rightarrow> nat \<Rightarrow> StructuralGraphNode \<Rightarrow> StructuralGraphNodeMetric" where
  "node_metric ops outgoing incoming pagerank node_count index node =
     (let in_degree = length (incoming ! index); out_degree = length (outgoing ! index)
      in \<lparr>nm_node_id = sn_id node, nm_in_degree = in_degree, nm_out_degree = out_degree,
          nm_total_degree = in_degree + out_degree,
          nm_degree_centrality = fo_div ops (fo_of_usize ops (in_degree + out_degree))
            (fo_of_usize ops (max 1 ((node_count - 1) * 2))),
          nm_pagerank = (if index < length pagerank then pagerank ! index else 0)\<rparr>)"

definition node_metrics ::
  "f64_ops \<Rightarrow> StructuralGraphNode list \<Rightarrow> nat list list \<Rightarrow> nat list list \<Rightarrow> f64 list \<Rightarrow> StructuralGraphNodeMetric list" where
  "node_metrics ops ordered outgoing incoming pagerank =
     sort_key (\<lambda>metric. (- total_order_key (nm_pagerank metric), - int (nm_total_degree metric), nm_node_id metric))
       (map (\<lambda>(index, node). node_metric ops outgoing incoming pagerank (length ordered) index node)
         (enumerate 0 ordered))"

subsection \<open>Components\<close>

definition build_component ::
  "nat list \<Rightarrow> StructuralGraphNode list \<Rightarrow> string list \<Rightarrow> StructuralGraphComponent" where
  "build_component component nodes edge_ids =
     (let node_ids = map (\<lambda>i. sn_id (nodes ! i)) component
      in \<lparr>gc_id = stable_graph_id ''scc'' (join_str [CHR 0x1F] node_ids), gc_node_ids = node_ids,
          gc_edge_ids = edge_ids, gc_cyclic = (length node_ids > 1 \<or> edge_ids \<noteq> [])\<rparr>)"

definition component_by_node :: "nat \<Rightarrow> nat list list \<Rightarrow> nat list" where
  "component_by_node n components =
     foldl (\<lambda>by_node (i, component). foldl (\<lambda>by_node v. by_node[v := i]) by_node component)
       (replicate n 0) (enumerate 0 components)"

definition component_edge_ids ::
  "nat list \<Rightarrow> (nat \<times> nat \<times> StructuralGraphEdge) list \<Rightarrow> nat \<Rightarrow> string list" where
  "component_edge_ids by_node edges i =
     sort (map (\<lambda>(f, t, e). se_id e)
       (filter (\<lambda>(f, t, e). by_node ! f = i \<and> by_node ! f = by_node ! t) edges))"

definition first_id :: "StructuralGraphComponent \<Rightarrow> string" where
  "first_id c = (case gc_node_ids c of [] \<Rightarrow> [] | i # _ \<Rightarrow> i)"

definition build_components ::
  "StructuralGraphNode list \<Rightarrow> (nat \<times> nat \<times> StructuralGraphEdge) list \<Rightarrow> nat list list
     \<Rightarrow> StructuralGraphComponent list" where
  "build_components ordered edges components =
     (let by_node = component_by_node (length ordered) components
      in sort_key first_id
           (map (\<lambda>(i, c). build_component c ordered (component_edge_ids by_node edges i))
             (enumerate 0 components)))"

subsection \<open>Reachability\<close>

function reach_loop :: "(nat \<times> string) list list \<Rightarrow> nat list \<Rightarrow> bool list \<Rightarrow> bool list option" where
  "reach_loop execution pending reachable =
     (case pending of
        [] \<Rightarrow> Some reachable
      | index # rest \<Rightarrow>
          if index \<ge> length reachable \<or> index \<ge> length execution then None
          else if reachable ! index then reach_loop execution rest reachable
          else reach_loop execution (rev (map fst (execution ! index)) @ rest) (reachable[index := True]))"
  by pat_completeness auto
termination
  by (relation "measures [\<lambda>(execution, pending, reachable). unseen reachable,
      \<lambda>(execution, pending, reachable). length pending]") (auto intro: unseen_update)

declare reach_loop.simps [simp del]

subsection \<open>Execution flows\<close>

type_synonym flow_path = "nat list \<times> string list"

definition flow_next :: "(nat \<times> string) list list \<Rightarrow> nat list \<Rightarrow> (nat \<times> string) list" where
  "flow_next execution node_path =
     filter (\<lambda>(target, _). target \<notin> set node_path) (execution ! last node_path)"

definition flow_extend :: "flow_path \<Rightarrow> nat \<times> string \<Rightarrow> flow_path" where
  "flow_extend = (\<lambda>(node_path, edge_path) (target, edge_id). (node_path @ [target], edge_path @ [edge_id]))"

definition render_flow ::
  "StructuralGraphNode list \<Rightarrow> (nat \<times> string) list list \<Rightarrow> nat \<Rightarrow> flow_path \<Rightarrow> StructuralGraphExecutionFlow" where
  "render_flow nodes execution entrypoint = (\<lambda>(node_path, edge_path).
     \<lparr>ef_entrypoint_node_id = sn_id (nodes ! entrypoint),
      ef_node_ids = map (\<lambda>i. sn_id (nodes ! i)) node_path, ef_edge_ids = edge_path,
      ef_terminal_reason =
        (if length edge_path \<ge> MAX_EXECUTION_FLOW_DEPTH then ''depth_limit''
         else if execution ! last node_path = [] then ''terminal'' else ''cycle_avoided'')\<rparr>)"

definition flow_weight :: "(nat \<times> string) list list \<Rightarrow> flow_path \<Rightarrow> nat" where
  "flow_weight execution =
     (\<lambda>(_, edge_path). Suc (sum_list (map length execution)) ^ (9 - length edge_path))"

lemma flow_weight_children:
  assumes "length edge_path < 8" "node_path \<noteq> []" "last node_path < length execution"
  shows "sum_list (map (flow_weight execution \<circ> flow_extend (node_path, edge_path)) (flow_next execution node_path))
    < flow_weight execution (node_path, edge_path)"
proof -
  let ?K = "Suc (sum_list (map length execution))"
  have "length (execution ! last node_path) \<in> set (map length execution)" using assms(3) by simp
  then have "length (execution ! last node_path) \<le> sum_list (map length execution)"
    using member_le_sum_list by blast
  then have few: "length (flow_next execution node_path) < ?K"
    unfolding flow_next_def using length_filter_le le_trans less_Suc_eq_le by blast
  have "flow_weight execution (flow_extend (node_path, edge_path) x) = ?K ^ (8 - length edge_path)" for x
    by (simp add: flow_weight_def flow_extend_def split: prod.splits)
  then have "sum_list (map (flow_weight execution \<circ> flow_extend (node_path, edge_path)) (flow_next execution node_path))
      = length (flow_next execution node_path) * ?K ^ (8 - length edge_path)"
    by (simp add: comp_def sum_list_triv)
  also have "\<dots> < ?K * ?K ^ (8 - length edge_path)" by (rule mult_strict_right_mono [OF few]) simp
  also have "\<dots> = ?K ^ (9 - length edge_path)"
    using assms(1) by (metis Suc_diff_le less_imp_le_nat power_Suc eval_nat_numeral(3))
  finally show ?thesis by (simp add: flow_weight_def)
qed

function flow_loop ::
  "StructuralGraphNode list \<Rightarrow> (nat \<times> string) list list \<Rightarrow> nat \<Rightarrow> flow_path list
     \<Rightarrow> StructuralGraphExecutionFlow list \<Rightarrow> (StructuralGraphExecutionFlow list \<times> bool) option" where
  "flow_loop nodes execution entrypoint pending flows =
     (case pending of
        [] \<Rightarrow> Some (flows, False)
      | path # rest \<Rightarrow>
          if length flows \<ge> MAX_EXECUTION_FLOWS then Some (flows, True)
          else if fst path = [] \<or> last (fst path) \<ge> length execution then None
          else if length (snd path) \<ge> MAX_EXECUTION_FLOW_DEPTH \<or> flow_next execution (fst path) = []
            then flow_loop nodes execution entrypoint rest (flows @ [render_flow nodes execution entrypoint path])
          else flow_loop nodes execution entrypoint
                 (map (flow_extend path) (flow_next execution (fst path)) @ rest) flows)"
  by pat_completeness auto
termination
proof (relation "measure (\<lambda>(nodes, execution, entrypoint, pending, flows).
    sum_list (map (flow_weight execution) pending))", goal_cases)
  case 1
  then show ?case by simp
next
  case (2 nodes execution entrypoint pending flows path rest)
  then show ?case by (cases path) (simp add: flow_weight_def)
next
  case (3 nodes execution entrypoint pending flows path rest)
  then show ?case
    using flow_weight_children [of "snd path" "fst path" execution]
    by (simp add: MAX_EXECUTION_FLOW_DEPTH_def not_le)
qed

declare flow_loop.simps [simp del]

fun flows_of ::
  "StructuralGraphNode list \<Rightarrow> (nat \<times> string) list list \<Rightarrow> nat list
     \<Rightarrow> StructuralGraphExecutionFlow list \<Rightarrow> (StructuralGraphExecutionFlow list \<times> bool) option" where
  "flows_of nodes execution [] flows = Some (flows, False)"
| "flows_of nodes execution (entrypoint # entrypoints) flows =
     (case flow_loop nodes execution entrypoint [([entrypoint], [])] flows of
        None \<Rightarrow> None
      | Some (flows, truncated) \<Rightarrow>
          if truncated then Some (flows, True) else flows_of nodes execution entrypoints flows)"

definition bounded_execution_flows ::
  "StructuralGraphNode list \<Rightarrow> (nat \<times> string) list list \<Rightarrow> nat list
     \<Rightarrow> (StructuralGraphExecutionFlow list \<times> bool) option" where
  "bounded_execution_flows nodes execution entrypoints = flows_of nodes execution entrypoints []"

section \<open>Reachability and flows are exact\<close>

definition targets :: "(nat \<times> string) list list \<Rightarrow> nat list list" where
  "targets execution = map (map fst) execution"

lemma edge_targets: "edge (targets execution) u v \<longleftrightarrow> u < length execution \<and> (\<exists>e. (v, e) \<in> set (execution ! u))"
  by (force simp: edge_def targets_def)

lemma edge_target_bound:
  assumes "well_formed (targets execution)" "edge (targets execution) u v"
  shows "v < length execution"
proof -
  have "length (targets execution) = length execution" by (simp add: targets_def)
  then show ?thesis using assms unfolding well_formed_def edge_def by metis
qed

definition reach_inv :: "(nat \<times> string) list list \<Rightarrow> nat set \<Rightarrow> nat list \<Rightarrow> bool list \<Rightarrow> bool" where
  "reach_inv execution starts pending reachable \<longleftrightarrow>
     length reachable = length execution \<and> set pending \<subseteq> {..<length execution} \<and>
     (\<forall>v<length execution. reachable ! v \<or> v \<in> set pending \<longrightarrow> (\<exists>s\<in>starts. reaches (targets execution) s v)) \<and>
     (\<forall>s\<in>starts. s < length execution \<and> (reachable ! s \<or> s \<in> set pending)) \<and>
     (\<forall>u v. edge (targets execution) u v \<longrightarrow> reachable ! u \<longrightarrow> reachable ! v \<or> v \<in> set pending)"

lemma reach_loop_run:
  assumes "reach_inv execution starts pending reachable" "well_formed (targets execution)"
  shows "\<exists>r. reach_loop execution pending reachable = Some r \<and> reach_inv execution starts [] r"
  using assms
proof (induction execution pending reachable rule: reach_loop.induct)
  case (1 execution pending reachable)
  note inv = 1(3)
  show ?case
  proof (cases pending)
    case Nil
    then have "reach_loop execution pending reachable = Some reachable" by (simp add: reach_loop.simps)
    then show ?thesis using inv Nil by simp
  next
    case (Cons i rest)
    have i: "i < length execution" "length reachable = length execution"
      "\<not> (i \<ge> length reachable \<or> i \<ge> length execution)"
      using inv Cons by (auto simp: reach_inv_def)
    show ?thesis
    proof (cases "reachable ! i")
      case True
      have step: "reach_loop execution pending reachable = reach_loop execution rest reachable"
        using Cons i True by (subst reach_loop.simps) simp
      have "reach_inv execution starts rest reachable" using inv Cons True by (auto simp: reach_inv_def)
      then show ?thesis unfolding step using 1(1) [OF Cons i(3) True _ 1(4)] by blast
    next
      case False
      let ?p = "rev (map fst (execution ! i)) @ rest"
      let ?r = "reachable[i := True]"
      have step: "reach_loop execution pending reachable = reach_loop execution ?p ?r"
        using Cons i False by (subst reach_loop.simps) simp
      have flag: "?r ! v \<longleftrightarrow> reachable ! v \<or> v = i" if "v < length execution" for v
        using that i by (auto simp: nth_list_update)
      have out: "v < length execution \<and> edge (targets execution) i v" if "v \<in> fst ` set (execution ! i)" for v
      proof -
        have e: "edge (targets execution) i v" using that i(1) by (auto simp: edge_targets)
        then show ?thesis using edge_target_bound [OF 1(4)] by blast
      qed
      have "reach_inv execution starts ?p ?r"
        unfolding reach_inv_def
      proof (intro conjI allI impI ballI)
        show "length ?r = length execution" using i by simp
        show "set ?p \<subseteq> {..<length execution}" using out inv Cons by (auto simp: reach_inv_def)
        fix v assume v: "v < length execution" "?r ! v \<or> v \<in> set ?p"
        have "\<exists>s\<in>starts. reaches (targets execution) s i" using inv Cons i(1) by (auto simp: reach_inv_def)
        then have "\<exists>s\<in>starts. reaches (targets execution) s v" if "v \<in> fst ` set (execution ! i)"
          using out [OF that] by (meson rtranclp.rtrancl_into_rtrancl)
        then show "\<exists>s\<in>starts. reaches (targets execution) s v"
          using v inv Cons flag [OF v(1)] by (auto simp: reach_inv_def)
      next
        fix s assume "s \<in> starts"
        then show "s < length execution" "?r ! s \<or> s \<in> set ?p"
          using inv Cons flag [of s] by (auto simp: reach_inv_def)
      next
        fix u v assume e: "edge (targets execution) u v" "?r ! u"
        have u: "u < length execution" using e(1) by (simp add: edge_targets)
        have v: "v < length execution" by (rule edge_target_bound [OF 1(4) e(1)])
        show "?r ! v \<or> v \<in> set ?p"
        proof (cases "u = i")
          case True
          then show ?thesis using e(1) by (force simp: edge_targets)
        next
          case False
          then have "reachable ! v \<or> v \<in> set pending" using e flag [OF u] inv by (auto simp: reach_inv_def)
          then show ?thesis using flag [OF v] Cons by auto
        qed
      qed
      then show ?thesis unfolding step using 1(2) [OF Cons i(3) False _ 1(4)] by blast
    qed
  qed
qed

lemma reach_loop_exact:
  assumes "well_formed (targets execution)" "set entries \<subseteq> {..<length execution}"
  shows "\<exists>r. reach_loop execution (rev entries) (replicate (length execution) False) = Some r \<and>
    length r = length execution \<and>
    (\<forall>v<length execution. r ! v \<longleftrightarrow> (\<exists>s\<in>set entries. reaches (targets execution) s v))"
proof -
  have "reach_inv execution (set entries) (rev entries) (replicate (length execution) False)"
    using assms by (auto simp: reach_inv_def edge_targets)
  then obtain r where r: "reach_loop execution (rev entries) (replicate (length execution) False) = Some r"
    "reach_inv execution (set entries) [] r"
    using reach_loop_run assms(1) by blast
  have "r ! v" if "reaches (targets execution) s v" "s \<in> set entries" for s v
    using that(1)
  proof (induction rule: rtranclp_induct)
    case base
    then show ?case using r(2) that(2) by (auto simp: reach_inv_def)
  next
    case (step y z)
    then show ?case using r(2) by (auto simp: reach_inv_def)
  qed
  then show ?thesis using r unfolding reach_inv_def by auto
qed

text \<open>The flows in the order of the search, as the leaves of a tree of paths.\<close>

fun leaf_flows :: "(nat \<times> string) list list \<Rightarrow> nat \<Rightarrow> flow_path \<Rightarrow> flow_path list" where
  "leaf_flows execution 0 path = [path]"
| "leaf_flows execution (Suc d) path =
     (if flow_next execution (fst path) = [] then [path]
      else concat (map (\<lambda>x. leaf_flows execution d (flow_extend path x)) (flow_next execution (fst path))))"

definition depth_left :: "flow_path \<Rightarrow> nat" where
  "depth_left path = MAX_EXECUTION_FLOW_DEPTH - length (snd path)"

lemma leaf_flows_nonempty: "leaf_flows execution d path \<noteq> []"
proof (induction d arbitrary: path)
  case (Suc d)
  show ?case
  proof (cases "flow_next execution (fst path)")
    case (Cons x xs)
    then show ?thesis using Suc [of "flow_extend path x"] by simp
  qed simp
qed simp

definition good_path :: "(nat \<times> string) list list \<Rightarrow> flow_path \<Rightarrow> bool" where
  "good_path execution path \<longleftrightarrow> fst path \<noteq> [] \<and> last (fst path) < length execution"

lemma good_path_extend:
  assumes "well_formed (targets execution)" "good_path execution path" "x \<in> set (flow_next execution (fst path))"
  shows "good_path execution (flow_extend path x)"
proof -
  obtain t e where x: "x = (t, e)" by (cases x)
  then have "edge (targets execution) (last (fst path)) t"
    using assms(2,3) by (auto simp: edge_targets flow_next_def good_path_def)
  then have "t < length execution" by (rule edge_target_bound [OF assms(1)])
  then show ?thesis using x by (cases path) (simp add: good_path_def flow_extend_def)
qed

definition all_leaves :: "(nat \<times> string) list list \<Rightarrow> flow_path list \<Rightarrow> flow_path list" where
  "all_leaves execution pending = concat (map (\<lambda>p. leaf_flows execution (depth_left p) p) pending)"

lemma all_leaves_step:
  assumes "\<not> (length (snd path) \<ge> MAX_EXECUTION_FLOW_DEPTH \<or> flow_next execution (fst path) = [])"
  shows "all_leaves execution (map (flow_extend path) (flow_next execution (fst path)) @ rest) =
    all_leaves execution (path # rest)"
proof -
  obtain d where d: "depth_left path = Suc d"
    using assms by (cases "depth_left path") (auto simp: depth_left_def)
  have "depth_left (flow_extend path x) = d" for x
    using d by (cases path; cases x) (simp add: depth_left_def flow_extend_def)
  then show ?thesis using assms d by (simp add: all_leaves_def comp_def)
qed

lemma all_leaves_leaf:
  assumes "length (snd path) \<ge> MAX_EXECUTION_FLOW_DEPTH \<or> flow_next execution (fst path) = []"
  shows "all_leaves execution (path # rest) = path # all_leaves execution rest"
  using assms by (cases "depth_left path") (auto simp: all_leaves_def depth_left_def)

lemma flow_loop_run:
  assumes "well_formed (targets execution)" "list_all (good_path execution) pending"
    "length flows \<le> MAX_EXECUTION_FLOWS"
  shows "flow_loop nodes execution entrypoint pending flows =
    (let found = flows @ map (render_flow nodes execution entrypoint) (all_leaves execution pending)
     in Some (take MAX_EXECUTION_FLOWS found, length found > MAX_EXECUTION_FLOWS))"
  using assms
proof (induction nodes execution entrypoint pending flows rule: flow_loop.induct)
  case (1 nodes execution entrypoint pending flows)
  show ?case
  proof (cases pending)
    case Nil
    then show ?thesis using 1(5) by (simp add: flow_loop.simps all_leaves_def)
  next
    case (Cons path rest)
    have good: "\<not> (fst path = [] \<or> last (fst path) \<ge> length execution)"
      using 1(4) Cons by (auto simp: good_path_def)
    show ?thesis
    proof (cases "length flows \<ge> MAX_EXECUTION_FLOWS")
      case True
      then have "flow_loop nodes execution entrypoint pending flows = Some (flows, True)"
        using Cons by (simp add: flow_loop.simps)
      moreover obtain y ys where "all_leaves execution pending = y # ys"
        using leaf_flows_nonempty [of execution "depth_left path" path] Cons
        by (cases "all_leaves execution pending") (simp_all add: all_leaves_def)
      moreover have "length flows = MAX_EXECUTION_FLOWS" using True 1(5) by simp
      ultimately show ?thesis by (simp add: Let_def)
    next
      case few: False
      show ?thesis
      proof (cases "length (snd path) \<ge> MAX_EXECUTION_FLOW_DEPTH \<or> flow_next execution (fst path) = []")
        case True
        let ?flows = "flows @ [render_flow nodes execution entrypoint path]"
        have step: "flow_loop nodes execution entrypoint pending flows = flow_loop nodes execution entrypoint rest ?flows"
          using Cons few good True by (subst flow_loop.simps) simp
        have "list_all (good_path execution) rest" "length ?flows \<le> MAX_EXECUTION_FLOWS" using 1(4) Cons few by simp_all
        note run = 1(1) [OF Cons few good True 1(3) this]
        have leaves: "all_leaves execution pending = path # all_leaves execution rest"
          unfolding Cons by (rule all_leaves_leaf [OF True])
        show ?thesis unfolding step leaves using run by (simp add: Let_def)
      next
        case False
        let ?pending = "map (flow_extend path) (flow_next execution (fst path)) @ rest"
        have step: "flow_loop nodes execution entrypoint pending flows = flow_loop nodes execution entrypoint ?pending flows"
          using Cons few good False by (subst flow_loop.simps) simp
        have "good_path execution (flow_extend path x)" if "x \<in> set (flow_next execution (fst path))" for x
          by (rule good_path_extend [OF 1(3) _ that]) (use 1(4) Cons in simp)
        then have "list_all (good_path execution) ?pending"
          using 1(4) Cons by (simp add: list_all_iff ball_Un)
        note run = 1(2) [OF Cons few good False 1(3) this 1(5)]
        have leaves: "all_leaves execution pending = all_leaves execution ?pending"
          unfolding Cons by (rule all_leaves_step [OF False, symmetric])
        show ?thesis unfolding step leaves by (rule run)
      qed
    qed
  qed
qed

lemma flows_of_run:
  assumes "well_formed (targets execution)" "set entries \<subseteq> {..<length execution}" "length flows \<le> MAX_EXECUTION_FLOWS"
  shows "flows_of nodes execution entries flows =
    (let found = flows @ concat (map (\<lambda>s. map (render_flow nodes execution s)
           (leaf_flows execution MAX_EXECUTION_FLOW_DEPTH ([s], []))) entries)
     in Some (take MAX_EXECUTION_FLOWS found, length found > MAX_EXECUTION_FLOWS))"
  using assms(2,3)
proof (induction entries arbitrary: flows)
  case Nil
  then show ?case by simp
next
  case (Cons s entries)
  let ?found = "map (render_flow nodes execution s) (leaf_flows execution MAX_EXECUTION_FLOW_DEPTH ([s], []))"
  have loop: "flow_loop nodes execution s [([s], [])] flows =
      Some (take MAX_EXECUTION_FLOWS (flows @ ?found), length (flows @ ?found) > MAX_EXECUTION_FLOWS)"
    using flow_loop_run [OF assms(1) _ Cons.prems(2), of "[([s], [])]" nodes s] Cons.prems(1)
    by (simp add: good_path_def all_leaves_def depth_left_def Let_def)
  show ?case
  proof (cases "length (flows @ ?found) > MAX_EXECUTION_FLOWS")
    case True
    then show ?thesis using loop by (simp add: Let_def)
  next
    case False
    then show ?thesis using loop Cons.IH [of "flows @ ?found"] Cons.prems(1) by (simp add: Let_def)
  qed
qed

text \<open>A path of execution edges that starts at \<open>s\<close> and visits no node twice.\<close>

definition simple_walk :: "(nat \<times> string) list list \<Rightarrow> nat \<Rightarrow> flow_path \<Rightarrow> bool" where
  "simple_walk execution s = (\<lambda>(np, ep).
     np \<noteq> [] \<and> hd np = s \<and> distinct np \<and> length np = Suc (length ep) \<and>
     (\<forall>k<length ep. (np ! Suc k, ep ! k) \<in> set (execution ! (np ! k))))"

lemma simple_walk_extend:
  assumes "simple_walk execution s p" "x \<in> set (flow_next execution (fst p))"
  shows "simple_walk execution s (flow_extend p x)"
proof -
  obtain np ep t e where p: "p = (np, ep)" "x = (t, e)" by (cases p; cases x)
  have w: "np \<noteq> []" "hd np = s" "distinct np" "length np = Suc (length ep)"
    "\<forall>k<length ep. (np ! Suc k, ep ! k) \<in> set (execution ! (np ! k))"
    using assms(1) by (simp_all add: p simple_walk_def)
  have x: "(t, e) \<in> set (execution ! (np ! length ep))" "t \<notin> set np"
    using assms(2) w(1,4) by (auto simp: p flow_next_def last_conv_nth)
  have "((np @ [t]) ! Suc k, (ep @ [e]) ! k) \<in> set (execution ! ((np @ [t]) ! k))" if "k < Suc (length ep)" for k
    using that w(4,5) x(1) by (cases "k = length ep") (auto simp: nth_append)
  then show ?thesis using w x(2) by (simp add: p simple_walk_def flow_extend_def)
qed

lemma simple_walk_next:
  assumes "simple_walk execution s (np @ t # a, ep @ e # b)" "length np = Suc (length ep)"
  shows "(t, e) \<in> set (flow_next execution np)"
proof -
  have "\<forall>k<length (ep @ e # b). ((np @ t # a) ! Suc k, (ep @ e # b) ! k) \<in> set (execution ! ((np @ t # a) ! k))"
    using assms(1) by (simp add: simple_walk_def)
  moreover have "length ep < length (ep @ e # b)" by simp
  ultimately have "((np @ t # a) ! Suc (length ep), (ep @ e # b) ! length ep) \<in>
      set (execution ! ((np @ t # a) ! length ep))"
    by blast
  then have "(t, e) \<in> set (execution ! (np ! length ep))" using assms(2) by (simp add: nth_append)
  moreover have "t \<notin> set np" using assms(1) by (auto simp: simple_walk_def)
  moreover have "last np = np ! length ep" using assms(2) by (subst last_conv_nth) auto
  ultimately show ?thesis by (auto simp: flow_next_def)
qed

definition continues :: "flow_path \<Rightarrow> flow_path \<Rightarrow> bool" where
  "continues p q \<longleftrightarrow> (\<exists>a b. fst q = fst p @ a \<and> snd q = snd p @ b)"

lemma continues_cases:
  assumes "continues p q" "simple_walk execution s p" "simple_walk execution s q"
  shows "q = p \<or> (\<exists>x\<in>set (flow_next execution (fst p)). continues (flow_extend p x) q)"
proof -
  obtain np ep where p: "p = (np, ep)" by (cases p)
  obtain a b where q: "q = (np @ a, ep @ b)" using assms(1) by (cases q) (auto simp: continues_def p)
  have len: "length np = Suc (length ep)" "length (np @ a) = Suc (length (ep @ b))"
    using assms(2,3) by (simp_all add: simple_walk_def p q)
  then have "length a = length b" by simp
  then consider "a = []" "b = []" | t a' e b' where "a = t # a'" "b = e # b'"
    by (cases a; cases b) auto
  then show ?thesis
  proof cases
    case 1
    then show ?thesis using p q by simp
  next
    case 2
    then have "(t, e) \<in> set (flow_next execution np)" using assms(3) simple_walk_next len(1) q by metis
    moreover have "continues (flow_extend p (t, e)) q" using 2 p q by (simp add: continues_def flow_extend_def)
    ultimately show ?thesis using p by auto
  qed
qed

lemma continues_extend: "continues (flow_extend p x) q \<Longrightarrow> continues p q"
  by (cases p; cases x) (auto simp: continues_def flow_extend_def)

lemma continues_length: "continues p q \<Longrightarrow> length (snd p) \<le> length (snd q)"
  by (auto simp: continues_def)

lemma length_extend [simp]: "length (snd (flow_extend p x)) = Suc (length (snd p))"
  by (cases p; cases x) (simp add: flow_extend_def)

lemma leaf_flows_iff:
  assumes "simple_walk execution s p"
  shows "q \<in> set (leaf_flows execution d p) \<longleftrightarrow>
    simple_walk execution s q \<and> continues p q \<and> length (snd q) \<le> length (snd p) + d \<and>
    (length (snd q) = length (snd p) + d \<or> flow_next execution (fst q) = [])"
  using assms
proof (induction d arbitrary: p)
  case 0
  have "q = p" if "simple_walk execution s q" "continues p q" "length (snd q) \<le> length (snd p)"
    using continues_cases [OF that(2) 0 that(1)] continues_length [of "flow_extend p _" q] that(3) by fastforce
  moreover have "continues p p" by (simp add: continues_def)
  ultimately show ?case using 0 by auto
next
  case (Suc d)
  show ?case
  proof (cases "flow_next execution (fst p) = []")
    case True
    have "q = p" if "simple_walk execution s q" "continues p q"
      using continues_cases [OF that(2) Suc.prems that(1)] True by simp
    moreover have "continues p p" by (simp add: continues_def)
    ultimately show ?thesis using True Suc.prems by auto
  next
    case False
    let ?good = "\<lambda>p d. simple_walk execution s q \<and> continues p q \<and> length (snd q) \<le> length (snd p) + d \<and>
      (length (snd q) = length (snd p) + d \<or> flow_next execution (fst q) = [])"
    have "q \<in> set (leaf_flows execution (Suc d) p) \<longleftrightarrow>
        (\<exists>x\<in>set (flow_next execution (fst p)). ?good (flow_extend p x) d)"
      using Suc.IH [OF simple_walk_extend [OF Suc.prems]] False by simp
    also have "\<dots> \<longleftrightarrow> ?good p (Suc d)"
    proof
      assume "\<exists>x\<in>set (flow_next execution (fst p)). ?good (flow_extend p x) d"
      then show "?good p (Suc d)" using continues_extend by fastforce
    next
      assume good: "?good p (Suc d)"
      then have "q \<noteq> p" using False by auto
      then obtain x where "x \<in> set (flow_next execution (fst p))" "continues (flow_extend p x) q"
        using continues_cases good Suc.prems by blast
      then show "\<exists>x\<in>set (flow_next execution (fst p)). ?good (flow_extend p x) d" using good by auto
    qed
    finally show ?thesis .
  qed
qed

lemma leaf_flows_start:
  "q \<in> set (leaf_flows execution d ([s], [])) \<longleftrightarrow>
     simple_walk execution s q \<and> length (snd q) \<le> d \<and>
     (length (snd q) = d \<or> flow_next execution (fst q) = [])"
proof -
  have start: "simple_walk execution s ([s], [])" by (simp add: simple_walk_def)
  have "continues ([s], []) q" if w: "simple_walk execution s q"
  proof -
    obtain np ep where q: "q = (np, ep)" by (cases q)
    have "np = s # tl np" using w by (cases np) (auto simp: q simple_walk_def)
    then have "fst q = fst ([s], []) @ tl np" "snd q = snd ([s], []) @ ep" by (simp_all add: q)
    then show ?thesis unfolding continues_def by blast
  qed
  then show ?thesis unfolding leaf_flows_iff [OF start] by auto
qed

text \<open>C24. The execution flows are exact up to their bound: the search never leaves a vector and lists, in
  its order, every path of execution edges from an entrypoint that visits no node twice and ends
  where it cannot be extended or after eight edges, and nothing else; it is cut after a hundred, and
  says so exactly when there are more.\<close>

theorem execution_flows_exact:
  assumes "well_formed (targets execution)" "set entries \<subseteq> {..<length execution}"
  shows "\<exists>found. bounded_execution_flows nodes execution entries =
      Some (take MAX_EXECUTION_FLOWS found, length found > MAX_EXECUTION_FLOWS) \<and>
    set found = {render_flow nodes execution s (np, ep) | s np ep.
      s \<in> set entries \<and> simple_walk execution s (np, ep) \<and> length ep \<le> MAX_EXECUTION_FLOW_DEPTH \<and>
      (length ep = MAX_EXECUTION_FLOW_DEPTH \<or> (\<forall>(t, _)\<in>set (execution ! last np). t \<in> set np))}"
proof -
  let ?found = "concat (map (\<lambda>s. map (render_flow nodes execution s)
      (leaf_flows execution MAX_EXECUTION_FLOW_DEPTH ([s], []))) entries)"
  have "bounded_execution_flows nodes execution entries =
      Some (take MAX_EXECUTION_FLOWS ?found, length ?found > MAX_EXECUTION_FLOWS)"
    using flows_of_run [OF assms, of "[]" nodes] by (simp add: bounded_execution_flows_def Let_def)
  moreover have stuck: "flow_next execution np = [] \<longleftrightarrow> (\<forall>(t, _)\<in>set (execution ! last np). t \<in> set np)" for np
    by (auto simp: flow_next_def filter_empty_conv)
  have "set ?found = {render_flow nodes execution s (np, ep) | s np ep.
      s \<in> set entries \<and> simple_walk execution s (np, ep) \<and> length ep \<le> MAX_EXECUTION_FLOW_DEPTH \<and>
      (length ep = MAX_EXECUTION_FLOW_DEPTH \<or> (\<forall>(t, _)\<in>set (execution ! last np). t \<in> set np))}"
  proof (rule set_eqI)
    fix f
    have "f \<in> set ?found \<longleftrightarrow> (\<exists>s\<in>set entries. \<exists>q\<in>set (leaf_flows execution MAX_EXECUTION_FLOW_DEPTH ([s], [])).
        f = render_flow nodes execution s q)"
      by auto
    then show "f \<in> set ?found \<longleftrightarrow> f \<in> {render_flow nodes execution s (np, ep) | s np ep.
      s \<in> set entries \<and> simple_walk execution s (np, ep) \<and> length ep \<le> MAX_EXECUTION_FLOW_DEPTH \<and>
      (length ep = MAX_EXECUTION_FLOW_DEPTH \<or> (\<forall>(t, _)\<in>set (execution ! last np). t \<in> set np))}"
      unfolding leaf_flows_start stuck [symmetric] Bex_def by force
  qed
  ultimately show ?thesis by blast
qed

subsection \<open>The whole analysis\<close>

text \<open>The gaps in the order the code collects them.\<close>

definition coverage_gaps ::
  "StructuralGraphCoverage \<Rightarrow> bool \<Rightarrow> trusted_edges \<Rightarrow> nat \<Rightarrow> bool \<Rightarrow> bool \<Rightarrow> analysis_gap list" where
  "coverage_gaps cov snapshot_truncated trusted dynamic_references no_entrypoint output_truncated =
     (let unsupported = sum_list (map lc_discovered_files (filter (\<lambda>l. \<not> lc_supported l) (sc_languages cov)))
      in (if snapshot_truncated then [SnapshotTruncated] else []) @
         (if sc_discovered_files cov > sc_indexed_files cov
          then [FilesNotIndexed (sc_discovered_files cov - sc_indexed_files cov)] else []) @
         (if sc_skipped_files cov > 0 then [SkippedFiles (sc_skipped_files cov)] else []) @
         (if sc_error_files cov > 0 then [ErrorFiles (sc_error_files cov)] else []) @
         (if unsupported > 0 then [UnsupportedLanguageFiles unsupported] else []) @
         (if te_unresolved trusted > 0 then [UnresolvedEndpoints (te_unresolved trusted)] else []) @
         (if te_excluded trusted > 0 then [UntrustedEdgesExcluded (te_excluded trusted)] else []) @
         (if dynamic_references > 0 then [DynamicReferences dynamic_references] else []) @
         (if no_entrypoint then [NoQualifiedEntrypoints] else []) @
         (if output_truncated then [AnalysisOutputLimited] else []))"

definition entrypoint_indices :: "StructuralGraphNode list \<Rightarrow> nat list" where
  "entrypoint_indices ordered = filter (\<lambda>i. is_entrypoint (ordered ! i)) [0..<length ordered]"

definition analyze_trusted_algorithms ::
  "f64_ops \<Rightarrow> StructuralGraphNode list \<Rightarrow> StructuralGraphEdge list \<Rightarrow> StructuralGraphCoverage \<Rightarrow> bool
     \<Rightarrow> (StructuralGraphAnalysisPolicy \<times> StructuralGraphAnalysisCoverage \<times> StructuralGraphAlgorithmResults) option" where
  "analyze_trusted_algorithms ops nodes edges snapshot_coverage snapshot_truncated =
     (let ordered = sort_key sn_id nodes;
          n = length ordered;
          trusted = trust_edges ordered edges;
          execution = execution_vec ordered (te_edges trusted);
          entries = entrypoint_indices ordered;
          name = (\<lambda>i. sn_id (ordered ! i));
          outgoing = outgoing_vec n (te_edges trusted);
          incoming = incoming_vec n (te_edges trusted)
      in case calculate_pagerank ops outgoing incoming of
           None \<Rightarrow> None
         | Some pagerank \<Rightarrow>
       (case strongly_connected_components outgoing incoming of
           None \<Rightarrow> None
         | Some indices \<Rightarrow>
       (case articulation_points (undirected_vec n (te_edges trusted)) of
           None \<Rightarrow> None
         | Some articulation \<Rightarrow>
       (case reach_loop execution (rev entries) (replicate n False) of
           None \<Rightarrow> None
         | Some reached \<Rightarrow>
       (case bounded_execution_flows ordered execution entries of
           None \<Rightarrow> None
         | Some (flows, flows_truncated) \<Rightarrow>
       (let metrics = node_metrics ops ordered outgoing incoming pagerank;
            components = build_components ordered (te_edges trusted) indices;
            cycles = filter gc_cyclic components;
            reachable = map name (filter (\<lambda>i. reached ! i) [0..<n]);
            unreachable = map name (filter (\<lambda>i. \<not> reached ! i) [0..<n]);
            output_truncated = (length metrics > MAX_RANKED_METRICS \<or> length components > MAX_COMPONENTS \<or>
              length cycles > MAX_COMPONENTS \<or> length reachable > MAX_RANKED_METRICS \<or>
              length unreachable > MAX_RANKED_METRICS \<or> flows_truncated);
            dynamic = length (filter (\<lambda>node. sn_kind node = ''dynamic_reference'') nodes);
            gaps = remdups_adj (sort (map gap_text
              (coverage_gaps snapshot_coverage snapshot_truncated trusted dynamic (entries = []) output_truncated)));
            kinds = map (\<lambda>(_, _, e). se_kind e) (te_edges trusted)
        in Some
          (default_analysis_policy\<lparr>
             ap_included_edge_kinds := sort (remdups kinds),
             ap_execution_edge_kinds := sort (remdups (filter is_execution_edge_kind kinds))\<rparr>,
           \<lparr>ac_complete = (gaps = []), ac_reachability_complete = (gaps = []),
            ac_trusted_edge_count = length (te_edges trusted), ac_excluded_edge_count = te_excluded trusted,
            ac_unresolved_endpoint_count = te_unresolved trusted, ac_gaps = gaps,
            ac_output_truncated = output_truncated\<rparr>,
           \<lparr>ar_node_metrics = take MAX_RANKED_METRICS metrics,
            ar_strongly_connected_components = take MAX_COMPONENTS components,
            ar_cycles = take MAX_COMPONENTS cycles, ar_articulation_node_ids = map name articulation,
            ar_entrypoint_node_ids = map name entries,
            ar_reachable_node_ids = take MAX_RANKED_METRICS reachable,
            ar_unreachable_node_ids = take MAX_RANKED_METRICS unreachable,
            ar_execution_flows = flows\<rparr>)))))))"

section \<open>From indices to nodes\<close>

lemma node_index_bound: "node_index ordered x = Some i \<Longrightarrow> i < length ordered \<and> sn_id (ordered ! i) = x"
  by (auto simp: node_index_def set_zip dest!: map_of_SomeD)

lemma node_index_distinct:
  assumes "distinct (map sn_id ordered)" "i < length ordered"
  shows "node_index ordered (sn_id (ordered ! i)) = Some i"
proof -
  have d: "distinct (map fst (rev (zip (map sn_id ordered) [0..<length ordered])))"
    using assms(1) by (simp add: rev_map [symmetric])
  have "(sn_id (ordered ! i), i) \<in> set (rev (zip (map sn_id ordered) [0..<length ordered]))"
    using assms(2) by (auto simp: set_zip intro!: exI [of _ i])
  then show ?thesis unfolding node_index_def by (rule map_of_is_SomeI [OF d])
qed

lemma trust_edge_run:
  "set (te_edges (foldl (trust_edge index) st edges)) = set (te_edges st) \<union>
     {(f, t, e) | f t e. e \<in> set edges \<and> is_algorithm_trusted (se_trust e) \<and>
        index (se_from e) = Some f \<and> index (se_to e) = Some t}"
proof (induction edges arbitrary: st)
  case (Cons e edges)
  have "set (te_edges (trust_edge index st e)) = set (te_edges st) \<union>
     {(f, t, e) | f t. is_algorithm_trusted (se_trust e) \<and> index (se_from e) = Some f \<and> index (se_to e) = Some t}"
    by (auto simp: trust_edge_def split: option.splits)
  then show ?case using Cons [of "trust_edge index st e"] by auto
qed simp

lemma trust_edges_iff:
  "(f, t, e) \<in> set (te_edges (trust_edges ordered edges)) \<longleftrightarrow>
     e \<in> set edges \<and> is_algorithm_trusted (se_trust e) \<and>
     node_index ordered (se_from e) = Some f \<and> node_index ordered (se_to e) = Some t"
  using trust_edge_run [of "node_index ordered" "\<lparr>te_edges = [], te_excluded = 0, te_unresolved = 0\<rparr>" edges]
  by (auto simp: trust_edges_def Let_def)

lemma trust_edges_bound:
  "(f, t, e) \<in> set (te_edges (trust_edges ordered edges)) \<Longrightarrow> f < length ordered \<and> t < length ordered"
  using node_index_bound by (fastforce simp: trust_edges_iff)

lemma length_adjacency [simp]: "length (adjacency_vec n pairs) = n"
  by (simp add: adjacency_vec_def)

lemma adjacency_iff: "i < n \<Longrightarrow> t \<in> set (adjacency_vec n pairs ! i) \<longleftrightarrow> (i, t) \<in> set pairs"
  by (force simp: adjacency_vec_def sort_dedup_def)

lemma vec_iff:
  assumes "i < n"
  shows "t \<in> set (outgoing_vec n edges ! i) \<longleftrightarrow> (\<exists>e. (i, t, e) \<in> set edges)"
    and "t \<in> set (incoming_vec n edges ! i) \<longleftrightarrow> (\<exists>e. (t, i, e) \<in> set edges)"
  using assms by (force simp: outgoing_vec_def incoming_vec_def adjacency_iff)+

lemma length_vec [simp]: "length (outgoing_vec n edges) = n" "length (incoming_vec n edges) = n"
  by (simp_all add: outgoing_vec_def incoming_vec_def)

lemma trusted_pair:
  "adjacency_pair (outgoing_vec (length ordered) (te_edges (trust_edges ordered edges)))
     (incoming_vec (length ordered) (te_edges (trust_edges ordered edges)))"
proof -
  let ?t = "te_edges (trust_edges ordered edges)"
  have "v < length ordered" if "u < length ordered" "v \<in> set (outgoing_vec (length ordered) ?t ! u)" for u v
    using that(2) unfolding vec_iff(1) [OF that(1)] by (elim exE) (drule trust_edges_bound, simp)
  moreover have "v < length ordered" if "u < length ordered" "v \<in> set (incoming_vec (length ordered) ?t ! u)" for u v
    using that(2) unfolding vec_iff(2) [OF that(1)] by (elim exE) (drule trust_edges_bound, simp)
  ultimately have "well_formed (outgoing_vec (length ordered) ?t)" "well_formed (incoming_vec (length ordered) ?t)"
    unfolding well_formed_def length_vec by blast+
  moreover have "\<forall>u<length ordered. \<forall>v<length ordered.
      u \<in> set (incoming_vec (length ordered) ?t ! v) \<longleftrightarrow> v \<in> set (outgoing_vec (length ordered) ?t ! u)"
    by (simp add: vec_iff)
  ultimately show ?thesis unfolding adjacency_pair_def length_vec by blast
qed

lemma undirected_iff:
  assumes "i < n"
  shows "t \<in> set (undirected_vec n edges ! i) \<longleftrightarrow> (\<exists>e. (i, t, e) \<in> set edges \<or> (t, i, e) \<in> set edges)"
  using assms by (force simp: undirected_vec_def adjacency_iff)

lemma edge_undirected:
  "edge (undirected_vec (length ordered) (te_edges (trust_edges ordered edges))) u v \<longleftrightarrow>
     (\<exists>e. (u, v, e) \<in> set (te_edges (trust_edges ordered edges)) \<or> (v, u, e) \<in> set (te_edges (trust_edges ordered edges)))"
proof (cases "u < length ordered")
  case True
  then show ?thesis using undirected_iff [OF True] by (simp add: edge_def undirected_vec_def)
next
  case False
  then show ?thesis using trust_edges_bound by (auto simp: edge_def undirected_vec_def)
qed

lemma trusted_undirected: "undirected (undirected_vec (length ordered) (te_edges (trust_edges ordered edges)))"
proof -
  let ?g = "undirected_vec (length ordered) (te_edges (trust_edges ordered edges))"
  have "v < length ?g" if "edge ?g u v" for u v
    using that trust_edges_bound unfolding edge_undirected by (fastforce simp: undirected_vec_def)
  then have "well_formed ?g" unfolding well_formed_def edge_def by blast
  then show ?thesis unfolding undirected_def edge_undirected by blast
qed

lemma length_execution_vec [simp]: "length (execution_vec ordered edges) = length ordered"
  by (simp add: execution_vec_def)

lemma edge_execution:
  "edge (targets (execution_vec ordered edges)) u v \<longleftrightarrow>
     u < length ordered \<and> (\<exists>e. (u, v, e) \<in> set edges \<and> is_execution_edge_kind (se_kind e))"
  by (force simp: edge_targets execution_vec_def)

lemma execution_well_formed:
  "well_formed (targets (execution_vec ordered (te_edges (trust_edges ordered edges))))"
proof -
  let ?x = "execution_vec ordered (te_edges (trust_edges ordered edges))"
  have "v < length ordered" if e: "edge (targets ?x) u v" for u v
  proof -
    obtain e where "(u, v, e) \<in> set (te_edges (trust_edges ordered edges))" using e by (auto simp: edge_execution)
    then show ?thesis using trust_edges_bound by blast
  qed
  moreover have "length (targets ?x) = length ordered" by (simp add: targets_def)
  ultimately show ?thesis unfolding well_formed_def edge_def by simp
qed

lemma entrypoint_indices_bound: "set (entrypoint_indices ordered) \<subseteq> {..<length ordered}"
  by (auto simp: entrypoint_indices_def)

lemma pagerank_total:
  assumes "adjacency_pair outgoing incoming"
  shows "\<exists>ranks. calculate_pagerank ops outgoing incoming = Some ranks"
proof -
  have "length incoming = length outgoing" "well_formed incoming" using assms by (simp_all add: adjacency_pair_def)
  then have "\<not> (length incoming > length outgoing \<or> (\<exists>sources\<in>set incoming. \<exists>source\<in>set sources. source \<ge> length outgoing))"
    by (auto simp: well_formed_def in_set_conv_nth [of _ incoming] not_le [symmetric])
  then show ?thesis unfolding calculate_pagerank_def Let_def by simp
qed

text \<open>C25. The analysis always returns: none of its searches leaves a vector or loops, whatever the nodes
  and edges are, also with repeated identifiers, missing ends and untrusted edges.\<close>

theorem analysis_total:
  "\<exists>policy coverage results.
     analyze_trusted_algorithms ops nodes edges snapshot_coverage snapshot_truncated = Some (policy, coverage, results)"
proof -
  let ?o = "sort_key sn_id nodes"
  let ?t = "te_edges (trust_edges ?o edges)"
  obtain cs where "strongly_connected_components (outgoing_vec (length ?o) ?t) (incoming_vec (length ?o) ?t) = Some cs"
    using component_search_exact [OF trusted_pair] by blast
  moreover obtain ranks where "calculate_pagerank ops (outgoing_vec (length ?o) ?t) (incoming_vec (length ?o) ?t) = Some ranks"
    using pagerank_total [OF trusted_pair] by blast
  moreover obtain cuts where "articulation_points (undirected_vec (length ?o) ?t) = Some cuts"
    using articulation_points_separate [OF trusted_undirected] by blast
  moreover obtain r where "reach_loop (execution_vec ?o ?t) (rev (entrypoint_indices ?o)) (replicate (length ?o) False) = Some r"
    using reach_loop_exact [OF execution_well_formed, of "entrypoint_indices ?o" ?o edges] entrypoint_indices_bound [of ?o]
    by auto
  moreover obtain flows b where "bounded_execution_flows ?o (execution_vec ?o ?t) (entrypoint_indices ?o) = Some (flows, b)"
    using flows_of_run [OF execution_well_formed, of "entrypoint_indices ?o" ?o edges "[]"] entrypoint_indices_bound [of ?o]
    by (auto simp: bounded_execution_flows_def Let_def)
  ultimately show ?thesis by (simp add: analyze_trusted_algorithms_def Let_def)
qed

end
