(* ===== verification/Graph_Verdicts.thy ===== *)
theory Graph_Verdicts
  imports Graph_Analysis
begin

text \<open>
  What the analysis of \<open>Graph_Analysis\<close> says of a snapshot, by the identifiers of its nodes: the search
  works on indices into the sorted nodes, and \<open>mirrors\<close> relates a graph on those indices to a relation
  on identifiers. The theorems here compare the components, the cycles, the reachable nodes and the
  verdict of completeness with the trusted edges of the snapshot. A small program is the witness.
\<close>

section \<open>What the analysis says of the graph\<close>

text \<open>An edge the analysis trusts, between two nodes of the snapshot.\<close>

definition trusted_link ::
  "StructuralGraphNode list \<Rightarrow> StructuralGraphEdge list \<Rightarrow> (string \<Rightarrow> bool) \<Rightarrow> string \<Rightarrow> string \<Rightarrow> bool" where
  "trusted_link nodes edges kind a b \<longleftrightarrow> a \<in> sn_id ` set nodes \<and> b \<in> sn_id ` set nodes \<and>
     (\<exists>e\<in>set edges. is_algorithm_trusted (se_trust e) \<and> kind (se_kind e) \<and> se_from e = a \<and> se_to e = b)"

lemma ordered_ids: "i < length nodes \<Longrightarrow> sn_id (sort_key sn_id nodes ! i) \<in> sn_id ` set nodes"
  by (metis image_eqI length_sort nth_mem set_sort)

lemma ordered_index:
  assumes "a \<in> sn_id ` set nodes"
  obtains i where "i < length nodes" "sn_id (sort_key sn_id nodes ! i) = a"
  using assms by (metis imageE in_set_conv_nth length_sort set_sort)

lemma ordered_inj:
  assumes "distinct (map sn_id nodes)" "i < length nodes" "j < length nodes"
    "sn_id (sort_key sn_id nodes ! i) = sn_id (sort_key sn_id nodes ! j)"
  shows "i = j"
proof -
  have "distinct (map sn_id (sort_key sn_id nodes))" using assms(1) by (simp add: distinct_map)
  then show ?thesis using assms(2-4) by (simp add: distinct_conv_nth) (metis length_sort nth_map)
qed

lemma trusted_step:
  assumes "distinct (map sn_id nodes)" "i < length nodes" "j < length nodes"
  shows "(\<exists>e. (i, j, e) \<in> set (te_edges (trust_edges (sort_key sn_id nodes) edges)) \<and> kind (se_kind e)) \<longleftrightarrow>
    trusted_link nodes edges kind (sn_id (sort_key sn_id nodes ! i)) (sn_id (sort_key sn_id nodes ! j))"
proof -
  let ?o = "sort_key sn_id nodes"
  have d: "distinct (map sn_id ?o)" using assms(1) by (simp add: distinct_map)
  have idx: "node_index ?o x = Some k \<longleftrightarrow> x = sn_id (?o ! k)" if "k < length nodes" for x k
    using node_index_bound [of ?o x k] node_index_distinct [OF d, of k] that by auto
  show ?thesis
    unfolding trust_edges_iff trusted_link_def idx [OF assms(2)] idx [OF assms(3)]
    using ordered_ids assms(2,3) by auto
qed

text \<open>A relation on indices mirrors a relation on the identifiers of the sorted nodes.\<close>

definition mirrors ::
  "StructuralGraphNode list \<Rightarrow> (nat \<Rightarrow> nat \<Rightarrow> bool) \<Rightarrow> (string \<Rightarrow> string \<Rightarrow> bool) \<Rightarrow> bool" where
  "mirrors nodes E R \<longleftrightarrow> distinct (map sn_id nodes) \<and> (\<forall>i<length nodes. \<forall>j. E i j \<longrightarrow> j < length nodes) \<and>
     (\<forall>i<length nodes. \<forall>j<length nodes. E i j \<longleftrightarrow>
        R (sn_id (sort_key sn_id nodes ! i)) (sn_id (sort_key sn_id nodes ! j))) \<and>
     (\<forall>a b. R a b \<longrightarrow> b \<in> sn_id ` set nodes)"

lemma mirrors_edge:
  assumes "mirrors nodes E R" "i < length nodes"
  shows "j < length nodes \<Longrightarrow> E i j \<longleftrightarrow>
      R (sn_id (sort_key sn_id nodes ! i)) (sn_id (sort_key sn_id nodes ! j))"
    and "E i j \<Longrightarrow> j < length nodes"
  using assms unfolding mirrors_def by blast+

lemma reaches_named:
  assumes m: "mirrors nodes E R" and i: "i < length nodes" and j: "j < length nodes"
  shows "E\<^sup>*\<^sup>* i j \<longleftrightarrow> R\<^sup>*\<^sup>* (sn_id (sort_key sn_id nodes ! i)) (sn_id (sort_key sn_id nodes ! j))"
proof
  let ?n = "\<lambda>i. sn_id (sort_key sn_id nodes ! i)"
  assume "E\<^sup>*\<^sup>* i j"
  then have "R\<^sup>*\<^sup>* (?n i) (?n j) \<and> j < length nodes"
  proof (induction rule: rtranclp_induct)
    case base
    then show ?case using i by simp
  next
    case (step y z)
    have z: "z < length nodes" using mirrors_edge(2) [OF m _ step.hyps(2)] step.IH by simp
    then have "R (?n y) (?n z)" using mirrors_edge(1) [OF m] step by simp
    then show ?case using step.IH z by (meson rtranclp.rtrancl_into_rtrancl)
  qed
  then show "R\<^sup>*\<^sup>* (?n i) (?n j)" by simp
next
  let ?n = "\<lambda>i. sn_id (sort_key sn_id nodes ! i)"
  assume "R\<^sup>*\<^sup>* (?n i) (?n j)"
  then have "\<exists>k<length nodes. ?n k = ?n j \<and> E\<^sup>*\<^sup>* i k"
  proof (induction rule: rtranclp_induct)
    case base
    then show ?case using i by blast
  next
    case (step b c)
    then obtain k where k: "k < length nodes" "?n k = b" "E\<^sup>*\<^sup>* i k" by blast
    have "c \<in> sn_id ` set nodes" using m step(2) by (simp add: mirrors_def)
    then obtain l where l: "l < length nodes" "?n l = c" by (rule ordered_index)
    have "E k l" using mirrors_edge(1) [OF m k(1) l(1)] step(2) k(2) l(2) by simp
    with k(3) have "E\<^sup>*\<^sup>* i l" by (rule rtranclp.rtrancl_into_rtrancl)
    then show ?case using l by blast
  qed
  moreover have "distinct (map sn_id nodes)" using m by (simp add: mirrors_def)
  ultimately show "E\<^sup>*\<^sup>* i j" using ordered_inj [OF _ _ j] by metis
qed

lemma mark_component:
  "length (foldl (\<lambda>m v. m[v := i]) m c) = length m \<and>
   (\<forall>w<length m. foldl (\<lambda>m v. m[v := i]) m c ! w = (if w \<in> set c then i else m ! w))"
  by (induction c arbitrary: m) (auto simp: nth_list_update)

lemma component_by_node_snoc:
  "component_by_node n (cs @ [c]) = foldl (\<lambda>m v. m[v := length cs]) (component_by_node n cs) c"
  by (simp add: component_by_node_def enumerate_append_eq)

lemma length_component_by_node [simp]: "length (component_by_node n cs) = n"
proof (induction cs rule: rev_induct)
  case Nil
  then show ?case by (simp add: component_by_node_def)
next
  case (snoc c cs)
  then show ?case unfolding component_by_node_snoc using mark_component [of "length cs" "component_by_node n cs" c] by simp
qed

lemma component_by_node_nth:
  assumes "distinct (concat cs)" "set (concat cs) \<subseteq> {..<n}" "i < length cs" "v \<in> set (cs ! i)"
  shows "component_by_node n cs ! v = i"
  using assms
proof (induction cs rule: rev_induct)
  case (snoc c cs)
  note mark = mark_component [of "length cs" "component_by_node n cs" c]
  show ?case
  proof (cases "i = length cs")
    case True
    then have "v \<in> set c" "v < n" using snoc.prems(2,4) by auto
    then show ?thesis unfolding component_by_node_snoc using mark True by simp
  next
    case False
    then have i: "i < length cs" "v \<in> set (cs ! i)" using snoc.prems(3,4) by (auto simp: nth_append)
    then have "v \<in> set (concat cs)" by (auto intro!: bexI [of _ "cs ! i"])
    then have "v \<notin> set c" "v < n" using snoc.prems(1,2) by auto
    moreover have "component_by_node n cs ! v = i" using snoc.IH snoc.prems(1,2) i by simp
    ultimately show ?thesis unfolding component_by_node_snoc using mark by simp
  qed
qed simp

lemma component_by_node_iff:
  assumes "distinct (concat cs)" "set (concat cs) = {..<n}" "i < length cs" "v < n"
  shows "component_by_node n cs ! v = i \<longleftrightarrow> v \<in> set (cs ! i)"
proof
  assume "component_by_node n cs ! v = i"
  obtain c where "c \<in> set cs" "v \<in> set c" using assms(2,4) by auto
  then obtain j where "j < length cs" "v \<in> set (cs ! j)" by (auto simp: in_set_conv_nth)
  then show "v \<in> set (cs ! i)"
    using component_by_node_nth [of cs n j v] assms(1,2) \<open>component_by_node n cs ! v = i\<close> by auto
qed (use component_by_node_nth [of cs n i v] assms in simp)

lemma scc_cycle:
  assumes "set c = scc graph u" "u < length graph" "distinct c" "well_formed graph"
  shows "(length c > 1 \<or> (\<exists>f\<in>set c. \<exists>t\<in>set c. edge graph f t)) \<longleftrightarrow> (\<exists>a\<in>set c. (edge graph)\<^sup>+\<^sup>+ a a)"
proof
  have mutual: "reaches graph a b" if "a \<in> set c" "b \<in> set c" for a b
    using that assms(1) by (auto simp: scc_def intro: rtranclp_trans)
  {
    assume "length c > 1 \<or> (\<exists>f\<in>set c. \<exists>t\<in>set c. edge graph f t)"
    then consider a b where "a \<in> set c" "b \<in> set c" "a \<noteq> b" | f t where "f \<in> set c" "t \<in> set c" "edge graph f t"
    proof
      assume "length c > 1"
      then obtain a b where "a \<in> set c" "b \<in> set c" "a \<noteq> b"
        using assms(3) by (metis One_nat_def Suc_lessD less_Suc_eq_0_disj nth_eq_iff_index_eq nth_mem zero_neq_one)
      then show ?thesis using that(1) by blast
    qed (use that(2) in blast)
    then show "\<exists>a\<in>set c. (edge graph)\<^sup>+\<^sup>+ a a"
    proof cases
      case 1
      then have "(edge graph)\<^sup>+\<^sup>+ a b" using mutual by (metis rtranclpD)
      then have "(edge graph)\<^sup>+\<^sup>+ a a" using mutual [OF 1(2,1)] by (rule tranclp_rtranclp_tranclp)
      then show ?thesis using 1(1) by blast
    next
      case 2
      then have "(edge graph)\<^sup>+\<^sup>+ f f" using mutual by (meson rtranclp_into_tranclp2)
      then show ?thesis using 2(1) by blast
    qed
  }
  assume "\<exists>a\<in>set c. (edge graph)\<^sup>+\<^sup>+ a a"
  then obtain a b where a: "a \<in> set c" "edge graph a b" "reaches graph b a" by (meson tranclpD)
  have "b < length graph" using a(2) assms(4) by (auto simp: edge_def well_formed_def)
  moreover have "reaches graph u a" "reaches graph a u" using a(1) assms(1) by (auto simp: scc_def)
  ultimately have "b \<in> set c"
    using a(2,3) assms(1) by (auto simp: scc_def intro: rtranclp_trans rtranclp.rtrancl_into_rtrancl)
  then show "length c > 1 \<or> (\<exists>f\<in>set c. \<exists>t\<in>set c. edge graph f t)" using a by blast
qed

lemma component_edges_iff:
  assumes "distinct (concat cs)" "set (concat cs) = {..<n}" "i < length cs"
    "\<forall>(f, t, e)\<in>set edges. f < n \<and> t < n"
  shows "component_edge_ids (component_by_node n cs) edges i \<noteq> [] \<longleftrightarrow>
    (\<exists>f\<in>set (cs ! i). \<exists>t\<in>set (cs ! i). edge (outgoing_vec n edges) f t)"
proof -
  have "component_edge_ids (component_by_node n cs) edges i \<noteq> [] \<longleftrightarrow>
      (\<exists>f t e. (f, t, e) \<in> set edges \<and> component_by_node n cs ! f = i \<and>
         component_by_node n cs ! f = component_by_node n cs ! t)"
    by (auto simp: component_edge_ids_def filter_empty_conv)
  also have "\<dots> \<longleftrightarrow> (\<exists>f t e. (f, t, e) \<in> set edges \<and> f \<in> set (cs ! i) \<and> t \<in> set (cs ! i))"
  proof -
    have "component_by_node n cs ! f = i \<and> component_by_node n cs ! f = component_by_node n cs ! t \<longleftrightarrow>
        f \<in> set (cs ! i) \<and> t \<in> set (cs ! i)" if "(f, t, e) \<in> set edges" for f t e
      using component_by_node_iff [OF assms(1-3), of f] component_by_node_iff [OF assms(1-3), of t] assms(4) that
      by auto
    then show ?thesis by blast
  qed
  also have "\<dots> \<longleftrightarrow> (\<exists>f\<in>set (cs ! i). \<exists>t\<in>set (cs ! i). edge (outgoing_vec n edges) f t)"
  proof -
    have "edge (outgoing_vec n edges) f t \<longleftrightarrow> (\<exists>e. (f, t, e) \<in> set edges)" for f t
    proof (cases "f < n")
      case True
      then show ?thesis using vec_iff(1) [OF True, of t edges] by (simp add: edge_def)
    next
      case False
      then show ?thesis using assms(4) by (auto simp: edge_def)
    qed
    then show ?thesis by blast
  qed
  finally show ?thesis .
qed

lemma analyze_Some:
  assumes "analyze_trusted_algorithms ops nodes edges cov partial = Some (policy, coverage, results)"
    and "\<not> ac_output_truncated coverage"
  defines "ordered \<equiv> sort_key sn_id nodes"
  defines "te \<equiv> te_edges (trust_edges ordered edges)"
  shows "\<exists>cs. strongly_connected_components (outgoing_vec (length nodes) te) (incoming_vec (length nodes) te) = Some cs \<and>
      ar_strongly_connected_components results = build_components ordered te cs \<and>
      ar_cycles results = filter gc_cyclic (build_components ordered te cs)"
    and "\<exists>r. reach_loop (execution_vec ordered te) (rev (entrypoint_indices ordered)) (replicate (length nodes) False) = Some r \<and>
      ar_reachable_node_ids results = map (\<lambda>i. sn_id (ordered ! i)) (filter (\<lambda>i. r ! i) [0..<length nodes]) \<and>
      ar_unreachable_node_ids results = map (\<lambda>i. sn_id (ordered ! i)) (filter (\<lambda>i. \<not> r ! i) [0..<length nodes])"
    and "ar_entrypoint_node_ids results = map (\<lambda>i. sn_id (ordered ! i)) (entrypoint_indices ordered)"
  using assms(1,2) unfolding analyze_trusted_algorithms_def Let_def ordered_def te_def
  by (auto simp: not_less split: option.splits prod.splits)

lemma build_components_set:
  "set (build_components ordered edges cs) =
     (\<lambda>i. build_component (cs ! i) ordered (component_edge_ids (component_by_node (length ordered) cs) edges i)) `
        {..<length cs}"
  by (auto simp: build_components_def Let_def in_set_enumerate_eq)

lemma build_component_simps [simp]:
  "gc_node_ids (build_component c nodes ids) = map (\<lambda>i. sn_id (nodes ! i)) c"
  "gc_cyclic (build_component c nodes ids) \<longleftrightarrow> length c > 1 \<or> ids \<noteq> []"
  by (simp_all add: build_component_def Let_def)

text \<open>The cycles through a node, by names.\<close>

lemma cycle_named:
  assumes m: "mirrors nodes E R" and i: "i < length nodes"
  shows "E\<^sup>+\<^sup>+ i i \<longleftrightarrow> R\<^sup>+\<^sup>+ (sn_id (sort_key sn_id nodes ! i)) (sn_id (sort_key sn_id nodes ! i))"
proof
  let ?n = "\<lambda>i. sn_id (sort_key sn_id nodes ! i)"
  {
    assume "E\<^sup>+\<^sup>+ i i"
    then obtain j where j: "E i j" "E\<^sup>*\<^sup>* j i" by (meson tranclpD)
    have "j < length nodes" by (rule mirrors_edge(2) [OF m i j(1)])
    then have "R (?n i) (?n j)" "R\<^sup>*\<^sup>* (?n j) (?n i)"
      using mirrors_edge(1) [OF m i] reaches_named [OF m _ i] j by blast+
    then show "R\<^sup>+\<^sup>+ (?n i) (?n i)" by (rule rtranclp_into_tranclp2)
  }
  assume "R\<^sup>+\<^sup>+ (?n i) (?n i)"
  then obtain b where b: "R (?n i) b" "R\<^sup>*\<^sup>* b (?n i)" by (meson tranclpD)
  have "b \<in> sn_id ` set nodes" using m b(1) by (simp add: mirrors_def)
  then obtain j where j: "j < length nodes" "?n j = b" by (rule ordered_index)
  then have "E i j" "E\<^sup>*\<^sup>* j i"
    using mirrors_edge(1) [OF m i] reaches_named [OF m _ i] b by blast+
  then show "E\<^sup>+\<^sup>+ i i" by (rule rtranclp_into_tranclp2)
qed

text \<open>The components of a snapshot, by indices.\<close>

lemma cyclic_indexed:
  assumes "distinct (concat cs)" "set (concat cs) = {..<n}" "k < length cs" "set (cs ! k) \<in> scc graph ` {..<n}"
    and "\<forall>(f, t, e)\<in>set te. f < n \<and> t < n" and "graph = outgoing_vec n te" "well_formed graph"
  shows "length (cs ! k) > 1 \<or> component_edge_ids (component_by_node n cs) te k \<noteq> [] \<longleftrightarrow>
    (\<exists>a\<in>set (cs ! k). (edge graph)\<^sup>+\<^sup>+ a a)"
proof -
  obtain u where u: "set (cs ! k) = scc graph u" "u < length graph" using assms(4,6) by auto
  have "distinct (cs ! k)" using assms(1,3) by (simp add: distinct_concat_iff)
  from scc_cycle [OF u this assms(7)] show ?thesis
    using component_edges_iff [OF assms(1-3,5)] assms(6) by simp
qed

lemma components_indexed:
  assumes "analyze_trusted_algorithms ops nodes edges cov partial = Some (policy, coverage, results)"
    "\<not> ac_output_truncated coverage" "distinct (map sn_id nodes)"
  defines "ordered \<equiv> sort_key sn_id nodes"
  defines "graph \<equiv> outgoing_vec (length nodes) (te_edges (trust_edges ordered edges))"
  shows "(\<lambda>c. set (gc_node_ids c)) ` set (ar_strongly_connected_components results) =
        (\<lambda>u. (\<lambda>i. sn_id (ordered ! i)) ` scc graph u) ` {..<length nodes}"
    and "\<And>c. c \<in> set (ar_strongly_connected_components results) \<Longrightarrow> gc_cyclic c \<longleftrightarrow>
        (\<exists>i<length nodes. sn_id (ordered ! i) \<in> set (gc_node_ids c) \<and> (edge graph)\<^sup>+\<^sup>+ i i)"
    and "ar_cycles results = filter gc_cyclic (ar_strongly_connected_components results)"
proof -
  let ?te = "te_edges (trust_edges ordered edges)" and ?n = "\<lambda>i. sn_id (ordered ! i)"
  have pair: "adjacency_pair graph (incoming_vec (length nodes) ?te)"
    using trusted_pair [of ordered edges] by (simp add: graph_def ordered_def)
  then have wf: "well_formed graph" by (simp add: adjacency_pair_def)
  obtain cs where run: "strongly_connected_components graph (incoming_vec (length nodes) ?te) = Some cs"
    "ar_strongly_connected_components results = build_components ordered ?te cs"
    "ar_cycles results = filter gc_cyclic (build_components ordered ?te cs)"
    using analyze_Some(1) [OF assms(1,2)] by (auto simp: ordered_def graph_def)
  have len: "length graph = length nodes" "length ordered = length nodes" by (simp_all add: graph_def ordered_def)
  have cs: "set ` set cs = scc graph ` {..<length nodes}" "distinct (concat cs)" "set (concat cs) = {..<length nodes}"
    using component_search_exact [OF pair] run(1) len(1) by auto
  have bound: "\<forall>(f, t, e)\<in>set ?te. f < length nodes \<and> t < length nodes"
    using trust_edges_bound len(2) by (metis (mono_tags, lifting) case_prodI2)
  have all_members: "set cs = (\<lambda>i. cs ! i) ` {..<length cs}" by (auto simp: set_conv_nth)
  note members = build_components_set [of ordered ?te cs, unfolded len(2)]
  have "(\<lambda>c. set (gc_node_ids c)) ` set (build_components ordered ?te cs) = (\<lambda>c. ?n ` set c) ` set cs"
    unfolding members all_members image_image build_component_simps set_map ..
  also have "\<dots> = (\<lambda>S. ?n ` S) ` (set ` set cs)" by (simp add: image_image)
  also have "\<dots> = (\<lambda>u. ?n ` scc graph u) ` {..<length nodes}" unfolding cs(1) by (simp add: image_image)
  finally show "(\<lambda>c. set (gc_node_ids c)) ` set (ar_strongly_connected_components results) =
        (\<lambda>u. (\<lambda>i. sn_id (ordered ! i)) ` scc graph u) ` {..<length nodes}"
    unfolding run(2) .
  show "ar_cycles results = filter gc_cyclic (ar_strongly_connected_components results)" by (simp add: run(2,3))
  fix c assume "c \<in> set (ar_strongly_connected_components results)"
  then obtain k where k: "k < length cs"
    "c = build_component (cs ! k) ordered (component_edge_ids (component_by_node (length nodes) cs) ?te k)"
    unfolding run(2) members by blast
  have sub: "set (cs ! k) \<subseteq> {..<length nodes}" using cs(3) k(1) by auto
  have "set (cs ! k) \<in> scc graph ` {..<length nodes}" using cs(1) k(1) by (metis image_eqI nth_mem)
  note cyc = cyclic_indexed [OF cs(2,3) k(1) this bound _ wf, unfolded graph_def, OF refl, folded graph_def]
  have "i \<in> set (cs ! k)" if "i < length nodes" "?n i \<in> ?n ` set (cs ! k)" for i
    using that sub ordered_inj [OF assms(3), of i] unfolding ordered_def by auto
  then show "gc_cyclic c \<longleftrightarrow> (\<exists>i<length nodes. sn_id (ordered ! i) \<in> set (gc_node_ids c) \<and> (edge graph)\<^sup>+\<^sup>+ i i)"
    using cyc sub unfolding k(2) build_component_simps by auto
qed

lemma mirrors_trusted:
  assumes "distinct (map sn_id nodes)"
    and "\<And>i j. E i j \<longleftrightarrow> (\<exists>e. (i, j, e) \<in> set (te_edges (trust_edges (sort_key sn_id nodes) edges)) \<and> kind (se_kind e))"
  shows "mirrors nodes E (trusted_link nodes edges kind)"
  unfolding mirrors_def assms(2)
  using assms(1) trusted_step [OF assms(1), of _ _ edges kind] trust_edges_bound [of _ _ _ "sort_key sn_id nodes" edges]
  by (auto simp: trusted_link_def)

lemma outgoing_mirrors:
  assumes "distinct (map sn_id nodes)"
  shows "mirrors nodes (edge (outgoing_vec (length nodes) (te_edges (trust_edges (sort_key sn_id nodes) edges))))
    (trusted_link nodes edges (\<lambda>_. True))"
proof (rule mirrors_trusted [OF assms])
  let ?t = "te_edges (trust_edges (sort_key sn_id nodes) edges)"
  show "edge (outgoing_vec (length nodes) ?t) i j \<longleftrightarrow> (\<exists>e. (i, j, e) \<in> set ?t \<and> True)" for i j
    using vec_iff(1) [of i "length nodes" j ?t] trust_edges_bound [of i j _ "sort_key sn_id nodes" edges]
    by (auto simp: edge_def)
qed

lemma execution_mirrors:
  assumes "distinct (map sn_id nodes)"
  shows "mirrors nodes (edge (targets (execution_vec (sort_key sn_id nodes) (te_edges (trust_edges (sort_key sn_id nodes) edges)))))
    (trusted_link nodes edges is_execution_edge_kind)"
proof (rule mirrors_trusted [OF assms])
  let ?t = "te_edges (trust_edges (sort_key sn_id nodes) edges)"
  show "edge (targets (execution_vec (sort_key sn_id nodes) ?t)) i j \<longleftrightarrow>
      (\<exists>e. (i, j, e) \<in> set ?t \<and> is_execution_edge_kind (se_kind e))" for i j
    using trust_edges_bound [of i j _ "sort_key sn_id nodes" edges] by (auto simp: edge_execution)
qed

lemma sorted_ids: "(\<lambda>i. sn_id (sort_key sn_id nodes ! i)) ` {..<length nodes} = sn_id ` set nodes"
proof
  show "sn_id ` set nodes \<subseteq> (\<lambda>i. sn_id (sort_key sn_id nodes ! i)) ` {..<length nodes}"
    using ordered_index by (metis (mono_tags, lifting) imageI lessThan_iff subsetI)
qed (use ordered_ids in auto)

lemma image_of_indices:
  assumes "\<And>v. v < n \<Longrightarrow> f v \<in> S \<longleftrightarrow> v \<in> T" "T \<subseteq> {..<n}" "S \<subseteq> f ` {..<n}"
  shows "f ` T = S"
  using assms by (auto simp: subset_iff image_iff) (metis lessThan_iff)

lemma scc_named:
  assumes m: "mirrors nodes (edge graph) R" and len: "length graph = length nodes" and u: "u < length nodes"
  shows "(\<lambda>i. sn_id (sort_key sn_id nodes ! i)) ` scc graph u =
    {b \<in> sn_id ` set nodes. R\<^sup>*\<^sup>* (sn_id (sort_key sn_id nodes ! u)) b \<and> R\<^sup>*\<^sup>* b (sn_id (sort_key sn_id nodes ! u))}"
    (is "?n ` _ = ?S")
proof -
  have "?n v \<in> ?S \<longleftrightarrow> v \<in> scc graph u" if v: "v < length nodes" for v
    using reaches_named [OF m u v] reaches_named [OF m v u] ordered_ids [OF v] v len by (auto simp: scc_def)
  moreover have "scc graph u \<subseteq> {..<length nodes}" using len by (auto simp: scc_def)
  moreover have "?S \<subseteq> ?n ` {..<length nodes}" unfolding sorted_ids by blast
  ultimately show ?thesis by (intro image_of_indices)
qed

text \<open>C22. The components of the analysis are exact: when no list is cut, the components it reports are
  the classes of nodes of the snapshot that reach each other over the edges it trusts, a component is
  marked cyclic exactly when a closed walk of trusted edges goes through one of its nodes, and the
  cycles are the cyclic components.\<close>

theorem analysis_components_exact:
  assumes "analyze_trusted_algorithms ops nodes edges snapshot_coverage snapshot_truncated =
      Some (policy, coverage, results)"
    and "\<not> ac_output_truncated coverage" and "distinct (map sn_id nodes)"
  shows "(\<lambda>c. set (gc_node_ids c)) ` set (ar_strongly_connected_components results) =
      (\<lambda>a. {b \<in> sn_id ` set nodes. (trusted_link nodes edges (\<lambda>_. True))\<^sup>*\<^sup>* a b \<and>
        (trusted_link nodes edges (\<lambda>_. True))\<^sup>*\<^sup>* b a}) ` sn_id ` set nodes \<and>
    (\<forall>c\<in>set (ar_strongly_connected_components results). gc_cyclic c \<longleftrightarrow>
      (\<exists>a\<in>set (gc_node_ids c). (trusted_link nodes edges (\<lambda>_. True))\<^sup>+\<^sup>+ a a)) \<and>
    ar_cycles results = filter gc_cyclic (ar_strongly_connected_components results)"
proof (intro conjI ballI)
  let ?g = "outgoing_vec (length nodes) (te_edges (trust_edges (sort_key sn_id nodes) edges))"
  let ?R = "trusted_link nodes edges (\<lambda>_. True)" and ?n = "\<lambda>i. sn_id (sort_key sn_id nodes ! i)"
  note m = outgoing_mirrors [OF assms(3), of edges]
  note c = components_indexed [OF assms]
  have "(\<lambda>u. ?n ` scc ?g u) ` {..<length nodes} =
      (\<lambda>u. {b \<in> sn_id ` set nodes. ?R\<^sup>*\<^sup>* (?n u) b \<and> ?R\<^sup>*\<^sup>* b (?n u)}) ` {..<length nodes}"
    by (rule image_cong [OF refl]) (simp add: scc_named [OF m length_vec(1)])
  then show eq: "(\<lambda>c. set (gc_node_ids c)) ` set (ar_strongly_connected_components results) =
      (\<lambda>a. {b \<in> sn_id ` set nodes. ?R\<^sup>*\<^sup>* a b \<and> ?R\<^sup>*\<^sup>* b a}) ` sn_id ` set nodes"
    unfolding c(1) sorted_ids [symmetric] by (simp add: image_image)
  show "ar_cycles results = filter gc_cyclic (ar_strongly_connected_components results)" by (rule c(3))
  fix x assume x: "x \<in> set (ar_strongly_connected_components results)"
  then have "set (gc_node_ids x) \<subseteq> sn_id ` set nodes" using eq by blast
  then have "set (gc_node_ids x) \<subseteq> ?n ` {..<length nodes}" unfolding sorted_ids .
  then have "(\<exists>a\<in>set (gc_node_ids x). ?R\<^sup>+\<^sup>+ a a) \<longleftrightarrow>
      (\<exists>i<length nodes. ?n i \<in> set (gc_node_ids x) \<and> ?R\<^sup>+\<^sup>+ (?n i) (?n i))" by blast
  then show "gc_cyclic x \<longleftrightarrow> (\<exists>a\<in>set (gc_node_ids x). ?R\<^sup>+\<^sup>+ a a)"
    using c(2) [OF x] cycle_named [OF m] by blast
qed

lemma sorted_names:
  assumes "distinct (map sn_id nodes)"
  shows "sorted (map (\<lambda>i. sn_id (sort_key sn_id nodes ! i)) (filter p [0..<length nodes])) \<and>
    distinct (map (\<lambda>i. sn_id (sort_key sn_id nodes ! i)) (filter p [0..<length nodes]))"
proof -
  let ?n = "\<lambda>i. sn_id (sort_key sn_id nodes ! i)"
  have "map ?n [0..<length nodes] = map sn_id (sort_key sn_id nodes)" by (rule nth_equalityI) simp_all
  moreover have "sorted (map sn_id (sort_key sn_id nodes))" by (rule sorted_sort_key)
  ultimately have "sorted (map ?n (filter p [0..<length nodes]))" by (metis sorted_filter)
  moreover have "inj_on ?n {..<length nodes}" using ordered_inj [OF assms] by (auto intro!: inj_onI)
  ultimately show ?thesis by (auto simp: distinct_map intro: inj_on_subset)
qed

text \<open>C23. Reachability is exact: when no list is cut, the reachable nodes of the analysis are those an
  entrypoint of the snapshot reaches over trusted execution edges, and the unreachable nodes are all
  the others, each once and in the order of their identifiers.\<close>

theorem analysis_reachability_exact:
  assumes "analyze_trusted_algorithms ops nodes edges snapshot_coverage snapshot_truncated =
      Some (policy, coverage, results)"
    and "\<not> ac_output_truncated coverage" and "distinct (map sn_id nodes)"
  shows "set (ar_reachable_node_ids results) = {b \<in> sn_id ` set nodes. \<exists>s\<in>set nodes. is_entrypoint s \<and>
      (trusted_link nodes edges is_execution_edge_kind)\<^sup>*\<^sup>* (sn_id s) b} \<and>
    set (ar_unreachable_node_ids results) = sn_id ` set nodes - set (ar_reachable_node_ids results) \<and>
    sorted (ar_reachable_node_ids results) \<and> distinct (ar_reachable_node_ids results) \<and>
    sorted (ar_unreachable_node_ids results) \<and> distinct (ar_unreachable_node_ids results)"
proof -
  let ?o = "sort_key sn_id nodes" and ?n = "\<lambda>i. sn_id (sort_key sn_id nodes ! i)"
  let ?R = "trusted_link nodes edges is_execution_edge_kind"
  let ?x = "execution_vec ?o (te_edges (trust_edges ?o edges))"
  obtain r where run: "reach_loop ?x (rev (entrypoint_indices ?o)) (replicate (length nodes) False) = Some r"
    "ar_reachable_node_ids results = map ?n (filter (\<lambda>i. r ! i) [0..<length nodes])"
    "ar_unreachable_node_ids results = map ?n (filter (\<lambda>i. \<not> r ! i) [0..<length nodes])"
    using analyze_Some(2) [OF assms(1,2)] by auto
  have r: "r ! v \<longleftrightarrow> (\<exists>s\<in>set (entrypoint_indices ?o). reaches (targets ?x) s v)" if "v < length nodes" for v
    using reach_loop_exact [OF execution_well_formed, of "entrypoint_indices ?o" ?o edges] run(1) that
      entrypoint_indices_bound [of ?o] by auto
  have named: "r ! v \<longleftrightarrow> (\<exists>s\<in>set nodes. is_entrypoint s \<and> ?R\<^sup>*\<^sup>* (sn_id s) (?n v))" if v: "v < length nodes" for v
  proof -
    have "r ! v \<longleftrightarrow> (\<exists>i<length nodes. is_entrypoint (?o ! i) \<and> ?R\<^sup>*\<^sup>* (?n i) (?n v))"
      unfolding r [OF v] using reaches_named [OF execution_mirrors [OF assms(3), of edges] _ v]
      by (auto simp: entrypoint_indices_def)
    also have "\<dots> \<longleftrightarrow> (\<exists>s\<in>set ?o. is_entrypoint s \<and> ?R\<^sup>*\<^sup>* (sn_id s) (?n v))"
      using length_sort [of sn_id nodes] by (metis in_set_conv_nth)
    finally show ?thesis unfolding set_sort .
  qed
  have parts: "set (ar_reachable_node_ids results) = ?n ` {v. v < length nodes \<and> r ! v}"
    "set (ar_unreachable_node_ids results) = ?n ` {v. v < length nodes \<and> \<not> r ! v}"
    unfolding run(2,3) by auto
  have inj: "inj_on ?n {..<length nodes}" using ordered_inj [OF assms(3)] by (auto intro!: inj_onI)
  note order = sorted_names [OF assms(3)]
  have "set (ar_reachable_node_ids results) = {b \<in> sn_id ` set nodes. \<exists>s\<in>set nodes. is_entrypoint s \<and> ?R\<^sup>*\<^sup>* (sn_id s) b}"
    unfolding parts(1) sorted_ids [symmetric] using named by auto
  moreover have "set (ar_unreachable_node_ids results) = sn_id ` set nodes - set (ar_reachable_node_ids results)"
  proof -
    have "{v. v < length nodes \<and> \<not> r ! v} = {..<length nodes} - {v. v < length nodes \<and> r ! v}" by auto
    then show ?thesis unfolding parts sorted_ids [symmetric]
      using inj_on_image_set_diff [OF inj, of "{..<length nodes}" "{v. v < length nodes \<and> r ! v}"] by auto
  qed
  ultimately show ?thesis using order unfolding run(2,3) by blast
qed

lemma trust_edge_counts:
  "te_excluded (foldl (trust_edge index) st edges) =
     te_excluded st + length (filter (\<lambda>e. \<not> is_algorithm_trusted (se_trust e)) edges)"
  "te_unresolved (foldl (trust_edge index) st edges) =
     te_unresolved st + length (filter (\<lambda>e. is_algorithm_trusted (se_trust e) \<and>
       (index (se_from e) = None \<or> index (se_to e) = None)) edges)"
  by (induction edges arbitrary: st) (auto simp: trust_edge_def split: option.splits)

lemma node_index_None: "node_index ordered x = None \<longleftrightarrow> x \<notin> sn_id ` set ordered"
proof -
  have "fst ` set (zip (map sn_id ordered) [0..<length ordered]) = sn_id ` set ordered"
    by (metis diff_zero length_map length_upt map_fst_zip set_map)
  then show ?thesis by (simp add: node_index_def map_of_eq_None_iff)
qed

lemma trust_edges_none:
  assumes "te_excluded (trust_edges ordered edges) = 0" "te_unresolved (trust_edges ordered edges) = 0" "e \<in> set edges"
  shows "is_algorithm_trusted (se_trust e)" "se_from e \<in> sn_id ` set ordered" "se_to e \<in> sn_id ` set ordered"
proof -
  show t: "is_algorithm_trusted (se_trust e)"
    using assms(1,3) by (auto simp: trust_edges_def Let_def trust_edge_counts filter_empty_conv)
  then have "node_index ordered (se_from e) \<noteq> None \<and> node_index ordered (se_to e) \<noteq> None"
    using assms(2,3) by (auto simp: trust_edges_def Let_def trust_edge_counts filter_empty_conv)
  then show "se_from e \<in> sn_id ` set ordered" "se_to e \<in> sn_id ` set ordered"
    unfolding node_index_None by blast+
qed

lemma analyze_articulation:
  assumes "analyze_trusted_algorithms ops nodes edges cov partial = Some (policy, coverage, results)"
  defines "ordered \<equiv> sort_key sn_id nodes"
  shows "ar_articulation_node_ids results = map (\<lambda>i. sn_id (ordered ! i))
    (filter (separates (undirected_vec (length nodes) (te_edges (trust_edges ordered edges)))) [0..<length nodes])"
  using assms(1) articulation_points_separate [OF trusted_undirected, of ordered edges]
  unfolding analyze_trusted_algorithms_def Let_def ordered_def
  by (auto simp: undirected_vec_def split: option.splits prod.splits)

lemma undirected_mirrors:
  assumes "distinct (map sn_id nodes)"
  shows "mirrors nodes (edge (undirected_vec (length nodes) (te_edges (trust_edges (sort_key sn_id nodes) edges))))
    (\<lambda>a b. trusted_link nodes edges (\<lambda>_. True) a b \<or> trusted_link nodes edges (\<lambda>_. True) b a)"
proof -
  let ?t = "te_edges (trust_edges (sort_key sn_id nodes) edges)"
  have sym: "edge (undirected_vec (length nodes) ?t) i j \<longleftrightarrow>
      edge (outgoing_vec (length nodes) ?t) i j \<or> edge (outgoing_vec (length nodes) ?t) j i" for i j
    using edge_undirected [of "sort_key sn_id nodes" edges i j] vec_iff(1) [of _ "length nodes" _ ?t]
      trust_edges_bound [of _ _ _ "sort_key sn_id nodes" edges]
    by (auto simp: edge_def)
  note out = outgoing_mirrors [OF assms, of edges]
  have "j < length nodes" if "i < length nodes" "edge (undirected_vec (length nodes) ?t) i j" for i j
    using that(2) mirrors_edge(2) [OF out that(1)] unfolding sym by (auto simp: edge_def)
  moreover have "edge (undirected_vec (length nodes) ?t) i j \<longleftrightarrow>
      trusted_link nodes edges (\<lambda>_. True) (sn_id (sort_key sn_id nodes ! i)) (sn_id (sort_key sn_id nodes ! j)) \<or>
      trusted_link nodes edges (\<lambda>_. True) (sn_id (sort_key sn_id nodes ! j)) (sn_id (sort_key sn_id nodes ! i))"
    if "i < length nodes" "j < length nodes" for i j
    unfolding sym using mirrors_edge(1) [OF out] that by simp
  moreover have "trusted_link nodes edges (\<lambda>_. True) a b \<Longrightarrow> a \<in> sn_id ` set nodes \<and> b \<in> sn_id ` set nodes" for a b
    by (simp add: trusted_link_def)
  ultimately show ?thesis using assms unfolding mirrors_def by blast
qed

text \<open>The analysis without one node.\<close>

lemma mirrors_without:
  assumes m: "mirrors nodes E R" and i: "i < length nodes"
  shows "mirrors nodes (\<lambda>x y. E x y \<and> x \<noteq> i \<and> y \<noteq> i)
    (\<lambda>a b. R a b \<and> a \<noteq> sn_id (sort_key sn_id nodes ! i) \<and> b \<noteq> sn_id (sort_key sn_id nodes ! i))"
proof -
  have "distinct (map sn_id nodes)" using m by (simp add: mirrors_def)
  then have inj: "sn_id (sort_key sn_id nodes ! j) = sn_id (sort_key sn_id nodes ! i) \<longleftrightarrow> j = i" if "j < length nodes" for j
    using ordered_inj that i by blast
  have "E x y \<and> x \<noteq> i \<and> y \<noteq> i \<longleftrightarrow> R (sn_id (sort_key sn_id nodes ! x)) (sn_id (sort_key sn_id nodes ! y)) \<and>
      sn_id (sort_key sn_id nodes ! x) \<noteq> sn_id (sort_key sn_id nodes ! i) \<and>
      sn_id (sort_key sn_id nodes ! y) \<noteq> sn_id (sort_key sn_id nodes ! i)"
    if "x < length nodes" "y < length nodes" for x y
    using mirrors_edge(1) [OF m that(1,2)] inj that by simp
  then show ?thesis using m unfolding mirrors_def by blast
qed

lemma separates_named:
  assumes m: "mirrors nodes (edge graph) R" and len: "length graph = length nodes" and wf: "well_formed graph"
    and i: "i < length nodes"
  shows "separates graph i \<longleftrightarrow> (\<exists>b c. b \<noteq> sn_id (sort_key sn_id nodes ! i) \<and> c \<noteq> sn_id (sort_key sn_id nodes ! i) \<and>
     b \<in> sn_id ` set nodes \<and> R\<^sup>*\<^sup>* b c \<and>
     \<not> (\<lambda>x y. R x y \<and> x \<noteq> sn_id (sort_key sn_id nodes ! i) \<and> y \<noteq> sn_id (sort_key sn_id nodes ! i))\<^sup>*\<^sup>* b c)"
    (is "_ \<longleftrightarrow> (\<exists>b c. ?Q b c)")
proof -
  let ?n = "\<lambda>i. sn_id (sort_key sn_id nodes ! i)"
  have ids: "distinct (map sn_id nodes)" using m by (simp add: mirrors_def)
  have inj: "?n u = ?n i \<longleftrightarrow> u = i" if "u < length nodes" for u using ordered_inj [OF ids that i] by blast
  have pair: "?Q (?n u) (?n w) \<longleftrightarrow> u \<noteq> i \<and> w \<noteq> i \<and> reaches graph u w \<and> \<not> avoids graph i u w"
    if "u < length nodes" "w < length nodes" for u w
    using inj that reaches_named [OF m that] reaches_named [OF mirrors_without [OF m i] that] ordered_ids [OF that(1)] by simp
  have in_range: "u < length nodes \<and> w < length nodes" if "reaches graph u w" "\<not> avoids graph i u w" for u w
  proof -
    have "u \<noteq> w" using that(2) by auto
    moreover from that(1) have "u = w \<or> (\<exists>x. edge graph u x)" by (cases rule: converse_rtranclpE) auto
    moreover from that(1) have "u = w \<or> (\<exists>y. edge graph y w)" by (cases rule: rtranclp.cases) auto
    ultimately obtain x y where "edge graph u x" "edge graph y w" by blast
    then show ?thesis using wf len by (auto simp: edge_def well_formed_def)
  qed
  have named: "\<exists>u w. u < length nodes \<and> w < length nodes \<and> ?n u = b \<and> ?n w = c" if "?Q b c" for b c
  proof -
    have "c \<in> sn_id ` set nodes"
    proof -
      have "b \<in> sn_id ` set nodes" "R\<^sup>*\<^sup>* b c" using that by blast+
      then show ?thesis using m unfolding mirrors_def by (metis rtranclp.cases)
    qed
    then obtain w where w: "w < length nodes" "?n w = c" by (rule ordered_index)
    have "b \<in> sn_id ` set nodes" using that by (elim conjE)
    then obtain u where u: "u < length nodes" "?n u = b" by (rule ordered_index)
    show ?thesis by (rule exI [of _ u], rule exI [of _ w]) (intro conjI u w)
  qed
  show ?thesis
  proof
    assume "separates graph i"
    then obtain u w where uw: "u \<noteq> i" "w \<noteq> i" "reaches graph u w" "\<not> avoids graph i u w"
      unfolding separates_def by blast
    then have "?Q (?n u) (?n w)" using pair in_range [OF uw(3,4)] by blast
    then show "\<exists>b c. ?Q b c" by (intro exI)
  next
    assume "\<exists>b c. ?Q b c"
    then obtain b c where q: "?Q b c" by (elim exE)
    obtain u w where uw: "u < length nodes" "w < length nodes" "?n u = b" "?n w = c" using named [OF q] by blast
    then have "u \<noteq> i \<and> w \<noteq> i \<and> reaches graph u w \<and> \<not> avoids graph i u w" using pair [OF uw(1,2)] q by simp
    then show "separates graph i" unfolding separates_def by blast
  qed
qed

lemma image_where: "(\<And>i. i < n \<Longrightarrow> p i \<longleftrightarrow> Z (f i)) \<Longrightarrow> f ` {i. i < n \<and> p i} = {a \<in> f ` {..<n}. Z a}"
  by auto

text \<open>C21. The articulation points are exact: the analysis lists, in the order of their identifiers, exactly
  the nodes without which two other nodes that are linked over trusted edges, in either direction, are
  no longer linked.\<close>

theorem analysis_articulation_exact:
  assumes "analyze_trusted_algorithms ops nodes edges snapshot_coverage snapshot_truncated =
      Some (policy, coverage, results)"
    and "distinct (map sn_id nodes)"
    and "linked = (\<lambda>a b. trusted_link nodes edges (\<lambda>_. True) a b \<or> trusted_link nodes edges (\<lambda>_. True) b a)"
  shows "set (ar_articulation_node_ids results) = {a \<in> sn_id ` set nodes. \<exists>b\<in>sn_id ` set nodes. \<exists>c.
      b \<noteq> a \<and> c \<noteq> a \<and> linked\<^sup>*\<^sup>* b c \<and> \<not> (\<lambda>x y. linked x y \<and> x \<noteq> a \<and> y \<noteq> a)\<^sup>*\<^sup>* b c} \<and>
    sorted (ar_articulation_node_ids results) \<and> distinct (ar_articulation_node_ids results)"
proof -
  let ?g = "undirected_vec (length nodes) (te_edges (trust_edges (sort_key sn_id nodes) edges))"
  let ?n = "\<lambda>i. sn_id (sort_key sn_id nodes ! i)"
  note ids = analyze_articulation [OF assms(1)]
  have wf: "well_formed ?g" using trusted_undirected [of "sort_key sn_id nodes" edges] by (simp add: undirected_def)
  have len: "length ?g = length nodes" by (simp add: undirected_vec_def)
  have "mirrors nodes (edge ?g) linked" unfolding assms(3) by (rule undirected_mirrors [OF assms(2)])
  note sep = separates_named [OF this len wf]
  have named: "separates ?g i \<longleftrightarrow> (\<exists>b\<in>sn_id ` set nodes. \<exists>c. b \<noteq> ?n i \<and> c \<noteq> ?n i \<and> linked\<^sup>*\<^sup>* b c \<and>
      \<not> (\<lambda>x y. linked x y \<and> x \<noteq> ?n i \<and> y \<noteq> ?n i)\<^sup>*\<^sup>* b c)" if "i < length nodes" for i
    unfolding sep [OF that] by blast
  have "set (ar_articulation_node_ids results) = ?n ` {i. i < length nodes \<and> separates ?g i}" unfolding ids by auto
  also have "\<dots> = {a \<in> ?n ` {..<length nodes}. \<exists>b\<in>sn_id ` set nodes. \<exists>c.
      b \<noteq> a \<and> c \<noteq> a \<and> linked\<^sup>*\<^sup>* b c \<and> \<not> (\<lambda>x y. linked x y \<and> x \<noteq> a \<and> y \<noteq> a)\<^sup>*\<^sup>* b c}"
    by (rule image_where) (rule named)
  finally show ?thesis unfolding sorted_ids using sorted_names [OF assms(2)] unfolding ids by blast
qed

text \<open>C26. A complete analysis saw everything: when the analysis reports its coverage as complete, the
  snapshot was not truncated and no file was left out, every edge was trusted and had both ends in the
  snapshot, there was an entrypoint and no dynamic reference, and no result list was cut.\<close>

theorem analysis_complete_sound:
  assumes "analyze_trusted_algorithms ops nodes edges snapshot_coverage snapshot_truncated =
      Some (policy, coverage, results)"
    and "ac_complete coverage"
  shows "\<not> snapshot_truncated \<and> sc_discovered_files snapshot_coverage \<le> sc_indexed_files snapshot_coverage \<and>
    sc_skipped_files snapshot_coverage = 0 \<and> sc_error_files snapshot_coverage = 0 \<and>
    (\<forall>l\<in>set (sc_languages snapshot_coverage). \<not> lc_supported l \<longrightarrow> lc_discovered_files l = 0) \<and>
    (\<forall>e\<in>set edges. is_algorithm_trusted (se_trust e) \<and> {se_from e, se_to e} \<subseteq> sn_id ` set nodes) \<and>
    (\<exists>node\<in>set nodes. is_entrypoint node) \<and>
    (\<forall>node\<in>set nodes. sn_kind node \<noteq> ''dynamic_reference'') \<and> \<not> ac_output_truncated coverage"
proof -
  let ?o = "sort_key sn_id nodes"
  let ?d = "length (filter (\<lambda>node. sn_kind node = ''dynamic_reference'') nodes)"
  have "coverage_gaps snapshot_coverage snapshot_truncated (trust_edges ?o edges) ?d
      (entrypoint_indices ?o = []) (ac_output_truncated coverage) = []"
    using assms unfolding analyze_trusted_algorithms_def Let_def by (auto split: option.splits prod.splits)
  then have gaps: "\<not> snapshot_truncated" "sc_discovered_files snapshot_coverage \<le> sc_indexed_files snapshot_coverage"
    "sc_skipped_files snapshot_coverage = 0" "sc_error_files snapshot_coverage = 0"
    "sum_list (map lc_discovered_files (filter (\<lambda>l. \<not> lc_supported l) (sc_languages snapshot_coverage))) = 0"
    "te_unresolved (trust_edges ?o edges) = 0" "te_excluded (trust_edges ?o edges) = 0"
    "?d = 0" "entrypoint_indices ?o \<noteq> []" "\<not> ac_output_truncated coverage"
    by (simp_all add: coverage_gaps_def Let_def split: if_splits)
  have "\<exists>node\<in>set nodes. is_entrypoint node"
  proof -
    obtain i where "i < length ?o" "is_entrypoint (?o ! i)"
      using gaps(9) by (auto simp: entrypoint_indices_def filter_empty_conv)
    then show ?thesis by (metis nth_mem set_sort)
  qed
  moreover have "is_algorithm_trusted (se_trust e) \<and> {se_from e, se_to e} \<subseteq> sn_id ` set nodes" if "e \<in> set edges" for e
    using trust_edges_none [OF gaps(7,6) that] by auto
  ultimately show ?thesis using gaps by (auto simp: filter_empty_conv)
qed

section \<open>A sample snapshot\<close>

text \<open>A program whose entrypoint and helper call each other, with a leaf under the helper and one node nothing calls.\<close>

definition sample_node :: "string \<Rightarrow> string \<Rightarrow> StructuralGraphNode" where
  "sample_node node_id label = \<lparr>sn_id = node_id, sn_kind = ''function'', sn_label = label, sn_qualified_name = None,
     sn_path = None, sn_detail = None, sn_language = None, sn_community_id = None,
     sn_trust = Trust_Extracted, sn_origin = Origin_Syntax, sn_sources = []\<rparr>"

definition sample_call :: "string \<Rightarrow> string \<Rightarrow> string \<Rightarrow> StructuralGraphEdge" where
  "sample_call edge_id source target = \<lparr>se_id = edge_id, se_from = source, se_to = target, se_kind = ''calls'',
     se_evidence = [], se_trust = Trust_Extracted, se_origin = Origin_Syntax, se_sources = [], se_candidates = []\<rparr>"

text \<open>An arithmetic on the bit patterns, for the examples only.\<close>

definition sample_ops :: f64_ops where
  "sample_ops = \<lparr>fo_add = (+), fo_sub = (-), fo_mul = (*), fo_div = (\<lambda>x y. x div y), fo_abs = (\<lambda>x. x),
     fo_less = (\<lambda>x y. x < y), fo_sum = sum_list, fo_of_usize = of_nat\<rparr>"

definition sample_nodes :: "StructuralGraphNode list" where
  "sample_nodes = [sample_node ''a'' ''main'', sample_node ''b'' ''helper'', sample_node ''c'' ''leaf'',
     sample_node ''z'' ''unused'']"

definition sample_edges :: "StructuralGraphEdge list" where
  "sample_edges = [sample_call ''e1'' ''a'' ''b'', sample_call ''e2'' ''b'' ''a'', sample_call ''e3'' ''b'' ''c'']"

definition sample_full :: StructuralGraphCoverage where
  "sample_full = \<lparr>sc_discovered_files = 1, sc_indexed_files = 1, sc_skipped_files = 0, sc_error_files = 0,
     sc_generated_files = 0, sc_sensitive_files = 0, sc_binary_files = 0, sc_languages = []\<rparr>"

definition sample_execution :: "(nat \<times> string) list list" where
  "sample_execution = [[(1, ''e1'')], [(0, ''e2''), (2, ''e3'')], [], []]"

lemma sample_distinct: "distinct (map sn_id sample_nodes)"
  by (simp add: sample_nodes_def sample_node_def)

lemma all_less_4: "(\<forall>u<Suc (Suc (Suc (Suc 0))). P u) \<longleftrightarrow> P 0 \<and> P 1 \<and> P 2 \<and> P 3"
  by (auto simp: less_Suc_eq numeral_2_eq_2 numeral_3_eq_3)

lemma sample_sorted: "sort_key sn_id sample_nodes = sample_nodes"
  by (simp add: sample_nodes_def sample_node_def)

lemma sample_trusted:
  "trust_edges sample_nodes sample_edges =
     \<lparr>te_edges = [(0, 1, sample_call ''e1'' ''a'' ''b''), (1, 0, sample_call ''e2'' ''b'' ''a''),
        (1, 2, sample_call ''e3'' ''b'' ''c'')],
      te_excluded = 0, te_unresolved = 0\<rparr>"
  by (simp add: trust_edges_def trust_edge_def sample_nodes_def sample_edges_def sample_node_def sample_call_def
      is_algorithm_trusted_def node_index_def)

lemma sample_vectors:
  "outgoing_vec 4 (te_edges (trust_edges sample_nodes sample_edges)) = [[1], [0, 2], [], []]"
  "incoming_vec 4 (te_edges (trust_edges sample_nodes sample_edges)) = [[1], [0], [1], []]"
  "undirected_vec 4 (te_edges (trust_edges sample_nodes sample_edges)) = [[1], [0, 2], [1], []]"
  "execution_vec sample_nodes (te_edges (trust_edges sample_nodes sample_edges)) = [[(1, ''e1'')], [(0, ''e2''), (2, ''e3'')], [], []]"
  "entrypoint_indices sample_nodes = [0]"
  unfolding sample_trusted trusted_edges.simps
  by (simp_all add: outgoing_vec_def incoming_vec_def undirected_vec_def adjacency_vec_def sort_dedup_def upt_rec
      execution_vec_def sample_nodes_def sample_node_def sample_call_def is_execution_edge_kind_def
      entrypoint_indices_def is_entrypoint_def)

lemma sample_components:
  "strongly_connected_components [[1], [0, 2], [], []] [[1], [0], [1], []] = Some [[3], [0, 1], [2]]"
  by (simp add: strongly_connected_components_def upt_rec finish_order.simps collect_component.simps Let_def)

lemma sample_ranks: "\<exists>ranks. calculate_pagerank ops [[1], [0, 2], [], []] [[1], [0], [1], []] = Some ranks"
  by (simp add: calculate_pagerank_def)

lemma length_metrics [simp]: "length (node_metrics ops ordered outgoing incoming ranks) = length ordered"
  by (simp add: node_metrics_def)

lemma sample_cuts: "articulation_points [[1], [0, 2], [1], []] = Some [1]"
  by (simp add: articulation_points_def upt_rec cut_start_def cut_search.simps discover_def adopt_def lower_to_def
      mark_cut_def finish_node_def Let_def)

lemma sample_reached:
  "reach_loop [[(1, ''e1'')], [(0, ''e2''), (2, ''e3'')], [], []] (rev [0]) (replicate 4 False) = Some [True, True, True, False]"
  by (simp add: reach_loop.simps numeral_eq_Suc)

lemma sample_indices:
  "filter (\<lambda>i. [True, True, True, False] ! i) [0..<4] = [0, 1, 2]"
  "filter (\<lambda>i. \<not> [True, True, True, False] ! i) [0..<4] = [3]"
  by (simp_all add: upt_rec)

lemma sample_gaps: "coverage_gaps sample_full False (trust_edges sample_nodes sample_edges) 0 False False = []"
  by (simp add: coverage_gaps_def sample_full_def sample_trusted)

lemma sample_flows:
  "\<exists>f. bounded_execution_flows sample_nodes [[(1, ''e1'')], [(0, ''e2''), (2, ''e3'')], [], []] [0] = Some ([f], False)"
  by (simp add: bounded_execution_flows_def flow_loop.simps flow_next_def flow_extend_def MAX_EXECUTION_FLOWS_def
      MAX_EXECUTION_FLOW_DEPTH_def Let_def)

lemma sample_analysis:
  "\<exists>policy coverage results.
     analyze_trusted_algorithms sample_ops sample_nodes sample_edges sample_full False = Some (policy, coverage, results) \<and>
     ac_complete coverage \<and> \<not> ac_output_truncated coverage \<and>
     ar_reachable_node_ids results = [''a'', ''b'', ''c''] \<and>
     length (ar_strongly_connected_components results) = 3 \<and> ar_articulation_node_ids results = [''b'']"
proof -
  obtain f where f: "bounded_execution_flows sample_nodes [[(1, ''e1'')], [(0, ''e2''), (2, ''e3'')], [], []] [0] = Some ([f], False)"
    using sample_flows by blast
  obtain ranks where ranks: "calculate_pagerank sample_ops [[1], [0, 2], [], []] [[1], [0], [1], []] = Some ranks"
    using sample_ranks by blast
  have n: "length sample_nodes = 4" by (simp add: sample_nodes_def)
  have dyn: "length (filter (\<lambda>node. sn_kind node = ''dynamic_reference'') sample_nodes) = 0"
    by (simp add: sample_nodes_def sample_node_def)
  have c: "length (build_components sample_nodes es [[3], [0, 1], [2]]) = 3" for es
    by (simp add: build_components_def Let_def)
  have few: "\<not> MAX_COMPONENTS < length (filter p (build_components sample_nodes es [[3], [0, 1], [2]]))" for p es
    using length_filter_le [of p "build_components sample_nodes es [[3], [0, 1], [2]]"] unfolding c MAX_COMPONENTS_def by simp
  have small: "\<not> MAX_RANKED_METRICS < 4" "\<not> MAX_COMPONENTS < 3" "\<not> MAX_RANKED_METRICS < 3" "\<not> MAX_RANKED_METRICS < 1"
    by (simp_all add: MAX_RANKED_METRICS_def MAX_COMPONENTS_def)
  have names: "map (\<lambda>i. sn_id (sample_nodes ! i)) [0, 1, 2] = [''a'', ''b'', ''c'']" "length (map (\<lambda>i. sn_id (sample_nodes ! i)) [3]) = 1"
    "map (\<lambda>i. sn_id (sample_nodes ! i)) [1] = [''b'']" "length [''a'', ''b'', ''c''] = 3"
    by (simp_all add: sample_nodes_def sample_node_def)
  have taken: "take MAX_RANKED_METRICS [''a'', ''b'', ''c''] = [''a'', ''b'', ''c'']" by (simp add: MAX_RANKED_METRICS_def)
  have counted: "length (take MAX_COMPONENTS (build_components sample_nodes es [[3], [0, 1], [2]])) = 3" for es
    unfolding length_take c by (simp add: MAX_COMPONENTS_def)
  show ?thesis
    unfolding analyze_trusted_algorithms_def Let_def sample_sorted n length_metrics sample_vectors sample_components ranks option.case
      sample_cuts sample_reached f prod.case sample_indices names dyn c taken
    using few small by (simp add: sample_gaps counted [unfolded One_nat_def] del: length_take)
qed

theorem analysis_components_exact_witness:
  "\<exists>results :: StructuralGraphAlgorithmResults. length (ar_strongly_connected_components results) = 3 \<and>
   (\<lambda>c. set (gc_node_ids c)) ` set (ar_strongly_connected_components results) =
      (\<lambda>a. {b \<in> sn_id ` set sample_nodes. (trusted_link sample_nodes sample_edges (\<lambda>_. True))\<^sup>*\<^sup>* a b \<and>
        (trusted_link sample_nodes sample_edges (\<lambda>_. True))\<^sup>*\<^sup>* b a}) ` sn_id ` set sample_nodes \<and>
    (\<forall>c\<in>set (ar_strongly_connected_components results). gc_cyclic c \<longleftrightarrow>
      (\<exists>a\<in>set (gc_node_ids c). (trusted_link sample_nodes sample_edges (\<lambda>_. True))\<^sup>+\<^sup>+ a a)) \<and>
    ar_cycles results = filter gc_cyclic (ar_strongly_connected_components results)"
proof -
  obtain policy coverage results where r:
    "analyze_trusted_algorithms sample_ops sample_nodes sample_edges sample_full False = Some (policy, coverage, results)"
    "\<not> ac_output_truncated coverage" "length (ar_strongly_connected_components results) = 3"
    using sample_analysis by (elim exE conjE)
  show ?thesis
    by (rule exI [of _ results], rule conjI [OF r(3)], rule analysis_components_exact [OF r(1,2) sample_distinct])
qed

theorem analysis_reachability_exact_witness:
  "\<exists>results :: StructuralGraphAlgorithmResults. ar_reachable_node_ids results = [''a'', ''b'', ''c''] \<and>
   set (ar_reachable_node_ids results) = {b \<in> sn_id ` set sample_nodes. \<exists>s\<in>set sample_nodes. is_entrypoint s \<and>
      (trusted_link sample_nodes sample_edges is_execution_edge_kind)\<^sup>*\<^sup>* (sn_id s) b} \<and>
    set (ar_unreachable_node_ids results) = sn_id ` set sample_nodes - set (ar_reachable_node_ids results) \<and>
    sorted (ar_reachable_node_ids results) \<and> distinct (ar_reachable_node_ids results) \<and>
    sorted (ar_unreachable_node_ids results) \<and> distinct (ar_unreachable_node_ids results)"
proof -
  obtain policy coverage results where r:
    "analyze_trusted_algorithms sample_ops sample_nodes sample_edges sample_full False = Some (policy, coverage, results)"
    "\<not> ac_output_truncated coverage" "ar_reachable_node_ids results = [''a'', ''b'', ''c'']"
    using sample_analysis by (elim exE conjE)
  show ?thesis
    by (rule exI [of _ results], rule conjI [OF r(3)], rule analysis_reachability_exact [OF r(1,2) sample_distinct])
qed

theorem analysis_complete_sound_witness:
  "\<exists>coverage :: StructuralGraphAnalysisCoverage. ac_complete coverage \<and>
    \<not> False \<and> sc_discovered_files sample_full \<le> sc_indexed_files sample_full \<and>
    sc_skipped_files sample_full = 0 \<and> sc_error_files sample_full = 0 \<and>
    (\<forall>l\<in>set (sc_languages sample_full). \<not> lc_supported l \<longrightarrow> lc_discovered_files l = 0) \<and>
    (\<forall>e\<in>set sample_edges. is_algorithm_trusted (se_trust e) \<and> {se_from e, se_to e} \<subseteq> sn_id ` set sample_nodes) \<and>
    (\<exists>node\<in>set sample_nodes. is_entrypoint node) \<and>
    (\<forall>node\<in>set sample_nodes. sn_kind node \<noteq> ''dynamic_reference'') \<and> \<not> ac_output_truncated coverage"
proof -
  obtain policy coverage results where r:
    "analyze_trusted_algorithms sample_ops sample_nodes sample_edges sample_full False = Some (policy, coverage, results)"
    "ac_complete coverage"
    using sample_analysis by (elim exE conjE)
  show ?thesis by (rule exI [of _ coverage], rule conjI [OF r(2)], rule analysis_complete_sound [OF r])
qed

theorem execution_flows_exact_witness:
  "\<exists>found. length found = 1 \<and> bounded_execution_flows sample_nodes sample_execution [0] =
      Some (take MAX_EXECUTION_FLOWS found, length found > MAX_EXECUTION_FLOWS) \<and>
    set found = {render_flow sample_nodes sample_execution s (np, ep) | s np ep.
      s \<in> set [0] \<and> simple_walk sample_execution s (np, ep) \<and> length ep \<le> MAX_EXECUTION_FLOW_DEPTH \<and>
      (length ep = MAX_EXECUTION_FLOW_DEPTH \<or> (\<forall>(t, _)\<in>set (sample_execution ! last np). t \<in> set np))}"
proof -
  have "well_formed (targets sample_execution)" "set [0] \<subseteq> {..<length sample_execution}"
    by (simp_all add: well_formed_def targets_def sample_execution_def all_less_4)
  from execution_flows_exact [OF this, of sample_nodes] obtain found where found:
    "bounded_execution_flows sample_nodes sample_execution [0] =
      Some (take MAX_EXECUTION_FLOWS found, length found > MAX_EXECUTION_FLOWS)"
    "set found = {render_flow sample_nodes sample_execution s (np, ep) | s np ep.
      s \<in> set [0] \<and> simple_walk sample_execution s (np, ep) \<and> length ep \<le> MAX_EXECUTION_FLOW_DEPTH \<and>
      (length ep = MAX_EXECUTION_FLOW_DEPTH \<or> (\<forall>(t, _)\<in>set (sample_execution ! last np). t \<in> set np))}"
    by (elim exE conjE)
  have "length found = 1"
    using found(1) sample_flows unfolding sample_execution_def [symmetric]
    by (auto simp: MAX_EXECUTION_FLOWS_def min_def split: if_splits dest!: arg_cong [of _ _ length])
  then show ?thesis using found by (intro exI [of _ found] conjI)
qed

theorem analysis_articulation_exact_witness:
  "\<exists>(results :: StructuralGraphAlgorithmResults) linked. ar_articulation_node_ids results = [''b''] \<and>
    linked = (\<lambda>a b. trusted_link sample_nodes sample_edges (\<lambda>_. True) a b \<or>
      trusted_link sample_nodes sample_edges (\<lambda>_. True) b a) \<and>
    set (ar_articulation_node_ids results) = {a \<in> sn_id ` set sample_nodes. \<exists>b\<in>sn_id ` set sample_nodes. \<exists>c.
      b \<noteq> a \<and> c \<noteq> a \<and> linked\<^sup>*\<^sup>* b c \<and> \<not> (\<lambda>x y. linked x y \<and> x \<noteq> a \<and> y \<noteq> a)\<^sup>*\<^sup>* b c} \<and>
    sorted (ar_articulation_node_ids results) \<and> distinct (ar_articulation_node_ids results)"
proof -
  obtain policy coverage results where r:
    "analyze_trusted_algorithms sample_ops sample_nodes sample_edges sample_full False = Some (policy, coverage, results)"
    "ar_articulation_node_ids results = [''b'']"
    using sample_analysis by (elim exE conjE)
  show ?thesis
    by (rule exI [of _ results], rule exI, rule conjI [OF r(2)], rule conjI [OF refl],
        rule analysis_articulation_exact [OF r(1) sample_distinct refl])
qed

end
