(* ===== verification/Graph_Communities.thy ===== *)
theory Graph_Communities
  imports Graph_Analysis
begin

text \<open>
  The communities of \<open>structural_graph/analysis.rs\<close>: \<open>community_key\<close> seeds a label from the path of a
  node, \<open>assign_community_keys\<close> lets the labels spread over trusted edges for at most eight rounds, and
  \<open>analyze_graph\<close> writes the community of every node and collects hubs and bridges. The maps are
  partial functions, the counts of votes a list of votes, and the conversion of the score to \<open>f64\<close> is
  a parameter.
\<close>

section \<open>Seeds and labels\<close>

text \<open>The components of a path, as \<open>Path::components\<close> has them on Unix, without the current directory.\<close>

definition path_components :: "string \<Rightarrow> string list" where
  "path_components path =
     (if starts_with path [SLASH] then [[SLASH]] else []) @
     filter (\<lambda>s. s \<noteq> [] \<and> s \<noteq> ''.'') (split_units (\<lambda>u. u = [SLASH]) (map (\<lambda>c. [c]) path))"

definition community_key :: "StructuralGraphNode \<Rightarrow> string" where
  "community_key node =
     (case sn_path node of
        None \<Rightarrow> sn_kind node
      | Some path \<Rightarrow>
          (case take 2 (path_components path) of
             [] \<Rightarrow> ''root''
           | [first] \<Rightarrow> first
           | first # second # _ \<Rightarrow>
               if first \<in> set [''src'', ''lib'', ''app'', ''pages'', ''tests''] then first
               else first @ [SLASH] @ second))"

definition path_seed :: "StructuralGraphNode list \<Rightarrow> string \<rightharpoonup> string" where
  "path_seed nodes = map_of (rev (map (\<lambda>node. (sn_id node, community_key node)) nodes))"

text \<open>The neighbours of a node over edges with both ends known, in either direction, each once.\<close>

definition community_neighbors :: "StructuralGraphNode list \<Rightarrow> StructuralGraphEdge list \<Rightarrow> string \<Rightarrow> string list" where
  "community_neighbors nodes edges x =
     (let known = filter (\<lambda>e. se_from e \<in> sn_id ` set nodes \<and> se_to e \<in> sn_id ` set nodes) edges
      in remdups_adj (sort (concat (map (\<lambda>e.
           (if se_from e = x then [se_to e] else []) @ (if se_to e = x then [se_from e] else [])) known))))"

text \<open>The label with the most votes, of those the least: the maximum the code takes over its table.\<close>

definition better_label :: "string list \<Rightarrow> string \<Rightarrow> string \<Rightarrow> string" where
  "better_label votes best label =
     (if count_list votes label > count_list votes best \<or>
         count_list votes label = count_list votes best \<and> label < best then label else best)"

definition select_label :: "string \<Rightarrow> string list \<Rightarrow> string" where
  "select_label current votes = foldl (better_label votes) current votes"

definition label_votes ::
  "(string \<rightharpoonup> string) \<Rightarrow> (string \<Rightarrow> string list) \<Rightarrow> (string \<rightharpoonup> string) \<Rightarrow> string \<Rightarrow> string \<Rightarrow> string list" where
  "label_votes seed neighbors labels node_id current =
     [current, current] @ (case seed node_id of None \<Rightarrow> [] | Some s \<Rightarrow> [s]) @
     List.map_filter labels (neighbors node_id)"

definition label_selections ::
  "(string \<rightharpoonup> string) \<Rightarrow> (string \<Rightarrow> string list) \<Rightarrow> string list \<Rightarrow> (string \<rightharpoonup> string) \<Rightarrow> (string \<times> string) list" where
  "label_selections seed neighbors ordered_ids labels =
     List.map_filter (\<lambda>node_id.
       case labels node_id of
         None \<Rightarrow> None
       | Some current \<Rightarrow>
           (let selected = select_label current (label_votes seed neighbors labels node_id current)
            in if selected \<noteq> current then Some (node_id, selected) else None)) ordered_ids"

fun label_rounds ::
  "nat \<Rightarrow> (string \<rightharpoonup> string) \<Rightarrow> (string \<Rightarrow> string list) \<Rightarrow> string list \<Rightarrow> (string \<rightharpoonup> string) \<Rightarrow> string \<rightharpoonup> string" where
  "label_rounds 0 seed neighbors ordered_ids labels = labels"
| "label_rounds (Suc n) seed neighbors ordered_ids labels =
     (let selections = label_selections seed neighbors ordered_ids labels
      in if selections = [] then labels
         else label_rounds n seed neighbors ordered_ids (foldl (\<lambda>m (i, s). m(i \<mapsto> s)) labels selections))"

definition assign_community_keys :: "StructuralGraphNode list \<Rightarrow> StructuralGraphEdge list \<Rightarrow> string \<rightharpoonup> string" where
  "assign_community_keys nodes edges =
     label_rounds 8 (path_seed nodes) (community_neighbors nodes edges) (sort (map sn_id nodes)) (path_seed nodes)"

section \<open>Communities\<close>

definition trusted_degree :: "StructuralGraphEdge list \<Rightarrow> string \<Rightarrow> nat" where
  "trusted_degree trusted x = count_list (concat (map (\<lambda>e. [se_from e, se_to e]) trusted)) x"

text \<open>The ends of the edges between two communities that lie in the community \<open>key\<close>.\<close>

definition bridge_ends :: "(string \<rightharpoonup> string) \<Rightarrow> StructuralGraphEdge list \<Rightarrow> string \<Rightarrow> string list" where
  "bridge_ends keys trusted key =
     concat (map (\<lambda>e.
       case (keys (se_from e), keys (se_to e)) of
         (Some f, Some t) \<Rightarrow>
           if f \<noteq> t then (if f = key then [se_from e] else []) @ (if t = key then [se_to e] else []) else []
       | _ \<Rightarrow> []) trusted)"

definition key_of :: "(string \<rightharpoonup> string) \<Rightarrow> StructuralGraphNode \<Rightarrow> string" where
  "key_of keys node = (case keys (sn_id node) of None \<Rightarrow> ''root'' | Some key \<Rightarrow> key)"

definition build_community ::
  "(nat \<Rightarrow> f64) \<Rightarrow> (string \<rightharpoonup> string) \<Rightarrow> StructuralGraphEdge list \<Rightarrow> StructuralGraphNode list \<Rightarrow> string \<Rightarrow> StructuralGraphCommunity" where
  "build_community to_f64 keys trusted nodes key =
     (let members = sort (map sn_id (filter (\<lambda>node. key_of keys node = key) nodes));
          degree = trusted_degree trusted;
          ranked = sort_key (\<lambda>i. (- int (degree i), i)) members
      in \<lparr>cm_id = stable_graph_id ''community'' key, cm_label = key, cm_member_count = length members,
          cm_hub_node_ids = take 5 (filter (\<lambda>i. degree i > 0) ranked),
          cm_bridge_node_ids = sort (remdups (bridge_ends keys trusted key)),
          cm_score = to_f64 (sum_list (map degree members))\<rparr>)"

definition analyze_graph ::
  "(nat \<Rightarrow> f64) \<Rightarrow> StructuralGraphNode list \<Rightarrow> StructuralGraphEdge list
     \<Rightarrow> StructuralGraphNode list \<times> StructuralGraphCommunity list" where
  "analyze_graph to_f64 nodes edges =
     (let trusted = filter (\<lambda>e. is_algorithm_trusted (se_trust e)) edges;
          keys = assign_community_keys nodes trusted
      in (map (\<lambda>node. node\<lparr>sn_community_id := Some (stable_graph_id ''community'' (key_of keys node))\<rparr>) nodes,
          map (build_community to_f64 keys trusted nodes) (sort (remdups (map (key_of keys) nodes)))))"

section \<open>The labels are seeds\<close>

lemma better_label_in: "better_label votes b l \<in> {b, l}"
  by (simp add: better_label_def)

lemma select_label_in: "select_label current votes \<in> insert current (set votes)"
proof -
  have "foldl (better_label vs) b ls \<in> insert b (set ls)" for vs b ls
  proof (induction ls arbitrary: b)
    case (Cons l ls)
    have "better_label vs b l = b \<or> better_label vs b l = l" using better_label_in [of vs b l] by blast
    then show ?case using Cons [of b] Cons [of l] by auto
  qed simp
  then show ?thesis by (simp add: select_label_def)
qed

lemma label_selections_in:
  assumes "(i, s) \<in> set (label_selections seed neighbors ids labels)" "ran seed \<subseteq> K" "ran labels \<subseteq> K"
  shows "i \<in> dom labels" "s \<in> K"
proof -
  obtain current where c: "labels i = Some current" "s = select_label current (label_votes seed neighbors labels i current)"
    using assms(1) by (auto simp: label_selections_def List.map_filter_def Let_def split: option.splits if_splits)
  then show "i \<in> dom labels" by blast
  have "set (label_votes seed neighbors labels i current) \<subseteq> K"
    using c(1) subsetD [OF assms(2) ranI] subsetD [OF assms(3) ranI]
    by (auto simp: label_votes_def List.map_filter_def split: option.splits)
  moreover have "current \<in> K" using c(1) subsetD [OF assms(3) ranI] by blast
  ultimately show "s \<in> K"
    using c(2) select_label_in [of current "label_votes seed neighbors labels i current"] by auto
qed

lemma label_rounds_in:
  assumes "ran seed \<subseteq> K" "ran labels \<subseteq> K"
  shows "dom (label_rounds n seed neighbors ids labels) = dom labels \<and> ran (label_rounds n seed neighbors ids labels) \<subseteq> K"
  using assms(2)
proof (induction n arbitrary: labels)
  case (Suc n)
  have run: "dom (foldl (\<lambda>m (i, s). m(i \<mapsto> s)) m sel) = dom m \<union> fst ` set sel \<and>
      ran (foldl (\<lambda>m (i, s). m(i \<mapsto> s)) m sel) \<subseteq> ran m \<union> snd ` set sel" for m :: "string \<rightharpoonup> string" and sel
  proof (induction sel arbitrary: m)
    case (Cons x sel)
    obtain i s where x: "x = (i, s)" by (cases x)
    have "ran (m(i \<mapsto> s)) \<subseteq> insert s (ran m)" by (auto simp: ran_def)
    then have "ran (foldl (\<lambda>m (i, s). m(i \<mapsto> s)) (m(i \<mapsto> s)) sel) \<subseteq> insert s (ran m) \<union> snd ` set sel"
      using Cons [of "m(i \<mapsto> s)"] by blast
    moreover have "dom (foldl (\<lambda>m (i, s). m(i \<mapsto> s)) (m(i \<mapsto> s)) sel) = insert i (dom m) \<union> fst ` set sel"
      using Cons [of "m(i \<mapsto> s)"] by (simp only: dom_fun_upd) simp
    ultimately show ?case unfolding x foldl_Cons prod.case by auto
  qed simp
  let ?sel = "label_selections seed neighbors ids labels"
  have sub: "fst ` set ?sel \<subseteq> dom labels" "snd ` set ?sel \<subseteq> K"
    using label_selections_in [OF _ assms(1) Suc.prems] by fastforce+
  have "dom (foldl (\<lambda>m (i, s). m(i \<mapsto> s)) labels ?sel) = dom labels"
    unfolding conjunct1 [OF run] using sub(1) by (rule Un_absorb2)
  moreover have "ran (foldl (\<lambda>m (i, s). m(i \<mapsto> s)) labels ?sel) \<subseteq> K"
    by (rule subset_trans [OF conjunct2 [OF run] Un_least [OF Suc.prems sub(2)]])
  ultimately show ?case using Suc.IH Suc.prems by (simp add: Let_def)
qed simp

lemma community_keys_total:
  "dom (assign_community_keys nodes edges) = sn_id ` set nodes"
  "ran (assign_community_keys nodes edges) \<subseteq> community_key ` set nodes"
proof -
  have "ran (path_seed nodes) \<subseteq> community_key ` set nodes"
    by (auto simp: path_seed_def ran_def dest!: map_of_SomeD)
  moreover have "dom (path_seed nodes) = sn_id ` set nodes" by (simp add: path_seed_def dom_map_of_conv_image_fst image_image)
  ultimately show "dom (assign_community_keys nodes edges) = sn_id ` set nodes"
    "ran (assign_community_keys nodes edges) \<subseteq> community_key ` set nodes"
    using label_rounds_in [of "path_seed nodes"] unfolding assign_community_keys_def by metis+
qed

section \<open>The communities partition the nodes\<close>

lemma degree_pos: "trusted_degree trusted x > 0 \<longleftrightarrow> (\<exists>e\<in>set trusted. x = se_from e \<or> x = se_to e)"
  unfolding trusted_degree_def neq0_conv [symmetric] count_list_0_iff by auto

lemma sum_of_sorted: "sum_list (map (f :: string \<Rightarrow> nat) (sort xs)) = sum_list (map f xs)"
  by (metis mset_map mset_sort sum_mset_sum_list)

lemma community_simps [simp]:
  "cm_label (build_community to_f64 keys trusted nodes key) = key"
  "cm_id (build_community to_f64 keys trusted nodes key) = stable_graph_id ''community'' key"
  "cm_member_count (build_community to_f64 keys trusted nodes key) =
     length (filter (\<lambda>node. key_of keys node = key) nodes)"
  "cm_score (build_community to_f64 keys trusted nodes key) =
     to_f64 (sum_list (map (trusted_degree trusted) (map sn_id (filter (\<lambda>node. key_of keys node = key) nodes))))"
  "sorted (cm_bridge_node_ids (build_community to_f64 keys trusted nodes key))"
  "distinct (cm_bridge_node_ids (build_community to_f64 keys trusted nodes key))"
  by (simp_all add: build_community_def Let_def sum_of_sorted)

lemma bridge_iff:
  "x \<in> set (cm_bridge_node_ids (build_community to_f64 keys trusted nodes key)) \<longleftrightarrow>
     (\<exists>e\<in>set trusted. \<exists>f t. keys (se_from e) = Some f \<and> keys (se_to e) = Some t \<and> f \<noteq> t \<and>
        (f = key \<and> x = se_from e \<or> t = key \<and> x = se_to e))"
proof -
  have "x \<in> set (cm_bridge_node_ids (build_community to_f64 keys trusted nodes key)) \<longleftrightarrow>
      x \<in> set (bridge_ends keys trusted key)" by (simp add: build_community_def Let_def)
  also have "\<dots> \<longleftrightarrow> (\<exists>e\<in>set trusted. \<exists>f t. keys (se_from e) = Some f \<and> keys (se_to e) = Some t \<and> f \<noteq> t \<and>
        (f = key \<and> x = se_from e \<or> t = key \<and> x = se_to e))"
  proof -
    have "x \<in> set (case (keys (se_from e), keys (se_to e)) of
         (Some f, Some t) \<Rightarrow>
           if f \<noteq> t then (if f = key then [se_from e] else []) @ (if t = key then [se_to e] else []) else []
       | _ \<Rightarrow> []) \<longleftrightarrow> (\<exists>f t. keys (se_from e) = Some f \<and> keys (se_to e) = Some t \<and> f \<noteq> t \<and>
        (f = key \<and> x = se_from e \<or> t = key \<and> x = se_to e))" for e
      by (cases "keys (se_from e)"; cases "keys (se_to e)") auto
    then show ?thesis unfolding bridge_ends_def set_concat set_map by blast
  qed
  finally show ?thesis .
qed

lemma bridge_named:
  assumes "\<And>i f. keys i = Some f \<longleftrightarrow> i \<in> S \<and> key i = f"
  shows "(\<exists>e\<in>set trusted. \<exists>f t. keys (se_from e) = Some f \<and> keys (se_to e) = Some t \<and> f \<noteq> t \<and>
        (f = k \<and> x = se_from e \<or> t = k \<and> x = se_to e)) \<longleftrightarrow>
    x \<in> S \<and> key x = k \<and> (\<exists>e\<in>set trusted. \<exists>j\<in>S. key j \<noteq> key x \<and>
       (se_from e = x \<and> se_to e = j \<or> se_from e = j \<and> se_to e = x))"
proof -
  have "(\<exists>f t. keys (se_from e) = Some f \<and> keys (se_to e) = Some t \<and> f \<noteq> t \<and>
        (f = k \<and> x = se_from e \<or> t = k \<and> x = se_to e)) \<longleftrightarrow>
      x \<in> S \<and> key x = k \<and> (\<exists>j\<in>S. key j \<noteq> key x \<and>
       (se_from e = x \<and> se_to e = j \<or> se_from e = j \<and> se_to e = x))" for e
    by (cases "x = se_from e"; cases "x = se_to e") (auto simp: assms)
  then show ?thesis by blast
qed

text \<open>
  The declarative meaning of a ranking: the hubs are the first five members with a trusted edge when
  those with more ends of trusted edges, or as many and a smaller identifier, come first.
\<close>

definition ranks_before :: "StructuralGraphEdge list \<Rightarrow> string \<Rightarrow> string \<Rightarrow> bool" where
  "ranks_before trusted x y \<longleftrightarrow>
     trusted_degree trusted y < trusted_degree trusted x \<or> trusted_degree trusted y = trusted_degree trusted x \<and> x \<le> y"

definition top_five :: "(string \<Rightarrow> string \<Rightarrow> bool) \<Rightarrow> string list \<Rightarrow> string list \<Rightarrow> bool" where
  "top_five before candidates first \<longleftrightarrow>
     length first = min 5 (length candidates) \<and> mset first \<subseteq># mset candidates \<and> sorted_wrt before first \<and>
     (\<forall>x\<in>#mset first. \<forall>y\<in>#mset candidates - mset first. before x y)"

lemma take_five:
  assumes "sorted_wrt before r" "mset r = mset candidates"
  shows "top_five before candidates (take 5 r)"
proof -
  have m: "mset candidates = mset (take 5 r) + mset (drop 5 r)"
    unfolding assms(2) [symmetric] mset_append [symmetric] by simp
  have "sorted_wrt before (take 5 r @ drop 5 r)" using assms(1) by simp
  then have "\<forall>x\<in>set (take 5 r). \<forall>y\<in>set (drop 5 r). before x y" "sorted_wrt before (take 5 r)"
    unfolding sorted_wrt_append by blast+
  moreover have "length (take 5 r) = min 5 (length candidates)" using mset_eq_length [OF assms(2)] by simp
  ultimately show ?thesis by (simp add: top_five_def m)
qed

lemma hubs_ranked:
  "top_five (ranks_before trusted)
     (filter (\<lambda>i. 0 < trusted_degree trusted i) (map sn_id (filter (\<lambda>node. key_of keys node = key) nodes)))
     (cm_hub_node_ids (build_community to_f64 keys trusted nodes key))"
proof -
  let ?m = "sort (map sn_id (filter (\<lambda>node. key_of keys node = key) nodes))"
  let ?f = "\<lambda>i. (- int (trusted_degree trusted i), i)"
  let ?r = "filter (\<lambda>i. trusted_degree trusted i > 0) (sort_key ?f ?m)"
  have h: "cm_hub_node_ids (build_community to_f64 keys trusted nodes key) = take 5 ?r"
    by (simp add: build_community_def Let_def)
  have "sorted (map ?f ?r)" by (rule sorted_filter) simp
  then have "sorted_wrt (\<lambda>x y. ?f x \<le> ?f y) ?r" by (simp add: sorted_wrt_map)
  then have "sorted_wrt (ranks_before trusted) ?r"
    by (rule sorted_wrt_mono_rel [rotated]) (auto simp: less_eq_prod_def ranks_before_def)
  moreover have "mset ?r = mset (filter (\<lambda>i. 0 < trusted_degree trusted i) (map sn_id (filter (\<lambda>node. key_of keys node = key) nodes)))"
    by simp
  ultimately show ?thesis unfolding h by (rule take_five)
qed

lemma count_by_key:
  "distinct ks \<Longrightarrow> set (map k xs) \<subseteq> set ks \<Longrightarrow> sum_list (map (\<lambda>a. length (filter (\<lambda>x. k x = a) xs)) ks) = length xs"
proof (induction ks arbitrary: xs)
  case (Cons a ks)
  let ?r = "filter (\<lambda>x. k x \<noteq> a) xs"
  have same: "length (filter (\<lambda>x. k x = b) xs) = length (filter (\<lambda>x. k x = b) ?r)" if "b \<in> set ks" for b
  proof -
    have "b \<noteq> a" using Cons.prems(1) that by auto
    then show ?thesis by (simp add: filter_filter) (metis (mono_tags, lifting) filter_cong)
  qed
  have "sum_list (map (\<lambda>b. length (filter (\<lambda>x. k x = b) xs)) ks) = length ?r"
    using Cons.IH [of ?r] Cons.prems same by (auto simp: subset_iff cong: map_cong)
  then show ?case using sum_length_filter_compl [of "\<lambda>x. k x = a" xs] by simp
qed simp

text \<open>C27. The communities partition the nodes: the analysis changes nothing of a node but its community,
  every node is in the one community that carries its identifier, the member counts add up to the
  number of nodes and the labels are communities of some path of the snapshot. The hubs of a community
  are exactly the first five of its members that have a trusted edge, ranked by the number of their
  ends of trusted edges and then by identifier, its score is the sum of those numbers, and its bridges
  are exactly its ends, each once and in order, of the trusted edges that lead to another community.\<close>

theorem communities_partition:
  fixes nodes edges to_f64
  defines "trusted \<equiv> filter (\<lambda>e. is_algorithm_trusted (se_trust e)) edges"
    and "analyzed \<equiv> fst (analyze_graph to_f64 nodes edges)"
    and "communities \<equiv> snd (analyze_graph to_f64 nodes edges)"
  shows "(\<exists>key. map (\<lambda>node. node\<lparr>sn_community_id := None\<rparr>) analyzed = map (\<lambda>node. node\<lparr>sn_community_id := None\<rparr>) nodes \<and>
      map sn_community_id analyzed = map (\<lambda>i. Some (stable_graph_id ''community'' (key i))) (map sn_id nodes) \<and>
      (\<forall>c\<in>set communities. cm_id c = stable_graph_id ''community'' (cm_label c) \<and>
        cm_label c \<in> community_key ` set nodes \<and>
        cm_member_count c = length (filter (\<lambda>i. key i = cm_label c) (map sn_id nodes)) \<and>
        top_five (ranks_before trusted)
          (filter (\<lambda>i. key i = cm_label c \<and> 0 < trusted_degree trusted i) (map sn_id nodes)) (cm_hub_node_ids c) \<and>
        cm_score c = to_f64 (sum_list (map (trusted_degree trusted) (filter (\<lambda>i. key i = cm_label c) (map sn_id nodes)))) \<and>
        sorted (cm_bridge_node_ids c) \<and> distinct (cm_bridge_node_ids c) \<and>
        set (cm_bridge_node_ids c) = {i \<in> sn_id ` set nodes. key i = cm_label c \<and> (\<exists>e\<in>set trusted. \<exists>j\<in>sn_id ` set nodes.
          key j \<noteq> key i \<and> (se_from e = i \<and> se_to e = j \<or> se_from e = j \<and> se_to e = i))}) \<and>
      cm_label ` set communities = key ` sn_id ` set nodes) \<and>
    sorted (map cm_label communities) \<and> distinct (map cm_label communities) \<and>
    sum_list (map cm_member_count communities) = length nodes"
proof -
  let ?keys = "assign_community_keys nodes trusted"
  let ?key = "\<lambda>i. case ?keys i of None \<Rightarrow> ''root'' | Some k \<Rightarrow> k"
  let ?ks = "sort (remdups (map (key_of ?keys) nodes))"
  have an: "analyzed = map (\<lambda>node. node\<lparr>sn_community_id := Some (stable_graph_id ''community'' (key_of ?keys node))\<rparr>) nodes"
    and co: "communities = map (build_community to_f64 ?keys trusted nodes) ?ks"
    by (simp_all add: analyzed_def communities_def analyze_graph_def Let_def trusted_def)
  have kk: "key_of ?keys node = ?key (sn_id node)" for node by (simp add: key_of_def)
  have known: "\<exists>k\<in>community_key ` set nodes. ?keys i = Some k" if "i \<in> sn_id ` set nodes" for i
    using community_keys_total [of nodes trusted] that by (metis domD ranI subsetD)
  have unknown: "?keys i = Some k \<Longrightarrow> i \<in> sn_id ` set nodes" for i k
    using community_keys_total(1) [of nodes trusted] by blast
  have labels: "map cm_label communities = ?ks" unfolding co by (simp add: comp_def)
  have counts: "sum_list (map cm_member_count communities) = length nodes"
    unfolding co map_map comp_def community_simps by (rule count_by_key) simp_all
  have one: "cm_id c = stable_graph_id ''community'' (cm_label c) \<and> cm_label c \<in> community_key ` set nodes \<and>
        cm_member_count c = length (filter (\<lambda>i. ?key i = cm_label c) (map sn_id nodes)) \<and>
        top_five (ranks_before trusted)
          (filter (\<lambda>i. ?key i = cm_label c \<and> 0 < trusted_degree trusted i) (map sn_id nodes)) (cm_hub_node_ids c) \<and>
        cm_score c = to_f64 (sum_list (map (trusted_degree trusted) (filter (\<lambda>i. ?key i = cm_label c) (map sn_id nodes)))) \<and>
        sorted (cm_bridge_node_ids c) \<and> distinct (cm_bridge_node_ids c) \<and>
        set (cm_bridge_node_ids c) = {i \<in> sn_id ` set nodes. ?key i = cm_label c \<and> (\<exists>e\<in>set trusted. \<exists>j\<in>sn_id ` set nodes.
          ?key j \<noteq> ?key i \<and> (se_from e = i \<and> se_to e = j \<or> se_from e = j \<and> se_to e = i))}"
    if member: "c \<in> set communities" for c
  proof -
    obtain k where k: "k \<in> set ?ks" "c = build_community to_f64 ?keys trusted nodes k"
      using member unfolding co by auto
    then obtain node where "node \<in> set nodes" "k = key_of ?keys node" by auto
    then have c: "node \<in> set nodes" "c = build_community to_f64 ?keys trusted nodes (?key (sn_id node))"
      using k(2) by (simp_all add: kk)
    have "?key (sn_id node) \<in> community_key ` set nodes" using known [of "sn_id node"] c(1) by auto
    moreover have "x \<in> set (cm_bridge_node_ids c) \<longleftrightarrow> x \<in> sn_id ` set nodes \<and> ?key x = ?key (sn_id node) \<and>
        (\<exists>e\<in>set trusted. \<exists>j\<in>sn_id ` set nodes. ?key j \<noteq> ?key x \<and> (se_from e = x \<and> se_to e = j \<or> se_from e = j \<and> se_to e = x))" for x
      unfolding c(2) bridge_iff by (rule bridge_named) (use known unknown in fastforce)
    moreover have "top_five (ranks_before trusted)
        (filter (\<lambda>i. ?key i = ?key (sn_id node) \<and> 0 < trusted_degree trusted i) (map sn_id nodes)) (cm_hub_node_ids c)"
      using hubs_ranked [of trusted ?keys "?key (sn_id node)" nodes to_f64]
      unfolding c(2) by (simp add: filter_map comp_def kk conj_commute)
    ultimately show ?thesis unfolding c(2) community_simps kk by (auto simp: filter_map comp_def kk)
  qed
  have "map (\<lambda>node. node\<lparr>sn_community_id := None\<rparr>) analyzed = map (\<lambda>node. node\<lparr>sn_community_id := None\<rparr>) nodes"
    "map sn_community_id analyzed = map (\<lambda>i. Some (stable_graph_id ''community'' (?key i))) (map sn_id nodes)"
    unfolding an by (simp_all add: comp_def kk)
  moreover have "cm_label ` set communities = ?key ` sn_id ` set nodes"
    using labels by (metis (no_types, lifting) image_cong image_image kk list.set_map set_remdups set_sort)
  ultimately show ?thesis using one counts labels by (intro conjI exI [of _ ?key] ballI) (simp_all del: fun_upd_apply)
qed

definition sample_files :: "StructuralGraphNode list" where
  "sample_files = map (\<lambda>(i, path). \<lparr>sn_id = i, sn_kind = ''file'', sn_label = path, sn_qualified_name = None,
     sn_path = Some path, sn_detail = None, sn_language = None, sn_community_id = None,
     sn_trust = Trust_Extracted, sn_origin = Origin_Syntax, sn_sources = []\<rparr>)
     [(''a'', ''src/a.rs''), (''b'', ''docs/b/c.md'')]"

lemma sample_keys: "map community_key sample_files = [''src'', ''docs/b'']"
proof -
  have "path_components ''src/a.rs'' = [''src'', ''a.rs'']" "path_components ''docs/b/c.md'' = [''docs'', ''b'', ''c.md'']"
    by code_simp+
  then show ?thesis by (simp add: sample_files_def community_key_def SLASH_def)
qed

theorem communities_partition_witness:
  defines "communities \<equiv> snd (analyze_graph of_nat sample_files [])"
  shows "communities \<noteq> [] \<and> distinct (map cm_label communities) \<and> sum_list (map cm_member_count communities) = 2 \<and>
    (\<exists>c\<in>set communities. cm_label c \<in> {''src'', ''docs/b''} \<and> cm_bridge_node_ids c = [])"
proof -
  note all = communities_partition [of of_nat sample_files "[]"]
  have sum: "sum_list (map cm_member_count communities) = 2" and d: "distinct (map cm_label communities)"
    using all unfolding communities_def by (simp_all add: sample_files_def)
  have ne: "communities \<noteq> []" using sum by auto
  then obtain c where c: "c \<in> set communities" by (meson hd_in_set)
  then have "cm_label c \<in> community_key ` set sample_files" "set (cm_bridge_node_ids c) = {}"
    using all unfolding communities_def by (elim conjE exE, auto)+
  moreover have "community_key ` set sample_files = {''src'', ''docs/b''}"
    using sample_keys by (metis list.set_map list.simps(15) empty_set)
  ultimately show ?thesis using sum d ne c by auto
qed

end
