(* ===== verification/History_Delta.thy ===== *)
theory History_Delta
  imports Graph_Answers
begin

text \<open>
  The delta between two revisions of a repository (\<open>commands/history_graph/delta.rs\<close>): its record, the
  computation from two snapshots, the lineage of the entities across them, and the replay of a delta on
  its base. What the computation takes from outside (the equality of records that contain \<open>f64\<close>, the
  removals the history holds, the clock, the insertion) is the record \<open>delta_env\<close>. Proved: a delta whose
  lists were not cut rebuilds the later snapshot, and one whose lists were cut does not.
\<close>

section \<open>The delta between two snapshots\<close>

record HistoryPathChange =
  hp_path :: string
  hp_change_kind :: string
  hp_old_path :: "string option"
  hp_additions :: "nat option"
  hp_deletions :: "nat option"

record HistoryLineageEdge =
  le_id :: string
  le_from_entity_id :: string
  le_to_entity_id :: string
  le_relation :: string
  le_trust :: GraphTrust
  le_evidence :: string
  le_sources :: "GraphSourceAnchor list"
  le_candidates :: "string list"

record HistoryStructuralDelta =
  hd_schema_version :: int
  hd_materialization_version :: int
  hd_repo_path :: string
  hd_before_revision :: string
  hd_after_revision :: string
  hd_before_snapshot_id :: string
  hd_after_snapshot_id :: string
  hd_added_node_ids :: "string list"
  hd_removed_node_ids :: "string list"
  hd_changed_node_ids :: "string list"
  hd_added_edge_ids :: "string list"
  hd_removed_edge_ids :: "string list"
  hd_changed_edge_ids :: "string list"
  hd_added_community_ids :: "string list"
  hd_removed_community_ids :: "string list"
  hd_added_hub_ids :: "string list"
  hd_removed_hub_ids :: "string list"
  hd_added_bridge_ids :: "string list"
  hd_removed_bridge_ids :: "string list"
  hd_path_changes :: "HistoryPathChange list"
  hd_lineage :: "HistoryLineageEdge list"
  hd_coverage_gap :: "string option"
  hd_generated_at :: string
  hd_upsert_nodes :: "StructuralGraphNode list"
  hd_upsert_edges :: "StructuralGraphEdge list"
  hd_upsert_communities :: "StructuralGraphCommunity list"
  hd_upsert_files :: "StructuralGraphFileRecord list"
  hd_removed_file_paths :: "string list"
  hd_upsert_metrics :: "StructuralGraphMetricFact list"
  hd_removed_metric_ids :: "string list"
  hd_after_metric_order :: "string list"
  hd_upsert_clone_groups :: "StructuralCloneGroup list"
  hd_removed_clone_group_ids :: "string list"
  hd_after_clone_group_order :: "string list"
  hd_after_coverage :: StructuralGraphCoverage
  hd_after_diagnostics :: "StructuralGraphDiagnostic list"
  hd_after_cursor :: "string option"
  hd_after_ignore_fingerprint :: "string option"
  hd_after_truncated :: bool
  hd_after_created_at :: string

definition set_delta :: "string list \<Rightarrow> string list \<Rightarrow> string list \<times> string list" where
  "set_delta before after =
     (sort (remdups (filter (\<lambda>x. x \<notin> set before) after)), sort (remdups (filter (\<lambda>x. x \<notin> set after) before)))"

text \<open>The items of the later snapshot that the earlier one has not, or has otherwise.\<close>

definition upserts :: "('a \<Rightarrow> 'a \<Rightarrow> bool) \<Rightarrow> ('a \<Rightarrow> string) \<Rightarrow> 'a list \<Rightarrow> 'a list \<Rightarrow> 'a list" where
  "upserts same key before after =
     filter (\<lambda>x. case identity_map key before (key x) of None \<Rightarrow> True | Some y \<Rightarrow> \<not> same y x) after"

definition removed_keys_of :: "('a \<Rightarrow> string) \<Rightarrow> 'a list \<Rightarrow> 'a list \<Rightarrow> string list" where
  "removed_keys_of key before after = sort (filter (\<lambda>k. k \<notin> set (map key after)) (map key before))"

text \<open>
  What the computation takes from outside: the equality of metrics and of clone groups, which contain
  \<open>f64\<close> values, the prior removals the history holds of given identifiers, the clock and the insertion
  of a delta.
\<close>

record delta_env =
  de_same_metric :: "StructuralGraphMetricFact \<Rightarrow> StructuralGraphMetricFact \<Rightarrow> bool"
  de_same_clone_group :: "StructuralCloneGroup \<Rightarrow> StructuralCloneGroup \<Rightarrow> bool"
  de_prior_removals :: "string \<Rightarrow> string list \<Rightarrow> (string, string \<Rightarrow> HistoryLineageEdge option) result"
  de_now :: string
  de_persist :: "HistoryStructuralDelta \<Rightarrow> (string, unit) result"

section \<open>Lineage\<close>

definition lineage_relevant_change :: "StructuralGraphNode \<Rightarrow> StructuralGraphNode \<Rightarrow> bool" where
  "lineage_relevant_change source target \<longleftrightarrow>
     sn_label source \<noteq> sn_label target \<or> sn_qualified_name source \<noteq> sn_qualified_name target \<or>
     sn_path source \<noteq> sn_path target \<or> sn_kind source \<noteq> sn_kind target \<or> sn_detail source \<noteq> sn_detail target \<or>
     sn_language source \<noteq> sn_language target \<or>
     (case sn_sources source of [] \<Rightarrow> None | a # _ \<Rightarrow> an_excerpt a) \<noteq>
     (case sn_sources target of [] \<Rightarrow> None | a # _ \<Rightarrow> an_excerpt a)"

definition lineage_edge ::
  "StructuralGraphNode \<Rightarrow> StructuralGraphNode \<Rightarrow> string \<Rightarrow> GraphTrust \<Rightarrow> string \<Rightarrow> string list \<Rightarrow> HistoryLineageEdge" where
  "lineage_edge source target relation trust evidence candidates =
     \<lparr>le_id = stable_graph_id ''lineage'' (relation @ [CHR 0x00] @ sn_id source @ [CHR 0x00] @ sn_id target),
      le_from_entity_id = sn_id source, le_to_entity_id = sn_id target, le_relation = relation, le_trust = trust,
      le_evidence = evidence, le_sources = sn_sources source @ sn_sources target, le_candidates = candidates\<rparr>"

text \<open>The edges found so far and the entities they account for.\<close>

record lineage_state =
  ls_lineage :: "HistoryLineageEdge list"
  ls_matched_before :: "string list"
  ls_matched_after :: "string list"

definition same_as_edges :: "StructuralGraphNode list \<Rightarrow> StructuralGraphNode list \<Rightarrow> HistoryLineageEdge list" where
  "same_as_edges before after =
     List.map_filter (\<lambda>source.
       case identity_map sn_id after (sn_id source) of
         None \<Rightarrow> None
       | Some target \<Rightarrow>
           if lineage_relevant_change source target
           then Some (lineage_edge source target ''same_as'' Trust_Extracted
             ''Stable structural identity persists while entity attributes change'' [])
           else None) before"

definition move_source ::
  "HistoryPathChange \<Rightarrow> string \<Rightarrow> StructuralGraphNode list \<Rightarrow> lineage_state \<Rightarrow> StructuralGraphNode \<Rightarrow> lineage_state" where
  "move_source change old_path at_target st source =
     (case sort_key sn_id (filter (\<lambda>target. sn_kind target = sn_kind source \<and>
             (sn_label target = sn_label source \<or> sn_kind source = ''file'' \<and> sn_kind target = ''file'')) at_target) of
        [] \<Rightarrow> st
      | target # others \<Rightarrow>
          st\<lparr>ls_lineage := ls_lineage st @ [lineage_edge source target
               (if hp_change_kind change = ''renamed'' then ''moved_to'' else ''evolved_from'')
               (if others = [] then Trust_Extracted else Trust_Ambiguous)
               (''Git '' @ hp_change_kind change @ '' maps '' @ old_path @ '' to '' @ hp_path change @
                '' and structural kind/label remains compatible'') (map sn_id others)],
             ls_matched_before := sn_id source # ls_matched_before st,
             ls_matched_after := sn_id target # ls_matched_after st\<rparr>)"

definition move_change ::
  "StructuralGraphNode list \<Rightarrow> StructuralGraphNode list \<Rightarrow> lineage_state \<Rightarrow> HistoryPathChange \<Rightarrow> lineage_state" where
  "move_change before after st change =
     (case hp_old_path change of
        None \<Rightarrow> st
      | Some old_path \<Rightarrow>
          if hp_change_kind change \<noteq> ''renamed'' \<and> hp_change_kind change \<noteq> ''copied'' then st
          else foldl (move_source change old_path (filter (\<lambda>node. sn_path node = Some (hp_path change)) after)) st
                 (filter (\<lambda>node. sn_path node = Some old_path) before))"

definition start_line :: "StructuralGraphNode \<Rightarrow> 32 word option" where
  "start_line node = (case sn_sources node of [] \<Rightarrow> None | a # _ \<Rightarrow> an_start_line a)"

text \<open>A node of the later snapshot at the path, kind and line of an earlier one, not yet accounted for.\<close>

definition line_successor :: "string list \<Rightarrow> StructuralGraphNode \<Rightarrow> StructuralGraphNode \<Rightarrow> bool" where
  "line_successor matched_after source target \<longleftrightarrow>
     sn_id target \<notin> set matched_after \<and> sn_kind target = sn_kind source \<and> sn_path target = sn_path source \<and>
     start_line source \<noteq> None \<and> start_line target = start_line source"

text \<open>The removed sources of every target, in the order the targets are met.\<close>

definition merge_sources ::
  "string list \<Rightarrow> StructuralGraphNode list \<Rightarrow> StructuralGraphNode list \<Rightarrow> string \<Rightarrow> StructuralGraphNode list" where
  "merge_sources matched_after sources after target_id =
     concat (map (\<lambda>source. map (\<lambda>_. source)
       (filter (\<lambda>target. sn_id target = target_id \<and> line_successor matched_after source target) after)) sources)"

definition merge_target ::
  "StructuralGraphNode list \<Rightarrow> StructuralGraphNode list \<Rightarrow> lineage_state \<Rightarrow> string \<times> StructuralGraphNode list \<Rightarrow> lineage_state" where
  "merge_target before after st = (\<lambda>(target_id, found).
     if length found < 2 then st
     else (let sources = sort_key sn_id found
       in case identity_map sn_id after target_id of
            None \<Rightarrow> st
          | Some target \<Rightarrow>
              st\<lparr>ls_lineage := ls_lineage st @ map (\<lambda>source.
                   lineage_edge source target ''merged_from'' Trust_Ambiguous
                     ''Multiple removed entities share the successor's path, kind, and source line''
                     (map sn_id (filter (\<lambda>candidate. sn_id candidate \<noteq> sn_id source) sources))) sources,
                 ls_matched_before := map sn_id sources @ ls_matched_before st,
                 ls_matched_after := sn_id target # ls_matched_after st\<rparr>))"

definition follow_source :: "StructuralGraphNode list \<Rightarrow> lineage_state \<Rightarrow> StructuralGraphNode \<Rightarrow> lineage_state" where
  "follow_source after st source =
     (if sn_id source \<in> set (ls_matched_before st) then st
      else case sort_key sn_id (filter (line_successor (ls_matched_after st) source) after) of
             [] \<Rightarrow> st
           | [target] \<Rightarrow>
               st\<lparr>ls_lineage := ls_lineage st @ [lineage_edge source target
                    (if sn_label source = sn_label target then ''evolved_from'' else ''renamed_to'') Trust_Inferred
                    ''Same path, structural kind, and source line across adjacent revisions'' []],
                  ls_matched_before := sn_id source # ls_matched_before st,
                  ls_matched_after := sn_id target # ls_matched_after st\<rparr>
           | target # others \<Rightarrow>
               st\<lparr>ls_lineage := ls_lineage st @ [lineage_edge source target ''split_into'' Trust_Ambiguous
                    ''Multiple same-path structural candidates follow the removed entity'' (map sn_id others)],
                  ls_matched_before := sn_id source # ls_matched_before st\<rparr>)"

definition removal_edge :: "string \<Rightarrow> StructuralGraphNode \<Rightarrow> HistoryLineageEdge" where
  "removal_edge revision_entity source =
     \<lparr>le_id = stable_graph_id ''lineage'' (''removed_in'' @ [CHR 0x00] @ sn_id source @ [CHR 0x00] @ revision_entity),
      le_from_entity_id = sn_id source, le_to_entity_id = revision_entity, le_relation = ''removed_in'',
      le_trust = Trust_Extracted, le_evidence = ''Entity is absent from the exact next structural checkpoint'',
      le_sources = sn_sources source, le_candidates = []\<rparr>"

definition lost_sources ::
  "StructuralGraphNode list \<Rightarrow> StructuralGraphNode list \<Rightarrow> string list \<Rightarrow> StructuralGraphNode list" where
  "lost_sources before after matched =
     filter (\<lambda>node. sn_id node \<notin> sn_id ` set after \<and> sn_id node \<notin> set matched) before"

definition derive_lineage ::
  "StructuralGraphSnapshot \<Rightarrow> StructuralGraphSnapshot \<Rightarrow> HistoryPathChange list \<Rightarrow> string \<Rightarrow> HistoryLineageEdge list" where
  "derive_lineage before_snapshot after_snapshot path_changes after_revision =
     (let before = ss_nodes before_snapshot; after = ss_nodes after_snapshot;
          st = \<lparr>ls_lineage = same_as_edges before after, ls_matched_before = [], ls_matched_after = []\<rparr>;
          st = foldl (move_change before after) st path_changes;
          rename_sources = lost_sources before after (ls_matched_before st);
          targets = filter (\<lambda>i. merge_sources (ls_matched_after st) rename_sources after i \<noteq> [])
            (remdups (map sn_id after));
          st = foldl (merge_target before after) st
            (map (\<lambda>i. (i, merge_sources (ls_matched_after st) rename_sources after i)) targets);
          st = foldl (follow_source after) st rename_sources;
          removed = map (removal_edge (stable_graph_id ''revision'' after_revision))
            (lost_sources before after (ls_matched_before st))
      in sort_key le_id (ls_lineage st @ removed))"

definition reintroduction_edge :: "string \<Rightarrow> StructuralGraphNode \<Rightarrow> HistoryLineageEdge \<Rightarrow> HistoryLineageEdge" where
  "reintroduction_edge after_revision node removal =
     \<lparr>le_id = stable_graph_id ''lineage''
        (''reintroduced_in'' @ [CHR 0x00] @ sn_id node @ [CHR 0x00] @ after_revision),
      le_from_entity_id = sn_id node, le_to_entity_id = sn_id node, le_relation = ''reintroduced_in'',
      le_trust = Trust_Extracted,
      le_evidence = ''Entity returns after the prior removal event '' @ le_id removal,
      le_sources = sn_sources node, le_candidates = []\<rparr>"

definition derive_reintroductions ::
  "delta_env \<Rightarrow> string \<Rightarrow> StructuralGraphSnapshot \<Rightarrow> string list \<Rightarrow> string \<Rightarrow> (string, HistoryLineageEdge list) result" where
  "derive_reintroductions env repo_path after added_node_ids after_revision =
     (if added_node_ids = [] then Inr []
      else and_then (de_prior_removals env repo_path added_node_ids) (\<lambda>removals.
        Inr (List.map_filter (\<lambda>node.
          map_option (reintroduction_edge after_revision node) (removals (sn_id node)))
          (filter (\<lambda>node. sn_id node \<in> set added_node_ids) (ss_nodes after)))))"

section \<open>The whole delta\<close>

definition community_hubs :: "StructuralGraphSnapshot \<Rightarrow> string list" where
  "community_hubs snapshot = concat (map cm_hub_node_ids (ss_communities snapshot))"

definition community_bridges :: "StructuralGraphSnapshot \<Rightarrow> string list" where
  "community_bridges snapshot = concat (map cm_bridge_node_ids (ss_communities snapshot))"

definition structural_delta ::
  "delta_env \<Rightarrow> string \<Rightarrow> string \<Rightarrow> string \<Rightarrow> StructuralGraphSnapshot \<Rightarrow> StructuralGraphSnapshot
     \<Rightarrow> HistoryPathChange list \<Rightarrow> (string, HistoryStructuralDelta) result" where
  "structural_delta env repo_path before_revision after_revision before after path_changes =
     (let structural = diff_snapshots before after;
          communities = set_delta (map cm_id (ss_communities before)) (map cm_id (ss_communities after));
          hubs = set_delta (community_hubs before) (community_hubs after);
          bridges = set_delta (community_bridges before) (community_bridges after);
          lineage = derive_lineage before after path_changes after_revision;
          upsert_node_ids = gd_added_node_ids structural @ gd_changed_node_ids structural;
          upsert_edge_ids = gd_added_edge_ids structural @ gd_changed_edge_ids structural
      in and_then (derive_reintroductions env repo_path after (gd_added_node_ids structural) after_revision)
        (\<lambda>reintroductions. Inr
         \<lparr>hd_schema_version = 1, hd_materialization_version = 1, hd_repo_path = repo_path,
          hd_before_revision = before_revision, hd_after_revision = after_revision,
          hd_before_snapshot_id = ss_id before, hd_after_snapshot_id = ss_id after,
          hd_added_node_ids = gd_added_node_ids structural, hd_removed_node_ids = gd_removed_node_ids structural,
          hd_changed_node_ids = gd_changed_node_ids structural, hd_added_edge_ids = gd_added_edge_ids structural,
          hd_removed_edge_ids = gd_removed_edge_ids structural, hd_changed_edge_ids = gd_changed_edge_ids structural,
          hd_added_community_ids = fst communities, hd_removed_community_ids = snd communities,
          hd_added_hub_ids = fst hubs, hd_removed_hub_ids = snd hubs,
          hd_added_bridge_ids = fst bridges, hd_removed_bridge_ids = snd bridges,
          hd_path_changes = path_changes,
          hd_lineage = dedup_by le_id (sort_key le_id (lineage @ reintroductions)),
          hd_coverage_gap = (if ss_truncated before \<or> ss_truncated after
            then Some ''One or both structural checkpoints were bounded'' else None),
          hd_generated_at = de_now env,
          hd_upsert_nodes = filter (\<lambda>node. sn_id node \<in> set upsert_node_ids) (ss_nodes after),
          hd_upsert_edges = filter (\<lambda>edge. se_id edge \<in> set upsert_edge_ids) (ss_edges after),
          hd_upsert_communities = ss_communities after,
          hd_upsert_files = upserts (=) fr_path (ss_files before) (ss_files after),
          hd_removed_file_paths = removed_keys_of fr_path (ss_files before) (ss_files after),
          hd_upsert_metrics = upserts (de_same_metric env) mf_id (ss_metrics before) (ss_metrics after),
          hd_removed_metric_ids = removed_keys_of mf_id (ss_metrics before) (ss_metrics after),
          hd_after_metric_order = map mf_id (ss_metrics after),
          hd_upsert_clone_groups = upserts (de_same_clone_group env) cg_id (ss_clone_groups before) (ss_clone_groups after),
          hd_removed_clone_group_ids = removed_keys_of cg_id (ss_clone_groups before) (ss_clone_groups after),
          hd_after_clone_group_order = map cg_id (ss_clone_groups after),
          hd_after_coverage = ss_coverage after, hd_after_diagnostics = ss_diagnostics after,
          hd_after_cursor = ss_cursor after, hd_after_ignore_fingerprint = ss_ignore_fingerprint after,
          hd_after_truncated = ss_truncated after, hd_after_created_at = ss_created_at after\<rparr>))"

definition compute_and_persist_structural_delta_with_paths ::
  "delta_env \<Rightarrow> string \<Rightarrow> string \<Rightarrow> string \<Rightarrow> StructuralGraphSnapshot \<Rightarrow> StructuralGraphSnapshot
     \<Rightarrow> HistoryPathChange list \<Rightarrow> (string, HistoryStructuralDelta) result" where
  "compute_and_persist_structural_delta_with_paths env repo_path before_revision after_revision before after path_changes =
     and_then (structural_delta env repo_path before_revision after_revision before after path_changes)
       (\<lambda>delta. and_then (de_persist env delta) (\<lambda>_. Inr delta))"

section \<open>The replay of deltas\<close>

text \<open>Each list: what is removed or replaced goes, the upserts come, and the list is sorted again.\<close>

definition apply_list :: "('a \<Rightarrow> string) \<Rightarrow> string list \<Rightarrow> 'a list \<Rightarrow> 'a list \<Rightarrow> 'a list" where
  "apply_list key removed upsert items =
     filter (\<lambda>x. key x \<notin> set removed \<and> key x \<notin> key ` set upsert) items @ upsert"

definition order_index :: "string list \<Rightarrow> string \<Rightarrow> nat" where
  "order_index order k = (case map_of (rev (zip order [0..<length order])) k of None \<Rightarrow> usize_max | Some i \<Rightarrow> i)"

definition apply_structural_delta ::
  "StructuralGraphSnapshot \<Rightarrow> HistoryStructuralDelta \<Rightarrow> (string, StructuralGraphSnapshot) result" where
  "apply_structural_delta snapshot delta =
     (if ss_id snapshot \<noteq> hd_before_snapshot_id delta \<or> hd_materialization_version delta \<noteq> 1
      then Inl ''Structural delta is incompatible with its base checkpoint''
      else Inr (snapshot\<lparr>
        ss_nodes := sort_key sn_id (apply_list sn_id (hd_removed_node_ids delta) (hd_upsert_nodes delta) (ss_nodes snapshot)),
        ss_edges := sort_key se_id (apply_list se_id (hd_removed_edge_ids delta) (hd_upsert_edges delta) (ss_edges snapshot)),
        ss_files := sort_key fr_path (apply_list fr_path (hd_removed_file_paths delta) (hd_upsert_files delta) (ss_files snapshot)),
        ss_metrics := sort_key (order_index (hd_after_metric_order delta) \<circ> mf_id)
          (apply_list mf_id (hd_removed_metric_ids delta) (hd_upsert_metrics delta) (ss_metrics snapshot)),
        ss_clone_groups := sort_key (order_index (hd_after_clone_group_order delta) \<circ> cg_id)
          (apply_list cg_id (hd_removed_clone_group_ids delta) (hd_upsert_clone_groups delta) (ss_clone_groups snapshot)),
        ss_id := hd_after_snapshot_id delta, ss_repo_head := Some (hd_after_revision delta),
        ss_created_at := hd_after_created_at delta, ss_cursor := hd_after_cursor delta,
        ss_ignore_fingerprint := hd_after_ignore_fingerprint delta, ss_coverage := hd_after_coverage delta,
        ss_diagnostics := hd_after_diagnostics delta, ss_communities := hd_upsert_communities delta,
        ss_truncated := hd_after_truncated delta\<rparr>))"

section \<open>A delta rebuilds the later snapshot\<close>

lemma identity_map_iff:
  assumes "distinct (map key xs)"
  shows "identity_map key xs k = Some x \<longleftrightarrow> x \<in> set xs \<and> key x = k"
proof -
  have "distinct (map fst (rev (map (\<lambda>x. (key x, x)) xs)))" using assms by (simp add: rev_map [symmetric] comp_def)
  then show ?thesis unfolding identity_map_def by (auto simp: map_of_eq_Some_iff)
qed

lemma identity_map_None: "identity_map key xs k = None \<longleftrightarrow> k \<notin> key ` set xs"
  by (simp add: identity_map_def map_of_eq_None_iff image_image)

lemma identity_map_found: "identity_map key xs k = Some x \<Longrightarrow> x \<in> set xs \<and> key x = k"
  unfolding identity_map_def by (auto dest!: map_of_SomeD)

text \<open>When the removed keys and the upserts account for every difference, the list becomes the later one.\<close>

definition accounts_for ::
  "('a \<Rightarrow> string) \<Rightarrow> 'a list \<Rightarrow> 'a list \<Rightarrow> string list \<Rightarrow> 'a list \<Rightarrow> bool" where
  "accounts_for key before after removed upsert \<longleftrightarrow>
     set removed = key ` set before - key ` set after \<and>
     (\<exists>P. upsert = filter P after \<and> (\<forall>x\<in>set after. \<not> P x \<longrightarrow> x \<in> set before))"

lemma apply_list_rebuilds:
  assumes acc: "accounts_for key before after removed upsert"
    and d: "distinct (map key before)" "distinct (map key after)"
  shows "set (apply_list key removed upsert before) = set after"
    and "distinct (map key (apply_list key removed upsert before))"
proof -
  obtain P where P: "upsert = filter P after" "\<forall>x\<in>set after. \<not> P x \<longrightarrow> x \<in> set before"
    using acc by (auto simp: accounts_for_def)
  have rem: "set removed = key ` set before - key ` set after" using acc by (simp add: accounts_for_def)
  have ib: "x = y" if "x \<in> set before" "y \<in> set before" "key x = key y" for x y
    using d(1) that by (auto simp: distinct_map dest: inj_onD)
  have ia: "x = y" if "x \<in> set after" "y \<in> set after" "key x = key y" for x y
    using d(2) that by (auto simp: distinct_map dest: inj_onD)
  have kept: "x \<in> set before \<and> key x \<notin> set removed \<and> key x \<notin> key ` set upsert \<longleftrightarrow> x \<in> set after \<and> \<not> P x" for x
  proof
    assume x: "x \<in> set before \<and> key x \<notin> set removed \<and> key x \<notin> key ` set upsert"
    then have "key x \<in> key ` set after" using rem by auto
    then obtain y where y: "y \<in> set after" "key y = key x" by auto
    have "\<not> P y"
    proof
      assume "P y"
      then have "y \<in> set upsert" using y(1) P(1) by simp
      then have "key x \<in> key ` set upsert" using y(2) by (metis imageI)
      then show False using x by blast
    qed
    then have "y \<in> set before" using P(2) y(1) by blast
    then have "y = x" using ib x y(2) by blast
    then show "x \<in> set after \<and> \<not> P x" using y(1) \<open>\<not> P y\<close> by blast
  next
    assume x: "x \<in> set after \<and> \<not> P x"
    then have "key x \<notin> key ` set upsert" using ia P(1) by auto
    then show "x \<in> set before \<and> key x \<notin> set removed \<and> key x \<notin> key ` set upsert" using x P(2) rem by blast
  qed
  show "set (apply_list key removed upsert before) = set after"
    unfolding apply_list_def using kept P(1) by auto
  have "distinct (map key (filter Q before))" "distinct (map key upsert)" for Q
    using d P(1) by (simp_all add: distinct_map_filter)
  then show "distinct (map key (apply_list key removed upsert before))"
    unfolding apply_list_def by auto
qed

lemma distinct_singleton: "set xs = {x} \<Longrightarrow> distinct xs \<Longrightarrow> xs = [x]"
proof (cases xs)
  case (Cons y ys)
  assume "set xs = {x}" "distinct xs"
  then have "y = x" "x \<notin> set ys" "set ys \<subseteq> {x}" using Cons by auto
  then show ?thesis using Cons by (cases ys) auto
qed simp

lemma sort_key_unique:
  assumes "set xs = set ys" "distinct (map key xs)" "distinct (map key ys)"
    and "inj_on f (set ys)"
  shows "sort_key f xs = sort_key f ys"
proof (rule properties_for_sort_key)
  have "distinct xs" "distinct ys" using assms(2,3) by (simp_all add: distinct_map)
  then show "mset (sort_key f ys) = mset xs" using assms(1) by (simp add: set_eq_iff_mset_eq_distinct)
  show "sorted (map f (sort_key f ys))" by simp
  fix k assume k: "k \<in> set (sort_key f ys)"
  have one: "filter (\<lambda>x. f k = f x) zs = [k]" if "set zs = set ys" "distinct zs" for zs
  proof -
    have "set (filter (\<lambda>x. f k = f x) zs) = {k}"
      using that(1) k inj_onD [OF assms(4)] by auto
    moreover have "distinct (filter (\<lambda>x. f k = f x) zs)" using that(2) by simp
    ultimately show ?thesis by (rule distinct_singleton)
  qed
  show "filter (\<lambda>x. f k = f x) (sort_key f ys) = filter (\<lambda>x. f k = f x) xs"
    using one [of "sort_key f ys"] one [of xs] assms(1) \<open>distinct xs\<close> \<open>distinct ys\<close> by simp
qed

lemma rebuild_sorted:
  assumes "accounts_for key before after removed upsert" "distinct (map key before)" "distinct (map key after)"
  shows "sort_key key (apply_list key removed upsert before) = sort_key key after"
  using sort_key_unique [of "apply_list key removed upsert before" after key key] apply_list_rebuilds [OF assms] assms(3)
  by (simp add: distinct_map)

lemma order_index_nth: "distinct order \<Longrightarrow> i < length order \<Longrightarrow> order_index order (order ! i) = i"
proof -
  assume d: "distinct order" "i < length order"
  have "map_of (rev (zip order [0..<length order])) (order ! i) = Some i"
  proof (rule map_of_is_SomeI)
    show "distinct (map fst (rev (zip order [0..<length order])))" using d(1) by (simp add: rev_map [symmetric])
    show "(order ! i, i) \<in> set (rev (zip order [0..<length order]))" using d(2) by (auto simp: set_zip)
  qed
  then show ?thesis by (simp add: order_index_def)
qed

lemma rebuild_ordered:
  assumes "accounts_for key before after removed upsert" "distinct (map key before)" "distinct (map key after)"
  shows "sort_key (order_index (map key after) \<circ> key) (apply_list key removed upsert before) = after"
proof -
  let ?f = "order_index (map key after) \<circ> key"
  have at: "?f (after ! i) = i" if "i < length after" for i
    using order_index_nth [OF assms(3), of i] that by simp
  have "map ?f after = [0..<length after]" by (rule nth_equalityI) (use at in simp_all)
  then have sorted: "sorted (map ?f after)" and inj: "inj_on ?f (set after)"
    by (metis sorted_upt, metis distinct_map distinct_upt)
  have "sort_key ?f (apply_list key removed upsert before) = sort_key ?f after"
    using sort_key_unique [OF apply_list_rebuilds(1) [OF assms] apply_list_rebuilds(2) [OF assms] assms(3) inj] .
  also have "\<dots> = after" using sorted by (rule sort_key_id_if_sorted)
  finally show ?thesis .
qed

definition keyed_snapshot :: "StructuralGraphSnapshot \<Rightarrow> bool" where
  "keyed_snapshot s \<longleftrightarrow> distinct (map sn_id (ss_nodes s)) \<and> distinct (map se_id (ss_edges s)) \<and>
     distinct (map fr_path (ss_files s)) \<and> distinct (map mf_id (ss_metrics s)) \<and>
     distinct (map cg_id (ss_clone_groups s))"

text \<open>The lists of a snapshot in the order the replay leaves them in.\<close>

definition in_order :: "StructuralGraphSnapshot \<Rightarrow> StructuralGraphSnapshot" where
  "in_order s = s\<lparr>ss_nodes := sort_key sn_id (ss_nodes s), ss_edges := sort_key se_id (ss_edges s),
     ss_files := sort_key fr_path (ss_files s)\<rparr>"

text \<open>What the replay takes from the earlier snapshot.\<close>

definition same_frame :: "StructuralGraphSnapshot \<Rightarrow> StructuralGraphSnapshot \<Rightarrow> bool" where
  "same_frame before after \<longleftrightarrow> ss_schema_version before = ss_schema_version after \<and>
     ss_repo_path before = ss_repo_path after \<and> ss_engine before = ss_engine after"

text \<open>Equal metrics and clone groups of the two snapshots are the same: no signed zero meets a zero.\<close>

definition exact_equality :: "delta_env \<Rightarrow> StructuralGraphSnapshot \<Rightarrow> StructuralGraphSnapshot \<Rightarrow> bool" where
  "exact_equality env before after \<longleftrightarrow>
     (\<forall>x\<in>set (ss_metrics before). \<forall>y\<in>set (ss_metrics after). de_same_metric env x y \<longrightarrow> x = y) \<and>
     (\<forall>x\<in>set (ss_clone_groups before). \<forall>y\<in>set (ss_clone_groups after). de_same_clone_group env x y \<longrightarrow> x = y)"

lemma upserts_account:
  assumes "distinct (map key before)" "\<forall>x\<in>set before. \<forall>y\<in>set after. same x y \<longrightarrow> x = y"
  shows "accounts_for key before after (removed_keys_of key before after) (upserts same key before after)"
  unfolding accounts_for_def
proof (intro conjI exI ballI impI)
  show "set (removed_keys_of key before after) = key ` set before - key ` set after"
    by (auto simp: removed_keys_of_def)
  show "upserts same key before after =
      filter (\<lambda>x. case identity_map key before (key x) of None \<Rightarrow> True | Some y \<Rightarrow> \<not> same y x) after"
    by (simp add: upserts_def)
  fix x assume x: "x \<in> set after" "\<not> (case identity_map key before (key x) of None \<Rightarrow> True | Some y \<Rightarrow> \<not> same y x)"
  then obtain y where "identity_map key before (key x) = Some y" "same y x" by (auto split: option.splits)
  then show "x \<in> set before" using identity_map_iff [OF assms(1)] assms(2) x(1) by blast
qed

lemma diff_account:
  assumes d: "distinct (map key before)" "distinct (map key after)"
    and diff: "diff_identity_maps key before after = (added, removed, changed)"
  shows "accounts_for key before after removed (filter (\<lambda>x. key x \<in> set (added @ changed)) after)"
  unfolding accounts_for_def
proof (intro conjI exI ballI impI)
  have parts: "added = sort (filter (\<lambda>k. identity_map key before k = None) (remdups (map key after)))"
    "removed = sort (filter (\<lambda>k. identity_map key after k = None) (remdups (map key before)))"
    "changed = sort (filter (\<lambda>k. identity_map key before k \<noteq> None \<and> identity_map key before k \<noteq> identity_map key after k)
      (remdups (map key after)))"
    using diff unfolding diff_identity_maps_def Let_def by simp_all
  have sets: "set added = key ` set after - key ` set before" "set removed = key ` set before - key ` set after"
    "set changed = {k \<in> key ` set after. identity_map key before k \<noteq> None \<and> identity_map key before k \<noteq> identity_map key after k}"
    unfolding parts set_sort set_filter set_remdups set_map by (simp_all only: identity_map_None) blast+
  show "set removed = key ` set before - key ` set after" by (rule sets)
  show "filter (\<lambda>x. key x \<in> set (added @ changed)) after = filter (\<lambda>x. key x \<in> set (added @ changed)) after" ..
  fix x assume x: "x \<in> set after" "\<not> key x \<in> set (added @ changed)"
  have "key x \<in> key ` set before" using x sets(1) by auto
  then have "identity_map key before (key x) \<noteq> None" by (simp add: identity_map_None)
  moreover have "identity_map key after (key x) = Some x" using identity_map_iff [OF d(2)] x(1) by blast
  ultimately have "identity_map key before (key x) = Some x" using x sets(3) by auto
  then show "x \<in> set before" using identity_map_iff [OF d(1)] by blast
qed

lemma structural_delta_Inr:
  assumes "structural_delta env repo_path before_revision after_revision before after changes = Inr delta"
    and "\<not> gd_truncated (diff_snapshots before after)"
  obtains an rn cn ae re ce where
    "diff_identity_maps sn_id (ss_nodes before) (ss_nodes after) = (an, rn, cn)"
    "diff_identity_maps se_id (ss_edges before) (ss_edges after) = (ae, re, ce)"
    "hd_removed_node_ids delta = rn" "hd_upsert_nodes delta = filter (\<lambda>x. sn_id x \<in> set (an @ cn)) (ss_nodes after)"
    "hd_removed_edge_ids delta = re" "hd_upsert_edges delta = filter (\<lambda>x. se_id x \<in> set (ae @ ce)) (ss_edges after)"
proof -
  obtain an rn cn where n: "diff_identity_maps sn_id (ss_nodes before) (ss_nodes after) = (an, rn, cn)"
    by (cases "diff_identity_maps sn_id (ss_nodes before) (ss_nodes after)")
  obtain ae re ce where e: "diff_identity_maps se_id (ss_edges before) (ss_edges after) = (ae, re, ce)"
    by (cases "diff_identity_maps se_id (ss_edges before) (ss_edges after)")
  have few: "length an \<le> MAX_DIFF_IDS" "length rn \<le> MAX_DIFF_IDS" "length cn \<le> MAX_DIFF_IDS"
    "length ae \<le> MAX_DIFF_IDS" "length re \<le> MAX_DIFF_IDS" "length ce \<le> MAX_DIFF_IDS"
    using assms(2) by (simp_all add: diff_snapshots_def n e not_less)
  show ?thesis
    by (rule that [OF n e])
      (use assms(1) few in \<open>auto simp: structural_delta_def Let_def and_then_Inr_iff diff_snapshots_def n e\<close>)
qed

lemma structural_delta_replayed:
  assumes "structural_delta env repo_path before_revision after_revision before after changes = Inr delta"
    and "keyed_snapshot before" "keyed_snapshot after" "same_frame before after" "exact_equality env before after"
    and "ss_repo_head after = Some after_revision" and "\<not> gd_truncated (diff_snapshots before after)"
  shows "apply_structural_delta before delta = Inr (in_order after)"
proof -
  obtain an rn cn ae re ce where d: "diff_identity_maps sn_id (ss_nodes before) (ss_nodes after) = (an, rn, cn)"
    "diff_identity_maps se_id (ss_edges before) (ss_edges after) = (ae, re, ce)"
    "hd_removed_node_ids delta = rn" "hd_upsert_nodes delta = filter (\<lambda>x. sn_id x \<in> set (an @ cn)) (ss_nodes after)"
    "hd_removed_edge_ids delta = re" "hd_upsert_edges delta = filter (\<lambda>x. se_id x \<in> set (ae @ ce)) (ss_edges after)"
    by (rule structural_delta_Inr [OF assms(1,7)])
  have k: "distinct (map sn_id (ss_nodes before))" "distinct (map sn_id (ss_nodes after))"
    "distinct (map se_id (ss_edges before))" "distinct (map se_id (ss_edges after))"
    "distinct (map fr_path (ss_files before))" "distinct (map fr_path (ss_files after))"
    "distinct (map mf_id (ss_metrics before))" "distinct (map mf_id (ss_metrics after))"
    "distinct (map cg_id (ss_clone_groups before))" "distinct (map cg_id (ss_clone_groups after))"
    using assms(2,3) by (simp_all add: keyed_snapshot_def)
  have nodes: "sort_key sn_id (apply_list sn_id (hd_removed_node_ids delta) (hd_upsert_nodes delta) (ss_nodes before)) =
      sort_key sn_id (ss_nodes after)"
    unfolding d(3,4) by (rule rebuild_sorted [OF diff_account [OF k(1,2) d(1)] k(1,2)])
  have edges: "sort_key se_id (apply_list se_id (hd_removed_edge_ids delta) (hd_upsert_edges delta) (ss_edges before)) =
      sort_key se_id (ss_edges after)"
    unfolding d(5,6) by (rule rebuild_sorted [OF diff_account [OF k(3,4) d(2)] k(3,4)])
  have files: "sort_key fr_path (apply_list fr_path (removed_keys_of fr_path (ss_files before) (ss_files after))
      (upserts (=) fr_path (ss_files before) (ss_files after)) (ss_files before)) = sort_key fr_path (ss_files after)"
    by (rule rebuild_sorted [OF upserts_account [OF k(5)] k(5,6)]) simp
  have metrics: "sort_key (order_index (map mf_id (ss_metrics after)) \<circ> mf_id)
      (apply_list mf_id (removed_keys_of mf_id (ss_metrics before) (ss_metrics after))
        (upserts (de_same_metric env) mf_id (ss_metrics before) (ss_metrics after)) (ss_metrics before)) = ss_metrics after"
    by (rule rebuild_ordered [OF upserts_account [OF k(7)] k(7,8)]) (use assms(5) in \<open>simp add: exact_equality_def\<close>)
  have clones: "sort_key (order_index (map cg_id (ss_clone_groups after)) \<circ> cg_id)
      (apply_list cg_id (removed_keys_of cg_id (ss_clone_groups before) (ss_clone_groups after))
        (upserts (de_same_clone_group env) cg_id (ss_clone_groups before) (ss_clone_groups after)) (ss_clone_groups before)) =
      ss_clone_groups after"
    by (rule rebuild_ordered [OF upserts_account [OF k(9)] k(9,10)]) (use assms(5) in \<open>simp add: exact_equality_def\<close>)
  have fields: "hd_before_snapshot_id delta = ss_id before" "hd_materialization_version delta = 1"
    "hd_upsert_files delta = upserts (=) fr_path (ss_files before) (ss_files after)"
    "hd_removed_file_paths delta = removed_keys_of fr_path (ss_files before) (ss_files after)"
    "hd_upsert_metrics delta = upserts (de_same_metric env) mf_id (ss_metrics before) (ss_metrics after)"
    "hd_removed_metric_ids delta = removed_keys_of mf_id (ss_metrics before) (ss_metrics after)"
    "hd_after_metric_order delta = map mf_id (ss_metrics after)"
    "hd_upsert_clone_groups delta = upserts (de_same_clone_group env) cg_id (ss_clone_groups before) (ss_clone_groups after)"
    "hd_removed_clone_group_ids delta = removed_keys_of cg_id (ss_clone_groups before) (ss_clone_groups after)"
    "hd_after_clone_group_order delta = map cg_id (ss_clone_groups after)"
    "hd_after_snapshot_id delta = ss_id after" "hd_after_revision delta = after_revision"
    "hd_after_created_at delta = ss_created_at after" "hd_after_cursor delta = ss_cursor after"
    "hd_after_ignore_fingerprint delta = ss_ignore_fingerprint after" "hd_after_coverage delta = ss_coverage after"
    "hd_after_diagnostics delta = ss_diagnostics after" "hd_upsert_communities delta = ss_communities after"
    "hd_after_truncated delta = ss_truncated after"
    using assms(1) by (auto simp: structural_delta_def Let_def and_then_Inr_iff)
  show ?thesis
    unfolding apply_structural_delta_def nodes edges
    unfolding fields unfolding files metrics clones
    using assms(4,6) by (simp add: same_frame_def in_order_def)
qed

text \<open>C28. A delta and its base determine the later snapshot: replaying the stored delta of two snapshots on
  the earlier one gives exactly the later one, in the order of the keys, as long as no list of the
  difference was cut at five hundred identifiers.\<close>

theorem delta_round_trip:
  assumes "structural_delta env repo_path before_revision after_revision before after changes = Inr delta"
    and "keyed_snapshot before" "keyed_snapshot after" "same_frame before after" "exact_equality env before after"
    and "ss_repo_head after = Some after_revision" and "\<not> gd_truncated (diff_snapshots before after)"
  shows "apply_structural_delta before delta = Inr (in_order after)"
  by (rule structural_delta_replayed [OF assms])

section \<open>A cut difference loses nodes\<close>

text \<open>A large change is not recorded: when a revision adds more than five hundred nodes, its delta holds
  only five hundred of their identifiers, and the replay, which reports no error, lacks a node of the
  later snapshot.\<close>

theorem large_delta_loses_nodes:
  assumes "structural_delta env repo_path before_revision after_revision before after changes = Inr delta"
    and "keyed_snapshot before" "keyed_snapshot after"
    and "length (filter (\<lambda>node. sn_id node \<notin> sn_id ` set (ss_nodes before)) (ss_nodes after)) > MAX_DIFF_IDS"
  shows "\<exists>rebuilt. apply_structural_delta before delta = Inr rebuilt \<and>
    (\<exists>node\<in>set (ss_nodes after). node \<notin> set (ss_nodes rebuilt))"
proof -
  let ?new = "filter (\<lambda>node. sn_id node \<notin> sn_id ` set (ss_nodes before)) (ss_nodes after)"
  obtain an rn cn where n: "diff_identity_maps sn_id (ss_nodes before) (ss_nodes after) = (an, rn, cn)"
    by (cases "diff_identity_maps sn_id (ss_nodes before) (ss_nodes after)")
  have an: "an = sort (filter (\<lambda>k. k \<notin> sn_id ` set (ss_nodes before)) (map sn_id (ss_nodes after)))"
    and cn: "set cn \<subseteq> sn_id ` set (ss_nodes before)"
    using n assms(3) unfolding diff_identity_maps_def Let_def
    by (auto simp: keyed_snapshot_def identity_map_None distinct_remdups_id)
  have d: "distinct an" using assms(3) unfolding an keyed_snapshot_def by simp
  have len: "length an > MAX_DIFF_IDS"
    using assms(4) unfolding an by (simp add: filter_map comp_def)
  let ?k = "an ! MAX_DIFF_IDS"
  have k: "?k \<in> set an" "?k \<notin> set (take MAX_DIFF_IDS an)"
    using len d by (auto simp: in_set_conv_nth nth_eq_iff_index_eq)
  then obtain node where node: "node \<in> set (ss_nodes after)" "sn_id node = ?k" "?k \<notin> sn_id ` set (ss_nodes before)"
    unfolding an by auto
  have fields: "hd_before_snapshot_id delta = ss_id before" "hd_materialization_version delta = 1"
    "hd_upsert_nodes delta = filter (\<lambda>x. sn_id x \<in> set (take MAX_DIFF_IDS an @ take MAX_DIFF_IDS cn)) (ss_nodes after)"
    using assms(1) by (auto simp: structural_delta_def Let_def and_then_Inr_iff diff_snapshots_def n split: prod.splits)
  have "?k \<notin> set (take MAX_DIFF_IDS cn)" using cn node(3) set_take_subset [of MAX_DIFF_IDS cn] by blast
  then have lost: "node \<notin> set (hd_upsert_nodes delta)" using k(2) node(2) unfolding fields(3) by simp
  have old: "node \<notin> set (ss_nodes before)" using node(2,3) by (metis imageI)
  obtain rebuilt where r: "apply_structural_delta before delta = Inr rebuilt"
    using fields(1,2) by (simp add: apply_structural_delta_def)
  have "set (ss_nodes rebuilt) \<subseteq> set (ss_nodes before) \<union> set (hd_upsert_nodes delta)"
    using r fields(1,2) by (auto simp: apply_structural_delta_def apply_list_def)
  then show ?thesis using r node(1) lost old by blast
qed

section \<open>Samples\<close>

definition sample_delta_env :: delta_env where
  "sample_delta_env = \<lparr>de_same_metric = (=), de_same_clone_group = (=), de_prior_removals = (\<lambda>_ _. Inr (\<lambda>_. None)),
     de_now = ''t'', de_persist = (\<lambda>_. Inr ())\<rparr>"

text \<open>A revision whose snapshot holds one node, named after the revision.\<close>

definition sample_truth :: "string \<Rightarrow> StructuralGraphSnapshot" where
  "sample_truth sha = (sample_snapshot_of [sample_graph_node sha] [])\<lparr>ss_id := sha, ss_repo_head := Some sha\<rparr>"

lemma sample_truth_simps [simp]:
  "ss_nodes (sample_truth sha) = [sample_graph_node sha]" "ss_edges (sample_truth sha) = []"
  "ss_id (sample_truth sha) = sha" "ss_repo_head (sample_truth sha) = Some sha"
  "ss_files (sample_truth sha) = []" "ss_metrics (sample_truth sha) = []" "ss_clone_groups (sample_truth sha) = []"
  by (simp_all add: sample_truth_def sample_snapshot_of_def)

lemma sample_delta_exists: "\<exists>delta. structural_delta sample_delta_env repo a b before after changes = Inr delta"
  by (simp add: structural_delta_def derive_reintroductions_def sample_delta_env_def Let_def)

lemma sample_truth_conditions:
  "keyed_snapshot (sample_truth sha)" "in_order (sample_truth sha) = sample_truth sha"
  "same_frame (sample_truth a) (sample_truth b)" "exact_equality sample_delta_env (sample_truth a) (sample_truth b)"
  by (simp_all add: keyed_snapshot_def in_order_def same_frame_def exact_equality_def sample_truth_def sample_snapshot_of_def)

lemma diff_identity_maps_short:
  assumes "diff_identity_maps key xs ys = (added, removed, changed)" "length xs \<le> n" "length ys \<le> n"
  shows "length added \<le> n" "length removed \<le> n" "length changed \<le> n"
proof -
  have "length (filter P (remdups (map key zs))) \<le> length zs" for P and zs :: "'a list"
    by (metis length_filter_le length_map length_remdups_leq order_trans)
  note short = order_trans [OF this]
  show "length added \<le> n" "length removed \<le> n" "length changed \<le> n"
    using assms(1) short [OF assms(2)] short [OF assms(3)] unfolding diff_identity_maps_def Let_def by auto
qed

lemma diff_snapshots_short:
  assumes "length (ss_nodes a) \<le> MAX_DIFF_IDS" "length (ss_nodes b) \<le> MAX_DIFF_IDS"
    "length (ss_edges a) \<le> MAX_DIFF_IDS" "length (ss_edges b) \<le> MAX_DIFF_IDS"
  shows "\<not> gd_truncated (diff_snapshots a b)"
proof -
  obtain an rn cn where n: "diff_identity_maps sn_id (ss_nodes a) (ss_nodes b) = (an, rn, cn)"
    by (cases "diff_identity_maps sn_id (ss_nodes a) (ss_nodes b)")
  obtain ae re ce where e: "diff_identity_maps se_id (ss_edges a) (ss_edges b) = (ae, re, ce)"
    by (cases "diff_identity_maps se_id (ss_edges a) (ss_edges b)")
  show ?thesis
    using diff_identity_maps_short [OF n assms(1,2)] diff_identity_maps_short [OF e assms(3,4)]
    by (simp add: diff_snapshots_def n e not_less)
qed

lemma sample_not_truncated: "\<not> gd_truncated (diff_snapshots (sample_truth a) (sample_truth b))"
  by (rule diff_snapshots_short) (simp_all add: MAX_DIFF_IDS_def)

theorem delta_round_trip_witness:
  "\<exists>delta. structural_delta sample_delta_env ''/r'' ''a'' ''b'' (sample_truth ''a'') (sample_truth ''b'') [] = Inr delta \<and>
     apply_structural_delta (sample_truth ''a'') delta = Inr (in_order (sample_truth ''b''))"
proof -
  obtain delta where d: "structural_delta sample_delta_env ''/r'' ''a'' ''b'' (sample_truth ''a'') (sample_truth ''b'') [] =
    Inr delta" using sample_delta_exists by blast
  show ?thesis
    using delta_round_trip [OF d sample_truth_conditions(1,1,3,4) _ sample_not_truncated] d by simp
qed

definition sample_large :: StructuralGraphSnapshot where
  "sample_large = sample_snapshot_of (map (\<lambda>n. sample_graph_node (replicate n CHR ''a'')) [0..<501]) []"

lemma sample_large_nodes: "ss_nodes sample_large = map (\<lambda>n. sample_graph_node (replicate n CHR ''a'')) [0..<501]"
  by (simp only: sample_large_def sample_snapshot_simps)

lemma sample_large_keyed: "keyed_snapshot sample_large"
proof -
  have "inj_on (\<lambda>n. replicate n CHR ''a'') (set [0..<501])" by (rule inj_onI) (metis length_replicate)
  then have "distinct (map sn_id (ss_nodes sample_large))"
    unfolding sample_large_nodes map_map comp_def sample_node_id distinct_map by (simp only: distinct_upt)
  then show ?thesis
    by (simp only: keyed_snapshot_def) (simp only: sample_large_def, simp add: sample_snapshot_of_def)
qed

theorem large_delta_loses_nodes_witness:
  "\<exists>delta rebuilt. structural_delta sample_delta_env ''/r'' ''a'' ''b'' (sample_snapshot_of [] []) sample_large [] = Inr delta \<and>
     apply_structural_delta (sample_snapshot_of [] []) delta = Inr rebuilt \<and>
     (\<exists>node\<in>set (ss_nodes sample_large). node \<notin> set (ss_nodes rebuilt))"
proof -
  obtain delta where d: "structural_delta sample_delta_env ''/r'' ''a'' ''b'' (sample_snapshot_of [] []) sample_large [] =
    Inr delta" using sample_delta_exists by blast
  have e: "keyed_snapshot (sample_snapshot_of [] [])" by (simp add: keyed_snapshot_def sample_snapshot_of_def)
  have len: "length (filter (\<lambda>node. sn_id node \<notin> sn_id ` set (ss_nodes (sample_snapshot_of [] []))) (ss_nodes sample_large)) > MAX_DIFF_IDS"
    unfolding sample_large_nodes by (simp del: upt_conv_Cons add: MAX_DIFF_IDS_def)
  show ?thesis using large_delta_loses_nodes [OF d e sample_large_keyed len] d by blast
qed

end
