(* ===== verification/History_Lineage.thy ===== *)
theory History_Lineage
  imports History_Delta
begin

text \<open>
  What \<open>derive_lineage\<close> of \<open>History_Delta\<close> accounts for. The invariant \<open>lineage_ok\<close> holds after every step:
  the moves, the merges and the line successors each add edges from earlier entities and mark them.
\<close>

section \<open>What the lineage accounts for\<close>

text \<open>The edges found so far lead from the earlier to the later snapshot, an edge from an entity that is gone
  has its source marked, and every marked entity has an edge.\<close>

definition lineage_ok :: "StructuralGraphNode list \<Rightarrow> StructuralGraphNode list \<Rightarrow> lineage_state \<Rightarrow> bool" where
  "lineage_ok before after st \<longleftrightarrow>
     (\<forall>e\<in>set (ls_lineage st). le_relation e \<noteq> ''removed_in'' \<and> le_from_entity_id e \<in> sn_id ` set before \<and>
        le_to_entity_id e \<in> sn_id ` set after \<and>
        (le_from_entity_id e \<in> sn_id ` set after \<or> le_from_entity_id e \<in> set (ls_matched_before st))) \<and>
     set (ls_matched_before st) \<subseteq> le_from_entity_id ` set (ls_lineage st)"

lemma foldl_invariant:
  "P s \<Longrightarrow> (\<And>s x. P s \<Longrightarrow> x \<in> set xs \<Longrightarrow> P (f s x)) \<Longrightarrow> P (foldl f s xs)"
  by (induction xs arbitrary: s) auto

text \<open>Adding edges from one or several earlier entities and marking them keeps the account.\<close>

lemma lineage_ok_extend:
  assumes "lineage_ok before after st" "set sources \<subseteq> set before" "target \<in> set after"
    and "ls_lineage st' = ls_lineage st @ edges"
    and "set (ls_matched_before st') = sn_id ` set sources \<union> set (ls_matched_before st)"
    and "map le_from_entity_id edges = map sn_id sources"
    and "\<forall>e\<in>set edges. le_to_entity_id e = sn_id target \<and> le_relation e \<noteq> ''removed_in''"
  shows "lineage_ok before after st'"
proof -
  have from_set: "le_from_entity_id ` set edges = sn_id ` set sources" using arg_cong [OF assms(6), of set] by simp
  have old: "le_relation e \<noteq> ''removed_in'' \<and> le_from_entity_id e \<in> sn_id ` set before \<and>
      le_to_entity_id e \<in> sn_id ` set after \<and>
      (le_from_entity_id e \<in> sn_id ` set after \<or> le_from_entity_id e \<in> set (ls_matched_before st'))"
    if "e \<in> set (ls_lineage st)" for e using assms(1) that unfolding lineage_ok_def assms(5) by blast
  have new: "le_relation e \<noteq> ''removed_in'' \<and> le_from_entity_id e \<in> sn_id ` set before \<and>
      le_to_entity_id e \<in> sn_id ` set after \<and>
      (le_from_entity_id e \<in> sn_id ` set after \<or> le_from_entity_id e \<in> set (ls_matched_before st'))"
    if "e \<in> set edges" for e
  proof -
    have "le_from_entity_id e \<in> sn_id ` set sources" using that from_set by blast
    then show ?thesis using that assms(2,3,7) unfolding assms(5) by blast
  qed
  have "set (ls_matched_before st') \<subseteq> le_from_entity_id ` set (ls_lineage st')"
    using assms(1) from_set unfolding lineage_ok_def assms(4,5) by auto
  then show ?thesis unfolding lineage_ok_def using old new assms(4) by auto
qed

lemma lineage_edge_fields:
  "le_from_entity_id (lineage_edge s t r tr ev c) = sn_id s" "le_to_entity_id (lineage_edge s t r tr ev c) = sn_id t"
  "le_relation (lineage_edge s t r tr ev c) = r"
  by (simp_all add: lineage_edge_def)

lemma sorted_member: "sort_key key xs = y # ys \<Longrightarrow> y \<in> set xs"
  by (metis list.set_intros(1) set_sort)

lemma move_source_ok:
  assumes "lineage_ok before after st" "source \<in> set before" "set at_target \<subseteq> set after"
  shows "lineage_ok before after (move_source change old_path at_target st source)"
proof -
  let ?c = "filter (\<lambda>target. sn_kind target = sn_kind source \<and>
    (sn_label target = sn_label source \<or> sn_kind source = ''file'' \<and> sn_kind target = ''file'')) at_target"
  show ?thesis
  proof (cases "sort_key sn_id ?c")
    case Nil
    then show ?thesis using assms(1) by (simp add: move_source_def)
  next
    case (Cons target others)
    have target: "target \<in> set after" using sorted_member [OF Cons] assms(3) by auto
    show ?thesis
      by (rule lineage_ok_extend [OF assms(1), where sources = "[source]" and target = target])
        (use assms(2) Cons target in \<open>(simp add: move_source_def lineage_edge_fields comp_def)+\<close>)
  qed
qed

lemma move_change_ok:
  assumes "lineage_ok before after st"
  shows "lineage_ok before after (move_change before after st change)"
proof -
  let ?at = "filter (\<lambda>node. sn_path node = Some (hp_path change)) after"
  have "lineage_ok before after (foldl (move_source change old_path ?at) st
      (filter (\<lambda>node. sn_path node = Some old_path) before))" for old_path
    by (rule foldl_invariant [where P = "lineage_ok before after"], rule assms, rule move_source_ok) simp_all
  then show ?thesis using assms by (simp add: move_change_def split: option.split)
qed

lemma merge_target_ok:
  assumes "lineage_ok before after st" "set found \<subseteq> set before"
  shows "lineage_ok before after (merge_target before after st (target_id, found))"
proof (cases "length found < 2 \<or> identity_map sn_id after target_id = None")
  case True
  then show ?thesis using assms(1) by (auto simp: merge_target_def Let_def)
next
  case False
  then obtain target where t: "identity_map sn_id after target_id = Some target" by auto
  show ?thesis
    by (rule lineage_ok_extend [OF assms(1), where sources = "sort_key sn_id found" and target = target])
        (use assms(2) False t identity_map_found [OF t] in \<open>(simp add: merge_target_def Let_def lineage_edge_fields comp_def)+\<close>)
qed

lemma merge_target_ok':
  assumes "lineage_ok before after st" "set (snd t) \<subseteq> set before"
  shows "lineage_ok before after (merge_target before after st t)"
  using merge_target_ok [OF assms, of "fst t"] by simp

lemma follow_source_ok:
  assumes "lineage_ok before after st" "source \<in> set before"
  shows "lineage_ok before after (follow_source after st source)"
proof (cases "sn_id source \<in> set (ls_matched_before st)")
  case True
  then show ?thesis using assms(1) by (simp add: follow_source_def)
next
  case new: False
  show ?thesis
  proof (cases "sort_key sn_id (filter (line_successor (ls_matched_after st) source) after)")
    case Nil
    then show ?thesis using assms(1) new by (simp add: follow_source_def)
  next
    case (Cons target others)
    have target: "target \<in> set after" using sorted_member [OF Cons] by simp
    show ?thesis
    proof (cases others)
      case Nil
      show ?thesis
        by (rule lineage_ok_extend [OF assms(1), where sources = "[source]" and target = target])
        (use assms(2) new Cons Nil target in \<open>(simp add: follow_source_def lineage_edge_fields comp_def)+\<close>)
    next
      case (Cons other more)
      show ?thesis
        by (rule lineage_ok_extend [OF assms(1), where sources = "[source]" and target = target])
        (use assms(2) new \<open>sort_key _ _ = _\<close> Cons target in \<open>(simp add: follow_source_def lineage_edge_fields comp_def)+\<close>)
    qed
  qed
qed

lemma same_as_ok:
  "lineage_ok before after \<lparr>ls_lineage = same_as_edges before after, ls_matched_before = [], ls_matched_after = []\<rparr>"
  unfolding lineage_ok_def same_as_edges_def List.map_filter_def
  by (auto simp: lineage_edge_fields split: option.splits if_splits dest!: identity_map_found) (metis imageI)+

lemma merge_sources_subset: "set (merge_sources m sources after i) \<subseteq> set sources"
  by (auto simp: merge_sources_def)

lemma lost_sources_subset: "set (lost_sources before after matched) \<subseteq> set before"
  by (auto simp: lost_sources_def)

text \<open>The lineage is the edges of an account and the removals of what it does not account for.\<close>

lemma derive_lineage_parts:
  "\<exists>st. lineage_ok (ss_nodes before) (ss_nodes after) st \<and>
     set (derive_lineage before after changes revision) = set (ls_lineage st) \<union>
       removal_edge (stable_graph_id ''revision'' revision) ` set (lost_sources (ss_nodes before) (ss_nodes after) (ls_matched_before st))"
proof -
  let ?b = "ss_nodes before" and ?a = "ss_nodes after"
  define s1 where "s1 = foldl (move_change ?b ?a)
    \<lparr>ls_lineage = same_as_edges ?b ?a, ls_matched_before = [], ls_matched_after = []\<rparr> changes"
  define sources where "sources = lost_sources ?b ?a (ls_matched_before s1)"
  define targets where "targets = map (\<lambda>i. (i, merge_sources (ls_matched_after s1) sources ?a i))
    (filter (\<lambda>i. merge_sources (ls_matched_after s1) sources ?a i \<noteq> []) (remdups (map sn_id ?a)))"
  define s2 where "s2 = foldl (merge_target ?b ?a) s1 targets"
  define s3 where "s3 = foldl (follow_source ?a) s2 sources"
  have sub: "set sources \<subseteq> set ?b" unfolding sources_def by (rule lost_sources_subset)
  have s1: "lineage_ok ?b ?a s1" unfolding s1_def by (rule foldl_invariant [where P = "lineage_ok ?b ?a"], rule same_as_ok, rule move_change_ok)
  have found: "set (snd t) \<subseteq> set ?b" if member: "t \<in> set targets" for t
  proof -
    obtain i where "t = (i, merge_sources (ls_matched_after s1) sources ?a i)" using member unfolding targets_def by auto
    then show ?thesis using merge_sources_subset [of "ls_matched_after s1" sources ?a i] sub by simp
  qed
  note merge = merge_target_ok' [OF _ found]
  have "lineage_ok ?b ?a s2" unfolding s2_def
    by (rule foldl_invariant [where P = "lineage_ok ?b ?a"], rule s1, rule merge)
  then have s3: "lineage_ok ?b ?a s3" unfolding s3_def 
    by (rule foldl_invariant [where P = "lineage_ok ?b ?a"]) (use sub in \<open>auto intro: follow_source_ok\<close>)
  have "set (derive_lineage before after changes revision) = set (ls_lineage s3) \<union>
      removal_edge (stable_graph_id ''revision'' revision) ` set (lost_sources ?b ?a (ls_matched_before s3))"
    unfolding derive_lineage_def Let_def set_sort set_append set_map
    unfolding s3_def s2_def targets_def sources_def s1_def by (rule refl)
  then show ?thesis using s3 by blast
qed

text \<open>C30. No entity disappears without a trace, and none is reported removed that has a successor: every
  node of the earlier snapshot whose identifier is gone has a lineage edge; an edge that says removed comes
  from an entity that is absent later and has no edge that says otherwise; every other edge leads from
  an earlier to a later entity.\<close>

theorem lineage_accounts_for_removed:
  "let lineage = derive_lineage before after changes revision in
    (\<forall>node\<in>set (ss_nodes before). sn_id node \<notin> sn_id ` set (ss_nodes after) \<longrightarrow>
      (\<exists>edge\<in>set lineage. le_from_entity_id edge = sn_id node)) \<and>
    (\<forall>edge\<in>set lineage. le_from_entity_id edge \<in> sn_id ` set (ss_nodes before) \<and>
      (if le_relation edge = ''removed_in''
       then le_from_entity_id edge \<notin> sn_id ` set (ss_nodes after) \<and>
         (\<forall>other\<in>set lineage. le_from_entity_id other = le_from_entity_id edge \<longrightarrow> le_relation other = ''removed_in'')
       else le_to_entity_id edge \<in> sn_id ` set (ss_nodes after)))"
proof -
  define lineage where "lineage = derive_lineage before after changes revision"
  obtain st where ok: "lineage_ok (ss_nodes before) (ss_nodes after) st"
    and set: "set lineage = set (ls_lineage st) \<union> removal_edge (stable_graph_id ''revision'' revision) `
      set (lost_sources (ss_nodes before) (ss_nodes after) (ls_matched_before st))"
    unfolding lineage_def using derive_lineage_parts by blast
  let ?lost = "set (lost_sources (ss_nodes before) (ss_nodes after) (ls_matched_before st))"
  have removal: "le_from_entity_id (removal_edge r n) = sn_id n" "le_relation (removal_edge r n) = ''removed_in''" for r n
    by (simp_all add: removal_edge_def)
  have lost: "n \<in> ?lost \<longleftrightarrow> n \<in> set (ss_nodes before) \<and> sn_id n \<notin> sn_id ` set (ss_nodes after) \<and>
      sn_id n \<notin> set (ls_matched_before st)" for n by (auto simp: lost_sources_def)
  have edge: "le_relation e \<noteq> ''removed_in''" "le_from_entity_id e \<in> sn_id ` set (ss_nodes before)"
    "le_to_entity_id e \<in> sn_id ` set (ss_nodes after)"
    "le_from_entity_id e \<in> sn_id ` set (ss_nodes after) \<or> le_from_entity_id e \<in> set (ls_matched_before st)"
    if "e \<in> set (ls_lineage st)" for e using ok that unfolding lineage_ok_def by blast+
  have matched: "set (ls_matched_before st) \<subseteq> le_from_entity_id ` set (ls_lineage st)"
    using ok unfolding lineage_ok_def by blast
  show ?thesis unfolding lineage_def [symmetric] Let_def
  proof (intro conjI ballI impI)
    fix node assume "node \<in> set (ss_nodes before)" "sn_id node \<notin> sn_id ` set (ss_nodes after)"
    then show "\<exists>edge\<in>set lineage. le_from_entity_id edge = sn_id node"
      using matched lost [of node] removal(1) [of _ node] unfolding set by (cases "sn_id node \<in> set (ls_matched_before st)") fastforce+
  next
    fix e assume "e \<in> set lineage"
    then consider "e \<in> set (ls_lineage st)" | n where "n \<in> ?lost" "e = removal_edge (stable_graph_id ''revision'' revision) n"
      unfolding set by blast
    note cases = this
    show "le_from_entity_id e \<in> sn_id ` set (ss_nodes before)"
      using cases by cases (use edge(2) lost removal(1) in auto)
    show "if le_relation e = ''removed_in''
       then le_from_entity_id e \<notin> sn_id ` set (ss_nodes after) \<and>
         (\<forall>other\<in>set lineage. le_from_entity_id other = le_from_entity_id e \<longrightarrow> le_relation other = ''removed_in'')
       else le_to_entity_id e \<in> sn_id ` set (ss_nodes after)"
      using cases
    proof cases
      case 1
      then show ?thesis using edge(1,3) by simp
    next
      case (2 n)
      have "le_relation other = ''removed_in''" if "other \<in> set lineage" "le_from_entity_id other = sn_id n" for other
        using that edge(4) [of other] 2(1) lost [of n] removal(2) unfolding set by auto
      then show ?thesis using 2 lost [of n] by (simp add: removal)
    qed
  qed
qed


theorem lineage_accounts_for_removed_witness:
  "\<exists>edge\<in>set (derive_lineage (sample_truth ''a'') (sample_truth ''b'') [] ''b'').
     le_from_entity_id edge = ''a''"
proof -
  have "\<exists>edge\<in>set (derive_lineage (sample_truth ''a'') (sample_truth ''b'') [] ''b'').
      le_from_entity_id edge = sn_id (sample_graph_node ''a'')"
    by (rule mp [OF bspec [OF conjunct1 [OF lineage_accounts_for_removed [unfolded Let_def]]]]) simp_all
  then show ?thesis by (simp only: sample_node_id)
qed

end
