(* ===== verification/History_Facts.thy ===== *)
theory History_Facts
  imports Structural_Graph
begin

text \<open>
  The reader of the history of a repository (\<open>commands/history_graph/history_facts.rs\<close>): the facts it
  produces and their validation, the mailmap, the bounded reading of Git's output and its parser.
  Bytes are characters; a conversion to \<open>str\<close> succeeds exactly on valid UTF-8. The run of Git, the
  mailmap file, the RFC 3339 check (the chrono crate) and the cancellation flag are parameters. A panic is
  the value \<open>None\<close>.
\<close>

section \<open>The facts of a revision\<close>

definition HISTORY_FACTS_SCHEMA_VERSION :: int where "HISTORY_FACTS_SCHEMA_VERSION = 1"

definition HISTORY_FACT_CLASSIFICATION_VERSION :: int where "HISTORY_FACT_CLASSIFICATION_VERSION = 1"

definition MARKER :: string where "MARKER = CHR 0x1E # ''CODEVETTER_HISTORY_FACTS_V1''"

definition MAX_OUTPUT_BYTES :: nat where "MAX_OUTPUT_BYTES = 64 * 1024 * 1024"

definition MAX_REVISIONS :: nat where "MAX_REVISIONS = 100000"

definition MAX_PATHS :: nat where "MAX_PATHS = 1000000"

definition MAX_MAILMAP_BYTES :: nat where "MAX_MAILMAP_BYTES = 1024 * 1024"

definition MAX_MAILMAP_ENTRIES :: nat where "MAX_MAILMAP_ENTRIES = 10000"

datatype HistoryAutomationKind = Kind_Human | Kind_Automation | Kind_Unknown

record HistoryIdentityFact =
  if_contributor_id :: string
  if_display_name :: string
  if_automation :: HistoryAutomationKind
  if_alias_count :: nat

datatype HistoryPathStatus =
  Path_Added | Path_Copied | Path_Deleted | Path_Modified | Path_Renamed | Path_TypeChanged | Path_Unmerged | Path_Unknown

record HistoryPathFact =
  pf_path :: string
  pf_old_path :: "string option"
  pf_status :: HistoryPathStatus
  pf_additions :: "nat option"
  pf_deletions :: "nat option"
  pf_binary :: bool
  pf_generated :: bool
  pf_vendored :: bool

record HistoryRevisionFact =
  rf_sha :: string
  rf_parents :: "string list"
  rf_committed_at :: string
  rf_subject :: string
  rf_primary :: HistoryIdentityFact
  rf_coauthors :: "HistoryIdentityFact list"
  rf_malformed_coauthor_count :: nat
  rf_tags :: "string list"
  rf_paths :: "HistoryPathFact list"
  rf_is_merge :: bool
  rf_is_head :: bool

record HistoryFactsBatch =
  hb_schema_version :: int
  hb_classification_version :: int
  hb_git_process_count :: nat
  hb_mailmap_fingerprint :: string
  hb_facts_fingerprint :: string
  hb_revisions :: "HistoryRevisionFact list"

definition valid_path_fact :: "HistoryPathFact \<Rightarrow> bool" where
  "valid_path_fact path \<longleftrightarrow> \<not> (pf_path path = [] \<or> pf_old_path path = Some [] \<or>
     pf_binary path \<and> (pf_additions path \<noteq> None \<or> pf_deletions path \<noteq> None) \<or> pf_status path = Path_Unknown)"

definition validate_revision_fact :: "HistoryRevisionFact \<Rightarrow> (string, unit) result" where
  "validate_revision_fact revision =
     and_then (require (\<not> (rf_is_merge revision \<noteq> (length (rf_parents revision) > 1) \<or>
         CHR 0x00 \<in> set (rf_subject revision) \<or> if_contributor_id (rf_primary revision) = [] \<or>
         if_display_name (rf_primary revision) = [] \<or> [] \<in> set (rf_tags revision) \<or>
         rf_malformed_coauthor_count revision > 10000))
       ''Batched history facts contain an invalid revision'') (\<lambda>_.
     and_then (require (\<not> list_ex (\<lambda>identity. if_contributor_id identity = []) (rf_primary revision # rf_coauthors revision))
       ''Batched history facts contain an invalid identity'') (\<lambda>_.
     require (list_all valid_path_fact (rf_paths revision)) ''Batched history facts contain an invalid path''))"

definition validate_batch :: "HistoryFactsBatch \<Rightarrow> (string, unit) result" where
  "validate_batch batch =
     and_then (require (\<not> (hb_schema_version batch \<noteq> HISTORY_FACTS_SCHEMA_VERSION \<or>
         hb_classification_version batch \<noteq> HISTORY_FACT_CLASSIFICATION_VERSION \<or> hb_git_process_count batch \<noteq> 1 \<or>
         hb_mailmap_fingerprint batch = [] \<or> hb_facts_fingerprint batch = []))
       ''Batched history facts have an unsupported identity'') (\<lambda>_.
     and_then (require (length (filter rf_is_head (hb_revisions batch)) = 1)
       ''Batched history facts must identify exactly one HEAD'') (\<lambda>_.
     try_fold (\<lambda>_ revision. validate_revision_fact revision) () (hb_revisions batch)))"

section \<open>The mailmap\<close>

record MailmapEntry =
  me_canonical_name :: "string option"
  me_canonical_email :: string
  me_alias_name :: "string option"
  me_alias_email :: string

type_synonym Mailmap = "MailmapEntry list"

definition eq_ignore_ascii_case :: "string \<Rightarrow> string \<Rightarrow> bool" where
  "eq_ignore_ascii_case a b \<longleftrightarrow> to_ascii_lowercase a = to_ascii_lowercase b"

definition entry_matches :: "string \<Rightarrow> string \<Rightarrow> MailmapEntry \<Rightarrow> bool" where
  "entry_matches name email entry \<longleftrightarrow> eq_ignore_ascii_case (me_alias_email entry) email \<and>
     (case me_alias_name entry of None \<Rightarrow> True | Some alias \<Rightarrow> eq_ignore_ascii_case alias name)"

definition mailmap_resolve :: "Mailmap \<Rightarrow> string \<Rightarrow> string \<Rightarrow> string \<times> string" where
  "mailmap_resolve entries name email =
     (case find (entry_matches name email) entries of
        None \<Rightarrow> (name, email)
      | Some entry \<Rightarrow> (case me_canonical_name entry of None \<Rightarrow> name | Some canonical \<Rightarrow> canonical, me_canonical_email entry))"

definition mailmap_alias_count :: "Mailmap \<Rightarrow> string \<Rightarrow> string \<Rightarrow> nat" where
  "mailmap_alias_count entries name email =
     length (filter (\<lambda>entry. eq_ignore_ascii_case (me_canonical_email entry) email \<and>
       (case me_canonical_name entry of None \<Rightarrow> True | Some canonical \<Rightarrow> eq_ignore_ascii_case canonical name)) entries)"

text \<open>The first two places of an opening angle bracket with the next closing one after it.\<close>

definition angle_ranges :: "string \<Rightarrow> (nat \<times> nat) list" where
  "angle_ranges line =
     take 2 (List.map_filter (\<lambda>start.
       map_option (\<lambda>n. (start, start + 1 + n)) (find_str (drop (start + 1) line) ''>''))
       (filter (\<lambda>i. line ! i = CHR ''<'') [0..<length line]))"

text \<open>The outer \<open>None\<close> is a panic: a slice that starts after its end.\<close>

definition parse_mailmap_entry :: "string \<Rightarrow> MailmapEntry option option" where
  "parse_mailmap_entry text =
     (let line = trim (takeWhile (\<lambda>c. c \<noteq> CHR ''#'') text)
      in case angle_ranges line of
           [] \<Rightarrow> Some None
         | (canonical_start, canonical_end) # others \<Rightarrow>
             let canonical_name = trim (take canonical_start line);
                 canonical_email = trim (substr (canonical_start + 1) canonical_end line);
                 entry = (\<lambda>alias_name alias_email.
                   if alias_email = [] then Some None
                   else Some (Some \<lparr>me_canonical_name = (if canonical_name = [] then None else Some canonical_name),
                     me_canonical_email = canonical_email, me_alias_name = alias_name, me_alias_email = alias_email\<rparr>))
             in if canonical_email = [] then Some None
                else case others of
                       [] \<Rightarrow> entry None canonical_email
                     | (alias_start, alias_end) # _ \<Rightarrow>
                         if canonical_end + 1 > alias_start then None
                         else let name = trim (substr (canonical_end + 1) alias_start line)
                              in entry (if name = [] then None else Some name) (trim (substr (alias_start + 1) alias_end line)))"

text \<open>\<open>str::lines\<close>: the pieces between line feeds, those that end in one without a final carriage return; an
  empty piece at the end is none.\<close>

definition rust_lines :: "string \<Rightarrow> string list" where
  "rust_lines s =
     (let pieces = split_list (\<lambda>c. c = CHR 0x0A) s
      in map (\<lambda>line. if line \<noteq> [] \<and> last line = CHR 0x0D then butlast line else line) (butlast pieces) @
         (if last pieces = [] then [] else [last pieces]))"

fun collect_entries :: "nat \<Rightarrow> string list \<Rightarrow> MailmapEntry list option" where
  "collect_entries 0 lines = Some []"
| "collect_entries (Suc n) [] = Some []"
| "collect_entries (Suc n) (line # lines) =
     (case parse_mailmap_entry line of
        None \<Rightarrow> None
      | Some None \<Rightarrow> collect_entries (Suc n) lines
      | Some (Some entry) \<Rightarrow> map_option (Cons entry) (collect_entries n lines))"

text \<open>What the file system says of the repository's mailmap: absent, not inspectable, or an entry with its
  type, its size and the outcome of reading it.\<close>

datatype mailmap_file = Mailmap_Absent | Mailmap_Uninspectable string
  | Mailmap_Found (mm_regular: bool) (mm_size: nat) (mm_contents: "(string, string) result")

definition read_mailmap :: "mailmap_file \<Rightarrow> (string, Mailmap \<times> string) result option" where
  "read_mailmap file =
     (case file of
        Mailmap_Absent \<Rightarrow> Some (Inr ([], stable_graph_id ''history-mailmap-v1'' ''absent''))
      | Mailmap_Uninspectable error \<Rightarrow> Some (Inl (''Inspect repository .mailmap: '' @ error))
      | Mailmap_Found regular file_bytes contents \<Rightarrow>
          if \<not> regular then Some (Inl ''Repository .mailmap must be a regular non-symlink file'')
          else if file_bytes > MAX_MAILMAP_BYTES
          then Some (Inl (''Repository .mailmap exceeds '' @ decimal MAX_MAILMAP_BYTES @ '' bytes''))
          else case contents of
                 Inl error \<Rightarrow> Some (Inl (''Read repository .mailmap as UTF-8: '' @ error))
               | Inr text \<Rightarrow>
                   (case collect_entries (MAX_MAILMAP_ENTRIES + 1) (rust_lines text) of
                      None \<Rightarrow> None
                    | Some entries \<Rightarrow>
                        if length entries > MAX_MAILMAP_ENTRIES
                        then Some (Inl (''Repository .mailmap exceeds '' @ decimal MAX_MAILMAP_ENTRIES @ '' entries''))
                        else Some (Inr (sort_key (\<lambda>e. (me_alias_email e, me_alias_name e)) entries,
                               stable_graph_id ''history-mailmap-v1'' text))))"

section \<open>The reader of the history\<close>

record Limits =
  li_output_bytes :: nat
  li_revisions :: nat
  li_paths :: nat

definition default_limits :: Limits where
  "default_limits = \<lparr>li_output_bytes = MAX_OUTPUT_BYTES, li_revisions = MAX_REVISIONS, li_paths = MAX_PATHS\<rparr>"

text \<open>
  What the parser takes from outside: the check of an RFC 3339 time and the answers of the cancellation
  flag, which is polled once per iteration of each loop; a poll is named by the pieces left in the
  outer and in the inner loop, no two polls having the same name.
\<close>

record facts_env =
  fe_valid_time :: "string \<Rightarrow> bool"
  fe_cancelled :: "nat \<Rightarrow> nat \<Rightarrow> bool"

definition utf8 :: "string \<Rightarrow> string \<Rightarrow> (string, string) result" where
  "utf8 v label =
     (if valid_utf8 v then Inr v else Inl (''Batched history '' @ label @ '' is not UTF-8''))"

definition trim_newlines :: "string \<Rightarrow> string" where
  "trim_newlines v = dropWhile (\<lambda>c. c = CHR 0x0A \<or> c = CHR 0x0D) v"

definition validate_full_sha :: "string \<Rightarrow> nat option \<Rightarrow> (string, unit) result" where
  "validate_full_sha v expected_len =
     require ((case expected_len of None \<Rightarrow> len v = 40 \<or> len v = 64 | Some n \<Rightarrow> len v = n) \<and>
         list_all (\<lambda>c. is_ascii_hexdigit c \<and> \<not> is_ascii_uppercase c) v)
       ''Batched history output contains a non-full revision SHA''"

definition classify_automation :: "string \<Rightarrow> string \<Rightarrow> HistoryAutomationKind" where
  "classify_automation name email =
     (let identity = to_ascii_lowercase (name @ '' '' @ email)
      in if trim identity = [] then Kind_Unknown
         else if list_ex (contains_str identity)
           [''[bot]'', ''dependabot'', ''renovate'', ''github-actions'', ''automation@'', ''bot@'']
         then Kind_Automation
         else Kind_Human)"

definition identity_fact :: "string \<Rightarrow> string \<Rightarrow> string \<Rightarrow> nat \<Rightarrow> HistoryIdentityFact" where
  "identity_fact repository_scope name_text email_text alias_count =
     (let name = trim name_text; email = to_ascii_lowercase (trim email_text);
          display_name = (if name = [] \<or> CHR ''@'' \<in> set name then ''Unknown'' else name)
      in \<lparr>if_contributor_id = stable_graph_id ''history-contributor-v1''
            (repository_scope @ [CHR 0x00] @ to_ascii_lowercase display_name @ [CHR 0x00] @ email),
          if_display_name = display_name, if_automation = classify_automation display_name email,
          if_alias_count = alias_count\<rparr>)"

definition split_unit_separator :: "string \<Rightarrow> string list" where
  "split_unit_separator s = split_list (\<lambda>c. c = CHR 0x1F) s"

text \<open>The position of the last occurrence of a byte, \<open>str::rfind\<close>.\<close>

definition rfind_byte :: "char \<Rightarrow> string \<Rightarrow> nat option" where
  "rfind_byte c s = (case filter (\<lambda>i. s ! i = c) (rev [0..<length s]) of [] \<Rightarrow> None | i # _ \<Rightarrow> Some i)"

text \<open>A trailer is an identity or is malformed (\<open>None\<close>).\<close>

definition parse_coauthor :: "Mailmap \<Rightarrow> string \<Rightarrow> string \<Rightarrow> HistoryIdentityFact option" where
  "parse_coauthor mailmap repository_scope trailer =
     (case rfind_byte (CHR ''<'') trailer of
        None \<Rightarrow> None
      | Some start \<Rightarrow>
          if \<not> ends_with trailer ''>'' \<or> start = 0 then None
          else (case mailmap_resolve mailmap (trim (take start trailer)) (trim (substr (start + 1) (len trailer - 1) trailer)) of
                  (name, email) \<Rightarrow>
                    Some (identity_fact repository_scope name email (mailmap_alias_count mailmap name email))))"

definition parse_coauthors :: "string \<Rightarrow> Mailmap \<Rightarrow> string \<Rightarrow> (string, HistoryIdentityFact list \<times> nat) result" where
  "parse_coauthors v mailmap repository_scope =
     and_then (utf8 v ''co-author trailers'') (\<lambda>text.
       let parsed = map (parse_coauthor mailmap repository_scope)
             (filter (\<lambda>item. item \<noteq> []) (map trim (split_unit_separator text)))
       in Inr (List.map_filter (\<lambda>x. x) parsed, length (filter (\<lambda>x. x = None) parsed)))"

definition parse_tags :: "string \<Rightarrow> string list" where
  "parse_tags decorations =
     filter (\<lambda>tag. tag \<noteq> []) (List.map_filter (\<lambda>item. strip_prefix ''tag: refs/tags/'' (trim item))
       (split_unit_separator decorations))"

definition classify_history_path :: "string \<Rightarrow> bool \<times> bool" where
  "classify_history_path text =
     (let path = to_ascii_lowercase (map (\<lambda>c. if c = CHR 0x5C then CHR ''/'' else c) text);
          parts = split_list (\<lambda>c. c = CHR ''/'') path;
          vendored = list_ex (\<lambda>part. part \<in> {''vendor'', ''vendors'', ''third_party'', ''node_modules'', ''.pnpm''}) parts;
          file = last parts;
          generated = list_ex (\<lambda>part. part \<in> {''generated'', ''gen'', ''dist'', ''build'', ''coverage''}) parts \<or>
            file \<in> {''package-lock.json'', ''pnpm-lock.yaml'', ''yarn.lock'', ''cargo.lock''} \<or>
            list_ex (ends_with file) [''.generated.rs'', ''.generated.ts'', ''.min.js'', ''.min.css'', ''.map'']
      in (generated, vendored))"

fun parse_status :: "char option \<Rightarrow> HistoryPathStatus" where
  "parse_status (Some c) =
     (if c = CHR ''A'' then Path_Added else if c = CHR ''C'' then Path_Copied else if c = CHR ''D'' then Path_Deleted
      else if c = CHR ''M'' then Path_Modified else if c = CHR ''R'' then Path_Renamed
      else if c = CHR ''T'' then Path_TypeChanged else if c = CHR ''U'' then Path_Unmerged else Path_Unknown)"
| "parse_status None = Path_Unknown"

definition parse_count :: "string \<Rightarrow> (string, nat option) result" where
  "parse_count v =
     (if v = ''-'' then Inr None
      else and_then (utf8 v ''numstat count'') (\<lambda>text.
        case parse_usize text of
          None \<Rightarrow> Inl ''Numstat count is not an unsigned integer''
        | Some n \<Rightarrow> Inr (Some n)))"

text \<open>Up to two tabs are separators; without two tabs the field is no numstat record.\<close>

definition parse_numstat :: "string \<Rightarrow> (string, (nat option \<times> nat option \<times> string) option) result" where
  "parse_numstat field =
     (let tab = (\<lambda>c. c \<noteq> CHR 0x09); additions = takeWhile tab field; after_additions = dropWhile tab field;
          deletions = takeWhile tab (drop 1 after_additions); after_deletions = dropWhile tab (drop 1 after_additions)
      in if after_additions = [] \<or> after_deletions = [] then Inr None
         else and_then (parse_count additions) (\<lambda>a.
           and_then (parse_count deletions) (\<lambda>d. Inr (Some (a, d, drop 1 after_deletions)))))"

definition field_at :: "string list \<Rightarrow> nat \<Rightarrow> string \<Rightarrow> (string, string) result" where
  "field_at pieces i error = (if i < length pieces then Inr (pieces ! i) else Inl error)"

text \<open>The raw record at the head of the pieces: the path fact and the number of pieces it takes.\<close>

definition parse_raw :: "string list \<Rightarrow> (string, HistoryPathFact \<times> nat) result" where
  "parse_raw pieces =
     (case filter (\<lambda>part. part \<noteq> []) (split_list is_ascii_whitespace (trim_newlines (hd pieces))) of
        [] \<Rightarrow> Inl ''Malformed raw history path record''
      | p # ps \<Rightarrow>
          (let token = last (p # ps); status = parse_status (case token of [] \<Rightarrow> None | c # _ \<Rightarrow> Some c)
           in and_then (field_at pieces 1 ''Raw history path missing path'') (\<lambda>raw_old.
              and_then (utf8 raw_old ''path'') (\<lambda>old.
              and_then (if status = Path_Renamed \<or> status = Path_Copied
                        then and_then (field_at pieces 2 ''Raw rename/copy missing destination'') (\<lambda>raw_path.
                               and_then (utf8 raw_path ''destination path'') (\<lambda>path. Inr (path, Some old, 3)))
                        else Inr (old, None, 2)) (\<lambda>(path, old_path, consumed).
                Inr (\<lparr>pf_path = path, pf_old_path = old_path, pf_status = status, pf_additions = None,
                       pf_deletions = None, pf_binary = False, pf_generated = fst (classify_history_path path),
                       pf_vendored = snd (classify_history_path path)\<rparr>, consumed))))))"

text \<open>The numstat record at the head of the pieces: its counts, its paths and the number of pieces it takes.\<close>

definition parse_numstat_record ::
  "string list \<Rightarrow> (string, nat option \<times> nat option \<times> string \<times> string option \<times> nat) result" where
  "parse_numstat_record pieces =
     and_then (parse_numstat (trim_newlines (hd pieces))) (\<lambda>numstat.
       case numstat of
         None \<Rightarrow> Inl ''Malformed batched history path payload''
       | Some (additions, deletions, inline_path) \<Rightarrow>
           if inline_path = []
           then and_then (field_at pieces 2 ''Numstat rename/copy missing destination'') (\<lambda>raw_path.
                and_then (utf8 raw_path ''numstat destination'') (\<lambda>path.
                and_then (field_at pieces 1 ''Numstat rename/copy missing source'') (\<lambda>raw_old.
                and_then (utf8 raw_old ''numstat source'') (\<lambda>old.
                  Inr (additions, deletions, path, Some old, 3)))))
           else and_then (utf8 inline_path ''numstat path'') (\<lambda>path. Inr (additions, deletions, path, None, 1)))"

text \<open>The counts go to the first fact with the paths of the record.\<close>

fun apply_numstat ::
  "nat option \<Rightarrow> nat option \<Rightarrow> string \<Rightarrow> string option \<Rightarrow> HistoryPathFact list \<Rightarrow> HistoryPathFact list option" where
  "apply_numstat additions deletions path old_path [] = None"
| "apply_numstat additions deletions path old_path (found # others) =
     (if pf_path found = path \<and> pf_old_path found = old_path
      then Some (found\<lparr>pf_binary := additions = None \<and> deletions = None, pf_additions := additions,
             pf_deletions := deletions\<rparr> # others)
      else map_option (Cons found) (apply_numstat additions deletions path old_path others))"

lemma parse_raw_consumes: "parse_raw pieces = Inr (found, n) \<Longrightarrow> n = 2 \<or> n = 3"
  by (auto simp: parse_raw_def Let_def and_then_Inr_iff split: list.splits if_splits prod.splits)

lemma parse_numstat_record_consumes: "parse_numstat_record pieces = Inr (a, d, p, old, n) \<Longrightarrow> n = 1 \<or> n = 3"
  by (auto simp: parse_numstat_record_def and_then_Inr_iff split: option.splits if_splits prod.splits)

function parse_path_loop ::
  "(nat \<Rightarrow> bool) \<Rightarrow> HistoryPathFact list \<Rightarrow> string list \<Rightarrow> (string, HistoryPathFact list) result" where
  "parse_path_loop cancelled paths pieces =
     (case pieces of
        [] \<Rightarrow> Inr paths
      | piece # rest \<Rightarrow>
          if cancelled (length pieces) then Inl ''History facts read cancelled''
          else if trim_newlines piece = [] then parse_path_loop cancelled paths rest
          else if hd (trim_newlines piece) = CHR '':''
          then (case parse_raw pieces of
                  Inl error \<Rightarrow> Inl error
                | Inr (found, consumed) \<Rightarrow>
                    parse_path_loop cancelled (paths @ [found]) (drop consumed pieces))
          else (case parse_numstat_record pieces of
                  Inl error \<Rightarrow> Inl error
                | Inr (additions, deletions, path, old_path, consumed) \<Rightarrow>
                    (case apply_numstat additions deletions path old_path paths of
                       None \<Rightarrow> Inl ''Numstat record has no matching raw path record''
                     | Some updated \<Rightarrow>
                         parse_path_loop cancelled updated (drop consumed pieces))))"
  by pat_completeness auto
termination
  by (relation "measure (\<lambda>(cancelled, paths, pieces). length pieces)")
    (auto dest!: parse_raw_consumes parse_numstat_record_consumes)

declare parse_path_loop.simps [simp del]

definition path_status_rank :: "HistoryPathStatus \<Rightarrow> nat" where
  "path_status_rank status = (case status of Path_Added \<Rightarrow> 0 | Path_Copied \<Rightarrow> 1 | Path_Deleted \<Rightarrow> 2
     | Path_Modified \<Rightarrow> 3 | Path_Renamed \<Rightarrow> 4 | Path_TypeChanged \<Rightarrow> 5 | Path_Unmerged \<Rightarrow> 6 | Path_Unknown \<Rightarrow> 7)"

definition parse_paths :: "(nat \<Rightarrow> bool) \<Rightarrow> string list \<Rightarrow> (string, HistoryPathFact list) result" where
  "parse_paths cancelled pieces =
     and_then (parse_path_loop cancelled [] pieces) (\<lambda>paths.
       Inr (sort_key (\<lambda>found. (pf_path found, pf_old_path found, path_status_rank (pf_status found))) paths))"

definition automation_rank :: "HistoryAutomationKind \<Rightarrow> nat" where
  "automation_rank kind = (case kind of Kind_Human \<Rightarrow> 0 | Kind_Automation \<Rightarrow> 1 | Kind_Unknown \<Rightarrow> 2)"

definition sort_identities :: "HistoryIdentityFact list \<Rightarrow> HistoryIdentityFact list" where
  "sort_identities xs = sort_key (\<lambda>i. (if_contributor_id i, if_display_name i, automation_rank (if_automation i), if_alias_count i)) xs"

text \<open>The eight fields after a marker; the paths are added by the caller.\<close>

definition parse_header ::
  "facts_env \<Rightarrow> Mailmap \<Rightarrow> string \<Rightarrow> string list \<Rightarrow> (string, HistoryRevisionFact) result" where
  "parse_header env mailmap repository_scope header =
     and_then (utf8 (header ! 0) ''revision SHA'') (\<lambda>sha.
     and_then (validate_full_sha sha None) (\<lambda>_.
     and_then (utf8 (header ! 1) ''revision parents'') (\<lambda>parents_text.
     let parents = split_whitespace parents_text in
     and_then (try_fold (\<lambda>_ parent. validate_full_sha parent (Some (len sha))) () parents) (\<lambda>_.
     and_then (utf8 (header ! 2) ''commit time'') (\<lambda>committed_at.
     and_then (require (fe_valid_time env committed_at) ''Batched history output contains an invalid commit time'') (\<lambda>_.
     and_then (utf8 (header ! 3) ''primary author name'') (\<lambda>name.
     and_then (utf8 (header ! 4) ''primary author email'') (\<lambda>email.
     and_then (utf8 (header ! 5) ''revision decorations'') (\<lambda>decorations.
     and_then (utf8 (header ! 6) ''commit subject'') (\<lambda>subject.
     and_then (parse_coauthors (header ! 7) mailmap repository_scope) (\<lambda>(coauthors, malformed).
       Inr \<lparr>rf_sha = sha, rf_parents = parents, rf_committed_at = committed_at, rf_subject = subject,
         rf_primary = identity_fact repository_scope name email (mailmap_alias_count mailmap name email),
         rf_coauthors = dedup_by if_contributor_id (sort_identities coauthors),
         rf_malformed_coauthor_count = malformed,
         rf_tags = dedup_by (\<lambda>tag. tag) (sort (parse_tags decorations)), rf_paths = [],
         rf_is_merge = (length parents > 1),
         rf_is_head = list_ex (\<lambda>item. trim item = ''HEAD'' \<or> starts_with (trim item) ''HEAD -> '')
           (split_unit_separator decorations)\<rparr>)))))))))))"

definition is_marker :: "string \<Rightarrow> bool" where
  "is_marker piece \<longleftrightarrow> trim_newlines piece = MARKER"

function parse_revision_loop ::
  "facts_env \<Rightarrow> Limits \<Rightarrow> Mailmap \<Rightarrow> string \<Rightarrow> HistoryRevisionFact list \<Rightarrow> nat \<Rightarrow> string list
     \<Rightarrow> (string, HistoryRevisionFact list) result" where
  "parse_revision_loop env limits mailmap repository_scope revisions total_paths pieces =
     (case pieces of
        [] \<Rightarrow> Inr revisions
      | piece # rest \<Rightarrow>
          if fe_cancelled env (length pieces) 0 then Inl ''History facts read cancelled''
          else if \<not> is_marker piece
          then (if list_all is_ascii_whitespace piece
                then parse_revision_loop env limits mailmap repository_scope revisions total_paths rest
                else Inl ''Malformed batched history output before revision marker'')
          else if length revisions = li_revisions limits
          then Inl ''Batched history output exceeds its revision bound''
          else if length rest < 8 then Inl ''Batched history output ended inside a revision header''
          else (let body = takeWhile (\<lambda>p. \<not> is_marker p) (drop 8 rest);
                    remaining = dropWhile (\<lambda>p. \<not> is_marker p) (drop 8 rest)
                in and_then (parse_header env mailmap repository_scope (take 8 rest)) (\<lambda>revision.
                   and_then (parse_paths (fe_cancelled env (length pieces)) body) (\<lambda>paths.
                     if total_paths + length paths > usize_max then Inl ''Batched history path count overflowed''
                     else if total_paths + length paths > li_paths limits
                     then Inl ''Batched history output exceeds its path bound''
                     else parse_revision_loop env limits mailmap repository_scope
                            (revisions @ [revision\<lparr>rf_paths := paths\<rparr>]) (total_paths + length paths) remaining))))"
  by pat_completeness auto
termination
  by (relation "measure (\<lambda>(env, limits, mailmap, scope, revisions, total, pieces). length pieces)")
    (auto simp: less_Suc_eq_le intro: order_trans [OF length_dropWhile_le])

declare parse_revision_loop.simps [simp del]

text \<open>\<open>{:?}\<close> of an optional count.\<close>

definition debug_count :: "nat option \<Rightarrow> string" where
  "debug_count n = (case n of None \<Rightarrow> ''None'' | Some k \<Rightarrow> ''Some('' @ decimal k @ '')'')"

definition bool_text :: "bool \<Rightarrow> string" where
  "bool_text b = (if b then ''true'' else ''false'')"

definition path_status_letter :: "HistoryPathStatus \<Rightarrow> string" where
  "path_status_letter status = (case status of Path_Added \<Rightarrow> ''a'' | Path_Copied \<Rightarrow> ''c'' | Path_Deleted \<Rightarrow> ''d''
     | Path_Modified \<Rightarrow> ''m'' | Path_Renamed \<Rightarrow> ''r'' | Path_TypeChanged \<Rightarrow> ''t'' | Path_Unmerged \<Rightarrow> ''u'' | Path_Unknown \<Rightarrow> ''?'')"

definition path_identity :: "HistoryPathFact \<Rightarrow> string" where
  "path_identity path =
     pf_path path @ [CHR 0x00] @ (case pf_old_path path of None \<Rightarrow> [] | Some old \<Rightarrow> old) @ [CHR 0x00] @
     path_status_letter (pf_status path) @ '':'' @ debug_count (pf_additions path) @ '':'' @
     debug_count (pf_deletions path) @ '':'' @ bool_text (pf_binary path) @ '':'' @ bool_text (pf_generated path) @
     '':'' @ bool_text (pf_vendored path) @ [CHR 0x00]"

definition revision_identity :: "HistoryRevisionFact \<Rightarrow> string" where
  "revision_identity revision =
     rf_sha revision @ [CHR 0x00] @ join_str '' '' (rf_parents revision) @ [CHR 0x00] @
     rf_committed_at revision @ [CHR 0x00] @ rf_subject revision @ [CHR 0x00] @
     if_contributor_id (rf_primary revision) @ [CHR 0x00] @
     concat (map (\<lambda>coauthor. if_contributor_id coauthor @ [CHR 0x00]) (rf_coauthors revision)) @
     concat (map (\<lambda>tag. tag @ [CHR 0x00]) (rf_tags revision)) @ concat (map path_identity (rf_paths revision))"

definition history_facts_fingerprint :: "HistoryRevisionFact list \<Rightarrow> string" where
  "history_facts_fingerprint revisions = stable_graph_id ''history-facts-v1'' (concat (map revision_identity revisions))"

definition parse_history_facts ::
  "facts_env \<Rightarrow> string \<Rightarrow> Limits \<Rightarrow> Mailmap \<Rightarrow> string \<Rightarrow> (string, HistoryFactsBatch) result" where
  "parse_history_facts env out limits mailmap repository_scope =
     (if len out > li_output_bytes limits then Inl ''Batched history Git output exceeds its byte bound''
      else and_then (parse_revision_loop env limits mailmap repository_scope [] 0 (split_list (\<lambda>c. c = CHR 0x00) out))
        (\<lambda>revisions. Inr \<lparr>hb_schema_version = HISTORY_FACTS_SCHEMA_VERSION,
           hb_classification_version = HISTORY_FACT_CLASSIFICATION_VERSION, hb_git_process_count = 1,
           hb_mailmap_fingerprint = [], hb_facts_fingerprint = history_facts_fingerprint revisions,
           hb_revisions = revisions\<rparr>))"

section \<open>The bounded reader\<close>

text \<open>A stream is what its reads return, up to the first empty read or failure. The last component of the
  result says that bytes were left out.\<close>

fun read_bounded_loop ::
  "nat \<Rightarrow> string \<Rightarrow> (string, string) result list \<Rightarrow> (string, string \<times> bool) result" where
  "read_bounded_loop limit retained [] = Inr (retained, False)"
| "read_bounded_loop limit retained (Inl error # reads) = Inl (''Read batched history Git stream: '' @ error)"
| "read_bounded_loop limit retained (Inr buffer # reads) =
     (if buffer = [] then Inr (retained, False)
      else let available = limit - length retained;
               grown = retained @ take (min (length buffer) available) buffer
           in if length buffer > available then Inr (grown, True) else read_bounded_loop limit grown reads)"

definition read_bounded :: "(string, string) result list \<Rightarrow> nat \<Rightarrow> (string, string \<times> bool) result" where
  "read_bounded reads limit = read_bounded_loop limit [] reads"

section \<open>Reading a repository\<close>

definition git_format :: string where
  "git_format = ''%x1eCODEVETTER_HISTORY_FACTS_V1%x00%H%x00%P%x00%cI%x00%aN%x00%aE%x00%(decorate:prefix=,suffix=,separator=%x1f,tag=tag:%x20)%x00%s%x00%(trailers:key=Co-authored-by,valueonly,separator=%x1f)%x00''"

definition git_arguments :: "string \<Rightarrow> string list" where
  "git_arguments revision_range =
     [''log'', revision_range, ''--topo-order'', ''--reverse'', ''--decorate=full'', ''--no-abbrev'', ''--root'',
      ''--diff-merges=first-parent'', ''-M'', ''-C'', ''--raw'', ''--numstat'', ''-z'', ''--format='' @ git_format]"

text \<open>
  The run of Git on a list of arguments and with an output bound is a parameter, as are the mailmap file and the
  root as text. The first poll of the cancellation flag is that before the loop.
\<close>

definition read_history_facts ::
  "facts_env \<Rightarrow> bool \<Rightarrow> mailmap_file \<Rightarrow> (string list \<Rightarrow> nat \<Rightarrow> (string, string) result) \<Rightarrow> string \<Rightarrow> string
     \<Rightarrow> (string, HistoryFactsBatch) result option" where
  "read_history_facts env cancelled mailmap_state run_git root revision_range =
     (if cancelled then Some (Inl ''History facts read cancelled'')
      else case read_mailmap mailmap_state of
             None \<Rightarrow> None
           | Some (Inl error) \<Rightarrow> Some (Inl error)
           | Some (Inr (mailmap, mailmap_fingerprint)) \<Rightarrow>
               Some (and_then (run_git (git_arguments revision_range) (li_output_bytes default_limits)) (\<lambda>out.
                 and_then (parse_history_facts env out default_limits mailmap (stable_graph_id ''history-repository-v1'' root))
                   (\<lambda>batch. Inr (batch\<lparr>hb_mailmap_fingerprint := mailmap_fingerprint\<rparr>)))))"

definition read_all_history_facts ::
  "facts_env \<Rightarrow> bool \<Rightarrow> mailmap_file \<Rightarrow> (string list \<Rightarrow> nat \<Rightarrow> (string, string) result) \<Rightarrow> string
     \<Rightarrow> (string, HistoryFactsBatch) result option" where
  "read_all_history_facts env cancelled mailmap_state run_git root =
     read_history_facts env cancelled mailmap_state run_git root ''HEAD''"

definition read_history_facts_since ::
  "facts_env \<Rightarrow> bool \<Rightarrow> mailmap_file \<Rightarrow> (string list \<Rightarrow> nat \<Rightarrow> (string, string) result) \<Rightarrow> string \<Rightarrow> string
     \<Rightarrow> (string, HistoryFactsBatch) result option" where
  "read_history_facts_since env cancelled mailmap_state run_git root from_exclusive =
     (case validate_full_sha from_exclusive None of
        Inl error \<Rightarrow> Some (Inl error)
      | Inr _ \<Rightarrow> read_history_facts env cancelled mailmap_state run_git root (from_exclusive @ ''..HEAD''))"

end
