(* ===== verification/History_State.thy ===== *)
theory History_State
  imports History_Delta
begin

text \<open>
  The reconstruction of the snapshot of a revision (\<open>commands/history_graph/state.rs\<close>): the walk along first
  parents to a checkpoint and the replay of the stored deltas from there. The reads of the database are
  the record \<open>history_reads\<close>. On reads that are faithful to what was stored there is a result exactly if
  the way down and the deltas are there, and it has the content of the snapshot of the revision, up to
  the order of its lists, which differs between a freshly extracted, a stored and a replayed snapshot.
\<close>

section \<open>The reconstruction of a revision\<close>

definition MAX_HISTORY_LIMIT :: nat where "MAX_HISTORY_LIMIT = 2000"

text \<open>
  What the reconstruction reads from the database: the parents of an indexed revision, the compatible
  ready checkpoints of a repository, a stored snapshot, compressed or in rows, and a stored delta. A
  read may fail with a message.
\<close>

record history_reads =
  hr_parents :: "string \<Rightarrow> string \<Rightarrow> (string, string list option) result"
  hr_checkpoints :: "string \<Rightarrow> (string, (string \<times> string) list) result"
  hr_snapshot_blob :: "string \<Rightarrow> string \<Rightarrow> (string, StructuralGraphSnapshot option) result"
  hr_snapshot_rows :: "string \<Rightarrow> string \<Rightarrow> (string, StructuralGraphSnapshot option) result"
  hr_delta :: "string \<Rightarrow> string \<Rightarrow> string \<Rightarrow> (string, HistoryStructuralDelta option) result"

text \<open>The walk to a checkpoint along first parents; the current revision is the head of the chain.\<close>

function materialization_chain ::
  "history_reads \<Rightarrow> string \<Rightarrow> (string \<rightharpoonup> string) \<Rightarrow> nat \<Rightarrow> string list \<Rightarrow> (string, string list option) result" where
  "materialization_chain reads repo checkpoints checkpoint_count chain =
     (case chain of
        [] \<Rightarrow> Inr None
      | current # _ \<Rightarrow>
          if checkpoints current \<noteq> None then Inr (Some chain)
          else if length chain > MAX_HISTORY_LIMIT + checkpoint_count + 1 then Inr None
          else and_then (hr_parents reads repo current) (\<lambda>parents.
            case parents of
              Some (parent # _) \<Rightarrow>
                and_then (hr_parents reads repo parent) (\<lambda>indexed.
                  if indexed = None \<or> parent \<in> set chain then Inr None
                  else materialization_chain reads repo checkpoints checkpoint_count (parent # chain))
            | _ \<Rightarrow> Inr None))"
  by pat_completeness auto
termination
  by (relation "measure (\<lambda>(reads, repo, checkpoints, count, chain). MAX_HISTORY_LIMIT + count + 2 - length chain)") auto

declare materialization_chain.simps [simp del]

definition load_snapshot ::
  "history_reads \<Rightarrow> string \<Rightarrow> string \<Rightarrow> string \<Rightarrow> (string, StructuralGraphSnapshot option) result" where
  "load_snapshot reads repo storage_key snapshot_id =
     and_then (hr_snapshot_blob reads repo snapshot_id) (\<lambda>blob.
       case blob of
         Some snapshot \<Rightarrow> Inr (Some snapshot)
       | None \<Rightarrow> hr_snapshot_rows reads storage_key snapshot_id)"

fun replay_deltas ::
  "history_reads \<Rightarrow> string \<Rightarrow> string \<Rightarrow> string list \<Rightarrow> StructuralGraphSnapshot
     \<Rightarrow> (string, StructuralGraphSnapshot option) result" where
  "replay_deltas reads repo storage_key (before # after # revisions) snapshot =
     and_then (hr_delta reads repo before after) (\<lambda>found.
       case found of
         None \<Rightarrow> Inr None
       | Some delta \<Rightarrow>
           if hd_before_revision delta \<noteq> before \<or> hd_after_revision delta \<noteq> after \<or>
              hd_before_snapshot_id delta \<noteq> ss_id snapshot
           then Inr None
           else and_then (load_snapshot reads repo storage_key (hd_after_snapshot_id delta)) (\<lambda>stored.
             case stored of
               Some later \<Rightarrow> replay_deltas reads repo storage_key (after # revisions) later
             | None \<Rightarrow>
                 if hd_materialization_version delta = 1
                 then and_then (apply_structural_delta snapshot delta)
                        (replay_deltas reads repo storage_key (after # revisions))
                 else Inr None))"
| "replay_deltas reads repo storage_key revisions snapshot = Inr (Some snapshot)"

definition reconstruct_history_as_of ::
  "history_reads \<Rightarrow> string \<Rightarrow> string \<Rightarrow> string \<Rightarrow> (string, StructuralGraphSnapshot option) result" where
  "reconstruct_history_as_of reads repo storage_key target =
     and_then (hr_parents reads repo target) (\<lambda>target_row.
       if target_row = None then Inr None
       else and_then (hr_checkpoints reads repo) (\<lambda>rows.
         and_then (materialization_chain reads repo (map_of (rev rows)) (length (remdups (map fst rows))) [target])
           (\<lambda>found. case found of
              None \<Rightarrow> Inr None
            | Some chain \<Rightarrow>
                (case map_of (rev rows) (hd chain) of
                   None \<Rightarrow> Inr None
                 | Some snapshot_id \<Rightarrow>
                     and_then (load_snapshot reads repo storage_key snapshot_id) (\<lambda>stored.
                       case stored of
                         None \<Rightarrow> Inr None
                       | Some snapshot \<Rightarrow>
                           and_then (replay_deltas reads repo storage_key chain snapshot) (\<lambda>rebuilt.
                             case rebuilt of
                               None \<Rightarrow> Inr None
                             | Some s \<Rightarrow> if ss_repo_head s = Some target then Inr (Some s) else Inr None))))))"

text \<open>
  Equal content: two snapshots that differ at most in the order of their keyed lists. The extraction
  orders nodes and edges by kind, the tables by kind and label, the replay by identifier.
\<close>

definition same_content :: "StructuralGraphSnapshot \<Rightarrow> StructuralGraphSnapshot \<Rightarrow> bool" where
  "same_content s t \<longleftrightarrow>
     mset (ss_nodes s) = mset (ss_nodes t) \<and> mset (ss_edges s) = mset (ss_edges t) \<and>
     mset (ss_files s) = mset (ss_files t) \<and> mset (ss_metrics s) = mset (ss_metrics t) \<and>
     mset (ss_clone_groups s) = mset (ss_clone_groups t) \<and> mset (ss_communities s) = mset (ss_communities t) \<and>
     ss_schema_version s = ss_schema_version t \<and> ss_id s = ss_id t \<and> ss_repo_path s = ss_repo_path t \<and>
     ss_repo_head s = ss_repo_head t \<and> ss_created_at s = ss_created_at t \<and> ss_engine s = ss_engine t \<and>
     ss_cursor s = ss_cursor t \<and> ss_ignore_fingerprint s = ss_ignore_fingerprint t \<and>
     ss_coverage s = ss_coverage t \<and> ss_diagnostics s = ss_diagnostics t \<and> ss_truncated s = ss_truncated t"

text \<open>
  The database tells the truth: what it stores of a revision has the content of the snapshot of that
  revision (its numbers read back exactly), and a stored delta was computed, from snapshots of that
  content, without cutting a list.
\<close>

definition faithful_history ::
  "history_reads \<Rightarrow> string \<Rightarrow> string \<Rightarrow> (string \<Rightarrow> StructuralGraphSnapshot) \<Rightarrow> bool" where
  "faithful_history reads repo storage_key truth \<longleftrightarrow>
     (\<forall>rows sha snapshot_id. hr_checkpoints reads repo = Inr rows \<longrightarrow> (sha, snapshot_id) \<in> set rows \<longrightarrow>
        snapshot_id = ss_id (truth sha)) \<and>
     (\<forall>sha s. hr_snapshot_blob reads repo (ss_id (truth sha)) = Inr (Some s) \<longrightarrow> same_content s (truth sha)) \<and>
     (\<forall>sha s. hr_snapshot_rows reads storage_key (ss_id (truth sha)) = Inr (Some s) \<longrightarrow> same_content s (truth sha)) \<and>
     (\<forall>a b delta. hr_delta reads repo a b = Inr (Some delta) \<longrightarrow>
        (\<exists>env changes before after. structural_delta env repo a b before after changes = Inr delta \<and>
           same_content before (truth a) \<and> same_content after (truth b) \<and> exact_equality env before after \<and>
           \<not> gd_truncated (diff_snapshots before after)) \<and>
        same_frame (truth a) (truth b)) \<and>
     (\<forall>sha. keyed_snapshot (truth sha) \<and> ss_repo_head (truth sha) = Some sha)"

lemma same_content_trans: "same_content s t \<Longrightarrow> same_content t u \<Longrightarrow> same_content s u"
  by (simp add: same_content_def)

lemma same_content_sym: "same_content s t \<Longrightarrow> same_content t s"
  by (simp add: same_content_def)

lemma in_order_same: "same_content (in_order s) s"
  by (simp add: same_content_def in_order_def)

lemma same_content_keyed:
  assumes "same_content s t" "keyed_snapshot t"
  shows "keyed_snapshot s"
proof -
  have keys: "distinct (map key xs) \<longleftrightarrow> distinct (map key ys)" if "mset xs = mset ys"
    for key :: "'a \<Rightarrow> string" and xs ys
    by (rule mset_eq_imp_distinct_iff) (simp add: that)
  show ?thesis
    using assms keys [of "ss_nodes s" "ss_nodes t" sn_id] keys [of "ss_edges s" "ss_edges t" se_id]
      keys [of "ss_files s" "ss_files t" fr_path] keys [of "ss_metrics s" "ss_metrics t" mf_id]
      keys [of "ss_clone_groups s" "ss_clone_groups t" cg_id]
    by (simp add: keyed_snapshot_def same_content_def)
qed

lemma apply_same_content:
  assumes "same_content s t" "apply_structural_delta t delta = Inr later"
  shows "\<exists>rebuilt. apply_structural_delta s delta = Inr rebuilt \<and> same_content rebuilt later"
  using assms by (auto simp: apply_structural_delta_def same_content_def apply_list_def split: if_splits)

text \<open>Inversion of a read that may find nothing.\<close>

lemma found_iff:
  "(case x of None \<Rightarrow> Inr None | Some y \<Rightarrow> g y) = Inr (Some s) \<longleftrightarrow> (\<exists>y. x = Some y \<and> g y = Inr (Some s))"
  "(if b then Inr None else m) = Inr (Some s) \<longleftrightarrow> \<not> b \<and> m = Inr (Some s)"
  "(if b then m else Inr None) = Inr (Some s) \<longleftrightarrow> b \<and> m = Inr (Some s)"
  "(case ys of [] \<Rightarrow> Inr None | y # _ \<Rightarrow> h y) = Inr (Some s) \<longleftrightarrow> (\<exists>y rest. ys = y # rest \<and> h y = Inr (Some s))"
  by (auto split: option.splits list.splits)

lemma load_snapshot_truth:
  assumes "faithful_history reads repo storage_key truth"
    and "load_snapshot reads repo storage_key (ss_id (truth sha)) = Inr (Some s)"
  shows "same_content s (truth sha)"
  using assms unfolding load_snapshot_def faithful_history_def by (auto simp: and_then_Inr_iff split: option.splits)

lemma stored_delta:
  assumes "faithful_history reads repo storage_key truth" "hr_delta reads repo a b = Inr (Some delta)"
  shows "same_content s (truth a) \<Longrightarrow>
      \<exists>rebuilt. apply_structural_delta s delta = Inr rebuilt \<and> same_content rebuilt (truth b)"
    and "hd_after_snapshot_id delta = ss_id (truth b)" "hd_before_snapshot_id delta = ss_id (truth a)"
    and "hd_before_revision delta = a" "hd_after_revision delta = b" "hd_materialization_version delta = 1"
proof -
  obtain env changes before after where d: "structural_delta env repo a b before after changes = Inr delta"
    "same_content before (truth a)" "same_content after (truth b)" "exact_equality env before after"
    "\<not> gd_truncated (diff_snapshots before after)"
    and frame: "same_frame (truth a) (truth b)"
    using assms unfolding faithful_history_def by blast
  have t: "keyed_snapshot (truth a)" "keyed_snapshot (truth b)" "ss_repo_head (truth b) = Some b"
    using assms(1) unfolding faithful_history_def by blast+
  have "same_frame before after" "ss_repo_head after = Some b"
    using frame t(3) d(2,3) by (simp_all add: same_frame_def same_content_def)
  then have "apply_structural_delta before delta = Inr (in_order after)"
    using structural_delta_replayed [OF d(1) same_content_keyed [OF d(2) t(1)] same_content_keyed [OF d(3) t(2)] _ d(4) _ d(5)]
    by blast
  then show "\<exists>rebuilt. apply_structural_delta s delta = Inr rebuilt \<and> same_content rebuilt (truth b)"
    if "same_content s (truth a)"
    using apply_same_content [OF same_content_trans [OF that same_content_sym [OF d(2)]]]
      same_content_trans [OF _ same_content_trans [OF in_order_same d(3)]] by blast
  have "hd_after_snapshot_id delta = ss_id after" "hd_before_snapshot_id delta = ss_id before"
    and "hd_before_revision delta = a" "hd_after_revision delta = b" "hd_materialization_version delta = 1"
    using d(1) by (auto simp: structural_delta_def Let_def and_then_Inr_iff)
  then show "hd_after_snapshot_id delta = ss_id (truth b)" "hd_before_snapshot_id delta = ss_id (truth a)"
    "hd_before_revision delta = a" "hd_after_revision delta = b" "hd_materialization_version delta = 1"
    using d(2,3) by (simp_all add: same_content_def)
qed

text \<open>
  What a reconstruction needs: the way along first parents from the target down to the last checkpoint
  on it, the snapshot of that checkpoint, and a stored delta for every step back up. A snapshot stored
  on the way may be missing, but its read must not fail.
\<close>

fun parent_chain :: "history_reads \<Rightarrow> string \<Rightarrow> string list \<Rightarrow> bool" where
  "parent_chain reads repo (a # b # chain) \<longleftrightarrow>
     (\<exists>rest. hr_parents reads repo b = Inr (Some (a # rest))) \<and> (\<exists>found. hr_parents reads repo a = Inr (Some found)) \<and>
     parent_chain reads repo (b # chain)"
| "parent_chain reads repo chain \<longleftrightarrow> True"

fun deltas_stored :: "history_reads \<Rightarrow> string \<Rightarrow> string \<Rightarrow> (string \<Rightarrow> StructuralGraphSnapshot) \<Rightarrow> string list \<Rightarrow> bool" where
  "deltas_stored reads repo storage_key truth (a # b # chain) \<longleftrightarrow>
     (\<exists>delta. hr_delta reads repo a b = Inr (Some delta)) \<and>
     (\<exists>stored. load_snapshot reads repo storage_key (ss_id (truth b)) = Inr stored) \<and>
     deltas_stored reads repo storage_key truth (b # chain)"
| "deltas_stored reads repo storage_key truth chain \<longleftrightarrow> True"

definition reconstructible ::
  "history_reads \<Rightarrow> string \<Rightarrow> string \<Rightarrow> (string \<Rightarrow> StructuralGraphSnapshot) \<Rightarrow> string \<Rightarrow> bool" where
  "reconstructible reads repo storage_key truth target \<longleftrightarrow>
     (\<exists>rows below parents. let chain = below @ [target] in
        hr_checkpoints reads repo = Inr rows \<and> hr_parents reads repo target = Inr (Some parents) \<and>
        parent_chain reads repo chain \<and> distinct chain \<and>
        (below = [] \<or> length chain \<le> MAX_HISTORY_LIMIT + length (remdups (map fst rows)) + 2) \<and>
        hd chain \<in> fst ` set rows \<and> set (tl chain) \<inter> fst ` set rows = {} \<and>
        (\<exists>s. load_snapshot reads repo storage_key (ss_id (truth (hd chain))) = Inr (Some s)) \<and>
        deltas_stored reads repo storage_key truth chain)"

lemma parent_chain_snoc:
  "parent_chain reads repo (below @ [a, b]) \<longleftrightarrow> parent_chain reads repo (below @ [a]) \<and>
     (\<exists>rest. hr_parents reads repo b = Inr (Some (a # rest))) \<and> (\<exists>found. hr_parents reads repo a = Inr (Some found))"
  by (induction reads repo below rule: parent_chain.induct) (auto, (case_tac chain; auto)?)

lemma replay_exact:
  assumes f: "faithful_history reads repo storage_key truth"
  shows "chain \<noteq> [] \<Longrightarrow> same_content s0 (truth (hd chain)) \<Longrightarrow>
    (if deltas_stored reads repo storage_key truth chain
     then \<exists>s. replay_deltas reads repo storage_key chain s0 = Inr (Some s) \<and> same_content s (truth (last chain))
     else \<not> (\<exists>s. replay_deltas reads repo storage_key chain s0 = Inr (Some s)))"
proof (induction chain arbitrary: s0)
  case (Cons a rest)
  show ?case
  proof (cases rest)
    case (Cons b more)
    have start: "ss_id s0 = ss_id (truth a)" "same_content s0 (truth a)"
      using Cons.prems(2) by (simp_all add: same_content_def)
    show ?thesis
    proof (cases "\<exists>delta stored. hr_delta reads repo a b = Inr (Some delta) \<and>
        load_snapshot reads repo storage_key (ss_id (truth b)) = Inr stored")
      case True
      then obtain delta stored where d: "hr_delta reads repo a b = Inr (Some delta)"
        and l: "load_snapshot reads repo storage_key (ss_id (truth b)) = Inr stored" by blast
      note st = stored_delta [OF f d]
      obtain rebuilt where a: "apply_structural_delta s0 delta = Inr rebuilt" "same_content rebuilt (truth b)"
        using st(1) [OF start(2)] by blast
      define s1 where "s1 = (case stored of None \<Rightarrow> rebuilt | Some later \<Rightarrow> later)"
      have "same_content s1 (truth b)" using load_snapshot_truth [OF f, of b] l a(2) by (cases stored) (simp_all add: s1_def)
      moreover have "replay_deltas reads repo storage_key (a # rest) s0 = replay_deltas reads repo storage_key rest s1"
        using Cons d st(2-) l a(1) start(1) by (cases stored) (simp_all add: s1_def)
      moreover have "deltas_stored reads repo storage_key truth (a # rest) = deltas_stored reads repo storage_key truth rest"
        "last (a # rest) = last rest" "rest \<noteq> []" "hd rest = b" using Cons d l by simp_all
      ultimately show ?thesis using Cons.IH [of s1] by (simp only: if_True if_False split: if_splits) simp
    next
      case False
      have "\<not> (\<exists>s. replay_deltas reads repo storage_key (a # rest) s0 = Inr (Some s))"
      proof
        assume "\<exists>s. replay_deltas reads repo storage_key (a # rest) s0 = Inr (Some s)"
        then obtain delta where d: "hr_delta reads repo a b = Inr (Some delta)"
          using Cons by (auto simp: and_then_Inr_iff split: option.splits)
        moreover obtain stored where "load_snapshot reads repo storage_key (ss_id (truth b)) = Inr stored"
          using \<open>\<exists>s. replay_deltas reads repo storage_key (a # rest) s0 = Inr (Some s)\<close> Cons d stored_delta(2) [OF f d]
          by (auto simp: and_then_Inr_iff split: if_splits)
        ultimately show False using False by blast
      qed
      then show ?thesis using False Cons by auto
    qed
  qed (use Cons.prems in simp)
qed simp

lemma chain_iff:
  assumes "chain \<noteq> []"
  shows "materialization_chain reads repo checkpoints n chain = Inr (Some found) \<longleftrightarrow>
    (\<exists>below. found = below @ chain \<and> checkpoints (hd found) \<noteq> None \<and>
       (\<forall>sha\<in>set (tl (below @ [hd chain])). checkpoints sha = None) \<and> distinct below \<and> set below \<inter> set chain = {} \<and>
       parent_chain reads repo (below @ [hd chain]) \<and> (below = [] \<or> length found \<le> MAX_HISTORY_LIMIT + n + 2))"
  using assms
proof (induction reads repo checkpoints n chain rule: materialization_chain.induct)
  case (1 reads repo checkpoints n chain)
  obtain current rest where chain: "chain = current # rest" using 1(2) by (cases chain) auto
  show ?case
  proof (cases "checkpoints current = None")
    case False
    have "below = []" if "\<forall>sha\<in>set (tl (below @ [current])). checkpoints sha = None" for below
      using that False by (cases below) auto
    then show ?thesis
      using False unfolding chain by (subst materialization_chain.simps) (auto intro: exI [of _ "[]"])
  next
    case True
    let ?M = "MAX_HISTORY_LIMIT + n"
    have step: "materialization_chain reads repo checkpoints n chain = Inr (Some found) \<longleftrightarrow>
      (\<exists>parent ps indexed. length chain \<le> ?M + 1 \<and> hr_parents reads repo current = Inr (Some (parent # ps)) \<and>
         hr_parents reads repo parent = Inr (Some indexed) \<and> parent \<notin> set chain \<and>
         materialization_chain reads repo checkpoints n (parent # chain) = Inr (Some found))"
      using True unfolding chain by (subst materialization_chain.simps) (auto simp: found_iff and_then_Inr_iff not_less)
    have IH: "materialization_chain reads repo checkpoints n (parent # chain) = Inr (Some found) \<longleftrightarrow>
        (\<exists>below. found = below @ parent # chain \<and> checkpoints (hd found) \<noteq> None \<and>
          (\<forall>sha\<in>set (tl (below @ [parent])). checkpoints sha = None) \<and> distinct below \<and> set below \<inter> set (parent # chain) = {} \<and>
          parent_chain reads repo (below @ [parent]) \<and> (below = [] \<or> length found \<le> ?M + 2))"
      if "length chain \<le> ?M + 1" "hr_parents reads repo current = Inr (Some (parent # ps))"
        "hr_parents reads repo parent = Inr (Some indexed)" "parent \<notin> set chain" for parent ps indexed
      using "1.IH" [OF chain _ _ that(2) refl refl that(3)] True that(1,4) by simp
    show ?thesis (is "_ \<longleftrightarrow> (\<exists>below. ?R below)")
    proof
      assume "materialization_chain reads repo checkpoints n chain = Inr (Some found)"
      then obtain parent ps indexed where p: "length chain \<le> ?M + 1" "hr_parents reads repo current = Inr (Some (parent # ps))"
        "hr_parents reads repo parent = Inr (Some indexed)" "parent \<notin> set chain"
        and rest: "materialization_chain reads repo checkpoints n (parent # chain) = Inr (Some found)"
        unfolding step by (elim exE conjE)
      obtain below where b: "found = below @ parent # chain" "checkpoints (hd found) \<noteq> None"
          "\<forall>sha\<in>set (tl (below @ [parent])). checkpoints sha = None" "distinct below" "set below \<inter> set (parent # chain) = {}"
          "parent_chain reads repo (below @ [parent])" "below = [] \<or> length found \<le> ?M + 2"
        using rest unfolding IH [OF p] by (elim exE conjE)
      have "set (tl (below @ [parent, current])) = insert current (set (tl (below @ [parent])))" by (cases below) auto
      then have tail: "\<forall>sha\<in>set (tl ((below @ [parent]) @ [hd chain])). checkpoints sha = None"
        using b(3) True chain by simp
      have "parent_chain reads repo ((below @ [parent]) @ [hd chain])"
        using b(6) p(2,3) chain parent_chain_snoc [of reads repo below parent current] by simp
      moreover have "distinct (below @ [parent])" "set (below @ [parent]) \<inter> set chain = {}" using b(4,5) p(4) by auto
      moreover have "found = (below @ [parent]) @ chain" "length found \<le> ?M + 2" using b(1,7) p(1) by auto
      ultimately have "?R (below @ [parent])" using b(2) tail by blast
      then show "\<exists>below. ?R below" ..
    next
      assume "\<exists>below. ?R below"
      then obtain all where r: "?R all" ..
      then have "all \<noteq> []" using True chain by auto
      then obtain below parent where all: "all = below @ [parent]" by (metis rev_exhaust)
      have link: "parent_chain reads repo (below @ [parent, current])" using r all chain by simp
      then obtain ps indexed where p: "hr_parents reads repo current = Inr (Some (parent # ps))"
        "hr_parents reads repo parent = Inr (Some indexed)" unfolding parent_chain_snoc by blast
      have len: "length chain \<le> ?M + 1" "parent \<notin> set chain" using r all by auto
      have "set (tl (below @ [parent, current])) = insert current (set (tl (below @ [parent])))" by (cases below) auto
      then have "materialization_chain reads repo checkpoints n (parent # chain) = Inr (Some found)"
        unfolding IH [OF len(1) p len(2)] using r all link chain by (intro exI [of _ below]) (auto simp: parent_chain_snoc)
      then show "materialization_chain reads repo checkpoints n chain = Inr (Some found)"
        unfolding step using p len by blast
    qed
  qed
qed

text \<open>C29. Reconstruction tells the truth, and tells it whenever it can: on a faithful history the walk to a
  checkpoint and the replay of the deltas from there return a snapshot exactly if the revision is
  reconstructible (its first parents lead down to a checkpoint whose snapshot is stored, within the limit
  of the history, and every step up has a stored delta), and that snapshot has the content of the
  snapshot of the requested revision, every list up to its order.\<close>

theorem reconstruct_history_exact:
  assumes "faithful_history reads repo storage_key truth"
  shows "if reconstructible reads repo storage_key truth target
    then \<exists>s. reconstruct_history_as_of reads repo storage_key target = Inr (Some s) \<and> same_content s (truth target)
    else \<not> (\<exists>s. reconstruct_history_as_of reads repo storage_key target = Inr (Some s))"
proof -
  let ?n = "\<lambda>rows. length (remdups (map fst rows))"
  have checkpoint: "map_of (rev rows) sha = Some (ss_id (truth sha)) \<longleftrightarrow> sha \<in> fst ` set rows"
    "map_of (rev rows) sha = None \<longleftrightarrow> sha \<notin> fst ` set rows"
    if rows: "hr_checkpoints reads repo = Inr rows" for rows sha
  proof -
    show none: "map_of (rev rows) sha = None \<longleftrightarrow> sha \<notin> fst ` set rows" by (simp add: map_of_eq_None_iff)
    have "i = ss_id (truth sha)" if "map_of (rev rows) sha = Some i" for i
      using map_of_SomeD [OF that] assms rows unfolding faithful_history_def by auto
    then show "map_of (rev rows) sha = Some (ss_id (truth sha)) \<longleftrightarrow> sha \<in> fst ` set rows"
      using none by (cases "map_of (rev rows) sha") auto
  qed
  have head: "ss_repo_head s = Some target" if "same_content s (truth target)" for s
  proof -
    have "ss_repo_head (truth target) = Some target" using assms unfolding faithful_history_def by blast
    then show ?thesis using that by (simp add: same_content_def)
  qed
  show ?thesis
  proof (cases "reconstructible reads repo storage_key truth target")
    case True
    then obtain rows below parents snapshot where r: "hr_checkpoints reads repo = Inr rows"
      "hr_parents reads repo target = Inr (Some parents)" "parent_chain reads repo (below @ [target])"
      "distinct (below @ [target])" "below = [] \<or> length (below @ [target]) \<le> MAX_HISTORY_LIMIT + ?n rows + 2"
      "hd (below @ [target]) \<in> fst ` set rows" "set (tl (below @ [target])) \<inter> fst ` set rows = {}"
      "load_snapshot reads repo storage_key (ss_id (truth (hd (below @ [target])))) = Inr (Some snapshot)"
      "deltas_stored reads repo storage_key truth (below @ [target])"
      unfolding reconstructible_def Let_def by blast
    have "materialization_chain reads repo (map_of (rev rows)) (?n rows) [target] = Inr (Some (below @ [target]))"
      using r checkpoint [OF r(1)] by (subst chain_iff) auto
    moreover obtain s where s: "replay_deltas reads repo storage_key (below @ [target]) snapshot = Inr (Some s)"
      "same_content s (truth target)"
      using replay_exact [OF assms, of "below @ [target]" snapshot] r(9) load_snapshot_truth [OF assms r(8)] by auto
    moreover have "map_of (rev rows) (hd (below @ [target])) = Some (ss_id (truth (hd (below @ [target]))))"
      using checkpoint(1) [OF r(1)] r(6) by blast
    ultimately have "reconstruct_history_as_of reads repo storage_key target = Inr (Some s)"
      unfolding reconstruct_history_as_of_def using r(1,2,8) head by simp
    then show ?thesis using True s(2) by auto
  next
    case False
    have "reconstructible reads repo storage_key truth target"
      if run: "reconstruct_history_as_of reads repo storage_key target = Inr (Some s)" for s
    proof -
      obtain row rows chain snapshot_id snapshot where row: "hr_parents reads repo target = Inr row" "row \<noteq> None"
        and found: "hr_checkpoints reads repo = Inr rows"
        "materialization_chain reads repo (map_of (rev rows)) (?n rows) [target] = Inr (Some chain)"
        "map_of (rev rows) (hd chain) = Some snapshot_id"
        "load_snapshot reads repo storage_key snapshot_id = Inr (Some snapshot)"
        "replay_deltas reads repo storage_key chain snapshot = Inr (Some s)"
        using run unfolding reconstruct_history_as_of_def and_then_Inr_iff found_iff by blast
      obtain parents where "hr_parents reads repo target = Inr (Some parents)" using row by auto
      note r = this found
      obtain below where b: "chain = below @ [target]" "\<forall>sha\<in>set (tl (below @ [target])). map_of (rev rows) sha = None"
        "distinct below" "set below \<inter> set [target] = {}" "parent_chain reads repo (below @ [target])"
        "below = [] \<or> length chain \<le> MAX_HISTORY_LIMIT + ?n rows + 2"
        using r(3) by (subst (asm) chain_iff) auto
      have id: "snapshot_id = ss_id (truth (hd chain))" "hd chain \<in> fst ` set rows"
        using checkpoint [OF r(2), of "hd chain"] r(4) by auto
      then have "same_content snapshot (truth (hd chain))" using load_snapshot_truth [OF assms] r(5) by blast
      then have "deltas_stored reads repo storage_key truth chain"
        using replay_exact [OF assms, of chain snapshot] r(6) b(1) by (auto split: if_splits)
      then show ?thesis
        unfolding reconstructible_def Let_def using r id b checkpoint(2) [OF r(2)]
        by (intro exI [of _ rows] exI [of _ below] exI [of _ parents]) auto
    qed
    then show ?thesis using False by auto
  qed
qed

section \<open>A sample\<close>

text \<open>
  Two nodes for every revision, out of the order of their identifiers; the checkpoint holds them the
  other way around, as the tables do, and the delta was computed from the extracted snapshots.
\<close>

definition revision_pair :: "string \<Rightarrow> StructuralGraphSnapshot" where
  "revision_pair sha = (sample_snapshot_of [sample_graph_node (sha @ ''z''), sample_graph_node sha] [])
     \<lparr>ss_id := sha, ss_repo_head := Some sha\<rparr>"

definition sample_history :: history_reads where
  "sample_history = \<lparr>
     hr_parents = (\<lambda>_ sha. Inr (if sha = ''b'' then Some [''a''] else if sha = ''a'' then Some [] else None)),
     hr_checkpoints = (\<lambda>_. Inr [(''a'', ''a'')]),
     hr_snapshot_blob = (\<lambda>_ i. Inr (if i = ''a'' then Some (in_order (revision_pair ''a'')) else None)),
     hr_snapshot_rows = (\<lambda>_ _. Inr None),
     hr_delta = (\<lambda>repo x y. if (x, y) = (''a'', ''b'')
       then map_sum (\<lambda>e. e) Some (structural_delta sample_delta_env repo x y (revision_pair x) (revision_pair y) [])
       else Inr None)\<rparr>"

lemma revision_pair_conditions:
  "keyed_snapshot (revision_pair sha)" "ss_repo_head (revision_pair sha) = Some sha" "ss_id (revision_pair sha) = sha"
  "same_frame (revision_pair a) (revision_pair b)" "exact_equality sample_delta_env (revision_pair a) (revision_pair b)"
  "\<not> gd_truncated (diff_snapshots (revision_pair a) (revision_pair b))" "same_content (revision_pair a) (revision_pair a)"
proof -
  show "\<not> gd_truncated (diff_snapshots (revision_pair a) (revision_pair b))"
    by (rule diff_snapshots_short) (simp_all add: MAX_DIFF_IDS_def revision_pair_def sample_snapshot_of_def)
qed (simp_all add: keyed_snapshot_def same_frame_def exact_equality_def revision_pair_def sample_snapshot_of_def same_content_def)

lemma sample_faithful: "faithful_history sample_history repo key revision_pair"
proof -
  have "structural_delta sample_delta_env repo a b (revision_pair a) (revision_pair b) [] = Inr delta"
    if "hr_delta sample_history repo a b = Inr (Some delta)" for a b delta
    using that by (cases "structural_delta sample_delta_env repo a b (revision_pair a) (revision_pair b) []")
      (auto simp: sample_history_def split: if_splits)
  then show ?thesis
    unfolding faithful_history_def
    using revision_pair_conditions in_order_same
    by (intro conjI allI impI) (fastforce simp: sample_history_def revision_pair_conditions split: if_splits)+
qed

theorem reconstruct_history_exact_witness:
  "\<exists>s. reconstruct_history_as_of sample_history ''/r'' ''k'' ''b'' = Inr (Some s) \<and> same_content s (revision_pair ''b'')"
proof -
  obtain delta where d: "structural_delta sample_delta_env ''/r'' ''a'' ''b'' (revision_pair ''a'') (revision_pair ''b'') [] =
    Inr delta" using sample_delta_exists by blast
  have h: "hr_delta sample_history ''/r'' ''a'' ''b'' = Inr (Some delta)" using d by (simp add: sample_history_def)
  note st = stored_delta [OF sample_faithful h]
  have loads: "load_snapshot sample_history ''/r'' ''k'' ''a'' = Inr (Some (in_order (revision_pair ''a'')))"
    "load_snapshot sample_history ''/r'' ''k'' ''b'' = Inr None"
    by (simp_all add: load_snapshot_def sample_history_def)
  obtain s where s: "apply_structural_delta (in_order (revision_pair ''a'')) delta = Inr s" "same_content s (revision_pair ''b'')"
    using st(1) [OF in_order_same] by blast
  have ids: "ss_id (in_order (revision_pair ''a'')) = ''a''" "ss_repo_head s = Some ''b''"
    using s(2) by (simp_all add: in_order_def revision_pair_conditions same_content_def)
  have chain: "materialization_chain sample_history ''/r'' [''a'' \<mapsto> ''a''] (Suc 0) [''b''] = Inr (Some [''a'', ''b''])"
    by (subst materialization_chain.simps, simp add: sample_history_def MAX_HISTORY_LIMIT_def)
      (subst materialization_chain.simps, simp)
  have "replay_deltas sample_history ''/r'' ''k'' [''a'', ''b''] (in_order (revision_pair ''a'')) = Inr (Some s)"
    using h st(2-) loads(2) s(1) ids(1) by (simp add: revision_pair_conditions)
  then have "reconstruct_history_as_of sample_history ''/r'' ''k'' ''b'' = Inr (Some s)"
    using chain loads(1) ids(2) unfolding reconstruct_history_as_of_def by (simp add: sample_history_def)
  then show ?thesis
    using reconstruct_history_exact [OF sample_faithful, of "''/r''" "''k''" "''b''"] by (auto split: if_splits)
qed

end
