(* ===== verification/History_Timeline.thy ===== *)
theory History_Timeline
  imports History_Facts History_State
begin

text \<open>
  The timeline of a repository over its Git facts: the tags of Git (\<open>commands/git_metadata.rs\<close>,
  \<open>history_graph/catalog/git.rs\<close>, \<open>catalog/facts.rs\<close>), the window of revisions and its release ranges
  (\<open>build_timeline_bundle_from_facts\<close> and \<open>release_ranges\<close> of \<open>history_graph/catalog/mod.rs\<close>), and the release
  intervals with the walk over the parents (\<open>catalog/intervals.rs\<close>). The answers of Git, the root and the
  clock are arguments; a panic of the code is the value \<open>None\<close>.
\<close>

section \<open>Tags\<close>

record GitTagRecord =
  gt_name :: string
  gt_object_sha :: string
  gt_commit_sha :: string
  gt_created_ts :: int

text \<open>\<open>str::splitn\<close> on one byte, and \<open>str::parse::<i64>\<close>.\<close>

fun splitn :: "nat \<Rightarrow> char \<Rightarrow> string \<Rightarrow> string list" where
  "splitn 0 c s = []"
| "splitn (Suc 0) c s = [s]"
| "splitn (Suc (Suc n)) c s =
     (case dropWhile (\<lambda>x. x \<noteq> c) s of
        [] \<Rightarrow> [s]
      | _ # rest \<Rightarrow> takeWhile (\<lambda>x. x \<noteq> c) s # splitn (Suc n) c rest)"

definition parse_i64 :: "string \<Rightarrow> int option" where
  "parse_i64 s =
     (let negative = (case s of c # _ \<Rightarrow> c = CHR ''-'' | [] \<Rightarrow> False);
          digits = (case s of [] \<Rightarrow> [] | c # cs \<Rightarrow> if c = CHR ''+'' \<or> c = CHR ''-'' then cs else s);
          v = (if negative then - int (digits_value digits) else int (digits_value digits))
      in if digits = [] \<or> \<not> list_all is_ascii_digit digits \<or> v < - (2 ^ 63) \<or> v > 2 ^ 63 - 1 then None else Some v)"

definition parse_tag_line :: "string \<Rightarrow> GitTagRecord option" where
  "parse_tag_line line =
     (case splitn 4 (CHR 0x09) line of
        [name, object_sha, peeled, created] \<Rightarrow>
          (let created_ts = (case parse_i64 created of None \<Rightarrow> 0 | Some n \<Rightarrow> n)
           in if name = [] \<or> created_ts \<le> 0 then None
              else Some \<lparr>gt_name = name, gt_object_sha = object_sha,
                gt_commit_sha = (if peeled = [] then object_sha else peeled), gt_created_ts = created_ts\<rparr>)
      | _ \<Rightarrow> None)"

text \<open>The text Git printed, or the message of its failure, is a parameter.\<close>

definition read_git_tags :: "(string, string) result \<Rightarrow> (string, GitTagRecord list) result" where
  "read_git_tags printed =
     and_then printed (\<lambda>text.
       Inr (sort_key (\<lambda>tag. (gt_name tag, gt_object_sha tag)) (List.map_filter parse_tag_line (rust_lines text))))"

definition is_release_tag :: "string \<Rightarrow> bool" where
  "is_release_tag tag =
     (let normalized = dropWhile (\<lambda>c. c = CHR ''V'') (dropWhile (\<lambda>c. c = CHR ''v'') tag);
          head = takeWhile (\<lambda>c. c \<noteq> CHR ''-'' \<and> c \<noteq> CHR ''+'') normalized
      in normalized \<noteq> [] \<and> list_all (\<lambda>c. is_ascii_digit c \<or> c = CHR ''.'') head \<and>
         length (filter is_ascii_digit head) > 0 \<and> length (filter (\<lambda>c. c = CHR ''.'') head) \<ge> 1)"

definition tags_by_commit_from_records :: "GitTagRecord list \<Rightarrow> string \<rightharpoonup> string list" where
  "tags_by_commit_from_records records sha =
     (case filter (\<lambda>tag. gt_commit_sha tag = sha) records of
        [] \<Rightarrow> None
      | tags \<Rightarrow> Some (sort (map gt_name tags)))"

definition int_text :: "int \<Rightarrow> string" where
  "int_text n = (if n < 0 then CHR ''-'' # decimal (nat (- n)) else decimal (nat n))"

definition tag_identity :: "GitTagRecord \<Rightarrow> string" where
  "tag_identity tag = join_str [CHR 0x00] [gt_name tag, gt_object_sha tag, gt_commit_sha tag, int_text (gt_created_ts tag)]"

definition release_tag_fingerprint :: "GitTagRecord list \<Rightarrow> string" where
  "release_tag_fingerprint tags =
     stable_graph_id ''tags''
       (join_str [CHR 0x00] (sort (map tag_identity (filter (\<lambda>tag. is_release_tag (gt_name tag)) tags))))"

definition all_tags_fingerprint :: "GitTagRecord list \<Rightarrow> string" where
  "all_tags_fingerprint tags = stable_graph_id ''history-all-tags-v1'' (join_str [CHR 0x00] (sort (map tag_identity tags)))"

section \<open>The timeline\<close>

definition DEFAULT_HISTORY_LIMIT :: nat where "DEFAULT_HISTORY_LIMIT = 250"

record HistoryRevision =
  hv_sha :: string
  hv_short_sha :: string
  hv_parents :: "string list"
  hv_committed_at :: string
  hv_author :: string
  hv_subject :: string
  hv_tags :: "string list"
  hv_is_release :: bool
  hv_is_head :: bool
  hv_ordinal :: int

record HistoryReleaseRange =
  rr_id :: string
  rr_label :: string
  rr_tag :: "string option"
  rr_from_exclusive :: "string option"
  rr_to_inclusive :: string
  rr_commit_shas :: "string list"
  rr_is_unreleased :: bool

record HistoryTimeline =
  ht_schema_version :: int
  ht_repo_path :: string
  ht_head :: string
  ht_generated_at :: string
  ht_revisions :: "HistoryRevision list"
  ht_total_commits :: nat
  ht_truncated :: bool
  ht_is_shallow :: bool
  ht_coverage_complete :: bool
  ht_release_ranges :: "HistoryReleaseRange list"
  ht_reachable_revisions :: "string list"

record HistoryTimelineBuild =
  tb_timeline :: HistoryTimeline
  tb_fact_git_process_count :: nat
  tb_facts :: "HistoryRevisionFact list"
  tb_mailmap_fingerprint :: string
  tb_facts_fingerprint :: string

text \<open>The map from revisions to facts: the last fact of a revision.\<close>

definition facts_by_revision :: "HistoryTimelineBuild \<Rightarrow> string \<rightharpoonup> HistoryRevisionFact" where
  "facts_by_revision build = identity_map rf_sha (tb_facts build)"

fun path_change_kind :: "HistoryPathStatus \<Rightarrow> string option" where
  "path_change_kind Path_Added = Some ''added''"
| "path_change_kind Path_Copied = Some ''copied''"
| "path_change_kind Path_Deleted = Some ''deleted''"
| "path_change_kind Path_Modified = Some ''modified''"
| "path_change_kind Path_Renamed = Some ''renamed''"
| "path_change_kind Path_TypeChanged = Some ''type_changed''"
| "path_change_kind Path_Unmerged = Some ''unmerged''"
| "path_change_kind Path_Unknown = None"

definition path_change_of :: "HistoryPathFact \<Rightarrow> HistoryPathChange option" where
  "path_change_of path =
     map_option (\<lambda>kind. \<lparr>hp_path = pf_path path, hp_change_kind = kind, hp_old_path = pf_old_path path,
       hp_additions = pf_additions path, hp_deletions = pf_deletions path\<rparr>) (path_change_kind (pf_status path))"

definition collect_options :: "'a option list \<Rightarrow> 'a list option" where
  "collect_options xs = (if None \<in> set xs then None else Some (map the xs))"

definition path_changes_between :: "HistoryTimelineBuild \<Rightarrow> string \<Rightarrow> string \<Rightarrow> HistoryPathChange list option" where
  "path_changes_between build before_revision after_revision =
     (case facts_by_revision build after_revision of
        None \<Rightarrow> None
      | Some revision \<Rightarrow>
          if (case rf_parents revision of [] \<Rightarrow> None | parent # _ \<Rightarrow> Some parent) \<noteq> Some before_revision then None
          else collect_options (map path_change_of (rf_paths revision)))"

text \<open>The first eight bytes of the name; a shorter name, or one cut inside of a character, is a panic.\<close>

definition timeline_revision ::
  "HistoryRevisionFact \<Rightarrow> int \<Rightarrow> (string \<rightharpoonup> string list) \<Rightarrow> string \<Rightarrow> HistoryRevision option" where
  "timeline_revision found ordinal tags head =
     (let revision_tags = (case tags (rf_sha found) of None \<Rightarrow> [] | Some ts \<Rightarrow> ts)
      in if len (rf_sha found) < 8 \<or> len (rf_sha found) > 8 \<and> is_continuation (rf_sha found ! 8) then None
         else Some \<lparr>hv_sha = rf_sha found, hv_short_sha = take 8 (rf_sha found), hv_parents = rf_parents found,
           hv_committed_at = rf_committed_at found, hv_author = if_display_name (rf_primary found),
           hv_subject = rf_subject found, hv_tags = revision_tags,
           hv_is_release = list_ex is_release_tag revision_tags, hv_is_head = (rf_sha found = head),
           hv_ordinal = ordinal\<rparr>)"

record range_state =
  rs_ranges :: "HistoryReleaseRange list"
  rs_start :: nat
  rs_previous :: "string option"

definition release_range :: "HistoryRevision list \<Rightarrow> range_state \<Rightarrow> nat \<Rightarrow> HistoryRevision \<Rightarrow> HistoryReleaseRange" where
  "release_range revisions st index revision =
     (let tag = find is_release_tag (hv_tags revision)
      in \<lparr>rr_id = stable_graph_id ''release-range'' (hv_sha revision @ [CHR 0x00] @ (case tag of None \<Rightarrow> [] | Some t \<Rightarrow> t)),
          rr_label = (case tag of None \<Rightarrow> ''Release '' @ hv_short_sha revision | Some t \<Rightarrow> t),
          rr_tag = tag, rr_from_exclusive = rs_previous st, rr_to_inclusive = hv_sha revision,
          rr_commit_shas = map hv_sha (take (Suc index - rs_start st) (drop (rs_start st) revisions)),
          rr_is_unreleased = False\<rparr>)"

definition range_step :: "HistoryRevision list \<Rightarrow> range_state \<Rightarrow> nat \<times> HistoryRevision \<Rightarrow> range_state" where
  "range_step revisions st = (\<lambda>(index, revision).
     if \<not> hv_is_release revision then st
     else \<lparr>rs_ranges = rs_ranges st @ [release_range revisions st index revision], rs_start = Suc index,
       rs_previous = Some (hv_sha revision)\<rparr>)"

definition release_ranges :: "HistoryRevision list \<Rightarrow> string \<Rightarrow> HistoryReleaseRange list" where
  "release_ranges revisions head =
     (let st = foldl (range_step revisions) \<lparr>rs_ranges = [], rs_start = 0, rs_previous = None\<rparr> (enumerate 0 revisions)
      in rs_ranges st @ [\<lparr>rr_id = stable_graph_id ''release-range''
            (''unreleased'' @ [CHR 0x00] @ (case rs_previous st of None \<Rightarrow> ''root'' | Some sha \<Rightarrow> sha)),
          rr_label = ''Unreleased'', rr_tag = None, rr_from_exclusive = rs_previous st, rr_to_inclusive = head,
          rr_commit_shas = map hv_sha (drop (rs_start st) revisions), rr_is_unreleased = True\<rparr>])"

definition timeline_tag_fingerprint :: "HistoryTimeline \<Rightarrow> string" where
  "timeline_tag_fingerprint timeline =
     stable_graph_id ''tags'' (join_str [CHR 0x00] (concat (map (\<lambda>revision.
       map (\<lambda>tag. hv_sha revision @ [CHR 0x00] @ tag) (hv_tags revision)) (ht_revisions timeline))))"

definition position_of :: "string list \<Rightarrow> string \<rightharpoonup> nat" where
  "position_of shas = map_of (rev (zip shas [0..<length shas]))"

text \<open>The revisions of the window: the last ones, and the releases before them. The order in which the hash map
  yields the releases is lost in the sorting.\<close>

definition timeline_window ::
  "nat \<Rightarrow> GitTagRecord list \<Rightarrow> HistoryRevisionFact list \<Rightarrow> HistoryRevision list \<Rightarrow> HistoryRevision list" where
  "timeline_window limit tag_records revisions every =
     (let all_revisions = identity_map hv_sha every;
          recent = List.map_filter (\<lambda>r. all_revisions (rf_sha r)) (drop (length revisions - limit) revisions);
          missing = filter (\<lambda>sha. (\<exists>tag\<in>set tag_records. gt_commit_sha tag = sha \<and> is_release_tag (gt_name tag)) \<and>
              sha \<notin> set (map hv_sha recent) \<and> all_revisions sha \<noteq> None)
            (remdups (map gt_commit_sha tag_records));
          ordinals = position_of (map rf_sha revisions)
      in sort_key (\<lambda>r. (ordinals (hv_sha r), hv_sha r)) (recent @ List.map_filter all_revisions missing))"

text \<open>The text of the root, Git's answer on shallowness and the clock are parameters; \<open>None\<close> is a panic.\<close>

definition build_timeline_bundle_from_facts ::
  "string \<Rightarrow> (string, string) result \<Rightarrow> string \<Rightarrow> nat option \<Rightarrow> GitTagRecord list \<Rightarrow> HistoryFactsBatch
     \<Rightarrow> (string, HistoryTimelineBuild) result option" where
  "build_timeline_bundle_from_facts root shallow_answer now limit tag_records batch =
     (let limit = clamp 1 MAX_HISTORY_LIMIT (case limit of None \<Rightarrow> DEFAULT_HISTORY_LIMIT | Some n \<Rightarrow> n);
          revisions = hb_revisions batch
      in case validate_batch batch of
           Inl error \<Rightarrow> Some (Inl error)
         | Inr _ \<Rightarrow>
             (case find rf_is_head revisions of
                None \<Rightarrow> Some (Inl ''Batched history facts did not identify HEAD'')
              | Some head_fact \<Rightarrow>
                  (case shallow_answer of
                     Inl error \<Rightarrow> Some (Inl error)
                   | Inr answer \<Rightarrow>
                       let head = rf_sha head_fact; is_shallow = (answer = ''true'');
                           tags = tags_by_commit_from_records tag_records
                       in map_option (\<lambda>every.
                            let window = timeline_window limit tag_records revisions every;
                                truncated = (length revisions > length window)
                            in Inr \<lparr>tb_timeline = \<lparr>ht_schema_version = 1, ht_repo_path = root, ht_head = head,
                                 ht_generated_at = now, ht_revisions = window, ht_total_commits = length revisions,
                                 ht_truncated = truncated, ht_is_shallow = is_shallow,
                                 ht_coverage_complete = (\<not> is_shallow \<and> \<not> truncated),
                                 ht_release_ranges = release_ranges window head,
                                 ht_reachable_revisions = map rf_sha revisions\<rparr>,
                               tb_fact_git_process_count = hb_git_process_count batch, tb_facts = revisions,
                               tb_mailmap_fingerprint = hb_mailmap_fingerprint batch,
                               tb_facts_fingerprint = hb_facts_fingerprint batch\<rparr>)
                          (collect_options (map (\<lambda>(ordinal, r). timeline_revision r (int ordinal) tags head)
                             (enumerate 0 revisions))))))"

text \<open>The extension of an indexed history by the revisions after its head: the stored batch and the new one.\<close>

definition extend_history :: "HistoryFactsBatch \<Rightarrow> HistoryFactsBatch \<Rightarrow> (string, HistoryFactsBatch \<times> string list) result" where
  "extend_history indexed introduced =
     and_then (validate_batch introduced) (\<lambda>_.
       if hb_revisions introduced = []
       then Inl ''Fast-forward history refresh did not contain a new HEAD revision''
       else (let revisions = map (\<lambda>r. r\<lparr>rf_is_head := False\<rparr>) (hb_revisions indexed) @ hb_revisions introduced
             in Inr (indexed\<lparr>hb_revisions := revisions, hb_facts_fingerprint := history_facts_fingerprint revisions\<rparr>,
                  remdups (map rf_sha (hb_revisions introduced)))))"

definition classify_history_refresh :: "string option \<Rightarrow> bool \<Rightarrow> bool \<Rightarrow> bool \<Rightarrow> bool \<Rightarrow> string" where
  "classify_history_refresh previous_head rewritten engine_incompatible fast_forward tags_changed =
     (if previous_head = None then ''initial''
      else if rewritten then ''rewritten_history''
      else if engine_incompatible then ''engine_repair''
      else if fast_forward then ''fast_forward''
      else if tags_changed then ''tag_metadata''
      else ''no_op'')"

section \<open>Ancestry\<close>

text \<open>
  The walk over the parents, with a stack whose top is the last element. Every revision that enters the
  set has facts, so the walk ends; a revision without facts, or a parent outside of them in a history
  that is not shallow, is an error.
\<close>

definition next_parents ::
  "(string \<rightharpoonup> HistoryRevisionFact) \<Rightarrow> bool \<Rightarrow> string list \<Rightarrow> (string, string list) result" where
  "next_parents facts is_shallow parents =
     try_fold (\<lambda>pending parent.
       if facts parent \<noteq> None then Inr (pending @ [parent])
       else if \<not> is_shallow then Inl (''Complete history is missing parent '' @ parent)
       else Inr pending) [] parents"

lemma identity_map_dom: "identity_map key xs k = Some x \<Longrightarrow> k \<in> key ` set xs"
  unfolding identity_map_def by (auto dest!: map_of_SomeD)

function ancestor_loop ::
  "HistoryRevisionFact list \<Rightarrow> bool \<Rightarrow> string list \<Rightarrow> string list \<Rightarrow> (string, string list) result" where
  "ancestor_loop facts is_shallow ancestors pending =
     (if pending = [] then Inr ancestors
      else let sha = last pending; rest = butlast pending
           in if sha \<in> set ancestors then ancestor_loop facts is_shallow ancestors rest
              else case identity_map rf_sha facts sha of
                     None \<Rightarrow> Inl (''Missing ancestry fact for revision '' @ sha)
                   | Some found \<Rightarrow>
                       and_then (next_parents (identity_map rf_sha facts) is_shallow (rf_parents found)) (\<lambda>parents.
                         ancestor_loop facts is_shallow (sha # ancestors) (rest @ parents)))"
  by pat_completeness auto

termination
proof (relation "measures [\<lambda>(facts, is_shallow, ancestors, pending). card (rf_sha ` set facts - set ancestors),
    \<lambda>(facts, is_shallow, ancestors, pending). length pending]", goal_cases)
  case 1
  show ?case by simp
next
  case (2 facts is_shallow ancestors pending sha rest)
  then show ?case by simp
next
  case (3 facts is_shallow ancestors pending sha rest found parents)
  have "sha \<in> rf_sha ` set facts - set ancestors" using 3(4) identity_map_dom [OF 3(5)] by simp
  then have "card (rf_sha ` set facts - set (sha # ancestors)) < card (rf_sha ` set facts - set ancestors)"
    by (intro psubset_card_mono) auto
  then show ?case by simp
qed

declare ancestor_loop.simps [simp del]

definition observed_ancestors :: "HistoryTimelineBuild \<Rightarrow> string \<Rightarrow> (string, string list) result" where
  "observed_ancestors build revision =
     ancestor_loop (tb_facts build) (ht_is_shallow (tb_timeline build)) [] [revision]"

section \<open>Release intervals\<close>

definition HISTORY_RELEASE_INTERVAL_SCHEMA_VERSION :: nat where "HISTORY_RELEASE_INTERVAL_SCHEMA_VERSION = 1"

record ReleasePosition =
  rp_tag :: GitTagRecord
  rp_from_exclusive_sha :: "string option"
  rp_commit_count :: "nat option"
  rp_observed_commit_count :: nat
  rp_coverage_kind :: string

definition release_revisions :: "HistoryTimelineBuild \<Rightarrow> GitTagRecord list \<Rightarrow> (string \<times> nat) list" where
  "release_revisions build tags =
     (let ordinals = position_of (ht_reachable_revisions (tb_timeline build))
      in dedup_by fst (sort_key (\<lambda>(sha, ordinal). (ordinal, sha))
           (List.map_filter (\<lambda>tag. map_option (Pair (gt_commit_sha tag)) (ordinals (gt_commit_sha tag)))
             (filter (\<lambda>tag. is_release_tag (gt_name tag)) tags))))"

definition release_position ::
  "HistoryTimelineBuild \<Rightarrow> (string \<times> nat) list \<Rightarrow> (string \<rightharpoonup> string list) \<Rightarrow> GitTagRecord \<Rightarrow> (string, ReleasePosition) result" where
  "release_position build releases ancestor_cache tag =
     (case position_of (ht_reachable_revisions (tb_timeline build)) (gt_commit_sha tag) of
        None \<Rightarrow> Inr \<lparr>rp_tag = tag, rp_from_exclusive_sha = None, rp_commit_count = None,
          rp_observed_commit_count = 0, rp_coverage_kind = ''divergent''\<rparr>
      | Some ordinal \<Rightarrow>
          and_then (ok_or (ancestor_cache (gt_commit_sha tag)) (''Missing ancestry facts for release '' @ gt_name tag))
            (\<lambda>ancestors.
              let previous = map_option fst (find (\<lambda>(candidate, candidate_ordinal).
                    candidate_ordinal < ordinal \<and> candidate \<in> set ancestors) (rev releases));
                  previous_ancestors = (case option_then previous ancestor_cache of None \<Rightarrow> [] | Some a \<Rightarrow> a);
                  observed = length (remdups (filter (\<lambda>sha. sha \<notin> set previous_ancestors) ancestors));
                  complete = (\<not> ht_is_shallow (tb_timeline build))
              in Inr \<lparr>rp_tag = tag, rp_from_exclusive_sha = previous,
                rp_commit_count = (if complete then Some observed else None), rp_observed_commit_count = observed,
                rp_coverage_kind = (if complete then ''complete'' else ''shallow'')\<rparr>))"

definition release_positions :: "HistoryTimelineBuild \<Rightarrow> GitTagRecord list \<Rightarrow> (string, ReleasePosition list) result" where
  "release_positions build tags =
     (let releases = release_revisions build tags
      in and_then (try_fold (\<lambda>cache (sha, _).
             and_then (observed_ancestors build sha) (\<lambda>ancestors. Inr (cache @ [(sha, ancestors)]))) [] releases)
           (\<lambda>cache. and_then (try_fold (\<lambda>positions tag.
               and_then (release_position build releases (map_of (rev cache)) tag) (\<lambda>position. Inr (positions @ [position])))
               [] (filter (\<lambda>tag. is_release_tag (gt_name tag)) tags))
             (\<lambda>positions. Inr (sort_key (\<lambda>p. gt_name (rp_tag p)) positions))))"

definition interval_identity :: "HistoryTimelineBuild \<Rightarrow> ReleasePosition list \<Rightarrow> string" where
  "interval_identity build releases =
     stable_graph_id ''history-release-intervals-v1'' (join_str [CHR 0x00]
       [decimal HISTORY_RELEASE_INTERVAL_SCHEMA_VERSION, ht_head (tb_timeline build), tb_facts_fingerprint build,
        join_str [CHR 0x00] (map (\<lambda>release. gt_name (rp_tag release) @ '':'' @ gt_commit_sha (rp_tag release)) releases)])"

definition divergent_count :: "ReleasePosition list \<Rightarrow> nat" where
  "divergent_count releases = length (filter (\<lambda>release. rp_coverage_kind release = ''divergent'') releases)"

definition intervals_partial :: "HistoryTimelineBuild \<Rightarrow> ReleasePosition list \<Rightarrow> bool" where
  "intervals_partial build releases \<longleftrightarrow> ht_is_shallow (tb_timeline build) \<or> divergent_count releases > 0"

text \<open>
  The rows of a repository that the publication reads and writes: the tags of the published facts, which the
  intervals refer to, the intervals, and the row of the catalogue. A second interval of a tag violates the primary key, and an
  interval of an unknown tag the foreign key; the message stands for the one of SQLite. The coverage is a JSON object, as
  every writer of the column stores it; the three entries that are inserted are fields here.
\<close>

record release_catalog_row =
  rc_fact_tags :: "string list"
  rc_intervals :: "ReleasePosition list"
  rc_interval_identity :: string
  rc_status :: string
  rc_release_interval_count :: nat
  rc_divergent_release_count :: nat
  rc_intervals_complete :: bool

definition publish_release_intervals ::
  "release_catalog_row \<Rightarrow> HistoryTimelineBuild \<Rightarrow> GitTagRecord list \<Rightarrow> (string, release_catalog_row \<times> string) result" where
  "publish_release_intervals row build tags =
     and_then (release_positions build tags) (\<lambda>releases.
       let names = map (\<lambda>release. gt_name (rp_tag release)) releases; identity = interval_identity build releases;
           partial = intervals_partial build releases
       in if \<not> distinct names \<or> \<not> set names \<subseteq> set (rc_fact_tags row) then Inl ''Persist release interval: constraint failed''
          else Inr (row\<lparr>rc_intervals := releases, rc_interval_identity := identity,
            rc_status := (if rc_status row = ''partial'' \<or> partial then ''partial'' else rc_status row),
            rc_release_interval_count := length releases, rc_divergent_release_count := divergent_count releases,
            rc_intervals_complete := \<not> partial\<rparr>, identity))"

end
