(* ===== verification/History_Reading.thy ===== *)
theory History_Reading
  imports History_Facts
begin

text \<open>
  What the reader of \<open>History_Facts\<close> promises: what it accepts is bounded and well formed, and of that the
  validation refuses only what is listed; the bounded reader keeps a prefix. Two faults of the mailmap: a
  line that makes the reader panic, and an entry that hides others.
\<close>

section \<open>What the parser accepts is well formed\<close>

definition count_in_range :: "nat option \<Rightarrow> bool" where
  "count_in_range n = (case n of None \<Rightarrow> True | Some k \<Rightarrow> k \<le> usize_max)"

definition path_well_read :: "HistoryPathFact \<Rightarrow> bool" where
  "path_well_read path \<longleftrightarrow> (pf_binary path \<longrightarrow> pf_additions path = None \<and> pf_deletions path = None) \<and>
     count_in_range (pf_additions path) \<and> count_in_range (pf_deletions path)"

definition identity_well_read :: "HistoryIdentityFact \<Rightarrow> bool" where
  "identity_well_read identity \<longleftrightarrow> if_contributor_id identity \<noteq> [] \<and> if_display_name identity \<noteq> [] \<and>
     CHR ''@'' \<notin> set (if_display_name identity)"

definition full_sha :: "string \<Rightarrow> bool" where
  "full_sha v \<longleftrightarrow> (len v = 40 \<or> len v = 64) \<and> list_all (\<lambda>c. is_ascii_hexdigit c \<and> \<not> is_ascii_uppercase c) v"

definition revision_well_read :: "HistoryRevisionFact \<Rightarrow> bool" where
  "revision_well_read r \<longleftrightarrow>
     full_sha (rf_sha r) \<and> (\<forall>parent\<in>set (rf_parents r). full_sha parent \<and> len parent = len (rf_sha r)) \<and>
     rf_is_merge r = (length (rf_parents r) > 1) \<and> CHR 0x00 \<notin> set (rf_subject r) \<and>
     (\<forall>identity\<in>insert (rf_primary r) (set (rf_coauthors r)). identity_well_read identity) \<and>
     distinct (map if_contributor_id (rf_coauthors r)) \<and>
     sorted (rf_tags r) \<and> distinct (rf_tags r) \<and> [] \<notin> set (rf_tags r) \<and>
     sorted (map pf_path (rf_paths r)) \<and> (\<forall>path\<in>set (rf_paths r). path_well_read path)"

lemma sorted_fst_of_pair:
  assumes "sorted (map (\<lambda>x. (f x :: 'a :: linorder, g x :: 'b :: linorder)) xs)"
  shows "sorted (map f xs)"
  using assms by (induction xs) (auto simp: less_eq_prod_def)

lemma coauthors_distinct: "distinct (map if_contributor_id (dedup_by if_contributor_id (sort_identities xs)))"
proof -
  have "sorted (map (\<lambda>i. (if_contributor_id i, if_display_name i, automation_rank (if_automation i), if_alias_count i))
      (sort_identities xs))" unfolding sort_identities_def by (rule sorted_sort_key)
  then have "sorted (map if_contributor_id (sort_identities xs))" by (rule sorted_fst_of_pair)
  then show ?thesis by (rule conjunct2 [OF dedup_by_sorted])
qed

lemma identity_fact_well_read: "identity_well_read (identity_fact scope name email n)"
  by (auto simp: identity_well_read_def identity_fact_def Let_def stable_graph_id_def)

lemma utf8_Inr: "utf8 v label = Inr t \<longleftrightarrow> t = v \<and> valid_utf8 v"
  by (auto simp: utf8_def)

lemma parse_coauthors_well_read:
  "parse_coauthors v mailmap scope = Inr (coauthors, n) \<Longrightarrow> \<forall>i\<in>set coauthors. identity_well_read i"
  unfolding parse_coauthors_def List.map_filter_def
  by (auto simp: and_then_Inr_iff Let_def parse_coauthor_def identity_fact_well_read split: option.splits if_splits prod.splits)

lemma parse_tags_nonempty: "[] \<notin> set (parse_tags d)"
  by (simp add: parse_tags_def)

lemma validate_full_sha_Inr:
  "validate_full_sha v None = Inr u \<longleftrightarrow> full_sha v"
  "validate_full_sha v (Some n) = Inr u \<longleftrightarrow>
     len v = n \<and> list_all (\<lambda>c. is_ascii_hexdigit c \<and> \<not> is_ascii_uppercase c) v"
  by (auto simp: validate_full_sha_def require_def full_sha_def)

lemma each_parent_valid:
  "try_fold (\<lambda>_ parent. validate_full_sha parent (Some n)) u parents = Inr w \<Longrightarrow>
     \<forall>parent\<in>set parents. len parent = n \<and> list_all (\<lambda>c. is_ascii_hexdigit c \<and> \<not> is_ascii_uppercase c) parent"
  by (induction parents arbitrary: u) (auto simp: and_then_Inr_iff validate_full_sha_Inr)

lemma parse_header_well_read:
  assumes "parse_header env mailmap scope header = Inr r" "CHR 0x00 \<notin> set (header ! 6)"
    and "sorted (map pf_path paths)" "\<forall>path\<in>set paths. path_well_read path"
  shows "revision_well_read (r\<lparr>rf_paths := paths\<rparr>)"
proof -
  obtain parents_text sha w coauthors malformed decorations name email where
    h: "full_sha sha" "try_fold (\<lambda>_ parent. validate_full_sha parent (Some (len sha))) () (split_whitespace parents_text) = Inr w"
      "parse_coauthors (header ! 7) mailmap scope = Inr (coauthors, malformed)"
    and fields: "rf_sha r = sha" "rf_parents r = split_whitespace parents_text" "rf_subject r = header ! 6"
      "rf_primary r = identity_fact scope name email (mailmap_alias_count mailmap name email)"
      "rf_coauthors r = dedup_by if_contributor_id (sort_identities coauthors)"
      "rf_tags r = dedup_by (\<lambda>tag. tag) (sort (parse_tags decorations))"
      "rf_is_merge r = (length (rf_parents r) > 1)"
    using assms(1) unfolding parse_header_def Let_def and_then_Inr_iff utf8_Inr validate_full_sha_Inr
    by (elim exE conjE) (auto simp: and_then_Inr_iff split: prod.splits)
  have parents: "\<forall>parent\<in>set (rf_parents r). full_sha parent \<and> len parent = len (rf_sha r)"
    using each_parent_valid [OF h(2)] h(1) unfolding fields full_sha_def by auto
  have tags: "sorted (rf_tags r)" "distinct (rf_tags r)" "[] \<notin> set (rf_tags r)"
    using dedup_by_sorted [of "\<lambda>tag. tag" "sort (parse_tags decorations)"]
      dedup_by_subset [of "\<lambda>tag. tag" "sort (parse_tags decorations)"] parse_tags_nonempty unfolding fields by auto
  have "\<forall>i\<in>set (rf_coauthors r). identity_well_read i"
    using parse_coauthors_well_read [OF h(3)] dedup_by_subset [of if_contributor_id "sort_identities coauthors"]
    unfolding fields by (auto simp: sort_identities_def)
  moreover have "distinct (map if_contributor_id (rf_coauthors r))" unfolding fields by (rule coauthors_distinct)
  ultimately show ?thesis
    using h(1) parents tags fields assms(2-4) by (simp add: revision_well_read_def identity_fact_well_read)
qed

lemma parse_count_in_range: "parse_count v = Inr n \<Longrightarrow> count_in_range n"
  by (auto simp: parse_count_def and_then_Inr_iff count_in_range_def parse_usize_def Let_def split: if_splits option.splits)

lemma parse_numstat_in_range:
  "parse_numstat v = Inr (Some (a, d, p)) \<Longrightarrow> count_in_range a \<and> count_in_range d"
  unfolding parse_numstat_def Let_def by (auto simp: and_then_Inr_iff parse_count_in_range split: if_splits)

lemma numstat_in_range:
  assumes "parse_numstat_record pieces = Inr (a, d, p, old, n)"
  shows "count_in_range a \<and> count_in_range d"
proof -
  obtain q where "parse_numstat (trim_newlines (hd pieces)) = Inr (Some (a, d, q))"
    using assms unfolding parse_numstat_record_def and_then_Inr_iff
    by (auto simp: and_then_Inr_iff split: option.splits if_splits)
  then show ?thesis by (rule parse_numstat_in_range)
qed

lemma parse_raw_well_read: "parse_raw pieces = Inr (path, n) \<Longrightarrow> path_well_read path"
  unfolding parse_raw_def Let_def
  by (auto simp: and_then_Inr_iff path_well_read_def count_in_range_def split: list.splits if_splits prod.splits)

lemma apply_numstat_well_read:
  "apply_numstat a d p old paths = Some updated \<Longrightarrow> count_in_range a \<Longrightarrow> count_in_range d \<Longrightarrow>
     \<forall>path\<in>set paths. path_well_read path \<Longrightarrow> \<forall>path\<in>set updated. path_well_read path"
  by (induction paths arbitrary: updated) (auto simp: path_well_read_def split: if_splits)

lemma parse_path_loop_well_read:
  "parse_path_loop cancelled paths pieces = Inr result \<Longrightarrow> \<forall>path\<in>set paths. path_well_read path \<Longrightarrow>
     \<forall>path\<in>set result. path_well_read path"
proof (induction cancelled paths pieces rule: parse_path_loop.induct)
  case (1 cancelled paths pieces)
  show ?case
  proof (cases pieces)
    case Nil
    then show ?thesis using "1.prems" by (subst (asm) parse_path_loop.simps) simp
  next
    case (Cons piece rest)
    have loop: "parse_path_loop cancelled paths (piece # rest) = Inr result" using "1.prems"(1) Cons by simp
    note step = loop [unfolded parse_path_loop.simps [of cancelled paths "piece # rest"] list.case, folded Cons]
    have live: "\<not> cancelled (length pieces)"
    proof
      assume "cancelled (length pieces)"
      then show False using step by simp
    qed
    show ?thesis
    proof (cases "trim_newlines piece = [] ")
      case True
      then show ?thesis using "1.IH"(1) [OF Cons live True] step live "1.prems"(2) by simp
    next
      case filled: False
      show ?thesis
      proof (cases "hd (trim_newlines piece) = CHR '':''")
        case True
        then obtain path n where raw: "parse_raw pieces = Inr (path, n)"
          and next_paths: "parse_path_loop cancelled (paths @ [path]) (drop n pieces) = Inr result"
          using step live filled by (auto split: sum.splits prod.splits)
        show ?thesis
          using "1.IH"(2) [OF Cons live filled True raw refl next_paths] parse_raw_well_read [OF raw] "1.prems"(2) by auto
      next
        case False
        then obtain a d p old n updated where num: "parse_numstat_record pieces = Inr (a, d, p, old, n)"
          "apply_numstat a d p old paths = Some updated"
          and next_paths: "parse_path_loop cancelled updated (drop n pieces) = Inr result"
          using step live filled by (auto split: sum.splits prod.splits option.splits)
        show ?thesis
          using "1.IH"(3) [OF Cons live filled False num(1) refl refl refl refl num(2) next_paths]
            apply_numstat_well_read [OF num(2)] numstat_in_range [OF num(1)] "1.prems"(2) by blast
      qed
    qed
  qed
qed

lemma parse_paths_well_read:
  assumes "parse_paths cancelled pieces = Inr paths"
  shows "sorted (map pf_path paths)" "\<forall>path\<in>set paths. path_well_read path"
proof -
  obtain found where f: "parse_path_loop cancelled [] pieces = Inr found"
    "paths = sort_key (\<lambda>path. (pf_path path, pf_old_path path, path_status_rank (pf_status path))) found"
    using assms by (auto simp: parse_paths_def and_then_Inr_iff)
  show "\<forall>path\<in>set paths. path_well_read path" using parse_path_loop_well_read [OF f(1)] f(2) by simp
  have "sorted (map (\<lambda>path. (pf_path path, pf_old_path path, path_status_rank (pf_status path))) paths)"
    unfolding f(2) by (rule sorted_sort_key)
  then show "sorted (map pf_path paths)" by (rule sorted_fst_of_pair)
qed

text \<open>What is kept while the revisions are read: the bounds and the form of every revision.\<close>

definition reading_ok :: "Limits \<Rightarrow> HistoryRevisionFact list \<Rightarrow> nat \<Rightarrow> bool" where
  "reading_ok limits revisions total_paths \<longleftrightarrow> length revisions \<le> li_revisions limits \<and>
     total_paths = sum_list (map (\<lambda>r. length (rf_paths r)) revisions) \<and> total_paths \<le> li_paths limits \<and>
     (\<forall>r\<in>set revisions. revision_well_read r)"

lemma parse_revision_loop_ok:
  "parse_revision_loop env limits mailmap scope revisions seen pieces = Inr result \<Longrightarrow>
     reading_ok limits revisions seen \<Longrightarrow> \<forall>piece\<in>set pieces. CHR 0x00 \<notin> set piece \<Longrightarrow>
     \<exists>n. reading_ok limits result n"
proof (induction env limits mailmap scope revisions seen pieces rule: parse_revision_loop.induct)
  case (1 env limits mailmap scope revisions seen pieces)
  show ?case
  proof (cases pieces)
    case Nil
    then show ?thesis using "1.prems"(1,2) by (subst (asm) parse_revision_loop.simps) auto
  next
    case (Cons piece rest)
    let ?body = "takeWhile (\<lambda>p. \<not> is_marker p) (drop 8 rest)"
    let ?after = "dropWhile (\<lambda>p. \<not> is_marker p) (drop 8 rest)"
    have loop: "parse_revision_loop env limits mailmap scope revisions seen (piece # rest) = Inr result"
      using "1.prems"(1) Cons by simp
    note step = loop [unfolded parse_revision_loop.simps [of env limits mailmap scope revisions seen "piece # rest"]
      list.case, folded Cons]
    have live: "\<not> fe_cancelled env (length pieces) 0" using step by (cases "fe_cancelled env (length pieces) 0") simp_all
    have rest: "\<forall>p\<in>set rest. CHR 0x00 \<notin> set p" using "1.prems"(3) Cons by simp
    show ?thesis
    proof (cases "is_marker piece")
      case False
      then have blank: "list_all is_ascii_whitespace piece"
        using step live by (cases "list_all is_ascii_whitespace piece") simp_all
      have "parse_revision_loop env limits mailmap scope revisions seen rest = Inr result"
        using step live False blank by simp
      then show ?thesis by (rule "1.IH"(1) [OF Cons live False blank _ "1.prems"(2) rest])
    next
      case True
      have bounds: "length revisions \<noteq> li_revisions limits" "\<not> length rest < 8"
        using step live True by (auto split: if_splits)
      have body: "and_then (parse_header env mailmap scope (take 8 rest)) (\<lambda>revision.
          and_then (parse_paths (fe_cancelled env (length pieces)) ?body) (\<lambda>paths.
            if seen + length paths > usize_max then Inl ''Batched history path count overflowed''
            else if seen + length paths > li_paths limits
            then Inl ''Batched history output exceeds its path bound''
            else parse_revision_loop env limits mailmap scope
              (revisions @ [revision\<lparr>rf_paths := paths\<rparr>]) (seen + length paths) ?after)) = Inr result"
        using step live True bounds unfolding Let_def by (simp only: if_True if_False not_True_eq_False)
      then obtain revision paths where p: "parse_header env mailmap scope (take 8 rest) = Inr revision"
        "parse_paths (fe_cancelled env (length pieces)) ?body = Inr paths"
        "\<not> seen + length paths > usize_max" "\<not> seen + length paths > li_paths limits"
        "parse_revision_loop env limits mailmap scope
              (revisions @ [revision\<lparr>rf_paths := paths\<rparr>]) (seen + length paths) ?after = Inr result"
        unfolding and_then_Inr_iff by (elim exE conjE) (auto split: if_splits)
      have "take 8 rest ! 6 \<in> set rest" using bounds(2) by (simp add: not_less)
      then have "revision_well_read (revision\<lparr>rf_paths := paths\<rparr>)"
        using parse_header_well_read [OF p(1) _ parse_paths_well_read [OF p(2)]] rest by blast
      then have grown: "reading_ok limits (revisions @ [revision\<lparr>rf_paths := paths\<rparr>]) (seen + length paths)"
        using "1.prems"(2) bounds(1) p(4) by (simp add: reading_ok_def)
      have "set ?after \<subseteq> set rest" by (meson order_trans set_dropWhileD set_drop_subset subsetI)
      then have clean: "\<forall>p\<in>set ?after. CHR 0x00 \<notin> set p" using rest by blast
      have marked: "\<not> \<not> is_marker piece" using True by simp
      show ?thesis by (rule "1.IH"(2) [OF Cons live marked bounds refl refl p(1,2,3,4,5) grown clean])
    qed
  qed
qed

lemma parse_history_facts_ok:
  assumes "parse_history_facts env out limits mailmap scope = Inr batch"
  shows "\<exists>n. reading_ok limits (hb_revisions batch) n"
    and "hb_schema_version batch = 1 \<and> hb_classification_version batch = 1 \<and> hb_git_process_count batch = 1 \<and>
      hb_facts_fingerprint batch \<noteq> []"
proof -
  obtain revisions where r: "parse_revision_loop env limits mailmap scope [] 0 (split_list (\<lambda>c. c = CHR 0x00) out) = Inr revisions"
    "hb_revisions batch = revisions"
    "hb_schema_version batch = 1 \<and> hb_classification_version batch = 1 \<and> hb_git_process_count batch = 1 \<and>
      hb_facts_fingerprint batch = history_facts_fingerprint revisions"
    using assms by (auto simp: parse_history_facts_def and_then_Inr_iff HISTORY_FACTS_SCHEMA_VERSION_def
        HISTORY_FACT_CLASSIFICATION_VERSION_def split: if_splits)
  have "reading_ok limits [] 0" by (simp add: reading_ok_def)
  moreover have "\<forall>piece\<in>set (split_list (\<lambda>c. c = CHR 0x00) out). CHR 0x00 \<notin> set piece"
    using split_list_avoids [of "\<lambda>c. c = CHR 0x00" out] by blast
  ultimately show "\<exists>n. reading_ok limits (hb_revisions batch) n"
    using parse_revision_loop_ok [OF r(1)] r(2) by simp
  show "hb_schema_version batch = 1 \<and> hb_classification_version batch = 1 \<and> hb_git_process_count batch = 1 \<and>
      hb_facts_fingerprint batch \<noteq> []"
    using r(3) by (simp add: history_facts_fingerprint_def stable_graph_id_def)
qed

text \<open>C31. Whatever Git prints, what the reader accepts is bounded and well formed: at most the given numbers of
  revisions and paths, full lower-case object names, parents of the same length, coauthors and tags without
  repetition, the tags and the paths in order, counts that fit \<open>u64\<close>, none of them on a binary
  file, and no display name with an at sign, so that no e-mail address is kept as a name.\<close>

theorem accepted_history_well_formed:
  assumes "parse_history_facts env out limits mailmap scope = Inr batch"
  shows "length (hb_revisions batch) \<le> li_revisions limits \<and>
    sum_list (map (\<lambda>r. length (rf_paths r)) (hb_revisions batch)) \<le> li_paths limits \<and>
    list_all revision_well_read (hb_revisions batch)"
  using parse_history_facts_ok(1) [OF assms] by (auto simp: reading_ok_def list_all_iff)

section \<open>What the validation still refuses\<close>

lemma validate_revision_well_read:
  assumes "revision_well_read r"
  shows "validate_revision_fact r = Inr () \<longleftrightarrow> rf_malformed_coauthor_count r \<le> 10000 \<and>
    list_all (\<lambda>path. pf_path path \<noteq> [] \<and> pf_old_path path \<noteq> Some [] \<and> pf_status path \<noteq> Path_Unknown) (rf_paths r)"
proof -
  have ids: "if_contributor_id i \<noteq> []" "if_display_name i \<noteq> []" if "i \<in> insert (rf_primary r) (set (rf_coauthors r))" for i
    using assms that unfolding revision_well_read_def identity_well_read_def by blast+
  have paths: "valid_path_fact path \<longleftrightarrow> pf_path path \<noteq> [] \<and> pf_old_path path \<noteq> Some [] \<and> pf_status path \<noteq> Path_Unknown"
    if member: "path \<in> set (rf_paths r)" for path
  proof -
    have "path_well_read path" using assms member unfolding revision_well_read_def by blast
    then show ?thesis unfolding path_well_read_def valid_path_fact_def by auto
  qed
  have all: "list_all valid_path_fact (rf_paths r) \<longleftrightarrow>
      list_all (\<lambda>path. pf_path path \<noteq> [] \<and> pf_old_path path \<noteq> Some [] \<and> pf_status path \<noteq> Path_Unknown) (rf_paths r)"
    unfolding list_all_iff using paths by blast
  have ne: "\<not> list_ex (\<lambda>i. if_contributor_id i = []) (rf_primary r # rf_coauthors r)"
    using ids by (auto simp: list_ex_iff)
  have shape: "rf_is_merge r = (length (rf_parents r) > 1)" "CHR 0x00 \<notin> set (rf_subject r)" "[] \<notin> set (rf_tags r)"
    using assms unfolding revision_well_read_def by blast+
  show ?thesis
    unfolding validate_revision_fact_def require_def all
    using shape ids [of "rf_primary r"] ne by (simp add: and_then_def)
qed

lemma try_fold_unit: "try_fold (\<lambda>_ x. f x) () xs = Inr () \<longleftrightarrow> list_all (\<lambda>x. f x = Inr ()) xs"
  by (induction xs) (auto simp: and_then_Inr_iff)

lemma validates_exactly:
  assumes "parse_history_facts env out limits mailmap scope = Inr batch" "fingerprint \<noteq> []"
  shows "validate_batch (batch\<lparr>hb_mailmap_fingerprint := fingerprint\<rparr>) = Inr () \<longleftrightarrow>
    length (filter rf_is_head (hb_revisions batch)) = 1 \<and>
    list_all (\<lambda>r. rf_malformed_coauthor_count r \<le> 10000 \<and>
      list_all (\<lambda>path. pf_path path \<noteq> [] \<and> pf_old_path path \<noteq> Some [] \<and> pf_status path \<noteq> Path_Unknown) (rf_paths r))
      (hb_revisions batch)"
proof -
  have "\<forall>r\<in>set (hb_revisions batch). revision_well_read r"
    using parse_history_facts_ok(1) [OF assms(1)] by (auto simp: reading_ok_def)
  then have each: "list_all (\<lambda>r. validate_revision_fact r = Inr ()) (hb_revisions batch) \<longleftrightarrow>
      list_all (\<lambda>r. rf_malformed_coauthor_count r \<le> 10000 \<and>
        list_all (\<lambda>path. pf_path path \<noteq> [] \<and> pf_old_path path \<noteq> Some [] \<and> pf_status path \<noteq> Path_Unknown) (rf_paths r))
        (hb_revisions batch)"
    unfolding list_all_iff [of _ "hb_revisions batch"] using validate_revision_well_read by blast
  show ?thesis
    using parse_history_facts_ok(2) [OF assms(1)] assms(2) each
    by (simp add: validate_batch_def require_def and_then_def try_fold_unit HISTORY_FACTS_SCHEMA_VERSION_def
        HISTORY_FACT_CLASSIFICATION_VERSION_def)
qed

text \<open>Of what the reader accepts, the validation refuses exactly this: a batch without exactly one head, a
  revision with more than ten thousand malformed trailers, and a path that is empty, comes from an empty path
  or has a status Git's raw format does not know.\<close>

theorem accepted_history_validates:
  assumes "parse_history_facts env out limits mailmap scope = Inr batch" "fingerprint \<noteq> []"
  shows "validate_batch (batch\<lparr>hb_mailmap_fingerprint := fingerprint\<rparr>) = Inr () \<longleftrightarrow>
    length (filter rf_is_head (hb_revisions batch)) = 1 \<and>
    list_all (\<lambda>r. rf_malformed_coauthor_count r \<le> 10000 \<and>
      list_all (\<lambda>path. pf_path path \<noteq> [] \<and> pf_old_path path \<noteq> Some [] \<and> pf_status path \<noteq> Path_Unknown) (rf_paths r))
      (hb_revisions batch)"
  by (rule validates_exactly [OF assms])

section \<open>The bounded reader keeps a prefix\<close>

lemma read_bounded_loop_prefix:
  "length retained \<le> limit \<Longrightarrow> [] \<notin> set chunks \<Longrightarrow>
     read_bounded_loop limit retained (map Inr chunks) =
       Inr (take limit (retained @ concat chunks), length retained + length (concat chunks) > limit)"
proof (induction chunks arbitrary: retained)
  case (Cons chunk chunks)
  show ?case
  proof (cases "length chunk > limit - length retained")
    case True
    then show ?thesis using Cons.prems by (auto simp: Let_def min_def)
  next
    case False
    then have "length (retained @ chunk) \<le> limit" using Cons.prems(1) by simp
    from Cons.IH [OF this] show ?thesis using Cons.prems False by (auto simp: Let_def min_def)
  qed
qed simp

text \<open>However the output of Git is cut into reads, the reader keeps exactly the first bytes up to the limit,
  and reports an overflow exactly when there were more.\<close>

theorem read_bounded_exact:
  assumes "[] \<notin> set chunks"
  shows "read_bounded (map Inr chunks) limit =
    Inr (take limit (concat chunks), length (concat chunks) > limit)"
  using read_bounded_loop_prefix [OF _ assms, of "[]" limit] by (simp add: read_bounded_def)

theorem read_bounded_exact_witness:
  "read_bounded (map Inr [''abc'', ''de'']) 4 = Inr (''abcd'', True)"
  using read_bounded_exact [of "[''abc'', ''de'']" 4] by simp

section \<open>Two faults of the mailmap\<close>

lemma find_str_byte: "c \<notin> set a \<Longrightarrow> find_str (a @ c # b) [c] = Some (length a)"
  by (induction a) auto

lemma split_upt: "i \<le> k \<Longrightarrow> k < n \<Longrightarrow> [i..<n] = [i..<k] @ k # [Suc k..<n]"
  using upt_add_eq_append [of i k "n - k"] upt_conv_Cons [of k n] by simp

lemma filter_positions:
  assumes "line = a @ c # b" "c \<notin> set a"
  shows "filter (\<lambda>i. line ! i = c) [0..<length line] =
    length a # filter (\<lambda>i. line ! i = c) [Suc (length a)..<length line]"
proof -
  have "[0..<length line] = [0..<length a] @ length a # [Suc (length a)..<length line]"
    by (rule split_upt) (simp_all add: assms(1))
  moreover have "filter (\<lambda>i. line ! i = c) [0..<length a] = []"
    using assms by (auto simp: filter_empty_conv nth_append)
  moreover have "line ! length a = c" using assms(1) by simp
  ultimately show ?thesis by (simp only: filter_append filter.simps simp_thms if_True append_Nil)
qed

lemma filter_positions_from:
  assumes "line = a @ c # b @ c # d" "c \<notin> set b"
  shows "\<exists>rest. filter (\<lambda>i. line ! i = c) [Suc (length a)..<length line] = (Suc (length a) + length b) # rest"
proof -
  let ?n = "Suc (length a) + length b"
  have "[Suc (length a)..<length line] = [Suc (length a)..<?n] @ ?n # [Suc ?n..<length line]"
    by (rule split_upt) (simp_all add: assms(1))
  moreover have "filter (\<lambda>i. line ! i = c) [Suc (length a)..<?n] = []"
    using assms by (auto simp: filter_empty_conv nth_append nth_Cons')
  moreover have "line ! ?n = c" using assms(1) by (simp add: nth_append)
  ultimately show ?thesis by (simp only: filter_append filter.simps simp_thms if_True append_Nil) blast
qed

lemma trim_ascii_nonempty:
  assumes "is_ascii s" "c \<in> set s" "\<not> is_whitespace [c]"
  shows "trim s \<noteq> []"
  using assms by (auto simp: trim_empty_iff utf8_units_ascii list_all_iff)

text \<open>C32. A mailmap line with an angle bracket inside of an address stops the reader: a second opening bracket
  before the first closing one makes the code slice from behind its end, which is a panic and not an
  error.\<close>

theorem nested_bracket_panics:
  assumes "line = a @ ''<'' @ b @ ''<'' @ c @ ''>'' @ d" "is_ascii line" "trim line = line" "CHR ''#'' \<notin> set line"
    and "CHR ''<'' \<notin> set a" "CHR ''<'' \<notin> set b" "CHR ''>'' \<notin> set b" "CHR ''>'' \<notin> set c"
  shows "parse_mailmap_entry line = None"
proof -
  let ?e = "length a + 1 + (length b + 1 + length c)" and ?s = "Suc (length a) + length b"
  have line: "takeWhile (\<lambda>c. c \<noteq> CHR ''#'') line = line" using assms(4) by (auto simp: takeWhile_eq_all_conv)
  obtain rest where places: "filter (\<lambda>i. line ! i = CHR ''<'') [0..<length line] = length a # ?s # rest"
    using filter_positions [of line a "CHR ''<''" "b @ ''<'' @ c @ ''>'' @ d"]
      filter_positions_from [of line a "CHR ''<''" b "c @ ''>'' @ d"] assms(1,5,6) by auto
  have ends: "find_str (drop (length a + 1) line) ''>'' = Some (length b + 1 + length c)"
    "find_str (drop (?s + 1) line) ''>'' = Some (length c)"
    using find_str_byte [of "CHR ''>''" "b @ ''<'' @ c" d] find_str_byte [of "CHR ''>''" c d] assms(1,7,8) by simp_all
  obtain others where ranges: "angle_ranges line = (length a, ?e) # (?s, ?s + 1 + length c) # others"
    unfolding angle_ranges_def places List.map_filter_simps using ends by simp
  have email: "substr (length a + 1) ?e line = b @ ''<'' @ c" using assms(1) by (simp add: substr_def)
  have "trim (b @ ''<'' @ c) \<noteq> []"
    by (rule trim_ascii_nonempty [where c = "CHR ''<''"]) (use assms(1,2) in \<open>simp_all add: is_whitespace_def is_ascii_def\<close>)
  then show ?thesis
    unfolding parse_mailmap_entry_def Let_def line assms(3) ranges list.case prod.case email by simp
qed

theorem nested_bracket_panics_witness: "parse_mailmap_entry ''Ann <ann <ann@x>'' = None"
  by (rule nested_bracket_panics [of _ "''Ann ''" "''ann ''" "''ann@x''" "[]"])
    (simp_all add: text_eval is_ascii_def)

lemma find_first:
  "find P xs = Some x \<Longrightarrow> \<exists>a b. xs = a @ x # b \<and> P x \<and> (\<forall>y\<in>set a. \<not> P y)"
proof (induction xs)
  case (Cons y xs)
  show ?case
  proof (cases "P y")
    case True
    then show ?thesis using Cons.prems by (intro exI [of _ "[]"] exI [of _ xs]) simp
  next
    case False
    then obtain a b where "xs = a @ x # b" "P x" "\<forall>z\<in>set a. \<not> P z" using Cons by auto
    then show ?thesis using False by (intro exI [of _ "y # a"] exI [of _ b]) simp
  qed
qed simp


text \<open>C33. An entry for an address hides the entries for a name at that address: \<open>read_mailmap\<close> puts entries without a
  name first and \<open>resolve\<close> takes the first that matches, so the entry that names the person is never
  chosen, which is the one Git chooses.\<close>

theorem address_entry_hides_named_entries:
  assumes "read_mailmap file = Some (Inr (mailmap, fingerprint))"
    and "general \<in> set mailmap" "me_alias_name general = None" "eq_ignore_ascii_case (me_alias_email general) email"
    and "\<forall>entry\<in>set mailmap. eq_ignore_ascii_case (me_alias_email entry) email \<longrightarrow> me_alias_email entry = me_alias_email general"
  shows "\<exists>entry\<in>set mailmap. me_alias_name entry = None \<and>
    mailmap_resolve mailmap name email =
      (case me_canonical_name entry of None \<Rightarrow> name | Some canonical \<Rightarrow> canonical, me_canonical_email entry)"
proof -
  let ?k = "\<lambda>e. (me_alias_email e, me_alias_name e)"
  have "\<exists>entries. mailmap = sort_key ?k entries"
    using assms(1) by (auto simp: read_mailmap_def split: mailmap_file.splits if_splits sum.splits option.splits
        intro: exI [of _ "[]"])
  then obtain entries where "mailmap = sort_key ?k entries" by blast
  then have sorted: "sorted (map ?k mailmap)" by simp
  have general: "entry_matches name email general" using assms(3,4) by (simp add: entry_matches_def)
  then obtain entry where found: "find (entry_matches name email) mailmap = Some entry"
    using assms(2) by (cases "find (entry_matches name email) mailmap") (auto simp: find_None_iff)
  obtain a b where split: "mailmap = a @ entry # b" "entry_matches name email entry" "\<forall>y\<in>set a. \<not> entry_matches name email y"
    using find_first [OF found] by blast
  have same: "me_alias_email entry = me_alias_email general"
    using assms(5) split(1,2) by (simp add: entry_matches_def)
  have "general = entry \<or> general \<in> set b" using assms(2) split general by auto
  then have "?k entry \<le> ?k general" using sorted unfolding split(1) by (auto simp: sorted_append)
  then have "me_alias_name entry = None"
    using same assms(3) by (cases "me_alias_name entry") (simp_all add: less_eq_prod_def less_eq_option_def)
  moreover have "entry \<in> set mailmap" using split(1) by simp
  ultimately show ?thesis using found unfolding mailmap_resolve_def by (intro bexI [of _ entry]) simp_all
qed

section \<open>Samples\<close>

definition sample_facts_env :: facts_env where
  "sample_facts_env = \<lparr>fe_valid_time = (\<lambda>_. True), fe_cancelled = (\<lambda>_ _. False)\<rparr>"

text \<open>One revision with one modified path, as Git prints it with a zero byte after every field.\<close>

definition sample_output :: "string list" where
  "sample_output = [MARKER, replicate 40 CHR ''a'', [], ''t'', ''Ann'', ''ann'', ''HEAD'', ''s'', [], '':1 M'', ''f'', ''1'' @ [CHR 0x09] @ ''2'' @ [CHR 0x09] @ ''f'']"

lemma sample_pieces: "split_list (\<lambda>c. c = CHR 0x00) (join_str [CHR 0x00] sample_output) = sample_output"
  by (rule split_list_joined) (simp_all add: sample_output_def MARKER_def)

lemma sample_ascii: "is_ascii s \<Longrightarrow> utf8 s label = Inr s"
  by (simp add: utf8_def valid_utf8_ascii)

lemma sample_header: "\<exists>r. parse_header sample_facts_env [] ''r'' (take 8 (tl sample_output)) = Inr r \<and> rf_is_head r \<and>
  rf_malformed_coauthor_count r = 0"
proof -
  have sha: "validate_full_sha (replicate 40 CHR ''a'') None = Inr ()"
    by (simp add: validate_full_sha_def require_def list_all_iff text_eval)
  have fields: "take 8 (tl sample_output) = [replicate 40 CHR ''a'', [], ''t'', ''Ann'', ''ann'', ''HEAD'', ''s'', []]"
    by (simp add: sample_output_def)
  have parts: "utf8 (replicate 40 CHR ''a'') l = Inr (replicate 40 CHR ''a'')" "utf8 [] l = Inr []" "utf8 ''t'' l = Inr ''t''"
    "utf8 ''Ann'' l = Inr ''Ann''" "utf8 ''ann'' l = Inr ''ann''" "utf8 ''HEAD'' l = Inr ''HEAD''" "utf8 ''s'' l = Inr ''s''" for l
    by (rule sample_ascii, simp add: is_ascii_def list_all_iff)+
  have head: "list_ex (\<lambda>item. trim item = ''HEAD'' \<or> starts_with (trim item) ''HEAD -> '') (split_unit_separator ''HEAD'')"
    by (simp add: split_unit_separator_def text_eval)
  show ?thesis
    unfolding parse_header_def fields nth_Cons_0 nth_Cons_numeral One_nat_def
    by (simp add: parts sha head parse_coauthors_def split_whitespace_def split_on_def require_def sample_facts_env_def
        split_unit_separator_def text_eval and_then_def Let_def)
qed


lemma sample_paths: "\<exists>path. parse_paths (\<lambda>_. False) (drop 9 sample_output) = Inr [path] \<and>
  pf_path path = ''f'' \<and> pf_old_path path = None \<and> pf_status path = Path_Modified"
proof -
  let ?num = "[CHR ''1'', CHR 0x09, CHR ''2'', CHR 0x09, CHR ''f'']"
  have rest: "drop 9 sample_output = ['':1 M'', ''f'', ?num]" by (simp add: sample_output_def)
  have raw: "parse_raw ['':1 M'', ''f'', ?num] = Inr (\<lparr>pf_path = ''f'', pf_old_path = None, pf_status = Path_Modified,
      pf_additions = None, pf_deletions = None, pf_binary = False, pf_generated = fst (classify_history_path ''f''),
      pf_vendored = snd (classify_history_path ''f'')\<rparr>, 2)"
    by (simp add: parse_raw_def trim_newlines_def is_ascii_whitespace_def field_at_def sample_ascii is_ascii_def)
  have num: "parse_numstat_record [?num] = Inr (Some 1, Some 2, ''f'', None, 1)"
    by (simp add: parse_numstat_record_def trim_newlines_def parse_numstat_def parse_count_def sample_ascii is_ascii_def
        parse_usize_def digits_value_def digit_value_def is_ascii_digit_def usize_max_def)
  show ?thesis
    unfolding parse_paths_def rest
    by (subst parse_path_loop.simps, simp add: raw trim_newlines_def)
      (subst parse_path_loop.simps, simp add: num trim_newlines_def,
       subst parse_path_loop.simps, simp)
qed

lemma sample_parse:
  "\<exists>batch. parse_history_facts sample_facts_env (join_str [CHR 0x00] sample_output) default_limits [] ''r'' = Inr batch \<and>
     length (filter rf_is_head (hb_revisions batch)) = 1 \<and>
     (\<forall>r\<in>set (hb_revisions batch). rf_malformed_coauthor_count r = 0 \<and> map pf_path (rf_paths r) = [''f''] \<and>
        map pf_old_path (rf_paths r) = [None] \<and> map pf_status (rf_paths r) = [Path_Modified])"
proof -
  obtain r where r: "parse_header sample_facts_env [] ''r'' (take 8 (tl sample_output)) = Inr r" "rf_is_head r"
    "rf_malformed_coauthor_count r = 0" using sample_header by blast
  obtain path where p: "parse_paths (\<lambda>_. False) (drop 9 sample_output) = Inr [path]" "pf_path path = ''f''"
    "pf_old_path path = None" "pf_status path = Path_Modified" using sample_paths by blast
  have marker: "is_marker MARKER" by (simp add: is_marker_def trim_newlines_def MARKER_def)
  have cons: "sample_output = MARKER # tl sample_output" by (simp add: sample_output_def)
  have nine: "drop 8 (tl sample_output) = drop 9 sample_output" by (simp add: sample_output_def)
  have plain: "\<not> is_marker piece" if "piece \<in> set (drop 9 sample_output)" for piece
    using that by (auto simp: sample_output_def is_marker_def trim_newlines_def MARKER_def)
  have none: "takeWhile (\<lambda>p. \<not> is_marker p) (drop 9 sample_output) = drop 9 sample_output"
    "dropWhile (\<lambda>p. \<not> is_marker p) (drop 9 sample_output) = []"
    using plain by (simp_all add: takeWhile_eq_all_conv dropWhile_eq_Nil_conv)
  have eight: "\<not> length (tl sample_output) < 8" by (simp add: sample_output_def)
  have live: "fe_cancelled sample_facts_env = (\<lambda>_ _. False)" by (simp add: sample_facts_env_def)
  have stop: "parse_revision_loop env limits mailmap scope revisions n [] = Inr revisions" for env limits mailmap scope revisions n
    by (subst parse_revision_loop.simps) simp
  have few: "length [path] \<le> usize_max" "length [path] \<le> li_paths default_limits" "li_revisions default_limits \<noteq> 0"
    by (simp_all add: usize_max_def default_limits_def MAX_PATHS_def MAX_REVISIONS_def)
  have "parse_revision_loop sample_facts_env default_limits [] ''r'' [] 0 (MARKER # tl sample_output) = Inr [r\<lparr>rf_paths := [path]\<rparr>]"
    by (subst parse_revision_loop.simps) (simp only: list.case live if_False marker not_True_eq_False list.size(3) few(3)
      few(3) [symmetric] not_False_eq_True eight Let_def nine none r(1) p(1) and_then_simps stop add_0 append_Nil
      linorder_not_less [symmetric] few(1,2) [unfolded linorder_not_less [symmetric]])
  moreover have "len (join_str [CHR 0x00] sample_output) \<le> 67108864" by (simp add: sample_output_def MARKER_def)
  ultimately show ?thesis
    using r p(2-4) sample_pieces cons
    by (intro exI [of _ "\<lparr>hb_schema_version = HISTORY_FACTS_SCHEMA_VERSION,
       hb_classification_version = HISTORY_FACT_CLASSIFICATION_VERSION, hb_git_process_count = 1, hb_mailmap_fingerprint = [],
       hb_facts_fingerprint = history_facts_fingerprint [r\<lparr>rf_paths := [path]\<rparr>], hb_revisions = [r\<lparr>rf_paths := [path]\<rparr>]\<rparr>"])
      (simp add: parse_history_facts_def and_then_def default_limits_def MAX_OUTPUT_BYTES_def)
qed


theorem accepted_history_well_formed_witness:
  "\<exists>batch. parse_history_facts sample_facts_env (join_str [CHR 0x00] sample_output) default_limits [] ''r'' = Inr batch \<and>
     hb_revisions batch \<noteq> [] \<and> length (hb_revisions batch) \<le> 100000 \<and>
     list_all revision_well_read (hb_revisions batch)"
proof -
  obtain batch where b: "parse_history_facts sample_facts_env (join_str [CHR 0x00] sample_output) default_limits [] ''r'' = Inr batch"
    "length (filter rf_is_head (hb_revisions batch)) = 1" using sample_parse by blast
  then show ?thesis
    using accepted_history_well_formed [OF b(1)]
    by (intro exI [of _ batch]) (auto simp: default_limits_def MAX_REVISIONS_def)
qed

lemma sample_history_accepted:
  "\<exists>batch. parse_history_facts sample_facts_env (join_str [CHR 0x00] sample_output) default_limits [] ''r'' = Inr batch \<and>
     length (filter rf_is_head (hb_revisions batch)) = 1 \<and>
     list_all (\<lambda>r. rf_malformed_coauthor_count r \<le> 10000 \<and>
       list_all (\<lambda>path. pf_path path \<noteq> [] \<and> pf_old_path path \<noteq> Some [] \<and> pf_status path \<noteq> Path_Unknown) (rf_paths r))
       (hb_revisions batch)"
proof -
  obtain batch where b: "parse_history_facts sample_facts_env (join_str [CHR 0x00] sample_output) default_limits [] ''r'' = Inr batch"
    "length (filter rf_is_head (hb_revisions batch)) = 1"
    "\<forall>r\<in>set (hb_revisions batch). rf_malformed_coauthor_count r = 0 \<and> map pf_path (rf_paths r) = [''f''] \<and>
        map pf_old_path (rf_paths r) = [None] \<and> map pf_status (rf_paths r) = [Path_Modified]" using sample_parse by blast
  have "list_all (\<lambda>r. rf_malformed_coauthor_count r \<le> 10000 \<and>
      list_all (\<lambda>path. pf_path path \<noteq> [] \<and> pf_old_path path \<noteq> Some [] \<and> pf_status path \<noteq> Path_Unknown) (rf_paths r))
      (hb_revisions batch)"
    unfolding list_all_iff using b(3) by (force simp: map_eq_Cons_conv)
  then show ?thesis using b(1,2) by blast
qed

theorem accepted_history_validates_witness:
  "\<exists>batch. parse_history_facts sample_facts_env (join_str [CHR 0x00] sample_output) default_limits [] ''r'' = Inr batch \<and>
     validate_batch (batch\<lparr>hb_mailmap_fingerprint := ''m''\<rparr>) = Inr ()"
proof -
  obtain batch where b: "parse_history_facts sample_facts_env (join_str [CHR 0x00] sample_output) default_limits [] ''r'' = Inr batch"
    "length (filter rf_is_head (hb_revisions batch)) = 1 \<and>
     list_all (\<lambda>r. rf_malformed_coauthor_count r \<le> 10000 \<and>
       list_all (\<lambda>path. pf_path path \<noteq> [] \<and> pf_old_path path \<noteq> Some [] \<and> pf_status path \<noteq> Path_Unknown) (rf_paths r))
       (hb_revisions batch)" using sample_history_accepted by blast
  have "validate_batch (batch\<lparr>hb_mailmap_fingerprint := ''m''\<rparr>) = Inr ()"
    using accepted_history_validates [OF b(1), of "''m''"] b(2) by simp
  then show ?thesis using b(1) by blast
qed

lemma sample_history_valid:
  "\<exists>batch. parse_history_facts sample_facts_env (join_str [CHR 0x00] sample_output) default_limits [] ''r'' = Inr batch \<and>
     validate_batch (batch\<lparr>hb_mailmap_fingerprint := ''m''\<rparr>) = Inr ()"
proof -
  obtain batch where b: "parse_history_facts sample_facts_env (join_str [CHR 0x00] sample_output) default_limits [] ''r'' = Inr batch"
    "length (filter rf_is_head (hb_revisions batch)) = 1 \<and>
     list_all (\<lambda>r. rf_malformed_coauthor_count r \<le> 10000 \<and>
       list_all (\<lambda>path. pf_path path \<noteq> [] \<and> pf_old_path path \<noteq> Some [] \<and> pf_status path \<noteq> Path_Unknown) (rf_paths r))
       (hb_revisions batch)" using sample_history_accepted by blast
  have "validate_batch (batch\<lparr>hb_mailmap_fingerprint := ''m''\<rparr>) = Inr ()"
    using validates_exactly [OF b(1), of "''m''"] b(2) by simp
  then show ?thesis using b(1) by blast
qed

definition sample_mailmap :: string where
  "sample_mailmap = ''<g@x> <o@x>'' @ [CHR 0x0A] @ ''Robert <n@x> Bob <o@x>'' @ [CHR 0x0A]"

lemma collect_entries_step:
  "collect_entries n [] = Some []"
  "n > 0 \<Longrightarrow> collect_entries n (line # lines) =
     (case parse_mailmap_entry line of None \<Rightarrow> None | Some None \<Rightarrow> collect_entries n lines
      | Some (Some entry) \<Rightarrow> map_option (Cons entry) (collect_entries (n - 1) lines))"
  subgoal by (cases n) simp_all
  subgoal by (cases n) (auto split: option.split)
  done

lemma sample_ranges:
  "angle_ranges ''<g@x> <o@x>'' = [(0, 4), (6, 10)]" "angle_ranges ''Robert <n@x> Bob <o@x>'' = [(7, 11), (17, 21)]"
  by (simp_all add: angle_ranges_def List.map_filter_simps upt_rec)

theorem address_entry_hides_named_entries_witness:
  "\<exists>mailmap fingerprint. read_mailmap (Mailmap_Found True 40 (Inr sample_mailmap)) = Some (Inr (mailmap, fingerprint)) \<and>
     (\<exists>entry\<in>set mailmap. me_alias_name entry = None \<and>
       mailmap_resolve mailmap ''Bob'' ''o@x'' =
         (case me_canonical_name entry of None \<Rightarrow> ''Bob'' | Some canonical \<Rightarrow> canonical, me_canonical_email entry))"
proof -
  let ?g = "\<lparr>me_canonical_name = None, me_canonical_email = ''g@x'', me_alias_name = None, me_alias_email = ''o@x''\<rparr>"
  let ?n = "\<lparr>me_canonical_name = Some ''Robert'', me_canonical_email = ''n@x'', me_alias_name = Some ''Bob'', me_alias_email = ''o@x''\<rparr>"
  have lines: "rust_lines sample_mailmap = [''<g@x> <o@x>'', ''Robert <n@x> Bob <o@x>'']"
    by (simp add: rust_lines_def sample_mailmap_def Let_def)
  have entries: "parse_mailmap_entry ''<g@x> <o@x>'' = Some (Some ?g)" "parse_mailmap_entry ''Robert <n@x> Bob <o@x>'' = Some (Some ?n)"
    by (simp_all add: parse_mailmap_entry_def sample_ranges Let_def substr_def text_eval)
  have read: "read_mailmap (Mailmap_Found True 40 (Inr sample_mailmap)) =
      Some (Inr ([?g, ?n], stable_graph_id ''history-mailmap-v1'' sample_mailmap))"
    unfolding read_mailmap_def
    by (simp add: lines collect_entries_step entries MAX_MAILMAP_BYTES_def MAX_MAILMAP_ENTRIES_def less_eq_prod_def less_eq_option_def)
  show ?thesis
    by (rule exI, rule exI, rule conjI, rule read, rule address_entry_hides_named_entries [OF read, of ?g])
      (simp_all add: eq_ignore_ascii_case_def)
qed

end
