(* ===== verification/History_Intervals.thy ===== *)
theory History_Intervals
  imports History_Timeline History_Reading
begin

text \<open>
  What the timeline means: the walk over the parents finds exactly the observed ancestors, the interval
  of a release is exact, the release ranges partition the timeline, the window shows the last commits
  and every release, and the output that the reader of \<open>history_facts.rs\<close> accepts never panics on the
  way to a timeline.
\<close>

section \<open>The ancestors are exact\<close>

definition parent_rel :: "HistoryTimelineBuild \<Rightarrow> (string \<times> string) set" where
  "parent_rel build = {(sha, parent). \<exists>found. facts_by_revision build sha = Some found \<and>
     parent \<in> set (rf_parents found) \<and> facts_by_revision build parent \<noteq> None}"

definition ancestors_of :: "HistoryTimelineBuild \<Rightarrow> string \<Rightarrow> string set" where
  "ancestors_of build sha = {a. (sha, a) \<in> (parent_rel build)\<^sup>*}"

text \<open>The parents of a revision are all known, unless the history is shallow.\<close>

definition parents_known :: "HistoryTimelineBuild \<Rightarrow> string \<Rightarrow> bool" where
  "parents_known build sha \<longleftrightarrow> (\<exists>found. facts_by_revision build sha = Some found \<and>
     (ht_is_shallow (tb_timeline build) \<or> (\<forall>parent\<in>set (rf_parents found). facts_by_revision build parent \<noteq> None)))"

definition ancestry_covered :: "HistoryTimelineBuild \<Rightarrow> string \<Rightarrow> bool" where
  "ancestry_covered build sha \<longleftrightarrow> (\<forall>a\<in>ancestors_of build sha. parents_known build a)"

lemma next_parents_from:
  "try_fold (\<lambda>pending parent.
       if facts parent \<noteq> None then Inr (pending @ [parent])
       else if \<not> is_shallow then Inl (''Complete history is missing parent '' @ parent)
       else Inr pending) acc parents = Inr ps \<longleftrightarrow>
     (is_shallow \<or> (\<forall>parent\<in>set parents. facts parent \<noteq> None)) \<and> ps = acc @ filter (\<lambda>parent. facts parent \<noteq> None) parents"
  by (induction parents arbitrary: acc) (auto simp: and_then_Inr_iff)

lemma next_parents_Inr:
  "next_parents facts is_shallow parents = Inr ps \<longleftrightarrow>
     (is_shallow \<or> (\<forall>parent\<in>set parents. facts parent \<noteq> None)) \<and> ps = filter (\<lambda>parent. facts parent \<noteq> None) parents"
  unfolding next_parents_def next_parents_from by simp

definition walk_ok :: "HistoryTimelineBuild \<Rightarrow> string \<Rightarrow> string list \<Rightarrow> string list \<Rightarrow> bool" where
  "walk_ok build revision ancestors pending \<longleftrightarrow> distinct ancestors \<and>
     set ancestors \<union> set pending \<subseteq> ancestors_of build revision \<and> revision \<in> set ancestors \<union> set pending \<and>
     (\<forall>a\<in>set ancestors. parents_known build a \<and>
        (\<forall>p. (a, p) \<in> parent_rel build \<longrightarrow> p \<in> set ancestors \<union> set pending))"

lemma ancestor_loop_walk:
  assumes "facts = tb_facts build" "is_shallow = ht_is_shallow (tb_timeline build)"
  shows "walk_ok build revision ancestors pending \<Longrightarrow>
    (case ancestor_loop facts is_shallow ancestors pending of
       Inr result \<Rightarrow> walk_ok build revision result []
     | Inl _ \<Rightarrow> \<exists>a\<in>ancestors_of build revision. \<not> parents_known build a)"
  using assms
proof (induction facts is_shallow ancestors pending rule: ancestor_loop.induct)
  case (1 facts is_shallow ancestors pending)
  let ?sha = "last pending" and ?rest = "butlast pending"
  note fm = facts_by_revision_def "1.prems"(2)
  show ?case
  proof (cases "pending = []")
    case True
    then show ?thesis using "1.prems"(1) by (subst ancestor_loop.simps) simp
  next
    case False
    then have split: "set pending = insert ?sha (set ?rest)"
      by (metis append_butlast_last_id list.simps(15) rotate1.simps(2) set_rotate1)
    show ?thesis
    proof (cases "?sha \<in> set ancestors")
      case True
      have "walk_ok build revision ancestors ?rest"
        using "1.prems"(1) True split unfolding walk_ok_def by auto
      then have "case ancestor_loop facts is_shallow ancestors ?rest of
          Inr result \<Rightarrow> walk_ok build revision result []
        | Inl _ \<Rightarrow> \<exists>a\<in>ancestors_of build revision. \<not> parents_known build a"
        using "1.IH"(1) [OF False refl refl True _ "1.prems"(2,3)] by blast
      then show ?thesis using False True by (subst ancestor_loop.simps) simp
    next
      case new: False
      have reached: "?sha \<in> ancestors_of build revision" using "1.prems"(1) split unfolding walk_ok_def by blast
      show ?thesis
      proof (cases "facts_by_revision build ?sha")
        case None
        then have "\<not> parents_known build ?sha" by (simp add: parents_known_def)
        moreover have "\<exists>e. ancestor_loop facts is_shallow ancestors pending = Inl e"
          using False new None by (subst ancestor_loop.simps) (simp add: fm)
        ultimately show ?thesis using reached by auto
      next
        case (Some found)
        then have look: "identity_map rf_sha facts ?sha = Some found" by (simp add: fm)
        show ?thesis
        proof (cases "next_parents (identity_map rf_sha facts) is_shallow (rf_parents found)")
          case (Inl e)
          then have "\<not> parents_known build ?sha"
            using next_parents_Inr [of "identity_map rf_sha facts" is_shallow "rf_parents found"] Some
            by (auto simp: parents_known_def fm "1.prems"(3))
          moreover have "\<exists>e. ancestor_loop facts is_shallow ancestors pending = Inl e"
            using False new look Inl by (subst ancestor_loop.simps) simp
          ultimately show ?thesis using reached by auto
        next
          case (Inr parents)
          have ps: "is_shallow \<or> (\<forall>p\<in>set (rf_parents found). facts_by_revision build p \<noteq> None)"
            "set parents = {p \<in> set (rf_parents found). facts_by_revision build p \<noteq> None}"
            using Inr unfolding next_parents_Inr by (auto simp: fm)
          have rel: "(?sha, p) \<in> parent_rel build \<longleftrightarrow> p \<in> set parents" for p
            using Some unfolding parent_rel_def ps(2) by auto
          have known: "parents_known build ?sha" using Some ps(1) "1.prems"(3) by (auto simp: parents_known_def)
          have "set parents \<subseteq> ancestors_of build revision"
            using reached rel unfolding ancestors_of_def by (auto intro: rtrancl_into_rtrancl)
          then have "walk_ok build revision (?sha # ancestors) (?rest @ parents)"
            using "1.prems"(1) split new known rel reached unfolding walk_ok_def by auto
          then have "case ancestor_loop facts is_shallow (?sha # ancestors) (?rest @ parents) of
              Inr result \<Rightarrow> walk_ok build revision result []
            | Inl _ \<Rightarrow> \<exists>a\<in>ancestors_of build revision. \<not> parents_known build a"
            using "1.IH"(2) [OF False refl refl new look Inr _ "1.prems"(2,3)] by blast
          then show ?thesis using False new look Inr by (subst ancestor_loop.simps) simp
        qed
      qed
    qed
  qed
qed

lemma walked_all:
  assumes "walk_ok build revision ancestors []"
  shows "distinct ancestors" "set ancestors = ancestors_of build revision" "ancestry_covered build revision"
proof -
  show "distinct ancestors" using assms by (simp add: walk_ok_def)
  have closed: "p \<in> set ancestors" if "(revision, p) \<in> (parent_rel build)\<^sup>*" for p
    using that
  proof (induction rule: rtrancl_induct)
    case base
    then show ?case using assms by (simp add: walk_ok_def)
  next
    case (step y z)
    then show ?case using assms unfolding walk_ok_def by auto
  qed
  then show eq: "set ancestors = ancestors_of build revision"
    using assms unfolding walk_ok_def ancestors_of_def by auto
  show "ancestry_covered build revision"
    using assms eq unfolding walk_ok_def ancestry_covered_def by simp
qed

lemma observed_ancestors_cases:
  "case observed_ancestors build revision of
     Inr ancestors \<Rightarrow> distinct ancestors \<and> set ancestors = ancestors_of build revision \<and> ancestry_covered build revision
   | Inl _ \<Rightarrow> \<not> ancestry_covered build revision"
proof -
  have "walk_ok build revision [] [revision]" by (simp add: walk_ok_def ancestors_of_def)
  from ancestor_loop_walk [OF refl refl this] show ?thesis
    unfolding observed_ancestors_def [symmetric] using walked_all
    by (auto simp: ancestry_covered_def split: sum.splits)
qed

lemma observed_ancestors_Inr:
  assumes "observed_ancestors build revision = Inr ancestors"
  shows "distinct ancestors" "set ancestors = ancestors_of build revision" "ancestry_covered build revision"
  using observed_ancestors_cases [of build revision] assms by simp_all

lemma observed_ancestors_Inl:
  "observed_ancestors build revision = Inl e \<Longrightarrow> \<not> ancestry_covered build revision"
  using observed_ancestors_cases [of build revision] by simp

section \<open>The release intervals are exact\<close>

definition release_commit :: "HistoryTimelineBuild \<Rightarrow> GitTagRecord list \<Rightarrow> string \<Rightarrow> nat \<Rightarrow> bool" where
  "release_commit build tags sha ordinal \<longleftrightarrow>
     position_of (ht_reachable_revisions (tb_timeline build)) sha = Some ordinal \<and>
     (\<exists>tag\<in>set tags. is_release_tag (gt_name tag) \<and> gt_commit_sha tag = sha)"

text \<open>The release before a commit: the last release commit among its earlier ancestors, if there is one.\<close>

definition previous_release ::
  "HistoryTimelineBuild \<Rightarrow> GitTagRecord list \<Rightarrow> string \<Rightarrow> nat \<Rightarrow> string option \<Rightarrow> bool" where
  "previous_release build tags sha ordinal previous \<longleftrightarrow>
     (case previous of
        None \<Rightarrow> \<not> (\<exists>c n. release_commit build tags c n \<and> n < ordinal \<and> c \<in> ancestors_of build sha)
      | Some c \<Rightarrow> c \<in> ancestors_of build sha \<and> (\<exists>n<ordinal. release_commit build tags c n \<and>
          (\<forall>d k. release_commit build tags d k \<longrightarrow> k < ordinal \<longrightarrow> d \<in> ancestors_of build sha \<longrightarrow> k \<le> n)))"

definition position_exact :: "HistoryTimelineBuild \<Rightarrow> GitTagRecord list \<Rightarrow> ReleasePosition \<Rightarrow> bool" where
  "position_exact build tags p \<longleftrightarrow>
     (case position_of (ht_reachable_revisions (tb_timeline build)) (gt_commit_sha (rp_tag p)) of
        None \<Rightarrow> rp_from_exclusive_sha p = None \<and> rp_commit_count p = None \<and> rp_observed_commit_count p = 0 \<and>
          rp_coverage_kind p = ''divergent''
      | Some ordinal \<Rightarrow>
          previous_release build tags (gt_commit_sha (rp_tag p)) ordinal (rp_from_exclusive_sha p) \<and>
          rp_observed_commit_count p = card (ancestors_of build (gt_commit_sha (rp_tag p)) -
            (case rp_from_exclusive_sha p of None \<Rightarrow> {} | Some c \<Rightarrow> ancestors_of build c)) \<and>
          rp_commit_count p = (if ht_is_shallow (tb_timeline build) then None else Some (rp_observed_commit_count p)) \<and>
          rp_coverage_kind p = (if ht_is_shallow (tb_timeline build) then ''shallow'' else ''complete''))"

lemma dedup_by_keys: "fst ` set (dedup_by fst xs) = fst ` set xs"
proof (induction "fst :: 'a \<times> 'b \<Rightarrow> 'a" xs rule: dedup_by.induct)
  case (3 x y xs)
  show ?case
  proof (cases "fst x = fst y")
    case True
    then show ?thesis using 3(1) by simp
  next
    case False
    then show ?thesis using 3(2) by simp
  qed
qed simp_all

lemma dedup_by_order: "sorted_wrt P xs \<Longrightarrow> sorted_wrt P (dedup_by f xs)"
proof (induction f xs rule: dedup_by.induct)
  case (3 f x y xs)
  show ?case
  proof (cases "f x = f y")
    case True
    then show ?thesis using 3 by simp
  next
    case False
    have "sorted_wrt P (dedup_by f (y # xs))" using 3(2) [OF False] 3(3) by simp
    then show ?thesis using 3(3) False dedup_by_subset [of f "y # xs"] by auto
  qed
qed simp_all

lemma release_revisions_set:
  "(sha, n) \<in> set (release_revisions build tags) \<longleftrightarrow> release_commit build tags sha n"
proof -
  let ?pos = "position_of (ht_reachable_revisions (tb_timeline build))"
  let ?all = "List.map_filter (\<lambda>tag. map_option (Pair (gt_commit_sha tag)) (?pos (gt_commit_sha tag)))
    (filter (\<lambda>tag. is_release_tag (gt_name tag)) tags)"
  have all: "(c, k) \<in> set ?all \<longleftrightarrow> release_commit build tags c k" for c k
    by (auto simp: List.map_filter_def release_commit_def image_iff)
  have "set (release_revisions build tags) \<subseteq> set ?all"
    unfolding release_revisions_def Let_def by (rule order_trans [OF dedup_by_subset]) simp
  moreover have "fst ` set (release_revisions build tags) = fst ` set ?all"
    unfolding release_revisions_def Let_def dedup_by_keys set_sort ..
  ultimately have sub: "set (release_revisions build tags) \<subseteq> set ?all"
    and keys: "fst ` set (release_revisions build tags) = fst ` set ?all" by blast+
  have one: "n = k" if "release_commit build tags sha n" "release_commit build tags sha k" for k
    using that by (simp add: release_commit_def)
  show ?thesis
  proof
    assume "(sha, n) \<in> set (release_revisions build tags)"
    then show "release_commit build tags sha n" using sub all by blast
  next
    assume commit: "release_commit build tags sha n"
    then have "sha \<in> fst ` set (release_revisions build tags)"
      unfolding keys using all [of sha n] by (metis fst_conv image_eqI)
    then obtain k where k: "(sha, k) \<in> set (release_revisions build tags)" by auto
    then have "release_commit build tags sha k" using sub all by blast
    then show "(sha, n) \<in> set (release_revisions build tags)" using one [OF commit] k by simp
  qed
qed

lemma release_revisions_order: "sorted_wrt (\<lambda>a b. snd a \<le> snd b) (release_revisions build tags)"
proof -
  have "sorted (map (\<lambda>(sha, ordinal). (ordinal, sha)) (sort_key (\<lambda>(sha, ordinal). (ordinal, sha)) xs))"
    for xs :: "(string \<times> nat) list" by (rule sorted_sort_key)
  then have "sorted_wrt (\<lambda>a b. snd a \<le> snd b) (sort_key (\<lambda>(sha, ordinal). (ordinal, sha)) xs)"
    for xs :: "(string \<times> nat) list"
    unfolding sorted_map by (rule sorted_wrt_mono_rel [rotated]) (auto simp: less_eq_prod_def)
  then show ?thesis unfolding release_revisions_def Let_def by (intro dedup_by_order)
qed

lemma find_last_largest:
  assumes "sorted_wrt (\<lambda>a b. snd a \<le> (snd b :: nat)) xs"
  shows "(case find Q (rev xs) of
      None \<Rightarrow> \<forall>x\<in>set xs. \<not> Q x
    | Some x \<Rightarrow> x \<in> set xs \<and> Q x \<and> (\<forall>y\<in>set xs. Q y \<longrightarrow> snd y \<le> snd x))"
  using assms
proof (induction xs rule: rev_induct)
  case (snoc z zs)
  then show ?case by (cases "find Q (rev zs)") (auto simp: sorted_wrt_append)
qed simp

text \<open>The cache holds exactly the ancestors of the release commits.\<close>

lemma cache_from:
  "try_fold (\<lambda>cache (sha, _). and_then (observed_ancestors build sha) (\<lambda>ancestors. Inr (cache @ [(sha, ancestors)])))
     acc releases = Inr cache \<Longrightarrow>
   map fst cache = map fst acc @ map fst releases \<and>
   (\<forall>(sha, ancestors)\<in>set cache. (sha, ancestors) \<in> set acc \<or> observed_ancestors build sha = Inr ancestors)"
proof (induction releases arbitrary: acc)
  case (Cons r rs)
  obtain sha n where r: "r = (sha, n)" by (cases r)
  obtain ancestors where a: "observed_ancestors build sha = Inr ancestors"
    "try_fold (\<lambda>cache (sha, _). and_then (observed_ancestors build sha) (\<lambda>ancestors. Inr (cache @ [(sha, ancestors)])))
       (acc @ [(sha, ancestors)]) rs = Inr cache"
    using Cons.prems by (auto simp: r and_then_Inr_iff)
  from Cons.IH [OF a(2)] a(1) show ?case by (auto simp: r)
qed auto

lemma cache_lookup:
  assumes "try_fold (\<lambda>cache (sha, _). and_then (observed_ancestors build sha) (\<lambda>ancestors. Inr (cache @ [(sha, ancestors)])))
     [] releases = Inr cache"
  shows "map_of (rev cache) sha = Some ancestors \<Longrightarrow> observed_ancestors build sha = Inr ancestors"
    and "sha \<in> fst ` set releases \<Longrightarrow> map_of (rev cache) sha \<noteq> None"
proof -
  note c = cache_from [OF assms]
  show "map_of (rev cache) sha = Some ancestors \<Longrightarrow> observed_ancestors build sha = Inr ancestors"
    using c by (auto dest!: map_of_SomeD)
  have "fst ` set cache = fst ` set releases" using c by (metis append_Nil list.simps(8) list.set_map)
  then show "sha \<in> fst ` set releases \<Longrightarrow> map_of (rev cache) sha \<noteq> None"
    by (simp add: map_of_eq_None_iff)
qed

lemma cached_commits_are_covered:
  assumes "try_fold (\<lambda>cache (sha, _). and_then (observed_ancestors build sha) (\<lambda>ancestors. Inr (cache @ [(sha, ancestors)])))
     [] (release_revisions build tags) = Inr cache"
    and "release_commit build tags sha n"
  shows "ancestry_covered build sha"
proof -
  have "sha \<in> fst ` set (release_revisions build tags)"
    using assms(2) release_revisions_set by (metis fst_conv image_eqI)
  then obtain ancestors where "map_of (rev cache) sha = Some ancestors" using cache_lookup(2) [OF assms(1)] by fastforce
  then show ?thesis using observed_ancestors_Inr(3) [OF cache_lookup(1) [OF assms(1)]] by blast
qed

lemma release_position_exact:
  assumes "try_fold (\<lambda>cache (sha, _). and_then (observed_ancestors build sha) (\<lambda>ancestors. Inr (cache @ [(sha, ancestors)])))
     [] (release_revisions build tags) = Inr cache"
    and "tag \<in> set tags" "is_release_tag (gt_name tag)"
  shows "\<exists>p. release_position build (release_revisions build tags) (map_of (rev cache)) tag = Inr p \<and>
    rp_tag p = tag \<and> position_exact build tags p"
proof (cases "position_of (ht_reachable_revisions (tb_timeline build)) (gt_commit_sha tag)")
  case None
  then show ?thesis by (simp add: release_position_def position_exact_def)
next
  case (Some ordinal)
  let ?rel = "release_revisions build tags" and ?sha = "gt_commit_sha tag"
  let ?cache = "map_of (rev cache)"
  have "release_commit build tags ?sha ordinal" using Some assms(2,3) by (auto simp: release_commit_def)
  then have "?sha \<in> fst ` set ?rel" using release_revisions_set by (metis fst_conv image_eqI)
  then obtain ancestors where c: "?cache ?sha = Some ancestors" using cache_lookup(2) [OF assms(1)] by fastforce
  note anc = observed_ancestors_Inr [OF cache_lookup(1) [OF assms(1) c]]
  let ?Q = "\<lambda>(candidate, candidate_ordinal). candidate_ordinal < ordinal \<and> candidate \<in> set ancestors"
  note last = find_last_largest [OF release_revisions_order [of build tags], of ?Q]
  define previous where "previous = map_option fst (find ?Q (rev ?rel))"
  have prev: "previous_release build tags ?sha ordinal previous"
  proof (cases "find ?Q (rev ?rel)")
    case None
    then have none: "\<forall>x\<in>set ?rel. \<not> ?Q x" using last by simp
    have "\<not> (c \<in> ancestors_of build ?sha \<and> n < ordinal)" if "release_commit build tags c n" for c n
    proof -
      have "(c, n) \<in> set ?rel" using that release_revisions_set by blast
      then show ?thesis using none anc(2) by fastforce
    qed
    then show ?thesis using None by (auto simp: previous_release_def previous_def)
  next
    case (Some x)
    then obtain d k where x: "x = (d, k)" "(d, k) \<in> set ?rel" "k < ordinal" "d \<in> set ancestors"
      and largest: "\<forall>y\<in>set ?rel. ?Q y \<longrightarrow> snd y \<le> k" using last by (cases x) auto
    have "j \<le> k" if "release_commit build tags e j" "j < ordinal" "e \<in> ancestors_of build ?sha" for e j
    proof -
      have "(e, j) \<in> set ?rel" "?Q (e, j)" using that release_revisions_set anc(2) by auto
      then show ?thesis using largest by fastforce
    qed
    moreover have "release_commit build tags d k" using x(2) release_revisions_set by blast
    moreover have "previous = Some d" using Some x(1) by (simp add: previous_def)
    ultimately show ?thesis using x(3,4) anc(2) unfolding previous_release_def by auto
  qed
  define before where "before = (case option_then previous ?cache of None \<Rightarrow> [] | Some a \<Rightarrow> a)"
  have before: "set before = (case previous of None \<Rightarrow> {} | Some d \<Rightarrow> ancestors_of build d)"
  proof (cases previous)
    case None
    then show ?thesis by (simp add: before_def option_then_def)
  next
    case (Some d)
    then obtain k where "(d, k) \<in> set ?rel" using prev unfolding previous_release_def release_revisions_set by auto
    then have "d \<in> fst ` set ?rel" by (metis fst_conv image_eqI)
    then obtain a where a: "?cache d = Some a" using cache_lookup(2) [OF assms(1)] by fastforce
    then show ?thesis using observed_ancestors_Inr(2) [OF cache_lookup(1) [OF assms(1) a]] Some
      by (simp add: before_def option_then_def)
  qed
  have count: "length (remdups (filter (\<lambda>sha. sha \<notin> set before) ancestors)) =
      card (ancestors_of build ?sha - (case previous of None \<Rightarrow> {} | Some d \<Rightarrow> ancestors_of build d))"
    unfolding length_remdups_card_conv set_filter before [symmetric] anc(2) [symmetric]
    by (rule arg_cong [where f = card]) blast
  show ?thesis
    unfolding release_position_def Some option.case c ok_or_def and_then_simps Let_def previous_def [symmetric]
      before_def [symmetric]
    using prev count Some by (simp add: position_exact_def)
qed

lemma cache_Inl:
  "try_fold (\<lambda>cache (sha, _). and_then (observed_ancestors build sha) (\<lambda>ancestors. Inr (cache @ [(sha, ancestors)])))
     acc releases = Inl e \<Longrightarrow> \<exists>sha\<in>fst ` set releases. \<not> ancestry_covered build sha"
proof (induction releases arbitrary: acc)
  case (Cons r rs)
  obtain sha n where r: "r = (sha, n)" by (cases r)
  show ?case
  proof (cases "observed_ancestors build sha")
    case (Inl e')
    then show ?thesis using observed_ancestors_Inl r by force
  next
    case (Inr ancestors)
    then have "try_fold (\<lambda>cache (sha, _). and_then (observed_ancestors build sha) (\<lambda>ancestors. Inr (cache @ [(sha, ancestors)])))
       (acc @ [(sha, ancestors)]) rs = Inl e" using Cons.prems by (simp add: r)
    from Cons.IH [OF this] show ?thesis by auto
  qed
qed simp

lemma try_fold_collect:
  assumes "\<And>x. x \<in> set xs \<Longrightarrow> \<exists>y. f x = Inr y \<and> P x y"
  shows "\<exists>ys. try_fold (\<lambda>acc x. and_then (f x) (\<lambda>y. Inr (acc @ [y]))) acc xs = Inr (acc @ ys) \<and> list_all2 P xs ys"
  using assms
proof (induction xs arbitrary: acc)
  case (Cons x xs)
  obtain y where y: "f x = Inr y" "P x y" using Cons.prems by (meson list.set_intros(1))
  obtain ys where "try_fold (\<lambda>acc x. and_then (f x) (\<lambda>y. Inr (acc @ [y]))) (acc @ [y]) xs = Inr ((acc @ [y]) @ ys)"
    "list_all2 P xs ys" using Cons.IH Cons.prems by (meson list.set_intros(2))
  then show ?case using y by (intro exI [of _ "y # ys"]) simp
qed simp

lemma positions_are_exact:
  "case release_positions build tags of
     Inl _ \<Rightarrow> \<exists>sha n. release_commit build tags sha n \<and> \<not> ancestry_covered build sha
   | Inr positions \<Rightarrow>
       \<not> (\<exists>sha n. release_commit build tags sha n \<and> \<not> ancestry_covered build sha) \<and>
       mset (map rp_tag positions) = mset (filter (\<lambda>tag. is_release_tag (gt_name tag)) tags) \<and>
       sorted (map (\<lambda>p. gt_name (rp_tag p)) positions) \<and> list_all (position_exact build tags) positions"
proof -
  let ?cache = "try_fold (\<lambda>cache (sha, _).
    and_then (observed_ancestors build sha) (\<lambda>ancestors. Inr (cache @ [(sha, ancestors)]))) [] (release_revisions build tags)"
  let ?tags = "filter (\<lambda>tag. is_release_tag (gt_name tag)) tags"
  show ?thesis
  proof (cases ?cache)
    case (Inl e)
    obtain sha where "sha \<in> fst ` set (release_revisions build tags)" "\<not> ancestry_covered build sha"
      using cache_Inl [OF Inl] by blast
    then have "\<exists>sha n. release_commit build tags sha n \<and> \<not> ancestry_covered build sha"
      using release_revisions_set by fastforce
    then show ?thesis unfolding release_positions_def Let_def Inl and_then_simps by simp
  next
    case (Inr cache)
    let ?f = "release_position build (release_revisions build tags) (map_of (rev cache))"
    have each: "\<exists>p. ?f tag = Inr p \<and> (rp_tag p = tag \<and> position_exact build tags p)" if "tag \<in> set ?tags" for tag
      using release_position_exact [OF Inr] that by simp
    obtain ps where ps: "try_fold (\<lambda>positions tag. and_then (?f tag) (\<lambda>position. Inr (positions @ [position]))) [] ?tags = Inr ps"
      "list_all2 (\<lambda>tag p. rp_tag p = tag \<and> position_exact build tags p) ?tags ps"
      using try_fold_collect [of ?tags ?f "\<lambda>tag p. rp_tag p = tag \<and> position_exact build tags p" "[]"] each by auto
    have tags: "map rp_tag ps = ?tags" using ps(2) by (induction rule: list_all2_induct) simp_all
    have exact: "\<forall>p\<in>set ps. position_exact build tags p"
      using ps(2) by (induction rule: list_all2_induct) simp_all
    have result: "release_positions build tags = Inr (sort_key (\<lambda>p. gt_name (rp_tag p)) ps)"
      unfolding release_positions_def Let_def Inr and_then_simps ps(1) ..
    have covered: "\<not> (\<exists>sha n. release_commit build tags sha n \<and> \<not> ancestry_covered build sha)"
      using cached_commits_are_covered [OF Inr] by blast
    show ?thesis unfolding result using tags exact covered by (simp add: list_all_iff flip: tags)
  qed
qed

text \<open>The publication calls the intervals complete exactly when the history is not shallow and no release diverges.\<close>

lemma published_complete_iff:
  assumes "publish_release_intervals row build tags = Inr (published, identity)"
  shows "rc_intervals_complete published \<longleftrightarrow> \<not> ht_is_shallow (tb_timeline build) \<and>
    list_all (\<lambda>tag. is_release_tag (gt_name tag) \<longrightarrow>
      position_of (ht_reachable_revisions (tb_timeline build)) (gt_commit_sha tag) \<noteq> None) tags"
proof -
  obtain releases where r: "release_positions build tags = Inr releases"
    "rc_intervals_complete published \<longleftrightarrow> \<not> intervals_partial build releases"
    using assms by (auto simp: publish_release_intervals_def and_then_Inr_iff Let_def split: if_splits)
  have m: "mset (map rp_tag releases) = mset (filter (\<lambda>tag. is_release_tag (gt_name tag)) tags)"
    and e: "list_all (position_exact build tags) releases"
    using positions_are_exact [of build tags] unfolding r(1) by simp_all
  have tags: "rp_tag ` set releases = {tag \<in> set tags. is_release_tag (gt_name tag)}"
    using mset_eq_setD [OF m] by simp
  have kind: "rp_coverage_kind p = ''divergent'' \<longleftrightarrow>
      position_of (ht_reachable_revisions (tb_timeline build)) (gt_commit_sha (rp_tag p)) = None" if "p \<in> set releases" for p
  proof -
    have exact: "position_exact build tags p" using e that unfolding list_all_iff by blast
    show ?thesis
      by (cases "position_of (ht_reachable_revisions (tb_timeline build)) (gt_commit_sha (rp_tag p))")
        (use exact in \<open>simp_all add: position_exact_def\<close>)
  qed
  have "divergent_count releases > 0 \<longleftrightarrow> (\<exists>p\<in>set releases. rp_coverage_kind p = ''divergent'')"
    by (auto simp: divergent_count_def filter_empty_conv)
  also have "\<dots> \<longleftrightarrow> (\<exists>tag\<in>rp_tag ` set releases.
      position_of (ht_reachable_revisions (tb_timeline build)) (gt_commit_sha tag) = None)" using kind by simp
  finally show ?thesis unfolding r(2) intervals_partial_def tags by (auto simp: list_all_iff)
qed

text \<open>C34. The interval of every release is exact: there are intervals exactly if the history holds the facts of
  every ancestor of every release commit it reaches (in a complete history, every parent of each; in a
  shallow one a parent may be cut off), and a missing ancestor fact is an error. Then each release tag
  gets one interval, in the order of the names, that starts at the last earlier release among the
  ancestors of its commit and counts the commits that the tag reaches and that release does not; a tag
  outside of the history is divergent.\<close>

theorem release_intervals_exact:
  "case release_positions build tags of
     Inl _ \<Rightarrow> \<exists>sha n. release_commit build tags sha n \<and> \<not> ancestry_covered build sha
   | Inr positions \<Rightarrow>
       \<not> (\<exists>sha n. release_commit build tags sha n \<and> \<not> ancestry_covered build sha) \<and>
       mset (map rp_tag positions) = mset (filter (\<lambda>tag. is_release_tag (gt_name tag)) tags) \<and>
       sorted (map (\<lambda>p. gt_name (rp_tag p)) positions) \<and> list_all (position_exact build tags) positions"
  by (rule positions_are_exact)

section \<open>The release ranges partition the timeline\<close>

definition ranges_ok :: "HistoryRevision list \<Rightarrow> nat \<Rightarrow> range_state \<Rightarrow> bool" where
  "ranges_ok revisions i st \<longleftrightarrow> rs_start st \<le> i \<and>
     concat (map rr_commit_shas (rs_ranges st)) = map hv_sha (take (rs_start st) revisions) \<and>
     map rr_to_inclusive (rs_ranges st) = map hv_sha (filter hv_is_release (take i revisions)) \<and>
     map rr_from_exclusive (rs_ranges st) @ [rs_previous st] = None # map (\<lambda>r. Some (rr_to_inclusive r)) (rs_ranges st) \<and>
     (\<forall>r\<in>set (rs_ranges st). \<not> rr_is_unreleased r \<and> rr_commit_shas r \<noteq> [] \<and> last (rr_commit_shas r) = rr_to_inclusive r)"

lemma range_step_ok:
  assumes "ranges_ok revisions i st" "i < length revisions"
  shows "ranges_ok revisions (Suc i) (range_step revisions st (i, revisions ! i))"
proof (cases "hv_is_release (revisions ! i)")
  case False
  then show ?thesis using assms by (simp add: ranges_ok_def range_step_def take_Suc_conv_app_nth)
next
  case True
  let ?commits = "take (Suc i - rs_start st) (drop (rs_start st) revisions)"
  have start: "rs_start st \<le> i" using assms(1) by (simp add: ranges_ok_def)
  have commits: "?commits = take (i - rs_start st) (drop (rs_start st) revisions) @ [revisions ! i]"
    using start assms(2) by (simp add: Suc_diff_le take_Suc_conv_app_nth)
  have whole: "take (rs_start st) revisions @ ?commits = take (Suc i) revisions"
    using start assms(2) by (metis Suc_leI add_diff_inverse_nat le_SucI not_less take_add)
  have range: "rr_commit_shas (release_range revisions st i (revisions ! i)) = map hv_sha ?commits"
    "rr_to_inclusive (release_range revisions st i (revisions ! i)) = hv_sha (revisions ! i)"
    "rr_from_exclusive (release_range revisions st i (revisions ! i)) = rs_previous st"
    "\<not> rr_is_unreleased (release_range revisions st i (revisions ! i))"
    by (simp_all add: release_range_def Let_def)
  have cover: "map hv_sha (take (rs_start st) revisions) @ map hv_sha ?commits = map hv_sha (take (Suc i) revisions)"
    unfolding map_append [symmetric] whole ..
  have last: "map hv_sha ?commits \<noteq> []" "last (map hv_sha ?commits) = hv_sha (revisions ! i)"
    unfolding commits by simp_all
  show ?thesis
    using assms True cover last unfolding ranges_ok_def range_step_def prod.case
    by (simp add: range take_Suc_conv_app_nth [OF assms(2)])
qed

lemma ranges_prefix:
  "i \<le> length revisions \<Longrightarrow>
     ranges_ok revisions i (foldl (range_step revisions) \<lparr>rs_ranges = [], rs_start = 0, rs_previous = None\<rparr>
       (take i (enumerate 0 revisions)))"
proof (induction i)
  case 0
  show ?case by (simp add: ranges_ok_def)
next
  case (Suc i)
  have "take (Suc i) (enumerate 0 revisions) = take i (enumerate 0 revisions) @ [(i, revisions ! i)]"
    using Suc.prems by (simp add: take_Suc_conv_app_nth nth_enumerate_eq)
  then show ?case using range_step_ok Suc by simp
qed

text \<open>C35. The release ranges of a timeline partition it: their commits, one range after the other, are the revisions
  of the timeline; there is one range for every release and a last one for what is unreleased; a range of a
  release ends with the release, and a range starts behind the release that the one before ends with.\<close>

theorem release_ranges_partition:
  "\<exists>ranges unreleased. release_ranges revisions head = ranges @ [unreleased] \<and>
     concat (map rr_commit_shas (ranges @ [unreleased])) = map hv_sha revisions \<and>
     map rr_to_inclusive ranges = map hv_sha (filter hv_is_release revisions) \<and>
     map rr_from_exclusive (ranges @ [unreleased]) = None # map (\<lambda>r. Some (rr_to_inclusive r)) ranges \<and>
     list_all (\<lambda>r. \<not> rr_is_unreleased r \<and> rr_commit_shas r \<noteq> [] \<and> last (rr_commit_shas r) = rr_to_inclusive r) ranges \<and>
     rr_is_unreleased unreleased \<and> rr_to_inclusive unreleased = head"
proof -
  define st where "st = foldl (range_step revisions) \<lparr>rs_ranges = [], rs_start = 0, rs_previous = None\<rparr> (enumerate 0 revisions)"
  have ok: "ranges_ok revisions (length revisions) st"
    using ranges_prefix [of "length revisions" revisions] by (simp add: st_def)
  define final where "final = \<lparr>rr_id = stable_graph_id ''release-range''
      (''unreleased'' @ [CHR 0x00] @ (case rs_previous st of None \<Rightarrow> ''root'' | Some sha \<Rightarrow> sha)),
    rr_label = ''Unreleased'', rr_tag = None, rr_from_exclusive = rs_previous st, rr_to_inclusive = head,
    rr_commit_shas = map hv_sha (drop (rs_start st) revisions), rr_is_unreleased = True\<rparr>"
  have result: "release_ranges revisions head = rs_ranges st @ [final]"
    unfolding release_ranges_def Let_def st_def final_def ..
  have final: "rr_commit_shas final = map hv_sha (drop (rs_start st) revisions)" "rr_from_exclusive final = rs_previous st"
    "rr_is_unreleased final" "rr_to_inclusive final = head" by (simp_all add: final_def)
  have "map hv_sha (take (rs_start st) revisions) @ map hv_sha (drop (rs_start st) revisions) = map hv_sha revisions"
    by (simp flip: map_append)
  then have "concat (map rr_commit_shas (rs_ranges st @ [final])) = map hv_sha revisions"
    using ok by (simp add: ranges_ok_def final)
  then show ?thesis
    using ok final result by (intro exI [of _ "rs_ranges st"] exI [of _ final]) (simp add: ranges_ok_def list_all_iff)
qed

section \<open>The window of the timeline\<close>

lemma collect_options_Some:
  "collect_options xs = Some ys \<longleftrightarrow> xs = map Some ys"
proof
  assume "collect_options xs = Some ys"
  then show "xs = map Some ys" by (auto simp: collect_options_def split: if_splits intro!: nth_equalityI)
    (metis in_set_conv_nth option.collapse option.exhaust_sel nth_mem)
qed (auto simp: collect_options_def comp_def)

lemma timeline_revision_fields:
  "timeline_revision found n tags head = Some r \<Longrightarrow> hv_sha r = rf_sha found \<and> hv_ordinal r = n"
  by (auto simp: timeline_revision_def Let_def split: if_splits)

text \<open>One revision for every fact, in the order of the history.\<close>

lemma every_revision:
  assumes "collect_options (map (\<lambda>(ordinal, r). timeline_revision r (int ordinal) tags head) (enumerate 0 revisions)) = Some every"
  shows "map hv_sha every = map rf_sha revisions" "map hv_ordinal every = map int [0..<length revisions]"
    "length every = length revisions"
proof -
  have eq: "map (\<lambda>(ordinal, r). timeline_revision r (int ordinal) tags head) (enumerate 0 revisions) = map Some every"
    using assms unfolding collect_options_Some .
  show len: "length every = length revisions" using arg_cong [OF eq, of length] by simp
  have at: "hv_sha (every ! i) = rf_sha (revisions ! i) \<and> hv_ordinal (every ! i) = int i" if "i < length revisions" for i
  proof -
    have "timeline_revision (revisions ! i) (int i) tags head = Some (every ! i)"
      using arg_cong [OF eq, of "\<lambda>xs. xs ! i"] that len by (simp add: nth_enumerate_eq)
    then show ?thesis by (rule timeline_revision_fields)
  qed
  show "map hv_sha every = map rf_sha revisions" "map hv_ordinal every = map int [0..<length revisions]"
    using at len by (auto intro!: nth_equalityI)
qed

lemma position_of_distinct:
  assumes "distinct shas" "i < length shas"
  shows "position_of shas (shas ! i) = Some i"
proof -
  have "distinct (map fst (zip shas [0..<length shas]))" using assms(1) by simp
  moreover have "(shas ! i, i) \<in> set (zip shas [0..<length shas])" using assms(2) by (auto simp: set_zip)
  ultimately show ?thesis unfolding position_of_def
    by (metis distinct_rev map_of_is_SomeI rev_map set_rev)
qed

lemma map_filter_found:
  assumes "distinct (map key every)"
  shows "set (List.map_filter (\<lambda>k. identity_map key every k) ks) = {x \<in> set every. key x \<in> set ks}"
proof -
  have "x \<in> set (List.map_filter (identity_map key every) ks) \<longleftrightarrow> (\<exists>k\<in>set ks. identity_map key every k = Some x)" for x
    by (force simp: List.map_filter_def)
  then show ?thesis using identity_map_iff [OF assms] by auto
qed

text \<open>The commits of the window: the last \<open>limit\<close> ones and every release.\<close>

lemma timeline_window_members:
  assumes "map hv_sha every = map rf_sha revisions" "distinct (map rf_sha revisions)"
  shows "set (timeline_window limit tag_records revisions every) = {r \<in> set every.
    hv_sha r \<in> rf_sha ` set (drop (length revisions - limit) revisions) \<or>
    (\<exists>tag\<in>set tag_records. gt_commit_sha tag = hv_sha r \<and> is_release_tag (gt_name tag))}"
    and "distinct (map hv_sha (timeline_window limit tag_records revisions every))"
proof -
  let ?all = "identity_map hv_sha every" and ?late = "drop (length revisions - limit) revisions"
  let ?recent = "List.map_filter (\<lambda>r. ?all (rf_sha r)) ?late"
  let ?missing = "filter (\<lambda>sha. (\<exists>tag\<in>set tag_records. gt_commit_sha tag = sha \<and> is_release_tag (gt_name tag)) \<and>
    sha \<notin> set (map hv_sha ?recent) \<and> ?all sha \<noteq> None) (remdups (map gt_commit_sha tag_records))"
  have d: "distinct (map hv_sha every)" using assms by simp
  have recent_map: "?recent = List.map_filter ?all (map rf_sha ?late)" by (simp add: List.map_filter_def filter_map comp_def)
  have recent: "set ?recent = {r \<in> set every. hv_sha r \<in> rf_sha ` set ?late}"
    unfolding recent_map map_filter_found [OF d] by simp
  have known: "?all sha \<noteq> None \<longleftrightarrow> sha \<in> hv_sha ` set every" for sha by (simp add: identity_map_None)
  have missing: "set (List.map_filter ?all ?missing) = {r \<in> set every. hv_sha r \<in> set ?missing}"
    by (rule map_filter_found [OF d])
  show "set (timeline_window limit tag_records revisions every) = {r \<in> set every.
      hv_sha r \<in> rf_sha ` set ?late \<or> (\<exists>tag\<in>set tag_records. gt_commit_sha tag = hv_sha r \<and> is_release_tag (gt_name tag))}"
    unfolding timeline_window_def Let_def set_sort set_append missing recent
    unfolding set_filter set_remdups set_map known recent by auto (metis imageI)
  have keys: "map hv_sha (List.map_filter ?all ks) = ks" if "\<forall>k\<in>set ks. ?all k \<noteq> None" for ks
    using that
  proof (induction ks)
    case (Cons k ks)
    then obtain y where y: "?all k = Some y" by auto
    have "hv_sha y = k" using identity_map_found [OF y] by simp
    moreover have "map hv_sha (List.map_filter ?all ks) = ks" using Cons by simp
    ultimately show ?case using y by (simp add: List.map_filter_simps)
  qed (simp add: List.map_filter_simps)
  have late: "map hv_sha ?recent = map rf_sha ?late"
  proof -
    have "set (map rf_sha ?late) \<subseteq> hv_sha ` set every"
      using assms(1) by (metis image_mono list.set_map set_drop_subset)
    then show ?thesis unfolding recent_map by (intro keys) (use known in blast)
  qed
  have "distinct (map hv_sha (?recent @ List.map_filter ?all ?missing))"
    using assms(2) late keys [of ?missing] by (auto simp: distinct_drop simp flip: drop_map)
  then show "distinct (map hv_sha (timeline_window limit tag_records revisions every))"
    unfolding timeline_window_def Let_def distinct_map set_sort distinct_sort .
qed

lemma timeline_built:
  assumes "build_timeline_bundle_from_facts root shallow_answer now limit tags batch = Some (Inr build)"
  shows "\<exists>every head is_shallow.
    collect_options (map (\<lambda>(ordinal, r). timeline_revision r (int ordinal) (tags_by_commit_from_records tags) head)
      (enumerate 0 (hb_revisions batch))) = Some every \<and>
    ht_revisions (tb_timeline build) = timeline_window
      (clamp 1 MAX_HISTORY_LIMIT (case limit of None \<Rightarrow> DEFAULT_HISTORY_LIMIT | Some n \<Rightarrow> n)) tags (hb_revisions batch) every \<and>
    ht_is_shallow (tb_timeline build) = is_shallow \<and>
    ht_coverage_complete (tb_timeline build) =
      (\<not> is_shallow \<and> \<not> length (hb_revisions batch) > length (ht_revisions (tb_timeline build)))"
  using assms unfolding build_timeline_bundle_from_facts_def Let_def
  by (auto split: sum.splits option.splits)

lemma ordinals_sorted:
  assumes every: "map hv_sha every = map rf_sha revisions" "map hv_ordinal every = map int [0..<length revisions]"
    and d: "distinct (map rf_sha revisions)"
    and members: "set (timeline_window bound tags revisions every) \<subseteq> set every"
  shows "sorted (map hv_ordinal (timeline_window bound tags revisions every))"
proof -
  let ?w = "timeline_window bound tags revisions every" and ?pos = "position_of (map rf_sha revisions)"
  have len: "length every = length revisions" using arg_cong [OF every(1), of length] by simp
  have pos: "?pos (hv_sha r) = Some (nat (hv_ordinal r))" "hv_ordinal r \<ge> 0" if "r \<in> set ?w" for r
  proof -
    have "r \<in> set every" using members that by blast
    then obtain i where i: "i < length revisions" "r = every ! i" using len by (auto simp: in_set_conv_nth)
    have sha: "hv_sha r = map rf_sha revisions ! i" using arg_cong [OF every(1), of "\<lambda>xs. xs ! i"] i len by simp
    have ord: "hv_ordinal r = int i" using arg_cong [OF every(2), of "\<lambda>xs. xs ! i"] i len by simp
    show "?pos (hv_sha r) = Some (nat (hv_ordinal r))" "hv_ordinal r \<ge> 0"
      unfolding sha ord using position_of_distinct [OF d, of i] i(1) by simp_all
  qed
  have "sorted (map (\<lambda>r. (?pos (hv_sha r), hv_sha r)) ?w)"
    unfolding timeline_window_def Let_def by (rule sorted_sort_key)
  then have "sorted_wrt (\<lambda>a b. (?pos (hv_sha a), hv_sha a) \<le> (?pos (hv_sha b), hv_sha b)) ?w" by (simp add: sorted_map)
  then have "sorted_wrt (\<lambda>a b. hv_ordinal a \<le> hv_ordinal b) ?w"
  proof (rule sorted_wrt_mono_rel [rotated])
    fix a b assume "a \<in> set ?w" "b \<in> set ?w" "(?pos (hv_sha a), hv_sha a) \<le> (?pos (hv_sha b), hv_sha b)"
    then show "hv_ordinal a \<le> hv_ordinal b" using pos [of a] pos [of b] by (auto simp: less_eq_prod_def nat_le_eq_zle)
  qed
  then show ?thesis by (simp add: sorted_map)
qed

text \<open>The timeline shows exactly the last commits up to the limit and every release of the history, each
  once and in order, and calls its coverage complete exactly when the history is not shallow and every
  commit is shown.\<close>

theorem timeline_window_exact:
  assumes "build_timeline_bundle_from_facts root shallow_answer now limit tags batch = Some (Inr build)"
    and "distinct (map rf_sha (hb_revisions batch))"
    and "bound = clamp 1 MAX_HISTORY_LIMIT (case limit of None \<Rightarrow> DEFAULT_HISTORY_LIMIT | Some n \<Rightarrow> n)"
  shows "hv_sha ` set (ht_revisions (tb_timeline build)) =
      rf_sha ` set (drop (length (hb_revisions batch) - bound) (hb_revisions batch)) \<union>
      {sha \<in> rf_sha ` set (hb_revisions batch). \<exists>tag\<in>set tags. gt_commit_sha tag = sha \<and> is_release_tag (gt_name tag)} \<and>
    distinct (map hv_sha (ht_revisions (tb_timeline build))) \<and>
    sorted (map hv_ordinal (ht_revisions (tb_timeline build))) \<and>
    (ht_coverage_complete (tb_timeline build) \<longleftrightarrow> \<not> ht_is_shallow (tb_timeline build) \<and>
       rf_sha ` set (hb_revisions batch) \<subseteq> hv_sha ` set (ht_revisions (tb_timeline build)))"
proof -
  let ?revs = "hb_revisions batch" and ?w = "ht_revisions (tb_timeline build)"
  obtain every head where every: "collect_options (map (\<lambda>(ordinal, r).
        timeline_revision r (int ordinal) (tags_by_commit_from_records tags) head) (enumerate 0 ?revs)) = Some every"
    and w: "?w = timeline_window bound tags ?revs every"
    and coverage: "ht_coverage_complete (tb_timeline build) =
      (\<not> ht_is_shallow (tb_timeline build) \<and> \<not> length ?revs > length ?w)"
    using timeline_built [OF assms(1)] assms(3) by blast
  note ev = every_revision [OF every]
  note members = timeline_window_members [OF ev(1) assms(2), of bound tags, folded w]
  have shas: "hv_sha ` set every = rf_sha ` set ?revs" using arg_cong [OF ev(1), of set] by simp
  have late: "set (drop (length ?revs - bound) ?revs) \<subseteq> set ?revs" by (rule set_drop_subset)
  have keys: "hv_sha ` {r \<in> set every. P (hv_sha r)} = {sha \<in> hv_sha ` set every. P sha}" for P by auto
  have set_w: "hv_sha ` set ?w = rf_sha ` set (drop (length ?revs - bound) ?revs) \<union>
      {sha \<in> rf_sha ` set ?revs. \<exists>tag\<in>set tags. gt_commit_sha tag = sha \<and> is_release_tag (gt_name tag)}"
    unfolding members(1) keys [of "\<lambda>sha. sha \<in> rf_sha ` set (drop (length ?revs - bound) ?revs) \<or>
      (\<exists>tag\<in>set tags. gt_commit_sha tag = sha \<and> is_release_tag (gt_name tag))"] shas using late by blast
  have sub: "hv_sha ` set ?w \<subseteq> rf_sha ` set ?revs" unfolding set_w using late by blast
  have sizes: "length ?w = card (hv_sha ` set ?w)" "length ?revs = card (rf_sha ` set ?revs)"
    using distinct_card [OF members(2)] distinct_card [OF assms(2)] by simp_all
  have "\<not> length ?revs > length ?w \<longleftrightarrow> rf_sha ` set ?revs \<subseteq> hv_sha ` set ?w"
    unfolding sizes not_less using card_seteq [OF _ sub] card_mono [of "hv_sha ` set ?w" "rf_sha ` set ?revs"] by auto
  then show ?thesis
    using set_w members(2) coverage ordinals_sorted [OF ev(1,2) assms(2), of bound tags] members(1)
    unfolding w [symmetric] by auto
qed

text \<open>C36. What the reader accepts and the validation passes always has a timeline: no name is too short to be cut,
  and the head is found, so that only the question to Git can fail.\<close>

theorem accepted_history_has_timeline:
  assumes "parse_history_facts env out limits mailmap scope = Inr parsed"
    and "validate_batch (parsed\<lparr>hb_mailmap_fingerprint := fingerprint\<rparr>) = Inr ()"
  shows "\<exists>build. build_timeline_bundle_from_facts root (Inr answer) now limit tags
      (parsed\<lparr>hb_mailmap_fingerprint := fingerprint\<rparr>) = Some (Inr build) \<and>
    ht_reachable_revisions (tb_timeline build) = map rf_sha (hb_revisions parsed)"
proof -
  let ?batch = "parsed\<lparr>hb_mailmap_fingerprint := fingerprint\<rparr>" and ?revs = "hb_revisions parsed"
  have "length (filter rf_is_head ?revs) = 1"
    using assms(2) by (auto simp: validate_batch_def and_then_Inr_iff require_def split: if_splits)
  then have "filter rf_is_head ?revs \<noteq> []" by auto
  then have "find rf_is_head ?revs \<noteq> None" unfolding find_None_iff filter_empty_conv by blast
  then obtain head_fact where head: "find rf_is_head ?revs = Some head_fact" by blast
  have "timeline_revision r n ts head \<noteq> None" if "r \<in> set ?revs" for r n ts head
  proof -
    have "full_sha (rf_sha r)"
      using parse_history_facts_ok(1) [OF assms(1)] that unfolding reading_ok_def revision_well_read_def by blast
    then have sha: "len (rf_sha r) > 8" "\<forall>c\<in>set (rf_sha r). is_ascii_hexdigit c"
      by (auto simp: full_sha_def list_all_iff)
    then have "is_ascii_hexdigit (rf_sha r ! 8)" by (meson nth_mem)
    then have "\<not> is_continuation (rf_sha r ! 8)"
      by (auto simp: is_continuation_def is_ascii_hexdigit_def is_ascii_digit_def)
    then show ?thesis using sha(1) by (simp add: timeline_revision_def Let_def)
  qed
  then have named: "timeline_revision (?revs ! i) n ts head \<noteq> None" if "i < length ?revs" for i n ts head
    using that by (meson nth_mem)
  have all: "\<exists>every. collect_options (map (\<lambda>(ordinal, r). timeline_revision r (int ordinal) ts head)
      (enumerate 0 ?revs)) = Some every" for ts head
  proof -
    have "None \<notin> set (map (\<lambda>(ordinal, r). timeline_revision r (int ordinal) ts head) (enumerate 0 ?revs))"
    proof
      assume "None \<in> set (map (\<lambda>(ordinal, r). timeline_revision r (int ordinal) ts head) (enumerate 0 ?revs))"
      then obtain p where p: "p \<in> set (enumerate 0 ?revs)" "timeline_revision (snd p) (int (fst p)) ts head = None" by auto
      then have "snd p = ?revs ! fst p" "fst p < length ?revs" using in_set_enumerate_eq [of p 0 ?revs] by auto
      then show False using named [of "fst p" "int (fst p)" ts head] p(2) by simp
    qed
    then show ?thesis unfolding collect_options_def by (simp only: if_False) blast
  qed
  obtain every where every: "collect_options (map (\<lambda>(ordinal, r). timeline_revision r (int ordinal)
      (tags_by_commit_from_records tags) (rf_sha head_fact)) (enumerate 0 ?revs)) = Some every" using all by blast
  show ?thesis
    using assms(2) head every by (simp add: build_timeline_bundle_from_facts_def Let_def)
qed

section \<open>Samples\<close>

definition sample_fact :: "char \<Rightarrow> char option \<Rightarrow> bool \<Rightarrow> HistoryRevisionFact" where
  "sample_fact c parent head = \<lparr>rf_sha = replicate 8 c, rf_parents = (case parent of None \<Rightarrow> [] | Some p \<Rightarrow> [replicate 8 p]),
     rf_committed_at = ''t'', rf_subject = ''s'',
     rf_primary = \<lparr>if_contributor_id = ''i'', if_display_name = ''n'', if_automation = Kind_Human, if_alias_count = 0\<rparr>,
     rf_coauthors = [], rf_malformed_coauthor_count = 0, rf_tags = [], rf_paths = [], rf_is_merge = False,
     rf_is_head = head\<rparr>"

definition sample_batch :: HistoryFactsBatch where
  "sample_batch = \<lparr>hb_schema_version = 1, hb_classification_version = 1, hb_git_process_count = 1,
     hb_mailmap_fingerprint = ''m'', hb_facts_fingerprint = ''f'',
     hb_revisions = [sample_fact CHR ''a'' None False, sample_fact CHR ''b'' (Some CHR ''a'') True]\<rparr>"

definition sample_tag :: GitTagRecord where
  "sample_tag = \<lparr>gt_name = ''v1.0'', gt_object_sha = ''o'', gt_commit_sha = replicate 8 CHR ''a'', gt_created_ts = 1\<rparr>"

lemma sample_batch_valid: "validate_batch sample_batch = Inr ()"
  by (simp add: validate_batch_def validate_revision_fact_def require_def and_then_def sample_batch_def sample_fact_def
      HISTORY_FACTS_SCHEMA_VERSION_def HISTORY_FACT_CLASSIFICATION_VERSION_def)

lemma sample_built:
  "\<exists>build. build_timeline_bundle_from_facts ''/r'' (Inr ''false'') ''now'' (Some 1) [sample_tag] sample_batch = Some (Inr build)"
proof -
  have none: "None \<notin> set (map (\<lambda>(ordinal, r). timeline_revision r (int ordinal) ts head)
      (enumerate 0 (hb_revisions sample_batch)))" for ts head
    by (simp add: sample_batch_def timeline_revision_def sample_fact_def Let_def)
  have "None \<notin> set xs \<Longrightarrow> \<exists>every. collect_options xs = Some every" for xs :: "HistoryRevision option list"
    by (simp add: collect_options_def)
  then have "\<exists>every. collect_options (map (\<lambda>(ordinal, r). timeline_revision r (int ordinal) ts head)
      (enumerate 0 (hb_revisions sample_batch))) = Some every" for ts head
    using none by blast
  then obtain every where "collect_options (map (\<lambda>(ordinal, r). timeline_revision r (int ordinal)
      (tags_by_commit_from_records [sample_tag]) (replicate 8 CHR ''b'')) (enumerate 0 (hb_revisions sample_batch))) = Some every"
    by blast
  moreover have "find rf_is_head (hb_revisions sample_batch) = Some (sample_fact CHR ''b'' (Some CHR ''a'') True)"
    by (simp add: sample_batch_def sample_fact_def)
  moreover have "rf_sha (sample_fact CHR ''b'' (Some CHR ''a'') True) = replicate 8 CHR ''b''" by (simp add: sample_fact_def)
  ultimately show ?thesis
    by (simp add: build_timeline_bundle_from_facts_def Let_def sample_batch_valid)
qed

theorem timeline_window_exact_witness:
  "\<exists>build. build_timeline_bundle_from_facts ''/r'' (Inr ''false'') ''now'' (Some 1) [sample_tag] sample_batch = Some (Inr build) \<and>
     hv_sha ` set (ht_revisions (tb_timeline build)) = {''aaaaaaaa'', ''bbbbbbbb''}"
proof -
  obtain build where b: "build_timeline_bundle_from_facts ''/r'' (Inr ''false'') ''now'' (Some 1) [sample_tag] sample_batch =
    Some (Inr build)" using sample_built by blast
  have d: "distinct (map rf_sha (hb_revisions sample_batch))"
    by (simp add: sample_batch_def sample_fact_def)
  have one: "clamp 1 MAX_HISTORY_LIMIT (case Some 1 of None \<Rightarrow> DEFAULT_HISTORY_LIMIT | Some n \<Rightarrow> n) = 1"
    by (simp add: clamp_def MAX_HISTORY_LIMIT_def)
  have tag: "is_release_tag ''v1.0''" by (simp add: is_release_tag_def is_ascii_digit_def)
  have "hv_sha ` set (ht_revisions (tb_timeline build)) =
      rf_sha ` set (drop (length (hb_revisions sample_batch) - 1) (hb_revisions sample_batch)) \<union>
      {sha \<in> rf_sha ` set (hb_revisions sample_batch). \<exists>tag\<in>set [sample_tag]. gt_commit_sha tag = sha \<and> is_release_tag (gt_name tag)}"
    using timeline_window_exact [OF b d one [symmetric]] by blast
  then have "hv_sha ` set (ht_revisions (tb_timeline build)) = {''aaaaaaaa'', ''bbbbbbbb''}"
    using tag by (simp add: sample_batch_def sample_fact_def sample_tag_def numeral_eq_Suc) blast
  then show ?thesis using b by blast
qed

theorem accepted_history_has_timeline_witness:
  "\<exists>parsed build. parse_history_facts sample_facts_env (join_str [CHR 0x00] sample_output) default_limits [] ''r'' = Inr parsed \<and>
     build_timeline_bundle_from_facts ''/r'' (Inr ''false'') ''now'' None [] (parsed\<lparr>hb_mailmap_fingerprint := ''m''\<rparr>) =
       Some (Inr build)"
proof -
  obtain batch where b: "parse_history_facts sample_facts_env (join_str [CHR 0x00] sample_output) default_limits [] ''r'' = Inr batch"
    "validate_batch (batch\<lparr>hb_mailmap_fingerprint := ''m''\<rparr>) = Inr ()" using sample_history_valid by blast
  show ?thesis using accepted_history_has_timeline [OF b] b(1) by blast
qed

end
