(* ===== verification/Evidence_Packets.thy ===== *)
theory Evidence_Packets
  imports Identity Secret_Policy Structural_Graph
begin

text \<open>
  Facts, relationships and evidence packets (\<open>contracts.rs\<close>) with the identity of a packet and the
  categories of its caveats (\<open>deterministic_rules.rs\<close>).
\<close>

section \<open>Facts, relationships and packets\<close>

datatype ArchaeologyFactEdgeKind =
  Link_Defines | Link_Reads | Link_Writes | Link_Calls | Link_Includes | Link_Controls | Link_BranchesTo
| Link_Calculates | Link_BeginsTransaction | Link_CommitsTransaction | Link_RollsBackTransaction | Link_Supports
| Link_Contradicts | Link_Aliases | Link_Unresolved

record ArchaeologyAttribute =
  at_key :: string
  at_value :: string

record ArchaeologyFact =
  af_fact_id :: string
  af_kind :: ArchaeologyFactKind
  af_label :: string
  af_span_ids :: "string list"
  af_parser_id :: string
  af_trust :: ArchaeologyTrust
  af_confidence :: ArchaeologyConfidence
  af_attributes :: "ArchaeologyAttribute list"

record ArchaeologyFactEdge =
  fe_edge_id :: string
  fe_from_fact_id :: string
  fe_to_fact_id :: string
  fe_kind :: ArchaeologyFactEdgeKind
  fe_trust :: ArchaeologyTrust
  fe_evidence_span_ids :: "string list"
  fe_unresolved_reason :: "string option"

record ArchaeologyEvidencePacket =
  ep_packet_id :: string
  ep_kind :: ArchaeologyRuleKind
  ep_anchor_fact_id :: string
  ep_supporting_fact_ids :: "string list"
  ep_contradicting_fact_ids :: "string list"
  ep_relationship_ids :: "string list"
  ep_evidence_span_ids :: "string list"
  ep_unresolved_fact_ids :: "string list"
  ep_unresolved_reasons :: "string list"
  ep_confidence :: ArchaeologyConfidence
  ep_caveats :: "string list"

section \<open>The identity of a packet\<close>

text \<open>The names that the derived \<open>Debug\<close> prints.\<close>

fun rule_kind_debug :: "ArchaeologyRuleKind \<Rightarrow> string" where
  "rule_kind_debug Rule_Validation = ''Validation''"
| "rule_kind_debug Rule_Calculation = ''Calculation''"
| "rule_kind_debug Rule_Eligibility = ''Eligibility''"
| "rule_kind_debug Rule_Entitlement = ''Entitlement''"
| "rule_kind_debug Rule_Routing = ''Routing''"
| "rule_kind_debug Rule_Mutation = ''Mutation''"
| "rule_kind_debug Rule_Exception = ''Exception''"
| "rule_kind_debug Rule_Lifecycle = ''Lifecycle''"
| "rule_kind_debug Rule_Transaction = ''Transaction''"
| "rule_kind_debug Rule_Other = ''Other''"

fun confidence_debug :: "ArchaeologyConfidence \<Rightarrow> string" where
  "confidence_debug Confidence_High = ''High''"
| "confidence_debug Confidence_Medium = ''Medium''"
| "confidence_debug Confidence_Low = ''Low''"
| "confidence_debug Confidence_Unavailable = ''Unavailable''"

definition sorted_joined :: "string list \<Rightarrow> string" where
  "sorted_joined values = join_str [CHR 0x00] (sort values)"

definition expected_packet_id :: "string \<Rightarrow> string \<Rightarrow> ArchaeologyEvidencePacket \<Rightarrow> string" where
  "expected_packet_id repository_id revision_sha packet =
     (let local_identity = join_str [CHR 0x00]
            [rule_kind_debug (ep_kind packet), confidence_debug (ep_confidence packet), ep_anchor_fact_id packet,
             sorted_joined (ep_supporting_fact_ids packet), sorted_joined (ep_contradicting_fact_ids packet),
             sorted_joined (ep_unresolved_fact_ids packet), sorted_joined (ep_unresolved_reasons packet),
             sorted_joined (ep_relationship_ids packet), sorted_joined (ep_evidence_span_ids packet),
             sorted_joined (ep_caveats packet)]
      in stable_graph_id ''archaeology-packet''
           (join_str [CHR 0x00] [repository_id, revision_sha, local_identity]))"

definition packet_caveats :: "string list" where
  "packet_caveats =
     [''kind is identifier-derived and requires review'', ''packet has unresolved relationships'',
      ''packet has contradicting evidence'', ''packet relationship bound was truncated'']"

definition unresolved_categories :: "string list" where
  "unresolved_categories = [''ambiguous_reference'', ''unavailable_reference'', ''unresolved_reference'']"

definition packet_metadata_is_categorical :: "ArchaeologyEvidencePacket \<Rightarrow> bool" where
  "packet_metadata_is_categorical packet \<longleftrightarrow>
     distinct (ep_caveats packet) \<and> distinct (ep_unresolved_reasons packet) \<and>
     list_all (\<lambda>v. v \<in> set packet_caveats) (ep_caveats packet) \<and>
     list_all (\<lambda>v. v \<in> set unresolved_categories) (ep_unresolved_reasons packet)"

fun relationship_verb :: "ArchaeologyFactEdgeKind \<Rightarrow> string" where
  "relationship_verb Link_Defines = ''defines''"
| "relationship_verb Link_Reads = ''reads''"
| "relationship_verb Link_Writes = ''writes''"
| "relationship_verb Link_Calls = ''calls''"
| "relationship_verb Link_Includes = ''includes''"
| "relationship_verb Link_Controls = ''controls''"
| "relationship_verb Link_BranchesTo = ''branches to''"
| "relationship_verb Link_Calculates = ''calculates''"
| "relationship_verb Link_BeginsTransaction = ''begins''"
| "relationship_verb Link_CommitsTransaction = ''commits''"
| "relationship_verb Link_RollsBackTransaction = ''rolls back''"
| "relationship_verb Link_Supports = ''supports''"
| "relationship_verb Link_Contradicts = ''contradicts''"
| "relationship_verb Link_Aliases = ''aliases''"
| "relationship_verb Link_Unresolved = ''has an unresolved link to''"

fun fact_kind_text :: "ArchaeologyFactKind \<Rightarrow> string" where
  "fact_kind_text Fact_Declaration = ''declaration''"
| "fact_kind_text Fact_DataField = ''data field''"
| "fact_kind_text Fact_Constant = ''constant''"
| "fact_kind_text Fact_Predicate = ''predicate''"
| "fact_kind_text Fact_Decision = ''decision''"
| "fact_kind_text Fact_Calculation = ''calculation''"
| "fact_kind_text Fact_Mutation = ''mutation''"
| "fact_kind_text Fact_Call = ''call''"
| "fact_kind_text Fact_InputOutput = ''I/O operation''"
| "fact_kind_text Fact_Transaction = ''transaction''"
| "fact_kind_text Fact_ControlFlow = ''control-flow operation''"
| "fact_kind_text Fact_EntryPoint = ''entry point''"
| "fact_kind_text Fact_Include = ''include''"
| "fact_kind_text Fact_Unresolved = ''unresolved reference''"

end
