(* ===== verification/Synthesis.thy ===== *)
theory Synthesis
  imports Evidence_Packets Ordered_Map
begin

text \<open>
  The wire contract of optional rule wording (\<open>commands/business_rule_archaeology/synthesis.rs\<close>): the request that is built
  from one evidence packet, the validation of the response of a provider, its canonical form and the
  published sentence. JSON, SHA-256 and the Unicode tables are the record \<open>synthesis_env\<close>, the cancellation
  flag is the answer \<open>cancel n\<close> to the n-th poll, and an error is its message.
\<close>

section \<open>The wire contract\<close>

definition ARCHAEOLOGY_SYNTHESIS_SCHEMA_VERSION :: nat where "ARCHAEOLOGY_SYNTHESIS_SCHEMA_VERSION = 1"

definition ARCHAEOLOGY_SYNTHESIS_CONTRACT_ID :: string where
  "ARCHAEOLOGY_SYNTHESIS_CONTRACT_ID = ''codevetter.business-rule-archaeology.synthesis.v1''"

record ArchaeologySynthesisLimits =
  sl_max_facts :: nat
  sl_max_relationships :: nat
  sl_max_evidence_spans :: nat
  sl_max_packet_caveats :: nat
  sl_max_unresolved_reasons :: nat
  sl_max_clauses :: nat
  sl_max_fact_ids_per_segment :: nat
  sl_max_relationship_ids_per_clause :: nat
  sl_max_text_bytes :: nat
  sl_max_request_bytes :: nat
  sl_max_response_bytes :: nat

definition synthesis_limits_default :: ArchaeologySynthesisLimits where
  "synthesis_limits_default =
     \<lparr>sl_max_facts = 64, sl_max_relationships = 128, sl_max_evidence_spans = 256, sl_max_packet_caveats = 16,
      sl_max_unresolved_reasons = 64, sl_max_clauses = 256, sl_max_fact_ids_per_segment = 64,
      sl_max_relationship_ids_per_clause = 128, sl_max_text_bytes = 1024, sl_max_request_bytes = 256 * 1024,
      sl_max_response_bytes = 256 * 1024\<rparr>"

datatype ArchaeologySynthesisQuantifierKind =
  Quantifier_All | Quantifier_Any | Quantifier_None | Quantifier_ExactlyOne | Quantifier_AtLeastOne
| Quantifier_AtMostOne

record ArchaeologySynthesisFact =
  sf_fact_id :: string
  sf_kind :: ArchaeologyFactKind
  sf_label :: string
  sf_trust :: ArchaeologyTrust
  sf_confidence :: ArchaeologyConfidence
  sf_quantifier_kinds :: "ArchaeologySynthesisQuantifierKind list"

record ArchaeologySynthesisRelationship =
  sr_relationship_id :: string
  sr_from_fact_id :: string
  sr_to_fact_id :: string
  sr_kind :: ArchaeologyFactEdgeKind
  sr_trust :: ArchaeologyTrust
  sr_unresolved :: bool

record ArchaeologySynthesisRequest =
  sq_schema_version :: nat
  sq_contract_id :: string
  sq_request_id :: string
  sq_repository_id :: string
  sq_generation_id :: string
  sq_revision_sha :: string
  sq_parser_identity :: string
  sq_algorithm_identity :: string
  sq_packet :: ArchaeologyEvidencePacket
  sq_facts :: "ArchaeologySynthesisFact list"
  sq_relationships :: "ArchaeologySynthesisRelationship list"

record ArchaeologySynthesisSegment =
  sg_text :: string
  sg_fact_ids :: "string list"

record ArchaeologySynthesisQuantifier =
  qt_kind :: ArchaeologySynthesisQuantifierKind
  qt_fact_ids :: "string list"

record ArchaeologySynthesisClause =
  sc_subject :: ArchaeologySynthesisSegment
  sc_condition :: "ArchaeologySynthesisSegment option"
  sc_action :: ArchaeologySynthesisSegment
  sc_exception :: "ArchaeologySynthesisSegment option"
  sc_quantifier :: "ArchaeologySynthesisQuantifier option"
  sc_relationship_ids :: "string list"
  sc_contradicting_fact_ids :: "string list"

record ArchaeologySynthesisResponse =
  sp_schema_version :: nat
  sp_contract_id :: string
  sp_request_id :: string
  sp_packet_id :: string
  sp_clauses :: "ArchaeologySynthesisClause list"

text \<open>
  What the module calls and does not define: the SHA-256 of its bytes, the JSON that serde writes for a
  request, a response and a clause, the strict parser of a response, and the Unicode tables behind
  \<open>char::is_alphanumeric\<close> and \<open>str::to_lowercase\<close>. Serialization of these structures does not fail.
\<close>

record synthesis_env =
  sy_sha256 :: "string \<Rightarrow> string"
  sy_request_json :: "ArchaeologySynthesisRequest \<Rightarrow> string"
  sy_response_json :: "ArchaeologySynthesisResponse \<Rightarrow> string"
  sy_clause_json :: "ArchaeologySynthesisClause \<Rightarrow> string"
  sy_parse_response :: "string \<Rightarrow> ArchaeologySynthesisResponse option"
  sy_is_alphanumeric :: "string \<Rightarrow> bool"
  sy_to_lowercase :: "string \<Rightarrow> string"

text \<open>The exact positive evidence of a clause.\<close>

definition supporting_fact_ids :: "ArchaeologySynthesisClause \<Rightarrow> string set" where
  "supporting_fact_ids clause =
     set (sg_fact_ids (sc_subject clause) @ sg_fact_ids (sc_action clause) @
       (case sc_condition clause of None \<Rightarrow> [] | Some segment \<Rightarrow> sg_fact_ids segment) @
       (case sc_exception clause of None \<Rightarrow> [] | Some segment \<Rightarrow> sg_fact_ids segment) @
       (case sc_quantifier clause of None \<Rightarrow> [] | Some quantifier \<Rightarrow> qt_fact_ids quantifier))"

section \<open>Safe text and identifiers\<close>

definition path_separators :: "char list" where
  "path_separators = [CHR 0x60, CHR 0x22, CHR 0x27, CHR '','', CHR '';'', CHR ''('', CHR '')'', CHR ''['', CHR '']'',
     CHR 0x7B, CHR 0x7D, CHR ''<'', CHR ''>'', CHR ''='']"

definition is_drive_path :: "string \<Rightarrow> bool" where
  "is_drive_path s =
     (case s of a # b # c # _ \<Rightarrow> (is_ascii_uppercase a \<or> is_ascii_lowercase a) \<and> b = CHR '':'' \<and> c = SLASH | _ \<Rightarrow> False)"

definition contains_absolute_path :: "string \<Rightarrow> bool" where
  "contains_absolute_path value \<longleftrightarrow>
     list_ex (\<lambda>token. let normalized = map (\<lambda>c. if c = CHR 0x5C then SLASH else c) token
         in starts_with normalized [SLASH] \<or> starts_with (to_ascii_lowercase normalized) ''file:/'' \<or> is_drive_path normalized)
       (filter (\<lambda>token. token \<noteq> []) (split_on (\<lambda>u. is_whitespace u \<or> unit_in path_separators u) value))"

definition synthesis_unsafe_text :: "string \<Rightarrow> bool" where
  "synthesis_unsafe_text value \<longleftrightarrow>
     CHR 0x00 \<in> set value \<or> looks_like_secret value \<or> contains_sensitive_path value \<or> contains_absolute_path value"

definition safe_text :: "string \<Rightarrow> nat \<Rightarrow> bool" where
  "safe_text value max_bytes \<longleftrightarrow>
     trim value \<noteq> [] \<and> len value \<le> max_bytes \<and> \<not> synthesis_unsafe_text value \<and>
     \<not> any_char (\<lambda>u. is_control u \<and> u \<noteq> [CHR 0x0A] \<and> u \<noteq> [CHR 0x0D] \<and> u \<noteq> [CHR 0x09]) value"

definition synthesis_safe_id :: "string \<Rightarrow> bool" where
  "synthesis_safe_id value \<longleftrightarrow>
     value \<noteq> [] \<and> len value \<le> 256 \<and> CHR 0x00 \<notin> set value \<and> SLASH \<notin> set value \<and> CHR 0x5C \<notin> set value \<and>
     \<not> any_char is_whitespace value \<and> \<not> contains_sensitive_path value \<and> \<not> looks_like_secret value"

fun sorted_unique :: "string list \<Rightarrow> bool" where
  "sorted_unique (a # b # values) \<longleftrightarrow> a < b \<and> sorted_unique (b # values)"
| "sorted_unique _ \<longleftrightarrow> True"

definition roles_are_disjoint :: "ArchaeologyEvidencePacket \<Rightarrow> bool" where
  "roles_are_disjoint packet \<longleftrightarrow>
     set (ep_supporting_fact_ids packet) \<inter> set (ep_contradicting_fact_ids packet) = {} \<and>
     set (ep_supporting_fact_ids packet) \<inter> set (ep_unresolved_fact_ids packet) = {} \<and>
     set (ep_contradicting_fact_ids packet) \<inter> set (ep_unresolved_fact_ids packet) = {}"

definition packet_fact_ids :: "ArchaeologyEvidencePacket \<Rightarrow> string list" where
  "packet_fact_ids packet = ep_supporting_fact_ids packet @ ep_contradicting_fact_ids packet @ ep_unresolved_fact_ids packet"

definition validate_packet_shape ::
  "ArchaeologyEvidencePacket \<Rightarrow> ArchaeologySynthesisLimits \<Rightarrow> (string, unit) result" where
  "validate_packet_shape packet limits =
     (if \<not> synthesis_safe_id (ep_packet_id packet) \<or> \<not> synthesis_safe_id (ep_anchor_fact_id packet)
         \<or> ep_anchor_fact_id packet \<notin> set (ep_supporting_fact_ids packet)
         \<or> length (ep_supporting_fact_ids packet) + length (ep_contradicting_fact_ids packet)
             + length (ep_unresolved_fact_ids packet) > sl_max_facts limits
         \<or> length (ep_relationship_ids packet) > sl_max_relationships limits
         \<or> length (ep_evidence_span_ids packet) > sl_max_evidence_spans limits
         \<or> length (ep_caveats packet) > sl_max_packet_caveats limits
         \<or> length (ep_unresolved_reasons packet) > sl_max_unresolved_reasons limits
         \<or> (ep_unresolved_fact_ids packet = []) \<noteq> (ep_unresolved_reasons packet = [])
         \<or> ep_evidence_span_ids packet = []
         \<or> \<not> sorted_unique (ep_supporting_fact_ids packet) \<or> \<not> sorted_unique (ep_contradicting_fact_ids packet)
         \<or> \<not> sorted_unique (ep_unresolved_fact_ids packet) \<or> \<not> sorted_unique (ep_relationship_ids packet)
         \<or> \<not> sorted_unique (ep_evidence_span_ids packet)
         \<or> \<not> roles_are_disjoint packet \<or> \<not> packet_metadata_is_categorical packet
         \<or> list_ex (\<lambda>i. \<not> synthesis_safe_id i)
             (packet_fact_ids packet @ ep_relationship_ids packet @ ep_evidence_span_ids packet)
         \<or> list_ex (\<lambda>v. \<not> safe_text v (sl_max_text_bytes limits)) (ep_caveats packet @ ep_unresolved_reasons packet)
      then Inl ''Archaeology synthesis packet shape is invalid''
      else Inr ())"

definition validate_ids :: "string list \<Rightarrow> string set \<Rightarrow> nat \<Rightarrow> bool \<Rightarrow> (string, unit) result" where
  "validate_ids values allowed max_ids allow_empty =
     (if \<not> allow_empty \<and> values = [] \<or> length values > max_ids \<or> \<not> sorted_unique values
         \<or> list_ex (\<lambda>v. \<not> synthesis_safe_id v \<or> v \<notin> allowed) values
      then Inl ''Archaeology synthesis evidence references are invalid''
      else Inr ())"

definition validate_segment ::
  "ArchaeologySynthesisSegment \<Rightarrow> string set \<Rightarrow> ArchaeologySynthesisLimits \<Rightarrow> (string, unit) result" where
  "validate_segment segment allowed limits =
     (if \<not> safe_text (sg_text segment) (sl_max_text_bytes limits)
      then Inl ''Archaeology synthesis clause segment text is invalid''
      else validate_ids (sg_fact_ids segment) allowed (sl_max_fact_ids_per_segment limits) False)"

section \<open>Words and quantifiers\<close>

definition semantic_tokens :: "synthesis_env \<Rightarrow> string \<Rightarrow> string list" where
  "semantic_tokens env value =
     map (sy_to_lowercase env) (filter (\<lambda>token. token \<noteq> []) (split_on (\<lambda>u. \<not> sy_is_alphanumeric env u) value))"

definition function_words :: "string list" where
  "function_words =
     [''a'', ''an'', ''are'', ''as'', ''at'', ''be'', ''been'', ''being'', ''by'', ''for'', ''from'', ''in'', ''is'', ''of'',
      ''on'', ''that'', ''the'', ''these'', ''this'', ''those'', ''to'', ''was'', ''were'', ''with'']"

definition fact_index :: "ArchaeologySynthesisFact list \<Rightarrow> string \<rightharpoonup> ArchaeologySynthesisFact" where
  "fact_index facts = map_of (rev (map (\<lambda>f. (sf_fact_id f, f)) facts))"

definition relationship_index ::
  "ArchaeologySynthesisRelationship list \<Rightarrow> string \<rightharpoonup> ArchaeologySynthesisRelationship" where
  "relationship_index relationships = map_of (rev (map (\<lambda>r. (sr_relationship_id r, r)) relationships))"

definition validate_segment_text_support ::
  "synthesis_env \<Rightarrow> ArchaeologySynthesisSegment \<Rightarrow> (string \<rightharpoonup> ArchaeologySynthesisFact) \<Rightarrow> (string, unit) result" where
  "validate_segment_text_support env segment facts =
     (let supported = concat (map (\<lambda>f. semantic_tokens env (sf_label f)) (List.map_filter facts (sg_fact_ids segment)))
      in if list_ex (\<lambda>token. token \<notin> set supported \<and> token \<notin> set function_words) (semantic_tokens env (sg_text segment))
         then Inl ''Archaeology synthesis clause prose is not supported by its cited fact labels''
         else Inr ())"

definition contains_token_phrase :: "string list \<Rightarrow> string list \<Rightarrow> bool" where
  "contains_token_phrase tokens phrase \<longleftrightarrow>
     list_ex (\<lambda>i. take (length phrase) (drop i tokens) = phrase) [0..<Suc (length tokens) - length phrase]"

definition quantifier_attribute :: "string \<Rightarrow> ArchaeologySynthesisQuantifierKind option" where
  "quantifier_attribute value =
     (if value = ''all'' then Some Quantifier_All
      else if value = ''any'' then Some Quantifier_Any
      else if value = ''none'' then Some Quantifier_None
      else if value = ''exactly_one'' then Some Quantifier_ExactlyOne
      else if value = ''at_least_one'' then Some Quantifier_AtLeastOne
      else if value = ''at_most_one'' then Some Quantifier_AtMostOne
      else None)"

fun quantifier_phrase :: "ArchaeologySynthesisQuantifierKind \<Rightarrow> string list" where
  "quantifier_phrase Quantifier_All = [''all'']"
| "quantifier_phrase Quantifier_Any = [''any'']"
| "quantifier_phrase Quantifier_None = [''none'']"
| "quantifier_phrase Quantifier_ExactlyOne = [''exactly'', ''one'']"
| "quantifier_phrase Quantifier_AtLeastOne = [''at'', ''least'', ''one'']"
| "quantifier_phrase Quantifier_AtMostOne = [''at'', ''most'', ''one'']"

text \<open>The kinds in the order of the enumeration, which is the order of the set they are collected in.\<close>

definition quantifier_kinds :: "ArchaeologySynthesisQuantifierKind list" where
  "quantifier_kinds =
     [Quantifier_All, Quantifier_Any, Quantifier_None, Quantifier_ExactlyOne, Quantifier_AtLeastOne, Quantifier_AtMostOne]"

definition quantifier_kinds_from_evidence ::
  "synthesis_env \<Rightarrow> string \<Rightarrow> ArchaeologyAttribute list \<Rightarrow> ArchaeologySynthesisQuantifierKind list" where
  "quantifier_kinds_from_evidence env label attributes =
     (let stated = List.map_filter (\<lambda>a. quantifier_attribute (at_value a))
            (filter (\<lambda>a. at_key a = ''quantifier'' \<or> at_key a = ''cardinality'') attributes);
          tokens = semantic_tokens env label;
          negated = list_ex (\<lambda>token. token \<in> {''not'', ''never'', ''without''}) tokens
      in filter (\<lambda>kind. kind \<in> set stated \<or> \<not> negated \<and> contains_token_phrase tokens (quantifier_phrase kind)) quantifier_kinds)"

fun quantifier_rank :: "ArchaeologySynthesisQuantifierKind \<Rightarrow> nat" where
  "quantifier_rank Quantifier_All = 0"
| "quantifier_rank Quantifier_Any = 1"
| "quantifier_rank Quantifier_None = 2"
| "quantifier_rank Quantifier_ExactlyOne = 3"
| "quantifier_rank Quantifier_AtLeastOne = 4"
| "quantifier_rank Quantifier_AtMostOne = 5"

section \<open>The request\<close>

definition trusted_source :: "ArchaeologyTrust \<Rightarrow> bool" where
  "trusted_source trust \<longleftrightarrow> trust = ArchaeologyTrust.Trust_Extracted \<or> trust = Trust_Deterministic"

definition request_identity :: "synthesis_env \<Rightarrow> ArchaeologySynthesisRequest \<Rightarrow> string" where
  "request_identity env request =
     ''sha256:'' @ hex (sy_sha256 env (sy_request_json env (request\<lparr>sq_request_id := []\<rparr>)))"

definition synthesis_fact_projected :: "ArchaeologySynthesisLimits \<Rightarrow> ArchaeologySynthesisFact \<Rightarrow> bool" where
  "synthesis_fact_projected limits f \<longleftrightarrow>
     synthesis_safe_id (sf_fact_id f) \<and> safe_text (sf_label f) (sl_max_text_bytes limits) \<and>
     trusted_source (sf_trust f) \<and> sf_confidence f \<noteq> Confidence_Unavailable \<and> length (sf_quantifier_kinds f) \<le> 6 \<and>
     sorted_wrt (<) (map quantifier_rank (sf_quantifier_kinds f))"

definition synthesis_relationship_projected :: "string set \<Rightarrow> ArchaeologySynthesisRelationship \<Rightarrow> bool" where
  "synthesis_relationship_projected expected_facts r \<longleftrightarrow>
     synthesis_safe_id (sr_relationship_id r) \<and> sr_from_fact_id r \<in> expected_facts \<and> sr_to_fact_id r \<in> expected_facts \<and>
     trusted_source (sr_trust r) \<and> \<not> (sr_kind r = Link_Unresolved \<and> \<not> sr_unresolved r)"

definition scope_is_safe :: "string \<Rightarrow> string \<Rightarrow> string \<Rightarrow> string \<Rightarrow> string \<Rightarrow> bool" where
  "scope_is_safe repository_id generation_id revision_sha parser_identity algorithm_identity \<longleftrightarrow>
     synthesis_safe_id repository_id \<and> synthesis_safe_id generation_id \<and> synthesis_safe_id parser_identity \<and>
     synthesis_safe_id algorithm_identity \<and> validate_revision_sha revision_sha = Inr ()"

definition validate_synthesis_request ::
  "synthesis_env \<Rightarrow> ArchaeologySynthesisRequest \<Rightarrow> ArchaeologySynthesisLimits \<Rightarrow> (string, unit) result" where
  "validate_synthesis_request env request limits =
     (let packet = sq_packet request; expected_facts = set (packet_fact_ids packet)
      in if sq_schema_version request \<noteq> ARCHAEOLOGY_SYNTHESIS_SCHEMA_VERSION
            \<or> sq_contract_id request \<noteq> ARCHAEOLOGY_SYNTHESIS_CONTRACT_ID
            \<or> \<not> scope_is_safe (sq_repository_id request) (sq_generation_id request) (sq_revision_sha request)
                (sq_parser_identity request) (sq_algorithm_identity request)
            \<or> length (sq_facts request) > sl_max_facts limits
            \<or> length (sq_relationships request) > sl_max_relationships limits
         then Inl ''Archaeology synthesis request identity or count bound is invalid''
         else and_then (validate_packet_shape packet limits) (\<lambda>_.
           if ep_packet_id packet \<noteq> expected_packet_id (sq_repository_id request) (sq_revision_sha request) packet
           then Inl ''Archaeology synthesis packet identity does not match its evidence''
           else if expected_facts \<noteq> set (map sf_fact_id (sq_facts request))
              \<or> \<not> distinct (map sf_fact_id (sq_facts request))
              \<or> \<not> sorted_unique (map sf_fact_id (sq_facts request))
              \<or> list_ex (\<lambda>f. \<not> synthesis_fact_projected limits f) (sq_facts request)
           then Inl ''Archaeology synthesis request fact projection is invalid''
           else if set (ep_relationship_ids packet) \<noteq> set (map sr_relationship_id (sq_relationships request))
              \<or> \<not> distinct (map sr_relationship_id (sq_relationships request))
              \<or> \<not> sorted_unique (map sr_relationship_id (sq_relationships request))
              \<or> list_ex (\<lambda>r. \<not> synthesis_relationship_projected expected_facts r) (sq_relationships request)
           then Inl ''Archaeology synthesis request relationship projection is invalid''
           else if sq_request_id request \<noteq> request_identity env request
           then Inl ''Archaeology synthesis request identity does not match its payload''
           else if len (sy_request_json env request) > sl_max_request_bytes limits
           then Inl ''Archaeology synthesis request byte bound exceeded''
           else Inr ()))"

definition unique_map ::
  "('a \<Rightarrow> string) \<Rightarrow> string \<Rightarrow> 'a list \<Rightarrow> (string, (string, 'a) btree_map) result" where
  "unique_map identity label values =
     try_fold (\<lambda>output value.
       if \<not> synthesis_safe_id (identity value) \<or> map_of output (identity value) \<noteq> None
       then Inl (''Archaeology synthesis '' @ label @ '' identity is invalid or duplicate'')
       else Inr (bt_insert (identity value) value output)) [] values"

definition synthesis_cancelled :: "(nat \<Rightarrow> bool) \<Rightarrow> nat \<Rightarrow> (string, unit) result" where
  "synthesis_cancelled cancel n = require (\<not> cancel n) ''Archaeology synthesis request cancelled''"

definition request_fact ::
  "synthesis_env \<Rightarrow> (nat \<Rightarrow> bool) \<Rightarrow> ArchaeologyEvidencePacket \<Rightarrow> ArchaeologySynthesisLimits \<Rightarrow> nat \<times> ArchaeologyFact
     \<Rightarrow> (string, ArchaeologySynthesisFact) result" where
  "request_fact env cancel packet limits = (\<lambda>(n, f).
     and_then (synthesis_cancelled cancel n) (\<lambda>_.
       if \<not> safe_text (af_label f) (sl_max_text_bytes limits) \<or> \<not> trusted_source (af_trust f) \<or> af_span_ids f = []
          \<or> list_ex (\<lambda>i. i \<notin> set (ep_evidence_span_ids packet)) (af_span_ids f)
       then Inl ''Archaeology synthesis request fact is unsafe or unsupported''
       else Inr \<lparr>sf_fact_id = af_fact_id f, sf_kind = af_kind f, sf_label = af_label f, sf_trust = af_trust f,
         sf_confidence = af_confidence f,
         sf_quantifier_kinds = quantifier_kinds_from_evidence env (af_label f) (af_attributes f)\<rparr>))"

definition request_relationship ::
  "(nat \<Rightarrow> bool) \<Rightarrow> ArchaeologyEvidencePacket \<Rightarrow> nat \<times> ArchaeologyFactEdge
     \<Rightarrow> (string, ArchaeologySynthesisRelationship) result" where
  "request_relationship cancel packet = (\<lambda>(n, edge).
     and_then (synthesis_cancelled cancel n) (\<lambda>_.
       if fe_from_fact_id edge \<notin> set (packet_fact_ids packet) \<or> fe_to_fact_id edge \<notin> set (packet_fact_ids packet)
          \<or> \<not> trusted_source (fe_trust edge) \<or> fe_evidence_span_ids edge = []
          \<or> list_ex (\<lambda>i. i \<notin> set (ep_evidence_span_ids packet)) (fe_evidence_span_ids edge)
       then Inl ''Archaeology synthesis request relationship is unsafe or dangling''
       else Inr \<lparr>sr_relationship_id = fe_edge_id edge, sr_from_fact_id = fe_from_fact_id edge,
         sr_to_fact_id = fe_to_fact_id edge, sr_kind = fe_kind edge, sr_trust = fe_trust edge,
         sr_unresolved = (fe_kind edge = Link_Unresolved \<or> fe_unresolved_reason edge \<noteq> None)\<rparr>))"

definition build_synthesis_request ::
  "synthesis_env \<Rightarrow> string \<Rightarrow> string \<Rightarrow> string \<Rightarrow> string \<Rightarrow> string \<Rightarrow> ArchaeologyEvidencePacket \<Rightarrow> ArchaeologyFact list
     \<Rightarrow> ArchaeologyFactEdge list \<Rightarrow> (nat \<Rightarrow> bool) \<Rightarrow> ArchaeologySynthesisLimits
     \<Rightarrow> (string, ArchaeologySynthesisRequest) result" where
  "build_synthesis_request env repository_id generation_id revision_sha parser_identity algorithm_identity packet facts
     relationships cancel limits =
     and_then (synthesis_cancelled cancel 0) (\<lambda>_.
       if \<not> scope_is_safe repository_id generation_id revision_sha parser_identity algorithm_identity
          \<or> length facts > sl_max_facts limits \<or> length relationships > sl_max_relationships limits
       then Inl ''Archaeology synthesis request scope or count bound is invalid''
       else and_then (validate_packet_shape packet limits) (\<lambda>_.
         if ep_packet_id packet \<noteq> expected_packet_id repository_id revision_sha packet
         then Inl ''Archaeology synthesis packet identity does not match its evidence''
         else and_then (unique_map af_fact_id ''fact'' facts) (\<lambda>by_id.
           if set (packet_fact_ids packet) \<noteq> set (map fst by_id)
           then Inl ''Archaeology synthesis request fact set does not reconcile''
           else and_then (unique_map fe_edge_id ''relationship'' relationships) (\<lambda>edges_by_id.
             if set (ep_relationship_ids packet) \<noteq> set (map fst edges_by_id)
             then Inl ''Archaeology synthesis request relationship set does not reconcile''
             else if set (concat (map af_span_ids facts) @ concat (map fe_evidence_span_ids relationships))
                 \<noteq> set (ep_evidence_span_ids packet)
             then Inl ''Archaeology synthesis request evidence span set does not reconcile''
             else and_then (try_map (request_fact env cancel packet limits) (enumerate 1 (map snd by_id))) (\<lambda>request_facts.
               and_then (try_map (request_relationship cancel packet)
                   (enumerate (1 + length facts) (map snd edges_by_id))) (\<lambda>request_relationships.
                 let draft = \<lparr>sq_schema_version = ARCHAEOLOGY_SYNTHESIS_SCHEMA_VERSION,
                       sq_contract_id = ARCHAEOLOGY_SYNTHESIS_CONTRACT_ID, sq_request_id = [],
                       sq_repository_id = repository_id, sq_generation_id = generation_id, sq_revision_sha = revision_sha,
                       sq_parser_identity = parser_identity, sq_algorithm_identity = algorithm_identity, sq_packet = packet,
                       sq_facts = request_facts, sq_relationships = request_relationships\<rparr>;
                     request = draft\<lparr>sq_request_id := ''sha256:'' @ hex (sy_sha256 env (sy_request_json env draft))\<rparr>
                 in and_then (validate_synthesis_request env request limits) (\<lambda>_.
                    and_then (synthesis_cancelled cancel (1 + length facts + length relationships)) (\<lambda>_.
                      Inr request))))))))"

section \<open>The meaning of a clause\<close>

datatype ClauseSegmentRole = Role_Subject | Role_Condition | Role_Action | Role_Exception | Role_Quantifier

fun fact_supports_role :: "ArchaeologyFactKind \<Rightarrow> ClauseSegmentRole \<Rightarrow> bool" where
  "fact_supports_role kind Role_Subject \<longleftrightarrow> kind \<noteq> Fact_Unresolved"
| "fact_supports_role kind Role_Condition \<longleftrightarrow>
     kind \<in> {Fact_DataField, Fact_Constant, Fact_Predicate, Fact_Decision, Fact_Calculation, Fact_ControlFlow}"
| "fact_supports_role kind Role_Exception \<longleftrightarrow>
     kind \<in> {Fact_DataField, Fact_Constant, Fact_Predicate, Fact_Decision, Fact_Calculation, Fact_ControlFlow}"
| "fact_supports_role kind Role_Action \<longleftrightarrow>
     kind \<in> {Fact_Decision, Fact_Calculation, Fact_Mutation, Fact_Call, Fact_InputOutput, Fact_Transaction, Fact_ControlFlow}"
| "fact_supports_role kind Role_Quantifier \<longleftrightarrow>
     kind \<in> {Fact_DataField, Fact_Constant, Fact_Predicate, Fact_Decision, Fact_Calculation}"

definition validate_segment_role ::
  "string list \<Rightarrow> (string \<rightharpoonup> ArchaeologySynthesisFact) \<Rightarrow> ClauseSegmentRole \<Rightarrow> (string, unit) result" where
  "validate_segment_role fact_ids facts role =
     require (list_all (\<lambda>i. case facts i of None \<Rightarrow> False | Some f \<Rightarrow> fact_supports_role (sf_kind f) role) fact_ids)
       ''Archaeology synthesis clause segment lacks semantic fact support''"

definition validate_quantifier ::
  "ArchaeologySynthesisQuantifier \<Rightarrow> (string \<rightharpoonup> ArchaeologySynthesisFact) \<Rightarrow> (string, unit) result" where
  "validate_quantifier quantifier facts =
     and_then (validate_segment_role (qt_fact_ids quantifier) facts Role_Quantifier) (\<lambda>_.
       require (list_all (\<lambda>i. case facts i of None \<Rightarrow> False
           | Some f \<Rightarrow> fact_supports_role (sf_kind f) Role_Quantifier \<and> qt_kind quantifier \<in> set (sf_quantifier_kinds f))
         (qt_fact_ids quantifier)) ''Archaeology synthesis quantifier lacks exact typed evidence support'')"

text \<open>The cited links between positive facts, both ways, and every support that a contradicting fact has got.\<close>

record clause_links =
  ln_adjacency :: "(string \<times> string) list"
  ln_supported :: "string list"

definition cite_relationship ::
  "string set \<Rightarrow> string set \<Rightarrow> (string \<rightharpoonup> ArchaeologySynthesisRelationship) \<Rightarrow> clause_links \<Rightarrow> string
     \<Rightarrow> (string, clause_links) result" where
  "cite_relationship positive contradicting relationships st relationship_id =
     (case relationships relationship_id of
        None \<Rightarrow> Inl ''Archaeology synthesis clause cites an unknown relationship''
      | Some r \<Rightarrow>
          (let a = sr_from_fact_id r; b = sr_to_fact_id r
           in if sr_unresolved r \<or> sr_kind r = Link_Unresolved \<or> \<not> trusted_source (sr_trust r)
              then Inl ''Archaeology synthesis clause cites an unresolved or untrusted relationship''
              else if sr_kind r = Link_Contradicts
              then (if \<not> (a \<in> positive \<and> b \<in> contradicting \<or> b \<in> positive \<and> a \<in> contradicting)
                    then Inl ''Archaeology synthesis contradiction relationship does not reconcile''
                    else Inr (st\<lparr>ln_supported := ln_supported st @ (if a \<in> contradicting then [a] else []) @
                      (if b \<in> contradicting then [b] else [])\<rparr>))
              else if a \<notin> positive \<or> b \<notin> positive
              then Inl ''Archaeology synthesis relationship does not connect cited positive facts''
              else Inr (st\<lparr>ln_adjacency := ln_adjacency st @ [(a, b), (b, a)]\<rparr>)))"

definition adjacent_facts :: "(string \<times> string) list \<Rightarrow> string \<Rightarrow> string list" where
  "adjacent_facts adjacency current = sorted_list_of_set (snd ` set (filter (\<lambda>(a, _). a = current) adjacency))"

definition reach_step ::
  "(string \<times> string) list \<Rightarrow> string \<Rightarrow> string set \<times> string list \<Rightarrow> string set \<times> string list" where
  "reach_step adjacency current st =
     foldl (\<lambda>(reached, pending) adjacent.
       if adjacent \<in> reached then (reached, pending) else (insert adjacent reached, pending @ [adjacent]))
       st (adjacent_facts adjacency current)"

text \<open>The walk ends: every step either reaches a new fact or shortens the stack.\<close>

lemma reach_fold:
  assumes "foldl (\<lambda>(reached, pending) adjacent.
      if adjacent \<in> reached then (reached, pending) else (insert adjacent reached, pending @ [adjacent]))
      (reached, pending) ns = (reached', pending')"
  shows "reached' = reached \<union> set ns" "reached' = reached \<longrightarrow> pending' = pending"
    "set pending \<subseteq> set pending'" "set pending' = set pending \<union> (set ns - reached)"
proof -
  have "reached' = reached \<union> set ns \<and> (reached' = reached \<longrightarrow> pending' = pending) \<and>
      set pending' = set pending \<union> (set ns - reached)"
    using assms
  proof (induction ns arbitrary: reached pending)
    case (Cons n ns)
    show ?case
    proof (cases "n \<in> reached")
      case True
      then show ?thesis using Cons.IH [of reached pending] Cons.prems by auto
    next
      case False
      then have "foldl (\<lambda>(reached, pending) adjacent.
          if adjacent \<in> reached then (reached, pending) else (insert adjacent reached, pending @ [adjacent]))
          (insert n reached, pending @ [n]) ns = (reached', pending')" using Cons.prems by simp
      from Cons.IH [OF this] False show ?thesis by auto
    qed
  qed simp
  then show "reached' = reached \<union> set ns" "reached' = reached \<longrightarrow> pending' = pending"
    "set pending \<subseteq> set pending'" "set pending' = set pending \<union> (set ns - reached)" by auto
qed

lemma set_adjacent_facts: "set (adjacent_facts adjacency current) = {b. (current, b) \<in> set adjacency}"
  by (auto simp: adjacent_facts_def image_iff)

function reach_facts :: "(string \<times> string) list \<Rightarrow> string set \<times> string list \<Rightarrow> string set" where
  "reach_facts adjacency st =
     (if snd st = [] then fst st
      else reach_facts adjacency (reach_step adjacency (last (snd st)) (fst st, butlast (snd st))))"
  by pat_completeness auto
termination
proof (relation "measures [\<lambda>(adjacency, st). card (snd ` set adjacency - fst st), \<lambda>(adjacency, st). length (snd st)]", goal_cases)
  case 1
  show ?case by simp
next
  case (2 adjacency st)
  obtain reached pending where st: "st = (reached, pending)" by (cases st)
  obtain reached' pending' where step: "reach_step adjacency (last pending) (reached, butlast pending) = (reached', pending')"
    by fastforce
  note fold = reach_fold [OF step [unfolded reach_step_def]]
  show ?case
  proof (cases "reached' = reached")
    case True
    then show ?thesis using 2 step fold(2) by (simp add: st)
  next
    case False
    have sub: "set (adjacent_facts adjacency (last pending)) \<subseteq> snd ` set adjacency"
      unfolding set_adjacent_facts by force
    have "card (snd ` set adjacency - reached') < card (snd ` set adjacency - reached)"
    proof (rule psubset_card_mono)
      show "finite (snd ` set adjacency - reached)" by simp
      show "snd ` set adjacency - reached' \<subset> snd ` set adjacency - reached"
        using False sub unfolding fold(1) by blast
    qed
    then show ?thesis using step by (simp add: st)
  qed
qed

declare reach_facts.simps [simp del]

definition validate_clause_semantics ::
  "ArchaeologySynthesisClause \<Rightarrow> (string \<rightharpoonup> ArchaeologySynthesisFact) \<Rightarrow> (string \<rightharpoonup> ArchaeologySynthesisRelationship)
     \<Rightarrow> (string, unit) result" where
  "validate_clause_semantics clause facts relationships =
     and_then (validate_segment_role (sg_fact_ids (sc_subject clause)) facts Role_Subject) (\<lambda>_.
     and_then (validate_segment_role (sg_fact_ids (sc_action clause)) facts Role_Action) (\<lambda>_.
     and_then (case sc_condition clause of None \<Rightarrow> Inr ()
       | Some segment \<Rightarrow> validate_segment_role (sg_fact_ids segment) facts Role_Condition) (\<lambda>_.
     and_then (case sc_exception clause of None \<Rightarrow> Inr ()
       | Some segment \<Rightarrow> validate_segment_role (sg_fact_ids segment) facts Role_Exception) (\<lambda>_.
     and_then (case sc_quantifier clause of None \<Rightarrow> Inr () | Some quantifier \<Rightarrow> validate_quantifier quantifier facts) (\<lambda>_.
       let positive = supporting_fact_ids clause; contradicting = set (sc_contradicting_fact_ids clause)
       in and_then (try_fold (cite_relationship positive contradicting relationships)
            \<lparr>ln_adjacency = [], ln_supported = []\<rparr> (sc_relationship_ids clause)) (\<lambda>links.
            if set (ln_supported links) \<noteq> contradicting \<or> \<not> distinct (ln_supported links)
            then Inl ''Archaeology synthesis contradicting facts lack exactly one cited relationship support''
            else if card positive > 1 \<and>
                reach_facts (ln_adjacency links) ({Min positive}, [Min positive]) \<noteq> positive
            then Inl ''Archaeology synthesis clause facts lack one cited relationship path''
            else Inr ()))))))"

section \<open>The response\<close>

record response_state =
  rs_shapes :: "string set"
  rs_reconciled :: "string set"

definition validate_segments ::
  "(ArchaeologySynthesisSegment \<Rightarrow> (string, unit) result) \<Rightarrow> ArchaeologySynthesisClause \<Rightarrow> (string, unit) result" where
  "validate_segments check clause =
     and_then (check (sc_subject clause)) (\<lambda>_.
     and_then (check (sc_action clause)) (\<lambda>_.
     and_then (case sc_condition clause of None \<Rightarrow> Inr () | Some segment \<Rightarrow> check segment) (\<lambda>_.
       case sc_exception clause of None \<Rightarrow> Inr () | Some segment \<Rightarrow> check segment)))"

definition reconcile_contradiction :: "string set \<Rightarrow> string \<Rightarrow> (string, string set) result" where
  "reconcile_contradiction reconciled fact_id =
     (if fact_id \<in> reconciled then Inl ''Archaeology synthesis contradiction is assigned to multiple clauses''
      else Inr (insert fact_id reconciled))"

definition validate_response_clause ::
  "synthesis_env \<Rightarrow> ArchaeologySynthesisRequest \<Rightarrow> ArchaeologySynthesisLimits \<Rightarrow> response_state
     \<Rightarrow> ArchaeologySynthesisClause \<Rightarrow> (string, response_state) result" where
  "validate_response_clause env request limits st clause =
     (let packet = sq_packet request; supporting = set (ep_supporting_fact_ids packet);
          facts = fact_index (sq_facts request); relationships = relationship_index (sq_relationships request)
      in and_then (validate_segments (\<lambda>segment. validate_segment segment supporting limits) clause) (\<lambda>_.
         and_then (case sc_quantifier clause of None \<Rightarrow> Inr ()
           | Some quantifier \<Rightarrow> validate_ids (qt_fact_ids quantifier) supporting (sl_max_fact_ids_per_segment limits) False) (\<lambda>_.
         and_then (validate_ids (sc_relationship_ids clause) (set (ep_relationship_ids packet))
           (sl_max_relationship_ids_per_clause limits) True) (\<lambda>_.
         and_then (validate_ids (sc_contradicting_fact_ids clause) (set (ep_contradicting_fact_ids packet))
           (sl_max_fact_ids_per_segment limits) True) (\<lambda>_.
           if list_ex (\<lambda>i. i \<in> supporting_fact_ids clause) (sc_contradicting_fact_ids clause)
           then Inl ''Archaeology synthesis clause mixes positive and contradicting evidence''
           else and_then (try_fold reconcile_contradiction (rs_reconciled st) (sc_contradicting_fact_ids clause)) (\<lambda>reconciled.
                and_then (validate_clause_semantics clause facts relationships) (\<lambda>_.
                and_then (validate_segments (\<lambda>segment. validate_segment_text_support env segment facts) clause) (\<lambda>_.
                  if sy_clause_json env clause \<in> rs_shapes st
                  then Inl ''Archaeology synthesis response contains duplicate clauses''
                  else Inr \<lparr>rs_shapes = insert (sy_clause_json env clause) (rs_shapes st), rs_reconciled = reconciled\<rparr>))))))))"

definition validate_synthesis_response ::
  "synthesis_env \<Rightarrow> ArchaeologySynthesisRequest \<Rightarrow> ArchaeologySynthesisResponse \<Rightarrow> ArchaeologySynthesisLimits
     \<Rightarrow> (string, unit) result" where
  "validate_synthesis_response env request response limits =
     (if sp_schema_version response \<noteq> ARCHAEOLOGY_SYNTHESIS_SCHEMA_VERSION
         \<or> sp_contract_id response \<noteq> ARCHAEOLOGY_SYNTHESIS_CONTRACT_ID
         \<or> sp_request_id response \<noteq> sq_request_id request \<or> sp_packet_id response \<noteq> ep_packet_id (sq_packet request)
         \<or> sp_clauses response = [] \<or> length (sp_clauses response) > sl_max_clauses limits
      then Inl ''Archaeology synthesis response identity or clause count is invalid''
      else and_then (try_fold (validate_response_clause env request limits) \<lparr>rs_shapes = {}, rs_reconciled = {}\<rparr>
             (sp_clauses response)) (\<lambda>st.
           if rs_reconciled st \<noteq> set (ep_contradicting_fact_ids (sq_packet request))
           then Inl ''Archaeology synthesis response does not reconcile every packet contradiction''
           else if len (sy_response_json env response) > sl_max_response_bytes limits
           then Inl ''Archaeology synthesis response byte bound exceeded''
           else Inr ()))"

definition parse_synthesis_response ::
  "synthesis_env \<Rightarrow> string \<Rightarrow> ArchaeologySynthesisRequest \<Rightarrow> ArchaeologySynthesisLimits
     \<Rightarrow> (string, ArchaeologySynthesisResponse) result" where
  "parse_synthesis_response env raw request limits =
     (if len raw > sl_max_response_bytes limits then Inl ''Archaeology synthesis response byte bound exceeded''
      else if \<not> valid_utf8 raw then Inl ''Archaeology synthesis response must be UTF-8 JSON''
      else if synthesis_unsafe_text raw then Inl ''Archaeology synthesis response contains private or unsafe text''
      else and_then (ok_or (sy_parse_response env raw) ''Archaeology synthesis response is not strict contract JSON'') (\<lambda>response.
           and_then (validate_synthesis_response env request response limits) (\<lambda>_. Inr response)))"

section \<open>The canonical text\<close>

definition canonical_segment_text ::
  "string list \<Rightarrow> (string \<rightharpoonup> ArchaeologySynthesisFact) \<Rightarrow> (string, string) result" where
  "canonical_segment_text fact_ids facts =
     and_then (try_map (\<lambda>i. ok_or (map_option (\<lambda>f. join_str '' '' (split_whitespace (sf_label f))) (facts i))
         ''Archaeology synthesis segment cites an unknown fact'') fact_ids)
       (\<lambda>labels. Inr (join_str ''; '' labels))"

definition canonical_segment ::
  "(string \<rightharpoonup> ArchaeologySynthesisFact) \<Rightarrow> ArchaeologySynthesisSegment \<Rightarrow> (string, ArchaeologySynthesisSegment) result" where
  "canonical_segment facts segment =
     and_then (canonical_segment_text (sg_fact_ids segment) facts) (\<lambda>text. Inr (segment\<lparr>sg_text := text\<rparr>))"

definition canonical_optional ::
  "(string \<rightharpoonup> ArchaeologySynthesisFact) \<Rightarrow> ArchaeologySynthesisSegment option
     \<Rightarrow> (string, ArchaeologySynthesisSegment option) result" where
  "canonical_optional facts segment =
     (case segment of None \<Rightarrow> Inr None
      | Some segment \<Rightarrow> and_then (canonical_segment facts segment) (\<lambda>segment. Inr (Some segment)))"

definition canonical_clause ::
  "(string \<rightharpoonup> ArchaeologySynthesisFact) \<Rightarrow> ArchaeologySynthesisClause \<Rightarrow> (string, ArchaeologySynthesisClause) result" where
  "canonical_clause facts clause =
     and_then (canonical_segment facts (sc_subject clause)) (\<lambda>subject.
     and_then (canonical_segment facts (sc_action clause)) (\<lambda>action.
     and_then (canonical_optional facts (sc_condition clause)) (\<lambda>condition.
     and_then (canonical_optional facts (sc_exception clause)) (\<lambda>exc.
       Inr (clause\<lparr>sc_subject := subject, sc_action := action, sc_condition := condition, sc_exception := exc\<rparr>)))))"

definition canonicalize_synthesis_response ::
  "synthesis_env \<Rightarrow> ArchaeologySynthesisRequest \<Rightarrow> ArchaeologySynthesisResponse \<Rightarrow> ArchaeologySynthesisLimits
     \<Rightarrow> (string, ArchaeologySynthesisResponse) result" where
  "canonicalize_synthesis_response env request response limits =
     and_then (validate_synthesis_response env request response limits) (\<lambda>_.
     and_then (try_map (canonical_clause (fact_index (sq_facts request))) (sp_clauses response)) (\<lambda>clauses.
       let canonical = response\<lparr>sp_clauses := clauses\<rparr>
       in and_then (validate_synthesis_response env request canonical limits) (\<lambda>_. Inr canonical)))"

definition canonical_fact_list ::
  "string list \<Rightarrow> (string \<rightharpoonup> ArchaeologySynthesisFact) \<Rightarrow> (string, string) result" where
  "canonical_fact_list fact_ids facts =
     and_then (try_map (\<lambda>i. and_then (ok_or (facts i) ''Archaeology synthesis clause cites an unknown fact'') (\<lambda>f.
         let label = map (\<lambda>c. if c = CHR 0x22 then CHR 0x27 else c) (join_str '' '' (split_whitespace (sf_label f)))
         in Inr (fact_kind_text (sf_kind f) @ '' '' @ [CHR 0x22] @ label @ [CHR 0x22]))) fact_ids)
       (\<lambda>values. Inr (join_str ''; '' values))"

fun quantifier_text :: "ArchaeologySynthesisQuantifierKind \<Rightarrow> string" where
  "quantifier_text Quantifier_All = ''all''"
| "quantifier_text Quantifier_Any = ''any''"
| "quantifier_text Quantifier_None = ''none''"
| "quantifier_text Quantifier_ExactlyOne = ''exactly one''"
| "quantifier_text Quantifier_AtLeastOne = ''at least one''"
| "quantifier_text Quantifier_AtMostOne = ''at most one''"

definition listed_part :: "(string \<rightharpoonup> ArchaeologySynthesisFact) \<Rightarrow> string \<Rightarrow> string list \<Rightarrow> (string, string) result" where
  "listed_part facts prefix fact_ids =
     and_then (canonical_fact_list fact_ids facts) (\<lambda>found. Inr (prefix @ found @ ''.''))"

definition relationship_part ::
  "(string \<rightharpoonup> ArchaeologySynthesisFact) \<Rightarrow> (string \<rightharpoonup> ArchaeologySynthesisRelationship) \<Rightarrow> string \<Rightarrow> (string, string) result" where
  "relationship_part facts relationships relationship_id =
     and_then (ok_or (relationships relationship_id) ''Archaeology synthesis clause cites an unknown relationship'') (\<lambda>r.
     and_then (canonical_fact_list [sr_from_fact_id r] facts) (\<lambda>from_text.
     and_then (canonical_fact_list [sr_to_fact_id r] facts) (\<lambda>to_text.
       Inr (''Relationship: '' @ from_text @ '' '' @ relationship_verb (sr_kind r) @ '' '' @ to_text @ ''.''))))"

definition clause_parts ::
  "(string \<rightharpoonup> ArchaeologySynthesisFact) \<Rightarrow> (string \<rightharpoonup> ArchaeologySynthesisRelationship) \<Rightarrow> ArchaeologySynthesisClause
     \<Rightarrow> (string, string list) result" where
  "clause_parts facts relationships clause =
     and_then (try_map (\<lambda>(prefix, ids). listed_part facts prefix ids)
       ([(''Subject: '', sg_fact_ids (sc_subject clause))] @
        (case sc_condition clause of None \<Rightarrow> [] | Some segment \<Rightarrow> [(''Condition: '', sg_fact_ids segment)]) @
        [(''Action: '', sg_fact_ids (sc_action clause))] @
        (case sc_exception clause of None \<Rightarrow> [] | Some segment \<Rightarrow> [(''Exception evidence: '', sg_fact_ids segment)]) @
        (case sc_quantifier clause of None \<Rightarrow> []
         | Some quantifier \<Rightarrow>
             [(''Quantifier: '' @ quantifier_text (qt_kind quantifier) @ '' of '', qt_fact_ids quantifier)]))) (\<lambda>segments.
     and_then (try_map (relationship_part facts relationships) (sc_relationship_ids clause)) (\<lambda>links.
     and_then (if sc_contradicting_fact_ids clause = [] then Inr []
       else and_then (listed_part facts ''Contradicting evidence: '' (sc_contradicting_fact_ids clause)) (\<lambda>part. Inr [part]))
       (\<lambda>contradictions. Inr (segments @ links @ contradictions))))"

definition canonical_synthesis_clause_text ::
  "ArchaeologySynthesisRequest \<Rightarrow> ArchaeologySynthesisClause \<Rightarrow> (string, string) result" where
  "canonical_synthesis_clause_text request clause =
     and_then (clause_parts (fact_index (sq_facts request)) (relationship_index (sq_relationships request)) clause) (\<lambda>parts.
       let text = join_str '' '' parts
       in if len text > 64 * 1024 \<or> synthesis_unsafe_text text
          then Inl ''Archaeology canonical synthesis clause exceeds its safety bound'' else Inr text)"

end
