(* ===== verification/Synthesis_Safety.thy ===== *)
theory Synthesis_Safety
  imports Synthesis
begin

text \<open>
  What the wire contract guarantees: an accepted response is grounded in the packet, word by word; no wording
  of the provider survives the canonical form or reaches the published sentence, which every accepted
  clause has; and a request does not depend on the order of its evidence.
\<close>

section \<open>The walk over the links is reachability\<close>

lemma reach_facts_closed:
  assumes "set (snd st) \<subseteq> fst st" "\<forall>x\<in>fst st. x \<notin> set (snd st) \<longrightarrow> (\<forall>y. (x, y) \<in> set adjacency \<longrightarrow> y \<in> fst st)"
  shows "fst st \<subseteq> reach_facts adjacency st \<and>
    (\<forall>x\<in>reach_facts adjacency st. \<forall>y. (x, y) \<in> set adjacency \<longrightarrow> y \<in> reach_facts adjacency st) \<and>
    reach_facts adjacency st \<subseteq> (set adjacency)\<^sup>* `` fst st"
  using assms
proof (induction adjacency st rule: reach_facts.induct)
  case (1 adjacency st)
  obtain reached pending where st: "st = (reached, pending)" by (cases st)
  show ?case
  proof (cases "pending = []")
    case True
    have result: "reach_facts adjacency (reached, []) = reached" by (simp add: reach_facts.simps [of adjacency "(reached, [])"])
    show ?thesis using 1(3) unfolding st True by (auto simp: result)
  next
    case False
    let ?current = "last pending"
    obtain reached' pending' where step: "reach_step adjacency ?current (reached, butlast pending) = (reached', pending')"
      by fastforce
    note fold = reach_fold [OF step [unfolded reach_step_def]]
    have unfold: "reach_facts adjacency (reached, pending) = reach_facts adjacency (reached', pending')"
      by (subst reach_facts.simps) (simp add: False step)
    have members: "set pending = insert ?current (set (butlast pending))"
      using False by (metis append_butlast_last_id list.simps(15) rotate1.simps(2) set_rotate1)
    have next_set: "set (adjacent_facts adjacency ?current) = {b. (?current, b) \<in> set adjacency}"
      by (rule set_adjacent_facts)
    have pend: "set pending' \<subseteq> reached'" using 1(2) members unfolding fold(1,4) st by auto
    have closed: "\<forall>x\<in>reached'. x \<notin> set pending' \<longrightarrow> (\<forall>y. (x, y) \<in> set adjacency \<longrightarrow> y \<in> reached')"
    proof (intro ballI impI allI)
      fix x y assume x: "x \<in> reached'" "x \<notin> set pending'" "(x, y) \<in> set adjacency"
      then have "x \<in> reached" "x \<notin> set (butlast pending)" unfolding fold(1,4) by blast+
      then show "y \<in> reached'"
        using 1(3) x(3) members next_set unfolding fold(1) st by (cases "x = ?current") auto
    qed
    have ih: "reached' \<subseteq> reach_facts adjacency (reached', pending') \<and>
      (\<forall>x\<in>reach_facts adjacency (reached', pending'). \<forall>y. (x, y) \<in> set adjacency \<longrightarrow> y \<in> reach_facts adjacency (reached', pending')) \<and>
      reach_facts adjacency (reached', pending') \<subseteq> (set adjacency)\<^sup>* `` reached'"
      using 1(1) False pend closed step unfolding st by simp
    have "reached' \<subseteq> (set adjacency)\<^sup>* `` reached"
      using 1(2) members next_set unfolding fold(1) st by (auto intro: r_into_rtrancl)
    then have step_sub: "(set adjacency)\<^sup>* `` reached' \<subseteq> (set adjacency)\<^sup>* `` reached"
      by (auto intro: rtrancl_trans)
    have "reached \<subseteq> reached'" unfolding fold(1) by blast
    then show ?thesis unfolding st fst_conv unfold using ih step_sub by blast
  qed
qed

lemma reach_facts_exact: "reach_facts adjacency ({a}, [a]) = {b. (a, b) \<in> (set adjacency)\<^sup>*}"
proof -
  have closed: "a \<in> reach_facts adjacency ({a}, [a])"
    "\<forall>x\<in>reach_facts adjacency ({a}, [a]). \<forall>y. (x, y) \<in> set adjacency \<longrightarrow> y \<in> reach_facts adjacency ({a}, [a])"
    "reach_facts adjacency ({a}, [a]) \<subseteq> (set adjacency)\<^sup>* `` {a}"
    using reach_facts_closed [of "({a}, [a])" adjacency] by auto
  have "b \<in> reach_facts adjacency ({a}, [a])" if "(a, b) \<in> (set adjacency)\<^sup>*" for b
    using that by induction (use closed in blast)+
  then show ?thesis using closed(3) by blast
qed

section \<open>What a clause cites\<close>

definition cited_well :: "string set \<Rightarrow> string set \<Rightarrow> ArchaeologySynthesisRelationship \<Rightarrow> bool" where
  "cited_well positive contradicting r \<longleftrightarrow>
     \<not> sr_unresolved r \<and> sr_kind r \<noteq> Link_Unresolved \<and> trusted_source (sr_trust r) \<and>
     (if sr_kind r = Link_Contradicts
      then sr_from_fact_id r \<in> positive \<and> sr_to_fact_id r \<in> contradicting \<or>
        sr_to_fact_id r \<in> positive \<and> sr_from_fact_id r \<in> contradicting
      else sr_from_fact_id r \<in> positive \<and> sr_to_fact_id r \<in> positive)"

definition link_pairs :: "ArchaeologySynthesisRelationship \<Rightarrow> (string \<times> string) list" where
  "link_pairs r = (if sr_kind r = Link_Contradicts then []
     else [(sr_from_fact_id r, sr_to_fact_id r), (sr_to_fact_id r, sr_from_fact_id r)])"

definition contradicted_ends :: "string set \<Rightarrow> ArchaeologySynthesisRelationship \<Rightarrow> string list" where
  "contradicted_ends contradicting r = (if sr_kind r \<noteq> Link_Contradicts then []
     else (if sr_from_fact_id r \<in> contradicting then [sr_from_fact_id r] else []) @
       (if sr_to_fact_id r \<in> contradicting then [sr_to_fact_id r] else []))"

lemma cite_relationship_Inr:
  "cite_relationship positive contradicting relationships st i = Inr st' \<longleftrightarrow>
     (\<exists>r. relationships i = Some r \<and> cited_well positive contradicting r \<and>
       st' = \<lparr>ln_adjacency = ln_adjacency st @ link_pairs r, ln_supported = ln_supported st @ contradicted_ends contradicting r\<rparr>)"
proof (cases "relationships i")
  case None
  then show ?thesis by (simp add: cite_relationship_def)
next
  case (Some r)
  then show ?thesis
    by (cases st) (auto simp: cite_relationship_def cited_well_def link_pairs_def contradicted_ends_def Let_def)
qed

lemma cite_relationships_Inr:
  "try_fold (cite_relationship positive contradicting relationships) st ids = Inr st' \<longleftrightarrow>
     list_all (\<lambda>i. \<exists>r. relationships i = Some r \<and> cited_well positive contradicting r) ids \<and>
     st' = \<lparr>ln_adjacency = ln_adjacency st @ concat (map (\<lambda>i. link_pairs (the (relationships i))) ids),
       ln_supported = ln_supported st @ concat (map (\<lambda>i. contradicted_ends contradicting (the (relationships i))) ids)\<rparr>"
proof (induction ids arbitrary: st)
  case Nil
  then show ?case by (cases st) auto
next
  case (Cons i ids)
  show ?case
    unfolding try_fold.simps and_then_Inr_iff cite_relationship_Inr Cons.IH by auto
qed

section \<open>Grounded clauses\<close>

text \<open>A segment whose every word comes from a label it cites, or is a function word, and whose facts fit its role.\<close>

definition ids_allowed :: "string set \<Rightarrow> nat \<Rightarrow> string list \<Rightarrow> bool" where
  "ids_allowed allowed bound ids \<longleftrightarrow> length ids \<le> bound \<and> sorted_unique ids \<and> set ids \<subseteq> allowed \<and> list_all synthesis_safe_id ids"

definition plays_role :: "ArchaeologySynthesisRequest \<Rightarrow> ClauseSegmentRole \<Rightarrow> string \<Rightarrow> bool" where
  "plays_role request role i \<longleftrightarrow> (\<exists>f. fact_index (sq_facts request) i = Some f \<and> fact_supports_role (sf_kind f) role)"

definition word_supported :: "synthesis_env \<Rightarrow> ArchaeologySynthesisRequest \<Rightarrow> string list \<Rightarrow> string \<Rightarrow> bool" where
  "word_supported env request ids word \<longleftrightarrow> word \<in> set function_words \<or>
     (\<exists>i\<in>set ids. \<exists>f. fact_index (sq_facts request) i = Some f \<and> word \<in> set (semantic_tokens env (sf_label f)))"

definition segment_grounded ::
  "synthesis_env \<Rightarrow> ArchaeologySynthesisRequest \<Rightarrow> ArchaeologySynthesisLimits \<Rightarrow> ClauseSegmentRole
     \<Rightarrow> ArchaeologySynthesisSegment \<Rightarrow> bool" where
  "segment_grounded env request limits role segment \<longleftrightarrow>
     safe_text (sg_text segment) (sl_max_text_bytes limits) \<and> sg_fact_ids segment \<noteq> [] \<and>
     ids_allowed (set (ep_supporting_fact_ids (sq_packet request))) (sl_max_fact_ids_per_segment limits) (sg_fact_ids segment) \<and>
     list_all (plays_role request role) (sg_fact_ids segment) \<and>
     list_all (word_supported env request (sg_fact_ids segment)) (semantic_tokens env (sg_text segment))"

definition quantifier_grounded ::
  "ArchaeologySynthesisRequest \<Rightarrow> ArchaeologySynthesisLimits \<Rightarrow> ArchaeologySynthesisQuantifier \<Rightarrow> bool" where
  "quantifier_grounded request limits quantifier \<longleftrightarrow>
     qt_fact_ids quantifier \<noteq> [] \<and>
     ids_allowed (set (ep_supporting_fact_ids (sq_packet request))) (sl_max_fact_ids_per_segment limits) (qt_fact_ids quantifier) \<and>
     list_all (\<lambda>i. \<exists>f. fact_index (sq_facts request) i = Some f \<and> fact_supports_role (sf_kind f) Role_Quantifier \<and>
       qt_kind quantifier \<in> set (sf_quantifier_kinds f)) (qt_fact_ids quantifier)"

text \<open>The links between positive facts that a clause cites, as a symmetric relation.\<close>

definition cited_links :: "ArchaeologySynthesisRequest \<Rightarrow> ArchaeologySynthesisClause \<Rightarrow> (string \<times> string) set" where
  "cited_links request clause =
     {(a, b). \<exists>i\<in>set (sc_relationship_ids clause). \<exists>r. relationship_index (sq_relationships request) i = Some r \<and>
        sr_kind r \<noteq> Link_Contradicts \<and>
        (a = sr_from_fact_id r \<and> b = sr_to_fact_id r \<or> a = sr_to_fact_id r \<and> b = sr_from_fact_id r)}"

text \<open>A cited relationship by which a fact is contradicted.\<close>

definition contradicts_fact :: "ArchaeologySynthesisRequest \<Rightarrow> string \<Rightarrow> string \<Rightarrow> bool" where
  "contradicts_fact request fact_id i \<longleftrightarrow>
     (\<exists>r. relationship_index (sq_relationships request) i = Some r \<and> sr_kind r = Link_Contradicts \<and>
        (sr_from_fact_id r = fact_id \<or> sr_to_fact_id r = fact_id))"

definition clause_grounded ::
  "synthesis_env \<Rightarrow> ArchaeologySynthesisRequest \<Rightarrow> ArchaeologySynthesisLimits \<Rightarrow> ArchaeologySynthesisClause \<Rightarrow> bool" where
  "clause_grounded env request limits clause \<longleftrightarrow>
     (let positive = supporting_fact_ids clause; contradicting = set (sc_contradicting_fact_ids clause)
      in segment_grounded env request limits Role_Subject (sc_subject clause) \<and>
         segment_grounded env request limits Role_Action (sc_action clause) \<and>
         pred_option (segment_grounded env request limits Role_Condition) (sc_condition clause) \<and>
         pred_option (segment_grounded env request limits Role_Exception) (sc_exception clause) \<and>
         pred_option (quantifier_grounded request limits) (sc_quantifier clause) \<and>
         ids_allowed (set (ep_relationship_ids (sq_packet request))) (sl_max_relationship_ids_per_clause limits) (sc_relationship_ids clause) \<and>
         ids_allowed (set (ep_contradicting_fact_ids (sq_packet request))) (sl_max_fact_ids_per_segment limits) (sc_contradicting_fact_ids clause) \<and>
         positive \<inter> contradicting = {} \<and>
         list_all (\<lambda>i. \<exists>r. relationship_index (sq_relationships request) i = Some r \<and> cited_well positive contradicting r)
           (sc_relationship_ids clause) \<and>
         (\<forall>fact_id\<in>contradicting. \<exists>!i. i \<in> set (sc_relationship_ids clause) \<and> contradicts_fact request fact_id i) \<and>
         (\<forall>a\<in>positive. \<forall>b\<in>positive. (a, b) \<in> (cited_links request clause)\<^sup>*))"

lemma sorted_unique_strict: "sorted_unique xs \<longleftrightarrow> sorted_wrt (<) xs"
  by (induction xs rule: sorted_unique.induct) (auto simp: dest: less_trans)

lemma sorted_unique_distinct: "sorted_unique xs \<Longrightarrow> distinct xs"
  by (simp add: sorted_unique_strict strict_sorted_iff)

lemma validate_ids_Inr: "validate_ids ids allowed bound allow_empty = Inr u \<longleftrightarrow>
    (allow_empty \<or> ids \<noteq> []) \<and> ids_allowed allowed bound ids"
  by (auto simp: validate_ids_def ids_allowed_def list_ex_iff list_all_iff)

lemma segment_validations:
  "validate_segment segment (set (ep_supporting_fact_ids (sq_packet request))) limits = Inr () \<and>
   validate_segment_role (sg_fact_ids segment) (fact_index (sq_facts request)) role = Inr () \<and>
   validate_segment_text_support env segment (fact_index (sq_facts request)) = Inr () \<longleftrightarrow>
     segment_grounded env request limits role segment"
proof -
  have words: "validate_segment_text_support env segment (fact_index (sq_facts request)) = Inr () \<longleftrightarrow>
      list_all (word_supported env request (sg_fact_ids segment)) (semantic_tokens env (sg_text segment))"
  proof -
    have labels: "set (concat (map (\<lambda>f. semantic_tokens env (sf_label f))
          (List.map_filter (fact_index (sq_facts request)) ids))) =
        {w. \<exists>i\<in>set ids. \<exists>f. fact_index (sq_facts request) i = Some f \<and> w \<in> set (semantic_tokens env (sf_label f))}" for ids
      by (auto simp: List.map_filter_def) (metis option.sel)
    show ?thesis
      unfolding validate_segment_text_support_def Let_def labels list_ex_iff list_all_iff word_supported_def by auto
  qed
  have role: "validate_segment_role (sg_fact_ids segment) (fact_index (sq_facts request)) role = Inr () \<longleftrightarrow>
      list_all (plays_role request role) (sg_fact_ids segment)"
    by (auto simp: validate_segment_role_def list_all_iff plays_role_def split: option.splits)
  show ?thesis
    unfolding words role by (auto simp: validate_segment_def validate_ids_Inr segment_grounded_def)
qed

lemma quantifier_validations:
  "validate_ids (qt_fact_ids quantifier) (set (ep_supporting_fact_ids (sq_packet request))) (sl_max_fact_ids_per_segment limits) False = Inr () \<and>
   validate_quantifier quantifier (fact_index (sq_facts request)) = Inr () \<longleftrightarrow> quantifier_grounded request limits quantifier"
  by (auto simp: validate_ids_Inr quantifier_grounded_def validate_quantifier_def and_then_Inr_iff validate_segment_role_def
      list_all_iff split: option.splits)

lemma optional_validations:
  "(case x of None \<Rightarrow> Inr () | Some y \<Rightarrow> f y) = Inr () \<longleftrightarrow> pred_option (\<lambda>y. f y = Inr ()) x"
  by (cases x) simp_all

lemma one_preimage:
  assumes "e ` S \<subseteq> C"
  shows "e ` S = C \<and> inj_on e S \<longleftrightarrow> (\<forall>c\<in>C. \<exists>!i. i \<in> S \<and> e i = c)"
proof
  assume "e ` S = C \<and> inj_on e S"
  then show "\<forall>c\<in>C. \<exists>!i. i \<in> S \<and> e i = c" by (auto simp: inj_on_def)
next
  assume one: "\<forall>c\<in>C. \<exists>!i. i \<in> S \<and> e i = c"
  then have "C \<subseteq> e ` S" by force
  moreover have "inj_on e S"
  proof (rule inj_onI)
    fix i j assume ij: "i \<in> S" "j \<in> S" "e i = e j"
    then have "e i \<in> C" using assms by blast
    then show "i = j" using one ij by metis
  qed
  ultimately show "e ` S = C \<and> inj_on e S" using assms by blast
qed

lemma supported_once:
  assumes "distinct ids" "positive \<inter> contradicting = {}"
    and well: "list_all (\<lambda>i. \<exists>r. relationship_index (sq_relationships request) i = Some r \<and> cited_well positive contradicting r) ids"
    and supported: "supported = concat (map (\<lambda>i. contradicted_ends contradicting (the (relationship_index (sq_relationships request) i))) ids)"
  shows "set supported = contradicting \<and> distinct supported \<longleftrightarrow>
    (\<forall>fact_id\<in>contradicting. \<exists>!i. i \<in> set ids \<and> contradicts_fact request fact_id i)"
proof -
  let ?rel = "\<lambda>i. the (relationship_index (sq_relationships request) i)"
  define isC where "isC i \<longleftrightarrow> sr_kind (?rel i) = Link_Contradicts" for i
  define e where "e i = (if sr_from_fact_id (?rel i) \<in> contradicting then sr_from_fact_id (?rel i) else sr_to_fact_id (?rel i))" for i
  have each: "relationship_index (sq_relationships request) i = Some (?rel i)" "cited_well positive contradicting (?rel i)"
    if "i \<in> set ids" for i using well that by (auto simp: list_all_iff)
  have ends: "contradicted_ends contradicting (?rel i) = (if isC i then [e i] else [])" if "i \<in> set ids" for i
    using each(2) [OF that] assms(2) by (auto simp: contradicted_ends_def isC_def e_def cited_well_def)
  have e_in: "e i \<in> contradicting" if "i \<in> set ids" "isC i" for i
    using each(2) [OF that(1)] that(2) assms(2) by (auto simp: isC_def e_def cited_well_def)
  have "supported = concat (map (\<lambda>i. if isC i then [e i] else []) ids)"
    unfolding supported by (rule arg_cong [of _ _ concat], rule map_cong [OF refl]) (rule ends)
  also have "\<dots> = map e (filter isC ids)" by (induction ids) simp_all
  finally have s: "supported = map e (filter isC ids)" .
  have touches: "contradicts_fact request c i \<longleftrightarrow> isC i \<and> e i = c" if "i \<in> set ids" "c \<in> contradicting" for i c
    using each [OF that(1)] that(2) assms(2) by (auto simp: contradicts_fact_def isC_def e_def cited_well_def)
  have "set supported = contradicting \<and> distinct supported \<longleftrightarrow>
      e ` set (filter isC ids) = contradicting \<and> inj_on e (set (filter isC ids))"
    unfolding s using assms(1) by (simp add: distinct_map)
  also have "\<dots> \<longleftrightarrow> (\<forall>c\<in>contradicting. \<exists>!i. i \<in> set (filter isC ids) \<and> e i = c)"
    by (rule one_preimage) (use e_in in auto)
  also have "\<dots> \<longleftrightarrow> (\<forall>c\<in>contradicting. \<exists>!i. i \<in> set ids \<and> contradicts_fact request c i)"
  proof (rule ball_cong [OF refl])
    fix c assume c: "c \<in> contradicting"
    have "i \<in> set (filter isC ids) \<and> e i = c \<longleftrightarrow> i \<in> set ids \<and> contradicts_fact request c i" for i
      using touches [OF _ c, of i] by auto
    then show "(\<exists>!i. i \<in> set (filter isC ids) \<and> e i = c) \<longleftrightarrow> (\<exists>!i. i \<in> set ids \<and> contradicts_fact request c i)" by simp
  qed
  finally show ?thesis .
qed

lemma connected_iff:
  assumes "finite positive" "positive \<noteq> {}" "L \<subseteq> positive \<times> positive" "sym L"
  shows "\<not> (card positive > 1 \<and> {b. (Min positive, b) \<in> L\<^sup>*} \<noteq> positive) \<longleftrightarrow>
    (\<forall>a\<in>positive. \<forall>b\<in>positive. (a, b) \<in> L\<^sup>*)"
proof -
  let ?m = "Min positive"
  have m: "?m \<in> positive" by (rule Min_in [OF assms(1,2)])
  have inside: "b \<in> positive" if "(?m, b) \<in> L\<^sup>*" for b
    using that by (induction rule: rtrancl_induct) (use m assms(3) in blast)+
  have reversed: "(b, a) \<in> L\<^sup>*" if "(a, b) \<in> L\<^sup>*" for a b
    using that sym_rtrancl [OF assms(4)] by (rule symD [rotated])
  show ?thesis
  proof (cases "card positive > 1")
    case True
    have "{b. (?m, b) \<in> L\<^sup>*} = positive \<longleftrightarrow> (\<forall>b\<in>positive. (?m, b) \<in> L\<^sup>*)" using inside by blast
    also have "\<dots> \<longleftrightarrow> (\<forall>a\<in>positive. \<forall>b\<in>positive. (a, b) \<in> L\<^sup>*)"
      using m reversed rtrancl_trans [of _ ?m L] by blast
    finally show ?thesis using True by simp
  next
    case False
    have "card positive > 0" using assms(1,2) by (simp add: card_gt_0_iff)
    then have "card positive = 1" using False by linarith
    then have "positive = {?m}" using m by (metis card_1_singletonE singletonD)
    then have same: "a = b" if "a \<in> positive" "b \<in> positive" for a b using that by (metis singletonD)
    have "(a, b) \<in> L\<^sup>*" if "a \<in> positive" "b \<in> positive" for a b using same [OF that] by simp
    then show ?thesis using False by simp
  qed
qed

lemma cited_links_adjacency:
  assumes "list_all (\<lambda>i. \<exists>r. relationship_index (sq_relationships request) i = Some r \<and> cited_well positive contradicting r)
    (sc_relationship_ids clause)"
  shows "set (concat (map (\<lambda>i. link_pairs (the (relationship_index (sq_relationships request) i))) (sc_relationship_ids clause))) =
      cited_links request clause"
    and "cited_links request clause \<subseteq> positive \<times> positive"
proof -
  have each: "relationship_index (sq_relationships request) i = Some (the (relationship_index (sq_relationships request) i))"
    if "i \<in> set (sc_relationship_ids clause)" for i using assms that by (auto simp: list_all_iff)
  have pairs: "(a, b) \<in> set (link_pairs r) \<longleftrightarrow> sr_kind r \<noteq> Link_Contradicts \<and>
      (a = sr_from_fact_id r \<and> b = sr_to_fact_id r \<or> a = sr_to_fact_id r \<and> b = sr_from_fact_id r)" for a b r
    by (auto simp: link_pairs_def)
  have links: "(a, b) \<in> cited_links request clause \<longleftrightarrow> (\<exists>i\<in>set (sc_relationship_ids clause).
      \<exists>r. relationship_index (sq_relationships request) i = Some r \<and> (a, b) \<in> set (link_pairs r))" for a b
    unfolding cited_links_def pairs by simp
  have "(\<exists>r. relationship_index (sq_relationships request) i = Some r \<and> p \<in> set (link_pairs r)) \<longleftrightarrow>
      p \<in> set (link_pairs (the (relationship_index (sq_relationships request) i)))"
    if "i \<in> set (sc_relationship_ids clause)" for i p using each [OF that] by (metis option.inject)
  then show "set (concat (map (\<lambda>i. link_pairs (the (relationship_index (sq_relationships request) i))) (sc_relationship_ids clause))) =
      cited_links request clause"
    using links by (intro set_eqI) (simp add: split_paired_all)
  show "cited_links request clause \<subseteq> positive \<times> positive"
    using assms by (fastforce simp: list_all_iff cited_links_def cited_well_def)
qed

lemma sym_cited_links: "sym (cited_links request clause)"
  unfolding cited_links_def by (rule symI) blast

lemma clause_semantics_iff:
  assumes "sg_fact_ids (sc_subject clause) \<noteq> []" "distinct (sc_relationship_ids clause)"
    and "supporting_fact_ids clause \<inter> set (sc_contradicting_fact_ids clause) = {}"
  shows "validate_clause_semantics clause (fact_index (sq_facts request)) (relationship_index (sq_relationships request)) = Inr () \<longleftrightarrow>
    validate_segment_role (sg_fact_ids (sc_subject clause)) (fact_index (sq_facts request)) Role_Subject = Inr () \<and>
    validate_segment_role (sg_fact_ids (sc_action clause)) (fact_index (sq_facts request)) Role_Action = Inr () \<and>
    pred_option (\<lambda>s. validate_segment_role (sg_fact_ids s) (fact_index (sq_facts request)) Role_Condition = Inr ()) (sc_condition clause) \<and>
    pred_option (\<lambda>s. validate_segment_role (sg_fact_ids s) (fact_index (sq_facts request)) Role_Exception = Inr ()) (sc_exception clause) \<and>
    pred_option (\<lambda>q. validate_quantifier q (fact_index (sq_facts request)) = Inr ()) (sc_quantifier clause) \<and>
    list_all (\<lambda>i. \<exists>r. relationship_index (sq_relationships request) i = Some r \<and>
      cited_well (supporting_fact_ids clause) (set (sc_contradicting_fact_ids clause)) r) (sc_relationship_ids clause) \<and>
    (\<forall>fact_id\<in>set (sc_contradicting_fact_ids clause).
      \<exists>!i. i \<in> set (sc_relationship_ids clause) \<and> contradicts_fact request fact_id i) \<and>
    (\<forall>a\<in>supporting_fact_ids clause. \<forall>b\<in>supporting_fact_ids clause. (a, b) \<in> (cited_links request clause)\<^sup>*)"
proof -
  let ?P = "supporting_fact_ids clause" and ?C = "set (sc_contradicting_fact_ids clause)"
  let ?adj = "concat (map (\<lambda>i. link_pairs (the (relationship_index (sq_relationships request) i))) (sc_relationship_ids clause))"
  let ?sup = "concat (map (\<lambda>i. contradicted_ends ?C (the (relationship_index (sq_relationships request) i))) (sc_relationship_ids clause))"
  let ?well = "list_all (\<lambda>i. \<exists>r. relationship_index (sq_relationships request) i = Some r \<and> cited_well ?P ?C r) (sc_relationship_ids clause)"
  have P: "finite ?P" unfolding supporting_fact_ids_def by (rule List.finite_set)
  have Q: "?P \<noteq> {}" using assms(1) by (simp add: supporting_fact_ids_def)
  have tail: "?well \<and> set ?sup = ?C \<and> distinct ?sup \<and> \<not> (card ?P > 1 \<and> reach_facts ?adj ({Min ?P}, [Min ?P]) \<noteq> ?P) \<longleftrightarrow>
      ?well \<and> (\<forall>fact_id\<in>?C. \<exists>!i. i \<in> set (sc_relationship_ids clause) \<and> contradicts_fact request fact_id i) \<and>
      (\<forall>a\<in>?P. \<forall>b\<in>?P. (a, b) \<in> (cited_links request clause)\<^sup>*)"
  proof (cases ?well)
    case True
    have s: "set ?sup = ?C \<and> distinct ?sup \<longleftrightarrow>
        (\<forall>fact_id\<in>?C. \<exists>!i. i \<in> set (sc_relationship_ids clause) \<and> contradicts_fact request fact_id i)"
      by (rule supported_once [OF assms(2,3) True refl])
    have r: "reach_facts ?adj ({Min ?P}, [Min ?P]) = {b. (Min ?P, b) \<in> (cited_links request clause)\<^sup>*}"
      unfolding reach_facts_exact cited_links_adjacency(1) [OF True] ..
    show ?thesis
      unfolding r connected_iff [OF P Q cited_links_adjacency(2) [OF True] sym_cited_links] s [symmetric] by blast
  qed simp
  show ?thesis
    unfolding validate_clause_semantics_def Let_def and_then_unit_Inr optional_validations and_then_Inr_iff cite_relationships_Inr tail [symmetric]
    by (auto split: if_splits)
qed

section \<open>Accepted responses are exactly the grounded ones\<close>

lemma validate_segments_Inr:
  "validate_segments check clause = Inr () \<longleftrightarrow>
     check (sc_subject clause) = Inr () \<and> check (sc_action clause) = Inr () \<and>
     pred_option (\<lambda>s. check s = Inr ()) (sc_condition clause) \<and> pred_option (\<lambda>s. check s = Inr ()) (sc_exception clause)"
  unfolding validate_segments_def and_then_unit_Inr optional_validations by auto

lemma reconcile_Inr:
  "try_fold reconcile_contradiction acc ids = Inr acc' \<longleftrightarrow>
     distinct ids \<and> set ids \<inter> acc = {} \<and> acc' = acc \<union> set ids"
  by (induction ids arbitrary: acc) (auto simp: and_then_Inr_iff reconcile_contradiction_def)

lemma pred_option_conj: "pred_option (\<lambda>x. P x \<and> Q x) y \<longleftrightarrow> pred_option P y \<and> pred_option Q y"
  by (cases y) simp_all

lemma response_clause_iff:
  "validate_response_clause env request limits st clause = Inr st' \<longleftrightarrow>
     clause_grounded env request limits clause \<and>
     distinct (sc_contradicting_fact_ids clause) \<and> set (sc_contradicting_fact_ids clause) \<inter> rs_reconciled st = {} \<and>
     sy_clause_json env clause \<notin> rs_shapes st \<and>
     st' = \<lparr>rs_shapes = insert (sy_clause_json env clause) (rs_shapes st),
       rs_reconciled = rs_reconciled st \<union> set (sc_contradicting_fact_ids clause)\<rparr>"
proof -
  let ?S = "set (ep_supporting_fact_ids (sq_packet request))" and ?F = "fact_index (sq_facts request)"
  let ?shape = "\<lambda>s. validate_segment s ?S limits = Inr ()" and ?words = "\<lambda>s. validate_segment_text_support env s ?F = Inr ()"
  let ?role = "\<lambda>role s. validate_segment_role (sg_fact_ids s) ?F role = Inr ()"
  let ?ids = "\<lambda>q. validate_ids (qt_fact_ids q) ?S (sl_max_fact_ids_per_segment limits) False = Inr ()"
  let ?quant = "\<lambda>q. validate_quantifier q ?F = Inr ()"
  let ?rel = "ids_allowed (set (ep_relationship_ids (sq_packet request))) (sl_max_relationship_ids_per_clause limits) (sc_relationship_ids clause)"
  let ?con = "ids_allowed (set (ep_contradicting_fact_ids (sq_packet request))) (sl_max_fact_ids_per_segment limits) (sc_contradicting_fact_ids clause)"
  let ?apart = "supporting_fact_ids clause \<inter> set (sc_contradicting_fact_ids clause) = {}"
  let ?semantics = "validate_clause_semantics clause ?F (relationship_index (sq_relationships request)) = Inr ()"
  have seg: "segment_grounded env request limits role s \<longleftrightarrow> ?shape s \<and> ?role role s \<and> ?words s" for role s
    by (rule segment_validations [symmetric])
  have quant: "quantifier_grounded request limits q \<longleftrightarrow> ?ids q \<and> ?quant q" for q
    by (rule quantifier_validations [symmetric])
  have grounded: "clause_grounded env request limits clause \<longleftrightarrow>
      ?shape (sc_subject clause) \<and> ?shape (sc_action clause) \<and> pred_option ?shape (sc_condition clause) \<and>
      pred_option ?shape (sc_exception clause) \<and> pred_option ?ids (sc_quantifier clause) \<and> ?rel \<and> ?con \<and> ?apart \<and>
      ?semantics \<and> ?words (sc_subject clause) \<and> ?words (sc_action clause) \<and> pred_option ?words (sc_condition clause) \<and>
      pred_option ?words (sc_exception clause)"
  proof (cases "?shape (sc_subject clause) \<and> ?rel \<and> ?apart")
    case True
    have "sg_fact_ids (sc_subject clause) \<noteq> []" using True by (auto simp: validate_segment_def validate_ids_Inr split: if_splits)
    moreover have "distinct (sc_relationship_ids clause)" using True by (auto simp: ids_allowed_def sorted_unique_distinct)
    ultimately show ?thesis
      unfolding clause_grounded_def Let_def seg quant pred_option_conj
      using True clause_semantics_iff [of clause request] by blast
  next
    case False
    then show ?thesis unfolding clause_grounded_def Let_def seg by blast
  qed
  have mixes: "\<not> list_ex (\<lambda>i. i \<in> supporting_fact_ids clause) (sc_contradicting_fact_ids clause) \<longleftrightarrow> ?apart"
    by (auto simp: list_ex_iff)
  show ?thesis
    unfolding validate_response_clause_def Let_def and_then_unit_Inr guard_Inr and_then_Inr_iff reconcile_Inr
      validate_segments_Inr optional_validations validate_ids_Inr grounded mixes [symmetric]
    by (simp, safe)
qed

lemma response_clauses_iff:
  "try_fold (validate_response_clause env request limits) st clauses = Inr st' \<longleftrightarrow>
     list_all (clause_grounded env request limits) clauses \<and>
     distinct (concat (map sc_contradicting_fact_ids clauses)) \<and>
     set (concat (map sc_contradicting_fact_ids clauses)) \<inter> rs_reconciled st = {} \<and>
     distinct (map (sy_clause_json env) clauses) \<and> sy_clause_json env ` set clauses \<inter> rs_shapes st = {} \<and>
     st' = \<lparr>rs_shapes = rs_shapes st \<union> sy_clause_json env ` set clauses,
       rs_reconciled = rs_reconciled st \<union> set (concat (map sc_contradicting_fact_ids clauses))\<rparr>"
proof (induction clauses arbitrary: st)
  case Nil
  then show ?case by (cases st) auto
next
  case (Cons clause clauses)
  show ?case
    unfolding try_fold.simps and_then_Inr_iff response_clause_iff Cons.IH by auto
qed

definition response_addressed ::
  "ArchaeologySynthesisRequest \<Rightarrow> ArchaeologySynthesisLimits \<Rightarrow> ArchaeologySynthesisResponse \<Rightarrow> bool" where
  "response_addressed request limits response \<longleftrightarrow>
     sp_schema_version response = ARCHAEOLOGY_SYNTHESIS_SCHEMA_VERSION \<and>
     sp_contract_id response = ARCHAEOLOGY_SYNTHESIS_CONTRACT_ID \<and> sp_request_id response = sq_request_id request \<and>
     sp_packet_id response = ep_packet_id (sq_packet request) \<and> sp_clauses response \<noteq> [] \<and>
     length (sp_clauses response) \<le> sl_max_clauses limits"

lemma response_accepted_iff:
  "validate_synthesis_response env request response limits = Inr () \<longleftrightarrow>
     response_addressed request limits response \<and>
     list_all (clause_grounded env request limits) (sp_clauses response) \<and>
     distinct (concat (map sc_contradicting_fact_ids (sp_clauses response))) \<and>
     set (concat (map sc_contradicting_fact_ids (sp_clauses response))) = set (ep_contradicting_fact_ids (sq_packet request)) \<and>
     distinct (map (sy_clause_json env) (sp_clauses response)) \<and>
     len (sy_response_json env response) \<le> sl_max_response_bytes limits"
  unfolding validate_synthesis_response_def guard_Inr and_then_Inr_iff response_clauses_iff response_addressed_def
  by auto

text \<open>C37. A response of a provider is accepted exactly when it answers this request and every clause of it is grounded: every word
  comes from a label that its segment cites, every cited fact is positive evidence of the packet of a kind that fits its
  role, the cited relationships are resolved and trusted and connect all of the positive facts, and the contradictions of
  the packet are shared out over the clauses, each to one clause and by one relationship there.\<close>

theorem response_accepted_iff_grounded:
  "validate_synthesis_response env request response limits = Inr () \<longleftrightarrow>
     response_addressed request limits response \<and>
     list_all (clause_grounded env request limits) (sp_clauses response) \<and>
     distinct (concat (map sc_contradicting_fact_ids (sp_clauses response))) \<and>
     set (concat (map sc_contradicting_fact_ids (sp_clauses response))) = set (ep_contradicting_fact_ids (sq_packet request)) \<and>
     distinct (map (sy_clause_json env) (sp_clauses response)) \<and>
     len (sy_response_json env response) \<le> sl_max_response_bytes limits"
  by (rule response_accepted_iff)

section \<open>The canonical response\<close>

definition map_clause_segments ::
  "(ArchaeologySynthesisSegment \<Rightarrow> ArchaeologySynthesisSegment) \<Rightarrow> ArchaeologySynthesisClause \<Rightarrow> ArchaeologySynthesisClause" where
  "map_clause_segments f clause =
     clause\<lparr>sc_subject := f (sc_subject clause), sc_action := f (sc_action clause),
       sc_condition := map_option f (sc_condition clause), sc_exception := map_option f (sc_exception clause)\<rparr>"

text \<open>A clause without the words of its provider.\<close>

definition wordless :: "ArchaeologySynthesisClause \<Rightarrow> ArchaeologySynthesisClause" where
  "wordless = map_clause_segments (\<lambda>segment. segment\<lparr>sg_text := []\<rparr>)"

definition label_text :: "ArchaeologySynthesisRequest \<Rightarrow> ArchaeologySynthesisSegment \<Rightarrow> ArchaeologySynthesisSegment" where
  "label_text request segment = segment\<lparr>sg_text := join_str ''; ''
     (map (\<lambda>i. join_str '' '' (split_whitespace (sf_label (the (fact_index (sq_facts request) i))))) (sg_fact_ids segment))\<rparr>"

lemma label_text_idem: "label_text request (label_text request s) = label_text request s"
  "label_text request (s\<lparr>sg_text := w\<rparr>) = label_text request s"
  "(label_text request s)\<lparr>sg_text := w\<rparr> = s\<lparr>sg_text := w\<rparr>"
  by (simp_all add: label_text_def)

lemma map_clause_segments_comp: "map_clause_segments f (map_clause_segments g clause) = map_clause_segments (f \<circ> g) clause"
  by (simp add: map_clause_segments_def option.map_comp)

lemma label_clause:
  "map_clause_segments (label_text request) (map_clause_segments (label_text request) clause) = map_clause_segments (label_text request) clause"
  "map_clause_segments (label_text request) (wordless clause) = map_clause_segments (label_text request) clause"
  "wordless (map_clause_segments (label_text request) clause) = wordless clause"
  unfolding wordless_def map_clause_segments_comp comp_def label_text_idem by (rule refl)+

lemma try_map_known: "list_all (\<lambda>i. m i \<noteq> None) ids \<Longrightarrow> try_map (\<lambda>i. ok_or (map_option g (m i)) e) ids = Inr (map (\<lambda>i. g (the (m i))) ids)"
  by (induction ids) auto

lemma canonical_segment_known:
  assumes "list_all (plays_role request role) (sg_fact_ids segment)"
  shows "canonical_segment (fact_index (sq_facts request)) segment = Inr (label_text request segment)"
proof -
  have "list_all (\<lambda>i. fact_index (sq_facts request) i \<noteq> None) (sg_fact_ids segment)"
    using assms by (auto simp: list_all_iff plays_role_def)
  then show ?thesis
    by (simp add: canonical_segment_def canonical_segment_text_def try_map_known label_text_def)
qed

lemma canonical_clause_grounded:
  assumes "clause_grounded env request limits clause"
  shows "canonical_clause (fact_index (sq_facts request)) clause = Inr (map_clause_segments (label_text request) clause)"
proof -
  have optional: "canonical_optional (fact_index (sq_facts request)) x = Inr (map_option (label_text request) x)"
    if "pred_option (segment_grounded env request limits role) x" for x role
    using that canonical_segment_known [of request role] by (cases x) (simp_all add: canonical_optional_def segment_grounded_def)
  have "canonical_segment (fact_index (sq_facts request)) (sc_subject clause) = Inr (label_text request (sc_subject clause))"
    "canonical_segment (fact_index (sq_facts request)) (sc_action clause) = Inr (label_text request (sc_action clause))"
    using assms canonical_segment_known [of request Role_Subject] canonical_segment_known [of request Role_Action]
    by (simp_all add: clause_grounded_def Let_def segment_grounded_def)
  moreover have "canonical_optional (fact_index (sq_facts request)) (sc_condition clause) = Inr (map_option (label_text request) (sc_condition clause))"
    "canonical_optional (fact_index (sq_facts request)) (sc_exception clause) = Inr (map_option (label_text request) (sc_exception clause))"
    using assms optional [of Role_Condition] optional [of Role_Exception] by (simp_all add: clause_grounded_def Let_def)
  ultimately show ?thesis by (simp add: canonical_clause_def map_clause_segments_def)
qed

lemma try_map_all: "list_all (\<lambda>x. f x = Inr (g x)) xs \<Longrightarrow> try_map f xs = Inr (map g xs)"
  by (induction xs) auto

lemma canonicalize_Inr:
  "canonicalize_synthesis_response env request response limits = Inr canonical \<longleftrightarrow>
     validate_synthesis_response env request response limits = Inr () \<and>
     canonical = response\<lparr>sp_clauses := map (map_clause_segments (label_text request)) (sp_clauses response)\<rparr> \<and>
     validate_synthesis_response env request canonical limits = Inr ()"
proof (cases "validate_synthesis_response env request response limits = Inr ()")
  case True
  then have "list_all (clause_grounded env request limits) (sp_clauses response)" unfolding response_accepted_iff by blast
  then have "try_map (canonical_clause (fact_index (sq_facts request))) (sp_clauses response) =
      Inr (map (map_clause_segments (label_text request)) (sp_clauses response))"
    by (intro try_map_all) (auto simp: list_all_iff canonical_clause_grounded)
  then show ?thesis
    unfolding canonicalize_synthesis_response_def Let_def using True by (auto simp: and_then_unit_Inr)
next
  case False
  then show ?thesis unfolding canonicalize_synthesis_response_def and_then_unit_Inr by blast
qed

text \<open>C38. Nothing of the wording of a provider survives: two accepted responses that differ in their texts alone have one
  canonical response; it is the response with every text replaced by the labels of the facts the text cites
  (\<open>label_text\<close>), so it keeps every reference of the response, and to canonicalize it again changes nothing.\<close>

theorem provider_prose_never_survives:
  assumes "canonicalize_synthesis_response env request first limits = Inr canonical"
    and "canonicalize_synthesis_response env request second limits = Inr other"
    and "map wordless (sp_clauses first) = map wordless (sp_clauses second)"
  shows "canonical = other \<and>
    canonical = first\<lparr>sp_clauses := map (map_clause_segments (label_text request)) (sp_clauses first)\<rparr> \<and> map wordless (sp_clauses canonical) = map wordless (sp_clauses first) \<and>
    canonicalize_synthesis_response env request canonical limits = Inr canonical"
proof -
  let ?labelled = "map_clause_segments (label_text request)"
  have first: "validate_synthesis_response env request first limits = Inr ()"
    "canonical = first\<lparr>sp_clauses := map ?labelled (sp_clauses first)\<rparr>"
    "validate_synthesis_response env request canonical limits = Inr ()" using assms(1) unfolding canonicalize_Inr by blast+
  have second: "validate_synthesis_response env request second limits = Inr ()"
    "other = second\<lparr>sp_clauses := map ?labelled (sp_clauses second)\<rparr>" using assms(2) unfolding canonicalize_Inr by blast+
  have labels: "map ?labelled clauses = map ?labelled (map wordless clauses)" for clauses by (simp add: label_clause)
  have "map ?labelled (sp_clauses first) = map ?labelled (sp_clauses second)"
    unfolding labels [of "sp_clauses first"] labels [of "sp_clauses second"] assms(3) ..
  moreover have "response_addressed request limits first" "response_addressed request limits second"
    using first(1) second(1) unfolding response_accepted_iff by blast+
  ultimately have "canonical = other" unfolding first(2) second(2) by (simp add: response_addressed_def)
  moreover have "map wordless (sp_clauses canonical) = map wordless (sp_clauses first)"
    unfolding first(2) by (simp add: label_clause)
  moreover have "canonical = canonical\<lparr>sp_clauses := map ?labelled (sp_clauses canonical)\<rparr>"
    unfolding first(2) by (simp add: label_clause)
  ultimately show ?thesis using first(2,3) unfolding canonicalize_Inr by blast
qed

section \<open>The published sentence\<close>

text \<open>
  What a published sentence says, with nothing but the facts and relationships of the request: a cited fact is
  its kind and its quoted label, and every role of the clause is a list of cited facts under its heading.
\<close>

definition cited_fact :: "ArchaeologySynthesisRequest \<Rightarrow> string \<Rightarrow> string" where
  "cited_fact request i =
     (let f = the (fact_index (sq_facts request) i);
          label = map (\<lambda>c. if c = CHR 0x22 then CHR 0x27 else c) (join_str '' '' (split_whitespace (sf_label f)))
      in fact_kind_text (sf_kind f) @ '' '' @ [CHR 0x22] @ label @ [CHR 0x22])"

definition cited_list :: "ArchaeologySynthesisRequest \<Rightarrow> string \<Rightarrow> string list \<Rightarrow> string" where
  "cited_list request heading ids = heading @ join_str ''; '' (map (cited_fact request) ids) @ ''.''"

definition cited_link :: "ArchaeologySynthesisRequest \<Rightarrow> string \<Rightarrow> string" where
  "cited_link request i =
     (let r = the (relationship_index (sq_relationships request) i)
      in ''Relationship: '' @ cited_fact request (sr_from_fact_id r) @ '' '' @ relationship_verb (sr_kind r) @ '' '' @
         cited_fact request (sr_to_fact_id r) @ ''.'')"

definition quantified :: "ArchaeologySynthesisQuantifier \<Rightarrow> string" where
  "quantified q = ''Quantifier: '' @ quantifier_text (qt_kind q) @ '' of ''"

definition clause_sentence :: "ArchaeologySynthesisRequest \<Rightarrow> ArchaeologySynthesisClause \<Rightarrow> string" where
  "clause_sentence request clause = join_str '' ''
     ([cited_list request ''Subject: '' (sg_fact_ids (sc_subject clause))] @
      (case sc_condition clause of None \<Rightarrow> [] | Some s \<Rightarrow> [cited_list request ''Condition: '' (sg_fact_ids s)]) @
      [cited_list request ''Action: '' (sg_fact_ids (sc_action clause))] @
      (case sc_exception clause of None \<Rightarrow> [] | Some s \<Rightarrow> [cited_list request ''Exception evidence: '' (sg_fact_ids s)]) @
      (case sc_quantifier clause of None \<Rightarrow> [] | Some q \<Rightarrow> [cited_list request (quantified q) (qt_fact_ids q)]) @
      map (cited_link request) (sc_relationship_ids clause) @
      (if sc_contradicting_fact_ids clause = [] then []
       else [cited_list request ''Contradicting evidence: '' (sc_contradicting_fact_ids clause)]))"

text \<open>The number of facts that a sentence cites.\<close>

definition citation_count :: "ArchaeologySynthesisClause \<Rightarrow> nat" where
  "citation_count clause =
     length (sg_fact_ids (sc_subject clause)) + length (sg_fact_ids (sc_action clause)) +
     (case sc_condition clause of None \<Rightarrow> 0 | Some s \<Rightarrow> length (sg_fact_ids s)) +
     (case sc_exception clause of None \<Rightarrow> 0 | Some s \<Rightarrow> length (sg_fact_ids s)) +
     (case sc_quantifier clause of None \<Rightarrow> 0 | Some q \<Rightarrow> length (qt_fact_ids q)) +
     2 * length (sc_relationship_ids clause) + length (sc_contradicting_fact_ids clause)"

lemma count_join: "count_list sep c = 0 \<Longrightarrow> count_list (join_str sep ws) c = sum_list (map (\<lambda>w. count_list w c) ws)"
  by (induction sep ws rule: join_str.induct) simp_all

lemma cited_fact_quotes: "count_list (cited_fact request i) (CHR 0x22) = 2"
proof -
  have "count_list (map (\<lambda>c. if c = CHR 0x22 then CHR 0x27 else c) label) (CHR 0x22) = 0" for label
    by (induction label) simp_all
  moreover have "count_list (fact_kind_text kind) (CHR 0x22) = 0" for kind by (cases kind) simp_all
  ultimately show ?thesis unfolding cited_fact_def Let_def by simp
qed

lemma cited_list_quotes:
  "count_list heading (CHR 0x22) = 0 \<Longrightarrow> count_list (cited_list request heading ids) (CHR 0x22) = 2 * length ids"
  by (simp add: cited_list_def count_join comp_def cited_fact_quotes sum_list_triv)

lemma cited_link_quotes: "count_list (cited_link request i) (CHR 0x22) = 4"
proof -
  have "count_list (relationship_verb kind) (CHR 0x22) = 0" for kind by (cases kind) simp_all
  then show ?thesis by (simp add: cited_link_def Let_def cited_fact_quotes)
qed

lemma sentence_quotes: "count_list (clause_sentence request clause) (CHR 0x22) = 2 * citation_count clause"
proof -
  have "count_list (quantified q) (CHR 0x22) = 0" for q by (cases "qt_kind q") (simp_all add: quantified_def)
  then show ?thesis
    by (simp add: clause_sentence_def count_join comp_def cited_link_quotes cited_list_quotes sum_list_triv citation_count_def
        split: option.split)
qed

lemma canonical_fact_list_known:
  assumes "list_all (\<lambda>i. fact_index (sq_facts request) i \<noteq> None) ids"
  shows "canonical_fact_list ids (fact_index (sq_facts request)) = Inr (join_str ''; '' (map (cited_fact request) ids))"
proof -
  have "try_map (\<lambda>i. and_then (ok_or (fact_index (sq_facts request) i) ''Archaeology synthesis clause cites an unknown fact'') (\<lambda>f.
      let label = map (\<lambda>c. if c = CHR 0x22 then CHR 0x27 else c) (join_str '' '' (split_whitespace (sf_label f)))
      in Inr (fact_kind_text (sf_kind f) @ '' '' @ [CHR 0x22] @ label @ [CHR 0x22]))) ids = Inr (map (cited_fact request) ids)"
    by (rule try_map_all) (use assms in \<open>auto simp: list_all_iff cited_fact_def Let_def\<close>)
  then show ?thesis unfolding canonical_fact_list_def by simp
qed

lemma listed_part_known:
  "list_all (\<lambda>i. fact_index (sq_facts request) i \<noteq> None) ids \<Longrightarrow>
     listed_part (fact_index (sq_facts request)) heading ids = Inr (cited_list request heading ids)"
  by (simp add: listed_part_def canonical_fact_list_known cited_list_def)

lemma request_endpoints_known:
  assumes "validate_synthesis_request env request limits = Inr ()" "relationship_index (sq_relationships request) i = Some r"
  shows "fact_index (sq_facts request) (sr_from_fact_id r) \<noteq> None" "fact_index (sq_facts request) (sr_to_fact_id r) \<noteq> None"
proof -
  have request: "set (packet_fact_ids (sq_packet request)) = set (map sf_fact_id (sq_facts request))"
    "\<not> list_ex (\<lambda>r. \<not> synthesis_relationship_projected (set (packet_fact_ids (sq_packet request))) r) (sq_relationships request)"
    using assms(1) unfolding validate_synthesis_request_def Let_def guard_Inr and_then_unit_Inr by blast+
  have "r \<in> set (sq_relationships request)" using assms(2) by (auto simp: relationship_index_def dest!: map_of_SomeD)
  then have "sr_from_fact_id r \<in> set (packet_fact_ids (sq_packet request))" "sr_to_fact_id r \<in> set (packet_fact_ids (sq_packet request))"
    using request(2) by (auto simp: list_ex_iff synthesis_relationship_projected_def)
  then show "fact_index (sq_facts request) (sr_from_fact_id r) \<noteq> None" "fact_index (sq_facts request) (sr_to_fact_id r) \<noteq> None"
    unfolding request(1) fact_index_def map_of_eq_None_iff by (auto simp: image_iff)
qed

lemma request_packet_facts_known:
  assumes "validate_synthesis_request env request limits = Inr ()" "i \<in> set (packet_fact_ids (sq_packet request))"
  shows "fact_index (sq_facts request) i \<noteq> None"
proof -
  have "set (packet_fact_ids (sq_packet request)) = set (map sf_fact_id (sq_facts request))"
    using assms(1) unfolding validate_synthesis_request_def Let_def guard_Inr and_then_unit_Inr by blast
  then show ?thesis using assms(2) unfolding fact_index_def map_of_eq_None_iff by (auto simp: image_iff)
qed

lemma grounded_facts_known:
  assumes "clause_grounded env request limits clause"
  shows "list_all (\<lambda>i. fact_index (sq_facts request) i \<noteq> None) (sg_fact_ids (sc_subject clause))"
    "list_all (\<lambda>i. fact_index (sq_facts request) i \<noteq> None) (sg_fact_ids (sc_action clause))"
    "pred_option (\<lambda>s. list_all (\<lambda>i. fact_index (sq_facts request) i \<noteq> None) (sg_fact_ids s)) (sc_condition clause)"
    "pred_option (\<lambda>s. list_all (\<lambda>i. fact_index (sq_facts request) i \<noteq> None) (sg_fact_ids s)) (sc_exception clause)"
    "pred_option (\<lambda>q. list_all (\<lambda>i. fact_index (sq_facts request) i \<noteq> None) (qt_fact_ids q)) (sc_quantifier clause)"
proof -
  have seg: "list_all (\<lambda>i. fact_index (sq_facts request) i \<noteq> None) (sg_fact_ids s)"
    if "segment_grounded env request limits role s" for role s
    using that by (auto simp: segment_grounded_def list_all_iff plays_role_def)
  have quant: "list_all (\<lambda>i. fact_index (sq_facts request) i \<noteq> None) (qt_fact_ids q)"
    if "quantifier_grounded request limits q" for q
    using that by (auto simp: quantifier_grounded_def list_all_iff)
  note grounded = assms [unfolded clause_grounded_def Let_def]
  show "list_all (\<lambda>i. fact_index (sq_facts request) i \<noteq> None) (sg_fact_ids (sc_subject clause))"
    "list_all (\<lambda>i. fact_index (sq_facts request) i \<noteq> None) (sg_fact_ids (sc_action clause))"
    using grounded seg by blast+
  have optional: "pred_option Q x" if "pred_option R x" "\<And>s. R s \<Longrightarrow> Q s" for Q R and x :: "'x option"
    using that by (cases x) simp_all
  have options: "pred_option (segment_grounded env request limits Role_Condition) (sc_condition clause)"
    "pred_option (segment_grounded env request limits Role_Exception) (sc_exception clause)"
    "pred_option (quantifier_grounded request limits) (sc_quantifier clause)" using grounded by blast+
  show "pred_option (\<lambda>s. list_all (\<lambda>i. fact_index (sq_facts request) i \<noteq> None) (sg_fact_ids s)) (sc_condition clause)"
    by (rule optional [OF options(1) seg])
  show "pred_option (\<lambda>s. list_all (\<lambda>i. fact_index (sq_facts request) i \<noteq> None) (sg_fact_ids s)) (sc_exception clause)"
    by (rule optional [OF options(2) seg])
  show "pred_option (\<lambda>q. list_all (\<lambda>i. fact_index (sq_facts request) i \<noteq> None) (qt_fact_ids q)) (sc_quantifier clause)"
    by (rule optional [OF options(3) quant])
qed

lemma clause_text_known:
  assumes request: "validate_synthesis_request env request limits = Inr ()" and grounded: "clause_grounded env request limits clause"
  shows "canonical_synthesis_clause_text request clause =
    (if len (clause_sentence request clause) > 64 * 1024 \<or> synthesis_unsafe_text (clause_sentence request clause)
     then Inl ''Archaeology canonical synthesis clause exceeds its safety bound'' else Inr (clause_sentence request clause))"
proof -
  let ?F = "fact_index (sq_facts request)" and ?R = "relationship_index (sq_relationships request)"
  let ?roles = "[(''Subject: '', sg_fact_ids (sc_subject clause))] @
        (case sc_condition clause of None \<Rightarrow> [] | Some segment \<Rightarrow> [(''Condition: '', sg_fact_ids segment)]) @
        [(''Action: '', sg_fact_ids (sc_action clause))] @
        (case sc_exception clause of None \<Rightarrow> [] | Some segment \<Rightarrow> [(''Exception evidence: '', sg_fact_ids segment)]) @
        (case sc_quantifier clause of None \<Rightarrow> []
         | Some quantifier \<Rightarrow>
             [(''Quantifier: '' @ quantifier_text (qt_kind quantifier) @ '' of '', qt_fact_ids quantifier)])"
  have "list_all (\<lambda>x. (case x of (heading, ids) \<Rightarrow> listed_part ?F heading ids) = Inr (case x of (heading, ids) \<Rightarrow> cited_list request heading ids)) ?roles"
    using grounded_facts_known [OF grounded] by (auto simp: listed_part_known split: option.split)
  from try_map_all [OF this]
  have roles: "try_map (\<lambda>(heading, ids). listed_part ?F heading ids) ?roles = Inr (map (\<lambda>(heading, ids). cited_list request heading ids) ?roles)" .
  have "list_all (\<lambda>i. \<exists>r. ?R i = Some r \<and> cited_well (supporting_fact_ids clause) (set (sc_contradicting_fact_ids clause)) r)
      (sc_relationship_ids clause)" using grounded unfolding clause_grounded_def Let_def by (elim conjE)
  then have known: "\<forall>i\<in>set (sc_relationship_ids clause). \<exists>r. ?R i = Some r" by (auto simp: list_all_iff)
  have "relationship_part ?F ?R i = Inr (cited_link request i)" if cited: "i \<in> set (sc_relationship_ids clause)" for i
  proof -
    obtain r where r: "?R i = Some r" using bspec [OF known cited] by blast
    have "canonical_fact_list [sr_from_fact_id r] ?F = Inr (cited_fact request (sr_from_fact_id r))"
      "canonical_fact_list [sr_to_fact_id r] ?F = Inr (cited_fact request (sr_to_fact_id r))"
      using request_endpoints_known [OF request r] by (simp_all add: canonical_fact_list_known del: not_None_eq)
    then show ?thesis by (simp add: relationship_part_def r cited_link_def)
  qed
  then have links: "try_map (relationship_part ?F ?R) (sc_relationship_ids clause) = Inr (map (cited_link request) (sc_relationship_ids clause))"
    by (intro try_map_all) (simp add: list_all_iff)
  have "set (sc_contradicting_fact_ids clause) \<subseteq> set (packet_fact_ids (sq_packet request))"
    using grounded by (auto simp: clause_grounded_def Let_def ids_allowed_def packet_fact_ids_def)
  then have "list_all (\<lambda>i. ?F i \<noteq> None) (sc_contradicting_fact_ids clause)"
    using request_packet_facts_known [OF request] unfolding list_all_iff by blast
  note contradictions = listed_part_known [OF this, of "''Contradicting evidence: ''"]
  show ?thesis
    unfolding canonical_synthesis_clause_text_def clause_parts_def roles links contradictions and_then_simps
    by (simp add: clause_sentence_def quantified_def Let_def option.case_distrib [of "map _"] cong: option.case_cong)
qed

lemma sentence_wordless: "clause_sentence request (wordless clause) = clause_sentence request clause"
  by (simp add: clause_sentence_def wordless_def map_clause_segments_def option.case_eq_if option.map_sel)

text \<open>C39. Every clause of an accepted response to a valid request has a published sentence: the headed lists of the kinds and
  quoted labels of exactly the facts and relationships that the clause cites, subject first, then condition, action,
  exception, quantifier, relationships and contradictions. No citation is unknown, and the only failure is a sentence over
  64 KiB or of unsafe text. The sentence does not depend on the words of the provider, and no label can leave its quotes:
  there are exactly two quotation marks for every cited fact.\<close>

theorem published_sentence_total:
  assumes "validate_synthesis_request env request limits = Inr ()"
    and "validate_synthesis_response env request response limits = Inr ()" and "clause \<in> set (sp_clauses response)"
  shows "canonical_synthesis_clause_text request clause =
      (if len (clause_sentence request clause) > 64 * 1024 \<or> synthesis_unsafe_text (clause_sentence request clause)
       then Inl ''Archaeology canonical synthesis clause exceeds its safety bound'' else Inr (clause_sentence request clause)) \<and>
    canonical_synthesis_clause_text request clause = canonical_synthesis_clause_text request (wordless clause) \<and>
    clause_sentence request (wordless clause) = clause_sentence request clause \<and>
    count_list (clause_sentence request clause) (CHR 0x22) = 2 * citation_count clause"
proof (intro conjI)
  have "clause_grounded env request limits clause"
    using assms(2,3) unfolding response_accepted_iff list_all_iff by blast
  then show "canonical_synthesis_clause_text request clause =
      (if len (clause_sentence request clause) > 64 * 1024 \<or> synthesis_unsafe_text (clause_sentence request clause)
       then Inl ''Archaeology canonical synthesis clause exceeds its safety bound'' else Inr (clause_sentence request clause))"
    by (rule clause_text_known [OF assms(1)])
  have "clause_parts facts relationships (wordless clause) = clause_parts facts relationships clause" for facts relationships
    by (simp add: clause_parts_def wordless_def map_clause_segments_def option.case_eq_if option.map_sel)
  then show "canonical_synthesis_clause_text request clause = canonical_synthesis_clause_text request (wordless clause)"
    by (simp add: canonical_synthesis_clause_text_def)
qed (rule sentence_wordless, rule sentence_quotes)

section \<open>The request does not depend on the order of the evidence\<close>

lemma unique_map_eq:
  "unique_map identity label items = (if list_all synthesis_safe_id (map identity items) \<and> distinct (map identity items)
     then Inr (foldl (\<lambda>m v. bt_insert (identity v) v m) [] items)
     else Inl (''Archaeology synthesis '' @ label @ '' identity is invalid or duplicate''))"
proof -
  have keys: "fst ` set (foldl (\<lambda>m v. bt_insert (identity v) v m) m items) = fst ` set m \<union> identity ` set items" for m
    by (induction items arbitrary: m) auto
  have "try_fold (\<lambda>output value.
       if \<not> synthesis_safe_id (identity value) \<or> map_of output (identity value) \<noteq> None
       then Inl (''Archaeology synthesis '' @ label @ '' identity is invalid or duplicate'')
       else Inr (bt_insert (identity value) value output)) m items =
     (if list_all synthesis_safe_id (map identity items) \<and> distinct (map identity items) \<and>
         identity ` set items \<inter> fst ` set m = {}
      then Inr (foldl (\<lambda>m v. bt_insert (identity v) v m) m items)
      else Inl (''Archaeology synthesis '' @ label @ '' identity is invalid or duplicate''))" for m
  proof (induction items arbitrary: m)
    case (Cons v items)
    show ?case
    proof (cases "synthesis_safe_id (identity v) \<and> map_of m (identity v) = None")
      case True
      then have accepted: "(\<not> synthesis_safe_id (identity v) \<or> map_of m (identity v) \<noteq> None) = False" by simp
      have "identity v \<notin> fst ` set m" using True by (simp add: map_of_eq_None_iff)
      then have fresh: "(list_all synthesis_safe_id (map identity items) \<and> distinct (map identity items) \<and>
            identity ` set items \<inter> fst ` set (bt_insert (identity v) v m) = {}) \<longleftrightarrow>
          (list_all synthesis_safe_id (map identity (v # items)) \<and> distinct (map identity (v # items)) \<and>
            identity ` set (v # items) \<inter> fst ` set m = {})" using True by auto
      show ?thesis unfolding try_fold.simps accepted if_False and_then_simps Cons.IH fresh foldl.simps ..
    next
      case False
      then have refused: "(\<not> synthesis_safe_id (identity v) \<or> map_of m (identity v) \<noteq> None) = True" by simp
      then have "\<not> (list_all synthesis_safe_id (map identity (v # items)) \<and> distinct (map identity (v # items)) \<and>
          identity ` set (v # items) \<inter> fst ` set m = {})" by (auto simp: map_of_eq_None_iff)
      then show ?thesis unfolding try_fold.simps refused by simp
    qed
  qed simp
  from this [of "[]"] show ?thesis by (simp add: unique_map_def)
qed

lemma insertions_ok: "bt_ok m \<Longrightarrow> bt_ok (foldl (\<lambda>m v. bt_insert (identity v) v m) m items)"
  by (induction items arbitrary: m) (auto intro: bt_ok_insert)

lemma insertions_lookup:
  "distinct (map identity items) \<Longrightarrow> map_of (foldl (\<lambda>m v. bt_insert (identity v) v m) m items) =
     map_of m ++ (\<lambda>k. find (\<lambda>v. identity v = k) items)"
proof (induction items arbitrary: m)
  case (Cons v items)
  have "find (\<lambda>w. identity w = identity v) items = None"
    using Cons.prems by (auto simp: find_None_iff image_iff)
  then show ?case using Cons by (auto simp: map_add_def fun_eq_iff split: option.split)
qed (simp add: map_add_def)

lemma same_Some: "(\<And>v. a = Some v \<longleftrightarrow> b = Some v) \<Longrightarrow> a = b"
  by (cases a; cases b) force+

lemma unique_map_permuted:
  assumes "mset xs = mset ys"
  shows "unique_map identity label xs = unique_map identity label ys"
proof -
  have "set xs = set ys" by (rule mset_eq_setD [OF assms])
  have images: "mset (map identity xs) = mset (map identity ys)" using assms by simp
  have same: "list_all synthesis_safe_id (map identity xs) = list_all synthesis_safe_id (map identity ys)"
    "distinct (map identity xs) = distinct (map identity ys)"
    using \<open>set xs = set ys\<close> mset_eq_imp_distinct_iff [OF images] by (simp_all add: list_all_iff)
  have "foldl (\<lambda>m v. bt_insert (identity v) v m) [] xs = foldl (\<lambda>m v. bt_insert (identity v) v m) [] ys"
    if d: "distinct (map identity xs)"
  proof (rule btree.entries_canonical)
    show "bt_ok (foldl (\<lambda>m v. bt_insert (identity v) v m) [] xs)" "bt_ok (foldl (\<lambda>m v. bt_insert (identity v) v m) [] ys)"
      by (simp_all add: insertions_ok)
    have found: "find (\<lambda>v. identity v = k) zs = Some v \<longleftrightarrow> v \<in> set zs \<and> identity v = k" if "distinct (map identity zs)" for k v zs
      using that by (induction zs) (auto simp: image_iff)
    have both: "find (\<lambda>v. identity v = k) xs = Some v \<longleftrightarrow> find (\<lambda>v. identity v = k) ys = Some v" for k v
      unfolding found [OF d] found [OF d [unfolded same(2)]] \<open>set xs = set ys\<close> ..
    have "find (\<lambda>v. identity v = k) xs = find (\<lambda>v. identity v = k) ys" for k
      by (rule same_Some) (rule both)
    then show "map_of (foldl (\<lambda>m v. bt_insert (identity v) v m) [] xs) = map_of (foldl (\<lambda>m v. bt_insert (identity v) v m) [] ys)"
      unfolding insertions_lookup [OF d] insertions_lookup [OF d [unfolded same(2)]] by (simp only:)
  qed
  then show ?thesis unfolding unique_map_eq same by auto
qed

text \<open>C40. A request is a function of its evidence as a set: the order in which the facts and the relationships of a packet
  are given changes nothing, neither the request with its identity nor the error.\<close>

theorem build_request_order_independent:
  assumes "mset facts = mset facts'" "mset relationships = mset relationships'"
  shows "build_synthesis_request env repository_id generation_id revision_sha parser_identity algorithm_identity packet
      facts relationships cancel limits =
    build_synthesis_request env repository_id generation_id revision_sha parser_identity algorithm_identity packet
      facts' relationships' cancel limits"
proof -
  have lengths: "length facts = length facts'" "length relationships = length relationships'"
    using assms [THEN arg_cong [of _ _ size]] by simp_all
  have spans: "set (concat (map af_span_ids facts) @ concat (map fe_evidence_span_ids relationships)) =
      set (concat (map af_span_ids facts') @ concat (map fe_evidence_span_ids relationships'))"
    using assms [THEN mset_eq_setD] by simp
  show ?thesis
    unfolding build_synthesis_request_def unique_map_permuted [OF assms(1)] unique_map_permuted [OF assms(2)] lengths spans ..
qed

section \<open>Samples\<close>

definition sample_synthesis_env :: synthesis_env where
  "sample_synthesis_env =
     \<lparr>sy_sha256 = (\<lambda>s. []), sy_request_json = (\<lambda>_. []), sy_response_json = (\<lambda>_. []), sy_clause_json = (\<lambda>_. []),
      sy_parse_response = (\<lambda>_. None), sy_is_alphanumeric = (\<lambda>u. case u of [c] \<Rightarrow> is_ascii_alphanumeric c | _ \<Rightarrow> False),
      sy_to_lowercase = to_ascii_lowercase\<rparr>"

definition sample_packet_draft :: ArchaeologyEvidencePacket where
  "sample_packet_draft = \<lparr>ep_packet_id = [], ep_kind = Rule_Calculation, ep_anchor_fact_id = ''f1'',
     ep_supporting_fact_ids = [''f1''], ep_contradicting_fact_ids = [], ep_relationship_ids = [], ep_evidence_span_ids = [''s1''],
     ep_unresolved_fact_ids = [], ep_unresolved_reasons = [], ep_confidence = Confidence_High, ep_caveats = []\<rparr>"

definition sample_sha :: string where
  "sample_sha = ''aaaaaaaaaaaaaaaaaaaaaaaaaaaaaaaaaaaaaaaa''"

definition sample_packet :: ArchaeologyEvidencePacket where
  "sample_packet = sample_packet_draft\<lparr>ep_packet_id := expected_packet_id ''repo'' sample_sha sample_packet_draft\<rparr>"

definition sample_source_fact :: ArchaeologyFact where
  "sample_source_fact = \<lparr>af_fact_id = ''f1'', af_kind = Fact_Calculation, af_label = ''Net total'', af_span_ids = [''s1''],
     af_parser_id = ''p'', af_trust = ArchaeologyTrust.Trust_Extracted, af_confidence = Confidence_High, af_attributes = []\<rparr>"

definition sample_request :: ArchaeologySynthesisRequest where
  "sample_request = \<lparr>sq_schema_version = 1, sq_contract_id = ARCHAEOLOGY_SYNTHESIS_CONTRACT_ID, sq_request_id = ''sha256:'',
     sq_repository_id = ''repo'', sq_generation_id = ''g'', sq_revision_sha = sample_sha, sq_parser_identity = ''p'',
     sq_algorithm_identity = ''a'', sq_packet = sample_packet,
     sq_facts = [\<lparr>sf_fact_id = ''f1'', sf_kind = Fact_Calculation, sf_label = ''Net total'', sf_trust = ArchaeologyTrust.Trust_Extracted,
       sf_confidence = Confidence_High, sf_quantifier_kinds = []\<rparr>],
     sq_relationships = []\<rparr>"

definition sample_response :: "string \<Rightarrow> string \<Rightarrow> ArchaeologySynthesisResponse" where
  "sample_response words deed = \<lparr>sp_schema_version = 1, sp_contract_id = ARCHAEOLOGY_SYNTHESIS_CONTRACT_ID, sp_request_id = ''sha256:'',
     sp_packet_id = ep_packet_id sample_packet,
     sp_clauses = [\<lparr>sc_subject = \<lparr>sg_text = words, sg_fact_ids = [''f1'']\<rparr>, sc_condition = None,
       sc_action = \<lparr>sg_text = deed, sg_fact_ids = [''f1'']\<rparr>, sc_exception = None, sc_quantifier = None,
       sc_relationship_ids = [], sc_contradicting_fact_ids = []\<rparr>]\<rparr>"

lemmas safe_text_eval = synthesis_safe_id_def safe_text_def synthesis_unsafe_text_def contains_sensitive_path_def
  is_sensitive_path_def normal_path_def sensitive_name_def sensitive_names_def sensitive_segments_def last_segment_def
  trim_bytes_def SLASH_def unit_in_def looks_like_secret_def secret_markers_def contains_basic_auth_url_def
  is_cloud_access_key_def contains_credential_assignment_def credential_keys_def credential_candidate_def
  contains_absolute_path_def path_separators_def is_drive_path_def Let_def

lemma sample_texts: "safe_text ''net'' 1024" "safe_text ''the net total'' 1024" "safe_text ''Net total'' 1024"
  "synthesis_safe_id ''f1''"
  by (simp_all add: text_eval safe_text_eval)

lemma sample_tokens: "semantic_tokens sample_synthesis_env ''net'' = [''net'']"
  "semantic_tokens sample_synthesis_env ''the net total'' = [''the'', ''net'', ''total'']"
  "semantic_tokens sample_synthesis_env ''Net total'' = [''net'', ''total'']"
  by (simp_all add: semantic_tokens_def sample_synthesis_env_def text_eval char_of_eq_iff)

definition sample_wording :: "string \<Rightarrow> bool" where
  "sample_wording words \<longleftrightarrow> words \<in> {''net'', ''the net total'', ''Net total''}"

lemma sample_index:
  "fact_index (sq_facts sample_request) ''f1'' = Some \<lparr>sf_fact_id = ''f1'', sf_kind = Fact_Calculation, sf_label = ''Net total'',
     sf_trust = ArchaeologyTrust.Trust_Extracted, sf_confidence = Confidence_High, sf_quantifier_kinds = []\<rparr>"
  by (simp add: fact_index_def sample_request_def)

lemma sample_segment_grounded:
  assumes "sample_wording w" "role = Role_Subject \<or> role = Role_Action"
  shows "segment_grounded sample_synthesis_env sample_request synthesis_limits_default role \<lparr>sg_text = w, sg_fact_ids = [''f1'']\<rparr>"
proof -
  have packet: "ep_supporting_fact_ids (sq_packet sample_request) = [''f1'']"
    by (simp add: sample_request_def sample_packet_def sample_packet_draft_def)
  have words: "safe_text w 1024" "list_all (word_supported sample_synthesis_env sample_request [''f1'']) (semantic_tokens sample_synthesis_env w)"
    using assms(1) by (auto simp: sample_wording_def sample_texts sample_tokens word_supported_def sample_index function_words_def)
  have "plays_role sample_request role ''f1''" using assms(2) by (auto simp: plays_role_def sample_index)
  then show ?thesis
    using words by (simp add: segment_grounded_def synthesis_limits_default_def ids_allowed_def sample_texts packet)
qed

lemma sample_response_accepted:
  assumes "sample_wording words" "sample_wording deed"
  shows "validate_synthesis_response sample_synthesis_env sample_request (sample_response words deed) synthesis_limits_default = Inr ()"
proof -
  have "list_all (clause_grounded sample_synthesis_env sample_request synthesis_limits_default) (sp_clauses (sample_response words deed))"
    using sample_segment_grounded [OF assms(1)] sample_segment_grounded [OF assms(2)]
    by (simp add: sample_response_def clause_grounded_def Let_def supporting_fact_ids_def ids_allowed_def)
  then show ?thesis
    unfolding response_accepted_iff
    by (simp add: response_addressed_def sample_response_def sample_request_def sample_packet_def sample_packet_draft_def
        ARCHAEOLOGY_SYNTHESIS_SCHEMA_VERSION_def synthesis_limits_default_def sample_synthesis_env_def)
qed

lemma sample_canonical:
  assumes "sample_wording words" "sample_wording deed"
  shows "canonicalize_synthesis_response sample_synthesis_env sample_request (sample_response words deed) synthesis_limits_default =
    Inr (sample_response ''Net total'' ''Net total'')"
proof -
  have "split_whitespace ''Net total'' = [''Net'', ''total'']" by (simp add: text_eval)
  then have "sample_response ''Net total'' ''Net total'' = (sample_response words deed)
      \<lparr>sp_clauses := map (map_clause_segments (label_text sample_request)) (sp_clauses (sample_response words deed))\<rparr>"
    by (simp add: sample_response_def map_clause_segments_def label_text_def sample_index)
  then show ?thesis
    unfolding canonicalize_Inr using sample_response_accepted [OF assms]
      sample_response_accepted [of "''Net total''" "''Net total''"] by (simp add: sample_wording_def)
qed

theorem provider_prose_never_survives_witness:
  "\<exists>canonical. canonicalize_synthesis_response sample_synthesis_env sample_request (sample_response ''the net total'' ''net'')
      synthesis_limits_default = Inr canonical \<and>
     canonicalize_synthesis_response sample_synthesis_env sample_request canonical synthesis_limits_default = Inr canonical"
proof -
  have same: "map wordless (sp_clauses (sample_response ''the net total'' ''net'')) = map wordless (sp_clauses (sample_response ''net'' ''Net total''))"
    by (simp add: sample_response_def wordless_def map_clause_segments_def)
  have first: "canonicalize_synthesis_response sample_synthesis_env sample_request (sample_response ''the net total'' ''net'')
      synthesis_limits_default = Inr (sample_response ''Net total'' ''Net total'')"
    by (rule sample_canonical) (simp_all add: sample_wording_def)
  have second: "canonicalize_synthesis_response sample_synthesis_env sample_request (sample_response ''net'' ''Net total'')
      synthesis_limits_default = Inr (sample_response ''Net total'' ''Net total'')"
    by (rule sample_canonical) (simp_all add: sample_wording_def)
  show ?thesis using provider_prose_never_survives [OF first second same] first by blast
qed

definition sample_other_fact :: ArchaeologyFact where
  "sample_other_fact = sample_source_fact\<lparr>af_fact_id := ''f2''\<rparr>"

text \<open>A packet with two supporting facts, given in either order, builds a request.\<close>

definition pair_draft :: ArchaeologyEvidencePacket where
  "pair_draft = sample_packet_draft\<lparr>ep_supporting_fact_ids := [''f1'', ''f2'']\<rparr>"

definition pair_packet :: ArchaeologyEvidencePacket where
  "pair_packet = pair_draft\<lparr>ep_packet_id := expected_packet_id ''repo'' sample_sha pair_draft\<rparr>"

definition pair_request :: ArchaeologySynthesisRequest where
  "pair_request = sample_request\<lparr>sq_packet := pair_packet,
     sq_facts := sq_facts sample_request @ map (\<lambda>f. f\<lparr>sf_fact_id := ''f2''\<rparr>) (sq_facts sample_request)\<rparr>"

lemma pair_packet_id: "ep_packet_id pair_packet = ''archaeology-packet:8069dd415e214c8b''"
  by code_simp

lemma pair_packet_simps:
  "ep_supporting_fact_ids pair_packet = [''f1'', ''f2'']" "packet_fact_ids pair_packet = [''f1'', ''f2'']"
  "ep_relationship_ids pair_packet = []" "ep_evidence_span_ids pair_packet = [''s1'']"
  "expected_packet_id ''repo'' sample_sha pair_packet = ep_packet_id pair_packet"
  by (simp_all add: pair_packet_def pair_draft_def sample_packet_draft_def packet_fact_ids_def expected_packet_id_def)

lemma sample_ids: "synthesis_safe_id ''f2''" "synthesis_safe_id ''archaeology-packet:8069dd415e214c8b''" "synthesis_safe_id ''s1''"
  by (simp_all add: text_eval safe_text_eval)

lemma pair_packet_shape: "validate_packet_shape pair_packet synthesis_limits_default = Inr ()"
proof -
  have "synthesis_safe_id (ep_packet_id pair_packet)" unfolding pair_packet_id by (rule sample_ids)
  then show ?thesis
    by (simp add: validate_packet_shape_def pair_packet_def pair_draft_def sample_packet_draft_def synthesis_limits_default_def
        sample_texts sample_ids roles_are_disjoint_def packet_metadata_is_categorical_def packet_fact_ids_def)
qed

lemma sample_scope: "scope_is_safe ''repo'' ''g'' sample_sha ''p'' ''a''"
  by (simp add: scope_is_safe_def text_eval safe_text_eval validate_revision_sha_def sample_sha_def lower_hex_byte_def)

lemma pair_request_valid: "validate_synthesis_request sample_synthesis_env pair_request synthesis_limits_default = Inr ()"
proof -
  have "request_identity sample_synthesis_env pair_request = ''sha256:''"
    by (simp add: request_identity_def sample_synthesis_env_def hex_def)
  then show ?thesis
    using sample_scope pair_packet_shape
    by (simp add: validate_synthesis_request_def Let_def pair_request_def sample_request_def ARCHAEOLOGY_SYNTHESIS_SCHEMA_VERSION_def
        synthesis_limits_default_def synthesis_fact_projected_def sample_texts sample_ids trusted_source_def sample_synthesis_env_def
        pair_packet_simps)
qed

lemma sample_kinds: "quantifier_kinds_from_evidence sample_synthesis_env ''Net total'' [] = []"
  by (simp add: quantifier_kinds_from_evidence_def sample_tokens quantifier_kinds_def contains_token_phrase_def)

lemma pair_request_built:
  "build_synthesis_request sample_synthesis_env ''repo'' ''g'' sample_sha ''p'' ''a'' pair_packet
      [sample_source_fact, sample_other_fact] [] (\<lambda>_. False) synthesis_limits_default = Inr pair_request"
proof -
  have map: "unique_map af_fact_id ''fact'' [sample_source_fact, sample_other_fact] = Inr [(''f1'', sample_source_fact), (''f2'', sample_other_fact)]"
    by (simp add: unique_map_def sample_source_fact_def sample_other_fact_def sample_texts sample_ids)
  have facts: "try_map (request_fact sample_synthesis_env (\<lambda>_. False) pair_packet synthesis_limits_default)
      (enumerate 1 [sample_source_fact, sample_other_fact]) = Inr (sq_facts pair_request)"
    by (simp add: request_fact_def synthesis_cancelled_def sample_source_fact_def sample_other_fact_def sample_texts sample_kinds
        trusted_source_def pair_packet_simps pair_request_def sample_request_def synthesis_limits_default_def)
  have identity: "pair_request = \<lparr>sq_schema_version = ARCHAEOLOGY_SYNTHESIS_SCHEMA_VERSION, sq_contract_id = ARCHAEOLOGY_SYNTHESIS_CONTRACT_ID,
      sq_request_id = ''sha256:'', sq_repository_id = ''repo'', sq_generation_id = ''g'',
      sq_revision_sha = sample_sha, sq_parser_identity = ''p'', sq_algorithm_identity = ''a'', sq_packet = pair_packet,
      sq_facts = sq_facts pair_request, sq_relationships = []\<rparr>"
    by (simp add: pair_request_def sample_request_def ARCHAEOLOGY_SYNTHESIS_SCHEMA_VERSION_def sample_synthesis_env_def hex_def)
  have hash: "hex (sy_sha256 sample_synthesis_env payload) = []" for payload by (simp add: sample_synthesis_env_def hex_def)
  have edges: "unique_map fe_edge_id ''relationship'' [] = Inr []" by (simp add: unique_map_def)
  have bounds: "sl_max_facts synthesis_limits_default \<ge> 2" by (simp add: synthesis_limits_default_def)
  show ?thesis
    unfolding build_synthesis_request_def map edges and_then_simps list.map snd_conv facts Let_def
    using bounds pair_packet_shape pair_request_valid sample_scope
    by (simp add: synthesis_cancelled_def pair_packet_simps sample_source_fact_def sample_other_fact_def hash flip: identity)
qed

theorem build_request_order_independent_witness:
  "build_synthesis_request sample_synthesis_env ''repo'' ''g'' sample_sha ''p'' ''a'' pair_packet
      [sample_other_fact, sample_source_fact] [] (\<lambda>_. False) synthesis_limits_default = Inr pair_request"
  using build_request_order_independent [of "[sample_other_fact, sample_source_fact]" "[sample_source_fact, sample_other_fact]" "[]" "[]"]
    pair_request_built by simp

lemma sample_packet_id: "ep_packet_id sample_packet = ''archaeology-packet:8b76ed4bf8619939''"
  by code_simp

lemma sample_packet_shape: "validate_packet_shape sample_packet synthesis_limits_default = Inr ()"
proof -
  have "synthesis_safe_id ''archaeology-packet:8b76ed4bf8619939''" "synthesis_safe_id ''s1''" by (simp_all add: text_eval safe_text_eval)
  then have "synthesis_safe_id (ep_packet_id sample_packet)" "synthesis_safe_id ''s1''" unfolding sample_packet_id .
  then show ?thesis
    by (simp add: validate_packet_shape_def sample_packet_def sample_packet_draft_def synthesis_limits_default_def sample_texts
        roles_are_disjoint_def packet_metadata_is_categorical_def packet_fact_ids_def)
qed

lemma sample_request_valid: "validate_synthesis_request sample_synthesis_env sample_request synthesis_limits_default = Inr ()"
proof -
  have "ep_packet_id sample_packet = expected_packet_id ''repo'' sample_sha sample_packet"
    by (simp add: sample_packet_def sample_packet_draft_def expected_packet_id_def)
  moreover have "packet_fact_ids sample_packet = [''f1'']" "ep_relationship_ids sample_packet = []"
    by (simp_all add: sample_packet_def sample_packet_draft_def packet_fact_ids_def)
  moreover have "request_identity sample_synthesis_env sample_request = ''sha256:''"
    by (simp add: request_identity_def sample_synthesis_env_def hex_def)
  ultimately show ?thesis
    using sample_scope sample_packet_shape
    by (simp add: validate_synthesis_request_def Let_def sample_request_def ARCHAEOLOGY_SYNTHESIS_SCHEMA_VERSION_def
        synthesis_limits_default_def synthesis_fact_projected_def sample_texts trusted_source_def sample_synthesis_env_def)
qed

lemma no_occurrence: "c \<in> set p \<Longrightarrow> c \<notin> set s \<Longrightarrow> find_str s p = None"
  by (cases "find_str s p") (auto dest!: find_str_Some)

lemma token_chars: "w \<in> set (split_on P s) \<Longrightarrow> set w \<subseteq> set s"
proof -
  have "\<forall>w\<in>set (split_units P us). set w \<subseteq> set (concat us)" for us
  proof (induction us)
    case (Cons u us)
    then show ?case by (cases "split_units P us") auto
  qed simp
  from this [of "utf8_units s"] show "w \<in> set (split_on P s) \<Longrightarrow> set w \<subseteq> set s"
    unfolding split_on_def concat_utf8_units by auto
qed

text \<open>A text without the letters and signs that every marker, key, name and path of the policy has one of.\<close>

definition telltale :: string where "telltale = ''/-_=rpkvdzhw''"

definition plain_text :: "string \<Rightarrow> bool" where
  "plain_text s \<longleftrightarrow> set (to_ascii_lowercase s) \<inter> set telltale = {} \<and> CHR ''I'' \<notin> set s \<and> CHR 0x5C \<notin> set s \<and> CHR 0x00 \<notin> set s"

definition tells :: "string \<Rightarrow> bool" where "tells p \<longleftrightarrow> list_ex (\<lambda>c. c \<in> set telltale) p"

lemma lower_same: "c \<in> set s \<Longrightarrow> to_ascii_lower_byte c \<in> set (to_ascii_lowercase s)"
  by (simp add: to_ascii_lowercase_def)

lemma plain_absent: "plain_text s \<Longrightarrow> CHR ''/'' \<notin> set s \<and> CHR ''K'' \<notin> set s"
proof -
  have "to_ascii_lower_byte (CHR ''/'') = CHR ''/''" "to_ascii_lower_byte (CHR ''K'') = CHR ''k''"
    by (simp_all add: to_ascii_lower_byte_def is_ascii_uppercase_def char_of_eq_iff)
  then show "plain_text s \<Longrightarrow> CHR ''/'' \<notin> set s \<and> CHR ''K'' \<notin> set s"
    using lower_same [of "CHR ''/''" s] lower_same [of "CHR ''K''" s] by (auto simp: plain_text_def telltale_def)
qed

lemma plain_subset: "plain_text s \<Longrightarrow> set w \<subseteq> set s \<Longrightarrow> plain_text w"
  by (auto simp: plain_text_def to_ascii_lowercase_def)

lemma plain_no_match:
  assumes "set l \<inter> set telltale = {}" "tells p"
  shows "find_str l p = None" "\<not> starts_with l p" "\<not> ends_with l p" "l \<noteq> p"
proof -
  obtain c where c: "c \<in> set p" "c \<notin> set l" using assms by (auto simp: tells_def list_ex_iff)
  then show none: "find_str l p = None" by (rule no_occurrence)
  have "l \<noteq> a @ p @ b" for a b using c by auto
  from this [of "[]"] this [of _ "[]"] this [of "[]" "[]"]
  show "\<not> starts_with l p" "\<not> ends_with l p" "l \<noteq> p" by (auto simp: ends_with_def starts_with_iff) (metis rev_append rev_rev_ident)
qed

lemma sensitive_all_tell:
  "list_all tells sensitive_names" "list_all tells [''.pem'', ''.key'', ''.p12'', ''.pfx'', ''.jks'', ''.keystore'']"
  "tells ''.env.''" "tells ''terraform.tfstate''" "tells ''terraform.tfstate.''" "tells ''service-account''" "tells ''service_account''"
  by (simp_all add: sensitive_names_def tells_def telltale_def)

lemma secrets_all_tell:
  "list_all (\<lambda>m. tells (to_ascii_lowercase m)) secret_markers" "tells ''bearer ''"
  "list_all (\<lambda>key. tells (key @ ''='') \<and> tells (key @ '':'') \<and> tells (key @ '' ='')) credential_keys"
  by (simp_all add: secret_markers_def credential_keys_def tells_def telltale_def text_eval char_of_eq_iff)

lemma plain_not_sensitive:
  assumes p: "plain_text s"
  shows "\<not> is_sensitive_path s"
proof -
  define l where "l = to_ascii_lowercase s"
  have l: "set l \<inter> set telltale = {}" using p by (simp add: plain_text_def l_def)
  have "map (\<lambda>c. if c = CHR 0x5C then SLASH else c) s = s"
    using p by (intro map_idI) (auto simp: plain_text_def)
  then have n: "normal_path s = l" by (simp add: normal_path_def l_def)
  have "set (last_segment l) \<subseteq> set l" unfolding last_segment_def using set_takeWhileD by fastforce
  then have name: "set (last_segment l) \<inter> set telltale = {}" using l by blast
  note miss = plain_no_match [OF name]
  have "\<not> sensitive_name (last_segment l)"
    unfolding sensitive_name_def contains_str_def
    using sensitive_all_tell(2-) miss bspec [OF sensitive_all_tell(1) [unfolded list_all_iff], of "last_segment l"]
      miss(4) [of "last_segment l"] by (auto simp: list_ex_iff)
  moreover have "\<not> contains_str (''/'' @ trim_bytes {SLASH} l @ ''/'') seg" if "seg \<in> set sensitive_segments" for seg
  proof -
    have "set (trim_bytes {SLASH} l) \<subseteq> set l"
      unfolding trim_bytes_def by (auto dest!: set_dropWhileD)
    moreover have "list_ex (\<lambda>c. c \<in> set ''rkhw'') seg" using that by (auto simp: sensitive_segments_def)
    then obtain c where "c \<in> set seg" "c \<in> set ''rkhw''" unfolding list_ex_iff by blast
    moreover have "set ''rkhw'' \<subseteq> set telltale" "SLASH \<notin> set ''rkhw''" by (simp_all add: telltale_def SLASH_def)
    ultimately have "c \<notin> set (''/'' @ trim_bytes {SLASH} l @ ''/'')" using l by (auto simp: SLASH_def)
    from no_occurrence [OF \<open>c \<in> set seg\<close> this] show ?thesis unfolding contains_str_def by simp
  qed
  ultimately show ?thesis unfolding is_sensitive_path_def n Let_def by (auto simp: list_ex_iff)
qed

lemma plain_text_is_safe:
  assumes p: "plain_text s"
  shows "\<not> synthesis_unsafe_text s"
proof -
  define l where "l = to_ascii_lowercase s"
  have l: "set l \<inter> set telltale = {}" using p by (simp add: plain_text_def l_def)
  have token: "plain_text w" if "w \<in> set (split_on P s)" for P w by (rule plain_subset [OF p token_chars [OF that]])
  have "CHR 0x00 \<notin> set s" using p by (simp add: plain_text_def)
  moreover have "\<not> contains_sensitive_path s"
  proof -
    have "plain_text (trim_bytes cs w)" if "w \<in> set (split_on P s)" for P w cs
      by (rule plain_subset [OF token [OF that]]) (auto simp: trim_bytes_def dest!: set_dropWhileD)
    then show ?thesis unfolding contains_sensitive_path_def using plain_not_sensitive p by (auto simp: list_ex_iff)
  qed
  moreover have "\<not> contains_absolute_path s"
  proof -
    have "\<not> (let normalized = map (\<lambda>c. if c = CHR 0x5C then SLASH else c) w
       in starts_with normalized [SLASH] \<or> starts_with (to_ascii_lowercase normalized) ''file:/'' \<or> is_drive_path normalized)"
      if "w \<in> set (split_on P s)" for P w
    proof -
      note w = token [OF that]
      have same: "map (\<lambda>c. if c = CHR 0x5C then SLASH else c) w = w" using w by (intro map_idI) (auto simp: plain_text_def)
      have "SLASH \<notin> set w" using plain_absent [OF w] by (simp add: SLASH_def)
      then have "\<not> starts_with w [SLASH]" "\<not> is_drive_path w"
        by (auto simp: starts_with_iff is_drive_path_def split: list.split)
      moreover have "\<not> starts_with (to_ascii_lowercase w) ''file:/''"
        by (rule plain_no_match(2)) (use w in \<open>simp_all add: plain_text_def tells_def telltale_def\<close>)
      ultimately show ?thesis unfolding Let_def same by blast
    qed
    then show ?thesis unfolding contains_absolute_path_def list_ex_iff by auto
  qed
  moreover have "\<not> looks_like_secret s"
  proof -
    have "\<not> contains_basic_auth_url s"
    proof -
      have "find_str w ''://'' = None" if "w \<in> set (split_on P s)" for P w
        by (rule no_occurrence [of "CHR ''/''"]) (use plain_absent [OF token [OF that]] in simp_all)
      then show ?thesis by (auto simp: contains_basic_auth_url_def list_ex_iff split_whitespace_def)
    qed
    moreover have "\<not> is_cloud_access_key w" if "w \<in> set (split_on P s)" for P w
      using plain_absent [OF token [OF that]] token [OF that] by (auto simp: is_cloud_access_key_def starts_with_iff plain_text_def)
    moreover have "\<not> contains_credential_assignment s"
      unfolding contains_credential_assignment_def Let_def l_def [symmetric]
      using secrets_all_tell(3) plain_no_match(1) [OF l] by (auto simp: list_all_iff list_ex_iff)
    ultimately show ?thesis
      unfolding looks_like_secret_def Let_def l_def [symmetric] contains_str_def
      using secrets_all_tell(1,2) plain_no_match(1) [OF l] by (auto simp: list_all_iff list_ex_iff)
  qed
  ultimately show ?thesis by (simp add: synthesis_unsafe_text_def)
qed

definition sample_sentence :: string where
  "sample_sentence = ''Subject: calculation '' @ [CHR 0x22] @ ''Net total'' @ [CHR 0x22] @ ''. Action: calculation '' @
     [CHR 0x22] @ ''Net total'' @ [CHR 0x22] @ ''.''"

lemma sample_sentence_safe: "\<not> synthesis_unsafe_text sample_sentence"
  by (rule plain_text_is_safe) (simp add: plain_text_def sample_sentence_def telltale_def text_eval char_of_eq_iff)

theorem published_sentence_total_witness:
  "\<exists>clause\<in>set (sp_clauses (sample_response ''the net total'' ''net'')).
     canonical_synthesis_clause_text sample_request clause = Inr sample_sentence"
proof -
  let ?clause = "hd (sp_clauses (sample_response ''the net total'' ''net''))"
  have accepted: "validate_synthesis_response sample_synthesis_env sample_request (sample_response ''the net total'' ''net'')
      synthesis_limits_default = Inr ()" by (rule sample_response_accepted) (simp_all add: sample_wording_def)
  have clause: "?clause \<in> set (sp_clauses (sample_response ''the net total'' ''net''))" by (simp add: sample_response_def)
  have "split_whitespace ''Net total'' = [''Net'', ''total'']" by (simp add: text_eval)
  then have "clause_sentence sample_request ?clause = sample_sentence"
    by (simp add: clause_sentence_def cited_list_def cited_fact_def sample_index sample_response_def sample_sentence_def)
  then show ?thesis
    using published_sentence_total [OF sample_request_valid accepted clause] clause sample_sentence_safe
    by (intro bexI [of _ ?clause]) (simp_all add: sample_sentence_def)
qed

end
