(* ===== verification/Mcp_Sanitize.thy ===== *)
theory Mcp_Sanitize
  imports Secret_Policy
begin

text \<open>
  What leaves the MCP server (\<open>mcp/sanitize.rs\<close>): every answer is a JSON value whose texts are checked
  against the secret policy, against absolute paths and against e-mail addresses, and whose excerpts
  are cut to a bound at a character boundary. The length of the serialized answer is a parameter.
\<close>

section \<open>JSON values\<close>

text \<open>A value of \<open>serde_json\<close>: an object is its list of entries, the form of a number is left open.\<close>

datatype 'n json =
  JNull
| JBool bool
| JNumber 'n
| JString string
| JArray "'n json list"
| JObject "(string \<times> 'n json) list"

lemma entry_size [termination_simp]:
  "(k, v) \<in> set m \<Longrightarrow> size v < Suc (size_list (size_prod size size) m)"
  by (induction m) auto

section \<open>What a text may not hold\<close>

definition OMITTED :: string where
  "OMITTED = ''[redacted]''"

definition MAX_EXCERPT_BYTES :: nat where "MAX_EXCERPT_BYTES = 2048"

definition MCP_RESPONSE_BYTES :: nat where "MCP_RESPONSE_BYTES = 256 * 1024"

definition is_sensitive_reference_key :: "string \<Rightarrow> bool" where
  "is_sensitive_reference_key key \<longleftrightarrow>
     key \<in> {''path'', ''old_path'', ''source_path'', ''file'', ''filename'', ''label'', ''detail''}"

definition is_excerpt_key :: "string \<Rightarrow> bool" where
  "is_excerpt_key key \<longleftrightarrow>
     key \<in> {''summary'', ''detail'', ''excerpt'', ''text'', ''subject'', ''title'', ''label''}"

definition removed_keys :: "string list" where
  "removed_keys =
     [''repo_path'', ''repository_path'', ''database_path'', ''command'', ''raw_prompt'', ''prompt'',
      ''email'', ''author_email'', ''content_hash'', ''credential'', ''credentials'']"

text \<open>\<open>str::split_once\<close> at a character of one byte.\<close>

definition split_once :: "char \<Rightarrow> string \<Rightarrow> (string \<times> string) option" where
  "split_once c s =
     (if c \<in> set s then Some (takeWhile (\<lambda>x. x \<noteq> c) s, tl (dropWhile (\<lambda>x. x \<noteq> c) s)) else None)"

definition address_unit :: "string \<Rightarrow> bool" where
  "address_unit u \<longleftrightarrow>
     (case u of [c] \<Rightarrow> is_ascii_alphanumeric c \<or> c \<in> {CHR ''@'', CHR ''.'', CHR ''_'', CHR ''-'', CHR ''+''}
      | _ \<Rightarrow> False)"

definition looks_like_email :: "string \<Rightarrow> bool" where
  "looks_like_email value \<longleftrightarrow>
     list_ex (\<lambda>part.
       case split_once (CHR ''@'') (trim_units (\<lambda>u. \<not> address_unit u) part) of
         None \<Rightarrow> False
       | Some (local, domain) \<Rightarrow>
           local \<noteq> [] \<and> CHR ''.'' \<in> set domain \<and> \<not> starts_with domain ''.'' \<and> \<not> ends_with domain ''.'')
     (split_whitespace value)"

text \<open>On the Unix systems the server runs on, a path is absolute when it begins with a slash.\<close>

definition is_absolute_local_path :: "string \<Rightarrow> bool" where
  "is_absolute_local_path value \<longleftrightarrow>
     starts_with value ''/'' \<or>
     (length value > 1 \<and> value ! 1 = CHR '':'') \<and>
     (length value > 2 \<and> (value ! 2 = CHR ''/'' \<or> value ! 2 = CHR 0x5C))"

definition path_separator :: "string \<Rightarrow> bool" where
  "path_separator u \<longleftrightarrow>
     is_whitespace u \<or>
     unit_in [CHR 0x60, CHR 0x27, CHR 0x22, CHR '','', CHR '';'', CHR ''('', CHR '')'', CHR ''['', CHR '']'',
       CHR ''{'', CHR ''}'', CHR ''<'', CHR ''>'', CHR ''=''] u"

definition contains_absolute_local_path :: "string \<Rightarrow> bool" where
  "contains_absolute_local_path value \<longleftrightarrow>
     is_absolute_local_path value \<or>
     list_ex is_absolute_local_path (filter (\<lambda>token. token \<noteq> []) (split_on path_separator value))"

section \<open>Sanitizing\<close>

definition is_char_boundary :: "string \<Rightarrow> nat \<Rightarrow> bool" where
  "is_char_boundary s i \<longleftrightarrow> i = 0 \<or> i = len s \<or> (i < len s \<and> \<not> is_continuation (s ! i))"

fun floor_boundary :: "string \<Rightarrow> nat \<Rightarrow> nat" where
  "floor_boundary s 0 = 0"
| "floor_boundary s (Suc i) = (if is_char_boundary s (Suc i) then Suc i else floor_boundary s i)"

definition truncate_utf8_bytes :: "string \<Rightarrow> nat \<Rightarrow> string" where
  "truncate_utf8_bytes value max_bytes =
     (if len value \<le> max_bytes then value else take (floor_boundary value max_bytes) value)"

definition key_is :: "(string \<Rightarrow> bool) \<Rightarrow> string option \<Rightarrow> bool" where
  "key_is P key \<longleftrightarrow> (case key of None \<Rightarrow> False | Some k \<Rightarrow> P k)"

definition refused_text :: "string option \<Rightarrow> string \<Rightarrow> bool" where
  "refused_text key t \<longleftrightarrow>
     (key_is is_sensitive_reference_key key \<and> contains_sensitive_path t)
     \<or> contains_absolute_local_path t \<or> looks_like_secret t \<or> looks_like_email t"

definition sanitize_text :: "string option \<Rightarrow> string \<Rightarrow> string" where
  "sanitize_text key t =
     (if refused_text key t then OMITTED
      else if key_is is_excerpt_key key \<and> len t > MAX_EXCERPT_BYTES
        then truncate_utf8_bytes t MAX_EXCERPT_BYTES
      else t)"

fun sanitize_value :: "string option \<Rightarrow> 'n json \<Rightarrow> 'n json" where
  "sanitize_value key (JObject m) =
     JObject (map (\<lambda>(k, v). (k, sanitize_value (Some k) v)) (filter (\<lambda>(k, v). k \<notin> set removed_keys) m))"
| "sanitize_value key (JArray vs) = JArray (map (sanitize_value key) vs)"
| "sanitize_value key (JString t) = JString (sanitize_text key t)"
| "sanitize_value key JNull = JNull"
| "sanitize_value key (JBool b) = JBool b"
| "sanitize_value key (JNumber n) = JNumber n"

datatype sanitize_error = Unserializable | ResponseTooLarge

definition sanitize_response :: "('n json \<Rightarrow> nat option) \<Rightarrow> 'n json \<Rightarrow> (sanitize_error, 'n json) result" where
  "sanitize_response to_vec_len value =
     (let value = sanitize_value None value
      in case to_vec_len value of
           None \<Rightarrow> Inl Unserializable
         | Some bytes \<Rightarrow> if bytes > MCP_RESPONSE_BYTES then Inl ResponseTooLarge else Inr value)"

text \<open>\<open>str::replace\<close> for a pattern that is not empty.\<close>

function replace_str :: "string \<Rightarrow> string \<Rightarrow> string \<Rightarrow> string" where
  "replace_str pat to s =
     (case if pat = [] then None else find_str s pat of
        None \<Rightarrow> s
      | Some i \<Rightarrow> take i s @ to @ replace_str pat to (drop (i + len pat) s))"
  by pat_completeness auto
termination
  by (relation "measure (\<lambda>(pat, to, s). length s)")
    (auto split: if_splits dest!: find_str_Some)

declare replace_str.simps [simp del]

definition UNAVAILABLE :: string where
  "UNAVAILABLE = ''Requested content is unavailable under CodeVetter redaction policy''"

definition sanitize_error_message :: "string \<Rightarrow> string \<Rightarrow> string" where
  "sanitize_error_message message repo_path =
     (if contains_sensitive_path message \<or> looks_like_secret message \<or> contains_absolute_local_path message
      then UNAVAILABLE
      else if repo_path = [] then message
      else replace_str repo_path ''[repository]'' message)"

section \<open>Truncation\<close>

lemma valid_unit_shape:
  "valid_unit u \<Longrightarrow> \<exists>a r. u = a # r \<and> length r = utf8_width a - 1 \<and> list_all is_continuation r \<and>
     \<not> is_continuation a"
  by (induction u rule: valid_unit.induct) (auto simp: utf8_width_def is_continuation_def)

lemma valid_utf8_Cons:
  assumes "valid_utf8 (c # s)"
  shows "\<exists>r t. s = r @ t \<and> length r = utf8_width c - 1 \<and> list_all is_continuation r \<and> \<not> is_continuation c \<and>
    valid_utf8 t \<and> utf8_units (c # s) = (c # r) # utf8_units t \<and> valid_unit (c # r)"
proof -
  let ?n = "utf8_width c - 1"
  have v: "valid_unit (c # take ?n s)" "valid_utf8 (drop ?n s)" using assms by (simp_all add: valid_utf8_def)
  then have "length (take ?n s) = ?n \<and> list_all is_continuation (take ?n s) \<and> \<not> is_continuation c"
    using valid_unit_shape [OF v(1)] by auto
  then show ?thesis using v by (intro exI [of _ "take ?n s"] exI [of _ "drop ?n s"]) simp
qed

lemma boundary_drop:
  assumes "is_char_boundary (u @ t) i" "length u \<le> i"
  shows "is_char_boundary t (i - length u)"
  using assms by (auto simp: is_char_boundary_def nth_append)

lemma boundary_cuts_units:
  "valid_utf8 s \<Longrightarrow> is_char_boundary s i \<Longrightarrow> i \<le> len s \<Longrightarrow> valid_utf8 (take i s)"
proof (induction s arbitrary: i rule: length_induct)
  case (1 s)
  show ?case
  proof (cases "i = 0 \<or> s = []")
    case True
    then show ?thesis using "1.prems"(1) by (auto simp: valid_utf8_def)
  next
    case False
    then obtain c s' where s: "s = c # s'" by (cases s) auto
    obtain r t where u: "s' = r @ t" "length r = utf8_width c - 1" "list_all is_continuation r"
      "valid_utf8 t" "valid_unit (c # r)"
      using valid_utf8_Cons [of c s'] "1.prems"(1) s by auto
    have split: "s = (c # r) @ t" using s u(1) by simp
    have past: "length (c # r) \<le> i"
    proof (rule ccontr)
      assume "\<not> length (c # r) \<le> i"
      then have "i < length s" "s ! i \<in> set r" using False unfolding split by (auto simp: nth_append nth_Cons')
      then show False using "1.prems"(2) u(3) False by (auto simp: is_char_boundary_def list_all_iff)
    qed
    have "valid_utf8 (take (i - length (c # r)) t)"
      using "1.IH" u(4) boundary_drop [OF "1.prems"(2) [unfolded split] past] "1.prems"(3) split by simp
    moreover have "take i s = c # r @ take (i - length (c # r)) t" using past unfolding split
      by (cases i) simp_all
    ultimately show ?thesis using u(2,5) by (simp add: valid_utf8_def)
  qed
qed

lemma boundary_near:
  "valid_utf8 s \<Longrightarrow> n \<le> len s \<Longrightarrow> \<exists>i. is_char_boundary s i \<and> i \<le> n \<and> n \<le> i + 3"
proof (induction s arbitrary: n rule: length_induct)
  case (1 s)
  show ?case
  proof (cases "n = 0 \<or> s = []")
    case True
    then show ?thesis using "1.prems" by (intro exI [of _ 0]) (auto simp: is_char_boundary_def)
  next
    case False
    then obtain c s' where s: "s = c # s'" by (cases s) auto
    obtain r t where u: "s' = r @ t" "length r = utf8_width c - 1" "valid_utf8 t"
      using valid_utf8_Cons [of c s'] "1.prems"(1) s by auto
    show ?thesis
    proof (cases "n \<le> length r")
      case True
      then show ?thesis using utf8_width_bounds [of c] u(2)
        by (intro exI [of _ 0]) (auto simp: is_char_boundary_def)
    next
      case False
      have "n - length (c # r) \<le> len t" using "1.prems"(2) s u(1) by simp
      then obtain i where "is_char_boundary t i" "i \<le> n - length (c # r)" "n - length (c # r) \<le> i + 3"
        using "1.IH" [rule_format, of t "n - length (c # r)"] u(1,3) s by auto
      moreover from this have "is_char_boundary s (i + length (c # r))"
      proof -
        have "\<not> is_continuation (s ! length (c # r))" if "t \<noteq> []"
          using that u(1,3) valid_utf8_Cons [of "hd t" "tl t"] by (cases t) (auto simp: s nth_append)
        then show ?thesis using \<open>is_char_boundary t i\<close>
          by (cases "i = 0") (auto simp: is_char_boundary_def s u(1) nth_append hd_conv_nth)
      qed
      ultimately show ?thesis using False by (intro exI [of _ "i + length (c # r)"]) auto
    qed
  qed
qed

lemma floor_boundary_is: "is_char_boundary s (floor_boundary s n) \<and> floor_boundary s n \<le> n"
  by (induction n) (auto simp: is_char_boundary_def)

lemma floor_boundary_greatest: "is_char_boundary s i \<Longrightarrow> i \<le> n \<Longrightarrow> i \<le> floor_boundary s n"
  by (induction n) (auto simp: le_Suc_eq)

text \<open>Cutting an excerpt never splits a character: the result is valid UTF-8, a prefix of the text,
  within the bound, the whole text if that fits, and otherwise at most three bytes shorter than the
  bound allows. The loop that steps back to a character boundary therefore stops after three steps
  at the latest.\<close>

theorem excerpt_truncation:
  assumes "valid_utf8 s"
  shows "valid_utf8 (truncate_utf8_bytes s n) \<and> (\<exists>r. s = truncate_utf8_bytes s n @ r) \<and>
    len (truncate_utf8_bytes s n) \<le> n \<and> (len s \<le> n \<longrightarrow> truncate_utf8_bytes s n = s) \<and>
    (n < len s \<longrightarrow> n \<le> len (truncate_utf8_bytes s n) + 3)"
proof (cases "len s \<le> n")
  case False
  let ?i = "floor_boundary s n"
  have i: "is_char_boundary s ?i" "?i \<le> n" using floor_boundary_is [of s n] by simp_all
  obtain j where "is_char_boundary s j" "j \<le> n" "n \<le> j + 3" using boundary_near [OF assms, of n] False by auto
  then have "n \<le> ?i + 3" using floor_boundary_greatest [of s j n] by linarith
  moreover have "\<exists>r. s = take ?i s @ r" by (metis append_take_drop_id)
  ultimately show ?thesis
    using boundary_cuts_units [OF assms i(1)] i(2) False by (auto simp: truncate_utf8_bytes_def)
qed (use assms in \<open>simp add: truncate_utf8_bytes_def\<close>)

section \<open>Sanitized responses\<close>

text \<open>The strings of a value with the key they stand under, and the keys of its objects.\<close>

fun json_strings :: "string option \<Rightarrow> 'n json \<Rightarrow> (string option \<times> string) list" where
  "json_strings key (JObject m) = concat (map (\<lambda>(k, v). json_strings (Some k) v) m)"
| "json_strings key (JArray vs) = concat (map (json_strings key) vs)"
| "json_strings key (JString t) = [(key, t)]"
| "json_strings key _ = []"

fun json_keys :: "'n json \<Rightarrow> string list" where
  "json_keys (JObject m) = map fst m @ concat (map (\<lambda>(k, v). json_keys v) m)"
| "json_keys (JArray vs) = concat (map json_keys vs)"
| "json_keys _ = []"

lemma sanitized_keys: "set (json_keys (sanitize_value key v)) \<inter> set removed_keys = {}"
proof (induction key v rule: sanitize_value.induct)
  case (1 key m)
  then show ?case by (auto split: prod.splits) fastforce
qed auto

lemma sanitized_strings:
  "(k, t) \<in> set (json_strings key (sanitize_value key v)) \<Longrightarrow>
     \<exists>s. (k, s) \<in> set (json_strings key v) \<and> t = sanitize_text k s"
proof (induction key v arbitrary: k t rule: sanitize_value.induct)
  case (1 key m)
  then obtain k' v where v: "(k', v) \<in> set m" "k' \<notin> set removed_keys"
    "(k, t) \<in> set (json_strings (Some k') (sanitize_value (Some k') v))"
    by auto
  then have "\<exists>s. (k, s) \<in> set (json_strings (Some k') v) \<and> t = sanitize_text k s"
    using "1.IH" [of "(k', v)" k' v k t] by auto
  then show ?case using v(1) by force
next
  case (2 key vs)
  then show ?case by fastforce
qed auto

definition marker_free :: "string \<Rightarrow> bool" where
  "marker_free t \<longleftrightarrow> (\<forall>m\<in>set secret_markers. \<not> contains_str (to_ascii_lowercase t) (to_ascii_lowercase m))"

lemma clean_marker_free: "\<not> looks_like_secret t \<Longrightarrow> marker_free t"
  by (auto simp: marker_free_def looks_like_secret_def Let_def list_ex_iff)

lemma marker_free_prefix: "marker_free (t @ r) \<Longrightarrow> marker_free t"
  unfolding marker_free_def by (fastforce simp: lowercase_append contains_str_iff)

lemma omitted_is_clean: "marker_free OMITTED"
proof -
  have "OMITTED = REDACTED" by (simp add: OMITTED_def REDACTED_def)
  then show ?thesis using redacted_is_clean(1) clean_marker_free by simp
qed

lemma truncate_prefix: "\<exists>r. t = truncate_utf8_bytes t n @ r"
  unfolding truncate_utf8_bytes_def by (metis append_Nil2 append_take_drop_id)

lemma truncate_length: "len (truncate_utf8_bytes t n) \<le> n"
  using floor_boundary_is [of t n] by (simp add: truncate_utf8_bytes_def min.coboundedI2)

lemma sanitize_text_cases:
  obtains (omitted) "sanitize_text key t = OMITTED"
    | (kept) "sanitize_text key t = t" "\<not> refused_text key t" "key_is is_excerpt_key key \<Longrightarrow> len t \<le> MAX_EXCERPT_BYTES"
    | (cut) "sanitize_text key t = truncate_utf8_bytes t MAX_EXCERPT_BYTES" "\<not> refused_text key t"
        "key_is is_excerpt_key key" "len t > MAX_EXCERPT_BYTES"
  by (cases "refused_text key t"; cases "key_is is_excerpt_key key \<and> len t > MAX_EXCERPT_BYTES")
    (auto simp: sanitize_text_def)

lemma sanitize_text_marker_free: "marker_free (sanitize_text key t)"
proof (cases key t rule: sanitize_text_cases)
  case cut
  then have "marker_free t" by (simp add: refused_text_def clean_marker_free)
  moreover obtain r where "t = truncate_utf8_bytes t MAX_EXCERPT_BYTES @ r" using truncate_prefix by blast
  ultimately show ?thesis using cut(1) marker_free_prefix by metis
qed (simp_all add: omitted_is_clean refused_text_def clean_marker_free)

lemma sanitize_text_bounded: "key_is is_excerpt_key key \<Longrightarrow> len (sanitize_text key t) \<le> MAX_EXCERPT_BYTES"
  by (cases key t rule: sanitize_text_cases)
    (simp_all add: truncate_length OMITTED_def MAX_EXCERPT_BYTES_def)

text \<open>C15. A response that leaves the server is sanitized at every depth: it fits the byte limit, holds
  none of the removed keys, and every string in it is either the redaction mark or a string of the
  unsanitized value, under the same key, that passed all checks, whole unless it stands under an
  excerpt key and was too long. No string holds a secret marker in any letter case, and no string
  under an excerpt key is longer than the bound.\<close>

theorem sanitized_response_clean:
  assumes "sanitize_response to_vec_len v = Inr w"
  shows "(\<exists>n \<le> MCP_RESPONSE_BYTES. to_vec_len w = Some n) \<and> set (json_keys w) \<inter> set removed_keys = {} \<and>
    (\<forall>(k, t)\<in>set (json_strings None w).
       marker_free t \<and> (key_is is_excerpt_key k \<longrightarrow> len t \<le> MAX_EXCERPT_BYTES) \<and>
       (t = OMITTED \<or> (\<exists>s. (k, s) \<in> set (json_strings None v) \<and> \<not> refused_text k s \<and>
          (t = s \<or> (key_is is_excerpt_key k \<and> len s > MAX_EXCERPT_BYTES \<and>
             t = truncate_utf8_bytes s MAX_EXCERPT_BYTES)))))"
proof -
  have w: "w = sanitize_value None v" "\<exists>n \<le> MCP_RESPONSE_BYTES. to_vec_len w = Some n"
    using assms by (auto simp: sanitize_response_def Let_def not_less split: option.splits if_splits)
  have "marker_free t \<and> (key_is is_excerpt_key k \<longrightarrow> len t \<le> MAX_EXCERPT_BYTES) \<and>
       (t = OMITTED \<or> (\<exists>s. (k, s) \<in> set (json_strings None v) \<and> \<not> refused_text k s \<and>
          (t = s \<or> (key_is is_excerpt_key k \<and> len s > MAX_EXCERPT_BYTES \<and>
             t = truncate_utf8_bytes s MAX_EXCERPT_BYTES))))"
    if "(k, t) \<in> set (json_strings None w)" for k t
  proof -
    obtain s where s: "(k, s) \<in> set (json_strings None v)" "t = sanitize_text k s"
      using sanitized_strings [of k t None v] \<open>(k, t) \<in> set (json_strings None w)\<close> w(1) by blast
    show ?thesis
      using s sanitize_text_marker_free [of k s] sanitize_text_bounded [of k s]
      by (cases k s rule: sanitize_text_cases) auto
  qed
  then show ?thesis using w sanitized_keys [of None v] by auto
qed

lemmas sanitize_eval = sanitize_text_def refused_text_def key_is_def contains_absolute_local_path_def
  is_absolute_local_path_def path_separator_def looks_like_email_def split_once_def address_unit_def
  secret_eval

text \<open>Two texts the filter means to stop are let through: an e-mail address at the end of a
  sentence, because the full stop stays part of its domain, and an absolute path after a colon,
  because a colon does not end a token.\<close>

theorem sentence_end_email_is_missed:
  "looks_like_email ''ask ann@corp.io'' \<and>
   sanitize_text None ''ask ann@corp.io.'' = ''ask ann@corp.io.'' \<and>
   contains_absolute_local_path ''at /Users/ann/x'' \<and>
   sanitize_text None ''at:/Users/ann/x'' = ''at:/Users/ann/x''"
proof -
  have 1: "looks_like_email ''ask ann@corp.io''" by (simp add: sanitize_eval)
  have 2: "contains_absolute_local_path ''at /Users/ann/x''" by (simp add: sanitize_eval)
  have 3: "sanitize_text None ''ask ann@corp.io.'' = ''ask ann@corp.io.''" by (simp add: sanitize_eval)
  have 4: "sanitize_text None ''at:/Users/ann/x'' = ''at:/Users/ann/x''" by (simp add: sanitize_eval)
  show ?thesis using 1 2 3 4 by blast
qed

section \<open>Witnesses\<close>

theorem excerpt_truncation_witness:
  "valid_utf8 (truncate_utf8_bytes [CHR ''a'', CHR 0xC3, CHR 0xA9] 2) \<and>
   (\<exists>r. [CHR ''a'', CHR 0xC3, CHR 0xA9] = truncate_utf8_bytes [CHR ''a'', CHR 0xC3, CHR 0xA9] 2 @ r) \<and>
   len (truncate_utf8_bytes [CHR ''a'', CHR 0xC3, CHR 0xA9] 2) \<le> 2 \<and>
   2 \<le> len (truncate_utf8_bytes [CHR ''a'', CHR 0xC3, CHR 0xA9] 2) + 3"
  using excerpt_truncation [of "[CHR ''a'', CHR 0xC3, CHR 0xA9]" 2]
  by (simp add: valid_utf8_def utf8_width_def is_continuation_def)

theorem sanitized_response_clean_witness:
  "sanitize_response (\<lambda>_. Some 2) (JObject [(''email'', JString ''x''), (''note'', JString ''ok'')] :: unit json) =
     Inr (JObject [(''note'', JString ''ok'')]) \<and>
   set (json_keys (JObject [(''note'', JString ''ok'')] :: unit json)) \<inter> set removed_keys = {}"
proof -
  have r: "sanitize_response (\<lambda>_. Some 2) (JObject [(''email'', JString ''x''), (''note'', JString ''ok'')] :: unit json) =
     Inr (JObject [(''note'', JString ''ok'')])"
    by (simp add: sanitize_response_def MCP_RESPONSE_BYTES_def removed_keys_def sanitize_eval is_excerpt_key_def
        is_sensitive_reference_key_def)
  show ?thesis using r sanitized_response_clean [OF r] by blast
qed

end
