(* ===== verification/Mcp_Scope.thy ===== *)
theory Mcp_Scope
  imports Rust_Text Mcp_Sanitize "HOL-Library.Word"
begin

text \<open>
  The texts by which a client of the MCP server names things: resource URIs (\<open>mcp/uri.rs\<close>) and page
  cursors (\<open>mcp/cursor.rs\<close>), both opaque and both bound to one repository. The base64 codec and the
  JSON form of a cursor come from crates and are parameters; the claims assume only that the codec is
  canonical and URL-safe (\<open>url_safe_codec\<close>) and that the JSON form of a cursor that \<open>serde_json\<close>
  can carry exactly (\<open>cursor_writable\<close>) reads back as that cursor (\<open>faithful_json\<close>).
\<close>

section \<open>Library parameters\<close>

text \<open>The URL-safe base64 codec without padding, of the \<open>base64\<close> crate.\<close>

record base64 =
  b64_encode :: "string \<Rightarrow> string"
  b64_decode :: "string \<Rightarrow> string option"

definition url_safe :: "char \<Rightarrow> bool" where
  "url_safe c \<longleftrightarrow> is_ascii_alphanumeric c \<or> c = CHR ''-'' \<or> c = CHR ''_''"

definition url_safe_codec :: "base64 \<Rightarrow> bool" where
  "url_safe_codec B \<longleftrightarrow>
     (\<forall>bytes. b64_decode B (b64_encode B bytes) = Some bytes) \<and>
     (\<forall>text bytes. b64_decode B text = Some bytes \<longrightarrow> b64_encode B bytes = text) \<and>
     (\<forall>bytes. list_all url_safe (b64_encode B bytes)) \<and> b64_encode B [] = []"

section \<open>Resource identifiers\<close>

definition SCHEME :: string where
  "SCHEME = ''codevetter-history''"

definition RESOURCE_KINDS :: "string list" where
  "RESOURCE_KINDS =
     [''repository'', ''graph'', ''snapshot'', ''community'', ''release'', ''landmark-catalog'',
      ''contributor-summary'', ''commit'', ''episode'', ''entity-lineage'', ''causal-thread'',
      ''annotation'', ''evidence'', ''archaeology-catalog'', ''archaeology-rule'',
      ''archaeology-domain'', ''archaeology-source'', ''archaeology-relations'',
      ''archaeology-temporal'', ''archaeology-evidence'']"

datatype uri_error =
  InvalidRepositoryIdentity
| UnknownResourceKind
| InvalidResourceIdentifier
| InvalidScheme
| InvalidUri
| OutsideRepositoryScope
| MalformedIdentifier

record HistoryResourceUri =
  hu_repo_id :: string
  hu_kind :: string
  hu_id :: string

definition validate_repo_id :: "string \<Rightarrow> (uri_error, unit) result" where
  "validate_repo_id repo_id =
     (if len repo_id < 16 \<or> len repo_id > 128
         \<or> \<not> list_all (\<lambda>c. is_ascii_alphanumeric c \<or> c = CHR ''-'' \<or> c = CHR ''_'') repo_id
      then Inl InvalidRepositoryIdentity else Inr ())"

definition uri_new :: "string \<Rightarrow> string \<Rightarrow> string \<Rightarrow> (uri_error, HistoryResourceUri) result" where
  "uri_new repo_id kind i =
     and_then (validate_repo_id repo_id) (\<lambda>_.
       if kind \<notin> set RESOURCE_KINDS then Inl UnknownResourceKind
       else if i = [] \<or> len i > 4096 \<or> any_char is_control i then Inl InvalidResourceIdentifier
       else Inr \<lparr>hu_repo_id = repo_id, hu_kind = kind, hu_id = i\<rparr>)"

definition uri_display :: "base64 \<Rightarrow> HistoryResourceUri \<Rightarrow> string" where
  "uri_display B u =
     SCHEME @ ''://'' @ hu_repo_id u @ ''/'' @ hu_kind u @ ''/'' @ b64_encode B (hu_id u)"

definition next_segment :: "string list \<Rightarrow> nat \<Rightarrow> string" where
  "next_segment segments n = (if n < length segments then segments ! n else [])"

definition uri_parse :: "base64 \<Rightarrow> string \<Rightarrow> string \<Rightarrow> (uri_error, HistoryResourceUri) result" where
  "uri_parse B raw expected_repo_id =
     (let prefix = SCHEME @ ''://''
      in if \<not> starts_with raw prefix then Inl InvalidScheme
         else
           (let remainder = drop (len prefix) raw
            in if any_char (\<lambda>u. u \<in> {''?'', ''#'', [CHR 0x5C]}) remainder \<or> contains_str remainder ''..''
               then Inl InvalidUri
               else
                 (let segments = split_on (\<lambda>u. u = ''/'') remainder;
                      repo_id = next_segment segments 0;
                      kind = next_segment segments 1;
                      encoded_id = next_segment segments 2
                  in if length segments > 3 \<or> repo_id \<noteq> expected_repo_id then Inl OutsideRepositoryScope
                     else and_then (validate_repo_id repo_id) (\<lambda>_.
                       if kind \<notin> set RESOURCE_KINDS then Inl UnknownResourceKind
                       else case b64_decode B encoded_id of
                              None \<Rightarrow> Inl MalformedIdentifier
                            | Some decoded \<Rightarrow>
                                if \<not> valid_utf8 decoded then Inl MalformedIdentifier
                                else uri_new repo_id kind decoded))))"

section \<open>The displayed form\<close>

lemma url_safe_plain: "url_safe c \<Longrightarrow> byte c < 128 \<and> c \<noteq> CHR ''.'' \<and> c \<noteq> CHR ''/''"
  by (auto simp: url_safe_def text_eval)

lemma kind_url_safe: "kind \<in> set RESOURCE_KINDS \<Longrightarrow> list_all url_safe kind"
proof -
  have letter: "is_ascii_lowercase c \<or> c = CHR ''-'' \<Longrightarrow> url_safe c" for c
    by (auto simp: url_safe_def is_ascii_alphanumeric_def)
  let ?letters = "''abcdefghijklmnopqrstuvwxyz-''"
  have "list_all (\<lambda>c. is_ascii_lowercase c \<or> c = CHR ''-'') ?letters" by code_simp
  then have "list_all url_safe ?letters"
    by (rule list.pred_mono_strong) (rule letter)
  moreover have "list_all (\<lambda>k. set k \<subseteq> set ?letters) RESOURCE_KINDS" by (simp add: RESOURCE_KINDS_def)
  ultimately show "kind \<in> set RESOURCE_KINDS \<Longrightarrow> list_all url_safe kind"
    unfolding list_all_iff by blast
qed

lemma kind_nonempty: "[] \<notin> set RESOURCE_KINDS"
  by (simp add: RESOURCE_KINDS_def)

lemma uri_new_Inr_iff:
  "uri_new r k i = Inr u \<longleftrightarrow> u = \<lparr>hu_repo_id = r, hu_kind = k, hu_id = i\<rparr> \<and> validate_repo_id r = Inr () \<and>
     k \<in> set RESOURCE_KINDS \<and> i \<noteq> [] \<and> len i \<le> 4096 \<and> \<not> any_char is_control i"
  by (cases "validate_repo_id r") (auto simp: uri_new_def)

lemma url_safe_ascii: "list_all url_safe s \<Longrightarrow> is_ascii s"
  by (auto simp: is_ascii_def list_all_iff dest: url_safe_plain)

definition plain_path :: "string \<Rightarrow> bool" where
  "plain_path s \<longleftrightarrow> list_all (\<lambda>c. url_safe c \<or> c = CHR ''/'') s"

lemma url_safe_other: "url_safe c \<Longrightarrow> c \<notin> {CHR ''?'', CHR ''#'', CHR 0x5C, CHR ''.''}"
  by (auto simp: url_safe_def text_eval)

lemma plain_char:
  assumes "plain_path s" "c \<in> set s"
  shows "byte c < 128" and "c \<notin> {CHR ''?'', CHR ''#'', CHR 0x5C, CHR ''.''}"
proof -
  consider "url_safe c" | "c = CHR ''/''" using assms by (auto simp: plain_path_def list_all_iff)
  then show "byte c < 128" "c \<notin> {CHR ''?'', CHR ''#'', CHR 0x5C, CHR ''.''}"
    using url_safe_plain [of c] url_safe_other [of c] by (cases, blast, simp)+
qed

lemma plain_path_accepted:
  assumes "plain_path s"
  shows "\<not> any_char (\<lambda>u. u \<in> {''?'', ''#'', [CHR 0x5C]}) s" and "\<not> contains_str s ''..''"
proof -
  have "is_ascii s" using plain_char(1) [OF assms] by (simp add: is_ascii_def list_all_iff)
  moreover have "CHR ''?'' \<notin> set s" "CHR ''#'' \<notin> set s" "CHR 0x5C \<notin> set s" "CHR ''.'' \<notin> set s"
    using plain_char(2) [OF assms] by blast+
  ultimately show "\<not> any_char (\<lambda>u. u \<in> {''?'', ''#'', [CHR 0x5C]}) s" "\<not> contains_str s ''..''"
    by (auto simp: any_char_def list_ex_iff utf8_units_ascii contains_str_iff)
qed

lemma split_three_parts:
  assumes "list_all url_safe a" "list_all url_safe b" "list_all url_safe c"
  shows "split_on (\<lambda>u. u = ''/'') (a @ ''/'' @ b @ ''/'' @ c) = [a, b, c]"
proof -
  have no: "\<forall>u\<in>set (map (\<lambda>c. [c]) s). u \<noteq> ''/''" if "list_all url_safe s" for s
    using that by (auto simp: list_all_iff dest: url_safe_plain)
  have units: "utf8_units (a @ ''/'' @ b @ ''/'' @ c) =
      map (\<lambda>c. [c]) a @ ''/'' # map (\<lambda>c. [c]) b @ ''/'' # map (\<lambda>c. [c]) c"
    using assms by (simp add: utf8_units_ascii_append utf8_units_ascii url_safe_ascii utf8_width_def)
  have one: "concat (map (\<lambda>c. [c]) s) = s" for s :: string by (induction s) simp_all
  show ?thesis
    unfolding split_on_def units
    by (subst split_units_parts [OF no [OF assms(1)] refl], subst split_units_parts [OF no [OF assms(2)] refl],
        subst split_units_part [OF no [OF assms(3)]]) (simp add: one)
qed

lemma validate_repo_id_iff:
  "validate_repo_id r = Inr () \<longleftrightarrow> 16 \<le> len r \<and> len r \<le> 128 \<and> list_all url_safe r"
  by (auto simp: validate_repo_id_def url_safe_def [abs_def])

lemma uri_parse_raw:
  "uri_parse B (SCHEME @ ''://'' @ rest) repo = Inr u \<longleftrightarrow>
     \<not> any_char (\<lambda>u. u \<in> {''?'', ''#'', [CHR 0x5C]}) rest \<and> \<not> contains_str rest ''..'' \<and>
     length (split_on (\<lambda>u. u = ''/'') rest) \<le> 3 \<and>
     next_segment (split_on (\<lambda>u. u = ''/'') rest) 0 = repo \<and>
     validate_repo_id repo = Inr () \<and>
     next_segment (split_on (\<lambda>u. u = ''/'') rest) 1 \<in> set RESOURCE_KINDS \<and>
     (\<exists>i. b64_decode B (next_segment (split_on (\<lambda>u. u = ''/'') rest) 2) = Some i \<and> valid_utf8 i \<and>
        uri_new repo (next_segment (split_on (\<lambda>u. u = ''/'') rest) 1) i = Inr u)"
proof -
  have p: "starts_with (SCHEME @ ''://'' @ rest) (SCHEME @ ''://'')"
    unfolding starts_with_iff by (metis append_assoc)
  have d: "drop (len (SCHEME @ ''://'')) (SCHEME @ ''://'' @ rest) = rest" by simp
  show ?thesis
    unfolding uri_parse_def Let_def d using p
    by (auto simp: and_then_Inr_iff not_less split: option.splits)
qed

lemma uri_parse_displayed:
  assumes "url_safe_codec B" "uri_parse B raw repo = Inr u"
  shows "raw = uri_display B u \<and> hu_repo_id u = repo \<and> valid_utf8 (hu_id u) \<and>
    uri_new (hu_repo_id u) (hu_kind u) (hu_id u) = Inr u"
proof -
  have "starts_with raw (SCHEME @ ''://'')"
    using assms(2) by (auto simp: uri_parse_def Let_def split: if_splits)
  then obtain rest where raw: "raw = SCHEME @ ''://'' @ rest" by (auto simp: starts_with_iff)
  let ?ss = "split_on (\<lambda>u. u = ''/'') rest"
  note parse = assms(2) [unfolded raw uri_parse_raw]
  obtain i where i: "b64_decode B (next_segment ?ss 2) = Some i" "valid_utf8 i"
    "uri_new repo (next_segment ?ss 1) i = Inr u"
    using parse by blast
  have u: "u = \<lparr>hu_repo_id = repo, hu_kind = next_segment ?ss 1, hu_id = i\<rparr>" "i \<noteq> []"
    using i(3) by (simp_all add: uri_new_Inr_iff)
  have enc: "b64_encode B i = next_segment ?ss 2" "b64_decode B [] = Some []"
    using assms(1) i(1) by (auto simp: url_safe_codec_def) metis
  have "next_segment ?ss 1 \<noteq> []" using parse kind_nonempty by metis
  then have "length ?ss \<noteq> 0" "length ?ss \<noteq> 1" by (auto simp: next_segment_def split: if_splits)
  moreover have "length ?ss \<noteq> 2" using i(1) enc(2) u(2) by (auto simp: next_segment_def)
  ultimately have "length ?ss = 3" using parse by linarith
  then obtain a b c where ss: "?ss = [a, b, c]" by (auto simp: length_Suc_conv numeral_3_eq_3)
  then have "rest = a @ ''/'' @ b @ ''/'' @ c"
    using split_units_three [of "\<lambda>u. u = ''/''" "utf8_units rest" a b c]
    by (auto simp: split_on_def concat_utf8_units)
  then have "raw = uri_display B u" using parse enc u(1) ss raw by (simp add: uri_display_def next_segment_def)
  then show ?thesis using i(2,3) u(1) by simp
qed

lemma uri_display_parses:
  assumes "url_safe_codec B" "valid_utf8 (hu_id u)" "uri_new (hu_repo_id u) (hu_kind u) (hu_id u) = Inr u"
  shows "uri_parse B (uri_display B u) (hu_repo_id u) = Inr u"
proof -
  let ?e = "b64_encode B (hu_id u)"
  let ?rest = "hu_repo_id u @ ''/'' @ hu_kind u @ ''/'' @ ?e"
  have safe: "list_all url_safe (hu_repo_id u)" "list_all url_safe (hu_kind u)" "list_all url_safe ?e"
    using assms(1,3) kind_url_safe by (auto simp: uri_new_Inr_iff validate_repo_id_iff url_safe_codec_def)
  then have "plain_path ?rest" by (auto simp: plain_path_def list_all_iff)
  note ok = plain_path_accepted [OF this]
  have "b64_decode B ?e = Some (hu_id u)" using assms(1) by (simp add: url_safe_codec_def)
  then show ?thesis
    unfolding uri_display_def uri_parse_raw split_three_parts [OF safe]
    using ok assms(2,3) by (auto simp: next_segment_def uri_new_Inr_iff)
qed

text \<open>C16. The resource URIs of a repository are exactly the displayed forms of its resources: parsing
  a text in the scope of a repository gives a resource if and only if the resource is well formed,
  belongs to that repository and the text is its displayed form. Displaying and parsing are inverse,
  no resource has two URIs, and no URI of another repository is ever accepted.\<close>

theorem uri_parse_iff:
  assumes "url_safe_codec B"
  shows "uri_parse B raw repo = Inr u \<longleftrightarrow>
    raw = uri_display B u \<and> hu_repo_id u = repo \<and> valid_utf8 (hu_id u) \<and>
    uri_new (hu_repo_id u) (hu_kind u) (hu_id u) = Inr u"
  using uri_parse_displayed [OF assms] uri_display_parses [OF assms] by blast

section \<open>Page cursors\<close>

text \<open>
  The cursor of a paged answer (\<open>mcp/cursor.rs\<close>). Its JSON form is derived code of the \<open>serde\<close>
  crates, a parameter; the position is any JSON value, \<open>'n\<close> the numbers of \<open>serde_json\<close>.
\<close>

record 'n McpCursor =
  mc_version :: "8 word"
  mc_repo_id :: string
  mc_operation :: string
  mc_offset :: nat
  mc_fingerprint :: string
  mc_position :: "'n json option"

record 'n cursor_json =
  cj_to_vec :: "'n McpCursor \<Rightarrow> string option"
  cj_from_slice :: "string \<Rightarrow> 'n McpCursor option"

datatype cursor_error = CursorUnencodable | InvalidCursor | CursorOfAnotherRequest | InvalidPosition

definition cursor_new :: "string \<Rightarrow> string \<Rightarrow> nat \<Rightarrow> string \<Rightarrow> 'n McpCursor" where
  "cursor_new repo_id operation offset fingerprint =
     \<lparr>mc_version = 1, mc_repo_id = repo_id, mc_operation = operation, mc_offset = offset,
      mc_fingerprint = fingerprint, mc_position = None\<rparr>"

definition with_position :: "'n McpCursor \<Rightarrow> 'n json \<Rightarrow> 'n McpCursor" where
  "with_position c position = c\<lparr>mc_position := Some position\<rparr>"

definition cursor_encode :: "base64 \<Rightarrow> 'n cursor_json \<Rightarrow> 'n McpCursor \<Rightarrow> (cursor_error, string) result" where
  "cursor_encode B J c =
     (case cj_to_vec J c of None \<Rightarrow> Inl CursorUnencodable | Some bytes \<Rightarrow> Inr (b64_encode B bytes))"

definition cursor_decode ::
  "base64 \<Rightarrow> 'n cursor_json \<Rightarrow> string \<Rightarrow> string \<Rightarrow> string \<Rightarrow> string \<Rightarrow> (cursor_error, 'n McpCursor) result" where
  "cursor_decode B J raw repo_id operation fingerprint =
     (if len raw > 2048 then Inl InvalidCursor
      else case b64_decode B raw of
             None \<Rightarrow> Inl InvalidCursor
           | Some bytes \<Rightarrow>
               (case cj_from_slice J bytes of
                  None \<Rightarrow> Inl InvalidCursor
                | Some c \<Rightarrow>
                    if mc_version c \<noteq> 1 \<or> mc_repo_id c \<noteq> repo_id \<or> mc_operation c \<noteq> operation
                       \<or> mc_fingerprint c \<noteq> fingerprint
                    then Inl CursorOfAnotherRequest else Inr c))"

definition cursor_position :: "('n json \<Rightarrow> 't option) \<Rightarrow> 'n McpCursor \<Rightarrow> (cursor_error, 't option) result" where
  "cursor_position from_value c =
     (case mc_position c of
        None \<Rightarrow> Inr None
      | Some v \<Rightarrow> (case from_value v of None \<Rightarrow> Inl InvalidPosition | Some t \<Rightarrow> Inr (Some t)))"

text \<open>
  What \<open>serde_json\<close> writes and reads back unchanged. A number must be \<open>exact\<close>: an integer is, a
  binary fraction need not be, since the crate is built without \<open>float_roundtrip\<close>. An object is a
  map ordered by its keys, and the reader refuses more than 127 nested containers, the cursor itself
  being one. A position that is \<open>null\<close> is left out of the writable cursors: the derived reader
  gives no position for it.
\<close>

definition MAX_POSITION_DEPTH :: nat where "MAX_POSITION_DEPTH = 126"

fun exact_value :: "('n \<Rightarrow> bool) \<Rightarrow> nat \<Rightarrow> 'n json \<Rightarrow> bool" where
  "exact_value exact d (JNumber n) = exact n"
| "exact_value exact d (JString s) = valid_utf8 s"
| "exact_value exact d (JArray vs) = (0 < d \<and> (\<forall>v\<in>set vs. exact_value exact (d - 1) v))"
| "exact_value exact d (JObject m) =
     (0 < d \<and> sorted_wrt (<) (map fst m) \<and>
      (\<forall>(k, v)\<in>set m. valid_utf8 k \<and> exact_value exact (d - 1) v))"
| "exact_value exact d _ = True"

definition cursor_writable :: "('n \<Rightarrow> bool) \<Rightarrow> 'n McpCursor \<Rightarrow> bool" where
  "cursor_writable exact c \<longleftrightarrow>
     valid_utf8 (mc_repo_id c) \<and> valid_utf8 (mc_operation c) \<and> valid_utf8 (mc_fingerprint c) \<and>
     mc_offset c \<le> usize_max \<and> mc_position c \<noteq> Some JNull \<and>
     (\<forall>v\<in>set_option (mc_position c). exact_value exact MAX_POSITION_DEPTH v)"

definition faithful_json :: "('n \<Rightarrow> bool) \<Rightarrow> 'n cursor_json \<Rightarrow> bool" where
  "faithful_json exact J \<longleftrightarrow>
     (\<forall>c bytes. cursor_writable exact c \<longrightarrow> cj_to_vec J c = Some bytes \<longrightarrow> cj_from_slice J bytes = Some c)"

text \<open>The position of the one operation that uses it, the causal trace: a pair of texts.\<close>

lemma pair_position_is_exact:
  "valid_utf8 a \<Longrightarrow> valid_utf8 b \<Longrightarrow> exact_value exact MAX_POSITION_DEPTH (JArray [JString a, JString b])"
  by (simp add: MAX_POSITION_DEPTH_def)

text \<open>C20. A cursor survives the round trip through its text exactly in the request it was made for: a
  text that encodes a new cursor, without a position or with one that \<open>serde_json\<close> carries exactly (no
  \<open>null\<close>, texts in UTF-8, exact numbers, ordered objects, at most 126 levels), decodes to that cursor if
  the repository, the operation and the fingerprint are the ones it was made with and the text is
  within the bound, and is refused in every other request. The pair of texts of the causal trace is
  such a position.\<close>

theorem cursor_round_trip:
  assumes "url_safe_codec B" "faithful_json exact J" "cursor_writable exact c"
    and "c = cursor_new repo operation offset fingerprint \<or>
         c = with_position (cursor_new repo operation offset fingerprint) v"
    and "cursor_encode B J c = Inr raw"
  shows "cursor_decode B J raw repo' operation' fingerprint' =
    (if len raw > 2048 then Inl InvalidCursor
     else if (repo', operation', fingerprint') = (repo, operation, fingerprint) then Inr c
     else Inl CursorOfAnotherRequest)"
proof -
  obtain bytes where bytes: "cj_to_vec J c = Some bytes" "raw = b64_encode B bytes"
    using assms(5) by (auto simp: cursor_encode_def split: option.splits)
  have "b64_decode B raw = Some bytes" "cj_from_slice J bytes = Some c"
    using assms(1,2,3) bytes by (simp_all add: url_safe_codec_def faithful_json_def)
  moreover have "mc_version c = 1" "mc_repo_id c = repo" "mc_operation c = operation" "mc_fingerprint c = fingerprint"
    using assms(4) by (auto simp: cursor_new_def with_position_def)
  ultimately show ?thesis by (auto simp: cursor_decode_def)
qed

section \<open>Witnesses\<close>

text \<open>A codec with two letters for a byte, which has the properties the claims rest on.\<close>

fun letter_encode :: "string \<Rightarrow> string" where
  "letter_encode [] = []"
| "letter_encode (c # s) = char_of (97 + byte c div 16) # char_of (97 + byte c mod 16) # letter_encode s"

definition is_letter :: "char \<Rightarrow> bool" where
  "is_letter c \<longleftrightarrow> 97 \<le> byte c \<and> byte c < 113"

fun letter_decode :: "string \<Rightarrow> string option" where
  "letter_decode [] = Some []"
| "letter_decode [c] = None"
| "letter_decode (a # b # s) =
     (if is_letter a \<and> is_letter b
      then map_option ((#) (char_of ((byte a - 97) * 16 + (byte b - 97)))) (letter_decode s) else None)"

definition letter_codec :: base64 where
  "letter_codec = \<lparr>b64_encode = letter_encode, b64_decode = letter_decode\<rparr>"

lemma byte_char_of: "n < 256 \<Longrightarrow> byte (char_of n) = n"
  by (simp add: of_char_of)

lemma letters_of_byte:
  "byte (char_of (97 + byte c div 16)) = 97 + byte c div 16" "byte (char_of (97 + byte c mod 16)) = 97 + byte c mod 16"
  "byte c div 16 < 16" "byte c mod 16 < (16 :: nat)"
proof -
  show "byte c div 16 < 16" "byte c mod 16 < (16 :: nat)" using nat_of_char_less_256 [of c] by linarith+
  then show "byte (char_of (97 + byte c div 16)) = 97 + byte c div 16" "byte (char_of (97 + byte c mod 16)) = 97 + byte c mod 16"
    by (auto intro!: byte_char_of)
qed

lemma letter_decode_encode: "letter_decode (letter_encode s) = Some s"
proof (induction s)
  case (Cons c s)
  have "char_of (byte c div 16 * 16 + byte c mod 16) = c" by simp
  then show ?case using Cons letters_of_byte [of c] by (simp add: is_letter_def)
qed simp

lemma letter_encode_decode: "letter_decode s = Some t \<Longrightarrow> letter_encode t = s"
proof (induction s arbitrary: t rule: letter_decode.induct)
  case (3 a b s)
  define x y where xy: "x = byte a - 97" "y = byte b - 97"
  let ?n = "x * 16 + y"
  obtain u where u: "is_letter a" "is_letter b" "letter_decode s = Some u" "t = char_of ?n # u"
    using 3 xy by (auto split: if_splits)
  then have "x < 16" "y < 16" by (auto simp: is_letter_def xy)
  then have n: "?n < 256" "?n div 16 = x" "?n mod 16 = y" by simp_all
  have "char_of (97 + (byte a - 97)) = a" "char_of (97 + (byte b - 97)) = b"
    using u(1,2) by (simp_all add: is_letter_def)
  then show ?case using 3(1) [OF conjI [OF u(1,2)] u(3)] u n unfolding xy by (simp add: byte_char_of)
qed auto

lemma letter_codec_ok: "url_safe_codec letter_codec"
proof -
  have "list_all url_safe (letter_encode s)" for s
  proof (induction s)
    case (Cons c s)
    have "is_ascii_lowercase (char_of (97 + byte c div 16))" "is_ascii_lowercase (char_of (97 + byte c mod 16))"
      using letters_of_byte [of c] by (simp_all add: is_ascii_lowercase_def)
    then have "url_safe (char_of (97 + byte c div 16))" "url_safe (char_of (97 + byte c mod 16))"
      by (simp_all add: url_safe_def is_ascii_alphanumeric_def)
    then show ?case using Cons by simp
  qed simp
  then show ?thesis
    using letter_decode_encode letter_encode_decode by (simp add: url_safe_codec_def letter_codec_def)
qed

definition sample_uri :: HistoryResourceUri where
  "sample_uri = \<lparr>hu_repo_id = ''repo-0123456789a'', hu_kind = ''release'', hu_id = ''v1/#''\<rparr>"

theorem uri_parse_iff_witness:
  "uri_parse letter_codec (uri_display letter_codec sample_uri) ''repo-0123456789a'' = Inr sample_uri"
  by (subst uri_parse_iff [OF letter_codec_ok])
    (simp add: sample_uri_def valid_utf8_def uri_new_Inr_iff validate_repo_id_iff RESOURCE_KINDS_def
      url_safe_def text_eval)

text \<open>The cursor of a causal trace after the pair \<open>x\<close>, \<open>y\<close>, and a writer that knows only that cursor.\<close>

definition sample_cursor :: "nat McpCursor" where
  "sample_cursor =
     with_position (cursor_new ''r'' ''trace'' 0 ''f'') (JArray [JString ''x'', JString ''y''])"

definition sample_json :: "nat cursor_json" where
  "sample_json = \<lparr>cj_to_vec = (\<lambda>c. if c = sample_cursor then Some ''{}'' else None),
     cj_from_slice = (\<lambda>s. if s = ''{}'' then Some sample_cursor else None)\<rparr>"

theorem cursor_round_trip_witness:
  "cursor_decode letter_codec sample_json (letter_encode ''{}'') ''r'' ''trace'' ''f'' = Inr sample_cursor \<and>
   cursor_decode letter_codec sample_json (letter_encode ''{}'') ''q'' ''trace'' ''f'' = Inl CursorOfAnotherRequest"
proof -
  have j: "faithful_json (\<lambda>_. True) sample_json" by (auto simp: faithful_json_def sample_json_def split: if_splits)
  have w: "cursor_writable (\<lambda>_. True) sample_cursor"
    by (simp add: cursor_writable_def sample_cursor_def with_position_def cursor_new_def usize_max_def
        MAX_POSITION_DEPTH_def valid_utf8_def text_eval)
  have e: "cursor_encode letter_codec sample_json sample_cursor = Inr (letter_encode ''{}'')"
    by (simp add: cursor_encode_def sample_json_def letter_codec_def)
  show ?thesis
    using cursor_round_trip [OF letter_codec_ok j w disjI2 [OF sample_cursor_def] e, of _ _ "''f''"] by simp
qed

end
