(* ===== verification/Spec2Isabelle.thy ===== *)
theory Spec2Isabelle
  imports Aliases Identity Invalidation Graph_Path Job_Lease Graph_Reach Graph_Verdicts Graph_Communities History_Lineage
    History_Intervals Synthesis_Safety Mcp_Scope Mcp_Sanitize
begin

text \<open>
  CodeVetter desktop: a verification development of the Rust core under
  \<open>apps/desktop/src-tauri/src/\<close>.

  \<^bold>\<open>The program.\<close> CodeVetter is a desktop application that reads a repository, builds a graph of its
  symbols, derives business rules from it (the archaeology), lets reviewers decide on the rules, and
  answers questions of agents over a local MCP server. The development models the parts whose
  correctness the rest leans on, and which do not only move data between files, processes and SQL:

  \<^item> the life of a derived rule: its identity (\<open>identity.rs\<close>), its lifecycle of decisions
    (\<open>lifecycle.rs\<close>) and which rules a change of the sources invalidates (\<open>invalidation.rs\<close>), over the
    data contract of \<open>contracts.rs\<close>;
  \<^item> the lease of an archaeology job over its SQLite rows (\<open>jobs.rs\<close>, \<open>business_rule_archaeology.sql\<close>);
  \<^item> imported repository graphs and paths in them (\<open>graph_trust.rs\<close>, \<open>unpack_types.rs\<close>);
  \<^item> the structural graph snapshot, its queries and its analysis (\<open>structural_graph/types.rs\<close>,
    \<open>structural_graph/query/\<close>, \<open>structural_graph/analysis.rs\<close>);
  \<^item> the history of a repository: deltas between snapshots, their lineage and replay
    (\<open>history_graph/delta.rs\<close>, \<open>state.rs\<close>), the reader of Git's output (\<open>history_facts.rs\<close>), the timeline
    and the release intervals (\<open>history_graph/catalog/\<close>, \<open>git_metadata.rs\<close>);
  \<^item> the wording of rules by a model: request, validation, canonical form and published sentence
    (\<open>synthesis.rs\<close>, with the packet identity of \<open>deterministic_rules.rs\<close>);
  \<^item> the boundary of the MCP server: resource URIs, page cursors and the sanitizer of answers
    (\<open>mcp/uri.rs\<close>, \<open>mcp/cursor.rs\<close>, \<open>mcp/sanitize.rs\<close>) over the secret policy (\<open>secret_policy.rs\<close>).

  The parts meet in the data: the analysis, the queries and the deltas work on one snapshot type; the
  reconstruction of a revision replays deltas; the timeline is built from the facts the reader accepts;
  a synthesis request is built from facts of the archaeology contract, and its texts, like every answer
  of the server, must pass the secret policy.

  \<^bold>\<open>Theories.\<close>

  \<^item> Prelude: results, the question-mark operator (\<open>and_then\<close>), guards, loops with early return
    (\<open>try_fold\<close>, \<open>for_each\<close>, \<open>try_map\<close>), and the locale \<open>checked_machine\<close> of a state machine whose
    operations answer with an error or a new state.
  \<^item> Rust_Text: bytes, UTF-8, \<open>str\<close> and \<open>usize\<close>. A Rust string is its list of bytes. Ordered_Map:
    \<open>BTreeMap\<close> as a sorted association list, with a locale of map laws.
  \<^item> Contracts, Lifecycle, Aliases, Identity: \<open>project_lifecycle\<close> is the replay of an event stream,
    \<open>validate_lifecycle_append\<close> the gate before an append; replay after an accepted append is one step
    of the rule machine from the projection before it (a refinement), and safety of decisions follows
    from its invariant. Identity hashes tagged, length-prefixed fields: the preimages, not the
    digests, are compared, and SHA-256 is a parameter.
  \<^item> Invalidation: the worklist \<open>closure_loop\<close> with its bounds; the returned paths are exactly the
    transitive dependents with least distances. Drift classification refines a set of changed keys.
  \<^item> Jobs holds the operations of the lease as functions on a record of the three tables, errors as
    values, the constraints of the schema as \<open>job_constraints\<close> and \<open>generation_constraints\<close>; Job_Lease
    proves that every history of calls keeps the database invariant, refines a lease protocol job by
    job, fences recovered jobs, and leaves an accepted cancellation to be acknowledged by the holder of
    the job whatever calls come between (\<open>generations_owned\<close> says whose generation a row works on).
  \<^item> Graph_Import and Graph_Path: parsing of an external graph, endpoint ranking, and the Dijkstra-like
    search with hop, node and edge bounds. What an import accepts is described field by field, with the
    bounds as counts of characters; what a search finds when it is not truncated is a path between the
    two nodes with the least cost, and then length, among all.
  \<^item> Structural_Graph: the snapshot types and stable identifiers. Graph_Query: index, resolution,
    neighbours, pages and the response limits. Graph_Answers: what the answers mean, with a locale
    \<open>paging\<close> for every paged answer, interpreted for the overview and for the neighbours.
    Graph_Impact: the two breadth-first searches. Graph_Reach: their exactness by the invariant
    \<open>level_inv\<close> of the shared visit of a node.
  \<^item> Graph_Components and Graph_Cuts: the two-pass component search and the lowlink search of
    \<open>analysis.rs\<close> over explicit stacks, compared with mutual reachability and with cut vertices.
    Graph_Analysis: \<open>analyze_trusted_algorithms\<close>, composed as the code does it, and that no index of it is
    out of range. Graph_Verdicts carries the results from indices to the identifiers of a snapshot, by
    the relation \<open>mirrors\<close>. Graph_Communities: \<open>analyze_graph\<close>, the labels, hubs and bridges.
  \<^item> History_Delta: \<open>structural_delta\<close>, \<open>derive_lineage\<close> and \<open>apply_structural_delta\<close>; a delta whose lists were not
    cut rebuilds the later snapshot. History_Lineage: the invariant \<open>lineage_ok\<close> of the matcher.
    History_State: \<open>reconstruct_history_as_of\<close> over a record of database reads; it returns a snapshot
    exactly for a \<open>reconstructible\<close> revision, and that has the content of the true snapshot
    (\<open>same_content\<close>: every list up to its order, for the tables, the extraction and the replay order them
    differently).
  \<^item> History_Facts: the reader of Git's output and of the mailmap. History_Reading: what it accepts is
    bounded and well formed, and two faults of the mailmap. History_Timeline and History_Intervals: the
    window of revisions, the release ranges and the intervals; the walk over the parents is compared with
    the ancestors in the parent relation, and it fails exactly if a fact of an ancestor is missing.
  \<^item> Evidence_Packets, Synthesis, Synthesis_Safety: the contract with the model. Acceptance of a response is
    equivalent to a declarative grounding in the packet (\<open>clause_grounded\<close>); canonical form and published
    sentence are functions of the cited labels (\<open>label_text\<close>, \<open>clause_sentence\<close>) and not of the wording.
  \<^item> Secret_Policy, Mcp_Scope, Mcp_Sanitize: what may leave the server, and the names a client gives back
    to it. The sanitizer is composed with the secret policy: no text that leaves holds a marker.

  \<^bold>\<open>Correspondence.\<close> Definitions carry the names of the code; a name that clashes with the library or
  with a sibling file has the component in front (\<open>uri_parse\<close> is \<open>HistoryResourceUri::parse\<close>). Structs
  are records, enums datatypes, \<open>Result\<close> is a sum with the error on the left, and an error message is a
  constructor with the values it prints. A hash map that is only read by key is a function or an
  association list, a hash set a list without duplicates; the code sorts whatever it returns of
  them. A \<open>while let\<close> loop is a recursive function with a termination proof. Where code of crates or
  of the standard library is needed and not modelled it is an argument: SHA-256, the SQLite clock
  functions, JSON sizes and Unicode lower-casing (\<open>query_env\<close>), base64 and the JSON form of cursors, the
  arithmetic of \<open>f64\<close> (\<open>f64_ops\<close>), the equality of records with \<open>f64\<close> fields, prior removals and the
  insertion of a delta (\<open>delta_env\<close>), the reads of stored history (\<open>history_reads\<close>), the check of a time
  and the cancellation flag (\<open>facts_env\<close>), JSON and the Unicode tables of the synthesis
  (\<open>synthesis_env\<close>). A theorem that leans on one of them names what it needs (\<open>url_safe_codec\<close>,
  \<open>faithful_json\<close> on the cursors that JSON carries exactly, \<open>exact_equality\<close>, \<open>faithful_history\<close>).
  Where the code can panic (an index, a slice, an unwrapped option) the model returns \<open>None\<close> and a
  theorem says that it does not, or exactly when it does. The process-wide cache of the exact index is
  modelled apart (it is transparent for snapshots with unique identifiers); \<open>resolve_node\<close> uses the
  index of its snapshot. An \<open>f64\<close> that is stored and not computed with is its bit pattern.

  \<^bold>\<open>Bounds and fuel.\<close> All bounds of the code are definitions with the names and values of the code.
  Only the walk back along the predecessors of a path (\<open>path_chain\<close>) uses fuel, the hop bound plus
  one; \<open>trace_graph_path_sound\<close> shows that it never runs out. Every other loop is total by a measure of
  its own state: the searches by the nodes not yet seen and then the edges left on the stack, the walks
  over parents by the facts not yet visited, the chain of a reconstruction by the history limit, the
  readers by the pieces left, the byte limits by the items left to shed. Costs and scores of \<open>graph_trust.rs\<close> are
  \<open>nat\<close> where the code has \<open>u32\<close>: they are sums of at most a few hundred small weights, far below the
  width. Positions in texts and lists are \<open>nat\<close>; parsing a cursor refuses what does not fit 64 bits.

  \<^bold>\<open>What modelling showed.\<close> The hop-bounded path search misses paths within the bound
  (\<open>trace_misses_bounded_path\<close>); only the first occurrence of a credential key is checked
  (\<open>second_credential_is_missed\<close>); a file cannot be resolved by its path because the exact index lists
  it three times (\<open>file_path_is_ambiguous\<close>); pages cut at the byte limit lose the shed nodes
  (\<open>overview_paging_loses_nodes\<close>); an e-mail address before a full stop and an absolute path after a
  colon pass the sanitizer (\<open>sentence_end_email_is_missed\<close>); the source of an imported node that has a
  path and no location is not cut as its path is (\<open>node_source_is_not_cut\<close>); a delta of more than five
  hundred added nodes loses nodes in silence (\<open>large_delta_loses_nodes\<close>); a mailmap line with a second
  opening bracket panics the reader (\<open>nested_bracket_panics\<close>) and an entry for an address alone hides
  the ones for a name at it (\<open>address_entry_hides_named_entries\<close>).

  \<^bold>\<open>Not modelled.\<close> Ranked search and \<open>shortest_path\<close> of the structural graph compare \<open>f64\<close> values, for
  which HOL-Library has no arithmetic; the summary with its suggested questions is left out with them.
  A failure to serialize a request is part of the parameter that serializes. The stages of a job other than its lease
  (inventory, linking, derivation, synthesis, publication), the language adapters and tree-sitter
  extraction, the stores and read models over SQLite, the run of Git and the commands of the history,
  review prompts and providers, agents and terminals, and the command glue are left out: they are input and output, SQL
  text or calls of parsers and models.

  \<^bold>\<open>Plan.\<close> Next: the structural contracts, symbol resolution and interchange
  (\<open>structural_graph/contracts.rs\<close>, \<open>resolve.rs\<close>, \<open>interchange.rs\<close>), argument validation of the MCP
  tools (\<open>mcp/validation.rs\<close>), the archaeology graph and the derivation of packets and clauses
  (\<open>graph.rs\<close>, the rest of \<open>deterministic_rules.rs\<close>), and publication of a generation in \<open>jobs.rs\<close>.
\<close>

end
